(* ===== verification/Prelude.thy ===== *)
theory Prelude
  imports Main "HOL-Library.Word" "HOL-Library.Finite_Map"
begin

text \<open>
  Shared vocabulary of the development: the Go values the components use and the generic facts
  about them.

  \<^item> \<open>gerr\<close> is a Go \<open>error\<close>. An \<open>ExitError\<close> carries its process exit code and a tag that
    identifies the message; formatted arguments of the message are left out. \<open>Joined\<close> is
    \<open>errors.Join\<close>, \<open>Native\<close> an error of code the model takes as a parameter.
  \<^item> \<open>'a res\<close> is a Go result pair \<open>(value, error)\<close>: \<open>Inl\<close> the error, \<open>Inr\<close> the value.
  \<^item> Go byte slices are lists of 8-bit words, Go strings are \<open>string\<close> (the UTF-8 bytes),
    Go \<open>int\<close> and \<open>int64\<close> values are \<open>int\<close>, and a Go map is a finite map.
\<close>

section \<open>Collections of facts\<close>

named_theorems slice_simps \<open>lengths and contents of Go slices\<close>
named_theorems run_simps \<open>folds of an operation over a sequence of inputs\<close>

section \<open>Errors and results\<close>

datatype gerr =
    Exit int string
  | Fail string
  | Native string
  | Joined gerr gerr

type_synonym 'a res = "gerr + 'a"

type_synonym byte = "8 word"
type_synonym bytes = "byte list"

fun is_ok :: "'a res \<Rightarrow> bool" where
  "is_ok (Inl e) = False"
| "is_ok (Inr x) = True"

lemma is_ok_iff: "is_ok r \<longleftrightarrow> (\<exists>x. r = Inr x)"
  by (cases r) auto

text \<open>\<open>errors.Join\<close> of possibly nil errors.\<close>

fun joinErrs :: "gerr option list \<Rightarrow> gerr option" where
  "joinErrs [] = None"
| "joinErrs (None # es) = joinErrs es"
| "joinErrs (Some e # es) = (case joinErrs es of None \<Rightarrow> Some e | Some e' \<Rightarrow> Some (Joined e e'))"

lemma joinErrs_None [simp]: "joinErrs es = None \<longleftrightarrow> (\<forall>e \<in> set es. e = None)"
  by (induction es rule: joinErrs.induct) (auto split: option.splits)

section \<open>Slices\<close>

text \<open>Go's built-in \<open>copy(dst, src)\<close>: the first \<open>min(len dst, len src)\<close> elements of \<open>dst\<close> are
  overwritten, and \<open>dst\<close> keeps its length. A slice and a view of the same array may overlap;
  the elements copied are those of \<open>src\<close> before the call.\<close>

definition go_copy :: "'a list \<Rightarrow> 'a list \<Rightarrow> 'a list" where
  "go_copy dst src = take (length dst) src @ drop (length src) dst"

lemma length_go_copy [simp, slice_simps]: "length (go_copy dst src) = length dst"
  by (simp add: go_copy_def)

lemma go_copy_full [simp]: "length src = length dst \<Longrightarrow> go_copy dst src = src"
  by (simp add: go_copy_def)

lemma go_copy_shift: "take (length xs - n) (go_copy xs (drop n xs)) = drop n xs"
  by (simp add: go_copy_def)

text \<open>\<open>lastn k xs\<close> is the last \<open>k\<close> elements, \<open>xs[len(xs)-k:]\<close>, all of them when there are fewer.\<close>

definition lastn :: "nat \<Rightarrow> 'a list \<Rightarrow> 'a list" where
  "lastn k xs = drop (length xs - k) xs"

lemma length_lastn [simp, slice_simps]: "length (lastn k xs) = min k (length xs)"
  by (auto simp: lastn_def)

lemma lastn_0 [simp]: "lastn 0 xs = []"
  by (simp add: lastn_def)

lemma lastn_Nil [simp]: "lastn k [] = []"
  by (simp add: lastn_def)

lemma lastn_all: "length xs \<le> k \<Longrightarrow> lastn k xs = xs"
  by (simp add: lastn_def)

lemma lastn_append_long: "k \<le> length ys \<Longrightarrow> lastn k (xs @ ys) = lastn k ys"
  by (simp add: lastn_def)

lemma lastn_append_short:
  "length ys \<le> k \<Longrightarrow> lastn k (xs @ ys) = lastn (k - length ys) xs @ ys"
  by (simp add: lastn_def algebra_simps)


lemma concat_snoc [run_simps]: "concat (ps @ [p]) = concat ps @ p"
  by simp

section \<open>Procedures with state and errors\<close>

text \<open>A Go procedure that works on some state and returns \<open>(value, error)\<close>: what it changed before
  an error stays changed. \<open>bindR\<close> is the \<open>if err != nil { return err }\<close> chain.\<close>

type_synonym ('s, 'a) proc = "'s \<Rightarrow> 's \<times> 'a res"

definition returnR :: "'a \<Rightarrow> ('s, 'a) proc" where
  "returnR x s = (s, Inr x)"

definition failR :: "gerr \<Rightarrow> ('s, 'a) proc" where
  "failR e s = (s, Inl e)"

definition bindR :: "('s, 'a) proc \<Rightarrow> ('a \<Rightarrow> ('s, 'b) proc) \<Rightarrow> ('s, 'b) proc" where
  "bindR m f s = (case m s of (s', Inl e) \<Rightarrow> (s', Inl e) | (s', Inr x) \<Rightarrow> f x s')"

definition checkR :: "gerr option \<Rightarrow> ('s, unit) proc" where
  "checkR e s = (s, case e of Some x \<Rightarrow> Inl x | None \<Rightarrow> Inr ())"

definition requireR :: "bool \<Rightarrow> gerr \<Rightarrow> ('s, unit) proc" where
  "requireR b e s = (s, if b then Inr () else Inl e)"

definition stateR :: "('s \<Rightarrow> 's \<times> gerr option) \<Rightarrow> ('s, unit) proc" where
  "stateR f s = (case f s of (s', Some e) \<Rightarrow> (s', Inl e) | (s', None) \<Rightarrow> (s', Inr ()))"

text \<open>A procedure keeps a relation between its initial and final state, whatever its result.\<close>

definition keeps :: "('s \<Rightarrow> 's \<Rightarrow> bool) \<Rightarrow> ('s, 'a) proc \<Rightarrow> bool" where
  "keeps R m \<longleftrightarrow> (\<forall>s. R s (fst (m s)))"

named_theorems keeps_intros \<open>procedures that keep a reflexive transitive relation\<close>

lemma keepsD: "keeps R m \<Longrightarrow> m s = (s', r) \<Longrightarrow> R s s'"
  unfolding keeps_def by (metis fst_conv)

lemma keeps_returnR [keeps_intros]: "reflp R \<Longrightarrow> keeps R (returnR x)"
  by (auto simp: keeps_def returnR_def reflp_def)

lemma keeps_failR [keeps_intros]: "reflp R \<Longrightarrow> keeps R (failR e)"
  by (auto simp: keeps_def failR_def reflp_def)

lemma keeps_checkR [keeps_intros]: "reflp R \<Longrightarrow> keeps R (checkR e)"
  by (auto simp: keeps_def checkR_def reflp_def)

lemma keeps_requireR [keeps_intros]: "reflp R \<Longrightarrow> keeps R (requireR b e)"
  by (auto simp: keeps_def requireR_def reflp_def)

lemma keeps_bindR [keeps_intros]:
  assumes "transp R" and "keeps R m" and "\<And>x. keeps R (f x)"
  shows "keeps R (bindR m f)"
  unfolding keeps_def
proof
  fix s
  obtain s' r where m: "m s = (s', r)" by fastforce
  then have 1: "R s s'" using assms(2) keepsD by fast
  show "R s (fst (bindR m f s))"
  proof (cases r)
    case (Inl e)
    then show ?thesis using 1 m by (simp add: bindR_def)
  next
    case (Inr x)
    have "R s' (fst (f x s'))" using assms(3) by (simp add: keeps_def)
    with 1 have "R s (fst (f x s'))" using transpD [OF assms(1)] by blast
    with Inr m show ?thesis by (simp add: bindR_def)
  qed
qed

lemma keeps_if [keeps_intros]: "(b \<Longrightarrow> keeps R m) \<Longrightarrow> (\<not> b \<Longrightarrow> keeps R n) \<Longrightarrow> keeps R (if b then m else n)"
  by simp

text \<open>Inverting a successful run.\<close>

lemma bindR_Inr:
  "bindR m f s = (s2, Inr y) \<longleftrightarrow> (\<exists>s1 x. m s = (s1, Inr x) \<and> f x s1 = (s2, Inr y))"
  by (auto simp: bindR_def split: prod.splits sum.splits)

lemma bindR_cases:
  assumes "bindR m f s = (s2, r)"
  obtains (first) e where "m s = (s2, Inl e)" "r = Inl e"
  | (both) s1 x where "m s = (s1, Inr x)" "f x s1 = (s2, r)"
  using assms by (auto simp: bindR_def split: prod.splits sum.splits)

lemma checkR_Inr [simp]: "checkR e s = (s2, Inr y) \<longleftrightarrow> s2 = s \<and> e = None"
  by (auto simp: checkR_def split: option.splits)

lemma requireR_Inr [simp]: "requireR b e s = (s2, Inr y) \<longleftrightarrow> s2 = s \<and> b"
  by (auto simp: requireR_def)

lemma stateR_Inr: "stateR f s = (s2, Inr y) \<longleftrightarrow> f s = (s2, None)"
  by (auto simp: stateR_def split: prod.splits option.splits)

lemma returnR_Inr [simp]: "returnR x s = (s2, Inr y) \<longleftrightarrow> s2 = s \<and> y = x"
  by (auto simp: returnR_def)

lemma failR_Inr [simp]: "failR e s \<noteq> (s2, Inr y)"
  by (simp add: failR_def)

lemma fst_stateR: "fst (stateR f s) = fst (f s)"
  by (auto simp: stateR_def split: prod.splits option.splits)

lemmas bindR_run = bindR_def checkR_def requireR_def returnR_def failR_def stateR_def

section \<open>Compare and swap\<close>

text \<open>How often a command selected by \<open>p\<close> changes the state in a history.\<close>

fun firings :: "('c \<Rightarrow> 's \<Rightarrow> 's) \<Rightarrow> ('c \<Rightarrow> bool) \<Rightarrow> 's \<Rightarrow> 'c list \<Rightarrow> nat" where
  "firings step p s [] = 0"
| "firings step p s (c # cs) =
     (if p c \<and> step c s \<noteq> s then 1 else 0) + firings step p (step c s) cs"

text \<open>
  The contract of a store whose writers are guarded by the value they read: \<open>look\<close> is the content
  of a cell, \<open>expects c v\<close> says that command \<open>c\<close> acts only on content \<open>v\<close>, and \<open>avoids c v\<close> that it
  never writes \<open>v\<close> (its writes carry a fresh revision).
\<close>

locale cas_cell =
  fixes look :: "'s \<Rightarrow> 'k \<Rightarrow> 'v"
    and step :: "'c \<Rightarrow> 's \<Rightarrow> 's"
    and target :: "'c \<Rightarrow> 'k"
    and expects :: "'c \<Rightarrow> 'v \<Rightarrow> bool"
    and avoids :: "'c \<Rightarrow> 'v \<Rightarrow> bool"
    and good :: "'s \<Rightarrow> bool"
  assumes good_step: "good s \<Longrightarrow> good (step c s)"
    and frame: "good s \<Longrightarrow> k \<noteq> target c \<Longrightarrow> look (step c s) k = look s k"
    and guarded: "good s \<Longrightarrow> expects c v \<Longrightarrow> look s (target c) \<noteq> v \<Longrightarrow> step c s = s"
    and fresh: "good s \<Longrightarrow> avoids c v \<Longrightarrow> step c s \<noteq> s \<Longrightarrow> look (step c s) (target c) \<noteq> v"
begin

lemma step_leaves:
  assumes "good s" "avoids c v" "look s k \<noteq> v"
  shows "look (step c s) k \<noteq> v"
  using assms fresh frame by (cases "step c s = s"; cases "k = target c") auto

lemma gone_stays_gone:
  assumes "good s" "\<forall>c \<in> set cs. avoids c v" "look s k \<noteq> v"
  shows "firings step (\<lambda>c. target c = k \<and> expects c v) s cs = 0"
  using assms
proof (induction cs arbitrary: s)
  case (Cons c cs)
  then have "firings step (\<lambda>c. target c = k \<and> expects c v) (step c s) cs = 0"
    using step_leaves good_step by simp
  moreover have "target c = k \<and> expects c v \<Longrightarrow> step c s = s"
    using guarded Cons.prems by blast
  ultimately show ?case by auto
qed simp

theorem one_winner:
  assumes "good s" "\<forall>c \<in> set cs. avoids c v"
  shows "firings step (\<lambda>c. target c = k \<and> expects c v) s cs \<le> 1"
  using assms
proof (induction cs arbitrary: s)
  case (Cons c cs)
  show ?case
  proof (cases "target c = k \<and> expects c v \<and> step c s \<noteq> s")
    case True
    then have "look (step c s) k \<noteq> v" using fresh Cons.prems by auto
    then have "firings step (\<lambda>c. target c = k \<and> expects c v) (step c s) cs = 0"
      using gone_stays_gone good_step Cons.prems by simp
    with True show ?thesis by simp
  next
    case False
    with Cons good_step show ?thesis by auto
  qed
qed simp

end

end
