(* ===== verification/Buffers.thy ===== *)
theory Buffers
  imports Prelude
begin

text \<open>
  The bounded output sinks of the program.

  \<^item> \<open>internal/tailbuffer/buffer.go\<close>: \<open>tailbuf\<close>, keeps the last bytes written;
  \<^item> \<open>internal/prefixbuffer/buffer.go\<close>: \<open>prefixbuf\<close>, keeps the first bytes written;
  \<^item> \<open>internal/runner/server.go\<close>, type \<open>limitedOutput\<close>: a writer that refuses what does not fit;
  \<^item> \<open>internal/cli/shard.go\<close>, type \<open>prefixLineWriter\<close>: prefixes every output line of a shard.

  The contract of the two buffers is the locale \<open>retaining_sink\<close>: what a buffer shows after any
  sequence of writes is a function of the concatenation of what was written, and its flag tells
  whether a byte was dropped. Both buffers interpret it.
\<close>

section \<open>The contract of a retaining buffer\<close>

text \<open>
  \<open>keep\<close> is what the buffer promises to retain of the whole input, \<open>fits\<close> when it promises to
  retain everything. \<open>good b h\<close> says that buffer \<open>b\<close> is in a state that input \<open>h\<close> can produce.
\<close>

locale retaining_sink =
  fixes start :: 'b
    and put :: "'b \<Rightarrow> bytes \<Rightarrow> 'b \<times> int"
    and view :: "'b \<Rightarrow> bytes"
    and over :: "'b \<Rightarrow> bool"
    and keep :: "bytes \<Rightarrow> bytes"
    and fits :: "bytes \<Rightarrow> bool"
    and good :: "'b \<Rightarrow> bytes \<Rightarrow> bool"
  assumes good_start: "good start []"
    and good_put: "good b h \<Longrightarrow> good (fst (put b p)) (h @ p)"
    and put_count: "good b h \<Longrightarrow> snd (put b p) = int (length p)"
    and good_view: "good b h \<Longrightarrow> view b = keep h"
    and good_over: "good b h \<Longrightarrow> over b = (\<not> fits h)"
begin

lemma run_good:
  "good b h \<Longrightarrow> good (foldl (\<lambda>b p. fst (put b p)) b ps) (h @ concat ps)"
proof (induction ps arbitrary: b h)
  case Nil
  then show ?case by simp
next
  case (Cons p ps)
  from Cons.prems have "good (fst (put b p)) (h @ p)"
    by (rule good_put)
  from Cons.IH [OF this] show ?case by simp
qed

lemma run_view: "view (foldl (\<lambda>b p. fst (put b p)) start ps) = keep (concat ps)"
  using run_good [OF good_start, of ps] good_view by fastforce

lemma run_over: "over (foldl (\<lambda>b p. fst (put b p)) start ps) = (\<not> fits (concat ps))"
  using run_good [OF good_start, of ps] good_over by fastforce

lemma run_count:
  "snd (put (foldl (\<lambda>b p. fst (put b p)) start ps) p) = int (length p)"
  using run_good [OF good_start, of ps] put_count by fastforce

text \<open>How the input was cut into writes is not observable.\<close>

lemma run_chunking:
  "concat ps = concat qs \<Longrightarrow>
   view (foldl (\<lambda>b p. fst (put b p)) start ps) = view (foldl (\<lambda>b p. fst (put b p)) start qs)
   \<and> over (foldl (\<lambda>b p. fst (put b p)) start ps) = over (foldl (\<lambda>b p. fst (put b p)) start qs)"
  by (simp add: run_view run_over)

end

section \<open>The tail buffer\<close>

record tailbuf =
  tb_data :: bytes
  tb_limit :: int
  tb_exceeded :: bool

definition tail_NewLimited :: "int \<Rightarrow> tailbuf" where
  "tail_NewLimited maxBytes = \<lparr>tb_data = [], tb_limit = max 0 maxBytes, tb_exceeded = False\<rparr>"

definition tail_Write :: "tailbuf \<Rightarrow> bytes \<Rightarrow> tailbuf \<times> int" where
  "tail_Write b p =
     (let n = int (length p) in
      if tb_limit b = 0 then
        (b\<lparr>tb_exceeded := tb_exceeded b \<or> n > 0\<rparr>, n)
      else if n \<ge> tb_limit b then
        (b\<lparr>tb_exceeded := tb_exceeded b \<or> length (tb_data b) > 0 \<or> n > tb_limit b,
           tb_data := drop (nat (n - tb_limit b)) p\<rparr>, n)
      else
        (let overflow = n - (tb_limit b - int (length (tb_data b)));
             b' = (if overflow > 0 then
                     b\<lparr>tb_data := take (length (tb_data b) - nat overflow)
                         (go_copy (tb_data b) (drop (nat overflow) (tb_data b))),
                       tb_exceeded := True\<rparr>
                   else b)
         in (b'\<lparr>tb_data := tb_data b' @ p\<rparr>, n)))"

definition tail_Bytes :: "tailbuf \<Rightarrow> bytes" where
  "tail_Bytes b = tb_data b"

definition tail_Exceeded :: "tailbuf \<Rightarrow> bool" where
  "tail_Exceeded b = tb_exceeded b"

definition tail_good :: "int \<Rightarrow> tailbuf \<Rightarrow> bytes \<Rightarrow> bool" where
  "tail_good maxBytes b h \<longleftrightarrow>
     tb_limit b = max 0 maxBytes \<and> tb_data b = lastn (nat maxBytes) h
     \<and> tb_exceeded b = (length h > nat maxBytes)"

text \<open>The in-place shift of \<open>copy\<close> followed by the truncation drops the oldest bytes.\<close>

lemma tail_Write_small:
  assumes "0 < tb_limit b" and "int (length p) < tb_limit b"
  shows "tail_Write b p =
     (let overflow = int (length p) - (tb_limit b - int (length (tb_data b)))
      in (b\<lparr>tb_data := (if overflow > 0 then drop (nat overflow) (tb_data b) else tb_data b) @ p,
            tb_exceeded := tb_exceeded b \<or> overflow > 0\<rparr>, int (length p)))"
  using assms by (simp add: tail_Write_def Let_def go_copy_shift)

lemma tail_good_write:
  assumes "tail_good m b h"
  shows "tail_good m (fst (tail_Write b p)) (h @ p)"
proof -
  have lim: "tb_limit b = max 0 m" and dat: "tb_data b = lastn (nat m) h"
    and exc: "tb_exceeded b = (length h > nat m)"
    using assms by (auto simp: tail_good_def)
  consider (zero) "m \<le> 0" | (big) "0 < m" "int (length p) \<ge> m" | (small) "0 < m" "int (length p) < m"
    by linarith
  then show ?thesis
  proof cases
    case zero
    then show ?thesis
      using lim dat exc by (auto simp: tail_good_def tail_Write_def Let_def)
  next
    case big
    then have "nat m \<le> length p" by linarith
    then have "lastn (nat m) (h @ p) = drop (nat (int (length p) - m)) p"
      using big by (simp add: lastn_append_long lastn_def nat_diff_distrib)
    then show ?thesis
      using big lim dat exc
      by (cases h) (auto simp: tail_good_def tail_Write_def Let_def min_def split: if_splits)
  next
    case small
    let ?ov = "int (length p) - (m - int (min (nat m) (length h)))"
    have keep: "lastn (nat m) (h @ p) = lastn (nat m - length p) h @ p"
      using small by (intro lastn_append_short) linarith
    show ?thesis
    proof (cases "?ov > 0")
      case True
      then have "drop (nat ?ov) (lastn (nat m) h) = lastn (nat m - length p) h"
        using small by (auto simp: lastn_def min_def nat_diff_distrib intro!: arg_cong [of _ _ "\<lambda>n. drop n h"])
      then show ?thesis
        using True small lim dat exc keep
        by (auto simp: tail_good_def tail_Write_small Let_def min_def split: if_splits)
    next
      case False
      then have "p = [] \<or> length h + length p \<le> nat m"
        using small by (cases p) (auto simp: min_def split: if_splits)
      then have "lastn (nat m - length p) h = lastn (nat m) h"
        and "(nat m < length h + length p) = (nat m < length h)"
        by (auto simp: lastn_all)
      then show ?thesis
        using False small lim dat exc keep
        by (simp add: tail_good_def tail_Write_small Let_def)
    qed
  qed
qed

interpretation tail: retaining_sink "tail_NewLimited m" tail_Write tail_Bytes tail_Exceeded
  "lastn (nat m)" "\<lambda>h. length h \<le> nat m" "tail_good m" for m
proof unfold_locales
  show "tail_good m (tail_NewLimited m) []"
    by (simp add: tail_good_def tail_NewLimited_def)
next
  fix b h p assume "tail_good m b h"
  then show "tail_good m (fst (tail_Write b p)) (h @ p)" by (rule tail_good_write)
next
  fix b h p show "snd (tail_Write b p) = int (length p)"
    by (simp add: tail_Write_def Let_def)
next
  fix b h assume "tail_good m b h"
  then show "tail_Bytes b = lastn (nat m) h" and "tail_Exceeded b = (\<not> length h \<le> nat m)"
    by (auto simp: tail_good_def tail_Bytes_def tail_Exceeded_def)
qed

section \<open>The prefix buffer\<close>

record prefixbuf =
  pb_buffer :: bytes
  pb_limit :: int
  pb_unlimited :: bool
  pb_exceeded :: bool

definition prefix_NewLimited :: "int \<Rightarrow> prefixbuf" where
  "prefix_NewLimited maxBytes =
     \<lparr>pb_buffer = [], pb_limit = (if maxBytes < 0 then 0 else maxBytes),
      pb_unlimited = False, pb_exceeded = False\<rparr>"

definition prefix_NewUnlimited :: prefixbuf where
  "prefix_NewUnlimited = \<lparr>pb_buffer = [], pb_limit = 0, pb_unlimited = True, pb_exceeded = False\<rparr>"

definition prefix_Write :: "prefixbuf \<Rightarrow> bytes \<Rightarrow> prefixbuf \<times> int" where
  "prefix_Write b p =
     (if pb_unlimited b then (b\<lparr>pb_buffer := pb_buffer b @ p\<rparr>, int (length p))
      else
        (let original = int (length p);
             remaining = pb_limit b - int (length (pb_buffer b));
             over = int (length p) > remaining;
             p' = (if over then take (nat remaining) p else p)
         in (b\<lparr>pb_exceeded := pb_exceeded b \<or> over, pb_buffer := pb_buffer b @ p'\<rparr>, original)))"

definition prefix_Bytes :: "prefixbuf \<Rightarrow> bytes" where
  "prefix_Bytes b = pb_buffer b"

definition prefix_Exceeded :: "prefixbuf \<Rightarrow> bool" where
  "prefix_Exceeded b = pb_exceeded b"

definition prefix_good :: "int \<Rightarrow> prefixbuf \<Rightarrow> bytes \<Rightarrow> bool" where
  "prefix_good m b h \<longleftrightarrow>
     \<not> pb_unlimited b \<and> pb_limit b = max 0 m \<and> pb_buffer b = take (nat m) h
     \<and> pb_exceeded b = (length h > nat m)"

lemma prefix_good_write:
  assumes "prefix_good m b h"
  shows "prefix_good m (fst (prefix_Write b p)) (h @ p)"
proof -
  have r: "nat (max 0 m - int (min (length h) (nat m))) = nat m - length h"
    by (auto simp: min_def max_def nat_diff_distrib)
  show ?thesis
    using assms r by (auto simp: prefix_good_def prefix_Write_def Let_def min_def max_def split: if_splits)
qed

interpretation pfx: retaining_sink "prefix_NewLimited m" prefix_Write prefix_Bytes prefix_Exceeded
  "take (nat m)" "\<lambda>h. length h \<le> nat m" "prefix_good m" for m
proof unfold_locales
  show "prefix_good m (prefix_NewLimited m) []"
    by (simp add: prefix_good_def prefix_NewLimited_def)
next
  fix b h p assume "prefix_good m b h"
  then show "prefix_good m (fst (prefix_Write b p)) (h @ p)" by (rule prefix_good_write)
next
  fix b h p show "snd (prefix_Write b p) = int (length p)"
    by (simp add: prefix_Write_def Let_def)
next
  fix b h assume "prefix_good m b h"
  then show "prefix_Bytes b = take (nat m) h" and "prefix_Exceeded b = (\<not> length h \<le> nat m)"
    by (auto simp: prefix_good_def prefix_Bytes_def prefix_Exceeded_def)
qed

interpretation pfxu: retaining_sink prefix_NewUnlimited prefix_Write prefix_Bytes prefix_Exceeded
  "\<lambda>h. h" "\<lambda>h. True" "\<lambda>b h. pb_unlimited b \<and> pb_buffer b = h \<and> \<not> pb_exceeded b"
  by unfold_locales
    (auto simp: prefix_NewUnlimited_def prefix_Write_def prefix_Bytes_def prefix_Exceeded_def)

section \<open>The refusing writer of the runner\<close>

text \<open>
  \<open>limitedOutput\<close> wraps a writer. The wrapped writer is a \<open>bytes.Buffer\<close> where the runner uses
  it; \<open>accepts\<close> is the number of bytes the wrapped writer takes of a given write, with its error.
\<close>

record limited_output =
  lo_written :: bytes
  lo_remaining :: int

definition limited_Write ::
  "(bytes \<Rightarrow> nat \<times> gerr option) \<Rightarrow> limited_output \<Rightarrow> bytes \<Rightarrow> limited_output \<times> int \<times> gerr option" where
  "limited_Write accepts w p =
     (if int (length p) > lo_remaining w then
        (w, 0, Some (Fail ''runner subprocess output exceeds limit''))
      else
        (case accepts p of (n, err) \<Rightarrow>
           (w\<lparr>lo_written := lo_written w @ take n p, lo_remaining := lo_remaining w - int n\<rparr>, int n, err)))"

fun limited_run :: "(bytes \<Rightarrow> nat \<times> gerr option) \<Rightarrow> limited_output \<Rightarrow> bytes list \<Rightarrow> limited_output" where
  "limited_run accepts w [] = w"
| "limited_run accepts w (p # ps) = limited_run accepts (fst (limited_Write accepts w p)) ps"

lemma limited_Write_budget:
  assumes "\<And>p. fst (accepts p) \<le> length p" and "0 \<le> lo_remaining w"
  shows "0 \<le> lo_remaining (fst (limited_Write accepts w p))
       \<and> int (length (lo_written (fst (limited_Write accepts w p))))
           + lo_remaining (fst (limited_Write accepts w p))
         = int (length (lo_written w)) + lo_remaining w"
  using assms(1) [of p] assms(2)
  by (cases "accepts p") (auto simp: limited_Write_def min_def)

lemma limited_run_budget:
  assumes "\<And>p. fst (accepts p) \<le> length p" and "0 \<le> lo_remaining w"
  shows "0 \<le> lo_remaining (limited_run accepts w ps)
       \<and> int (length (lo_written (limited_run accepts w ps))) + lo_remaining (limited_run accepts w ps)
         = int (length (lo_written w)) + lo_remaining w"
  using assms(2)
proof (induction ps arbitrary: w)
  case Nil
  then show ?case by simp
next
  case (Cons p ps)
  note step = limited_Write_budget [OF assms(1) Cons.prems, of p]
  with Cons.IH [of "fst (limited_Write accepts w p)"] show ?case by simp
qed

section \<open>The line prefixing writer of a shard\<close>

text \<open>
  \<open>lw_sink\<close> is what the wrapped writer will do with its next calls: \<open>None\<close> takes the whole write,
  \<open>Some n\<close> takes \<open>n\<close> bytes and fails; after the list it always succeeds. The mutex the code holds
  during each call makes a call atomic, so a call is one function on the state.
\<close>

record line_writer =
  lw_out :: bytes
  lw_prefix :: bytes
  lw_buf :: bytes
  lw_sink :: "nat option list"

definition shardPartialLineLimit :: nat where
  "shardPartialLineLimit = 64 * 1024"

definition newline :: byte where
  "newline = 10"

definition sink_write :: "line_writer \<Rightarrow> bytes \<Rightarrow> line_writer \<times> gerr option" where
  "sink_write w p =
     (case lw_sink w of
        [] \<Rightarrow> (w\<lparr>lw_out := lw_out w @ p\<rparr>, None)
      | None # r \<Rightarrow> (w\<lparr>lw_out := lw_out w @ p, lw_sink := r\<rparr>, None)
      | Some n # r \<Rightarrow> (w\<lparr>lw_out := lw_out w @ take n p, lw_sink := r\<rparr>, Some (Native ''write'')))"

definition emitLocked :: "line_writer \<Rightarrow> bytes \<Rightarrow> line_writer \<times> gerr option" where
  "emitLocked w line =
     (case sink_write w (lw_prefix w) of
        (w1, Some e) \<Rightarrow> (w1, Some e)
      | (w1, None) \<Rightarrow> sink_write w1 line)"

fun newline_index :: "bytes \<Rightarrow> nat option" where
  "newline_index [] = None"
| "newline_index (b # bs) = (if b = newline then Some 0 else map_option Suc (newline_index bs))"

lemma newline_index_Some:
  "newline_index bs = Some i \<Longrightarrow> i < length bs \<and> bs ! i = newline \<and> newline \<notin> set (take i bs)"
  by (induction bs arbitrary: i) (auto split: if_splits)

lemma newline_index_None: "newline_index bs = None \<longleftrightarrow> newline \<notin> set bs"
  by (induction bs) auto

function emit_lines :: "line_writer \<Rightarrow> line_writer \<times> gerr option" where
  "emit_lines w =
     (case newline_index (lw_buf w) of
        None \<Rightarrow> (w, None)
      | Some idx \<Rightarrow>
          (case emitLocked w (take (Suc idx) (lw_buf w)) of
             (w', Some e) \<Rightarrow> (w', Some e)
           | (w', None) \<Rightarrow> emit_lines (w'\<lparr>lw_buf := drop (Suc idx) (lw_buf w)\<rparr>)))"
  by pat_completeness auto
termination
  by (relation "measure (\<lambda>w. length (lw_buf w))") (auto dest: newline_index_Some)

declare emit_lines.simps [simp del]

definition line_Write :: "line_writer \<Rightarrow> bytes \<Rightarrow> line_writer \<times> int \<times> gerr option" where
  "line_Write w p =
     (case emit_lines (w\<lparr>lw_buf := lw_buf w @ p\<rparr>) of
        (w1, Some e) \<Rightarrow> (w1, int (length p), Some e)
      | (w1, None) \<Rightarrow>
          (if length (lw_buf w1) > shardPartialLineLimit then
             (case emitLocked (w1\<lparr>lw_buf := []\<rparr>) (lw_buf w1 @ [newline]) of
                (w2, err) \<Rightarrow> (w2, int (length p), err))
           else (w1, int (length p), None)))"

definition line_Flush :: "line_writer \<Rightarrow> line_writer \<times> gerr option" where
  "line_Flush w =
     (if lw_buf w = [] then (w, None)
      else emitLocked (w\<lparr>lw_buf := []\<rparr>) (lw_buf w @ [newline]))"

text \<open>The reference: the complete lines of an input, and the bytes after its last newline.\<close>

fun split_lines :: "bytes \<Rightarrow> bytes \<Rightarrow> bytes list \<times> bytes" where
  "split_lines acc [] = ([], acc)"
| "split_lines acc (b # bs) =
     (if b = newline then (case split_lines [] bs of (ls, r) \<Rightarrow> ((acc @ [b]) # ls, r))
      else split_lines (acc @ [b]) bs)"

definition render_lines :: "bytes \<Rightarrow> bytes list \<Rightarrow> bytes" where
  "render_lines pre ls = concat (map (\<lambda>l. pre @ l) ls)"

lemma render_lines_simps [simp]:
  "render_lines pre [] = []"
  "render_lines pre (l # ls) = pre @ l @ render_lines pre ls"
  "render_lines pre (ls @ ms) = render_lines pre ls @ render_lines pre ms"
  by (auto simp: render_lines_def)

lemma split_lines_acc:
  "newline \<notin> set as \<Longrightarrow> split_lines acc (as @ bs) = split_lines (acc @ as) bs"
  by (induction as arbitrary: acc) auto

lemma split_lines_append:
  "split_lines acc (xs @ ys) =
     (case split_lines acc xs of (ls, r) \<Rightarrow>
        (case split_lines r ys of (ms, s) \<Rightarrow> (ls @ ms, s)))"
  by (induction acc xs rule: split_lines.induct) (auto split: prod.splits)

lemma split_lines_rest_no_newline:
  "newline \<notin> set acc \<Longrightarrow> newline \<notin> set (snd (split_lines acc xs))"
  by (induction acc xs rule: split_lines.induct) (auto split: prod.splits)

lemma split_lines_no_newline: "newline \<notin> set xs \<Longrightarrow> split_lines [] xs = ([], xs)"
  using split_lines_acc [of xs "[]" "[]"] by simp

lemma split_lines_at_newline:
  assumes "newline_index bs = Some i"
  shows "split_lines [] bs =
     (take (Suc i) bs # fst (split_lines [] (drop (Suc i) bs)), snd (split_lines [] (drop (Suc i) bs)))"
proof -
  from newline_index_Some [OF assms] have i: "i < length bs" "bs ! i = newline" "newline \<notin> set (take i bs)"
    by auto
  have "bs = take i bs @ newline # drop (Suc i) bs"
    using i by (metis id_take_nth_drop)
  then have "split_lines [] bs = split_lines (take i bs) (newline # drop (Suc i) bs)"
    using split_lines_acc [OF i(3), of "[]" "newline # drop (Suc i) bs"] by simp
  moreover have "take i bs @ [newline] = take (Suc i) bs"
    using i by (simp add: take_Suc_conv_app_nth)
  ultimately show ?thesis by (simp split: prod.splits)
qed

lemma emitLocked_ok:
  "lw_sink w = [] \<Longrightarrow> emitLocked w line = (w\<lparr>lw_out := lw_out w @ lw_prefix w @ line\<rparr>, None)"
  by (simp add: emitLocked_def sink_write_def)

lemma emit_lines_ok:
  assumes "lw_sink w = []"
  shows "emit_lines w =
     (w\<lparr>lw_out := lw_out w @ render_lines (lw_prefix w) (fst (split_lines [] (lw_buf w))),
        lw_buf := snd (split_lines [] (lw_buf w))\<rparr>, None)"
  using assms
proof (induction w rule: emit_lines.induct)
  case (1 w)
  show ?case
  proof (cases "newline_index (lw_buf w)")
    case None
    then have "newline \<notin> set (lw_buf w)" by (simp add: newline_index_None)
    then show ?thesis
      using None by (subst emit_lines.simps) (simp add: split_lines_no_newline)
  next
    case (Some i)
    let ?w = "w\<lparr>lw_out := lw_out w @ lw_prefix w @ take (Suc i) (lw_buf w),
                lw_buf := drop (Suc i) (lw_buf w)\<rparr>"
    have step: "emit_lines w = emit_lines ?w"
      using Some "1.prems" by (subst emit_lines.simps) (simp add: emitLocked_ok)
    have "emit_lines ?w =
      (?w\<lparr>lw_out := lw_out ?w @ render_lines (lw_prefix ?w) (fst (split_lines [] (lw_buf ?w))),
          lw_buf := snd (split_lines [] (lw_buf ?w))\<rparr>, None)"
      using "1.IH" [OF Some] "1.prems" by (simp add: emitLocked_ok)
    then show ?thesis
      using step split_lines_at_newline [OF Some] by simp
  qed
qed

text \<open>A chunk sequence stays within the partial line limit when no write leaves a longer rest.\<close>

fun within_line_limit :: "bytes \<Rightarrow> bytes list \<Rightarrow> bool" where
  "within_line_limit r [] = True"
| "within_line_limit r (p # ps) =
     (let r' = snd (split_lines r p)
      in length r' \<le> shardPartialLineLimit \<and> within_line_limit r' ps)"

lemma line_Write_ok:
  assumes "lw_sink w = []" and "newline \<notin> set (lw_buf w)"
    and "length (snd (split_lines (lw_buf w) p)) \<le> shardPartialLineLimit"
  shows "line_Write w p =
     (w\<lparr>lw_out := lw_out w @ render_lines (lw_prefix w) (fst (split_lines (lw_buf w) p)),
        lw_buf := snd (split_lines (lw_buf w) p)\<rparr>, int (length p), None)"
proof -
  have "split_lines [] (lw_buf w @ p) = split_lines (lw_buf w) p"
    using split_lines_acc [OF assms(2), of "[]" p] by simp
  then show ?thesis
    using assms by (simp add: line_Write_def emit_lines_ok)
qed

lemma line_run_ok:
  assumes "lw_sink w = []" and "newline \<notin> set (lw_buf w)" and "within_line_limit (lw_buf w) ps"
  shows "foldl (\<lambda>w p. fst (line_Write w p)) w ps =
     w\<lparr>lw_out := lw_out w @ render_lines (lw_prefix w) (fst (split_lines (lw_buf w) (concat ps))),
       lw_buf := snd (split_lines (lw_buf w) (concat ps))\<rparr>"
  using assms
proof (induction ps arbitrary: w)
  case Nil
  then show ?case by simp
next
  case (Cons p ps)
  let ?w = "fst (line_Write w p)"
  have lim: "length (snd (split_lines (lw_buf w) p)) \<le> shardPartialLineLimit"
    and rest: "within_line_limit (snd (split_lines (lw_buf w) p)) ps"
    using Cons.prems(3) by (auto simp: Let_def)
  have w: "?w = w\<lparr>lw_out := lw_out w @ render_lines (lw_prefix w) (fst (split_lines (lw_buf w) p)),
        lw_buf := snd (split_lines (lw_buf w) p)\<rparr>"
    using line_Write_ok [OF Cons.prems(1,2) lim] by simp
  have "newline \<notin> set (snd (split_lines (lw_buf w) p))"
    using split_lines_rest_no_newline [OF Cons.prems(2)] .
  then have "foldl (\<lambda>w p. fst (line_Write w p)) ?w ps =
     ?w\<lparr>lw_out := lw_out ?w @ render_lines (lw_prefix ?w) (fst (split_lines (lw_buf ?w) (concat ps))),
       lw_buf := snd (split_lines (lw_buf ?w) (concat ps))\<rparr>"
    using Cons.IH [of ?w] Cons.prems(1) rest w by simp
  then show ?case
    by (simp add: w split_lines_append split: prod.splits)
qed

text \<open>Any chunking: the pieces of the input that became lines of the output, each with whether the input had
  a newline after it.\<close>

definition render_pieces :: "bytes \<Rightarrow> (bytes \<times> bool) list \<Rightarrow> bytes" where
  "render_pieces pre xs = concat (map (\<lambda>(l, ended). pre @ l @ [newline]) xs)"

definition input_of :: "(bytes \<times> bool) list \<Rightarrow> bytes" where
  "input_of xs = concat (map (\<lambda>(l, ended). l @ (if ended then [newline] else [])) xs)"

definition lawful_piece :: "bytes \<times> bool \<Rightarrow> bool" where
  "lawful_piece x \<longleftrightarrow> newline \<notin> set (fst x) \<and> (snd x \<or> shardPartialLineLimit < length (fst x))"

lemma pieces_append [simp]:
  "render_pieces pre (xs @ ys) = render_pieces pre xs @ render_pieces pre ys" "input_of (xs @ ys) = input_of xs @ input_of ys"
  "render_pieces pre [] = []" "input_of [] = []"
  "render_pieces pre [(l, b)] = pre @ l @ [newline]" "input_of [(l, b)] = l @ (if b then [newline] else [])"
  by (simp_all add: render_pieces_def input_of_def)

lemma split_lines_pieces:
  assumes "newline \<notin> set acc"
  shows "\<exists>xs. fst (split_lines acc bs) = map (\<lambda>x. fst x @ [newline]) xs \<and> input_of xs @ snd (split_lines acc bs) = acc @ bs
     \<and> render_lines pre (fst (split_lines acc bs)) = render_pieces pre xs \<and> (\<forall>x \<in> set xs. lawful_piece x)"
  using assms
proof (induction acc bs rule: split_lines.induct)
  case (1 acc)
  then show ?case by (intro exI [of _ "[]"]) simp
next
  case (2 acc b bs)
  show ?case
  proof (cases "b = newline")
    case True
    then obtain xs where xs: "fst (split_lines [] bs) = map (\<lambda>x. fst x @ [newline]) xs" "input_of xs @ snd (split_lines [] bs) = bs"
      "render_lines pre (fst (split_lines [] bs)) = render_pieces pre xs" "\<forall>x \<in> set xs. lawful_piece x"
      using 2 by auto
    show ?thesis
      by (rule exI [of _ "(acc, True) # xs"])
        (use True xs "2.prems" in \<open>auto simp: lawful_piece_def render_pieces_def input_of_def split: prod.splits\<close>)
  next
    case False
    then show ?thesis using 2 by auto
  qed
qed

lemma line_Write_pieces:
  assumes "lw_sink w = []" and "newline \<notin> set (lw_buf w)"
  shows "\<exists>xs. input_of xs @ lw_buf (fst (line_Write w p)) = lw_buf w @ p \<and> (\<forall>x \<in> set xs. lawful_piece x)
     \<and> newline \<notin> set (lw_buf (fst (line_Write w p)))
     \<and> fst (line_Write w p) = w\<lparr>lw_out := lw_out w @ render_pieces (lw_prefix w) xs, lw_buf := lw_buf (fst (line_Write w p))\<rparr>"
proof -
  let ?s = "split_lines (lw_buf w) p"
  have s: "split_lines [] (lw_buf w @ p) = ?s" using split_lines_acc [OF assms(2), of "[]" p] by simp
  obtain xs where xs: "input_of xs @ snd ?s = lw_buf w @ p" "render_lines (lw_prefix w) (fst ?s) = render_pieces (lw_prefix w) xs"
    "\<forall>x \<in> set xs. lawful_piece x"
    using split_lines_pieces [OF assms(2)] by blast
  have rest: "newline \<notin> set (snd ?s)" by (rule split_lines_rest_no_newline [OF assms(2)])
  show ?thesis
  proof (cases "length (snd ?s) \<le> shardPartialLineLimit")
    case True
    then show ?thesis using line_Write_ok [OF assms True] xs rest by (intro exI [of _ xs]) simp
  next
    case False
    then have "fst (line_Write w p) = w\<lparr>lw_out := lw_out w @ render_pieces (lw_prefix w) (xs @ [(snd ?s, False)]), lw_buf := []\<rparr>"
      using assms(1) s xs(2) by (simp add: line_Write_def emit_lines_ok emitLocked_ok)
    moreover have "lawful_piece (snd ?s, False)" using False rest by (simp add: lawful_piece_def)
    ultimately show ?thesis using xs by (intro exI [of _ "xs @ [(snd ?s, False)]"]) auto
  qed
qed

lemma line_run_pieces:
  assumes "lw_sink w = []" and "newline \<notin> set (lw_buf w)"
  shows "\<exists>xs buf. foldl (\<lambda>w p. fst (line_Write w p)) w ps = w\<lparr>lw_out := lw_out w @ render_pieces (lw_prefix w) xs, lw_buf := buf\<rparr>
     \<and> input_of xs @ buf = lw_buf w @ concat ps \<and> (\<forall>x \<in> set xs. lawful_piece x) \<and> newline \<notin> set buf"
  using assms
proof (induction ps arbitrary: w)
  case Nil
  then show ?case by (intro exI [of _ "[]"] exI [of _ "lw_buf w"]) simp
next
  case (Cons p ps)
  let ?w = "fst (line_Write w p)"
  obtain xs where xs: "input_of xs @ lw_buf ?w = lw_buf w @ p" "\<forall>x \<in> set xs. lawful_piece x" "newline \<notin> set (lw_buf ?w)"
    and w: "?w = w\<lparr>lw_out := lw_out w @ render_pieces (lw_prefix w) xs, lw_buf := lw_buf ?w\<rparr>"
    using line_Write_pieces [OF Cons.prems] by blast
  have f: "lw_sink ?w = []" "lw_out ?w = lw_out w @ render_pieces (lw_prefix w) xs" "lw_prefix ?w = lw_prefix w"
    "?w\<lparr>lw_out := x, lw_buf := y\<rparr> = w\<lparr>lw_out := x, lw_buf := y\<rparr>" for x y
    using Cons.prems(1) by (subst w, simp)+
  obtain ys buf where ys: "foldl (\<lambda>w p. fst (line_Write w p)) ?w ps = ?w\<lparr>lw_out := lw_out ?w @ render_pieces (lw_prefix ?w) ys, lw_buf := buf\<rparr>"
    "input_of ys @ buf = lw_buf ?w @ concat ps" "\<forall>x \<in> set ys. lawful_piece x" "newline \<notin> set buf"
    using Cons.IH [OF f(1) xs(3)] by blast
  have "input_of (xs @ ys) @ buf = lw_buf w @ concat (p # ps)" using ys(2) xs(1) by simp
  then show ?case
    using ys f xs(2) by (intro exI [of _ "xs @ ys"] exI [of _ buf]) auto
qed

section \<open>Properties of the sinks\<close>

text \<open>C39: A tail buffer created with any limit and fed any sequence of writes holds exactly the
  last bytes of the concatenated input up to its limit (none for a limit of zero or less), and
  reports an overflow exactly when the input was longer than the limit.\<close>

theorem tail_buffer_keeps_suffix:
  "tail_Bytes (foldl (\<lambda>b p. fst (tail_Write b p)) (tail_NewLimited m) ps)
     = lastn (nat m) (concat ps)
   \<and> tail_Exceeded (foldl (\<lambda>b p. fst (tail_Write b p)) (tail_NewLimited m) ps)
     = (nat m < length (concat ps))"
  using tail.run_view [of m ps] tail.run_over [of m ps] by (simp add: not_le)

text \<open>A prefix buffer created with any limit holds exactly the first bytes of the
  concatenated input up to its limit and reports an overflow exactly when bytes were dropped;
  an unlimited one holds everything and never overflows.\<close>

theorem prefix_buffer_keeps_prefix:
  "prefix_Bytes (foldl (\<lambda>b p. fst (prefix_Write b p)) (prefix_NewLimited m) ps)
     = take (nat m) (concat ps)
   \<and> prefix_Exceeded (foldl (\<lambda>b p. fst (prefix_Write b p)) (prefix_NewLimited m) ps)
     = (nat m < length (concat ps))
   \<and> prefix_Bytes (foldl (\<lambda>b p. fst (prefix_Write b p)) prefix_NewUnlimited ps) = concat ps
   \<and> \<not> prefix_Exceeded (foldl (\<lambda>b p. fst (prefix_Write b p)) prefix_NewUnlimited ps)"
  using pfx.run_view [of m ps] pfx.run_over [of m ps] pfxu.run_view [of ps] pfxu.run_over [of ps]
  by (simp add: not_le)

text \<open>C40: The line writer of a shard, over a destination that accepts every write. However the input was
  cut into writes, the output after Flush is a sequence of lines, each the prefix, a piece of the input
  without a newline, and a newline; the pieces, with the newlines of the input, are exactly the input
  in order; a line ends where the input has no newline only after a piece longer than the partial line
  limit, or at the end of the input; and nothing is left buffered. When no write leaves an unfinished
  line longer than the limit, the output is the prefixed lines of the input and, with a newline, its
  unfinished last line, independent of the cuts.\<close>

theorem line_writer_prefixes_lines:
  fixes pre ps
  defines "w \<equiv> foldl (\<lambda>w p. fst (line_Write w p)) \<lparr>lw_out = [], lw_prefix = pre, lw_buf = [], lw_sink = []\<rparr> ps"
  shows "\<exists>xs. line_Flush w = (\<lparr>lw_out = render_pieces pre xs, lw_prefix = pre, lw_buf = [], lw_sink = []\<rparr>, None)
     \<and> input_of xs = concat ps \<and> (\<forall>x \<in> set xs. newline \<notin> set (fst x)) \<and> (\<forall>x \<in> set (butlast xs). lawful_piece x)
     \<and> (within_line_limit [] ps \<longrightarrow> render_pieces pre xs = render_lines pre (fst (split_lines [] (concat ps)))
          @ (if snd (split_lines [] (concat ps)) = [] then [] else pre @ snd (split_lines [] (concat ps)) @ [newline]))"
proof -
  let ?w = "\<lparr>lw_out = [], lw_prefix = pre, lw_buf = [], lw_sink = []\<rparr>"
  obtain xs buf where w: "w = ?w\<lparr>lw_out := render_pieces pre xs, lw_buf := buf\<rparr>"
    and xs: "input_of xs @ buf = concat ps" "\<forall>x \<in> set xs. lawful_piece x" "newline \<notin> set buf"
    using line_run_pieces [of ?w ps] unfolding w_def by auto
  let ?xs = "if buf = [] then xs else xs @ [(buf, False)]"
  have f: "line_Flush w = (\<lparr>lw_out = render_pieces pre ?xs, lw_prefix = pre, lw_buf = [], lw_sink = []\<rparr>, None)"
    by (simp add: w line_Flush_def emitLocked_ok)
  have "render_pieces pre ?xs = render_lines pre (fst (split_lines [] (concat ps)))
      @ (if snd (split_lines [] (concat ps)) = [] then [] else pre @ snd (split_lines [] (concat ps)) @ [newline])"
    if "within_line_limit [] ps"
    using line_run_ok [of ?w ps] that w by (simp add: w_def)
  moreover have "input_of ?xs = concat ps" using xs(1) by auto
  moreover have "\<forall>x \<in> set ?xs. newline \<notin> set (fst x)" using xs(2,3) by (auto simp: lawful_piece_def)
  moreover have "\<forall>x \<in> set (butlast ?xs). lawful_piece x" using xs(2) by (auto dest: in_set_butlastD)
  ultimately show ?thesis using f by blast
qed

theorem line_writer_prefixes_lines_witness:
  "lw_out (fst (line_Flush (foldl (\<lambda>w p. fst (line_Write w p))
      \<lparr>lw_out = [], lw_prefix = [1], lw_buf = [], lw_sink = []\<rparr> [[7, 8], [10, 9], [10, 6]])))
   = [1, 7, 8, 10, 1, 9, 10, 1, 6, 10]"
proof -
  have "within_line_limit [] [[7, 8], [10, 9], [10, 6 :: byte]]"
    by (simp add: Let_def newline_def shardPartialLineLimit_def)
  with line_writer_prefixes_lines [of "[1]" "[[7, 8], [10, 9], [10, 6]]"] show ?thesis by (auto simp: newline_def)
qed

end
