(* ===== verification/GoStrings.thy ===== *)
theory GoStrings
  imports Prelude
begin

text \<open>
  The parts of Go's \<open>strings\<close>, \<open>unicode/utf8\<close>, \<open>fmt\<close> and \<open>hash/fnv\<close> packages the components use.
  A string is the list of its bytes; functions that work on runes decode UTF-8 the way the
  \<open>range\<close> loop of Go does, where a byte that starts no valid sequence is the rune U+FFFD of
  width one.
\<close>

section \<open>Runes\<close>

definition code :: "char \<Rightarrow> nat" where
  "code c = of_char c"

definition is_cont :: "nat \<Rightarrow> bool" where
  "is_cont n \<longleftrightarrow> 128 \<le> n \<and> n \<le> 191"

definition rune_error :: nat where
  "rune_error = 65533"

text \<open>The rune and the width at the head of a nonempty byte list.\<close>

definition decode_rune :: "nat list \<Rightarrow> nat \<times> nat" where
  "decode_rune bs =
     (let b0 = bs ! 0; n = length bs; b1 = bs ! 1; b2 = bs ! 2; b3 = bs ! 3 in
      if b0 < 128 then (b0, 1)
      else if 194 \<le> b0 \<and> b0 \<le> 223 then
        (if 2 \<le> n \<and> is_cont b1 then ((b0 - 192) * 64 + (b1 - 128), 2) else (rune_error, 1))
      else if 224 \<le> b0 \<and> b0 \<le> 239 then
        (if 3 \<le> n \<and> is_cont b1 \<and> (b0 = 224 \<longrightarrow> 160 \<le> b1) \<and> (b0 = 237 \<longrightarrow> b1 \<le> 159) \<and> is_cont b2
         then ((b0 - 224) * 4096 + (b1 - 128) * 64 + (b2 - 128), 3) else (rune_error, 1))
      else if 240 \<le> b0 \<and> b0 \<le> 244 then
        (if 4 \<le> n \<and> is_cont b1 \<and> (b0 = 240 \<longrightarrow> 144 \<le> b1) \<and> (b0 = 244 \<longrightarrow> b1 \<le> 143)
            \<and> is_cont b2 \<and> is_cont b3
         then ((b0 - 240) * 262144 + (b1 - 128) * 4096 + (b2 - 128) * 64 + (b3 - 128), 4)
         else (rune_error, 1))
      else (rune_error, 1))"

lemma decode_rune_width: "0 < snd (decode_rune bs)"
  by (simp add: decode_rune_def Let_def)

text \<open>The runes of a string with the bytes of each, in order.\<close>

function chunks :: "string \<Rightarrow> (nat \<times> string) list" where
  "chunks s =
     (if s = [] then []
      else (case decode_rune (map code s) of (r, w) \<Rightarrow> (r, take w s) # chunks (drop w s)))"
  by pat_completeness auto
termination
proof (relation "measure length")
  fix s r w assume "s \<noteq> []" and "(r, w) = decode_rune (map code s)"
  then show "(drop w s, s) \<in> measure length"
    using decode_rune_width [of "map code s"] by (metis diff_less in_measure length_drop length_greater_0_conv snd_conv)
qed simp

declare chunks.simps [simp del]

definition is_ascii :: "string \<Rightarrow> bool" where
  "is_ascii s \<longleftrightarrow> (\<forall>c \<in> set s. code c < 128)"

lemma is_ascii_simps [simp]:
  "is_ascii []" "is_ascii (c # s) \<longleftrightarrow> code c < 128 \<and> is_ascii s"
  "is_ascii (s @ t) \<longleftrightarrow> is_ascii s \<and> is_ascii t"
  by (auto simp: is_ascii_def)

lemma chunks_Nil [simp]: "chunks [] = []"
  by (simp add: chunks.simps)

lemma chunks_ascii_Cons [simp]: "code c < 128 \<Longrightarrow> chunks (c # s) = (code c, [c]) # chunks s"
  by (subst chunks.simps) (simp add: decode_rune_def Let_def)

lemma chunks_ascii: "is_ascii s \<Longrightarrow> chunks s = map (\<lambda>c. (code c, [c])) s"
  by (induction s) auto

lemma chunks_concat: "concat (map snd (chunks s)) = s"
  by (induction s rule: chunks.induct) (subst chunks.simps, auto split: prod.splits)

text \<open>\<open>unicode.IsSpace\<close>.\<close>

definition is_space :: "nat \<Rightarrow> bool" where
  "is_space r \<longleftrightarrow> (9 \<le> r \<and> r \<le> 13) \<or> r = 32 \<or> r = 133 \<or> r = 160 \<or> r = 5760 \<or> (8192 \<le> r \<and> r \<le> 8202)
     \<or> r = 8232 \<or> r = 8233 \<or> r = 8239 \<or> r = 8287 \<or> r = 12288"

section \<open>Trimming\<close>

definition trim_by :: "('a \<Rightarrow> bool) \<Rightarrow> 'a list \<Rightarrow> 'a list" where
  "trim_by p xs = rev (dropWhile p (rev (dropWhile p xs)))"

lemma trim_by_Nil [simp]: "trim_by p [] = []"
  by (simp add: trim_by_def)

lemma set_trim_by: "set (trim_by p xs) \<subseteq> set xs"
  unfolding trim_by_def by (metis dual_order.trans set_dropWhileD set_rev subsetI)

lemma length_trim_by: "length (trim_by p xs) \<le> length xs"
  unfolding trim_by_def by (metis dual_order.trans length_dropWhile_le length_rev)

lemma trim_by_map: "trim_by p (map f xs) = map f (trim_by (p \<circ> f) xs)"
  by (simp add: trim_by_def dropWhile_map rev_map)

lemma trim_by_fixed: "xs = [] \<or> (\<not> p (hd xs) \<and> \<not> p (last xs)) \<Longrightarrow> trim_by p xs = xs"
proof (cases "xs = []")
  case False
  moreover assume "xs = [] \<or> (\<not> p (hd xs) \<and> \<not> p (last xs))"
  ultimately have "dropWhile p xs = xs" and "dropWhile p (rev xs) = rev xs"
    by (simp_all add: dropWhile_eq_self_iff hd_rev)
  then show ?thesis by (simp add: trim_by_def)
qed simp

lemma trim_by_ends:
  assumes "trim_by p xs \<noteq> []"
  shows "\<not> p (hd (trim_by p xs)) \<and> \<not> p (last (trim_by p xs))"
proof -
  let ?d = "dropWhile p xs"
  have l: "last (trim_by p xs) = hd (dropWhile p (rev ?d))"
    and ne: "dropWhile p (rev ?d) \<noteq> []"
    using assms unfolding trim_by_def by (simp_all only: last_rev rev_is_Nil_conv not_False_eq_True)
  have "?d \<noteq> []" using ne by (metis dropWhile.simps(1) rev.simps(1))
  then have h: "\<not> p (hd ?d)" by (simp add: hd_dropWhile)
  obtain zs where zs: "rev ?d = zs @ dropWhile p (rev ?d)"
    by (metis takeWhile_dropWhile_id)
  then have "?d = trim_by p xs @ rev zs"
    unfolding trim_by_def by (metis rev_append rev_rev_ident)
  then have "hd ?d = hd (trim_by p xs)" using assms by (metis hd_append2)
  with h l ne show ?thesis by (simp add: hd_dropWhile)
qed

lemma trim_by_empty: "trim_by p xs = [] \<longleftrightarrow> (\<forall>x \<in> set xs. p x)"
proof
  assume "trim_by p xs = []"
  then have "\<forall>x \<in> set (dropWhile p xs). p x" by (auto simp: trim_by_def)
  then have "dropWhile p xs = []"
    by (metis hd_dropWhile hd_in_set)
  then show "\<forall>x \<in> set xs. p x" by simp
next
  assume "\<forall>x \<in> set xs. p x"
  then have "dropWhile p xs = []" by simp
  then show "trim_by p xs = []" unfolding trim_by_def by (simp only: rev.simps dropWhile.simps)
qed

lemma trim_by_prefix_suffix: "\<exists>as bs. xs = as @ trim_by p xs @ bs"
proof -
  have "xs = takeWhile p xs @ dropWhile p xs" by simp
  moreover have "dropWhile p xs = trim_by p xs @ rev (takeWhile p (rev (dropWhile p xs)))"
    unfolding trim_by_def by (metis rev_append rev_rev_ident takeWhile_dropWhile_id)
  ultimately show ?thesis by metis
qed

text \<open>\<open>strings.TrimSpace\<close>. A trailing space rune found backwards is the last rune found forwards,
  because no byte of a multi-byte sequence starts another one.\<close>

definition TrimSpace :: "string \<Rightarrow> string" where
  "TrimSpace s = concat (map snd (trim_by (is_space \<circ> fst) (chunks s)))"

lemma TrimSpace_Nil [simp]: "TrimSpace [] = []"
  by (simp add: TrimSpace_def)

lemma TrimSpace_ascii: "is_ascii s \<Longrightarrow> TrimSpace s = trim_by (is_space \<circ> code) s"
  by (simp add: TrimSpace_def chunks_ascii trim_by_map comp_def)

section \<open>Decimal and hexadecimal\<close>

text \<open>The \<open>%d\<close> verb on a non-negative number, and \<open>%0kx\<close> on a number below \<open>16 ^ k\<close>.\<close>

definition digit_char :: "nat \<Rightarrow> char" where
  "digit_char d = (if d < 10 then char_of (48 + d) else char_of (87 + d))"

fun dec_nat :: "nat \<Rightarrow> string" where
  "dec_nat n = (if n < 10 then [digit_char n] else dec_nat (n div 10) @ [digit_char (n mod 10)])"

declare dec_nat.simps [simp del]

fun hex_fixed :: "nat \<Rightarrow> nat \<Rightarrow> string" where
  "hex_fixed 0 n = []"
| "hex_fixed (Suc k) n = hex_fixed k (n div 16) @ [digit_char (n mod 16)]"

definition is_lower_alnum :: "char \<Rightarrow> bool" where
  "is_lower_alnum c \<longleftrightarrow> (97 \<le> code c \<and> code c \<le> 122) \<or> (48 \<le> code c \<and> code c \<le> 57)"

lemma is_lower_alnum_ascii: "is_lower_alnum c \<Longrightarrow> code c < 128"
  by (auto simp: is_lower_alnum_def)

lemma char_of_code [simp]: "char_of (code c) = c"
  by (simp add: code_def)

lemma code_char_of: "n < 256 \<Longrightarrow> code (char_of n) = n"
  by (simp add: code_def of_char_of)

lemma digit_char_alnum: "d < 16 \<Longrightarrow> is_lower_alnum (digit_char d)"
  by (auto simp: digit_char_def is_lower_alnum_def code_char_of)

lemma length_hex_fixed [simp]: "length (hex_fixed k n) = k"
  by (induction k arbitrary: n) auto

lemma hex_fixed_alnum: "c \<in> set (hex_fixed k n) \<Longrightarrow> is_lower_alnum c"
  by (induction k arbitrary: n) (auto simp: digit_char_alnum)

section \<open>The FNV-1a hash\<close>

unbundle bit_operations_syntax

definition fnv32a :: "string \<Rightarrow> 32 word" where
  "fnv32a s = foldl (\<lambda>h c. (h XOR of_nat (code c)) * 16777619) 2166136261 s"

section \<open>Case and numbers\<close>

text \<open>\<open>strings.ToLower\<close>. It is exact on ASCII strings and for every rune whose lower case is ASCII,
  which is all that a comparison with an ASCII constant can see; other runes keep their bytes.\<close>

definition lower_char :: "char \<Rightarrow> char" where
  "lower_char c = (if 65 \<le> code c \<and> code c \<le> 90 then char_of (code c + 32) else c)"

definition upper_char :: "char \<Rightarrow> char" where
  "upper_char c = (if 97 \<le> code c \<and> code c \<le> 122 then char_of (code c - 32) else c)"

definition ToLower :: "string \<Rightarrow> string" where
  "ToLower s = concat (map (\<lambda>(r, bs).
     if r = 304 then ''i'' else if r = 8490 then ''k'' else map lower_char bs) (chunks s))"

text \<open>\<open>strings.ToUpper\<close>, likewise: the runes with an ASCII upper case are \<open>a\<close> to \<open>z\<close>, U+0131 and
  U+017F.\<close>

definition ToUpper :: "string \<Rightarrow> string" where
  "ToUpper s = concat (map (\<lambda>(r, bs).
     if r = 305 then ''I'' else if r = 383 then ''S'' else map upper_char bs) (chunks s))"

fun digits_value :: "nat \<Rightarrow> string \<Rightarrow> nat option" where
  "digits_value acc [] = Some acc"
| "digits_value acc (c # cs) =
     (if 48 \<le> code c \<and> code c \<le> 57 then digits_value (10 * acc + (code c - 48)) cs else None)"

text \<open>\<open>strconv.Atoi\<close> on a 64-bit platform: an optional sign, decimal digits, and the range of
  \<open>int64\<close>; \<open>None\<close> is its error.\<close>

definition Atoi :: "string \<Rightarrow> int option" where
  "Atoi s =
     (let (neg, ds) = (case s of [] \<Rightarrow> (False, [])
                       | c # cs \<Rightarrow> if c = CHR ''-'' then (True, cs)
                                   else if c = CHR ''+'' then (False, cs) else (False, s))
      in if ds = [] then None
         else (case digits_value 0 ds of None \<Rightarrow> None
               | Some n \<Rightarrow>
                   (let v = (if neg then - int n else int n) in
                    if - (2 ^ 63) \<le> v \<and> v < 2 ^ 63 then Some v else None)))"

text \<open>\<open>strconv.Itoa\<close>.\<close>

definition Itoa :: "int \<Rightarrow> string" where
  "Itoa n = (if n < 0 then CHR ''-'' # dec_nat (nat (- n)) else dec_nat (nat n))"

text \<open>\<open>hex.DecodeString\<close>: the number of bytes it decodes, \<open>None\<close> for its error.\<close>

definition is_hex_char :: "char \<Rightarrow> bool" where
  "is_hex_char c \<longleftrightarrow> (48 \<le> code c \<and> code c \<le> 57) \<or> (97 \<le> code c \<and> code c \<le> 102)
     \<or> (65 \<le> code c \<and> code c \<le> 70)"

definition hex_decoded_length :: "string \<Rightarrow> nat option" where
  "hex_decoded_length s =
     (if even (length s) \<and> list_all is_hex_char s then Some (length s div 2) else None)"

definition HasPrefix :: "string \<Rightarrow> string \<Rightarrow> bool" where
  "HasPrefix s p \<longleftrightarrow> take (length p) s = p"

definition HasSuffix :: "string \<Rightarrow> string \<Rightarrow> bool" where
  "HasSuffix s p \<longleftrightarrow> length p \<le> length s \<and> drop (length s - length p) s = p"

lemma digits_value_append:
  "digits_value a (s @ t) = (case digits_value a s of None \<Rightarrow> None | Some b \<Rightarrow> digits_value b t)"
  by (induction s arbitrary: a) auto

lemma code_digit_char: "d < 10 \<Longrightarrow> code (digit_char d) = 48 + d"
  by (simp add: digit_char_def code_char_of)

lemma digits_value_dec_nat: "digits_value 0 (dec_nat n) = Some n"
proof (induction n rule: dec_nat.induct)
  case (1 n)
  show ?case
  proof (cases "n < 10")
    case True
    then show ?thesis by (subst dec_nat.simps) (simp add: code_digit_char)
  next
    case False
    with 1 have "digits_value 0 (dec_nat (n div 10)) = Some (n div 10)" by simp
    with False show ?thesis
      by (subst dec_nat.simps) (simp add: digits_value_append code_digit_char)
  qed
qed

lemma dec_nat_digits: "c \<in> set (dec_nat n) \<Longrightarrow> 48 \<le> code c \<and> code c \<le> 57"
proof (induction n rule: dec_nat.induct)
  case (1 n)
  then show ?case
    using code_digit_char [of n] code_digit_char [of "n mod 10"]
    by (subst (asm) (2) dec_nat.simps) (auto split: if_splits)
qed

lemma dec_nat_nonempty [simp]: "dec_nat n \<noteq> []"
  by (subst dec_nat.simps) simp

lemma Atoi_dec_nat:
  assumes "int n < 2 ^ 63"
  shows "Atoi (dec_nat n) = Some (int n)"
proof -
  obtain c cs where c: "dec_nat n = c # cs" by (cases "dec_nat n") auto
  then have "48 \<le> code c" using dec_nat_digits [of c n] by simp
  then have "c \<noteq> CHR ''-''" "c \<noteq> CHR ''+''" by (auto simp: code_def)
  then show ?thesis
    using assms digits_value_dec_nat [of n] by (simp add: Atoi_def c)
qed

lemma TrimSpace_dec_nat [simp]: "TrimSpace (dec_nat n) = dec_nat n"
proof -
  have a: "is_ascii (dec_nat n)"
    using dec_nat_digits [of _ n] by (force simp: is_ascii_def)
  have "\<not> is_space (code c)" if "c \<in> set (dec_nat n)" for c
    using dec_nat_digits [OF that] by (auto simp: is_space_def)
  then show ?thesis
    using a by (simp add: TrimSpace_ascii trim_by_fixed)
qed

end
