(* ===== verification/Slugs.thy ===== *)
theory Slugs
  imports GoStrings
begin

text \<open>
  Lease names, \<open>internal/cli/slug.go\<close>: slugs generated from a lease ID, normal form of a
  requested slug, collision suffixes, the name a provider gives the machine, and the allocation
  loop that looks for a free slug.

  SHA-256 is a parameter of \<open>generatedLeaseSlug\<close>. A \<open>Server\<close> enters through its labels, so the list
  of servers is the list of their label maps. \<open>ctxErr k\<close> is \<open>ctx.Err()\<close> at attempt \<open>k\<close> of the loop.
\<close>

section \<open>Definitions\<close>

definition maxRequestedLeaseSlugLength :: nat where
  "maxRequestedLeaseSlugLength = 41"

definition leaseSlugAdjectives :: "string list" where
  "leaseSlugAdjectives =
     [''amber'', ''blue'', ''brisk'', ''coral'', ''crimson'', ''golden'', ''harbor'', ''jade'',
      ''pearl'', ''quick'', ''silver'', ''swift'', ''tidal'', ''violet'']"

definition leaseSlugNouns :: "string list" where
  "leaseSlugNouns =
     [''barnacle'', ''crab'', ''crayfish'', ''hermit'', ''krill'', ''lobster'', ''prawn'', ''shrimp'']"

definition leaseSlugHash :: "string \<Rightarrow> 32 word" where
  "leaseSlugHash value = fnv32a value"

definition NewLeaseSlug :: "string \<Rightarrow> string" where
  "NewLeaseSlug leaseID =
     (let hash = unat (leaseSlugHash leaseID);
          adjective = leaseSlugAdjectives ! (hash mod length leaseSlugAdjectives);
          noun = leaseSlugNouns ! ((hash div length leaseSlugAdjectives) mod length leaseSlugNouns)
      in adjective @ ''-'' @ noun)"

definition generatedLeaseSlug :: "(string \<Rightarrow> byte list) \<Rightarrow> string \<Rightarrow> string" where
  "generatedLeaseSlug sha256 leaseID =
     NewLeaseSlug leaseID @ ''-''
       @ concat (map (\<lambda>b. hex_fixed 2 (unat b)) (take 4 (sha256 leaseID)))"

text \<open>\<open>unicode.ToLower\<close>, exactly for every rune whose image is ASCII; any other rune keeps a value
  above ASCII, and the slug loop treats all of those alike.\<close>

definition lower_rune :: "nat \<Rightarrow> nat" where
  "lower_rune r =
     (if 65 \<le> r \<and> r \<le> 90 then r + 32 else if r = 304 then 105 else if r = 8490 then 107 else r)"

fun slug_loop :: "nat list \<Rightarrow> bool \<Rightarrow> string" where
  "slug_loop [] lastDash = []"
| "slug_loop (r # rs) lastDash =
     (if (97 \<le> r \<and> r \<le> 122) \<or> (48 \<le> r \<and> r \<le> 57) then char_of r # slug_loop rs False
      else if \<not> lastDash then CHR ''-'' # slug_loop rs True
      else slug_loop rs lastDash)"

definition NormalizeLeaseSlug :: "string \<Rightarrow> string" where
  "NormalizeLeaseSlug value =
     trim_by (\<lambda>c. c = CHR ''-'')
       (slug_loop (map (lower_rune \<circ> fst) (chunks (TrimSpace value))) False)"

definition SlugWithCollisionSuffix :: "string \<Rightarrow> string \<Rightarrow> string" where
  "SlugWithCollisionSuffix base seed =
     (let base = NormalizeLeaseSlug base;
          base = (if base = [] then NewLeaseSlug seed else base);
          base = (if length base > maxRequestedLeaseSlugLength
                  then trim_by (\<lambda>c. c = CHR ''-'') (take maxRequestedLeaseSlugLength base) else base)
      in base @ ''-'' @ hex_fixed 4 (unat (leaseSlugHash seed AND 0xffff)))"

definition requestedLeaseSlug :: "string \<Rightarrow> string res" where
  "requestedLeaseSlug value =
     (if TrimSpace value = [] then Inr []
      else (let slug = NormalizeLeaseSlug value in
        if slug = [] then Inl (Exit 2 ''--slug must contain at least one letter or digit'')
        else if length slug > maxRequestedLeaseSlugLength then
          Inl (Exit 2 ''--slug must be 41 characters or fewer after normalization'')
        else Inr slug))"

definition LeaseProviderName :: "string \<Rightarrow> string \<Rightarrow> string" where
  "LeaseProviderName leaseID slug =
     (let slug = NormalizeLeaseSlug slug in
      if slug \<noteq> [] then ''crabbox-'' @ slug @ ''-'' @ hex_fixed 8 (unat (leaseSlugHash leaseID))
      else map (\<lambda>c. if c = CHR ''_'' then CHR ''-'' else c) (''crabbox-'' @ leaseID))"

type_synonym labels = "(string, string) fmap"

text \<open>Reading a missing key of a Go map gives the zero value.\<close>

definition label :: "labels \<Rightarrow> string \<Rightarrow> string" where
  "label ls k = (case fmlookup ls k of None \<Rightarrow> [] | Some v \<Rightarrow> v)"

definition ServerSlug :: "labels \<Rightarrow> string" where
  "ServerSlug server = NormalizeLeaseSlug (label server ''slug'')"

definition serverSlugInUse :: "string \<Rightarrow> labels list \<Rightarrow> bool" where
  "serverSlugInUse slug servers \<longleftrightarrow>
     (let slug = NormalizeLeaseSlug slug in list_ex (\<lambda>server. ServerSlug server = slug) servers)"

definition slug_taken ::
  "(string \<Rightarrow> string \<Rightarrow> bool res) \<Rightarrow> bool \<Rightarrow> string \<Rightarrow> labels list \<Rightarrow> string \<Rightarrow> bool res" where
  "slug_taken claimInUse generated leaseID servers slug =
     (let inUse = serverSlugInUse slug servers in
      if \<not> inUse \<and> \<not> generated then claimInUse slug leaseID else Inr inUse)"

text \<open>The loop of \<open>allocateDirectLeaseSlug\<close> with \<open>k\<close> attempts left of 20.\<close>

fun allocate_loop ::
  "(nat \<Rightarrow> gerr option) \<Rightarrow> (string \<Rightarrow> string \<Rightarrow> bool res) \<Rightarrow> bool \<Rightarrow> string \<Rightarrow> string \<Rightarrow> labels list
    \<Rightarrow> nat \<Rightarrow> string \<Rightarrow> string res" where
  "allocate_loop ctxErr claimInUse generated leaseID base servers 0 slug =
     (let fallback = SlugWithCollisionSuffix base leaseID in
      case slug_taken claimInUse generated leaseID servers fallback of
        Inl e \<Rightarrow> Inl e
      | Inr inUse \<Rightarrow>
          if inUse then Inl (Exit 2 ''could not allocate a unique lease slug'') else Inr fallback)"
| "allocate_loop ctxErr claimInUse generated leaseID base servers (Suc k) slug =
     (case ctxErr (19 - k) of
        Some e \<Rightarrow> Inl e
      | None \<Rightarrow>
          (case slug_taken claimInUse generated leaseID servers slug of
             Inl e \<Rightarrow> Inl e
           | Inr inUse \<Rightarrow>
               if \<not> inUse then Inr slug
               else allocate_loop ctxErr claimInUse generated leaseID base servers k
                      (SlugWithCollisionSuffix base (leaseID @ ''-'' @ dec_nat (19 - k)))))"

definition allocateDirectLeaseSlug ::
  "(string \<Rightarrow> byte list) \<Rightarrow> (nat \<Rightarrow> gerr option) \<Rightarrow> string \<Rightarrow> string \<Rightarrow> labels list
    \<Rightarrow> (string \<Rightarrow> string \<Rightarrow> bool res) \<Rightarrow> string res" where
  "allocateDirectLeaseSlug sha256 ctxErr leaseID requested servers claimInUse =
     (let base = NormalizeLeaseSlug requested;
          generated = (base = []);
          base = (if base = [] then generatedLeaseSlug sha256 leaseID else base)
      in allocate_loop ctxErr claimInUse generated leaseID base servers 20 base)"

definition is_hex_lower :: "char \<Rightarrow> bool" where
  "is_hex_lower c \<longleftrightarrow> (97 \<le> code c \<and> code c \<le> 102) \<or> (48 \<le> code c \<and> code c \<le> 57)"

definition IsCanonicalLeaseID :: "string \<Rightarrow> bool" where
  "IsCanonicalLeaseID value \<longleftrightarrow>
     length value = 16 \<and> take 4 value = ''cbx_'' \<and> list_all is_hex_lower (drop 4 value)"

section \<open>The normal form of a slug\<close>

definition slug_char :: "char \<Rightarrow> bool" where
  "slug_char c \<longleftrightarrow> is_lower_alnum c \<or> c = CHR ''-''"

definition no_double_dash :: "string \<Rightarrow> bool" where
  "no_double_dash s \<longleftrightarrow> successively (\<lambda>a b. \<not> (a = CHR ''-'' \<and> b = CHR ''-'')) s"

definition slug_normal :: "string \<Rightarrow> bool" where
  "slug_normal s \<longleftrightarrow> list_all slug_char s \<and> no_double_dash s
     \<and> (s \<noteq> [] \<longrightarrow> hd s \<noteq> CHR ''-'' \<and> last s \<noteq> CHR ''-'')"

lemma code_dash [simp]: "code CHR ''-'' = 45"
  by (simp add: code_def)

lemma slug_char_ascii: "slug_char c \<Longrightarrow> code c < 128"
  by (auto simp: slug_char_def dest: is_lower_alnum_ascii)

lemma slug_chars_ascii: "list_all slug_char s \<Longrightarrow> is_ascii s"
  by (induction s) (auto simp: slug_char_ascii)

lemma slug_char_not_space: "slug_char c \<Longrightarrow> \<not> is_space (code c)"
  by (auto simp: slug_char_def is_lower_alnum_def is_space_def)

lemma dash_not_alnum [simp]: "\<not> is_lower_alnum CHR ''-''"
  by (simp add: is_lower_alnum_def)

lemma slug_loop_chars: "list_all slug_char (slug_loop rs d)"
  by (induction rs d rule: slug_loop.induct)
    (auto simp: slug_char_def is_lower_alnum_def code_char_of)

lemma slug_loop_dashes:
  "no_double_dash (slug_loop rs d) \<and> (d \<longrightarrow> slug_loop rs d = [] \<or> hd (slug_loop rs d) \<noteq> CHR ''-'')"
proof (induction rs d rule: slug_loop.induct)
  case (1 d)
  then show ?case by (simp add: no_double_dash_def)
next
  case (2 r rs d)
  show ?case
  proof (cases "(97 \<le> r \<and> r \<le> 122) \<or> (48 \<le> r \<and> r \<le> 57)")
    case True
    then have "is_lower_alnum (char_of r)"
      by (auto simp: is_lower_alnum_def code_char_of)
    then have "char_of r \<noteq> CHR ''-''" by (metis dash_not_alnum)
    with True 2 show ?thesis by (auto simp: no_double_dash_def successively_Cons)
  next
    case False
    with 2 show ?thesis by (auto simp: no_double_dash_def successively_Cons)
  qed
qed

lemma no_double_dash_part: "no_double_dash (as @ s @ bs) \<Longrightarrow> no_double_dash s"
  by (auto simp: no_double_dash_def successively_append_iff)

lemma slug_normal_trim:
  assumes "list_all slug_char s" and "no_double_dash s"
  shows "slug_normal (trim_by (\<lambda>c. c = CHR ''-'') s)"
proof -
  let ?t = "trim_by (\<lambda>c. c = CHR ''-'') s"
  have "list_all slug_char ?t"
    using assms(1) set_trim_by [of _ s] by (auto simp: list_all_iff)
  moreover have "no_double_dash ?t"
    using assms(2) trim_by_prefix_suffix [of s "\<lambda>c. c = CHR ''-''"] no_double_dash_part by metis
  ultimately show ?thesis
    using trim_by_ends [of "\<lambda>c. c = CHR ''-''" s] by (auto simp: slug_normal_def)
qed

lemma NormalizeLeaseSlug_normal: "slug_normal (NormalizeLeaseSlug v)"
  unfolding NormalizeLeaseSlug_def
  by (intro slug_normal_trim slug_loop_chars) (simp add: slug_loop_dashes)

lemma slug_loop_fixed:
  assumes "list_all slug_char s" and "no_double_dash s" and "d \<longrightarrow> s = [] \<or> hd s \<noteq> CHR ''-''"
  shows "slug_loop (map (lower_rune \<circ> code) s) d = s"
  using assms
proof (induction s arbitrary: d)
  case (Cons c s)
  have tail: "list_all slug_char s" "no_double_dash s"
    using Cons.prems by (auto simp: no_double_dash_def successively_Cons)
  show ?case
  proof (cases "c = CHR ''-''")
    case True
    then have "s = [] \<or> hd s \<noteq> CHR ''-''"
      using Cons.prems by (auto simp: no_double_dash_def successively_Cons)
    with Cons.IH [of True] tail True Cons.prems(3) show ?thesis
      by (simp add: lower_rune_def comp_def)
  next
    case False
    then have "is_lower_alnum c" using Cons.prems by (simp add: slug_char_def)
    with Cons.IH [of False] tail show ?thesis
      by (auto simp: lower_rune_def is_lower_alnum_def comp_def)
  qed
qed simp

lemma TrimSpace_slug:
  assumes "list_all slug_char s"
  shows "TrimSpace s = s"
proof -
  have "s = [] \<or> (\<not> is_space (code (hd s)) \<and> \<not> is_space (code (last s)))"
    using assms by (auto simp: list_all_iff slug_char_not_space)
  then show ?thesis
    using assms by (simp add: TrimSpace_ascii slug_chars_ascii trim_by_fixed)
qed

lemma NormalizeLeaseSlug_fixed:
  assumes "slug_normal s"
  shows "NormalizeLeaseSlug s = s"
proof -
  have c: "list_all slug_char s" and d: "no_double_dash s"
    using assms by (auto simp: slug_normal_def)
  then have "NormalizeLeaseSlug s = trim_by (\<lambda>c. c = CHR ''-'') (slug_loop (map (lower_rune \<circ> code) s) False)"
    by (simp add: NormalizeLeaseSlug_def TrimSpace_slug chunks_ascii slug_chars_ascii comp_def)
  also have "\<dots> = trim_by (\<lambda>c. c = CHR ''-'') s"
    using slug_loop_fixed [OF c d, of False] by simp
  also have "\<dots> = s"
    using assms by (intro trim_by_fixed) (auto simp: slug_normal_def)
  finally show ?thesis .
qed

lemma NormalizeLeaseSlug_idem [simp]: "NormalizeLeaseSlug (NormalizeLeaseSlug v) = NormalizeLeaseSlug v"
  by (intro NormalizeLeaseSlug_fixed NormalizeLeaseSlug_normal)

section \<open>Generated and suffixed slugs\<close>

lemma slug_normal_append:
  assumes "slug_normal s" and "s \<noteq> []" and "list_all is_lower_alnum t" and "t \<noteq> []"
  shows "slug_normal (s @ CHR ''-'' # t)"
proof -
  have t: "c \<noteq> CHR ''-''" if "c \<in> set t" for c
    using that assms(3) by (metis dash_not_alnum list_all_iff)
  have "no_double_dash t"
    using assms(3) by (induction t) (auto simp: no_double_dash_def successively_Cons)
  then show ?thesis
    using assms t by (auto simp: slug_normal_def no_double_dash_def successively_append_iff
        successively_Cons slug_char_def list_all_iff)
qed

lemma NewLeaseSlug_parts:
  "\<exists>a \<in> set leaseSlugAdjectives. \<exists>n \<in> set leaseSlugNouns. NewLeaseSlug leaseID = a @ ''-'' @ n"
  by (simp add: NewLeaseSlug_def Let_def)
    (metis leaseSlugAdjectives_def leaseSlugNouns_def length_greater_0_conv list.distinct(1)
      mod_less_divisor nth_mem)

lemma word_lists_alnum:
  "list_all (\<lambda>w. list_all is_lower_alnum w \<and> w \<noteq> [] \<and> length w \<le> 8) (leaseSlugAdjectives @ leaseSlugNouns)"
  by (simp add: leaseSlugAdjectives_def leaseSlugNouns_def is_lower_alnum_def code_def)

lemma slug_normal_alnum: "list_all is_lower_alnum t \<Longrightarrow> slug_normal t"
  by (induction t)
    (auto simp: slug_normal_def no_double_dash_def successively_Cons slug_char_def)

lemma NewLeaseSlug_normal: "slug_normal (NewLeaseSlug leaseID) \<and> NewLeaseSlug leaseID \<noteq> []"
proof -
  obtain a n where an: "a \<in> set leaseSlugAdjectives" "n \<in> set leaseSlugNouns"
    "NewLeaseSlug leaseID = a @ ''-'' @ n"
    using NewLeaseSlug_parts by blast
  have "list_all is_lower_alnum a" "a \<noteq> []" "list_all is_lower_alnum n" "n \<noteq> []"
    using an(1,2) word_lists_alnum by (auto simp: list_all_iff)
  then show ?thesis
    using an(3) slug_normal_append [OF slug_normal_alnum] by simp
qed

lemma NewLeaseSlug_length: "length (NewLeaseSlug leaseID) \<le> 17"
proof -
  obtain a n where an: "a \<in> set leaseSlugAdjectives" "n \<in> set leaseSlugNouns"
    "NewLeaseSlug leaseID = a @ ''-'' @ n"
    using NewLeaseSlug_parts by blast
  have "length a \<le> 8" "length n \<le> 8"
    using an(1,2) word_lists_alnum by (auto simp: list_all_iff)
  with an(3) show ?thesis by simp
qed

lemma fingerprint_alnum:
  "list_all is_lower_alnum (concat (map (\<lambda>b. hex_fixed 2 (unat b)) bs))"
  by (auto simp: list_all_iff dest: hex_fixed_alnum)

lemma length_fingerprint: "length (concat (map (\<lambda>b. hex_fixed 2 (f b)) bs)) = 2 * length bs"
  by (induction bs) auto

lemma generatedLeaseSlug_normal:
  assumes "sha256 leaseID \<noteq> []"
  shows "slug_normal (generatedLeaseSlug sha256 leaseID)"
    and "generatedLeaseSlug sha256 leaseID \<noteq> []"
    and "length (generatedLeaseSlug sha256 leaseID) \<le> 26"
proof -
  let ?f = "concat (map (\<lambda>b. hex_fixed 2 (unat b)) (take 4 (sha256 leaseID)))"
  have "length ?f = 2 * min 4 (length (sha256 leaseID))"
    by (simp add: length_fingerprint min.commute)
  moreover from this have "?f \<noteq> []"
    using assms by (metis length_0_conv min_def mult_is_0 numeral_neq_zero length_greater_0_conv)
  ultimately show "slug_normal (generatedLeaseSlug sha256 leaseID)"
    and "generatedLeaseSlug sha256 leaseID \<noteq> []"
    and "length (generatedLeaseSlug sha256 leaseID) \<le> 26"
    using NewLeaseSlug_normal [of leaseID] NewLeaseSlug_length [of leaseID] fingerprint_alnum
      slug_normal_append [of "NewLeaseSlug leaseID" ?f]
    by (auto simp: generatedLeaseSlug_def)
qed

lemma slug_normal_truncate:
  assumes "slug_normal s" and "s \<noteq> []" and "0 < n"
  shows "slug_normal (trim_by (\<lambda>c. c = CHR ''-'') (take n s))
       \<and> trim_by (\<lambda>c. c = CHR ''-'') (take n s) \<noteq> []"
proof -
  have "s = [] @ take n s @ drop n s" by simp
  with assms(1) have "no_double_dash (take n s)"
    using no_double_dash_part by (metis slug_normal_def)
  moreover have "list_all slug_char (take n s)"
    using assms(1) by (auto simp: slug_normal_def list_all_iff dest: in_set_takeD)
  moreover have "hd s \<in> set (take n s)" "hd s \<noteq> CHR ''-''"
    using assms by (cases s; cases n; auto simp: slug_normal_def)+
  ultimately show ?thesis
    using slug_normal_trim by (auto simp: trim_by_empty)
qed

lemma SlugWithCollisionSuffix_normal:
  "slug_normal (SlugWithCollisionSuffix base seed) \<and> SlugWithCollisionSuffix base seed \<noteq> []
   \<and> length (SlugWithCollisionSuffix base seed) \<le> maxRequestedLeaseSlugLength + 5"
proof -
  define b where "b = (if NormalizeLeaseSlug base = [] then NewLeaseSlug seed else NormalizeLeaseSlug base)"
  define c where "c = (if length b > maxRequestedLeaseSlugLength
     then trim_by (\<lambda>c. c = CHR ''-'') (take maxRequestedLeaseSlugLength b) else b)"
  have b: "slug_normal b" "b \<noteq> []"
    using NewLeaseSlug_normal NormalizeLeaseSlug_normal by (auto simp: b_def)
  have "0 < maxRequestedLeaseSlugLength" by (simp add: maxRequestedLeaseSlugLength_def)
  with b have c: "slug_normal c" "c \<noteq> []"
    using slug_normal_truncate by (auto simp: c_def)
  have "length c \<le> maxRequestedLeaseSlugLength"
    using length_trim_by [of _ "take maxRequestedLeaseSlugLength b"]
    by (auto simp: c_def intro: order_trans)
  moreover have "list_all is_lower_alnum (hex_fixed 4 n)" for n
    by (auto simp: list_all_iff dest: hex_fixed_alnum)
  moreover have "hex_fixed 4 n \<noteq> []" for n
    by (metis length_hex_fixed list.size(3) numeral_neq_zero)
  moreover have "SlugWithCollisionSuffix base seed = c @ ''-'' @ hex_fixed 4 (unat (leaseSlugHash seed AND 0xffff))"
    by (simp only: SlugWithCollisionSuffix_def Let_def b_def c_def)
  ultimately show ?thesis
    using slug_normal_append [OF c] by simp
qed

section \<open>Allocation\<close>

lemma allocate_loop_free:
  assumes "allocate_loop ctxErr claimInUse generated leaseID base servers k slug = Inr s"
  shows "slug_taken claimInUse generated leaseID servers s = Inr False
       \<and> (s = slug \<or> (\<exists>seed. s = SlugWithCollisionSuffix base seed))"
  using assms
  by (induction ctxErr claimInUse generated leaseID base servers k slug rule: allocate_loop.induct)
    (auto simp: Let_def split: sum.splits option.splits if_splits)

lemma allocated_slug:
  assumes "allocateDirectLeaseSlug sha256 ctxErr leaseID requested servers claimInUse = Inr s"
    and "sha256 leaseID \<noteq> []"
  shows "slug_taken claimInUse (NormalizeLeaseSlug requested = []) leaseID servers s = Inr False"
    and "slug_normal s \<and> s \<noteq> []"
    and "length s \<le> max (length (NormalizeLeaseSlug requested)) (maxRequestedLeaseSlugLength + 5)"
proof -
  let ?base = "if NormalizeLeaseSlug requested = [] then generatedLeaseSlug sha256 leaseID
               else NormalizeLeaseSlug requested"
  have f: "slug_taken claimInUse (NormalizeLeaseSlug requested = []) leaseID servers s = Inr False"
    and s: "s = ?base \<or> (\<exists>seed. s = SlugWithCollisionSuffix ?base seed)"
    using allocate_loop_free assms(1) unfolding allocateDirectLeaseSlug_def Let_def by blast+
  show "slug_taken claimInUse (NormalizeLeaseSlug requested = []) leaseID servers s = Inr False"
    by (rule f)
  have g: "slug_normal ?base \<and> ?base \<noteq> []
      \<and> length ?base \<le> max (length (NormalizeLeaseSlug requested)) (maxRequestedLeaseSlugLength + 5)"
    using generatedLeaseSlug_normal [of sha256 leaseID] assms(2) NormalizeLeaseSlug_normal
    by (auto simp: maxRequestedLeaseSlugLength_def)
  have sfx: "slug_normal (SlugWithCollisionSuffix b d) \<and> SlugWithCollisionSuffix b d \<noteq> []
      \<and> length (SlugWithCollisionSuffix b d)
         \<le> max (length (NormalizeLeaseSlug requested)) (maxRequestedLeaseSlugLength + 5)" for b d
    using SlugWithCollisionSuffix_normal [of b d] by auto
  have "slug_normal s \<and> s \<noteq> []
      \<and> length s \<le> max (length (NormalizeLeaseSlug requested)) (maxRequestedLeaseSlugLength + 5)"
    using s
  proof
    assume "s = ?base" with g show ?thesis by simp
  next
    assume "\<exists>seed. s = SlugWithCollisionSuffix ?base seed" then obtain d where "s = SlugWithCollisionSuffix ?base d" ..
    then show ?thesis using sfx [of ?base d] by simp
  qed
  then show "slug_normal s \<and> s \<noteq> []"
    and "length s \<le> max (length (NormalizeLeaseSlug requested)) (maxRequestedLeaseSlugLength + 5)"
    by simp_all
qed

lemma slug_normal_prepend: "slug_normal s \<Longrightarrow> s \<noteq> [] \<Longrightarrow> slug_normal (''crabbox-'' @ s)"
  by (auto simp: slug_normal_def no_double_dash_def successively_Cons slug_char_def
      is_lower_alnum_def code_def)

section \<open>Properties of lease names\<close>

text \<open>NormalizeLeaseSlug always gives a slug in normal form (lower case letters, digits and
  single dashes, none at an end), and the strings in normal form are exactly those it leaves
  unchanged; in particular it is idempotent.\<close>

theorem NormalizeLeaseSlug_normal_form:
  "slug_normal (NormalizeLeaseSlug v) \<and> (slug_normal v \<longleftrightarrow> NormalizeLeaseSlug v = v)"
  using NormalizeLeaseSlug_normal [of v] NormalizeLeaseSlug_fixed [of v] by metis

text \<open>A slug the allocation loop returns is in normal form and nonempty, no listed server uses
  it, and when the caller asked for a slug no other claim uses it either.\<close>

theorem allocated_slug_is_free:
  assumes "allocateDirectLeaseSlug sha256 ctxErr leaseID requested servers claimInUse = Inr s"
    and "length (sha256 leaseID) = 32"
  shows "slug_normal s \<and> s \<noteq> []
    \<and> (\<forall>server \<in> set servers. NormalizeLeaseSlug (label server ''slug'') \<noteq> s)
    \<and> (NormalizeLeaseSlug requested \<noteq> [] \<longrightarrow> claimInUse s leaseID = Inr False)"
proof -
  have "sha256 leaseID \<noteq> []" using assms(2) by auto
  note a = allocated_slug [OF assms(1) this]
  have "NormalizeLeaseSlug s = s" using a(2) NormalizeLeaseSlug_fixed by blast
  with a(1,2) show ?thesis
    by (auto simp: slug_taken_def serverSlugInUse_def ServerSlug_def Let_def list_ex_iff
        split: if_splits)
qed

theorem allocated_slug_is_free_witness:
  "\<exists>s. allocateDirectLeaseSlug (\<lambda>_. replicate 32 0) (\<lambda>_. None) ''cbx_1'' ''My Box''
         [fmap_of_list [(''slug'', ''my-box'')]] (\<lambda>_ _. Inr False) = Inr s
     \<and> s \<noteq> ''my-box'' \<and> slug_normal s"
proof -
  let ?servers = "[fmap_of_list [(''slug'', ''my-box'')]]"
  have n: "NormalizeLeaseSlug ''My Box'' = ''my-box''" "NormalizeLeaseSlug ''my-box'' = ''my-box''"
    by (simp_all add: NormalizeLeaseSlug_def TrimSpace_ascii chunks_ascii code_def
        trim_by_def is_space_def lower_rune_def comp_def char_of_def bit_0)
  have d0: "dec_nat 0 = ''0''"
    by (subst dec_nat.simps) (simp add: digit_char_def char_of_def bit_0)
  obtain t where t: "SlugWithCollisionSuffix ''my-box'' ''cbx_1-0'' = ''my-box-'' @ t"
    by (simp add: SlugWithCollisionSuffix_def n Let_def maxRequestedLeaseSlugLength_def)
  have f: "NormalizeLeaseSlug (''my-box-'' @ t) = ''my-box-'' @ t"
    using SlugWithCollisionSuffix_normal NormalizeLeaseSlug_fixed t by metis
  have r: "allocateDirectLeaseSlug (\<lambda>_. replicate 32 0) (\<lambda>_. None) ''cbx_1'' ''My Box''
         ?servers (\<lambda>_ _. Inr False) = Inr (''my-box-'' @ t)"
    using f t allocate_loop.simps(2) [where k = 19, simplified]
      allocate_loop.simps(2) [where k = 18, simplified]
    by (simp add: allocateDirectLeaseSlug_def n Let_def slug_taken_def
        serverSlugInUse_def ServerSlug_def label_def d0)
  have "slug_normal (''my-box-'' @ t)"
    using allocated_slug_is_free [OF r] by simp
  with r show ?thesis by auto
qed

text \<open>C36: A slug that requestedLeaseSlug accepts and the allocation loop then turns into a free
  slug gives a provider name that is a DNS label: at most 63 characters, lower case letters, digits
  and single dashes, and no dash at an end. The collision suffix is included in the bound.\<close>

theorem provider_name_is_dns_label:
  assumes "requestedLeaseSlug v = Inr r"
    and "allocateDirectLeaseSlug sha256 ctxErr leaseID r servers claimInUse = Inr s"
    and "length (sha256 leaseID) = 32"
  shows "length (LeaseProviderName leaseID s) \<le> 63 \<and> slug_normal (LeaseProviderName leaseID s)"
proof -
  have "sha256 leaseID \<noteq> []" using assms(3) by auto
  note a = allocated_slug [OF assms(2) this]
  have "length (NormalizeLeaseSlug r) \<le> maxRequestedLeaseSlugLength"
  proof (cases "TrimSpace v = []")
    case True
    then have "r = []" using assms(1) by (simp add: requestedLeaseSlug_def)
    then show ?thesis by (simp add: NormalizeLeaseSlug_def)
  next
    case False
    then have "r = NormalizeLeaseSlug v \<and> length r \<le> maxRequestedLeaseSlugLength"
      using assms(1) by (auto simp: requestedLeaseSlug_def Let_def split: if_splits)
    then show ?thesis by (metis NormalizeLeaseSlug_idem)
  qed
  with a(3) have len: "length s \<le> maxRequestedLeaseSlugLength + 5" by simp
  let ?h = "hex_fixed 8 (unat (leaseSlugHash leaseID))"
  have name: "LeaseProviderName leaseID s = ''crabbox-'' @ s @ ''-'' @ ?h"
    using a(2) NormalizeLeaseSlug_fixed [of s] by (simp add: LeaseProviderName_def Let_def)
  have "list_all is_lower_alnum ?h" "?h \<noteq> []"
    by (auto simp: list_all_iff dest: hex_fixed_alnum)
      (metis length_hex_fixed list.size(3) numeral_neq_zero)
  then have "slug_normal (s @ CHR ''-'' # ?h)"
    using a(2) slug_normal_append by blast
  then show ?thesis
    using name len slug_normal_prepend [of "s @ CHR ''-'' # ?h"]
    by (simp add: maxRequestedLeaseSlugLength_def)
qed

theorem provider_name_is_dns_label_witness:
  "length (LeaseProviderName ''cbx_1'' ''box'') \<le> 63 \<and> slug_normal (LeaseProviderName ''cbx_1'' ''box'')"
proof -
  have n: "NormalizeLeaseSlug ''Box'' = ''box''" "NormalizeLeaseSlug ''box'' = ''box''"
    by (simp_all add: NormalizeLeaseSlug_def TrimSpace_ascii chunks_ascii code_def
        trim_by_def is_space_def lower_rune_def comp_def char_of_def bit_0)
  have "TrimSpace ''Box'' \<noteq> []"
    by (simp add: TrimSpace_ascii trim_by_def is_space_def code_def)
  then have r: "requestedLeaseSlug ''Box'' = Inr ''box''"
    by (simp add: requestedLeaseSlug_def n Let_def maxRequestedLeaseSlugLength_def)
  have s: "allocateDirectLeaseSlug (\<lambda>_. replicate 32 0) (\<lambda>_. None) ''cbx_1'' ''box'' []
         (\<lambda>_ _. Inr False) = Inr ''box''"
    using allocate_loop.simps(2) [where k = 19, simplified]
    by (simp add: allocateDirectLeaseSlug_def n Let_def slug_taken_def serverSlugInUse_def)
  show ?thesis
    using provider_name_is_dns_label [OF r s] by simp
qed

end
