(* ===== verification/ClaimTypes.thy ===== *)
theory ClaimTypes
  imports Slugs
begin

text \<open>
  The data of lease claims and their validation: the structs of \<open>internal/cli/claim.go\<close>,
  \<open>fixed_lease_engine.go\<close>, \<open>fixed_session_retention.go\<close> and \<open>fixed_lease_claim.go\<close>.

  A timestamp field is a \<open>stamp\<close>: \<open>At n\<close> is the canonical RFC 3339 text of the instant \<open>n\<close> (in
  nanoseconds, UTC), \<open>Text s p\<close> any other text \<open>s\<close>, with the instant \<open>p\<close> that \<open>time.Parse\<close> reads
  from it if it accepts it. Substructures the modelled code only copies are opaque strings
  (their JSON text). A Go map is a finite map: the nil map and the empty map are one value, which is
  what \<open>cloneStringMap\<close> and the \<open>omitempty\<close> encoding make of them; only the fixed attempt
  distinguishes them, and is therefore an option.
\<close>

section \<open>Timestamps\<close>

datatype stamp = At int | Text string "int option"

fun time_parse :: "stamp \<Rightarrow> int option" where
  "time_parse (At n) = Some n"
| "time_parse (Text s p) = p"

definition no_stamp :: stamp where
  "no_stamp = Text [] None"

definition second :: int where
  "second = 1000000000"

text \<open>\<open>Format(time.RFC3339)\<close> drops the fraction of a second, \<open>Format(time.RFC3339Nano)\<close> keeps it.\<close>

definition fmt_RFC3339 :: "int \<Rightarrow> stamp" where
  "fmt_RFC3339 t = At (t div second * second)"

definition fmt_RFC3339Nano :: "int \<Rightarrow> stamp" where
  "fmt_RFC3339Nano t = At t"

text \<open>\<open>d.Round(time.Second)\<close>: to the nearest second, halves away from zero, and the extreme
  duration where the result does not fit 64 bits.\<close>

definition round_second :: "int \<Rightarrow> int" where
  "round_second d =
     (if d < 0 then
        (let r = (- d) mod second in
         if r + r < second then d + r
         else if d - second + r \<ge> - (2 ^ 63) then d - second + r else - (2 ^ 63))
      else
        (let r = d mod second in
         if r + r < second then d - r
         else if d + second - r < 2 ^ 63 then d + second - r else 2 ^ 63 - 1))"

section \<open>Structures\<close>

type_synonym opaque = "string"

record CheckpointCaptureBinding =
  cc_ID :: string
  cc_Revision :: string
  cc_BoundRevision :: string

record SessionDiskRetentionPolicy =
  rp_Mode :: string
  rp_OwnerBinding :: string
  rp_ComputeWindowSeconds :: int

record RetainedComputeWindow =
  cw_ID :: string
  cw_AuthorizedAt :: stamp
  cw_ExpiresAt :: stamp
  cw_State :: string

record RetentionLifecycleOperation =
  ro_ID :: string
  ro_Action :: string
  ro_Phase :: string
  ro_ExpectedClaimRevision :: string

record SessionDiskRetentionState =
  rs_DesiredState :: string
  rs_ComputeWindow :: RetainedComputeWindow
  rs_Operation :: "RetentionLifecycleOperation option"

record FixedKeyedSubmission =
  ks_Key :: string
  ks_FirstSubmittedAt :: stamp
  ks_Count :: int

record FixedLeaseJournal =
  fj_Retention :: "SessionDiskRetentionState option"
  fj_Version :: int
  fj_Phase :: string
  fj_Revision :: "64 word"
  fj_Submission :: "FixedKeyedSubmission option"

record FixedCreateIntent =
  fi_Retention :: "SessionDiskRetentionPolicy option"
  fi_Version :: int
  fi_Fingerprint :: string
  fi_ProviderScope :: string
  fi_CheckpointID :: string
  fi_Slug :: string
  fi_CreatedAt :: stamp
  fi_State :: string
  fi_Attempt :: "labels option"
  fi_FailedAttempts :: "string list"
  fi_Journal :: "FixedLeaseJournal option"

record leaseClaim =
  PendingGuestExtension :: "opaque option"
  RecoveryHold :: "opaque option"
  ImageEvidence :: "opaque option"
  LeaseID :: string
  Revision :: string
  CheckpointCapture :: "CheckpointCaptureBinding option"
  ActionsRunner :: "opaque option"
  ActionsWorkspace :: "opaque option"
  Slug :: string
  Provider :: string
  CloudID :: string
  CloudNumericID :: int
  CloudImmutableID :: string
  ProviderScope :: string
  StaticHost :: string
  StaticUser :: string
  StaticPort :: string
  StaticWorkRoot :: string
  TargetOS :: string
  WindowsMode :: string
  Pond :: string
  RepoRoot :: string
  ClaimedAt :: stamp
  LastUsedAt :: stamp
  IdleTimeoutSeconds :: int
  TailscaleIPv4 :: string
  TailscaleFQDN :: string
  TailscaleHostname :: string
  TailscaleTags :: "string list"
  TailscaleLoginURL :: string
  TailscaleExitNode :: string
  TailscaleExitLAN :: bool
  SSHHost :: string
  SSHPort :: int
  BridgeURL :: string
  CoordinatorRegistrationURL :: string
  RuntimeAdapterRegistrationID :: string
  RuntimeAdapterPendingRegistrationID :: string
  CacheVolumes :: "string list"
  Labels :: labels
  FixedIntent :: "FixedCreateIntent option"

text \<open>The zero value \<open>leaseClaim{}\<close>.\<close>

definition zeroClaim :: leaseClaim where
  "zeroClaim =
     \<lparr>PendingGuestExtension = None, RecoveryHold = None, ImageEvidence = None, LeaseID = [],
      Revision = [], CheckpointCapture = None, ActionsRunner = None, ActionsWorkspace = None,
      Slug = [], Provider = [], CloudID = [], CloudNumericID = 0, CloudImmutableID = [],
      ProviderScope = [], StaticHost = [], StaticUser = [], StaticPort = [], StaticWorkRoot = [],
      TargetOS = [], WindowsMode = [], Pond = [], RepoRoot = [], ClaimedAt = no_stamp,
      LastUsedAt = no_stamp, IdleTimeoutSeconds = 0, TailscaleIPv4 = [], TailscaleFQDN = [],
      TailscaleHostname = [], TailscaleTags = [], TailscaleLoginURL = [], TailscaleExitNode = [],
      TailscaleExitLAN = False, SSHHost = [], SSHPort = 0, BridgeURL = [],
      CoordinatorRegistrationURL = [], RuntimeAdapterRegistrationID = [],
      RuntimeAdapterPendingRegistrationID = [], CacheVolumes = [], Labels = fmempty,
      FixedIntent = None\<rparr>"

record FixedLeaseKind =
  fk_RemoveKeyAfterRejection :: bool
  fk_ClaimProvider :: string
  fk_IntentVersion :: int
  fk_Label :: string
  fk_DeletionState :: string
  fk_AfterTerminal :: "(leaseClaim \<Rightarrow> gerr option) option"
  fk_TerminalIdentityLabels :: "string list"

section \<open>Validation of the fixed create journal\<close>

definition FixedSHA256 :: "string \<Rightarrow> bool" where
  "FixedSHA256 value \<longleftrightarrow> hex_decoded_length value = Some 32 \<and> value = ToLower value"

definition validRetentionOperationID :: "string \<Rightarrow> bool" where
  "validRetentionOperationID i \<longleftrightarrow>
     0 < length i \<and> length i \<le> 128 \<and> TrimSpace i = i
     \<and> list_all (\<lambda>(r, _). 33 \<le> r \<and> r \<le> 126) (chunks i)"

text \<open>\<open>int64(time.Duration(1<<63-1) / time.Second)\<close>.\<close>

definition maxWindowSeconds :: int where
  "maxWindowSeconds = (2 ^ 63 - 1) div second"

definition valid_policy :: "SessionDiskRetentionPolicy \<Rightarrow> bool" where
  "valid_policy p \<longleftrightarrow> rp_Mode p = ''session-disk'' \<and> FixedSHA256 (rp_OwnerBinding p)
     \<and> 0 < rp_ComputeWindowSeconds p \<and> rp_ComputeWindowSeconds p \<le> maxWindowSeconds"

definition valid_window :: "SessionDiskRetentionPolicy \<Rightarrow> RetainedComputeWindow \<Rightarrow> bool" where
  "valid_window p w \<longleftrightarrow>
     (case (time_parse (cw_AuthorizedAt w), time_parse (cw_ExpiresAt w)) of
        (Some start, Some end) \<Rightarrow>
          cw_ID w \<noteq> [] \<and> start < end \<and> end - start = rp_ComputeWindowSeconds p * second
          \<and> (cw_State w = ''active'' \<or> cw_State w = ''closed'')
      | _ \<Rightarrow> False)"

definition valid_operation :: "RetentionLifecycleOperation \<Rightarrow> bool" where
  "valid_operation op \<longleftrightarrow> validRetentionOperationID (ro_ID op)
     \<and> (ro_Action op = ''pause'' \<or> ro_Action op = ''resume'')
     \<and> (ro_Phase op = ''pending'' \<or> ro_Phase op = ''observed'')
     \<and> ro_ExpectedClaimRevision op \<noteq> []"

definition validateSessionDiskRetention :: "FixedCreateIntent \<Rightarrow> gerr option" where
  "validateSessionDiskRetention i =
     (case fi_Retention i of
        None \<Rightarrow>
          (case fi_Journal i of
             Some j \<Rightarrow> if fj_Version j \<noteq> 1 \<or> fj_Retention j \<noteq> None
                       then Some (Exit 4 ''unsupported fixed retention journal'') else None
           | None \<Rightarrow> None)
      | Some p \<Rightarrow>
          (case fi_Journal i of
             None \<Rightarrow> Some (Exit 4 ''invalid retained lease policy or journal'')
           | Some j \<Rightarrow>
               (case fj_Retention j of
                  None \<Rightarrow> Some (Exit 4 ''invalid retained lease policy or journal'')
                | Some s \<Rightarrow>
                    if \<not> valid_policy p \<or> fj_Version j \<noteq> 2 then
                      Some (Exit 4 ''invalid retained lease policy or journal'')
                    else if rs_DesiredState s \<noteq> ''running'' \<and> rs_DesiredState s \<noteq> ''suspended''
                        \<and> rs_DesiredState s \<noteq> ''retired'' then
                      Some (Exit 4 ''invalid retained lease disposition'')
                    else if \<not> valid_window p (rs_ComputeWindow s) then
                      Some (Exit 4 ''invalid retained compute window'')
                    else if rs_DesiredState s \<noteq> ''running'' \<and> cw_State (rs_ComputeWindow s) \<noteq> ''closed'' then
                      Some (Exit 4 ''retained suspended or retired window is not closed'')
                    else (case rs_Operation s of
                            Some op \<Rightarrow> if \<not> valid_operation op
                                       then Some (Exit 4 ''invalid retained lifecycle operation'') else None
                          | None \<Rightarrow> None))))"

definition journal_phases :: "string list" where
  "journal_phases =
     [''prepared'', ''observed'', ''submitting'', ''bound'', ''acquired'', ''deleting'', ''released'']"

definition valid_submission :: "FixedKeyedSubmission \<Rightarrow> bool" where
  "valid_submission s \<longleftrightarrow> time_parse (ks_FirstSubmittedAt s) \<noteq> None \<and> ks_Key s \<noteq> []
     \<and> 1 \<le> ks_Count s \<and> ks_Count s \<le> 2"

definition validateFixedJournal :: "FixedCreateIntent option \<Rightarrow> gerr option" where
  "validateFixedJournal intent =
     (case intent of
        None \<Rightarrow> Some (Exit 4 ''missing fixed create intent'')
      | Some i \<Rightarrow>
          (case fi_Journal i of
             None \<Rightarrow> validateSessionDiskRetention i
           | Some j \<Rightarrow>
               if (fj_Version j \<noteq> 1 \<and> fj_Version j \<noteq> 2) \<or> fj_Revision j = 0 then
                 Some (Exit 4 ''unsupported fixed lease journal'')
               else if (case fj_Submission j of Some s \<Rightarrow> \<not> valid_submission s | None \<Rightarrow> False) then
                 Some (Exit 4 ''invalid keyed submission journal'')
               else if fj_Phase j \<notin> set journal_phases then
                 Some (Exit 4 ''invalid fixed lease journal phase'')
               else validateSessionDiskRetention i))"

definition initializeSessionDiskRetention :: "FixedCreateIntent \<Rightarrow> string \<Rightarrow> int \<Rightarrow> FixedCreateIntent res" where
  "initializeSessionDiskRetention i leaseID now =
     (case (fi_Retention i, fi_Journal i) of
        (Some p, Some j) \<Rightarrow>
          if \<not> valid_policy p then Inl (Fail ''invalid session disk retention policy'')
          else
            (let w = \<lparr>cw_ID = leaseID, cw_AuthorizedAt = fmt_RFC3339Nano now,
                      cw_ExpiresAt = fmt_RFC3339Nano (now + rp_ComputeWindowSeconds p * second),
                      cw_State = ''active''\<rparr>;
                 st = \<lparr>rs_DesiredState = ''running'', rs_ComputeWindow = w, rs_Operation = None\<rparr>;
                 i' = i\<lparr>fi_Journal := Some (j\<lparr>fj_Version := 2, fj_Retention := Some st\<rparr>)\<rparr>
             in case validateSessionDiskRetention i' of Some e \<Rightarrow> Inl e | None \<Rightarrow> Inr i')
      | _ \<Rightarrow> Inl (Fail ''nil pointer dereference''))"

section \<open>Terminal claims\<close>

definition IsFixedClaim :: "FixedLeaseKind \<Rightarrow> leaseClaim \<Rightarrow> bool" where
  "IsFixedClaim k c \<longleftrightarrow> Provider c = fk_ClaimProvider k \<and> FixedIntent c \<noteq> None"

definition retire_state :: "SessionDiskRetentionState \<Rightarrow> SessionDiskRetentionState" where
  "retire_state s = s\<lparr>rs_DesiredState := ''retired'',
     rs_ComputeWindow := (rs_ComputeWindow s)\<lparr>cw_State := ''closed''\<rparr>, rs_Operation := None\<rparr>"

definition terminalFixedJournal :: "FixedCreateIntent \<Rightarrow> FixedCreateIntent" where
  "terminalFixedJournal i =
     (let revision = (case fi_Journal i of Some j \<Rightarrow> fj_Revision j + 1 | None \<Rightarrow> 1);
          version = (case fi_Journal i of Some j \<Rightarrow> fj_Version j | None \<Rightarrow> 1);
          retention = (case fi_Journal i of Some j \<Rightarrow> fj_Retention j | None \<Rightarrow> None)
      in i\<lparr>fi_Journal := Some \<lparr>fj_Retention = map_option retire_state retention, fj_Version = version,
             fj_Phase = ''released'', fj_Revision = revision, fj_Submission = None\<rparr>\<rparr>)"

definition released_intent :: "FixedCreateIntent \<Rightarrow> FixedCreateIntent" where
  "released_intent i = (terminalFixedJournal (i\<lparr>fi_State := ''released''\<rparr>))
     \<lparr>fi_Attempt := None, fi_FailedAttempts := []\<rparr>"

text \<open>The labels a kind keeps in its terminal claims.\<close>

definition terminal_labels :: "string list \<Rightarrow> labels \<Rightarrow> labels" where
  "terminal_labels ks ls = fmfilter (\<lambda>k. k \<in> set ks) ls"

text \<open>\<open>TerminalClaim\<close> is called on fixed claims only; the code dereferences the intent.\<close>

definition TerminalClaim :: "FixedLeaseKind \<Rightarrow> leaseClaim \<Rightarrow> int \<Rightarrow> leaseClaim" where
  "TerminalClaim k c now =
     (let intent = released_intent (the (FixedIntent c));
          terminal = zeroClaim\<lparr>LeaseID := LeaseID c, Slug := fi_Slug intent,
            Provider := fk_ClaimProvider k, ProviderScope := fi_ProviderScope intent,
            ClaimedAt := ClaimedAt c, LastUsedAt := fmt_RFC3339 now, FixedIntent := Some intent,
            CoordinatorRegistrationURL := CoordinatorRegistrationURL c,
            RuntimeAdapterRegistrationID := RuntimeAdapterRegistrationID c,
            RuntimeAdapterPendingRegistrationID := RuntimeAdapterPendingRegistrationID c,
            ActionsRunner := ActionsRunner c\<rparr>
      in if fk_TerminalIdentityLabels k \<noteq> [] then
           terminal\<lparr>CloudID := CloudID c, CloudNumericID := CloudNumericID c,
             CloudImmutableID := CloudImmutableID c, RepoRoot := RepoRoot c,
             Labels := terminal_labels (fk_TerminalIdentityLabels k) (Labels c)\<rparr>
         else terminal)"

definition valid_terminal_shape :: "FixedLeaseKind \<Rightarrow> leaseClaim \<Rightarrow> FixedCreateIntent \<Rightarrow> string \<Rightarrow> bool" where
  "valid_terminal_shape k c i leaseID \<longleftrightarrow>
     (let validIdentity =
        (if fk_TerminalIdentityLabels k \<noteq> []
         then fset (fmdom (Labels c)) \<subseteq> set (fk_TerminalIdentityLabels k)
         else CloudID c = [] \<and> Labels c = fmempty)
      in LeaseID c = leaseID \<and> IsFixedClaim k c \<and> fi_Version i = fk_IntentVersion k
         \<and> TrimSpace (fi_Fingerprint i) \<noteq> [] \<and> TrimSpace (fi_ProviderScope i) \<noteq> []
         \<and> ProviderScope c = fi_ProviderScope i \<and> Slug c = fi_Slug i \<and> fi_State i = ''released''
         \<and> validIdentity \<and> SSHHost c = [] \<and> SSHPort c = 0
         \<and> (fi_Attempt i = None \<or> fi_Attempt i = Some fmempty) \<and> fi_FailedAttempts i = [])"

definition same_terminal_identity :: "leaseClaim \<Rightarrow> leaseClaim \<Rightarrow> bool" where
  "same_terminal_identity c expected \<longleftrightarrow>
     CloudID c = CloudID expected \<and> CloudNumericID c = CloudNumericID expected
     \<and> CloudImmutableID c = CloudImmutableID expected \<and> RepoRoot c = RepoRoot expected
     \<and> Labels c = Labels expected"

text \<open>\<open>k.TerminalClaim(previous, time.Time{})\<close> is used for identity only, so any time will do.\<close>

definition ValidateTerminalClaim ::
  "FixedLeaseKind \<Rightarrow> leaseClaim \<Rightarrow> leaseClaim \<Rightarrow> string \<Rightarrow> (leaseClaim \<Rightarrow> gerr option) option \<Rightarrow> gerr option" where
  "ValidateTerminalClaim k c previous leaseID extra =
     (case validateFixedJournal (FixedIntent c) of
        Some e \<Rightarrow> Some e
      | None \<Rightarrow>
          (let i = the (FixedIntent c) in
           if \<not> valid_terminal_shape k c i leaseID then Some (Exit 4 ''invalid terminal tombstone'')
           else (case (case extra of Some f \<Rightarrow> f c | None \<Rightarrow> None) of
             Some e \<Rightarrow> Some e
           | None \<Rightarrow>
               if \<not> IsFixedClaim k previous then None
               else (let pi = the (FixedIntent previous) in
                 if fk_TerminalIdentityLabels k \<noteq> []
                    \<and> \<not> same_terminal_identity c (TerminalClaim k previous 0) then
                   Some (Exit 4 ''terminal tombstone changed resource identity'')
                 else if CoordinatorRegistrationURL c \<noteq> CoordinatorRegistrationURL previous
                    \<or> RuntimeAdapterRegistrationID c \<noteq> RuntimeAdapterRegistrationID previous
                    \<or> RuntimeAdapterPendingRegistrationID c \<noteq> RuntimeAdapterPendingRegistrationID previous
                    \<or> ActionsRunner c \<noteq> ActionsRunner previous then
                   Some (Exit 4 ''terminal tombstone changed registration'')
                 else if LeaseID previous \<noteq> leaseID \<or> fi_Version pi \<noteq> fi_Version i
                    \<or> fi_Retention pi \<noteq> fi_Retention i \<or> fi_Fingerprint pi \<noteq> fi_Fingerprint i
                    \<or> fi_ProviderScope pi \<noteq> fi_ProviderScope i \<or> fi_CheckpointID pi \<noteq> fi_CheckpointID i
                    \<or> fi_Slug pi \<noteq> fi_Slug i then
                   Some (Exit 4 ''terminal tombstone changed identity'')
                 else None))))"

section \<open>Release receipts are valid\<close>

lemma validateSessionDiskRetention_ok:
  "validateSessionDiskRetention i = None \<longleftrightarrow>
     (case fi_Retention i of
        None \<Rightarrow> (\<forall>j. fi_Journal i = Some j \<longrightarrow> fj_Version j = 1 \<and> fj_Retention j = None)
      | Some p \<Rightarrow> (\<exists>j s. fi_Journal i = Some j \<and> fj_Retention j = Some s \<and> valid_policy p
            \<and> fj_Version j = 2 \<and> rs_DesiredState s \<in> {''running'', ''suspended'', ''retired''}
            \<and> valid_window p (rs_ComputeWindow s)
            \<and> (rs_DesiredState s = ''running'' \<or> cw_State (rs_ComputeWindow s) = ''closed'')
            \<and> (\<forall>op. rs_Operation s = Some op \<longrightarrow> valid_operation op)))"
  by (auto simp: validateSessionDiskRetention_def split: option.splits)

lemma validateFixedJournal_ok:
  "validateFixedJournal (Some i) = None \<longleftrightarrow>
     validateSessionDiskRetention i = None
     \<and> (\<forall>j. fi_Journal i = Some j \<longrightarrow> fj_Version j \<in> {1, 2} \<and> fj_Revision j \<noteq> 0
          \<and> (\<forall>s. fj_Submission j = Some s \<longrightarrow> valid_submission s) \<and> fj_Phase j \<in> set journal_phases)"
  by (auto simp: validateFixedJournal_def split: option.splits)

lemma valid_window_closed: "valid_window p w \<Longrightarrow> valid_window p (w\<lparr>cw_State := ''closed''\<rparr>)"
  by (auto simp: valid_window_def split: option.splits)

lemma validateFixedJournal_None [simp]: "validateFixedJournal None \<noteq> None"
  by (simp add: validateFixedJournal_def)

lemma released_intent_simps [simp]:
  "fi_State (released_intent i) = ''released''" "fi_Attempt (released_intent i) = None"
  "fi_FailedAttempts (released_intent i) = []" "fi_Version (released_intent i) = fi_Version i"
  "fi_Fingerprint (released_intent i) = fi_Fingerprint i" "fi_Slug (released_intent i) = fi_Slug i"
  "fi_ProviderScope (released_intent i) = fi_ProviderScope i"
  "fi_Retention (released_intent i) = fi_Retention i"
  "fi_CheckpointID (released_intent i) = fi_CheckpointID i"
  by (simp_all add: released_intent_def terminalFixedJournal_def Let_def)

lemma released_intent_valid:
  assumes "validateFixedJournal (Some i) = None"
    and "\<forall>j. fi_Journal i = Some j \<longrightarrow> fj_Revision j + 1 \<noteq> 0"
  shows "validateFixedJournal (Some (released_intent i)) = None"
proof -
  have "validateSessionDiskRetention (released_intent i) = None"
    using assms(1) valid_window_closed
    by (cases "fi_Journal i"; cases "fi_Retention i")
      (auto simp: validateFixedJournal_ok validateSessionDiskRetention_ok released_intent_def
        terminalFixedJournal_def Let_def retire_state_def)
  then show ?thesis
    using assms by (cases "fi_Journal i")
      (auto simp: validateFixedJournal_ok released_intent_def terminalFixedJournal_def Let_def
        journal_phases_def)
qed

lemma TerminalClaim_simps [simp]:
  "LeaseID (TerminalClaim k c now) = LeaseID c"
  "Provider (TerminalClaim k c now) = fk_ClaimProvider k"
  "FixedIntent (TerminalClaim k c now) = Some (released_intent (the (FixedIntent c)))"
  "Slug (TerminalClaim k c now) = fi_Slug (the (FixedIntent c))"
  "ProviderScope (TerminalClaim k c now) = fi_ProviderScope (the (FixedIntent c))"
  "SSHHost (TerminalClaim k c now) = []" "SSHPort (TerminalClaim k c now) = 0"
  "RecoveryHold (TerminalClaim k c now) = None"
  "CoordinatorRegistrationURL (TerminalClaim k c now) = CoordinatorRegistrationURL c"
  "RuntimeAdapterRegistrationID (TerminalClaim k c now) = RuntimeAdapterRegistrationID c"
  "RuntimeAdapterPendingRegistrationID (TerminalClaim k c now) = RuntimeAdapterPendingRegistrationID c"
  "ActionsRunner (TerminalClaim k c now) = ActionsRunner c"
  by (simp_all add: TerminalClaim_def Let_def zeroClaim_def)

lemma IsFixedClaim_Terminal [simp]: "IsFixedClaim k (TerminalClaim k c now)"
  by (simp add: IsFixedClaim_def)

lemma TerminalClaim_identity:
  "same_terminal_identity (TerminalClaim k c now) (TerminalClaim k c 0)"
  by (simp add: same_terminal_identity_def TerminalClaim_def Let_def)

lemma TerminalClaim_labels:
  "fset (fmdom (Labels (TerminalClaim k c now))) \<subseteq> set (fk_TerminalIdentityLabels k)"
  by (auto simp: TerminalClaim_def Let_def zeroClaim_def terminal_labels_def)

lemma TerminalClaim_bare:
  "fk_TerminalIdentityLabels k = [] \<Longrightarrow>
     CloudID (TerminalClaim k c now) = [] \<and> Labels (TerminalClaim k c now) = fmempty"
  by (simp add: TerminalClaim_def Let_def zeroClaim_def)

text \<open>C34: The receipt a release publishes for a well-formed fixed claim passes the validation that
  later commands run on it against the claim it replaced, and keeps that claim's create intent
  identity; the only other requirement is that the journal revision counter is not exhausted.\<close>

theorem terminal_claim_validates:
  assumes "IsFixedClaim k c" and "FixedIntent c = Some i" and "validateFixedJournal (Some i) = None"
    and "fi_Version i = fk_IntentVersion k"
    and "TrimSpace (fi_Fingerprint i) \<noteq> []" and "TrimSpace (fi_ProviderScope i) \<noteq> []"
    and "\<forall>j. fi_Journal i = Some j \<longrightarrow> fj_Revision j + 1 \<noteq> 0"
  shows "ValidateTerminalClaim k (TerminalClaim k c now) c (LeaseID c) None = None"
proof -
  have v: "validateFixedJournal (Some (released_intent i)) = None"
    using assms(3,7) by (rule released_intent_valid)
  have "valid_terminal_shape k (TerminalClaim k c now) (released_intent i) (LeaseID c)"
    using assms TerminalClaim_labels [of k c now] TerminalClaim_bare [of k c now]
    by (simp add: valid_terminal_shape_def)
  with v show ?thesis
    using assms(1,2) TerminalClaim_identity [of k c now]
    by (simp add: ValidateTerminalClaim_def)
qed

text \<open>A small fixed claim, used to instantiate hypotheses.\<close>

definition sampleKind :: FixedLeaseKind where
  "sampleKind = \<lparr>fk_RemoveKeyAfterRejection = False, fk_ClaimProvider = ''aws-fixed-v1'',
     fk_IntentVersion = 1, fk_Label = ''aws'', fk_DeletionState = [], fk_AfterTerminal = None,
     fk_TerminalIdentityLabels = []\<rparr>"

definition sampleIntent :: FixedCreateIntent where
  "sampleIntent = \<lparr>fi_Retention = None, fi_Version = 1, fi_Fingerprint = ''f'', fi_ProviderScope = ''s'',
     fi_CheckpointID = [], fi_Slug = ''box'', fi_CreatedAt = At 0, fi_State = ''prepared'',
     fi_Attempt = None, fi_FailedAttempts = [],
     fi_Journal = Some \<lparr>fj_Retention = None, fj_Version = 1, fj_Phase = ''prepared'', fj_Revision = 1,
       fj_Submission = None\<rparr>\<rparr>"

definition sampleClaim :: leaseClaim where
  "sampleClaim = zeroClaim\<lparr>LeaseID := ''cbx_0123456789ab'', Slug := ''box'', Provider := ''aws-fixed-v1'',
     ProviderScope := ''s'', RepoRoot := ''/r'', FixedIntent := Some sampleIntent\<rparr>"

lemma sampleIntent_valid: "validateFixedJournal (Some sampleIntent) = None"
  by (simp add: validateFixedJournal_ok validateSessionDiskRetention_ok sampleIntent_def journal_phases_def)

theorem terminal_claim_validates_witness:
  "ValidateTerminalClaim sampleKind (TerminalClaim sampleKind sampleClaim 5) sampleClaim
     ''cbx_0123456789ab'' None = None"
proof -
  have b: "TrimSpace ''f'' \<noteq> []" "TrimSpace ''s'' \<noteq> []"
    by (simp_all add: TrimSpace_ascii trim_by_def is_space_def code_def)
  have "ValidateTerminalClaim sampleKind (TerminalClaim sampleKind sampleClaim 5) sampleClaim
     (LeaseID sampleClaim) None = None"
    by (rule terminal_claim_validates [of _ _ sampleIntent])
      (simp_all add: sampleIntent_valid, simp_all add: sampleKind_def sampleClaim_def sampleIntent_def IsFixedClaim_def b)
  then show ?thesis by (simp add: sampleClaim_def)
qed

end
