(* ===== verification/ClaimStore.thy ===== *)
theory ClaimStore
  imports ClaimTypes "HOL-Library.List_Lexorder" "HOL-Library.Char_ord"
begin

text \<open>
  The claim directory and the transaction that owns every publication of a claim:
  \<open>claim_transaction.go\<close> and the file layer of \<open>claim.go\<close>.

  The directory is the list of its entries in the order \<open>os.ReadDir\<close> gives (by file name). A claim
  file holds the claim its JSON encodes; \<open>CInvalid\<close> is a file that does not parse, \<open>CUnreadable\<close>
  one that cannot be read or is not regular, \<open>CDir\<close> a directory. The exclusive file lock of a
  claim makes a transaction atomic with respect to the others, so a transaction is one function on
  the directory, and a history is a sequence of transactions.

  What the environment may do to a transaction is its argument \<open>txEnv\<close>: fail before the lock is
  held, produce the random revision or fail, and let the atomic replacement succeed, fail before the
  rename, or fail after it (the new content is then already visible).
\<close>

section \<open>The directory\<close>

datatype cfile = CClaim leaseClaim | CInvalid | CUnreadable | CDir

type_synonym claimsDir = "(string \<times> cfile) list"

definition claimFile :: "string \<Rightarrow> string" where
  "claimFile leaseID = leaseID @ ''.json''"

fun dirPut :: "string \<Rightarrow> cfile \<Rightarrow> claimsDir \<Rightarrow> claimsDir" where
  "dirPut n f [] = [(n, f)]"
| "dirPut n f ((m, g) # d) =
     (if n = m then (n, f) # d else if n < m then (n, f) # (m, g) # d else (m, g) # dirPut n f d)"

definition dirDelete :: "string \<Rightarrow> claimsDir \<Rightarrow> claimsDir" where
  "dirDelete n d = filter (\<lambda>(m, _). m \<noteq> n) d"

text \<open>The well-formed directories: entries in strictly increasing name order.\<close>

definition dirOk :: "claimsDir \<Rightarrow> bool" where
  "dirOk d \<longleftrightarrow> sorted_wrt (<) (map fst d)"

lemma map_of_dirPut: "dirOk d \<Longrightarrow> map_of (dirPut n f d) = (map_of d)(n \<mapsto> f)"
proof (induction n f d rule: dirPut.induct)
  case (2 n f m g d)
  show ?case
  proof (cases "n < m")
    case True
    then have "n \<notin> fst ` set d" using 2(2) by (force simp: dirOk_def)
    then show ?thesis using True by (auto simp: fun_eq_iff)
  next
    case False
    then show ?thesis using 2 by (auto simp: dirOk_def fun_eq_iff)
  qed
qed auto

lemma fst_set_dirPut: "fst ` set (dirPut n f d) = insert n (fst ` set d)"
  by (induction n f d rule: dirPut.induct) auto

lemma dirOk_dirPut: "dirOk d \<Longrightarrow> dirOk (dirPut n f d)"
proof (induction n f d rule: dirPut.induct)
  case (1 n f)
  then show ?case by (simp add: dirOk_def)
next
  case (2 n f m g d)
  then show ?case using fst_set_dirPut [of n f d] by (auto simp: dirOk_def; force)
qed

lemma map_of_dirDelete: "map_of (dirDelete n d) = (map_of d)(n := None)"
  by (induction d) (auto simp: dirDelete_def)

lemma dirOk_dirDelete: "dirOk d \<Longrightarrow> dirOk (dirDelete n d)"
  by (induction d) (auto simp: dirOk_def dirDelete_def)

lemma claimFile_inject [simp]: "claimFile a = claimFile b \<longleftrightarrow> a = b"
  by (simp add: claimFile_def)

section \<open>Reading a claim\<close>

definition validLeaseClaimID :: "string \<Rightarrow> bool" where
  "validLeaseClaimID leaseID \<longleftrightarrow>
     (if leaseID = [] \<or> leaseID = ''.'' \<or> leaseID = ''..'' then False
      else if list_ex (\<lambda>c. c \<in> set ''<>:/|?*'' \<or> code c = 34 \<or> code c = 92 \<or> code c = 0) leaseID
           \<or> HasSuffix leaseID ''.'' then False
      else if list_ex (\<lambda>(r, _). r < 32) (chunks leaseID) then False
      else (let name = takeWhile (\<lambda>c. c \<noteq> CHR ''.'') (ToUpper leaseID) in
        if name \<in> {''CON'', ''PRN'', ''AUX'', ''NUL''} then False
        else \<not> (length name = 4 \<and> (HasPrefix name ''COM'' \<or> HasPrefix name ''LPT'')
                \<and> code CHR ''1'' \<le> code (name ! 3) \<and> code (name ! 3) \<le> code CHR ''9'')))"

definition validLeaseClaimPathID :: "string \<Rightarrow> bool" where
  "validLeaseClaimPathID leaseID \<longleftrightarrow> leaseID = TrimSpace leaseID \<and> validLeaseClaimID leaseID"

text \<open>The path of a claim is its file name in the claim directory; \<open>stateDirErr\<close> is the error of
  \<open>CrabboxStateDir\<close>.\<close>

definition leaseClaimPath :: "gerr option \<Rightarrow> string \<Rightarrow> string res" where
  "leaseClaimPath stateDirErr leaseID =
     (if \<not> validLeaseClaimPathID leaseID then Inl (Fail ''invalid lease claim id'')
      else (case stateDirErr of Some e \<Rightarrow> Inl e | None \<Rightarrow> Inr (claimFile leaseID)))"

definition decodeLeaseClaim :: "leaseClaim \<Rightarrow> leaseClaim res" where
  "decodeLeaseClaim c =
     (case FixedIntent c of
        None \<Rightarrow> Inr c
      | Some i \<Rightarrow>
          if fi_Journal i \<noteq> None \<or> fi_Retention i \<noteq> None then
            (case validateFixedJournal (Some i) of Some e \<Rightarrow> Inl e | None \<Rightarrow> Inr c)
          else Inr c)"

definition readLeaseClaimPathWithPresence :: "claimsDir \<Rightarrow> string \<Rightarrow> (leaseClaim \<times> bool) res" where
  "readLeaseClaimPathWithPresence d path =
     (case map_of d path of
        None \<Rightarrow> Inr (zeroClaim, False)
      | Some (CClaim c) \<Rightarrow> (case decodeLeaseClaim c of Inl e \<Rightarrow> Inl e | Inr c' \<Rightarrow> Inr (c', True))
      | Some CInvalid \<Rightarrow> Inl (Exit 2 ''parse claim'')
      | Some CUnreadable \<Rightarrow> Inl (Exit 2 ''read claim'')
      | Some CDir \<Rightarrow> Inl (Exit 2 ''read claim''))"

definition validateLeaseClaimFileIdentity :: "string \<Rightarrow> leaseClaim \<Rightarrow> bool \<Rightarrow> gerr option" where
  "validateLeaseClaimFileIdentity leaseID c exists =
     (if exists \<and> LeaseID c \<noteq> [] \<and> LeaseID c \<noteq> leaseID
      then Some (Exit 2 ''refusing misfiled claim'') else None)"

definition ReadLeaseClaimWithPresence :: "gerr option \<Rightarrow> claimsDir \<Rightarrow> string \<Rightarrow> (leaseClaim \<times> bool) res" where
  "ReadLeaseClaimWithPresence stateDirErr d leaseID =
     (case leaseClaimPath stateDirErr leaseID of
        Inl e \<Rightarrow> if \<not> validLeaseClaimPathID leaseID then Inr (zeroClaim, False) else Inl e
      | Inr path \<Rightarrow>
          (case readLeaseClaimPathWithPresence d path of
             Inl e \<Rightarrow> Inl e
           | Inr (c, exists) \<Rightarrow>
               (case validateLeaseClaimFileIdentity leaseID c exists of
                  Some e \<Rightarrow> Inl e
                | None \<Rightarrow> Inr (c, exists))))"

definition ReadLeaseClaim :: "gerr option \<Rightarrow> claimsDir \<Rightarrow> string \<Rightarrow> leaseClaim res" where
  "ReadLeaseClaim stateDirErr d leaseID =
     (case ReadLeaseClaimWithPresence stateDirErr d leaseID of Inl e \<Rightarrow> Inl e | Inr (c, _) \<Rightarrow> Inr c)"

section \<open>Transactions\<close>

datatype claimRevisionPhase = claimRevisionBeforeAction | claimRevisionBeforeMutation | claimRevisionAfterMutation
datatype claimDirectoryPolicy = claimDirectoryExisting | claimDirectoryCreate | claimDirectoryDurableNamespace
datatype claimPublicationPolicy = claimPublish | claimSkipEmpty
datatype claimActionDecision = claimActionContinue | claimActionKeepSnapshot

datatype writeOutcome = WriteOk | WriteFails gerr | WriteFailsRenamed gerr

record txEnv =
  te_StateDirErr :: "gerr option"
  te_NearestErr :: "gerr option"
  te_MkdirErr :: "gerr option"
  te_LockErr :: "gerr option"
  te_Random :: "string res"
  te_Write :: writeOutcome

text \<open>An action is run at most once, so its outcome is a value; \<open>tr_Ran\<close> records whether it acted.\<close>

record leaseClaimTransaction =
  tx_Guard :: "(leaseClaim \<Rightarrow> bool \<Rightarrow> gerr option) option"
  tx_Action :: "(claimActionDecision \<times> gerr option) option"
  tx_Mutate :: "leaseClaim \<Rightarrow> leaseClaim res"
  tx_Revision :: claimRevisionPhase
  tx_Directory :: claimDirectoryPolicy
  tx_Publication :: claimPublicationPolicy

record txResult =
  tr_Dir :: claimsDir
  tr_Claim :: leaseClaim
  tr_Err :: "gerr option"
  tr_Ran :: bool

definition writeLeaseClaimAtomic :: "writeOutcome \<Rightarrow> string \<Rightarrow> leaseClaim \<Rightarrow> claimsDir \<Rightarrow> claimsDir \<times> gerr option" where
  "writeLeaseClaimAtomic w path c d =
     (case w of
        WriteOk \<Rightarrow> (dirPut path (CClaim c) d, None)
      | WriteFails e \<Rightarrow> (d, Some e)
      | WriteFailsRenamed e \<Rightarrow> (dirPut path (CClaim c) d, Some e))"

definition refreshLeaseClaimRevision :: "txEnv \<Rightarrow> leaseClaim \<Rightarrow> leaseClaim res" where
  "refreshLeaseClaimRevision env c =
     (case te_Random env of Inl e \<Rightarrow> Inl e | Inr r \<Rightarrow> Inr (c\<lparr>Revision := r\<rparr>))"

definition unchangedLeaseClaimGuard :: "leaseClaim \<Rightarrow> bool \<Rightarrow> leaseClaim \<Rightarrow> bool \<Rightarrow> gerr option" where
  "unchangedLeaseClaimGuard expected expectedExists existing exists =
     (if exists \<noteq> expectedExists \<or> (exists \<and> existing \<noteq> expected)
      then Some (Exit 2 ''claim changed; retry'') else None)"

definition endpointClaimGuard ::
  "(leaseClaim \<Rightarrow> bool \<Rightarrow> gerr option) option \<Rightarrow> leaseClaim \<Rightarrow> bool \<Rightarrow> gerr option" where
  "endpointClaimGuard next existing exists =
     (if exists \<and> LeaseID existing = [] then Some (Exit 2 ''claim is incomplete; refusing endpoint rewrite'')
      else (case next of Some g \<Rightarrow> g existing exists | None \<Rightarrow> None))"

definition claimTransactionAction :: "gerr option option \<Rightarrow> (claimActionDecision \<times> gerr option) option" where
  "claimTransactionAction action = map_option (\<lambda>err. (claimActionContinue, err)) action"

definition txFail :: "claimsDir \<Rightarrow> bool \<Rightarrow> gerr \<Rightarrow> txResult" where
  "txFail d acted e = \<lparr>tr_Dir = d, tr_Claim = zeroClaim, tr_Err = Some e, tr_Ran = acted\<rparr>"

text \<open>The steps of a transaction from the mutation on: transform, decide, refresh, publish.\<close>

definition publishLeaseClaim ::
  "leaseClaimTransaction \<Rightarrow> txEnv \<Rightarrow> string \<Rightarrow> claimsDir \<Rightarrow> bool \<Rightarrow> leaseClaim \<Rightarrow> txResult" where
  "publishLeaseClaim tx env path d acted c0 =
     (case (if tx_Revision tx = claimRevisionBeforeMutation then refreshLeaseClaimRevision env c0 else Inr c0) of
        Inl e \<Rightarrow> txFail d acted e
      | Inr c1 \<Rightarrow>
          (case tx_Mutate tx c1 of
             Inl e \<Rightarrow> txFail d acted e
           | Inr c2 \<Rightarrow>
               if tx_Publication tx = claimSkipEmpty \<and> LeaseID c2 = [] then
                 \<lparr>tr_Dir = d, tr_Claim = zeroClaim, tr_Err = None, tr_Ran = acted\<rparr>
               else
                 (case (if tx_Revision tx = claimRevisionAfterMutation then refreshLeaseClaimRevision env c2
                        else Inr c2) of
                    Inl e \<Rightarrow> txFail d acted e
                  | Inr c3 \<Rightarrow>
                      (case writeLeaseClaimAtomic (te_Write env) path c3 d of
                         (d', err) \<Rightarrow> \<lparr>tr_Dir = d', tr_Claim = c3, tr_Err = err, tr_Ran = acted\<rparr>))))"

definition lockedLeaseClaimTransaction ::
  "string \<Rightarrow> leaseClaimTransaction \<Rightarrow> txEnv \<Rightarrow> string \<Rightarrow> claimsDir \<Rightarrow> txResult" where
  "lockedLeaseClaimTransaction leaseID tx env path d =
     (case readLeaseClaimPathWithPresence d path of
        Inl e \<Rightarrow> txFail d False e
      | Inr (c, exists) \<Rightarrow>
          (case validateLeaseClaimFileIdentity leaseID c exists of
             Some e \<Rightarrow> txFail d False e
           | None \<Rightarrow>
               (case (case tx_Guard tx of Some g \<Rightarrow> g c exists | None \<Rightarrow> None) of
                  Some e \<Rightarrow> txFail d False e
                | None \<Rightarrow>
                    (case (if tx_Revision tx = claimRevisionBeforeAction then refreshLeaseClaimRevision env c
                           else Inr c) of
                       Inl e \<Rightarrow> txFail d False e
                     | Inr c0 \<Rightarrow>
                         (case tx_Action tx of
                            None \<Rightarrow> publishLeaseClaim tx env path d False c0
                          | Some (claimActionKeepSnapshot, err) \<Rightarrow>
                              \<lparr>tr_Dir = d, tr_Claim = c, tr_Err = err, tr_Ran = True\<rparr>
                          | Some (claimActionContinue, Some e) \<Rightarrow> txFail d True e
                          | Some (claimActionContinue, None) \<Rightarrow>
                              publishLeaseClaim tx env path d True c0)))))"

definition transactLeaseClaim ::
  "string \<Rightarrow> leaseClaimTransaction \<Rightarrow> txEnv \<Rightarrow> claimsDir \<Rightarrow> txResult" where
  "transactLeaseClaim leaseID tx env d =
     (case leaseClaimPath (te_StateDirErr env) leaseID of
        Inl e \<Rightarrow> txFail d False e
      | Inr path \<Rightarrow>
          (case (if tx_Directory tx = claimDirectoryDurableNamespace then te_NearestErr env else None) of
             Some e \<Rightarrow> txFail d False e
           | None \<Rightarrow>
               (case (if tx_Directory tx \<noteq> claimDirectoryExisting then te_MkdirErr env else None) of
                  Some e \<Rightarrow> txFail d False e
                | None \<Rightarrow>
                    (case te_LockErr env of
                       Some e \<Rightarrow> txFail d False e
                     | None \<Rightarrow> lockedLeaseClaimTransaction leaseID tx env path d))))"

section \<open>What a transaction does\<close>

definition guardPasses :: "leaseClaimTransaction \<Rightarrow> leaseClaim \<Rightarrow> bool \<Rightarrow> bool" where
  "guardPasses tx c exists \<longleftrightarrow> (case tx_Guard tx of Some g \<Rightarrow> g c exists = None | None \<Rightarrow> True)"

text \<open>A transaction that got past its guard found this claim in the file.\<close>

definition admitted :: "string \<Rightarrow> leaseClaimTransaction \<Rightarrow> claimsDir \<Rightarrow> leaseClaim \<Rightarrow> bool \<Rightarrow> bool" where
  "admitted leaseID tx d c exists \<longleftrightarrow>
     validLeaseClaimPathID leaseID
     \<and> readLeaseClaimPathWithPresence d (claimFile leaseID) = Inr (c, exists)
     \<and> validateLeaseClaimFileIdentity leaseID c exists = None \<and> guardPasses tx c exists"

definition revisionKept :: "leaseClaimTransaction \<Rightarrow> bool" where
  "revisionKept tx \<longleftrightarrow> tx_Revision tx = claimRevisionAfterMutation
     \<or> (\<forall>c c'. tx_Mutate tx c = Inr c' \<longrightarrow> Revision c' = Revision c)"

lemma publishLeaseClaim_dir:
  "tr_Dir (publishLeaseClaim tx env path d acted c) = d
   \<or> tr_Dir (publishLeaseClaim tx env path d acted c)
       = dirPut path (CClaim (tr_Claim (publishLeaseClaim tx env path d acted c))) d"
  by (auto simp: publishLeaseClaim_def writeLeaseClaimAtomic_def txFail_def
      split: sum.splits if_splits writeOutcome.splits)

lemma publishLeaseClaim_ran [simp]: "tr_Ran (publishLeaseClaim tx env path d acted c) = acted"
  by (auto simp: publishLeaseClaim_def writeLeaseClaimAtomic_def txFail_def
      split: sum.splits if_splits writeOutcome.splits)

lemma publishLeaseClaim_revision:
  assumes "tr_Dir (publishLeaseClaim tx env path d acted c) \<noteq> d" and kept: "revisionKept tx"
    and "tx_Revision tx = claimRevisionBeforeAction \<longrightarrow> te_Random env = Inr (Revision c)"
  shows "te_Random env = Inr (Revision (tr_Claim (publishLeaseClaim tx env path d acted c)))"
proof (cases "tx_Revision tx = claimRevisionAfterMutation")
  case True
  then show ?thesis
    using assms(1)
    by (auto simp: publishLeaseClaim_def refreshLeaseClaimRevision_def writeLeaseClaimAtomic_def txFail_def
        split: sum.splits if_splits writeOutcome.splits)
next
  case False
  then have k: "tx_Mutate tx b = Inr b' \<Longrightarrow> Revision b' = Revision b" for b b'
    using kept by (auto simp: revisionKept_def)
  from False show ?thesis
    using assms(1,3)
    by (cases "tx_Revision tx")
      (auto simp: publishLeaseClaim_def refreshLeaseClaimRevision_def writeLeaseClaimAtomic_def txFail_def
        dest: k split: sum.splits if_splits writeOutcome.splits)
qed

lemma lockedLeaseClaimTransaction_cases:
  fixes leaseID tx env path d
  defines "r \<equiv> lockedLeaseClaimTransaction leaseID tx env path d"
  shows "(tr_Dir r = d \<and> \<not> tr_Ran r)
   \<or> (\<exists>c exists. readLeaseClaimPathWithPresence d path = Inr (c, exists)
        \<and> validateLeaseClaimFileIdentity leaseID c exists = None \<and> guardPasses tx c exists
        \<and> (tr_Dir r = d
           \<or> (\<exists>c0 acted. r = publishLeaseClaim tx env path d acted c0
                \<and> (tx_Revision tx = claimRevisionBeforeAction \<longrightarrow> te_Random env = Inr (Revision c0)))))"
proof (cases "readLeaseClaimPathWithPresence d path")
  case (Inl e)
  then show ?thesis by (simp add: r_def lockedLeaseClaimTransaction_def txFail_def)
next
  case (Inr p)
  obtain c ex where p: "p = (c, ex)" by fastforce
  show ?thesis
  proof (cases "validateLeaseClaimFileIdentity leaseID c ex = None \<and> guardPasses tx c ex")
    case False
    then show ?thesis
      using Inr p by (auto simp: r_def lockedLeaseClaimTransaction_def txFail_def guardPasses_def split: option.splits)
  next
    case True
    define c0 where "c0 = (if tx_Revision tx = claimRevisionBeforeAction then refreshLeaseClaimRevision env c else Inr c)"
    have g: "(case tx_Guard tx of None \<Rightarrow> None | Some g \<Rightarrow> g c ex) = None"
      using True by (auto simp: guardPasses_def split: option.splits)
    show ?thesis
    proof (cases c0)
      case (Inl e)
      then show ?thesis
        using Inr p g True by (simp add: r_def lockedLeaseClaimTransaction_def txFail_def c0_def [symmetric])
    next
      case (Inr b)
      have rev: "tx_Revision tx = claimRevisionBeforeAction \<longrightarrow> te_Random env = Inr (Revision b)"
        using Inr by (auto simp: c0_def refreshLeaseClaimRevision_def split: sum.splits)
      have "tr_Dir r = d \<or> r = publishLeaseClaim tx env path d False b \<or> r = publishLeaseClaim tx env path d True b"
        using Inr \<open>readLeaseClaimPathWithPresence d path = Inr p\<close> p g True
        by (auto simp: r_def lockedLeaseClaimTransaction_def txFail_def c0_def [symmetric]
            split: option.splits claimActionDecision.splits)
      with rev show ?thesis
        using \<open>readLeaseClaimPathWithPresence d path = Inr p\<close> p True by blast
    qed
  qed
qed

lemma transactLeaseClaim_cases:
  fixes leaseID tx env d
  defines "r \<equiv> transactLeaseClaim leaseID tx env d"
  shows "(tr_Dir r = d \<and> \<not> tr_Ran r)
   \<or> (\<exists>c exists. admitted leaseID tx d c exists
        \<and> (tr_Dir r = d
           \<or> (tr_Dir r = dirPut (claimFile leaseID) (CClaim (tr_Claim r)) d
              \<and> (revisionKept tx \<longrightarrow> te_Random env = Inr (Revision (tr_Claim r))))))"
proof (cases "validLeaseClaimPathID leaseID \<and> te_StateDirErr env = None")
  case False
  then show ?thesis
    by (auto simp: r_def transactLeaseClaim_def leaseClaimPath_def txFail_def split: option.splits)
next
  case True
  let ?l = "lockedLeaseClaimTransaction leaseID tx env (claimFile leaseID) d"
  from True have "r = ?l \<or> (tr_Dir r = d \<and> \<not> tr_Ran r)"
    by (auto simp: r_def transactLeaseClaim_def leaseClaimPath_def txFail_def split: option.splits)
  moreover have "(tr_Dir ?l = d \<and> \<not> tr_Ran ?l)
   \<or> (\<exists>c exists. admitted leaseID tx d c exists
        \<and> (tr_Dir ?l = d
           \<or> (tr_Dir ?l = dirPut (claimFile leaseID) (CClaim (tr_Claim ?l)) d
              \<and> (revisionKept tx \<longrightarrow> te_Random env = Inr (Revision (tr_Claim ?l))))))"
    using lockedLeaseClaimTransaction_cases [of leaseID tx env "claimFile leaseID" d] True
      publishLeaseClaim_dir publishLeaseClaim_revision
    unfolding admitted_def by metis
  ultimately show ?thesis by auto
qed

text \<open>A published claim is the mutation of the admitted one, up to the revision.\<close>

lemma publishLeaseClaim_mutation:
  assumes "tr_Dir (publishLeaseClaim tx env path d acted c) \<noteq> d"
  shows "\<exists>r b r'. tx_Mutate tx (c\<lparr>Revision := r\<rparr>) = Inr b
      \<and> tr_Claim (publishLeaseClaim tx env path d acted c) = b\<lparr>Revision := r'\<rparr>
      \<and> tr_Dir (publishLeaseClaim tx env path d acted c)
         = dirPut path (CClaim (tr_Claim (publishLeaseClaim tx env path d acted c))) d"
proof -
  obtain c1 where c1: "(if tx_Revision tx = claimRevisionBeforeMutation then refreshLeaseClaimRevision env c else Inr c) = Inr c1"
    using assms by (auto simp: publishLeaseClaim_def txFail_def split: sum.splits)
  obtain c2 where c2: "tx_Mutate tx c1 = Inr c2"
    using assms c1 by (auto simp: publishLeaseClaim_def txFail_def split: sum.splits)
  have ne: "\<not> (tx_Publication tx = claimSkipEmpty \<and> LeaseID c2 = [])"
    using assms c1 c2 by (auto simp: publishLeaseClaim_def)
  obtain c3 where c3: "(if tx_Revision tx = claimRevisionAfterMutation then refreshLeaseClaimRevision env c2 else Inr c2) = Inr c3"
    using assms c1 c2 ne by (auto simp: publishLeaseClaim_def txFail_def split: sum.splits)
  have "c1 = c\<lparr>Revision := Revision c1\<rparr>" and "c3 = c2\<lparr>Revision := Revision c3\<rparr>"
    using c1 c3 by (auto simp: refreshLeaseClaimRevision_def split: if_splits sum.splits)
  moreover have "publishLeaseClaim tx env path d acted c =
      (case writeLeaseClaimAtomic (te_Write env) path c3 d of
         (d', err) \<Rightarrow> \<lparr>tr_Dir = d', tr_Claim = c3, tr_Err = err, tr_Ran = acted\<rparr>)"
    by (simp only: publishLeaseClaim_def c1 c2 c3 if_not_P [OF ne] sum.case)
  ultimately show ?thesis
    using c2 publishLeaseClaim_dir [of tx env path d acted c] assms
    by (auto split: prod.splits) (metis)+
qed

lemma lockedLeaseClaimTransaction_publishes:
  assumes "tr_Dir (lockedLeaseClaimTransaction leaseID tx env path d) \<noteq> d"
  shows "\<exists>c exists acted c0. readLeaseClaimPathWithPresence d path = Inr (c, exists)
      \<and> validateLeaseClaimFileIdentity leaseID c exists = None \<and> guardPasses tx c exists
      \<and> lockedLeaseClaimTransaction leaseID tx env path d = publishLeaseClaim tx env path d acted c0
      \<and> c0 = c\<lparr>Revision := Revision c0\<rparr>
      \<and> (tx_Action tx = None \<or> tx_Action tx = Some (claimActionContinue, None))"
proof -
  obtain c ex where rd: "readLeaseClaimPathWithPresence d path = Inr (c, ex)"
    using assms by (auto simp: lockedLeaseClaimTransaction_def txFail_def split: sum.splits)
  have v: "validateLeaseClaimFileIdentity leaseID c ex = None"
    using assms rd by (auto simp: lockedLeaseClaimTransaction_def txFail_def split: option.splits)
  have g: "(case tx_Guard tx of Some g \<Rightarrow> g c ex | None \<Rightarrow> None) = None"
  proof (rule ccontr)
    assume "(case tx_Guard tx of Some g \<Rightarrow> g c ex | None \<Rightarrow> None) \<noteq> None"
    then obtain e where "(case tx_Guard tx of Some g \<Rightarrow> g c ex | None \<Rightarrow> None) = Some e" by blast
    then show False using assms rd v by (simp add: lockedLeaseClaimTransaction_def txFail_def)
  qed
  then have gp: "guardPasses tx c ex" by (auto simp: guardPasses_def split: option.splits)
  obtain c0 where c0: "(if tx_Revision tx = claimRevisionBeforeAction then refreshLeaseClaimRevision env c else Inr c) = Inr c0"
    using assms rd v g by (auto simp: lockedLeaseClaimTransaction_def txFail_def split: sum.splits)
  then have r: "c0 = c\<lparr>Revision := Revision c0\<rparr>"
    by (auto simp: refreshLeaseClaimRevision_def split: if_splits sum.splits)
  have "(tx_Action tx = None \<and> lockedLeaseClaimTransaction leaseID tx env path d = publishLeaseClaim tx env path d False c0)
     \<or> (tx_Action tx = Some (claimActionContinue, None)
        \<and> lockedLeaseClaimTransaction leaseID tx env path d = publishLeaseClaim tx env path d True c0)"
    using assms rd v g c0
    by (cases "tx_Action tx") (auto simp: lockedLeaseClaimTransaction_def txFail_def
        split: claimActionDecision.splits option.splits)
  with rd v gp r show ?thesis by blast
qed

lemma transactLeaseClaim_publishes:
  assumes "tr_Dir (transactLeaseClaim leaseID tx env d) \<noteq> d"
  shows "\<exists>c exists r b r'. admitted leaseID tx d c exists
      \<and> tx_Mutate tx (c\<lparr>Revision := r\<rparr>) = Inr b
      \<and> tr_Claim (transactLeaseClaim leaseID tx env d) = b\<lparr>Revision := r'\<rparr>
      \<and> tr_Dir (transactLeaseClaim leaseID tx env d)
         = dirPut (claimFile leaseID) (CClaim (tr_Claim (transactLeaseClaim leaseID tx env d))) d
      \<and> (tx_Action tx = None \<or> tx_Action tx = Some (claimActionContinue, None))"
proof -
  have p: "validLeaseClaimPathID leaseID"
    and l: "transactLeaseClaim leaseID tx env d = lockedLeaseClaimTransaction leaseID tx env (claimFile leaseID) d"
    using assms by (auto simp: transactLeaseClaim_def leaseClaimPath_def txFail_def split: option.splits if_splits)
  from assms have a: "tr_Dir (lockedLeaseClaimTransaction leaseID tx env (claimFile leaseID) d) \<noteq> d" by (simp add: l)
  from lockedLeaseClaimTransaction_publishes [OF a] obtain c ex acted c0 where
    rd: "readLeaseClaimPathWithPresence d (claimFile leaseID) = Inr (c, ex)"
    and v: "validateLeaseClaimFileIdentity leaseID c ex = None" and g: "guardPasses tx c ex"
    and pb: "lockedLeaseClaimTransaction leaseID tx env (claimFile leaseID) d = publishLeaseClaim tx env (claimFile leaseID) d acted c0"
    and c0: "c0 = c\<lparr>Revision := Revision c0\<rparr>"
    and act: "tx_Action tx = None \<or> tx_Action tx = Some (claimActionContinue, None)" by blast
  from a pb have "tr_Dir (publishLeaseClaim tx env (claimFile leaseID) d acted c0) \<noteq> d" by simp
  from publishLeaseClaim_mutation [OF this] obtain r b r' where
    m: "tx_Mutate tx (c0\<lparr>Revision := r\<rparr>) = Inr b" and t: "tr_Claim (publishLeaseClaim tx env (claimFile leaseID) d acted c0) = b\<lparr>Revision := r'\<rparr>"
    and dd: "tr_Dir (publishLeaseClaim tx env (claimFile leaseID) d acted c0)
         = dirPut (claimFile leaseID) (CClaim (tr_Claim (publishLeaseClaim tx env (claimFile leaseID) d acted c0))) d" by blast
  have "c0\<lparr>Revision := r\<rparr> = c\<lparr>Revision := r\<rparr>" by (subst c0) simp
  with m have "tx_Mutate tx (c\<lparr>Revision := r\<rparr>) = Inr b" by simp
  with p rd v g act t dd l pb show ?thesis unfolding admitted_def by metis
qed

section \<open>Competing transactions\<close>

text \<open>A transaction request: the lease, the transaction and what the environment does to it.\<close>

type_synonym txRequest = "string \<times> leaseClaimTransaction \<times> txEnv"

definition runTransaction :: "txRequest \<Rightarrow> claimsDir \<Rightarrow> claimsDir" where
  "runTransaction q d = (case q of (leaseID, tx, env) \<Rightarrow> tr_Dir (transactLeaseClaim leaseID tx env d))"

definition runStep :: "txRequest \<Rightarrow> claimsDir \<Rightarrow> claimsDir" where
  "runStep q d = (if dirOk d then runTransaction q d else d)"

definition claimLook :: "claimsDir \<Rightarrow> string \<Rightarrow> cfile option" where
  "claimLook d leaseID = map_of d (claimFile leaseID)"

text \<open>The request is guarded by the snapshot \<open>expected\<close>.\<close>

definition expectsClaim :: "txRequest \<Rightarrow> cfile option \<Rightarrow> bool" where
  "expectsClaim q v = (case q of (leaseID, tx, env) \<Rightarrow>
     \<exists>expected. v = Some (CClaim expected)
       \<and> (tx_Guard tx = Some (unchangedLeaseClaimGuard expected True)
          \<or> tx_Guard tx = Some (endpointClaimGuard (Some (unchangedLeaseClaimGuard expected True)))))"

text \<open>The request does not write \<open>v\<close>: its random revision differs from the one in \<open>v\<close>, and the
  mutation does not overwrite the fresh revision.\<close>

definition avoidsClaim :: "txRequest \<Rightarrow> cfile option \<Rightarrow> bool" where
  "avoidsClaim q v = (case q of (leaseID, tx, env) \<Rightarrow>
     revisionKept tx \<and> (case v of Some (CClaim c) \<Rightarrow> te_Random env \<noteq> Inr (Revision c) | _ \<Rightarrow> False))"

lemma read_claim_content:
  "readLeaseClaimPathWithPresence d path = Inr (c, True) \<Longrightarrow> map_of d path = Some (CClaim c)"
  by (auto simp: readLeaseClaimPathWithPresence_def decodeLeaseClaim_def
      split: option.splits cfile.splits sum.splits if_splits)

lemma runTransaction_cases:
  assumes "runTransaction (leaseID, tx, env) d \<noteq> d"
  shows "\<exists>c exists c'. admitted leaseID tx d c exists
      \<and> runTransaction (leaseID, tx, env) d = dirPut (claimFile leaseID) (CClaim c') d
      \<and> (revisionKept tx \<longrightarrow> te_Random env = Inr (Revision c'))"
  using transactLeaseClaim_cases [of leaseID tx env d] assms by (auto simp: runTransaction_def)

lemma admitted_expected:
  assumes "admitted leaseID tx d c exists" and "expectsClaim (leaseID, tx, env) v"
  shows "claimLook d leaseID = v"
proof -
  obtain e where v: "v = Some (CClaim e)" and ex: "exists" and c: "c = e"
    using assms by (auto simp: admitted_def expectsClaim_def guardPasses_def unchangedLeaseClaimGuard_def
        endpointClaimGuard_def split: if_splits)
  then show ?thesis
    using assms(1) read_claim_content by (auto simp: admitted_def claimLook_def)
qed

interpretation claims: cas_cell claimLook runStep fst expectsClaim avoidsClaim dirOk
proof unfold_locales
  fix d :: claimsDir and q :: txRequest
  obtain leaseID tx env where q: "q = (leaseID, tx, env)" by (cases q)
  assume ok: "dirOk d"
  show "dirOk (runStep q d)"
    using runTransaction_cases [of leaseID tx env d] ok
    by (auto simp: runStep_def q dirOk_dirPut) (metis dirOk_dirPut)
  show "claimLook (runStep q d) k = claimLook d k" if "k \<noteq> fst q" for k
    using runTransaction_cases [of leaseID tx env d] ok that
    by (auto simp: runStep_def q claimLook_def) (metis claimFile_inject fun_upd_other map_of_dirPut)
  show "runStep q d = d" if "expectsClaim q v" "claimLook d (fst q) \<noteq> v" for v
  proof (rule ccontr)
    assume "runStep q d \<noteq> d"
    then have "runTransaction (leaseID, tx, env) d \<noteq> d" by (auto simp: runStep_def q split: if_splits)
    from runTransaction_cases [OF this] obtain c ex where "admitted leaseID tx d c ex" by blast
    with admitted_expected that show False by (auto simp: q)
  qed
  show "claimLook (runStep q d) (fst q) \<noteq> v" if a: "avoidsClaim q v" and n: "runStep q d \<noteq> d" for v
  proof -
    from n have "runTransaction (leaseID, tx, env) d \<noteq> d" by (auto simp: runStep_def q split: if_splits)
    from runTransaction_cases [OF this] obtain c' where
      "runTransaction (leaseID, tx, env) d = dirPut (claimFile leaseID) (CClaim c') d"
      "revisionKept tx \<longrightarrow> te_Random env = Inr (Revision c')" by blast
    then show ?thesis
      using a ok by (auto simp: runStep_def q claimLook_def map_of_dirPut avoidsClaim_def)
  qed
qed

text \<open>C28: Updates that were computed from the same snapshot of a claim exclude each other. In any
  history of claim transactions over the directory, of all those guarded by one snapshot of a lease
  at most one publishes, even when writes of others fail half way, provided no random revision
  equals the one in the snapshot.\<close>

theorem guarded_updates_one_winner:
  assumes "dirOk d"
    and "\<forall>q \<in> set qs. avoidsClaim q (Some (CClaim snapshot))"
  shows "firings runStep (\<lambda>q. fst q = leaseID \<and> expectsClaim q (Some (CClaim snapshot))) d qs \<le> 1"
  using assms by (rule claims.one_winner)

text \<open>An environment in which nothing fails, and a transaction that changes the slug.\<close>

definition quietEnv :: "string \<Rightarrow> txEnv" where
  "quietEnv r = \<lparr>te_StateDirErr = None, te_NearestErr = None, te_MkdirErr = None, te_LockErr = None,
     te_Random = Inr r, te_Write = WriteOk\<rparr>"

definition renameTx :: "leaseClaim \<Rightarrow> string \<Rightarrow> leaseClaimTransaction" where
  "renameTx expected slug = \<lparr>tx_Guard = Some (unchangedLeaseClaimGuard expected True), tx_Action = None,
     tx_Mutate = (\<lambda>c. Inr (c\<lparr>Slug := slug\<rparr>)), tx_Revision = claimRevisionBeforeAction,
     tx_Directory = claimDirectoryCreate, tx_Publication = claimSkipEmpty\<rparr>"

theorem guarded_updates_one_winner_witness:
  "firings runStep (\<lambda>q. fst q = ''cbx_0123456789ab'' \<and> expectsClaim q (Some (CClaim sampleClaim)))
     [(''cbx_0123456789ab.json'', CClaim sampleClaim)]
     [(''cbx_0123456789ab'', renameTx sampleClaim ''a'', quietEnv ''r1''),
      (''cbx_0123456789ab'', renameTx sampleClaim ''b'', quietEnv ''r2'')] \<le> 1"
  by (rule guarded_updates_one_winner)
    (simp_all add: dirOk_def avoidsClaim_def renameTx_def quietEnv_def revisionKept_def sampleClaim_def
      zeroClaim_def)

end
