(* ===== verification/Labels.thy ===== *)
theory Labels
  imports ClaimTypes
begin

text \<open>
  The lease labels that direct providers store on their machines,
  \<open>internal/cli/provider_labels.go\<close>, and the cleanup decision that reads them,
  \<open>shouldCleanupServer\<close> of \<open>pool.go\<close>.

  A time is an \<open>int\<close> in nanoseconds. \<open>goTime\<close> holds the two parsers of Go's \<open>time\<close> package that
  accept free text: \<open>time.Parse\<close> with the RFC 3339 layouts, and \<open>time.ParseDuration\<close>.
  \<open>maxTTL\<close>, \<open>ttl\<close> and \<open>idle\<close> are the configured durations.
\<close>

section \<open>Definitions\<close>

record goTime =
  gt_ParseRFC3339 :: "string \<Rightarrow> int option"
  gt_ParseDuration :: "string \<Rightarrow> int option"

text \<open>Products of durations are 64-bit and wrap.\<close>

definition wrap64 :: "int \<Rightarrow> int" where
  "wrap64 n = (n + 2 ^ 63) mod 2 ^ 64 - 2 ^ 63"

definition is_label_char :: "nat \<Rightarrow> bool" where
  "is_label_char r \<longleftrightarrow> (97 \<le> r \<and> r \<le> 122) \<or> (65 \<le> r \<and> r \<le> 90) \<or> (48 \<le> r \<and> r \<le> 57)
     \<or> r = 95 \<or> r = 46 \<or> r = 45"

fun label_loop :: "nat list \<Rightarrow> string \<Rightarrow> string" where
  "label_loop [] b = b"
| "label_loop (r # rs) b =
     (let b' = b @ [if is_label_char r then char_of r else CHR ''_''] in
      if length b' \<ge> 63 then b' else label_loop rs b')"

definition is_label_edge :: "char \<Rightarrow> bool" where
  "is_label_edge c \<longleftrightarrow> c = CHR ''_'' \<or> c = CHR ''.'' \<or> c = CHR ''-''"

definition sanitizeProviderLabelValue :: "string \<Rightarrow> string" where
  "sanitizeProviderLabelValue value =
     (let value = TrimSpace value in
      if value = [] then ''unknown''
      else (let out = trim_by is_label_edge (label_loop (map fst (chunks value)) []) in
            if out = [] then ''unknown'' else out))"

definition sanitizeProviderLabels :: "labels \<Rightarrow> labels" where
  "sanitizeProviderLabels ls =
     fmmap_keys (\<lambda>key value. if key = ''work_root'' then value else sanitizeProviderLabelValue value) ls"

definition LeaseLabelTime :: "int \<Rightarrow> string" where
  "LeaseLabelTime t = Itoa (t div second)"

definition parseLeaseLabelTime :: "goTime \<Rightarrow> string \<Rightarrow> int option" where
  "parseLeaseLabelTime gt value =
     (let value = TrimSpace value in
      if value = [] then None
      else (case Atoi value of
              Some seconds \<Rightarrow> if seconds > 0 then Some (seconds * second) else gt_ParseRFC3339 gt value
            | None \<Rightarrow> gt_ParseRFC3339 gt value))"

definition durationSecondsLabel :: "int \<Rightarrow> string" where
  "durationSecondsLabel d = (if d \<le> 0 then [] else Itoa (round_second d div second))"

definition positive_duration :: "int option \<Rightarrow> int option" where
  "positive_duration d = (case d of Some n \<Rightarrow> if n > 0 then Some n else None | None \<Rightarrow> None)"

definition parseDurationSecondsLabel :: "goTime \<Rightarrow> string \<Rightarrow> int option" where
  "parseDurationSecondsLabel gt value =
     (let value = TrimSpace value in
      if value = [] then None
      else (case Atoi value of
              Some seconds \<Rightarrow> if seconds > 0 then Some (wrap64 (seconds * second))
                              else positive_duration (gt_ParseDuration gt value)
            | None \<Rightarrow> positive_duration (gt_ParseDuration gt value)))"

definition directLeaseIdleTimeout :: "goTime \<Rightarrow> labels \<Rightarrow> int option" where
  "directLeaseIdleTimeout gt ls =
     (case parseDurationSecondsLabel gt (label ls ''idle_timeout_secs'') of
        Some d \<Rightarrow> Some d
      | None \<Rightarrow> parseDurationSecondsLabel gt (label ls ''idle_timeout''))"

definition directLeaseExpiresAtFrom :: "int \<Rightarrow> int \<Rightarrow> int \<Rightarrow> int \<Rightarrow> int" where
  "directLeaseExpiresAtFrom createdAt lastTouchedAt ttl idleTimeout =
     (let expiresAt = lastTouchedAt + idleTimeout in
      if ttl > 0 then
        (let ttlExpiresAt = createdAt + ttl in
         if ttlExpiresAt < expiresAt then ttlExpiresAt else expiresAt)
      else expiresAt)"

definition hour :: int where "hour = 3600 * second"

definition EffectiveMaxTTL :: "int \<Rightarrow> int" where
  "EffectiveMaxTTL maxTTL = (if maxTTL \<le> 0 then 4 * hour else min maxTTL (24 * hour))"

text \<open>The durations of a configuration: \<open>TTL\<close>, \<open>MaxTTL\<close> and \<open>IdleTimeout\<close>.\<close>

record leaseDurations =
  ld_TTL :: int
  ld_MaxTTL :: int
  ld_IdleTimeout :: int

definition clampDirectLeaseDurations :: "leaseDurations \<Rightarrow> leaseDurations" where
  "clampDirectLeaseDurations cfg =
     (let m = EffectiveMaxTTL (ld_MaxTTL cfg); t = min (ld_TTL cfg) m
      in cfg\<lparr>ld_MaxTTL := m, ld_TTL := t, ld_IdleTimeout := min (ld_IdleTimeout cfg) t\<rparr>)"

text \<open>The durations \<open>TouchDirectLeaseLabels\<close> settles on, from the configuration, the defaults and
  what the labels record.\<close>

definition touchedDurations ::
  "goTime \<Rightarrow> leaseDurations \<Rightarrow> leaseDurations \<Rightarrow> labels \<Rightarrow> int option \<Rightarrow> int \<times> int" where
  "touchedDurations gt defaults cfg ls override =
     (let idle0 = (case override of Some d \<Rightarrow> d
                   | None \<Rightarrow> (case directLeaseIdleTimeout gt ls of Some d \<Rightarrow> d | None \<Rightarrow> ld_IdleTimeout cfg));
          idle1 = (if idle0 \<le> 0 then ld_IdleTimeout defaults else idle0);
          ttl0 = (case parseDurationSecondsLabel gt (label ls ''ttl_secs'') of Some d \<Rightarrow> d | None \<Rightarrow> ld_TTL cfg);
          ttl1 = (if ttl0 \<le> 0 then ld_TTL defaults else ttl0);
          ttl = min ttl1 (EffectiveMaxTTL (ld_MaxTTL cfg))
      in (ttl, min idle1 ttl))"

definition TouchDirectLeaseLabelsWithIdleTimeoutOverride ::
  "goTime \<Rightarrow> leaseDurations \<Rightarrow> labels \<Rightarrow> leaseDurations \<Rightarrow> string \<Rightarrow> int \<Rightarrow> int option \<Rightarrow> labels" where
  "TouchDirectLeaseLabelsWithIdleTimeoutOverride gt defaults ls cfg state now override =
     (let next0 = (if state \<noteq> [] then fmupd ''state'' (sanitizeProviderLabelValue state) ls else ls);
          created = parseLeaseLabelTime gt (label next0 ''created_at'');
          createdAt = (case created of Some t \<Rightarrow> t | None \<Rightarrow> now);
          next1 = (if created = None then fmupd ''created_at'' (LeaseLabelTime createdAt) next0 else next0);
          (ttl, idleTimeout) = touchedDurations gt defaults cfg next1 override;
          next2 = fmupd ''last_touched_at'' (LeaseLabelTime now) next1;
          next3 = fmupd ''idle_timeout'' (durationSecondsLabel idleTimeout) next2;
          next4 = fmupd ''idle_timeout_secs'' (durationSecondsLabel idleTimeout) next3;
          next5 = fmupd ''ttl_secs'' (durationSecondsLabel ttl) next4
      in fmupd ''expires_at'' (LeaseLabelTime (directLeaseExpiresAtFrom createdAt now ttl idleTimeout)) next5)"

text \<open>The fields of \<open>Config\<close> that \<open>DirectLeaseLabels\<close> reads besides the durations.\<close>

record labelConfig =
  lc_Class :: string
  lc_Profile :: string
  lc_ProviderKey :: string
  lc_TargetOS :: string
  lc_ServerType :: string
  lc_Pond :: string
  lc_ExposedPorts :: "string list"
  lc_WindowsMode :: string
  lc_Desktop :: bool
  lc_DesktopEnv :: string
  lc_Browser :: bool
  lc_Code :: bool
  lc_TailscaleEnabled :: bool
  lc_TailscaleHostname :: string
  lc_TailscaleTags :: "string list"
  lc_TailscaleExitNode :: string
  lc_TailscaleExitLAN :: bool

fun join_with :: "string \<Rightarrow> string list \<Rightarrow> string" where
  "join_with sep [] = []"
| "join_with sep [x] = x"
| "join_with sep (x # y # xs) = x @ sep @ join_with sep (y # xs)"

definition renderExposedPortsLabel :: "string list \<Rightarrow> string" where
  "renderExposedPortsLabel ports = (if ports = [] then [] else join_with ''-'' ports)"

definition normalizedDesktopEnv :: "string \<Rightarrow> string" where
  "normalizedDesktopEnv value =
     (let value = ToLower (TrimSpace value) in if value = [] then ''xfce'' else value)"

definition show_bool :: "bool \<Rightarrow> string" where
  "show_bool b = (if b then ''true'' else ''false'')"

definition put_if :: "bool \<Rightarrow> string \<Rightarrow> string \<Rightarrow> labels \<Rightarrow> labels" where
  "put_if p k v ls = (if p then fmupd k v ls else ls)"

definition directLeaseExpiresAt :: "int \<Rightarrow> leaseDurations \<Rightarrow> int" where
  "directLeaseExpiresAt now cfg = directLeaseExpiresAtFrom now now (ld_TTL cfg) (ld_IdleTimeout cfg)"

definition DirectLeaseLabels ::
  "labelConfig \<Rightarrow> leaseDurations \<Rightarrow> string \<Rightarrow> string \<Rightarrow> string \<Rightarrow> string \<Rightarrow> bool \<Rightarrow> int \<Rightarrow> labels" where
  "DirectLeaseLabels cfg durations leaseID slug provider market keep now =
     (let ds = clampDirectLeaseDurations durations;
          expiresAt = directLeaseExpiresAt now ds;
          base = fmap_of_list
            [(''class'', lc_Class cfg), (''crabbox'', ''true''), (''created_by'', ''crabbox''),
             (''keep'', show_bool keep), (''lease'', leaseID), (''slug'', NormalizeLeaseSlug slug),
             (''profile'', lc_Profile cfg), (''provider_key'', lc_ProviderKey cfg),
             (''provider'', provider), (''target'', lc_TargetOS cfg), (''server_type'', lc_ServerType cfg),
             (''state'', ''leased''), (''created_at'', LeaseLabelTime now),
             (''last_touched_at'', LeaseLabelTime now),
             (''idle_timeout'', durationSecondsLabel (ld_IdleTimeout ds)),
             (''idle_timeout_secs'', durationSecondsLabel (ld_IdleTimeout ds)),
             (''ttl_secs'', durationSecondsLabel (ld_TTL ds)),
             (''max_ttl_secs'', durationSecondsLabel (EffectiveMaxTTL (ld_MaxTTL ds))),
             (''expires_at'', LeaseLabelTime expiresAt)];
          pond = NormalizeLeaseSlug (lc_Pond cfg);
          ports = renderExposedPortsLabel (lc_ExposedPorts cfg);
          l1 = put_if (market \<noteq> []) ''market'' market base;
          l2 = put_if (pond \<noteq> []) ''pond'' pond l1;
          l3 = put_if (ports \<noteq> []) ''crabbox_exposed_ports'' ports l2;
          l4 = put_if (lc_TargetOS cfg = ''windows'') ''windows_mode'' (lc_WindowsMode cfg) l3;
          l5 = put_if (lc_Desktop cfg) ''desktop_env'' (normalizedDesktopEnv (lc_DesktopEnv cfg))
                 (put_if (lc_Desktop cfg) ''desktop'' ''true'' l4);
          l6 = put_if (lc_Browser cfg) ''browser'' ''true'' l5;
          l7 = put_if (lc_Code cfg) ''code'' ''true'' l6;
          ts = lc_TailscaleEnabled cfg;
          l8 = put_if ts ''tailscale_tags'' (join_with '','' (lc_TailscaleTags cfg))
                 (put_if ts ''tailscale_hostname'' (lc_TailscaleHostname cfg)
                   (put_if ts ''tailscale_state'' ''requested'' (put_if ts ''tailscale'' ''true'' l7)));
          exit = (ts \<and> lc_TailscaleExitNode cfg \<noteq> []);
          l9 = put_if exit ''tailscale_exit_node_allow_lan_access'' (show_bool (lc_TailscaleExitLAN cfg))
                 (put_if exit ''tailscale_exit_node'' (lc_TailscaleExitNode cfg) l8)
      in sanitizeProviderLabels l9)"

section \<open>The cleanup decision\<close>

definition guestExpiryTimeValid :: "int \<Rightarrow> bool" where
  "guestExpiryTimeValid t \<longleftrightarrow> 0 < t div second \<and> length (Itoa (t div second)) \<le> 12"

definition expiry_at :: "goTime \<Rightarrow> labels \<Rightarrow> string \<Rightarrow> int option" where
  "expiry_at gt ls key =
     (let value = TrimSpace (label ls key) in
      if value = [] then None
      else (case parseLeaseLabelTime gt value of
              Some t \<Rightarrow> if guestExpiryTimeValid t then Some t else None
            | None \<Rightarrow> None))"

definition cleanupExpiry :: "goTime \<Rightarrow> labels \<Rightarrow> int option" where
  "cleanupExpiry gt ls =
     (case expiry_at gt ls ''expires_at'' of Some t \<Rightarrow> Some t | None \<Rightarrow> expiry_at gt ls ''ttl'')"

definition shouldCleanupServer :: "goTime \<Rightarrow> labels \<Rightarrow> int \<Rightarrow> bool" where
  "shouldCleanupServer gt ls now =
     (if label ls ''crabbox'' \<noteq> ''true'' then False
      else (let state = ToLower (label ls ''state'') in
        if state \<in> {''running'', ''provisioning''} then
          (case cleanupExpiry gt ls of Some t \<Rightarrow> now > t + hour | None \<Rightarrow> False)
        else if state \<in> {''leased'', ''ready'', ''active''} then
          (case cleanupExpiry gt ls of Some t \<Rightarrow> now > t | None \<Rightarrow> False)
        else if state \<in> {''failed'', ''released'', ''expired''} then True
        else (case cleanupExpiry gt ls of None \<Rightarrow> False | Some t \<Rightarrow> now > t)))"

section \<open>Sanitised values\<close>

definition label_value_ok :: "string \<Rightarrow> bool" where
  "label_value_ok s \<longleftrightarrow> 0 < length s \<and> length s \<le> 63 \<and> list_all (\<lambda>c. is_label_char (code c)) s
     \<and> \<not> is_label_edge (hd s) \<and> \<not> is_label_edge (last s)"

lemma label_char_code:
  "is_label_char (code (if is_label_char r then char_of r else CHR ''_''))"
  by (auto simp: is_label_char_def code_char_of code_def)

lemma label_loop_ok:
  assumes "list_all (\<lambda>c. is_label_char (code c)) b" and "length b < 63"
  shows "list_all (\<lambda>c. is_label_char (code c)) (label_loop rs b) \<and> length (label_loop rs b) \<le> 63"
  using assms
proof (induction rs b rule: label_loop.induct)
  case (2 r rs b)
  let ?b = "b @ [if is_label_char r then char_of r else CHR ''_'']"
  have ok: "list_all (\<lambda>c. is_label_char (code c)) ?b" and len: "length ?b \<le> 63"
    using 2 label_char_code [of r] by auto
  show ?case
  proof (cases "length ?b \<ge> 63")
    case True
    then have "label_loop (r # rs) b = ?b" by (simp add: Let_def)
    with ok len show ?thesis by (simp only:)
  next
    case False
    then have eq: "label_loop (r # rs) b = label_loop rs ?b" by (simp add: Let_def)
    have lt: "length ?b < 63" using False by simp
    from 2(1) [OF refl False ok lt] show ?thesis by (simp only: eq)
  qed
qed simp

lemma label_loop_fixed:
  "list_all (\<lambda>c. is_label_char (code c)) s \<Longrightarrow> length b + length s \<le> 63 \<Longrightarrow>
     label_loop (map code s) b = b @ s"
proof (induction s arbitrary: b)
  case (Cons c s)
  have c: "is_label_char (code c)" using Cons.prems by simp
  show ?case
  proof (cases "63 \<le> length (b @ [c])")
    case True
    then have "s = []" using Cons.prems(2) by (cases s) auto
    with True c show ?thesis by simp
  next
    case False
    with c have "label_loop (map code (c # s)) b = label_loop (map code s) (b @ [c])"
      by (simp add: Let_def)
    also have "\<dots> = (b @ [c]) @ s"
      using Cons.prems by (intro Cons.IH) auto
    finally show ?thesis by simp
  qed
qed simp

lemma label_char_ascii: "is_label_char n \<Longrightarrow> n < 128 \<and> \<not> is_space n"
  by (auto simp: is_label_char_def is_space_def)

lemma label_text_plain:
  assumes "list_all (\<lambda>c. is_label_char (code c)) s"
  shows "is_ascii s" and "TrimSpace s = s"
proof -
  show a: "is_ascii s"
    using assms label_char_ascii by (auto simp: is_ascii_def list_all_iff)
  show "TrimSpace s = s"
    using a assms label_char_ascii
    by (simp add: TrimSpace_ascii) (rule trim_by_fixed, auto simp: list_all_iff)
qed

lemma unknown_ok: "label_value_ok ''unknown''"
  by (simp add: label_value_ok_def is_label_char_def is_label_edge_def code_def)

lemma sanitize_ok: "label_value_ok (sanitizeProviderLabelValue v)"
proof -
  let ?l = "label_loop (map fst (chunks (TrimSpace v))) []"
  let ?t = "trim_by is_label_edge ?l"
  have l: "list_all (\<lambda>c. is_label_char (code c)) ?l \<and> length ?l \<le> 63"
    by (rule label_loop_ok) simp_all
  have "label_value_ok ?t" if "?t \<noteq> []"
    using l that trim_by_ends [OF that] set_trim_by [of is_label_edge ?l] length_trim_by [of is_label_edge ?l]
    by (auto simp: label_value_ok_def list_all_iff)
  then show ?thesis
    using unknown_ok by (simp add: sanitizeProviderLabelValue_def Let_def)
qed

lemma sanitize_fixed:
  assumes "label_value_ok v"
  shows "sanitizeProviderLabelValue v = v"
proof -
  have c: "list_all (\<lambda>c. is_label_char (code c)) v" and ne: "v \<noteq> []"
    using assms by (auto simp: label_value_ok_def)
  have "label_loop (map fst (chunks v)) [] = v"
    using label_loop_fixed [OF c, of "[]"] assms label_text_plain(1) [OF c]
    by (simp add: chunks_ascii comp_def label_value_ok_def)
  moreover have "trim_by is_label_edge v = v"
    using assms by (intro trim_by_fixed) (simp add: label_value_ok_def)
  ultimately show ?thesis
    using ne label_text_plain(2) [OF c] by (simp add: sanitizeProviderLabelValue_def)
qed

text \<open>A sanitised provider label value is a valid label: between 1 and 63 characters, only
  letters, digits, underscore, dot and dash, and none of the last three at an end; and a value that
  is already valid is left as it is.\<close>

theorem sanitized_label_valid:
  "label_value_ok (sanitizeProviderLabelValue v)
   \<and> (label_value_ok v \<longleftrightarrow> sanitizeProviderLabelValue v = v)"
  using sanitize_ok [of v] sanitize_fixed [of v] by metis

section \<open>Expiry\<close>

lemma Itoa_nonneg: "0 \<le> n \<Longrightarrow> Itoa n = dec_nat (nat n)"
  by (simp add: Itoa_def)

lemma parse_LeaseLabelTime:
  assumes "0 < t div second" and "t div second < 2 ^ 63"
  shows "parseLeaseLabelTime gt (LeaseLabelTime t) = Some (t div second * second)"
  using assms Atoi_dec_nat [of "nat (t div second)"]
  by (simp add: parseLeaseLabelTime_def LeaseLabelTime_def Itoa_nonneg Let_def)

lemma label_upd [simp]:
  "label (fmupd k v ls) k' = (if k' = k then v else label ls k')"
  by (simp add: label_def)

lemma touchedDurations_cong:
  "label ls ''idle_timeout_secs'' = label ls' ''idle_timeout_secs'' \<Longrightarrow>
   label ls ''idle_timeout'' = label ls' ''idle_timeout'' \<Longrightarrow>
   label ls ''ttl_secs'' = label ls' ''ttl_secs'' \<Longrightarrow>
   touchedDurations gt defaults cfg ls override = touchedDurations gt defaults cfg ls' override"
  by (simp only: touchedDurations_def directLeaseIdleTimeout_def)

text \<open>The labels and times a touch writes.\<close>

lemma touch_labels:
  fixes gt defaults ls cfg state now override
  defines "ls' \<equiv> TouchDirectLeaseLabelsWithIdleTimeoutOverride gt defaults ls cfg state now override"
    and "created \<equiv> (case parseLeaseLabelTime gt (label ls ''created_at'') of Some t \<Rightarrow> t | None \<Rightarrow> now)"
    and "ds \<equiv> touchedDurations gt defaults cfg ls override"
  shows "label ls' ''expires_at'' = LeaseLabelTime (directLeaseExpiresAtFrom created now (fst ds) (snd ds))"
    and "label ls' ''state'' = (if state \<noteq> [] then sanitizeProviderLabelValue state else label ls ''state'')"
    and "k \<notin> {''state'', ''created_at'', ''last_touched_at'', ''idle_timeout'', ''idle_timeout_secs'',
              ''ttl_secs'', ''expires_at''} \<Longrightarrow> label ls' k = label ls k"
proof -
  have td: "touchedDurations gt defaults cfg (fmupd ''state'' x ls) override = ds"
    "touchedDurations gt defaults cfg (fmupd ''created_at'' y (fmupd ''state'' x ls)) override = ds"
    "touchedDurations gt defaults cfg (fmupd ''created_at'' y ls) override = ds" for x y
    unfolding ds_def by (rule touchedDurations_cong; simp)+
  show "label ls' ''expires_at'' = LeaseLabelTime (directLeaseExpiresAtFrom created now (fst ds) (snd ds))"
    and "label ls' ''state'' = (if state \<noteq> [] then sanitizeProviderLabelValue state else label ls ''state'')"
    and "k \<notin> {''state'', ''created_at'', ''last_touched_at'', ''idle_timeout'', ''idle_timeout_secs'',
              ''ttl_secs'', ''expires_at''} \<Longrightarrow> label ls' k = label ls k"
    using td ds_def
    by (auto simp: ls'_def created_def TouchDirectLeaseLabelsWithIdleTimeoutOverride_def Let_def
        split: prod.splits option.splits)
qed

lemma touchedDurations_bounds:
  assumes "0 < ld_TTL defaults" and "0 < ld_IdleTimeout defaults"
  shows "0 < fst (touchedDurations gt defaults cfg ls override)
       \<and> 0 < snd (touchedDurations gt defaults cfg ls override)
       \<and> snd (touchedDurations gt defaults cfg ls override) \<le> fst (touchedDurations gt defaults cfg ls override)
       \<and> fst (touchedDurations gt defaults cfg ls override) \<le> 24 * hour"
proof -
  have pos: "0 < EffectiveMaxTTL (ld_MaxTTL cfg)" "EffectiveMaxTTL (ld_MaxTTL cfg) \<le> 24 * hour"
    by (auto simp: EffectiveMaxTTL_def hour_def second_def)
  have if_pos: "0 < d \<Longrightarrow> 0 < (if x \<le> 0 then d else x)" for d x :: int by simp
  show ?thesis
    unfolding touchedDurations_def Let_def fst_conv snd_conv
    using pos if_pos [OF assms(1)] if_pos [OF assms(2)] by (simp only: min_less_iff_conj min.bounded_iff) auto
qed

lemma directLeaseExpiresAtFrom_min:
  "0 < ttl \<Longrightarrow> directLeaseExpiresAtFrom created now ttl idle = min (created + ttl) (now + idle)"
  by (auto simp: directLeaseExpiresAtFrom_def Let_def)

definition positiveOr :: "int \<Rightarrow> int \<Rightarrow> int" where
  "positiveOr fallback d = (if 0 < d then d else fallback)"

definition recordedOr :: "int \<Rightarrow> int option \<Rightarrow> int" where
  "recordedOr configured recorded = (case recorded of Some d \<Rightarrow> d | None \<Rightarrow> configured)"

text \<open>The lifetime and the idle timeout that labels and configuration ask for.\<close>

definition leaseLifetime :: "goTime \<Rightarrow> leaseDurations \<Rightarrow> leaseDurations \<Rightarrow> labels \<Rightarrow> int" where
  "leaseLifetime gt defaults cfg ls = min (EffectiveMaxTTL (ld_MaxTTL cfg))
     (positiveOr (ld_TTL defaults) (recordedOr (ld_TTL cfg) (parseDurationSecondsLabel gt (label ls ''ttl_secs''))))"

definition leaseIdle :: "goTime \<Rightarrow> leaseDurations \<Rightarrow> leaseDurations \<Rightarrow> labels \<Rightarrow> int option \<Rightarrow> int" where
  "leaseIdle gt defaults cfg ls override = min (leaseLifetime gt defaults cfg ls)
     (positiveOr (ld_IdleTimeout defaults) (recordedOr (recordedOr (ld_IdleTimeout cfg) (directLeaseIdleTimeout gt ls)) override))"

text \<open>C37: A touch never extends a lease past its lifetime. For labels whose creation time parses, the
  expiry that a touch writes is the earlier of creation time plus lifetime and touch time plus idle
  timeout. The lifetime is the one recorded in the labels, or the configured one, or the default when
  that is not positive, and at most the effective maximum; the idle timeout is the override, or the one
  recorded in the labels, or the configured one, or the default when that is not positive, and at most
  the lifetime. Both are positive and at most 24 hours, and every label the touch does not own is kept
  as it was.\<close>

theorem touch_never_exceeds_lifetime:
  fixes gt defaults ls cfg state now override
  defines "ls' \<equiv> TouchDirectLeaseLabelsWithIdleTimeoutOverride gt defaults ls cfg state now override"
    and "ttl \<equiv> leaseLifetime gt defaults cfg ls"
    and "idle \<equiv> leaseIdle gt defaults cfg ls override"
  assumes "0 < ld_TTL defaults" and "0 < ld_IdleTimeout defaults"
    and "parseLeaseLabelTime gt (label ls ''created_at'') = Some created"
  shows "label ls' ''expires_at'' = LeaseLabelTime (min (created + ttl) (now + idle))
     \<and> 0 < idle \<and> idle \<le> ttl \<and> ttl \<le> EffectiveMaxTTL (ld_MaxTTL cfg) \<and> ttl \<le> 24 * hour
     \<and> (\<forall>k. k \<notin> {''state'', ''created_at'', ''last_touched_at'', ''idle_timeout'', ''idle_timeout_secs'',
              ''ttl_secs'', ''expires_at''} \<longrightarrow> label ls' k = label ls k)"
proof -
  have ds: "touchedDurations gt defaults cfg ls override = (ttl, idle)"
    unfolding ttl_def idle_def leaseIdle_def leaseLifetime_def
    by (auto simp: touchedDurations_def positiveOr_def recordedOr_def Let_def split: option.splits)
  have "ttl \<le> EffectiveMaxTTL (ld_MaxTTL cfg)" unfolding ttl_def leaseLifetime_def by simp
  then show ?thesis
    using touchedDurations_bounds [OF assms(4,5), of gt cfg ls override]
      touch_labels(1) [of gt defaults ls cfg state now override]
      touch_labels(3) [of _ gt defaults ls cfg state now override] assms(6)
    unfolding ds ls'_def by (simp add: directLeaseExpiresAtFrom_min)
qed

definition noParsers :: goTime where
  "noParsers = \<lparr>gt_ParseRFC3339 = (\<lambda>_. None), gt_ParseDuration = (\<lambda>_. None)\<rparr>"

definition halfHours :: leaseDurations where
  "halfHours = \<lparr>ld_TTL = 1800 * second, ld_MaxTTL = 4 * hour, ld_IdleTimeout = 1800 * second\<rparr>"

theorem touch_never_exceeds_lifetime_witness:
  "label (TouchDirectLeaseLabelsWithIdleTimeoutOverride noParsers halfHours
          (fmap_of_list [(''created_at'', LeaseLabelTime (1000 * second))]) halfHours ''ready'' (1600 * second) (Some (60 * second)))
          ''expires_at''
       = LeaseLabelTime (1660 * second)"
proof -
  have "parseLeaseLabelTime noParsers
      (label (fmap_of_list [(''created_at'', LeaseLabelTime (1000 * second))]) ''created_at'')
      = Some (1000 * second)"
    using parse_LeaseLabelTime [of "1000 * second" noParsers] by (simp add: label_def second_def)
  from touch_never_exceeds_lifetime [OF _ _ this, where defaults = halfHours and cfg = halfHours and state = "''ready''"
      and now = "1600 * second" and override = "Some (60 * second)"]
  show ?thesis
    by (simp add: halfHours_def second_def hour_def EffectiveMaxTTL_def positiveOr_def recordedOr_def label_def
        leaseIdle_def leaseLifetime_def
        parseDurationSecondsLabel_def)
qed

lemma ready_states:
  "state \<in> {''leased'', ''ready'', ''active''} \<Longrightarrow>
     sanitizeProviderLabelValue state = state \<and> ToLower state = state"
proof -
  assume s: "state \<in> {''leased'', ''ready'', ''active''}"
  then have "label_value_ok state"
    by (auto simp: label_value_ok_def is_label_char_def is_label_edge_def code_def)
  moreover have "ToLower state = state"
    using s by (auto simp: ToLower_def chunks_ascii code_def lower_char_def)
  ultimately show ?thesis by (simp add: sanitize_fixed)
qed

lemma expiry_at_LeaseLabelTime:
  assumes "label ls ''expires_at'' = LeaseLabelTime t" and "guestExpiryTimeValid t" and "t div second < 2 ^ 63"
  shows "cleanupExpiry gt ls = Some (t div second * second)"
proof -
  have t: "0 < t div second" using assms(2) by (simp add: guestExpiryTimeValid_def)
  then have "parseLeaseLabelTime gt (LeaseLabelTime t) = Some (t div second * second)"
    using assms(3) by (rule parse_LeaseLabelTime)
  moreover have "TrimSpace (LeaseLabelTime t) = LeaseLabelTime t" "LeaseLabelTime t \<noteq> []"
    using t by (simp_all add: LeaseLabelTime_def Itoa_nonneg)
  moreover have "t div second * second div second = t div second" by (simp add: second_def)
  ultimately show ?thesis
    using assms(1,2) by (simp add: cleanupExpiry_def expiry_at_def Let_def guestExpiryTimeValid_def)
qed

text \<open>C38: A machine whose labels a touch refreshed in state leased, ready or active is cleaned up
  exactly when it carries the crabbox label and the clock is past the written expiry (to the second);
  so a lease in use is never collected before its idle timeout or lifetime has run out.\<close>

theorem cleanup_waits_for_touched_expiry:
  fixes gt defaults ls cfg state now override
  defines "ls' \<equiv> TouchDirectLeaseLabelsWithIdleTimeoutOverride gt defaults ls cfg state now override"
    and "created \<equiv> (case parseLeaseLabelTime gt (label ls ''created_at'') of Some t \<Rightarrow> t | None \<Rightarrow> now)"
    and "ds \<equiv> touchedDurations gt defaults cfg ls override"
  assumes "state \<in> {''leased'', ''ready'', ''active''}"
    and "guestExpiryTimeValid (directLeaseExpiresAtFrom created now (fst ds) (snd ds))"
    and "directLeaseExpiresAtFrom created now (fst ds) (snd ds) div second < 2 ^ 63"
  shows "shouldCleanupServer gt ls' later \<longleftrightarrow>
     label ls ''crabbox'' = ''true''
     \<and> later > directLeaseExpiresAtFrom created now (fst ds) (snd ds) div second * second"
proof -
  let ?t = "directLeaseExpiresAtFrom created now (fst ds) (snd ds)"
  have e: "cleanupExpiry gt ls' = Some (?t div second * second)"
    using assms(5,6) touch_labels(1) [of gt defaults ls cfg state now override]
    by (intro expiry_at_LeaseLabelTime) (auto simp: ls'_def created_def ds_def)
  have st: "ToLower (label ls' ''state'') = state"
    using ready_states [OF assms(4)] assms(4) touch_labels(2) [of gt defaults ls cfg state now override]
    by (auto simp: ls'_def)
  have cb: "label ls' ''crabbox'' = label ls ''crabbox''"
    unfolding ls'_def by (rule touch_labels(3)) simp
  show ?thesis
    using assms(4) by (auto simp: shouldCleanupServer_def Let_def e st cb)
qed

theorem cleanup_waits_for_touched_expiry_witness:
  "\<not> shouldCleanupServer noParsers
      (TouchDirectLeaseLabelsWithIdleTimeoutOverride noParsers halfHours
        (fmap_of_list [(''created_at'', LeaseLabelTime (1000 * second)), (''crabbox'', ''true'')])
        halfHours ''ready'' (1600 * second) (Some (60 * second))) (1660 * second)"
proof -
  let ?ls = "fmap_of_list [(''created_at'', LeaseLabelTime (1000 * second)), (''crabbox'', ''true'')]"
  have c: "parseLeaseLabelTime noParsers (label ?ls ''created_at'') = Some (1000 * second)"
    using parse_LeaseLabelTime [of "1000 * second" noParsers] by (simp add: label_def second_def)
  have d: "touchedDurations noParsers halfHours halfHours ?ls (Some (60 * second)) = (1800 * second, 60 * second)"
    by (simp add: touchedDurations_def Let_def halfHours_def label_def parseDurationSecondsLabel_def
        EffectiveMaxTTL_def second_def hour_def)
  have e: "directLeaseExpiresAtFrom (1000 * second) (1600 * second) (1800 * second) (60 * second) = 1660 * second"
    by (simp add: directLeaseExpiresAtFrom_def second_def)
  have "length (Itoa 1660) \<le> 12"
    by (simp add: Itoa_def dec_nat.simps [of 1660] dec_nat.simps [of 166] dec_nat.simps [of 16] dec_nat.simps [of "Suc 0"])
  then have g: "guestExpiryTimeValid (1660 * second)"
    by (simp add: guestExpiryTimeValid_def second_def)
  have r: "''ready'' \<in> {''leased'', ''ready'', ''active''}" and b: "1660 * second div second < 2 ^ 63"
    by (simp_all add: second_def)
  show ?thesis
    using cleanup_waits_for_touched_expiry [where state = "''ready''" and gt = noParsers and ls = ?ls
        and now = "1600 * second" and defaults = halfHours and cfg = halfHours
        and override = "Some (60 * second)" and later = "1660 * second",
        unfolded c d option.case fst_conv snd_conv e, OF r g b]
    by (simp add: second_def)
qed

end
