(* ===== verification/ClaimOps.thy ===== *)
theory ClaimOps
  imports ClaimStore Labels
begin

text \<open>
  The operations of \<open>internal/cli/claim.go\<close> that change a claim: publication for a repository,
  endpoint updates, label and touch updates, tailnet and cache updates, replacement and removal.
  Each is a transformation of the claim run inside a transaction of \<open>ClaimStore\<close>.

  The provider registry and the services a claim operation calls are the argument \<open>registry\<close>:
  \<open>rg_ProviderFor\<close> gives the canonical name of a registered provider, \<open>rg_Prepare\<close> the endpoint
  preparer of a provider if it has one, \<open>rg_ClaimScope\<close> its claim scope, \<open>rg_UseCoordinator\<close> whether
  the configuration uses a coordinator, and \<open>rg_Checkpoint\<close> is \<open>AuthorizeCheckpointRelease\<close>.
\<close>

section \<open>Structures\<close>

record Server =
  sv_CloudID :: string
  sv_Provider :: string
  sv_ImmutableID :: string
  sv_ID :: int
  sv_Name :: string
  sv_Status :: string
  sv_Labels :: labels
  sv_ImageEvidence :: "opaque option"
  sv_Snapshot :: "(leaseClaim \<times> bool) option"

record SSHTarget =
  tg_Host :: string
  tg_Port :: string
  tg_NetworkKind :: string

definition zeroServer :: Server where
  "zeroServer = \<lparr>sv_CloudID = [], sv_Provider = [], sv_ImmutableID = [], sv_ID = 0, sv_Name = [],
     sv_Status = [], sv_Labels = fmempty, sv_ImageEvidence = None, sv_Snapshot = None\<rparr>"

definition zeroTarget :: SSHTarget where
  "zeroTarget = \<lparr>tg_Host = [], tg_Port = [], tg_NetworkKind = []\<rparr>"

text \<open>The fields of \<open>Config\<close> that claim operations read; \<open>cf_CacheVolumes\<close> is what
  \<open>CacheVolumeStickyDiskSpecs\<close> gives.\<close>

record claimConfig =
  cf_Provider :: string
  cf_StaticHost :: string
  cf_StaticUser :: string
  cf_StaticPort :: string
  cf_StaticWorkRoot :: string
  cf_TargetOS :: string
  cf_WindowsMode :: string
  cf_Pond :: string
  cf_CacheVolumes :: "string list"
  cf_LegacyRoot :: string
  cf_IdleTimeout :: int

record registry =
  rg_ProviderFor :: "string \<Rightarrow> string option"
  rg_Prepare :: "string \<Rightarrow> (leaseClaim \<Rightarrow> string \<Rightarrow> string \<Rightarrow> Server \<Rightarrow> bool \<Rightarrow> Server res) option"
  rg_ClaimScope :: "string \<Rightarrow> claimConfig \<Rightarrow> string"
  rg_UseCoordinator :: "claimConfig \<Rightarrow> bool"
  rg_Time :: goTime
  rg_Checkpoint :: "leaseClaim \<Rightarrow> string \<Rightarrow> gerr option"

record staticClaimDetails =
  sd_Host :: string
  sd_User :: string
  sd_Port :: string
  sd_WorkRoot :: string
  sd_TargetOS :: string
  sd_WindowsMode :: string

datatype claimIdlePolicy = claimIdlePreserveRecorded | claimIdleReplaceExplicitly | claimIdleCoordinatorProjection
datatype leaseClaimEndpointMode = claimEndpointUpdate | claimEndpointReplace
datatype leaseClaimMetadataPolicy = claimMetadataPreserve | claimMetadataAdmitProvider

record leaseClaimEndpointPolicy =
  ep_mode :: leaseClaimEndpointMode
  ep_metadata :: leaseClaimMetadataPolicy

record claimMetadata =
  cm_legacyRepoRoot :: string
  cm_cacheVolumes :: "string list option"
  cm_endpoint :: "(Server \<times> SSHTarget) option"
  cm_endpointMode :: leaseClaimEndpointMode
  cm_reservationLabel :: string
  cm_reservationDuration :: int
  cm_guard :: "(leaseClaim \<Rightarrow> bool \<Rightarrow> gerr option) option"
  cm_providerMetadata :: leaseClaimMetadataPolicy
  cm_allowEmptyRepoRoot :: bool
  cm_directory :: claimDirectoryPolicy
  cm_action :: "gerr option option"
  cm_labels :: "labels option"
  cm_idlePolicy :: claimIdlePolicy

definition zeroMetadata :: claimMetadata where
  "zeroMetadata = \<lparr>cm_legacyRepoRoot = [], cm_cacheVolumes = None, cm_endpoint = None,
     cm_endpointMode = claimEndpointUpdate, cm_reservationLabel = [], cm_reservationDuration = 0,
     cm_guard = None, cm_providerMetadata = claimMetadataPreserve, cm_allowEmptyRepoRoot = False,
     cm_directory = claimDirectoryExisting, cm_action = None, cm_labels = None,
     cm_idlePolicy = claimIdlePreserveRecorded\<rparr>"

section \<open>Providers and repositories\<close>

definition normalizeProviderName :: "string \<Rightarrow> string" where
  "normalizeProviderName name = ToLower (TrimSpace name)"

definition ProviderFor :: "registry \<Rightarrow> string \<Rightarrow> string option" where
  "ProviderFor rg name = rg_ProviderFor rg (normalizeProviderName name)"

definition fixed_aliases :: "(string \<times> string) list" where
  "fixed_aliases =
     [(''agent-sandbox-fixed-v1'', ''agent-sandbox''), (''aws-fixed-v1'', ''aws''),
      (''machine0-fixed-v1'', ''machine0''), (''daytona-fixed-v1'', ''daytona''),
      (''local-container-fixed-v1'', ''local-container''), (''parallels-fixed-v1'', ''parallels''),
      (''proxmox-fixed-v1'', ''proxmox''), (''exec-provider'', ''external'')]"

definition canonicalClaimProvider :: "registry \<Rightarrow> string \<Rightarrow> string" where
  "canonicalClaimProvider rg provider =
     (case map_of fixed_aliases (TrimSpace provider) of
        Some name \<Rightarrow> name
      | None \<Rightarrow> (case ProviderFor rg provider of Some name \<Rightarrow> name | None \<Rightarrow> normalizeProviderName provider))"

definition isStaticProvider :: "string \<Rightarrow> bool" where
  "isStaticProvider provider \<longleftrightarrow> ToLower (TrimSpace provider) \<in> {''ssh'', ''static'', ''static-ssh''}"

fun firstNonBlank :: "string list \<Rightarrow> string" where
  "firstNonBlank [] = []"
| "firstNonBlank (v # vs) = (if TrimSpace v \<noteq> [] then TrimSpace v else firstNonBlank vs)"

definition providerClaimScope :: "registry \<Rightarrow> string \<Rightarrow> claimConfig \<Rightarrow> string" where
  "providerClaimScope rg provider cfg =
     (case ProviderFor rg provider of Some name \<Rightarrow> rg_ClaimScope rg name cfg | None \<Rightarrow> [])"

definition claimProviderDetailsForConfig :: "registry \<Rightarrow> claimConfig \<Rightarrow> string \<times> staticClaimDetails option" where
  "claimProviderDetailsForConfig rg cfg =
     (let provider = canonicalClaimProvider rg (cf_Provider cfg) in
      (provider,
       if isStaticProvider provider then
         Some \<lparr>sd_Host = TrimSpace (cf_StaticHost cfg), sd_User = TrimSpace (cf_StaticUser cfg),
               sd_Port = TrimSpace (cf_StaticPort cfg), sd_WorkRoot = TrimSpace (cf_StaticWorkRoot cfg),
               sd_TargetOS = TrimSpace (cf_TargetOS cfg), sd_WindowsMode = TrimSpace (cf_WindowsMode cfg)\<rparr>
       else None))"

text \<open>A legacy root is used only when exactly one is given and it is not empty; the empty string
  stands for none.\<close>

definition ClaimRepositoryMatches :: "string \<Rightarrow> string \<Rightarrow> string \<Rightarrow> bool" where
  "ClaimRepositoryMatches stored root legacyRoot \<longleftrightarrow>
     stored = root \<or> (legacyRoot \<noteq> [] \<and> stored = legacyRoot)"

definition CheckLeaseClaimRepositoryOwner :: "leaseClaim \<Rightarrow> string \<Rightarrow> bool \<Rightarrow> string \<Rightarrow> gerr option" where
  "CheckLeaseClaimRepositoryOwner existing repoRoot reclaim legacyRoot =
     (if LeaseID existing \<noteq> [] \<and> RepoRoot existing \<noteq> []
         \<and> \<not> ClaimRepositoryMatches (RepoRoot existing) repoRoot legacyRoot \<and> \<not> reclaim
      then Some (Exit 2 ''lease is claimed by another repo; use --reclaim'') else None)"

definition claimIdlePolicyForConfig :: "registry \<Rightarrow> claimConfig \<Rightarrow> claimIdlePolicy" where
  "claimIdlePolicyForConfig rg cfg =
     (if ProviderFor rg (cf_Provider cfg) \<noteq> None \<and> rg_UseCoordinator rg cfg
      then claimIdleCoordinatorProjection else claimIdlePreserveRecorded)"

definition selectClaimIdleTimeout :: "int \<Rightarrow> int \<Rightarrow> claimIdlePolicy \<Rightarrow> (int \<times> bool) res" where
  "selectClaimIdleTimeout recorded proposed policy =
     (case policy of
        claimIdleReplaceExplicitly \<Rightarrow>
          if proposed \<le> 0 then Inl (Exit 2 ''idle timeout override must be positive'')
          else Inr (max 1 (round_second proposed div second) * second, True)
      | claimIdlePreserveRecorded \<Rightarrow>
          if recorded > 0 then Inr (wrap64 (recorded * second), True) else Inr (proposed, False)
      | claimIdleCoordinatorProjection \<Rightarrow> Inr (proposed, False))"

definition claimLabelsWithIdleTimeout :: "labels \<Rightarrow> int \<Rightarrow> labels" where
  "claimLabelsWithIdleTimeout ls idle =
     fmupd ''idle_timeout_secs'' (durationSecondsLabel idle)
       (fmupd ''idle_timeout'' (durationSecondsLabel idle) ls)"

definition sameActionsWorkspaceClaimOwner :: "leaseClaim \<Rightarrow> leaseClaim \<Rightarrow> bool" where
  "sameActionsWorkspaceClaimOwner a b \<longleftrightarrow>
     LeaseID a = LeaseID b \<and> RepoRoot a = RepoRoot b \<and> Provider a = Provider b
     \<and> ProviderScope a = ProviderScope b \<and> CloudID a = CloudID b \<and> CloudNumericID a = CloudNumericID b
     \<and> CloudImmutableID a = CloudImmutableID b \<and> StaticHost a = StaticHost b \<and> StaticUser a = StaticUser b
     \<and> StaticPort a = StaticPort b \<and> StaticWorkRoot a = StaticWorkRoot b \<and> TargetOS a = TargetOS b
     \<and> WindowsMode a = WindowsMode b"

section \<open>Endpoints\<close>

text \<open>\<open>strings.EqualFold\<close> with an ASCII constant: besides case, U+017F folds to \<open>s\<close> and U+212A to
  \<open>k\<close>.\<close>

definition fold_rune :: "nat \<Rightarrow> nat" where
  "fold_rune r = (if 65 \<le> r \<and> r \<le> 90 then r + 32 else if r = 383 then 115 else if r = 8490 then 107 else r)"

definition EqualFold :: "string \<Rightarrow> string \<Rightarrow> bool" where
  "EqualFold s t \<longleftrightarrow> map (fold_rune \<circ> fst) (chunks s) = map (fold_rune \<circ> fst) (chunks t)"

definition statusTerminalState :: "string \<Rightarrow> bool" where
  "statusTerminalState state \<longleftrightarrow> ToLower (TrimSpace state) \<in>
     {''dead'', ''deleting'', ''exited'', ''expired'', ''failed'', ''missing'', ''released'',
      ''shutting-down'', ''stopped'', ''stopped_with_code'', ''terminated''}"

definition claimEndpointInactiveState :: "string \<Rightarrow> bool" where
  "claimEndpointInactiveState state \<longleftrightarrow>
     (let state = TrimSpace state in
      statusTerminalState state \<or> EqualFold state ''stopped'' \<or> EqualFold state ''paused''
      \<or> EqualFold state ''deleting'')"

definition SetLeaseClaimResourceIdentity ::
  "leaseClaim \<Rightarrow> string \<Rightarrow> int \<Rightarrow> string \<Rightarrow> opaque option \<Rightarrow> leaseClaim" where
  "SetLeaseClaimResourceIdentity c cloudID numericID immutableID evidence =
     (let changed = (CloudID c \<noteq> cloudID \<or> CloudNumericID c \<noteq> numericID \<or> CloudImmutableID c \<noteq> immutableID);
          c1 = (if changed then c\<lparr>ActionsWorkspace := None\<rparr> else c);
          c2 = (if evidence \<noteq> None then c1\<lparr>ImageEvidence := evidence\<rparr>
                else if changed then c1\<lparr>ImageEvidence := None\<rparr> else c1)
      in c2\<lparr>CloudID := cloudID, CloudNumericID := numericID, CloudImmutableID := immutableID\<rparr>)"

definition tailscale_keys :: "string list" where
  "tailscale_keys = [''tailscale'', ''tailscale_state'', ''tailscale_ipv4'', ''tailscale_fqdn'']"

definition clearLeaseClaimTailscaleFields :: "leaseClaim \<Rightarrow> leaseClaim" where
  "clearLeaseClaimTailscaleFields c = c\<lparr>TailscaleIPv4 := [], TailscaleFQDN := [],
     Labels := fmfilter (\<lambda>k. k \<notin> set tailscale_keys) (Labels c)\<rparr>"

definition pick :: "string \<Rightarrow> string \<Rightarrow> string" where
  "pick new old = (if new \<noteq> [] then new else old)"

definition applyEndpointTailscale :: "leaseClaim \<Rightarrow> Server \<Rightarrow> SSHTarget \<Rightarrow> leaseClaim" where
  "applyEndpointTailscale c server target =
     (let c1 = c\<lparr>TailscaleIPv4 := pick (label (sv_Labels server) ''tailscale_ipv4'') (TailscaleIPv4 c),
                TailscaleFQDN := pick (label (sv_Labels server) ''tailscale_fqdn'') (TailscaleFQDN c)\<rparr>
      in if tg_NetworkKind target = ''tailscale'' \<and> tg_Host target \<noteq> [] \<and> TailscaleFQDN c1 = []
            \<and> TailscaleIPv4 c1 = []
         then c1\<lparr>TailscaleFQDN := tg_Host target\<rparr> else c1)"

definition applyEndpointSSH :: "leaseClaim \<Rightarrow> Server \<Rightarrow> SSHTarget \<Rightarrow> leaseClaimEndpointMode \<Rightarrow> leaseClaim" where
  "applyEndpointSSH c server target mode =
     (let drop_route = (mode = claimEndpointReplace
             \<or> claimEndpointInactiveState (label (sv_Labels server) ''state''));
          c1 = (if tg_Host target \<noteq> [] then c\<lparr>SSHHost := tg_Host target\<rparr>
                else if drop_route then c\<lparr>SSHHost := []\<rparr> else c)
      in case Atoi (TrimSpace (tg_Port target)) of
           Some port \<Rightarrow> if port > 0 then c1\<lparr>SSHPort := port\<rparr>
                        else if drop_route then c1\<lparr>SSHPort := 0\<rparr> else c1
         | None \<Rightarrow> if drop_route then c1\<lparr>SSHPort := 0\<rparr> else c1)"

definition applyLeaseClaimEndpoint :: "leaseClaim \<Rightarrow> Server \<Rightarrow> SSHTarget \<Rightarrow> leaseClaimEndpointMode \<Rightarrow> leaseClaim" where
  "applyLeaseClaimEndpoint c server target mode =
     (let c0 = (if mode = claimEndpointReplace
                then (clearLeaseClaimTailscaleFields c)\<lparr>BridgeURL := [], ActionsWorkspace := None\<rparr> else c);
          c1 = SetLeaseClaimResourceIdentity c0 (pick (sv_CloudID server) (CloudID c0))
                 (if sv_ID server \<noteq> 0 then sv_ID server else CloudNumericID c0)
                 (pick (sv_ImmutableID server) (CloudImmutableID c0)) (sv_ImageEvidence server);
          c2 = (if sv_Labels server \<noteq> fmempty then c1\<lparr>Labels := sv_Labels server\<rparr> else c1)
      in applyEndpointSSH (applyEndpointTailscale c2 server target) server target mode)"

definition prepareLeaseClaimEndpoint ::
  "registry \<Rightarrow> leaseClaim \<Rightarrow> string \<Rightarrow> string \<Rightarrow> Server \<Rightarrow> leaseClaimMetadataPolicy \<Rightarrow> Server res" where
  "prepareLeaseClaimEndpoint rg existing providerName slug server providerMetadata =
     (case ProviderFor rg (canonicalClaimProvider rg (firstNonBlank [Provider existing, providerName])) of
        None \<Rightarrow> Inl (Exit 2 ''lease claim has unavailable provider'')
      | Some name \<Rightarrow>
          (case rg_Prepare rg name of
             None \<Rightarrow> Inr server
           | Some prepare \<Rightarrow>
               prepare existing providerName slug server (providerMetadata = claimMetadataAdmitProvider)))"

definition transformLeaseClaimEndpoint ::
  "registry \<Rightarrow> Server \<Rightarrow> SSHTarget \<Rightarrow> leaseClaimEndpointPolicy \<Rightarrow> leaseClaim \<Rightarrow> leaseClaim res" where
  "transformLeaseClaimEndpoint rg server target policy c =
     (let provider = firstNonBlank [label (sv_Labels server) ''provider'', sv_Provider server] in
      case prepareLeaseClaimEndpoint rg c provider (label (sv_Labels server) ''slug'') server (ep_metadata policy) of
        Inl e \<Rightarrow> Inl e
      | Inr prepared \<Rightarrow> Inr (applyLeaseClaimEndpoint c prepared target (ep_mode policy)))"

section \<open>Publication for a repository\<close>

definition bindProvider :: "registry \<Rightarrow> string \<Rightarrow> leaseClaim \<Rightarrow> leaseClaim res" where
  "bindProvider rg provider c =
     (if provider = [] then Inr c
      else if FixedIntent c \<noteq> None \<and> Provider c \<noteq> [] then
        (if canonicalClaimProvider rg (Provider c) \<noteq> canonicalClaimProvider rg provider
         then Inl (Exit 2 ''fixed claim provider changed'') else Inr c)
      else Inr (c\<lparr>Provider := provider\<rparr>))"

definition applyStaticDetails :: "string \<Rightarrow> staticClaimDetails option \<Rightarrow> leaseClaim \<Rightarrow> leaseClaim" where
  "applyStaticDetails provider details c =
     (case details of
        Some s \<Rightarrow> c\<lparr>StaticHost := sd_Host s, StaticUser := sd_User s, StaticPort := sd_Port s,
                    StaticWorkRoot := sd_WorkRoot s, TargetOS := sd_TargetOS s, WindowsMode := sd_WindowsMode s\<rparr>
      | None \<Rightarrow> if provider \<noteq> [] \<and> \<not> isStaticProvider provider
                then c\<lparr>StaticHost := [], StaticUser := [], StaticPort := [], StaticWorkRoot := [],
                       TargetOS := [], WindowsMode := []\<rparr>
                else c)"

text \<open>\<open>int(idleTimeout.Seconds())\<close> truncates a positive duration.\<close>

definition applyClaimIdle :: "registry \<Rightarrow> claimMetadata \<Rightarrow> int \<Rightarrow> int \<Rightarrow> (int \<times> bool) res" where
  "applyClaimIdle rg metadata recordedIdle idleTimeout =
     (let projected = (if cm_idlePolicy metadata = claimIdleCoordinatorProjection
                       then (case cm_endpoint metadata of
                               Some (server, _) \<Rightarrow>
                                 (case parseDurationSecondsLabel (rg_Time rg)
                                         (label (sv_Labels server) ''idle_timeout_secs'') of
                                    Some d \<Rightarrow> d | None \<Rightarrow> idleTimeout)
                             | None \<Rightarrow> idleTimeout)
                       else idleTimeout)
      in selectClaimIdleTimeout recordedIdle projected (cm_idlePolicy metadata))"

definition publishClaimEndpoint :: "claimMetadata \<Rightarrow> int \<Rightarrow> leaseClaim \<Rightarrow> leaseClaim" where
  "publishClaimEndpoint metadata wall c =
     (case cm_endpoint metadata of
        None \<Rightarrow> c
      | Some (server, target) \<Rightarrow>
          (let c' = applyLeaseClaimEndpoint c server target (cm_endpointMode metadata) in
           if cm_reservationLabel metadata \<noteq> [] \<and> cm_reservationDuration metadata > 0
           then c'\<lparr>Labels := fmupd (cm_reservationLabel metadata)
                    (LeaseLabelTime (wall + cm_reservationDuration metadata)) (Labels c')\<rparr>
           else c'))"

record claimRequest =
  cr_leaseID :: string
  cr_slug :: string
  cr_provider :: string
  cr_providerScope :: string
  cr_pond :: string
  cr_static :: "staticClaimDetails option"
  cr_repoRoot :: string
  cr_idleTimeout :: int
  cr_reclaim :: bool

text \<open>\<open>now\<close> is the formatted time of the request, \<open>wall\<close> the clock read for a reservation.\<close>

definition claimIdentityFields :: "claimRequest \<Rightarrow> claimMetadata \<Rightarrow> stamp \<Rightarrow> leaseClaim \<Rightarrow> leaseClaim" where
  "claimIdentityFields rq metadata now c =
     (let c1 = (if ClaimedAt c = no_stamp \<or> cr_reclaim rq
                   \<or> \<not> ClaimRepositoryMatches (RepoRoot c) (cr_repoRoot rq) (cm_legacyRepoRoot metadata)
                then c\<lparr>CheckpointCapture := None, ClaimedAt := now\<rparr> else c)
      in c1\<lparr>LeaseID := cr_leaseID rq, Slug := cr_slug rq\<rparr>)"

definition claimPlacementFields :: "claimRequest \<Rightarrow> stamp \<Rightarrow> leaseClaim \<Rightarrow> leaseClaim" where
  "claimPlacementFields rq now c =
     (let c1 = c\<lparr>ProviderScope := pick (cr_providerScope rq) (ProviderScope c),
                Pond := pick (NormalizeLeaseSlug (cr_pond rq)) (Pond c)\<rparr>
      in (applyStaticDetails (cr_provider rq) (cr_static rq) c1)\<lparr>RepoRoot := cr_repoRoot rq, LastUsedAt := now\<rparr>)"

definition claimContentFields ::
  "claimMetadata \<Rightarrow> int \<Rightarrow> int \<Rightarrow> bool \<Rightarrow> leaseClaim \<Rightarrow> leaseClaim" where
  "claimContentFields metadata wall idle normalizeIdle c =
     (let c1 = (if idle > 0 then c\<lparr>IdleTimeoutSeconds := idle div second\<rparr> else c);
          c2 = (case cm_cacheVolumes metadata of Some vs \<Rightarrow> c1\<lparr>CacheVolumes := vs\<rparr> | None \<Rightarrow> c1);
          c3 = (case cm_labels metadata of Some ls \<Rightarrow> c2\<lparr>Labels := ls\<rparr> | None \<Rightarrow> c2);
          c4 = publishClaimEndpoint metadata wall c3
      in if normalizeIdle then c4\<lparr>Labels := claimLabelsWithIdleTimeout (Labels c4) idle\<rparr> else c4)"

definition dropForeignWorkspace :: "claimRequest \<Rightarrow> claimMetadata \<Rightarrow> leaseClaim \<Rightarrow> leaseClaim \<Rightarrow> leaseClaim" where
  "dropForeignWorkspace rq metadata original c =
     (let owner = (if ClaimRepositoryMatches (RepoRoot original) (cr_repoRoot rq) (cm_legacyRepoRoot metadata)
                   then original\<lparr>RepoRoot := cr_repoRoot rq\<rparr> else original)
      in if cr_reclaim rq \<or> \<not> sameActionsWorkspaceClaimOwner owner c
         then c\<lparr>ActionsWorkspace := None\<rparr> else c)"

definition prepareMetadata :: "registry \<Rightarrow> claimRequest \<Rightarrow> claimMetadata \<Rightarrow> leaseClaim \<Rightarrow> claimMetadata res" where
  "prepareMetadata rg rq metadata original =
     (case cm_endpoint metadata of
        None \<Rightarrow> Inr metadata
      | Some (server, target) \<Rightarrow>
          if LeaseID original = [] then Inr metadata
          else (case prepareLeaseClaimEndpoint rg original (cr_provider rq) (cr_slug rq) server
                       (cm_providerMetadata metadata) of
                  Inl e \<Rightarrow> Inl e
                | Inr server' \<Rightarrow> Inr (metadata\<lparr>cm_endpoint := Some (server', target)\<rparr>)))"

definition transformLeaseClaimForRepo ::
  "registry \<Rightarrow> claimRequest \<Rightarrow> claimMetadata \<Rightarrow> stamp \<Rightarrow> int \<Rightarrow> leaseClaim \<Rightarrow> leaseClaim res" where
  "transformLeaseClaimForRepo rg rq metadata0 now wall original =
     (case prepareMetadata rg rq metadata0 original of
        Inl e \<Rightarrow> Inl e
      | Inr metadata \<Rightarrow>
          (case CheckLeaseClaimRepositoryOwner original (cr_repoRoot rq) (cr_reclaim rq) (cm_legacyRepoRoot metadata) of
             Some e \<Rightarrow> Inl e
           | None \<Rightarrow>
               (case bindProvider rg (cr_provider rq) (claimIdentityFields rq metadata now original) of
                  Inl e \<Rightarrow> Inl e
                | Inr c1 \<Rightarrow>
                    (let c2 = claimPlacementFields rq now c1;
                         recordedIdle = (if LeaseID original \<noteq> [] then IdleTimeoutSeconds original else 0)
                     in case applyClaimIdle rg metadata recordedIdle (cr_idleTimeout rq) of
                          Inl e \<Rightarrow> Inl e
                        | Inr (idle, normalizeIdle) \<Rightarrow>
                            Inr (dropForeignWorkspace rq metadata original
                                   (claimContentFields metadata wall idle normalizeIdle c2))))))"

definition claimLeaseForRepoProviderScopePondDetailsMetadata ::
  "registry \<Rightarrow> claimRequest \<Rightarrow> claimMetadata \<Rightarrow> int \<Rightarrow> txEnv \<Rightarrow> claimsDir \<Rightarrow> txResult" where
  "claimLeaseForRepoProviderScopePondDetailsMetadata rg rq metadata wall env d =
     (if cr_leaseID rq = [] \<or> (cr_repoRoot rq = [] \<and> \<not> cm_allowEmptyRepoRoot metadata) then
        \<lparr>tr_Dir = d, tr_Claim = zeroClaim, tr_Err = None, tr_Ran = False\<rparr>
      else
        transactLeaseClaim (cr_leaseID rq)
          \<lparr>tx_Guard = (if cm_endpoint metadata \<noteq> None then Some (endpointClaimGuard (cm_guard metadata))
                       else cm_guard metadata),
           tx_Action = claimTransactionAction (cm_action metadata),
           tx_Mutate = transformLeaseClaimForRepo rg rq metadata (fmt_RFC3339 wall) wall,
           tx_Revision = claimRevisionBeforeAction,
           tx_Directory = (if cm_directory metadata = claimDirectoryExisting then claimDirectoryCreate
                           else cm_directory metadata),
           tx_Publication = claimSkipEmpty\<rparr> env d)"

section \<open>Guarded updates\<close>

definition noChange :: "claimsDir \<Rightarrow> txResult" where
  "noChange d = \<lparr>tr_Dir = d, tr_Claim = zeroClaim, tr_Err = None, tr_Ran = False\<rparr>"

definition mutateLeaseClaimGuarded ::
  "string \<Rightarrow> (leaseClaim \<Rightarrow> bool \<Rightarrow> gerr option) option \<Rightarrow> (leaseClaim \<Rightarrow> leaseClaim res)
    \<Rightarrow> txEnv \<Rightarrow> claimsDir \<Rightarrow> txResult" where
  "mutateLeaseClaimGuarded leaseID guard mutate env d =
     transactLeaseClaim leaseID
       \<lparr>tx_Guard = guard, tx_Action = None, tx_Mutate = mutate, tx_Revision = claimRevisionBeforeAction,
        tx_Directory = claimDirectoryCreate, tx_Publication = claimSkipEmpty\<rparr> env d"

text \<open>Mutations that leave an absent claim absent.\<close>

definition onPresent :: "(leaseClaim \<Rightarrow> leaseClaim res) \<Rightarrow> leaseClaim \<Rightarrow> leaseClaim res" where
  "onPresent f c = (if LeaseID c = [] then Inr c else f c)"

definition UpdateLeaseClaimEndpoint ::
  "registry \<Rightarrow> string \<Rightarrow> Server \<Rightarrow> SSHTarget \<Rightarrow> txEnv \<Rightarrow> claimsDir \<Rightarrow> txResult" where
  "UpdateLeaseClaimEndpoint rg leaseID server target env d =
     (if leaseID = [] then noChange d
      else mutateLeaseClaimGuarded leaseID (Some (endpointClaimGuard None))
             (onPresent (transformLeaseClaimEndpoint rg server target
                \<lparr>ep_mode = claimEndpointUpdate, ep_metadata = claimMetadataPreserve\<rparr>)) env d)"

definition updateLeaseClaimEndpointIfUnchangedMode ::
  "registry \<Rightarrow> string \<Rightarrow> leaseClaim \<Rightarrow> Server \<Rightarrow> SSHTarget \<Rightarrow> leaseClaimEndpointPolicy
    \<Rightarrow> txEnv \<Rightarrow> claimsDir \<Rightarrow> txResult" where
  "updateLeaseClaimEndpointIfUnchangedMode rg leaseID expected server target policy env d =
     (if leaseID = [] then noChange d
      else transactLeaseClaim leaseID
        \<lparr>tx_Guard = Some (endpointClaimGuard (Some (unchangedLeaseClaimGuard expected True))), tx_Action = None,
         tx_Mutate = transformLeaseClaimEndpoint rg server target policy,
         tx_Revision = claimRevisionBeforeMutation, tx_Directory = claimDirectoryCreate,
         tx_Publication = claimSkipEmpty\<rparr> env d)"

definition UpdateLeaseClaimEndpointIfUnchangedAfter ::
  "registry \<Rightarrow> string \<Rightarrow> leaseClaim \<Rightarrow> Server \<Rightarrow> SSHTarget \<Rightarrow> gerr option option \<Rightarrow> txEnv \<Rightarrow> claimsDir \<Rightarrow> txResult" where
  "UpdateLeaseClaimEndpointIfUnchangedAfter rg leaseID expected server target action env d =
     (if leaseID = [] then noChange d
      else transactLeaseClaim leaseID
        \<lparr>tx_Guard = Some (endpointClaimGuard (Some (unchangedLeaseClaimGuard expected True))),
         tx_Action = claimTransactionAction action,
         tx_Mutate = transformLeaseClaimEndpoint rg server target
            \<lparr>ep_mode = claimEndpointUpdate, ep_metadata = claimMetadataPreserve\<rparr>,
         tx_Revision = claimRevisionBeforeMutation, tx_Directory = claimDirectoryExisting,
         tx_Publication = claimPublish\<rparr> env d)"

record leaseClaimTouchPayload =
  tp_lastUsed :: int
  tp_idleTimeoutOverride :: "int option"

definition applyTouchPayload :: "registry \<Rightarrow> labels \<Rightarrow> leaseClaimTouchPayload \<Rightarrow> leaseClaim \<Rightarrow> leaseClaim" where
  "applyTouchPayload rg ls touch c =
     (let c1 = c\<lparr>LastUsedAt := fmt_RFC3339 (tp_lastUsed touch)\<rparr>;
          c2 = (case tp_idleTimeoutOverride touch of
                  Some d \<Rightarrow> c1\<lparr>IdleTimeoutSeconds := round_second d div second\<rparr> | None \<Rightarrow> c1)
      in case directLeaseIdleTimeout (rg_Time rg) ls of
           Some e \<Rightarrow> c2\<lparr>IdleTimeoutSeconds := round_second e div second\<rparr> | None \<Rightarrow> c2)"

definition updateLeaseClaimEndpointAction ::
  "registry \<Rightarrow> string \<Rightarrow> leaseClaim \<Rightarrow> (Server \<times> SSHTarget \<times> bool \<times> gerr option) option
    \<Rightarrow> leaseClaimEndpointMode \<Rightarrow> leaseClaimTouchPayload option \<Rightarrow> txEnv \<Rightarrow> claimsDir \<Rightarrow> txResult" where
  "updateLeaseClaimEndpointAction rg leaseID expected action mode touch env d =
     (let (server, target, shouldUpdate, err) =
            (case action of Some r \<Rightarrow> r | None \<Rightarrow> (zeroServer, zeroTarget, False, None))
      in transactLeaseClaim leaseID
        \<lparr>tx_Guard = Some (endpointClaimGuard (Some (unchangedLeaseClaimGuard expected True))),
         tx_Action = Some (if err \<noteq> None \<or> \<not> shouldUpdate then (claimActionKeepSnapshot, err)
                           else (claimActionContinue, None)),
         tx_Mutate = (\<lambda>c.
           case transformLeaseClaimEndpoint rg server target
                  \<lparr>ep_mode = mode, ep_metadata = claimMetadataPreserve\<rparr> c of
             Inl e \<Rightarrow> Inl e
           | Inr c' \<Rightarrow> Inr (case touch of Some t \<Rightarrow> applyTouchPayload rg (sv_Labels server) t c' | None \<Rightarrow> c')),
         tx_Revision = claimRevisionAfterMutation, tx_Directory = claimDirectoryExisting,
         tx_Publication = claimPublish\<rparr> env d)"

text \<open>The outcome of the action is the server and target it returns, whether to update, and its
  error; no action at all keeps the snapshot.\<close>

definition updateLeaseClaimEndpointIfUnchangedActionMode ::
  "registry \<Rightarrow> string \<Rightarrow> leaseClaim \<Rightarrow> (Server \<times> SSHTarget \<times> bool \<times> gerr option) option
    \<Rightarrow> leaseClaimEndpointMode \<Rightarrow> leaseClaimTouchPayload option \<Rightarrow> txEnv \<Rightarrow> claimsDir \<Rightarrow> txResult" where
  "updateLeaseClaimEndpointIfUnchangedActionMode rg leaseID expected action mode touch env d =
     (case (case touch of Some t \<Rightarrow> tp_idleTimeoutOverride t | None \<Rightarrow> None) of
        Some over \<Rightarrow>
          if over \<le> 0 then txFail d False (Exit 2 ''idle timeout override must be positive'')
          else if round_second over div second \<le> 0 then
            txFail d False (Exit 2 ''idle timeout override must be at least one second'')
          else updateLeaseClaimEndpointAction rg leaseID expected action mode touch env d
      | None \<Rightarrow> updateLeaseClaimEndpointAction rg leaseID expected action mode touch env d)"

definition UpdateLeaseClaimLabelsIfUnchanged ::
  "string \<Rightarrow> leaseClaim \<Rightarrow> labels \<Rightarrow> txEnv \<Rightarrow> claimsDir \<Rightarrow> txResult" where
  "UpdateLeaseClaimLabelsIfUnchanged leaseID expected ls env d =
     (if leaseID = [] then noChange d
      else mutateLeaseClaimGuarded leaseID (Some (unchangedLeaseClaimGuard expected True))
             (onPresent (\<lambda>c. Inr (c\<lparr>Labels := ls\<rparr>))) env d)"

definition UpdateLeaseClaimLabelsAndLastUsedIfUnchanged ::
  "string \<Rightarrow> leaseClaim \<Rightarrow> labels \<Rightarrow> int \<Rightarrow> txEnv \<Rightarrow> claimsDir \<Rightarrow> txResult" where
  "UpdateLeaseClaimLabelsAndLastUsedIfUnchanged leaseID expected ls lastUsed env d =
     (if leaseID = [] then noChange d
      else mutateLeaseClaimGuarded leaseID (Some (unchangedLeaseClaimGuard expected True))
             (onPresent (\<lambda>c. Inr (c\<lparr>Labels := ls, LastUsedAt := fmt_RFC3339 lastUsed\<rparr>))) env d)"

definition touchClaim :: "registry \<Rightarrow> labels \<Rightarrow> int \<Rightarrow> int option \<Rightarrow> leaseClaim \<Rightarrow> leaseClaim res" where
  "touchClaim rg ls lastUsed override c =
     (case rg_Checkpoint rg c [] of
        Some e \<Rightarrow> Inl e
      | None \<Rightarrow>
          (let c1 = c\<lparr>Labels := ls, LastUsedAt := fmt_RFC3339 lastUsed\<rparr>;
               r = (case override of
                      None \<Rightarrow> Inr c1
                    | Some over \<Rightarrow>
                        if round_second over div second \<le> 0
                        then Inl (Exit 2 ''idle timeout override must be at least one second'')
                        else Inr (c1\<lparr>IdleTimeoutSeconds := round_second over div second\<rparr>))
           in case r of
                Inl e \<Rightarrow> Inl e
              | Inr c2 \<Rightarrow>
                  Inr (case directLeaseIdleTimeout (rg_Time rg) ls of
                         Some e \<Rightarrow> c2\<lparr>IdleTimeoutSeconds := round_second e div second\<rparr> | None \<Rightarrow> c2)))"

definition UpdateLeaseClaimTouchIfUnchanged ::
  "registry \<Rightarrow> string \<Rightarrow> leaseClaim \<Rightarrow> labels \<Rightarrow> int \<Rightarrow> int option \<Rightarrow> txEnv \<Rightarrow> claimsDir \<Rightarrow> txResult" where
  "UpdateLeaseClaimTouchIfUnchanged rg leaseID expected ls lastUsed override env d =
     (if leaseID = [] then noChange d
      else if (case override of Some over \<Rightarrow> over \<le> 0 | None \<Rightarrow> False)
      then txFail d False (Exit 2 ''idle timeout override must be positive'')
      else mutateLeaseClaimGuarded leaseID (Some (unchangedLeaseClaimGuard expected True))
             (onPresent (touchClaim rg ls lastUsed override)) env d)"

definition UpdateLeaseClaimLabelsIfUnchangedAfter ::
  "string \<Rightarrow> leaseClaim \<Rightarrow> labels \<Rightarrow> gerr option option \<Rightarrow> txEnv \<Rightarrow> claimsDir \<Rightarrow> txResult" where
  "UpdateLeaseClaimLabelsIfUnchangedAfter leaseID expected ls action env d =
     (if leaseID = [] then noChange d
      else transactLeaseClaim leaseID
        \<lparr>tx_Guard = Some (unchangedLeaseClaimGuard expected True), tx_Action = claimTransactionAction action,
         tx_Mutate = (\<lambda>c. Inr (c\<lparr>Labels := ls\<rparr>)), tx_Revision = claimRevisionBeforeMutation,
         tx_Directory = claimDirectoryExisting, tx_Publication = claimPublish\<rparr> env d)"

definition put_nonblank :: "string \<Rightarrow> string \<Rightarrow> labels \<Rightarrow> labels" where
  "put_nonblank k v ls = (if v \<noteq> [] then fmupd k v ls else ls)"

definition setLeaseClaimTailscale :: "string \<Rightarrow> string \<Rightarrow> leaseClaim \<Rightarrow> leaseClaim" where
  "setLeaseClaimTailscale ipv4 fqdn c =
     (let c1 = c\<lparr>TailscaleIPv4 := pick ipv4 (TailscaleIPv4 c), TailscaleFQDN := pick fqdn (TailscaleFQDN c)\<rparr>
      in if TailscaleIPv4 c1 = [] \<and> TailscaleFQDN c1 = [] then c1
         else c1\<lparr>Labels := put_nonblank ''tailscale_fqdn'' (TailscaleFQDN c1)
                (put_nonblank ''tailscale_ipv4'' (TailscaleIPv4 c1)
                  (fmupd ''tailscale_state'' ''ready'' (fmupd ''tailscale'' ''true'' (Labels c1))))\<rparr>)"

definition UpdateLeaseClaimTailscale :: "string \<Rightarrow> string \<Rightarrow> string \<Rightarrow> txEnv \<Rightarrow> claimsDir \<Rightarrow> txResult" where
  "UpdateLeaseClaimTailscale leaseID ipv4 fqdn env d =
     (if leaseID = [] then noChange d
      else mutateLeaseClaimGuarded leaseID None (onPresent (\<lambda>c. Inr (setLeaseClaimTailscale ipv4 fqdn c))) env d)"

definition UpdateLeaseClaimTailscaleSettings ::
  "string \<Rightarrow> string \<Rightarrow> string list \<Rightarrow> string \<Rightarrow> string \<Rightarrow> bool \<Rightarrow> txEnv \<Rightarrow> claimsDir \<Rightarrow> txResult" where
  "UpdateLeaseClaimTailscaleSettings leaseID hostname tags loginURL exitNode exitLAN env d =
     (if leaseID = [] then noChange d
      else mutateLeaseClaimGuarded leaseID None
        (onPresent (\<lambda>c. Inr (c\<lparr>TailscaleHostname := hostname, TailscaleTags := tags,
           TailscaleLoginURL := loginURL, TailscaleExitNode := exitNode, TailscaleExitLAN := exitLAN\<rparr>))) env d)"

definition ClearLeaseClaimTailscale :: "string \<Rightarrow> txEnv \<Rightarrow> claimsDir \<Rightarrow> txResult" where
  "ClearLeaseClaimTailscale leaseID env d =
     (if leaseID = [] then noChange d
      else mutateLeaseClaimGuarded leaseID None
             (onPresent (\<lambda>c. Inr (clearLeaseClaimTailscaleFields c))) env d)"

definition UpdateLeaseClaimCacheVolumes :: "string \<Rightarrow> string list \<Rightarrow> txEnv \<Rightarrow> claimsDir \<Rightarrow> txResult" where
  "UpdateLeaseClaimCacheVolumes leaseID specs env d =
     (if leaseID = [] then noChange d
      else mutateLeaseClaimGuarded leaseID None (onPresent (\<lambda>c. Inr (c\<lparr>CacheVolumes := specs\<rparr>))) env d)"

definition replaceLeaseClaimTransaction ::
  "string \<Rightarrow> leaseClaim \<Rightarrow> leaseClaim \<Rightarrow> gerr option option \<Rightarrow> txEnv \<Rightarrow> claimsDir \<Rightarrow> txResult" where
  "replaceLeaseClaimTransaction leaseID current replacement action env d =
     transactLeaseClaim leaseID
       \<lparr>tx_Guard = Some (unchangedLeaseClaimGuard current True), tx_Action = claimTransactionAction action,
        tx_Mutate = (\<lambda>c. Inr (if sameActionsWorkspaceClaimOwner c replacement then replacement
                             else replacement\<lparr>ActionsWorkspace := None\<rparr>)),
        tx_Revision = claimRevisionAfterMutation, tx_Directory = claimDirectoryExisting,
        tx_Publication = claimPublish\<rparr> env d"

definition ReplaceLeaseClaimIfUnchanged ::
  "string \<Rightarrow> leaseClaim \<Rightarrow> leaseClaim \<Rightarrow> txEnv \<Rightarrow> claimsDir \<Rightarrow> txResult" where
  "ReplaceLeaseClaimIfUnchanged leaseID current replacement env d =
     replaceLeaseClaimTransaction leaseID current replacement None env d"

definition ReplaceLeaseClaimIfUnchangedDurableAfter ::
  "string \<Rightarrow> leaseClaim \<Rightarrow> leaseClaim \<Rightarrow> gerr option \<Rightarrow> txEnv \<Rightarrow> claimsDir \<Rightarrow> txResult" where
  "ReplaceLeaseClaimIfUnchangedDurableAfter leaseID current replacement action env d =
     replaceLeaseClaimTransaction leaseID current (replacement\<lparr>LeaseID := leaseID\<rparr>) (Some action) env d"

section \<open>Removal\<close>

text \<open>What the environment does to a removal: the lock, the unlink and the directory sync may fail;
  \<open>rm_SyncMissing\<close> says that the sync failed because the directory does not exist.\<close>

record rmEnv =
  rm_StateDirErr :: "gerr option"
  rm_LockErr :: "gerr option"
  rm_RemoveErr :: "gerr option"
  rm_SyncErr :: "gerr option"
  rm_SyncMissing :: bool

definition finalizeLeaseClaimIfUnchangedAfterContext ::
  "string \<Rightarrow> leaseClaim \<Rightarrow> bool \<Rightarrow> bool \<times> gerr option \<Rightarrow> rmEnv \<Rightarrow> claimsDir \<Rightarrow> txResult" where
  "finalizeLeaseClaimIfUnchangedAfterContext leaseID expected expectedExists action env d =
     (case leaseClaimPath (rm_StateDirErr env) leaseID of
        Inl e \<Rightarrow> txFail d False e
      | Inr path \<Rightarrow>
          (case rm_LockErr env of
             Some e \<Rightarrow> txFail d False e
           | None \<Rightarrow>
               (case readLeaseClaimPathWithPresence d path of
                  Inl e \<Rightarrow> txFail d False e
                | Inr (c, exists) \<Rightarrow>
                    (case unchangedLeaseClaimGuard expected expectedExists c exists of
                       Some e \<Rightarrow> txFail d False e
                     | None \<Rightarrow>
                         (case action of
                            (remove, Some e) \<Rightarrow> txFail d True e
                          | (False, None) \<Rightarrow> \<lparr>tr_Dir = d, tr_Claim = zeroClaim, tr_Err = None, tr_Ran = True\<rparr>
                          | (True, None) \<Rightarrow>
                              (case rm_RemoveErr env of
                                 Some e \<Rightarrow> txFail d True (Exit 2 ''remove claim'')
                               | None \<Rightarrow>
                                   (let d' = dirDelete path d in
                                    case rm_SyncErr env of
                                      None \<Rightarrow> \<lparr>tr_Dir = d', tr_Claim = zeroClaim, tr_Err = None, tr_Ran = True\<rparr>
                                    | Some e \<Rightarrow>
                                        if \<not> exists \<and> rm_SyncMissing env
                                        then \<lparr>tr_Dir = d', tr_Claim = zeroClaim, tr_Err = None, tr_Ran = True\<rparr>
                                        else txFail d' True (Exit 2 ''sync removed claim directory''))))))))"

definition cleanupLeaseClaimIfUnchangedAfter ::
  "string \<Rightarrow> leaseClaim \<Rightarrow> bool \<Rightarrow> gerr option \<Rightarrow> rmEnv \<Rightarrow> claimsDir \<Rightarrow> txResult" where
  "cleanupLeaseClaimIfUnchangedAfter leaseID expected expectedExists actionErr env d =
     finalizeLeaseClaimIfUnchangedAfterContext leaseID expected expectedExists
       (case actionErr of Some e \<Rightarrow> (False, Some e) | None \<Rightarrow> (True, None)) env d"

definition RemoveLeaseClaimIfUnchangedAfter ::
  "string \<Rightarrow> leaseClaim \<Rightarrow> gerr option \<Rightarrow> rmEnv \<Rightarrow> claimsDir \<Rightarrow> txResult" where
  "RemoveLeaseClaimIfUnchangedAfter leaseID expected actionErr env d =
     cleanupLeaseClaimIfUnchangedAfter leaseID expected True actionErr env d"

definition RestoreLeaseClaimIfUnchanged ::
  "string \<Rightarrow> leaseClaim \<Rightarrow> leaseClaim \<Rightarrow> bool \<Rightarrow> txEnv \<Rightarrow> rmEnv \<Rightarrow> claimsDir \<Rightarrow> txResult" where
  "RestoreLeaseClaimIfUnchanged leaseID current previous previousExists env renv d =
     (if \<not> previousExists then RemoveLeaseClaimIfUnchangedAfter leaseID current None renv d
      else replaceLeaseClaimTransaction leaseID current previous None env d)"

definition RemoveLeaseClaim :: "string \<Rightarrow> rmEnv \<Rightarrow> claimsDir \<Rightarrow> claimsDir" where
  "RemoveLeaseClaim leaseID env d =
     (case leaseClaimPath (rm_StateDirErr env) leaseID of
        Inl e \<Rightarrow> d
      | Inr path \<Rightarrow> if rm_LockErr env \<noteq> None \<or> rm_RemoveErr env \<noteq> None then d else dirDelete path d)"

text \<open>\<open>withLeaseClaimUnchangedContext\<close>: the action runs under the lock when the claim is the
  expected one. The result is the error and whether the action ran.\<close>

definition withLeaseClaimUnchangedContext ::
  "string \<Rightarrow> leaseClaim \<Rightarrow> gerr option option \<Rightarrow> rmEnv \<Rightarrow> claimsDir \<Rightarrow> gerr option \<times> bool" where
  "withLeaseClaimUnchangedContext leaseID expected action env d =
     (case leaseClaimPath (rm_StateDirErr env) leaseID of
        Inl e \<Rightarrow> (Some e, False)
      | Inr path \<Rightarrow>
          (case rm_LockErr env of
             Some e \<Rightarrow> (Some e, False)
           | None \<Rightarrow>
               (case readLeaseClaimPathWithPresence d path of
                  Inl e \<Rightarrow> (Some e, False)
                | Inr (c, exists) \<Rightarrow>
                    (case unchangedLeaseClaimGuard expected True c exists of
                       Some e \<Rightarrow> (Some e, False)
                     | None \<Rightarrow> (case action of None \<Rightarrow> (None, False) | Some err \<Rightarrow> (err, True))))))"

definition VerifyLeaseClaimUnchanged :: "string \<Rightarrow> leaseClaim \<Rightarrow> rmEnv \<Rightarrow> claimsDir \<Rightarrow> gerr option" where
  "VerifyLeaseClaimUnchanged leaseID expected env d =
     (case leaseClaimPath (rm_StateDirErr env) leaseID of
        Inl e \<Rightarrow> Some e
      | Inr path \<Rightarrow>
          (case rm_LockErr env of
             Some e \<Rightarrow> Some e
           | None \<Rightarrow>
               (case readLeaseClaimPathWithPresence d path of
                  Inl e \<Rightarrow> Some e
                | Inr (c, exists) \<Rightarrow>
                    (case validateLeaseClaimFileIdentity leaseID c exists of
                       Some e \<Rightarrow> Some e
                     | None \<Rightarrow> unchangedLeaseClaimGuard expected True c exists))))"

record resolveResult =
  rr_Dir :: claimsDir
  rr_Updated :: leaseClaim
  rr_Removed :: bool
  rr_ActionSucceeded :: bool
  rr_Err :: "gerr option"

text \<open>The publication of the resolved labels and, where asked for, the removal. \<open>tombstone\<close> is the
  outcome of the write that restores the conflict state when the removal cannot be synced.\<close>

definition resolveRemoval ::
  "string \<Rightarrow> leaseClaim \<Rightarrow> gerr option \<Rightarrow> gerr option \<Rightarrow> rmEnv \<Rightarrow> writeOutcome \<Rightarrow> claimsDir \<Rightarrow> resolveResult" where
  "resolveRemoval path c actionErr publicationErr renv tombstone d =
     (let result = (\<lambda>d' removed err. \<lparr>rr_Dir = d', rr_Updated = c, rr_Removed = removed,
                      rr_ActionSucceeded = (actionErr = None), rr_Err = err\<rparr>)
      in case rm_RemoveErr renv of
           Some e \<Rightarrow> result d False (joinErrs [actionErr, publicationErr, Some (Exit 2 ''remove claim'')])
         | None \<Rightarrow>
             (let d1 = dirDelete path d in
              case rm_SyncErr renv of
                Some e \<Rightarrow>
                  (case writeLeaseClaimAtomic tombstone path c d1 of
                     (d2, tombstoneErr) \<Rightarrow>
                       result d2 False (joinErrs [actionErr, publicationErr,
                         Some (Exit 2 ''sync removed claim directory''), tombstoneErr]))
              | None \<Rightarrow> result d1 True (joinErrs [actionErr, publicationErr])))"

definition ResolveLeaseClaimAfterActionIfUnchanged ::
  "string \<Rightarrow> leaseClaim \<Rightarrow> gerr option \<Rightarrow> (gerr option \<Rightarrow> labels option \<times> bool) \<Rightarrow> int \<Rightarrow> txEnv \<Rightarrow> rmEnv
    \<Rightarrow> writeOutcome \<Rightarrow> claimsDir \<Rightarrow> resolveResult" where
  "ResolveLeaseClaimAfterActionIfUnchanged leaseID expected actionErr resolve wall env renv tombstone d =
     (let stop = (\<lambda>finished err. \<lparr>rr_Dir = d, rr_Updated = zeroClaim, rr_Removed = False,
                    rr_ActionSucceeded = finished, rr_Err = err\<rparr>)
      in case leaseClaimPath (te_StateDirErr env) leaseID of
           Inl e \<Rightarrow> stop False (Some e)
         | Inr path \<Rightarrow>
             (case te_LockErr env of
                Some e \<Rightarrow> stop False (Some e)
              | None \<Rightarrow>
                  (case readLeaseClaimPathWithPresence d path of
                     Inl e \<Rightarrow> stop False (Some e)
                   | Inr (c, exists) \<Rightarrow>
                       (case unchangedLeaseClaimGuard expected True c exists of
                          Some e \<Rightarrow> stop False (Some e)
                        | None \<Rightarrow>
                            (case resolve actionErr of
                               (None, shouldRemove) \<Rightarrow> stop (actionErr = None) actionErr
                             | (Some ls, shouldRemove) \<Rightarrow>
                                 (let c1 = c\<lparr>Labels := ls, LastUsedAt := fmt_RFC3339 wall\<rparr>;
                                      (c2, d1, publicationErr) =
                                        (case refreshLeaseClaimRevision env c1 of
                                           Inl e \<Rightarrow> (c1, d, Some e)
                                         | Inr b \<Rightarrow> (case writeLeaseClaimAtomic (te_Write env) path b d of
                                                      (d', err) \<Rightarrow> (b, d', err)))
                                  in if \<not> shouldRemove then
                                       \<lparr>rr_Dir = d1, rr_Updated = c2, rr_Removed = False,
                                        rr_ActionSucceeded = (actionErr = None),
                                        rr_Err = joinErrs [actionErr, publicationErr]\<rparr>
                                     else resolveRemoval path c2 actionErr publicationErr renv tombstone d1))))))"

section \<open>Entry points\<close>

text \<open>The published entry points fill in a request and its metadata.\<close>

definition configRequest ::
  "registry \<Rightarrow> string \<Rightarrow> string \<Rightarrow> claimConfig \<Rightarrow> string \<Rightarrow> string \<Rightarrow> int \<Rightarrow> bool \<Rightarrow> claimRequest" where
  "configRequest rg leaseID slug cfg scope repoRoot idleTimeout reclaim =
     \<lparr>cr_leaseID = leaseID, cr_slug = slug, cr_provider = fst (claimProviderDetailsForConfig rg cfg),
      cr_providerScope = scope, cr_pond = cf_Pond cfg, cr_static = snd (claimProviderDetailsForConfig rg cfg),
      cr_repoRoot = repoRoot, cr_idleTimeout = idleTimeout, cr_reclaim = reclaim\<rparr>"

definition configScope :: "registry \<Rightarrow> claimConfig \<Rightarrow> string" where
  "configScope rg cfg = providerClaimScope rg (fst (claimProviderDetailsForConfig rg cfg)) cfg"

definition configMetadata :: "registry \<Rightarrow> claimConfig \<Rightarrow> claimMetadata" where
  "configMetadata rg cfg = zeroMetadata\<lparr>cm_legacyRepoRoot := cf_LegacyRoot cfg,
     cm_idlePolicy := claimIdlePolicyForConfig rg cfg, cm_cacheVolumes := Some (cf_CacheVolumes cfg)\<rparr>"

definition claimLeaseForRepoConfig ::
  "registry \<Rightarrow> string \<Rightarrow> string \<Rightarrow> claimConfig \<Rightarrow> string \<Rightarrow> int \<Rightarrow> bool \<Rightarrow> int \<Rightarrow> txEnv \<Rightarrow> claimsDir \<Rightarrow> txResult" where
  "claimLeaseForRepoConfig rg leaseID slug cfg repoRoot idleTimeout reclaim wall env d =
     claimLeaseForRepoProviderScopePondDetailsMetadata rg
       (configRequest rg leaseID slug cfg (configScope rg cfg) repoRoot idleTimeout reclaim)
       (configMetadata rg cfg) wall env d"

definition ClaimLeaseTargetForRepoConfig ::
  "registry \<Rightarrow> string \<Rightarrow> string \<Rightarrow> claimConfig \<Rightarrow> Server \<Rightarrow> SSHTarget \<Rightarrow> string \<Rightarrow> int \<Rightarrow> bool \<Rightarrow> int
    \<Rightarrow> txEnv \<Rightarrow> claimsDir \<Rightarrow> txResult" where
  "ClaimLeaseTargetForRepoConfig rg leaseID slug cfg server target repoRoot idleTimeout reclaim wall env d =
     claimLeaseForRepoProviderScopePondDetailsMetadata rg
       (configRequest rg leaseID slug cfg (configScope rg cfg) repoRoot idleTimeout reclaim)
       ((configMetadata rg cfg)\<lparr>cm_endpoint := Some (server, target)\<rparr>) wall env d"

definition plainRequest ::
  "string \<Rightarrow> string \<Rightarrow> string \<Rightarrow> string \<Rightarrow> string \<Rightarrow> string \<Rightarrow> int \<Rightarrow> bool \<Rightarrow> claimRequest" where
  "plainRequest leaseID slug provider scope pond repoRoot idleTimeout reclaim =
     \<lparr>cr_leaseID = leaseID, cr_slug = slug, cr_provider = provider, cr_providerScope = scope, cr_pond = pond,
      cr_static = None, cr_repoRoot = repoRoot, cr_idleTimeout = idleTimeout, cr_reclaim = reclaim\<rparr>"

definition ClaimLeaseForRepoProviderScopePond ::
  "registry \<Rightarrow> claimRequest \<Rightarrow> string \<Rightarrow> int \<Rightarrow> txEnv \<Rightarrow> claimsDir \<Rightarrow> txResult" where
  "ClaimLeaseForRepoProviderScopePond rg rq legacyRoot wall env d =
     claimLeaseForRepoProviderScopePondDetailsMetadata rg rq
       (zeroMetadata\<lparr>cm_legacyRepoRoot := legacyRoot\<rparr>) wall env d"

definition ClaimLeaseForRepoProviderScopePondIfUnchanged ::
  "registry \<Rightarrow> claimRequest \<Rightarrow> leaseClaim \<Rightarrow> bool \<Rightarrow> int \<Rightarrow> txEnv \<Rightarrow> claimsDir \<Rightarrow> txResult" where
  "ClaimLeaseForRepoProviderScopePondIfUnchanged rg rq expected expectedExists wall env d =
     claimLeaseForRepoProviderScopePondDetailsMetadata rg rq
       (zeroMetadata\<lparr>cm_guard := Some (unchangedLeaseClaimGuard expected expectedExists)\<rparr>) wall env d"

definition ClaimLeaseForRepoProviderScopePondWithLabels ::
  "registry \<Rightarrow> claimRequest \<Rightarrow> labels \<Rightarrow> int \<Rightarrow> txEnv \<Rightarrow> claimsDir \<Rightarrow> txResult" where
  "ClaimLeaseForRepoProviderScopePondWithLabels rg rq ls wall env d =
     claimLeaseForRepoProviderScopePondDetailsMetadata rg (rq\<lparr>cr_reclaim := False\<rparr>)
       (zeroMetadata\<lparr>cm_labels := Some ls, cm_guard := Some (unchangedLeaseClaimGuard zeroClaim False),
          cm_directory := claimDirectoryDurableNamespace\<rparr>) wall env d"

definition ClaimLeaseForRepoProviderScopePondCacheVolumes ::
  "registry \<Rightarrow> claimRequest \<Rightarrow> string list \<Rightarrow> int \<Rightarrow> txEnv \<Rightarrow> claimsDir \<Rightarrow> txResult" where
  "ClaimLeaseForRepoProviderScopePondCacheVolumes rg rq volumes wall env d =
     claimLeaseForRepoProviderScopePondDetailsMetadata rg rq
       (zeroMetadata\<lparr>cm_cacheVolumes := Some volumes\<rparr>) wall env d"

definition ClaimLeaseForRepoProviderScopePondEndpoint ::
  "registry \<Rightarrow> claimRequest \<Rightarrow> Server \<Rightarrow> SSHTarget \<Rightarrow> string \<Rightarrow> int \<Rightarrow> txEnv \<Rightarrow> claimsDir \<Rightarrow> txResult" where
  "ClaimLeaseForRepoProviderScopePondEndpoint rg rq server target legacyRoot wall env d =
     claimLeaseForRepoProviderScopePondDetailsMetadata rg rq
       (zeroMetadata\<lparr>cm_legacyRepoRoot := legacyRoot, cm_endpoint := Some (server, target)\<rparr>) wall env d"

definition claimLeaseForRepoProviderScopePondEndpointIfUnchanged ::
  "registry \<Rightarrow> claimRequest \<Rightarrow> Server \<Rightarrow> SSHTarget \<Rightarrow> leaseClaim \<Rightarrow> bool \<Rightarrow> claimMetadata \<Rightarrow> int
    \<Rightarrow> txEnv \<Rightarrow> claimsDir \<Rightarrow> txResult" where
  "claimLeaseForRepoProviderScopePondEndpointIfUnchanged rg rq server target expected expectedExists metadata wall env d =
     claimLeaseForRepoProviderScopePondDetailsMetadata rg rq
       (metadata\<lparr>cm_endpoint := Some (server, target),
          cm_guard := Some (unchangedLeaseClaimGuard expected expectedExists)\<rparr>) wall env d"

definition ClaimLeaseTargetForConfigScopeIfUnchanged ::
  "registry \<Rightarrow> string \<Rightarrow> string \<Rightarrow> claimConfig \<Rightarrow> string \<Rightarrow> Server \<Rightarrow> SSHTarget \<Rightarrow> int \<Rightarrow> leaseClaim \<Rightarrow> bool
    \<Rightarrow> int \<Rightarrow> txEnv \<Rightarrow> claimsDir \<Rightarrow> txResult" where
  "ClaimLeaseTargetForConfigScopeIfUnchanged rg leaseID slug cfg scope server target idleTimeout expected expectedExists wall env d =
     claimLeaseForRepoProviderScopePondDetailsMetadata rg
       (configRequest rg leaseID slug cfg scope [] idleTimeout False)
       ((configMetadata rg cfg)\<lparr>cm_legacyRepoRoot := [], cm_endpoint := Some (server, target),
          cm_allowEmptyRepoRoot := True, cm_guard := Some (unchangedLeaseClaimGuard expected expectedExists)\<rparr>) wall env d"

record leaseClaimTargetOptions =
  to_endpoint :: leaseClaimEndpointMode
  to_directory :: claimDirectoryPolicy
  to_action :: "gerr option option"
  to_idle :: claimIdlePolicy

definition claimLeaseTargetForRepoConfigScopeIfUnchangedMode ::
  "registry \<Rightarrow> string \<Rightarrow> string \<Rightarrow> claimConfig \<Rightarrow> string \<Rightarrow> Server \<Rightarrow> SSHTarget \<Rightarrow> string \<Rightarrow> int \<Rightarrow> bool
    \<Rightarrow> leaseClaim \<Rightarrow> bool \<Rightarrow> leaseClaimTargetOptions \<Rightarrow> int \<Rightarrow> txEnv \<Rightarrow> claimsDir \<Rightarrow> txResult" where
  "claimLeaseTargetForRepoConfigScopeIfUnchangedMode rg leaseID slug cfg scope server target repoRoot idleTimeout
       reclaim expected expectedExists options wall env d =
     claimLeaseForRepoProviderScopePondDetailsMetadata rg
       (configRequest rg leaseID slug cfg scope repoRoot idleTimeout reclaim)
       ((configMetadata rg cfg)\<lparr>
          cm_idlePolicy := (if to_idle options = claimIdlePreserveRecorded then claimIdlePolicyForConfig rg cfg
                            else to_idle options),
          cm_endpoint := Some (server, target), cm_endpointMode := to_endpoint options,
          cm_guard := Some (unchangedLeaseClaimGuard expected expectedExists),
          cm_directory := to_directory options, cm_action := to_action options\<rparr>) wall env d"

definition ClaimLeaseTargetForRepoConfigWithIdleTimeoutOverrideIfUnchanged ::
  "registry \<Rightarrow> string \<Rightarrow> string \<Rightarrow> claimConfig \<Rightarrow> Server \<Rightarrow> SSHTarget \<Rightarrow> string \<Rightarrow> int \<Rightarrow> int option \<Rightarrow> bool
    \<Rightarrow> leaseClaim \<Rightarrow> bool \<Rightarrow> int \<Rightarrow> txEnv \<Rightarrow> claimsDir \<Rightarrow> txResult" where
  "ClaimLeaseTargetForRepoConfigWithIdleTimeoutOverrideIfUnchanged rg leaseID slug cfg server target repoRoot
       idleTimeout override reclaim expected expectedExists wall env d =
     claimLeaseTargetForRepoConfigScopeIfUnchangedMode rg leaseID slug cfg (configScope rg cfg) server target repoRoot
       (case override of Some over \<Rightarrow> over | None \<Rightarrow> idleTimeout) reclaim expected expectedExists
       \<lparr>to_endpoint = claimEndpointUpdate, to_directory = claimDirectoryExisting, to_action = None,
        to_idle = (if override = None then claimIdlePreserveRecorded else claimIdleReplaceExplicitly)\<rparr> wall env d"

definition SetServerLeaseClaimSnapshot :: "Server \<Rightarrow> leaseClaim \<Rightarrow> bool \<Rightarrow> Server" where
  "SetServerLeaseClaimSnapshot server c exists =
     server\<lparr>sv_Snapshot := Some (if exists then c else zeroClaim, exists)\<rparr>"

definition ServerLeaseClaimSnapshot :: "Server \<Rightarrow> leaseClaim \<times> bool \<times> bool" where
  "ServerLeaseClaimSnapshot server =
     (case sv_Snapshot server of None \<Rightarrow> (zeroClaim, False, False) | Some (c, exists) \<Rightarrow> (c, exists, True))"

text \<open>\<open>FinalizeAfterCleanup\<close> of a kind: a plain claim is removed, a fixed one is replaced by its
  receipt. \<open>actionErr\<close> is the outcome of the native cleanup run under the lock; the artifact cleanup
  of \<open>AfterTerminal\<close> runs after the receipt is durable and cannot undo it.\<close>

definition finalizeFixedLeaseWithArtifacts ::
  "(leaseClaim \<Rightarrow> gerr option) \<Rightarrow> leaseClaim \<Rightarrow> leaseClaim \<Rightarrow> gerr option \<Rightarrow> txEnv \<Rightarrow> claimsDir \<Rightarrow> txResult" where
  "finalizeFixedLeaseWithArtifacts afterTerminal expected terminal actionErr env d =
     (let r = transactLeaseClaim (LeaseID expected)
        \<lparr>tx_Guard = Some (unchangedLeaseClaimGuard expected True), tx_Action = Some (claimActionContinue, actionErr),
         tx_Mutate = (\<lambda>_. Inr terminal), tx_Revision = claimRevisionAfterMutation,
         tx_Directory = claimDirectoryDurableNamespace, tx_Publication = claimPublish\<rparr> env d
      in if tr_Err r = None then r\<lparr>tr_Err := afterTerminal (tr_Claim r)\<rparr> else r)"

definition FinalizeAfterCleanup ::
  "FixedLeaseKind \<Rightarrow> leaseClaim \<Rightarrow> gerr option \<Rightarrow> int \<Rightarrow> txEnv \<Rightarrow> rmEnv \<Rightarrow> claimsDir \<Rightarrow> txResult" where
  "FinalizeAfterCleanup k c actionErr wall env renv d =
     (if RecoveryHold c \<noteq> None then txFail d False (Exit 4 ''recovery_required: lease is held for salvage'')
      else if \<not> IsFixedClaim k c then RemoveLeaseClaimIfUnchangedAfter (LeaseID c) c actionErr renv d
      else (let tombstone = TerminalClaim k c wall in
        case fk_AfterTerminal k of
          Some f \<Rightarrow> finalizeFixedLeaseWithArtifacts f c tombstone actionErr env d
        | None \<Rightarrow> ReplaceLeaseClaimIfUnchangedDurableAfter (LeaseID c) c tombstone actionErr env d))"

section \<open>What the transformations keep\<close>

lemma SetLeaseClaimResourceIdentity_frame [simp]:
  "FixedIntent (SetLeaseClaimResourceIdentity c a n m e) = FixedIntent c"
  "Revision (SetLeaseClaimResourceIdentity c a n m e) = Revision c"
  "LeaseID (SetLeaseClaimResourceIdentity c a n m e) = LeaseID c"
  "RepoRoot (SetLeaseClaimResourceIdentity c a n m e) = RepoRoot c"
  "Provider (SetLeaseClaimResourceIdentity c a n m e) = Provider c"
  "CloudID (SetLeaseClaimResourceIdentity c a n m e) = a"
  "CloudNumericID (SetLeaseClaimResourceIdentity c a n m e) = n"
  "CloudImmutableID (SetLeaseClaimResourceIdentity c a n m e) = m"
  "RecoveryHold (SetLeaseClaimResourceIdentity c a n m e) = RecoveryHold c"
  "Slug (SetLeaseClaimResourceIdentity c a n m e) = Slug c"
  "ProviderScope (SetLeaseClaimResourceIdentity c a n m e) = ProviderScope c"
  "Labels (SetLeaseClaimResourceIdentity c a n m e) = Labels c"
  "CheckpointCapture (SetLeaseClaimResourceIdentity c a n m e) = CheckpointCapture c"
  by (simp_all add: SetLeaseClaimResourceIdentity_def Let_def)

lemma applyEndpointTailscale_frame [simp]:
  "FixedIntent (applyEndpointTailscale c s t) = FixedIntent c"
  "Revision (applyEndpointTailscale c s t) = Revision c"
  "LeaseID (applyEndpointTailscale c s t) = LeaseID c"
  "RepoRoot (applyEndpointTailscale c s t) = RepoRoot c"
  "Provider (applyEndpointTailscale c s t) = Provider c"
  by (simp_all add: applyEndpointTailscale_def Let_def)

lemma applyEndpointSSH_frame [simp]:
  "FixedIntent (applyEndpointSSH c s t m) = FixedIntent c"
  "Revision (applyEndpointSSH c s t m) = Revision c"
  "LeaseID (applyEndpointSSH c s t m) = LeaseID c"
  "RepoRoot (applyEndpointSSH c s t m) = RepoRoot c"
  "Provider (applyEndpointSSH c s t m) = Provider c"
  by (simp_all add: applyEndpointSSH_def Let_def split: option.splits)

lemma applyLeaseClaimEndpoint_frame [simp]:
  "FixedIntent (applyLeaseClaimEndpoint c s t m) = FixedIntent c"
  "Revision (applyLeaseClaimEndpoint c s t m) = Revision c"
  "LeaseID (applyLeaseClaimEndpoint c s t m) = LeaseID c"
  "RepoRoot (applyLeaseClaimEndpoint c s t m) = RepoRoot c"
  "Provider (applyLeaseClaimEndpoint c s t m) = Provider c"
  by (simp_all add: applyLeaseClaimEndpoint_def Let_def clearLeaseClaimTailscaleFields_def)

lemma publishClaimEndpoint_frame [simp]:
  "FixedIntent (publishClaimEndpoint m w c) = FixedIntent c"
  "Revision (publishClaimEndpoint m w c) = Revision c"
  "LeaseID (publishClaimEndpoint m w c) = LeaseID c"
  "RepoRoot (publishClaimEndpoint m w c) = RepoRoot c"
  "Provider (publishClaimEndpoint m w c) = Provider c"
  by (auto simp: publishClaimEndpoint_def Let_def split: option.splits)

lemma claimContentFields_frame [simp]:
  "FixedIntent (claimContentFields m w i n c) = FixedIntent c"
  "Revision (claimContentFields m w i n c) = Revision c"
  "LeaseID (claimContentFields m w i n c) = LeaseID c"
  "RepoRoot (claimContentFields m w i n c) = RepoRoot c"
  "Provider (claimContentFields m w i n c) = Provider c"
  by (simp_all add: claimContentFields_def Let_def split: option.splits)

lemma claimPlacementFields_frame [simp]:
  "FixedIntent (claimPlacementFields rq now c) = FixedIntent c"
  "Revision (claimPlacementFields rq now c) = Revision c"
  "LeaseID (claimPlacementFields rq now c) = LeaseID c"
  "RepoRoot (claimPlacementFields rq now c) = cr_repoRoot rq"
  "Provider (claimPlacementFields rq now c) = Provider c"
  by (simp_all add: claimPlacementFields_def Let_def applyStaticDetails_def split: option.splits)

lemma claimIdentityFields_frame [simp]:
  "FixedIntent (claimIdentityFields rq m now c) = FixedIntent c"
  "Revision (claimIdentityFields rq m now c) = Revision c"
  "LeaseID (claimIdentityFields rq m now c) = cr_leaseID rq"
  "Provider (claimIdentityFields rq m now c) = Provider c"
  by (simp_all add: claimIdentityFields_def Let_def)

lemma bindProvider_frame:
  "bindProvider rg p c = Inr c' \<Longrightarrow>
     FixedIntent c' = FixedIntent c \<and> Revision c' = Revision c \<and> LeaseID c' = LeaseID c
     \<and> (FixedIntent c \<noteq> None \<and> Provider c \<noteq> [] \<longrightarrow> Provider c' = Provider c)"
  by (auto simp: bindProvider_def split: if_splits)

lemma dropForeignWorkspace_frame [simp]:
  "FixedIntent (dropForeignWorkspace rq m o' c) = FixedIntent c"
  "Revision (dropForeignWorkspace rq m o' c) = Revision c"
  "LeaseID (dropForeignWorkspace rq m o' c) = LeaseID c"
  "RepoRoot (dropForeignWorkspace rq m o' c) = RepoRoot c"
  "Provider (dropForeignWorkspace rq m o' c) = Provider c"
  by (simp_all add: dropForeignWorkspace_def Let_def)

lemma prepareMetadata_legacy:
  "prepareMetadata rg rq m c = Inr m' \<Longrightarrow> cm_legacyRepoRoot m' = cm_legacyRepoRoot m"
  by (auto simp: prepareMetadata_def split: option.splits if_splits sum.splits)

text \<open>What a repository publication guarantees of the claim it writes.\<close>

lemma transformLeaseClaimForRepo_ok:
  assumes "transformLeaseClaimForRepo rg rq m now w c = Inr c'"
  shows "CheckLeaseClaimRepositoryOwner c (cr_repoRoot rq) (cr_reclaim rq) (cm_legacyRepoRoot m) = None
     \<and> FixedIntent c' = FixedIntent c \<and> Revision c' = Revision c \<and> LeaseID c' = cr_leaseID rq
     \<and> RepoRoot c' = cr_repoRoot rq
     \<and> (FixedIntent c \<noteq> None \<and> Provider c \<noteq> [] \<longrightarrow> Provider c' = Provider c)"
proof -
  obtain m' where m': "prepareMetadata rg rq m c = Inr m'"
    using assms by (auto simp: transformLeaseClaimForRepo_def split: sum.splits)
  have chk: "CheckLeaseClaimRepositoryOwner c (cr_repoRoot rq) (cr_reclaim rq) (cm_legacyRepoRoot m') = None"
    using assms m' by (auto simp: transformLeaseClaimForRepo_def split: option.splits)
  obtain c1 where c1: "bindProvider rg (cr_provider rq) (claimIdentityFields rq m' now c) = Inr c1"
    using assms m' chk by (auto simp: transformLeaseClaimForRepo_def split: sum.splits)
  obtain idle norm where idle:
    "applyClaimIdle rg m' (if LeaseID c \<noteq> [] then IdleTimeoutSeconds c else 0) (cr_idleTimeout rq) = Inr (idle, norm)"
    using assms m' chk c1 by (auto simp: transformLeaseClaimForRepo_def Let_def split: sum.splits)
  have "c' = dropForeignWorkspace rq m' c (claimContentFields m' w idle norm (claimPlacementFields rq now c1))"
    using assms m' chk c1 idle by (simp add: transformLeaseClaimForRepo_def Let_def)
  then show ?thesis
    using bindProvider_frame [OF c1] chk prepareMetadata_legacy [OF m'] by simp
qed

lemma transformLeaseClaimEndpoint_ok:
  "transformLeaseClaimEndpoint rg s t p c = Inr c' \<Longrightarrow>
     FixedIntent c' = FixedIntent c \<and> Revision c' = Revision c \<and> LeaseID c' = LeaseID c
     \<and> RepoRoot c' = RepoRoot c \<and> Provider c' = Provider c"
  by (auto simp: transformLeaseClaimEndpoint_def Let_def split: sum.splits)

section \<open>Ownership\<close>

text \<open>The claim in the file of a lease, absent for a missing, unreadable or invalid one.\<close>

definition claimAt :: "claimsDir \<Rightarrow> string \<Rightarrow> leaseClaim option" where
  "claimAt d leaseID = (case claimLook d leaseID of Some (CClaim c) \<Rightarrow> Some c | _ \<Rightarrow> None)"

lemma claimAt_dirPut:
  "dirOk d \<Longrightarrow> claimAt (dirPut (claimFile leaseID) (CClaim c) d) leaseID' =
     (if leaseID' = leaseID then Some c else claimAt d leaseID')"
  by (simp add: claimAt_def claimLook_def map_of_dirPut)

lemma claimAt_dirDelete:
  "claimAt (dirDelete (claimFile leaseID) d) leaseID' = (if leaseID' = leaseID then None else claimAt d leaseID')"
  by (simp add: claimAt_def claimLook_def map_of_dirDelete)

lemma admitted_claimAt:
  "admitted leaseID tx d c True \<Longrightarrow> claimAt d leaseID = Some c"
  by (auto simp: admitted_def claimAt_def claimLook_def dest: read_claim_content)

lemma admitted_absent:
  "admitted leaseID tx d c False \<Longrightarrow> c = zeroClaim \<and> claimAt d leaseID = None"
  by (auto simp: admitted_def claimAt_def claimLook_def readLeaseClaimPathWithPresence_def
      split: option.splits cfile.splits sum.splits)

lemma zeroClaim_owner [simp]: "CheckLeaseClaimRepositoryOwner (zeroClaim\<lparr>Revision := r\<rparr>) root rc legacy = None"
  by (simp add: CheckLeaseClaimRepositoryOwner_def zeroClaim_def)

text \<open>C29: Publishing a claim for a repository never takes a lease from another one: when the
  operation changes the directory, a claim already there that names a lease and a repository names
  this repository (or its legacy root), unless the caller asked to reclaim. The published claim
  belongs to the requested repository, and keeps the fixed create intent and, with it, the provider
  of the claim it replaced.\<close>

theorem publication_respects_owner:
  fixes rg rq metadata wall env d
  defines "r \<equiv> claimLeaseForRepoProviderScopePondDetailsMetadata rg rq metadata wall env d"
  assumes "dirOk d" and "tr_Dir r \<noteq> d"
  shows "(\<forall>c. claimAt d (cr_leaseID rq) = Some c \<and> LeaseID c \<noteq> [] \<and> RepoRoot c \<noteq> [] \<longrightarrow>
            cr_reclaim rq \<or> ClaimRepositoryMatches (RepoRoot c) (cr_repoRoot rq) (cm_legacyRepoRoot metadata))
     \<and> (\<exists>c'. claimAt (tr_Dir r) (cr_leaseID rq) = Some c' \<and> LeaseID c' = cr_leaseID rq
          \<and> RepoRoot c' = cr_repoRoot rq
          \<and> (\<forall>c. claimAt d (cr_leaseID rq) = Some c \<longrightarrow> FixedIntent c' = FixedIntent c
               \<and> (FixedIntent c \<noteq> None \<and> Provider c \<noteq> [] \<longrightarrow> Provider c' = Provider c)))
     \<and> (\<forall>other. other \<noteq> cr_leaseID rq \<longrightarrow> claimAt (tr_Dir r) other = claimAt d other)"
proof -
  obtain tx where r: "r = transactLeaseClaim (cr_leaseID rq) tx env d"
    and tx: "tx_Mutate tx = transformLeaseClaimForRepo rg rq metadata (fmt_RFC3339 wall) wall"
    using assms(3) unfolding r_def claimLeaseForRepoProviderScopePondDetailsMetadata_def
    by (auto split: if_splits)
  from assms(3) r transactLeaseClaim_publishes [of "cr_leaseID rq" tx env d] obtain c ex v b v' where
    adm: "admitted (cr_leaseID rq) tx d c ex" and m: "tx_Mutate tx (c\<lparr>Revision := v\<rparr>) = Inr b"
    and cl: "tr_Claim r = b\<lparr>Revision := v'\<rparr>"
    and dir: "tr_Dir r = dirPut (claimFile (cr_leaseID rq)) (CClaim (tr_Claim r)) d" by auto
  note ok = transformLeaseClaimForRepo_ok [OF m [unfolded tx]]
  have at: "claimAt (tr_Dir r) x = (if x = cr_leaseID rq then Some (tr_Claim r) else claimAt d x)" for x
    using dir claimAt_dirPut [OF assms(2)] by metis
  have before: "claimAt d (cr_leaseID rq) = Some a \<Longrightarrow> a = c" for a
    using adm admitted_claimAt admitted_absent by (cases ex) fastforce+
  show ?thesis
    using ok at cl before by (auto simp: CheckLeaseClaimRepositoryOwner_def split: if_splits)
qed

definition emptyRegistry :: registry where
  "emptyRegistry = \<lparr>rg_ProviderFor = (\<lambda>_. None), rg_Prepare = (\<lambda>_. None), rg_ClaimScope = (\<lambda>_ _. []),
     rg_UseCoordinator = (\<lambda>_. False), rg_Time = noParsers, rg_Checkpoint = (\<lambda>_ _. None)\<rparr>"

definition ownedClaim :: leaseClaim where
  "ownedClaim = zeroClaim\<lparr>LeaseID := ''a'', RepoRoot := ''/r''\<rparr>"

lemma valid_a: "validLeaseClaimPathID ''a''"
  by (simp add: validLeaseClaimPathID_def validLeaseClaimID_def TrimSpace_ascii trim_by_def is_space_def
      code_def chunks_ascii ToUpper_def upper_char_def HasSuffix_def Let_def)

lemma read_owned:
  "readLeaseClaimPathWithPresence [(''a.json'', CClaim ownedClaim)] ''a.json'' = Inr (ownedClaim, True)"
  by (simp add: readLeaseClaimPathWithPresence_def decodeLeaseClaim_def ownedClaim_def zeroClaim_def)

theorem publication_respects_owner_witness:
  "\<exists>c'. claimAt (tr_Dir (claimLeaseForRepoProviderScopePondDetailsMetadata emptyRegistry
       (plainRequest ''a'' ''box'' [] [] [] ''/r'' 0 False) zeroMetadata 5 (quietEnv ''r1'')
       [(''a.json'', CClaim ownedClaim)])) ''a'' = Some c' \<and> RepoRoot c' = ''/r''"
proof -
  let ?rq = "plainRequest ''a'' ''box'' [] [] [] ''/r'' 0 False"
  let ?d = "[(''a.json'', CClaim ownedClaim)]"
  let ?r = "claimLeaseForRepoProviderScopePondDetailsMetadata emptyRegistry ?rq zeroMetadata 5 (quietEnv ''r1'') ?d"
  obtain c' where t: "transformLeaseClaimForRepo emptyRegistry ?rq zeroMetadata (fmt_RFC3339 5) 5
      (ownedClaim\<lparr>Revision := ''r1''\<rparr>) = Inr c'"
    by (simp add: transformLeaseClaimForRepo_def prepareMetadata_def zeroMetadata_def plainRequest_def
        CheckLeaseClaimRepositoryOwner_def ClaimRepositoryMatches_def ownedClaim_def zeroClaim_def
        bindProvider_def applyClaimIdle_def selectClaimIdleTimeout_def Let_def)
  have k: "LeaseID c' = ''a''" "Revision c' = ''r1''"
    using transformLeaseClaimForRepo_ok [OF t] by (simp_all add: plainRequest_def)
  have "tr_Dir ?r = [(''a.json'', CClaim c')]"
    using t k read_owned
    by (simp add: claimLeaseForRepoProviderScopePondDetailsMetadata_def plainRequest_def zeroMetadata_def
        transactLeaseClaim_def lockedLeaseClaimTransaction_def publishLeaseClaim_def quietEnv_def
        leaseClaimPath_def valid_a claimFile_def validateLeaseClaimFileIdentity_def refreshLeaseClaimRevision_def
        claimTransactionAction_def writeLeaseClaimAtomic_def ownedClaim_def zeroClaim_def)
  moreover have "c' \<noteq> ownedClaim" using k by (auto simp: ownedClaim_def zeroClaim_def)
  ultimately have "tr_Dir ?r \<noteq> ?d" by simp
  from publication_respects_owner [OF _ this] show ?thesis
    by (auto simp: plainRequest_def dirOk_def)
qed

section \<open>Removal and conflict resolution\<close>

lemma finalize_removes:
  assumes "tr_Dir (finalizeLeaseClaimIfUnchangedAfterContext leaseID expected expectedExists action env d) \<noteq> d"
  shows "action = (True, None) \<and> rm_LockErr env = None \<and> validLeaseClaimPathID leaseID
     \<and> (\<exists>c exists. readLeaseClaimPathWithPresence d (claimFile leaseID) = Inr (c, exists)
          \<and> unchangedLeaseClaimGuard expected expectedExists c exists = None)
     \<and> tr_Dir (finalizeLeaseClaimIfUnchangedAfterContext leaseID expected expectedExists action env d)
         = dirDelete (claimFile leaseID) d"
  using assms
  by (cases action)
    (auto simp: finalizeLeaseClaimIfUnchangedAfterContext_def leaseClaimPath_def txFail_def Let_def
      split: option.splits sum.splits if_splits bool.splits)

lemma unchanged_read:
  assumes "readLeaseClaimPathWithPresence d (claimFile leaseID) = Inr (c, exists)"
    and "unchangedLeaseClaimGuard expected True c exists = None"
  shows "claimAt d leaseID = Some expected"
proof -
  have "exists" and "c = expected"
    using assms(2) by (auto simp: unchangedLeaseClaimGuard_def split: if_splits)
  then show ?thesis
    using assms(1) read_claim_content by (auto simp: claimAt_def claimLook_def)
qed

text \<open>C30: A claim is removed only in the state the caller saw and only after the caller's cleanup
  succeeded: when a guarded removal changes the directory, the file held exactly the expected claim,
  the action reported no error, the claim is gone and every other claim is untouched.\<close>

theorem removal_needs_expected_claim:
  assumes "tr_Dir (RemoveLeaseClaimIfUnchangedAfter leaseID expected actionErr env d) \<noteq> d"
  shows "actionErr = None \<and> claimAt d leaseID = Some expected
     \<and> claimAt (tr_Dir (RemoveLeaseClaimIfUnchangedAfter leaseID expected actionErr env d)) leaseID = None
     \<and> (\<forall>other. other \<noteq> leaseID \<longrightarrow>
          claimAt (tr_Dir (RemoveLeaseClaimIfUnchangedAfter leaseID expected actionErr env d)) other = claimAt d other)"
proof -
  let ?a = "case actionErr of Some e \<Rightarrow> (False, Some e) | None \<Rightarrow> (True, None)"
  from assms have "tr_Dir (finalizeLeaseClaimIfUnchangedAfterContext leaseID expected True ?a env d) \<noteq> d"
    by (simp add: RemoveLeaseClaimIfUnchangedAfter_def cleanupLeaseClaimIfUnchangedAfter_def)
  from finalize_removes [OF this] unchanged_read show ?thesis
    by (auto simp: RemoveLeaseClaimIfUnchangedAfter_def cleanupLeaseClaimIfUnchangedAfter_def
        claimAt_dirDelete split: option.splits)
qed

definition quietRm :: rmEnv where
  "quietRm = \<lparr>rm_StateDirErr = None, rm_LockErr = None, rm_RemoveErr = None, rm_SyncErr = None,
     rm_SyncMissing = False\<rparr>"

theorem removal_needs_expected_claim_witness:
  "claimAt (tr_Dir (RemoveLeaseClaimIfUnchangedAfter ''a'' ownedClaim None quietRm
     [(''a.json'', CClaim ownedClaim)])) ''a'' = None"
proof -
  have "tr_Dir (RemoveLeaseClaimIfUnchangedAfter ''a'' ownedClaim None quietRm [(''a.json'', CClaim ownedClaim)])
      \<noteq> [(''a.json'', CClaim ownedClaim)]"
    using read_owned
    by (simp add: RemoveLeaseClaimIfUnchangedAfter_def cleanupLeaseClaimIfUnchangedAfter_def
        finalizeLeaseClaimIfUnchangedAfterContext_def leaseClaimPath_def valid_a claimFile_def quietRm_def
        unchangedLeaseClaimGuard_def dirDelete_def)
  from removal_needs_expected_claim [OF this] show ?thesis by blast
qed

lemma write_claimAt:
  assumes "dirOk d" and "writeLeaseClaimAtomic w (claimFile leaseID) c d = (d', err)"
  shows "dirOk d' \<and> (d' = d \<and> err \<noteq> None \<or> claimAt d' leaseID = Some c)"
  using assms by (auto simp: writeLeaseClaimAtomic_def claimAt_dirPut dirOk_dirPut split: writeOutcome.splits)

text \<open>The call reaches the caller's action: the lock was taken and the file holds the expected claim.\<close>

definition resolutionAdmitted :: "string \<Rightarrow> leaseClaim \<Rightarrow> txEnv \<Rightarrow> claimsDir \<Rightarrow> bool" where
  "resolutionAdmitted leaseID expected env d \<longleftrightarrow>
     leaseClaimPath (te_StateDirErr env) leaseID = Inr (claimFile leaseID) \<and> te_LockErr env = None
     \<and> readLeaseClaimPathWithPresence d (claimFile leaseID) = Inr (expected, True)"

definition publicationFails :: "txEnv \<Rightarrow> bool" where
  "publicationFails env \<longleftrightarrow> \<not> is_ok (te_Random env) \<or> (\<exists>e. te_Write env = WriteFails e)"

text \<open>The file holds no claim, or one with the given labels.\<close>

definition onlyLabelled :: "labels \<Rightarrow> leaseClaim option \<Rightarrow> bool" where
  "onlyLabelled ls x \<longleftrightarrow> (\<forall>c. x = Some c \<longrightarrow> Labels c = ls)"

lemma write_frame:
  assumes "dirOk d" and "writeLeaseClaimAtomic w (claimFile leaseID) c d = (d', err)" and "other \<noteq> leaseID"
  shows "claimAt d' other = claimAt d other"
  using assms by (auto simp: writeLeaseClaimAtomic_def claimAt_dirPut split: writeOutcome.splits)

lemma resolveRemoval_outcome:
  fixes leaseID c ae pe renv ts d
  defines "r \<equiv> resolveRemoval (claimFile leaseID) c ae pe renv ts d"
  assumes "dirOk d"
  shows "rr_Removed r \<longleftrightarrow> rm_RemoveErr renv = None \<and> rm_SyncErr renv = None"
    and "rm_RemoveErr renv = None \<Longrightarrow> rm_SyncErr renv = None \<Longrightarrow> claimAt (rr_Dir r) leaseID = None"
    and "rm_RemoveErr renv = None \<Longrightarrow> rm_SyncErr renv \<noteq> None \<Longrightarrow>
      claimAt (rr_Dir r) leaseID = Some c \<or> ((\<exists>e. ts = WriteFails e) \<and> claimAt (rr_Dir r) leaseID = None)"
    and "rm_RemoveErr renv \<noteq> None \<Longrightarrow> rr_Dir r = d"
    and "rr_Err r = None \<Longrightarrow> ae = None \<and> pe = None \<and> rr_Removed r"
    and "other \<noteq> leaseID \<Longrightarrow> claimAt (rr_Dir r) other = claimAt d other"
  using assms(2) dirOk_dirDelete [OF assms(2)]
  by (auto simp: r_def resolveRemoval_def Let_def claimAt_dirDelete claimAt_dirPut writeLeaseClaimAtomic_def
      split: option.splits prod.splits writeOutcome.splits)

lemma resolution_refused:
  assumes "\<not> resolutionAdmitted leaseID expected env d"
  shows "rr_Dir (ResolveLeaseClaimAfterActionIfUnchanged leaseID expected ae resolve wall env renv ts d) = d"
    and "rr_Err (ResolveLeaseClaimAfterActionIfUnchanged leaseID expected ae resolve wall env renv ts d) \<noteq> None"
    and "\<not> rr_Removed (ResolveLeaseClaimAfterActionIfUnchanged leaseID expected ae resolve wall env renv ts d)"
  using assms
  by (auto simp: ResolveLeaseClaimAfterActionIfUnchanged_def resolutionAdmitted_def leaseClaimPath_def Let_def
      unchangedLeaseClaimGuard_def split: option.splits sum.splits if_splits)

text \<open>C31: When creating a resource ends in a definite conflict, the claim that could destroy the
  resource of somebody else does not survive. The caller resolves the outcome into conflict labels and
  asks for removal. When the claim under the lock is the expected one, then: the claim is removed, and
  reported as removed, exactly when the file could be removed and the directory synced, whether or not
  the conflict labels could be published before; when the file could be removed but not synced, a claim
  with the conflict labels takes its place (or none, if that write fails too); a claim with other labels
  is left only when the publication failed and the file could not be removed, and then the call fails;
  and it succeeds only when the action succeeded and the claim was published and removed. When the claim
  under the lock is another one, the call fails and changes nothing. No other claim changes.\<close>

theorem conflict_resolution_is_safe:
  fixes leaseID expected actionErr resolve wall env renv tombstone d
  defines "r \<equiv> ResolveLeaseClaimAfterActionIfUnchanged leaseID expected actionErr resolve wall env renv tombstone d"
  assumes "dirOk d" and "resolve actionErr = (Some ls, True)"
  shows "(resolutionAdmitted leaseID expected env d \<longrightarrow>
        (rr_Removed r \<longleftrightarrow> rm_RemoveErr renv = None \<and> rm_SyncErr renv = None)
        \<and> (rr_Removed r \<longrightarrow> claimAt (rr_Dir r) leaseID = None)
        \<and> (rm_RemoveErr renv = None \<and> rm_SyncErr renv \<noteq> None \<longrightarrow>
             onlyLabelled ls (claimAt (rr_Dir r) leaseID)
             \<and> (claimAt (rr_Dir r) leaseID = None \<longrightarrow> (\<exists>e. tombstone = WriteFails e)))
        \<and> (onlyLabelled ls (claimAt (rr_Dir r) leaseID) \<or> (publicationFails env \<and> rm_RemoveErr renv \<noteq> None))
        \<and> (rr_Err r = None \<longrightarrow> actionErr = None \<and> \<not> publicationFails env \<and> rr_Removed r))
     \<and> (\<not> resolutionAdmitted leaseID expected env d \<longrightarrow> rr_Dir r = d \<and> rr_Err r \<noteq> None \<and> \<not> rr_Removed r)
     \<and> (\<forall>other. other \<noteq> leaseID \<longrightarrow> claimAt (rr_Dir r) other = claimAt d other)"
proof (cases "resolutionAdmitted leaseID expected env d")
  case False
  then show ?thesis using resolution_refused [OF False] by (simp add: r_def)
next
  case True
  let ?c1 = "expected\<lparr>Labels := ls, LastUsedAt := fmt_RFC3339 wall\<rparr>"
  obtain c2 d1 pe where p: "(case refreshLeaseClaimRevision env ?c1 of
        Inl e \<Rightarrow> (?c1, d, Some e)
      | Inr b \<Rightarrow> (case writeLeaseClaimAtomic (te_Write env) (claimFile leaseID) b d of (d', err) \<Rightarrow> (b, d', err)))
      = (c2, d1, pe)"
    by (rule prod_cases3)
  have "Labels c2 = ls \<and> dirOk d1 \<and> (publicationFails env \<and> pe \<noteq> None \<or> claimAt d1 leaseID = Some c2 \<and> \<not> publicationFails env)
      \<and> (\<forall>other. other \<noteq> leaseID \<longrightarrow> claimAt d1 other = claimAt d other)"
  proof (cases "te_Random env")
    case (Inl e)
    then have "c2 = ?c1" "d1 = d" "pe = Some e" using p by (simp_all add: refreshLeaseClaimRevision_def)
    then show ?thesis using assms(2) Inl by (simp add: publicationFails_def)
  next
    case (Inr v)
    then have "c2 = ?c1\<lparr>Revision := v\<rparr>"
      and w: "writeLeaseClaimAtomic (te_Write env) (claimFile leaseID) c2 d = (d1, pe)"
      using p by (auto simp: refreshLeaseClaimRevision_def split: prod.splits)
    moreover have "publicationFails env \<and> pe \<noteq> None \<or> claimAt d1 leaseID = Some c2 \<and> \<not> publicationFails env"
      using w Inr assms(2) by (auto simp: publicationFails_def writeLeaseClaimAtomic_def claimAt_dirPut split: writeOutcome.splits)
    ultimately show ?thesis using write_claimAt [OF assms(2) w] write_frame [OF assms(2) w] by simp
  qed
  then have c2: "Labels c2 = ls" and d1: "dirOk d1" and
    w: "publicationFails env \<and> pe \<noteq> None \<or> claimAt d1 leaseID = Some c2 \<and> \<not> publicationFails env"
    and frame: "other \<noteq> leaseID \<Longrightarrow> claimAt d1 other = claimAt d other" for other by blast+
  have r: "r = resolveRemoval (claimFile leaseID) c2 actionErr pe renv tombstone d1"
    using True p assms(3)
    by (simp add: r_def ResolveLeaseClaimAfterActionIfUnchanged_def resolutionAdmitted_def unchangedLeaseClaimGuard_def Let_def)
  note o = resolveRemoval_outcome [OF d1, where leaseID = leaseID and c = c2 and ae = actionErr and pe = pe and renv = renv and ts = tombstone, folded r]
  have "onlyLabelled ls (claimAt (rr_Dir r) leaseID) \<or> publicationFails env \<and> rm_RemoveErr renv \<noteq> None"
    using o(2-4) w c2 by (cases "rm_RemoveErr renv"; cases "rm_SyncErr renv") (auto simp: onlyLabelled_def)
  moreover have "onlyLabelled ls (claimAt (rr_Dir r) leaseID)
      \<and> (claimAt (rr_Dir r) leaseID = None \<longrightarrow> (\<exists>e. tombstone = WriteFails e))"
    if "rm_RemoveErr renv = None" "rm_SyncErr renv \<noteq> None"
    using o(3) [OF that] c2 by (auto simp: onlyLabelled_def)
  ultimately show ?thesis using True o(1,2,5,6) w frame by auto
qed

text \<open>A create conflict whose labels cannot be published: the claim is removed all the same.\<close>

definition unpublished :: txEnv where
  "unpublished = (quietEnv ''r1'')\<lparr>te_Write := WriteFails (Fail ''disk full'')\<rparr>"

theorem conflict_resolution_is_safe_witness:
  "claimAt (rr_Dir (ResolveLeaseClaimAfterActionIfUnchanged ''a'' ownedClaim (Some (Native ''exists''))
      (\<lambda>_. (Some (fmap_of_list [(''state'', ''conflict'')]), True)) 5 unpublished quietRm WriteOk
      [(''a.json'', CClaim ownedClaim)])) ''a'' = None"
proof -
  have d: "dirOk [(''a.json'', CClaim ownedClaim)]" by (simp add: dirOk_def)
  have adm: "resolutionAdmitted ''a'' ownedClaim unpublished [(''a.json'', CClaim ownedClaim)]"
    using read_owned
    by (simp add: resolutionAdmitted_def leaseClaimPath_def valid_a claimFile_def quietEnv_def unpublished_def)
  have "rm_RemoveErr quietRm = None \<and> rm_SyncErr quietRm = None" by (simp add: quietRm_def)
  with conflict_resolution_is_safe [OF d, where resolve = "\<lambda>_. (Some (fmap_of_list [(''state'', ''conflict'')]), True)"
      and actionErr = "Some (Native ''exists'')" and ls = "fmap_of_list [(''state'', ''conflict'')]" and leaseID = "''a''"
      and expected = ownedClaim and wall = 5 and env = unpublished and renv = quietRm and tombstone = WriteOk, OF refl] adm
  show ?thesis by blast
qed

end
