(* ===== verification/ClaimResolve.thy ===== *)
theory ClaimResolve
  imports ClaimOps
begin

text \<open>
  Finding claims: the scans of \<open>internal/cli/claim.go\<close> that resolve an identifier (a lease ID or a
  slug) to a claim, list claims, look up by cloud ID, and decide whether a slug is in use; and the
  pruning of stale claims of \<open>claims_prune.go\<close>.

  \<open>scanEnv\<close> is what the environment does to a scan: \<open>sc_CtxErr k\<close> is the cancellation seen at the
  \<open>k\<close>-th check, \<open>sc_ReadDirErr\<close> an error of reading the directory. A missing directory is an empty
  one. Reads take no lock, so a scan sees a snapshot per file; the model reads all files from one
  directory value.
\<close>

section \<open>Scanning\<close>

record scanEnv =
  sc_StateDirErr :: "gerr option"
  sc_ReadDirErr :: "gerr option"
  sc_CtxErr :: "nat \<Rightarrow> gerr option"

text \<open>The lease IDs of the \<open>.json\<close> files of the directory, in order.\<close>

definition claimEntries :: "claimsDir \<Rightarrow> string list" where
  "claimEntries d = map (\<lambda>(n, _). take (length n - 5) n)
     (filter (\<lambda>(n, f). (case f of CDir \<Rightarrow> False | _ \<Rightarrow> True) \<and> HasSuffix n ''.json'') d)"

definition claimLookupSlug :: "string \<Rightarrow> string" where
  "claimLookupSlug identifier = (if IsCanonicalLeaseID identifier then [] else NormalizeLeaseSlug identifier)"

definition isReceipt :: "leaseClaim \<Rightarrow> bool" where
  "isReceipt c \<longleftrightarrow> (case FixedIntent c of Some i \<Rightarrow> fi_State i = ''released'' | None \<Rightarrow> False)"

definition identifies :: "string \<Rightarrow> leaseClaim \<Rightarrow> bool" where
  "identifies identifier c \<longleftrightarrow>
     (let slug = claimLookupSlug identifier in
      LeaseID c = identifier \<or> (slug \<noteq> [] \<and> NormalizeLeaseSlug (Slug c) = slug))"

record scanState =
  ss_live :: leaseClaim
  ss_liveCount :: nat
  ss_receipt :: leaseClaim
  ss_receiptCount :: nat

definition scanResult :: "scanState \<Rightarrow> (leaseClaim \<times> bool) res" where
  "scanResult s =
     (if ss_liveCount s = 0 \<and> ss_receiptCount s > 1 then Inl (Exit 2 ''multiple claims match identifier'')
      else if ss_liveCount s = 1 then Inr (ss_live s, True)
      else Inr (ss_receipt s, ss_receiptCount s = 1))"

fun scanClaims ::
  "scanEnv \<Rightarrow> claimsDir \<Rightarrow> string \<Rightarrow> (leaseClaim \<Rightarrow> bool) \<Rightarrow> bool \<Rightarrow> nat \<Rightarrow> string list \<Rightarrow> scanState
    \<Rightarrow> (leaseClaim \<times> bool) res" where
  "scanClaims env d identifier match unique k [] s = scanResult s"
| "scanClaims env d identifier match unique k (e # es) s =
     (case sc_CtxErr env k of
        Some err \<Rightarrow> Inl err
      | None \<Rightarrow>
          (case ReadLeaseClaimWithPresence (sc_StateDirErr env) d e of
             Inl err \<Rightarrow> Inl err
           | Inr (c, _) \<Rightarrow>
               if \<not> identifies identifier c \<or> \<not> match c then
                 scanClaims env d identifier match unique (Suc k) es s
               else if \<not> unique then Inr (c, True)
               else if isReceipt c then
                 scanClaims env d identifier match unique (Suc k) es
                   (s\<lparr>ss_receipt := c, ss_receiptCount := Suc (ss_receiptCount s)\<rparr>)
               else if ss_liveCount s \<ge> 1 then Inl (Exit 2 ''multiple claims match identifier'')
               else scanClaims env d identifier match unique (Suc k) es
                      (s\<lparr>ss_live := c, ss_liveCount := Suc (ss_liveCount s)\<rparr>)))"

definition emptyScan :: scanState where
  "emptyScan = \<lparr>ss_live = zeroClaim, ss_liveCount = 0, ss_receipt = zeroClaim, ss_receiptCount = 0\<rparr>"

definition findMatchingLeaseClaim ::
  "scanEnv \<Rightarrow> claimsDir \<Rightarrow> string \<Rightarrow> (leaseClaim \<Rightarrow> bool) \<Rightarrow> bool \<Rightarrow> (leaseClaim \<times> bool) res" where
  "findMatchingLeaseClaim env d identifier match unique =
     (case sc_CtxErr env 0 of
        Some err \<Rightarrow> Inl err
      | None \<Rightarrow>
          if identifier = [] then Inr (zeroClaim, False)
          else if IsCanonicalLeaseID identifier then
            (case ReadLeaseClaimWithPresence (sc_StateDirErr env) d identifier of
               Inl err \<Rightarrow> Inl err
             | Inr (c, exists) \<Rightarrow>
                 if \<not> exists then Inr (zeroClaim, False)
                 else if LeaseID c \<noteq> [] \<and> match c then Inr (c, True) else Inr (zeroClaim, False))
          else
            (case sc_StateDirErr env of
               Some err \<Rightarrow> Inl err
             | None \<Rightarrow>
                 (case sc_ReadDirErr env of
                    Some err \<Rightarrow> Inl err
                  | None \<Rightarrow> scanClaims env d identifier match unique 1 (claimEntries d) emptyScan)))"

section \<open>Resolution\<close>

definition ResolveLeaseClaimContext :: "scanEnv \<Rightarrow> claimsDir \<Rightarrow> string \<Rightarrow> (leaseClaim \<times> bool) res" where
  "ResolveLeaseClaimContext env d identifier =
     (case sc_CtxErr env 0 of
        Some err \<Rightarrow> Inl err
      | None \<Rightarrow>
          if identifier = [] then Inr (zeroClaim, False)
          else (case ReadLeaseClaim (sc_StateDirErr env) d identifier of
                  Inl err \<Rightarrow> Inl err
                | Inr c \<Rightarrow> if LeaseID c \<noteq> [] then Inr (c, True)
                           else findMatchingLeaseClaim env d identifier (\<lambda>_. True) True))"

definition ResolveLeaseClaimForProviderContext ::
  "registry \<Rightarrow> scanEnv \<Rightarrow> claimsDir \<Rightarrow> string \<Rightarrow> string \<Rightarrow> (leaseClaim \<times> bool) res" where
  "ResolveLeaseClaimForProviderContext rg env d identifier provider =
     (case sc_CtxErr env 0 of
        Some err \<Rightarrow> Inl err
      | None \<Rightarrow>
          if provider = [] then ResolveLeaseClaimContext env d identifier
          else if identifier = [] then Inr (zeroClaim, False)
          else (case ReadLeaseClaimWithPresence (sc_StateDirErr env) d identifier of
                  Inl err \<Rightarrow> Inl err
                | Inr (c, exists) \<Rightarrow>
                    if exists \<and> LeaseID c \<noteq> [] \<and> canonicalClaimProvider rg (Provider c) = provider then Inr (c, True)
                    else if IsCanonicalLeaseID identifier then Inr (zeroClaim, False)
                    else findMatchingLeaseClaim env d identifier
                           (\<lambda>b. canonicalClaimProvider rg (Provider b) = provider) True))"

text \<open>The results with an exactness flag: claim, found, and whether the file named by the identifier
  exists.\<close>

definition ResolveLeaseClaimForProviderWithExactContext ::
  "registry \<Rightarrow> scanEnv \<Rightarrow> claimsDir \<Rightarrow> string \<Rightarrow> string \<Rightarrow> (leaseClaim \<times> bool \<times> bool) res" where
  "ResolveLeaseClaimForProviderWithExactContext rg env d identifier provider =
     (case sc_CtxErr env 0 of
        Some err \<Rightarrow> Inl err
      | None \<Rightarrow>
          if identifier = [] then Inr (zeroClaim, False, False)
          else (case ReadLeaseClaimWithPresence (sc_StateDirErr env) d identifier of
                  Inl err \<Rightarrow> Inl err
                | Inr (c, True) \<Rightarrow>
                    if LeaseID c = [] \<or> canonicalClaimProvider rg (Provider c) \<noteq> provider
                    then Inr (c, False, True) else Inr (c, True, True)
                | Inr (c, False) \<Rightarrow>
                    (case ResolveLeaseClaimForProviderContext rg env d identifier provider of
                       Inl err \<Rightarrow> Inl err | Inr (b, ok) \<Rightarrow> Inr (b, ok, False))))"

definition ResolveLeaseClaimForProviderScopeWithExactContext ::
  "registry \<Rightarrow> scanEnv \<Rightarrow> claimsDir \<Rightarrow> string \<Rightarrow> string \<Rightarrow> string \<Rightarrow> (leaseClaim \<times> bool \<times> bool) res" where
  "ResolveLeaseClaimForProviderScopeWithExactContext rg env d identifier provider scope =
     (case sc_CtxErr env 0 of
        Some err \<Rightarrow> Inl err
      | None \<Rightarrow>
          if identifier = [] then Inr (zeroClaim, False, False)
          else (case ReadLeaseClaimWithPresence (sc_StateDirErr env) d identifier of
                  Inl err \<Rightarrow> Inl err
                | Inr (c, True) \<Rightarrow>
                    if LeaseID c = [] \<or> canonicalClaimProvider rg (Provider c) \<noteq> provider \<or> ProviderScope c \<noteq> scope
                    then Inr (c, False, True) else Inr (c, True, True)
                | Inr (c, False) \<Rightarrow>
                    (case findMatchingLeaseClaim env d identifier
                            (\<lambda>b. canonicalClaimProvider rg (Provider b) = provider \<and> ProviderScope b = scope) True of
                       Inl err \<Rightarrow> Inl err | Inr (b, ok) \<Rightarrow> Inr (b, ok, False))))"

fun cloudScan ::
  "registry \<Rightarrow> scanEnv \<Rightarrow> claimsDir \<Rightarrow> string \<Rightarrow> string \<Rightarrow> string \<Rightarrow> nat \<Rightarrow> string list \<Rightarrow> leaseClaim
    \<Rightarrow> (leaseClaim \<times> bool) res" where
  "cloudScan rg env d cloudID provider scope k [] m = Inr (m, LeaseID m \<noteq> [])"
| "cloudScan rg env d cloudID provider scope k (e # es) m =
     (case sc_CtxErr env k of
        Some err \<Rightarrow> Inl err
      | None \<Rightarrow>
          (case ReadLeaseClaim (sc_StateDirErr env) d e of
             Inl err \<Rightarrow> Inl err
           | Inr c \<Rightarrow>
               if canonicalClaimProvider rg (Provider c) \<noteq> provider \<or> CloudID c \<noteq> cloudID
                  \<or> (scope \<noteq> [] \<and> ProviderScope c \<noteq> scope)
               then cloudScan rg env d cloudID provider scope (Suc k) es m
               else if LeaseID m \<noteq> [] then Inl (Exit 2 ''multiple claims match cloud id'')
               else cloudScan rg env d cloudID provider scope (Suc k) es c))"

definition ResolveLeaseClaimForProviderCloudIDScopeContext ::
  "registry \<Rightarrow> scanEnv \<Rightarrow> claimsDir \<Rightarrow> string \<Rightarrow> string \<Rightarrow> string \<Rightarrow> (leaseClaim \<times> bool) res" where
  "ResolveLeaseClaimForProviderCloudIDScopeContext rg env d cloudID provider scope =
     (case sc_CtxErr env 0 of
        Some err \<Rightarrow> Inl err
      | None \<Rightarrow>
          if cloudID = [] \<or> provider = [] then Inr (zeroClaim, False)
          else (case sc_StateDirErr env of
                  Some err \<Rightarrow> Inl err
                | None \<Rightarrow>
                    (case sc_ReadDirErr env of
                       Some err \<Rightarrow> Inl err
                     | None \<Rightarrow> cloudScan rg env d cloudID provider scope 1 (claimEntries d) zeroClaim)))"

definition LeaseClaimMatchesIdentifier :: "leaseClaim \<Rightarrow> string \<Rightarrow> bool" where
  "LeaseClaimMatchesIdentifier c identifier \<longleftrightarrow>
     (if identifier = [] then False
      else if LeaseID c = identifier \<or> CloudID c = identifier then True
      else (let slug = claimLookupSlug identifier in slug \<noteq> [] \<and> NormalizeLeaseSlug (Slug c) = slug))"

fun listScan :: "scanEnv \<Rightarrow> claimsDir \<Rightarrow> string \<Rightarrow> nat \<Rightarrow> string list \<Rightarrow> leaseClaim list res" where
  "listScan env d prefix k [] = Inr []"
| "listScan env d prefix k (e # es) =
     (case sc_CtxErr env k of
        Some err \<Rightarrow> Inl err
      | None \<Rightarrow>
          if prefix \<noteq> [] \<and> \<not> HasPrefix e prefix then listScan env d prefix (Suc k) es
          else (case ReadLeaseClaim (sc_StateDirErr env) d e of
                  Inl err \<Rightarrow> Inl err
                | Inr c \<Rightarrow>
                    (case listScan env d prefix (Suc k) es of
                       Inl err \<Rightarrow> Inl err
                     | Inr cs \<Rightarrow> Inr (if LeaseID c \<noteq> [] then c # cs else cs))))"

definition ListLeaseClaimsWithPrefixContext :: "scanEnv \<Rightarrow> claimsDir \<Rightarrow> string \<Rightarrow> leaseClaim list res" where
  "ListLeaseClaimsWithPrefixContext env d prefix =
     (case sc_CtxErr env 0 of
        Some err \<Rightarrow> Inl err
      | None \<Rightarrow>
          (case sc_StateDirErr env of
             Some err \<Rightarrow> Inl err
           | None \<Rightarrow>
               (case sc_ReadDirErr env of
                  Some err \<Rightarrow> Inl err
                | None \<Rightarrow> listScan env d prefix 1 (claimEntries d))))"

fun providerScan :: "registry \<Rightarrow> string \<Rightarrow> leaseClaim list \<Rightarrow> string \<Rightarrow> (string \<times> bool) res" where
  "providerScan rg identifier [] provider = Inr (provider, provider \<noteq> [])"
| "providerScan rg identifier (c # cs) provider =
     (if \<not> identifies identifier c then providerScan rg identifier cs provider
      else (let candidate = canonicalClaimProvider rg (Provider c) in
        if candidate = [] then providerScan rg identifier cs provider
        else if provider \<noteq> [] \<and> provider \<noteq> candidate then
          Inl (Exit 2 ''lease identifier matches local claims from multiple providers'')
        else providerScan rg identifier cs candidate))"

definition claimProviderForIdentifierContext ::
  "registry \<Rightarrow> scanEnv \<Rightarrow> claimsDir \<Rightarrow> string \<Rightarrow> (string \<times> bool) res" where
  "claimProviderForIdentifierContext rg env d identifier0 =
     (let identifier = TrimSpace identifier0 in
      if identifier = [] then Inr ([], False)
      else (case ReadLeaseClaimWithPresence (sc_StateDirErr env) d identifier of
              Inl err \<Rightarrow> Inl err
            | Inr (c, True) \<Rightarrow> (let p = canonicalClaimProvider rg (Provider c) in Inr (p, p \<noteq> []))
            | Inr (c, False) \<Rightarrow>
                if IsCanonicalLeaseID identifier then Inr ([], False)
                else (case ListLeaseClaimsWithPrefixContext env d [] of
                        Inl err \<Rightarrow> Inl err
                      | Inr cs \<Rightarrow> providerScan rg identifier cs [])))"

definition claimSlugInUse :: "scanEnv \<Rightarrow> claimsDir \<Rightarrow> string \<Rightarrow> string \<Rightarrow> bool res" where
  "claimSlugInUse env d slug0 leaseID =
     (let slug = NormalizeLeaseSlug slug0 in
      if slug = [] then Inr False
      else (case findMatchingLeaseClaim env d slug
                   (\<lambda>c. LeaseID c \<noteq> [] \<and> LeaseID c \<noteq> leaseID \<and> NormalizeLeaseSlug (Slug c) = slug) False of
              Inl err \<Rightarrow> Inl err
            | Inr (_, ok) \<Rightarrow> Inr ok))"

definition bindsSameResource :: "FixedLeaseKind \<Rightarrow> leaseClaim \<Rightarrow> string list \<Rightarrow> leaseClaim \<Rightarrow> bool" where
  "bindsSameResource k c providers other \<longleftrightarrow>
     LeaseID other \<noteq> LeaseID c \<and> CloudID other = CloudID c \<and> Provider other \<in> set providers
     \<and> (ProviderScope other = [] \<or> ProviderScope other = ProviderScope c)
     \<and> \<not> (IsFixedClaim k other \<and> isReceipt other)"

definition ValidateFixedLocalClaimUniqueness ::
  "scanEnv \<Rightarrow> claimsDir \<Rightarrow> FixedLeaseKind \<Rightarrow> leaseClaim \<Rightarrow> string list \<Rightarrow> gerr option" where
  "ValidateFixedLocalClaimUniqueness env d k c providers =
     (case ListLeaseClaimsWithPrefixContext env d [] of
        Inl err \<Rightarrow> Some err
      | Inr cs \<Rightarrow> if list_ex (bindsSameResource k c providers) cs
                  then Some (Exit 4 ''lease_id_conflict: multiple local claims bind resource'') else None)"

section \<open>Release receipts\<close>

definition RetainClaimAfterRelease ::
  "FixedLeaseKind \<Rightarrow> gerr option \<Rightarrow> claimsDir \<Rightarrow> string \<Rightarrow> leaseClaim \<Rightarrow> bool \<Rightarrow> (leaseClaim \<Rightarrow> gerr option) option
    \<Rightarrow> (leaseClaim \<Rightarrow> gerr option) option \<Rightarrow> bool res" where
  "RetainClaimAfterRelease k stateDirErr d leaseID previous providerEvidence extra after =
     (case ReadLeaseClaimWithPresence stateDirErr d leaseID of
        Inl err \<Rightarrow> Inl err
      | Inr (c, exists) \<Rightarrow>
          if \<not> exists \<or> \<not> IsFixedClaim k c then
            (if IsFixedClaim k previous \<or> providerEvidence
             then Inl (Exit 4 ''lease_id_conflict: no valid terminal tombstone after release'') else Inr False)
          else (case ValidateTerminalClaim k c previous leaseID extra of
                  Some err \<Rightarrow> Inl err
                | None \<Rightarrow> (case (case after of Some f \<Rightarrow> f c | None \<Rightarrow> None) of
                             Some err \<Rightarrow> Inl err | None \<Rightarrow> Inr True)))"

definition ReadTerminal :: "FixedLeaseKind \<Rightarrow> gerr option \<Rightarrow> claimsDir \<Rightarrow> string \<Rightarrow> bool \<times> gerr option" where
  "ReadTerminal k stateDirErr d leaseID =
     (case ReadLeaseClaimWithPresence stateDirErr d leaseID of
        Inl err \<Rightarrow> (True, Some err)
      | Inr (c, exists) \<Rightarrow>
          if \<not> exists \<or> \<not> IsFixedClaim k c \<or> \<not> isReceipt c then (False, None)
          else (True, ValidateTerminalClaim k c c leaseID None))"

section \<open>Pruning\<close>

text \<open>\<open>bound p\<close> is \<open>Spec().ClaimExpiryBound\<close> of provider \<open>p\<close>. The timestamp texts are compared as
  \<open>firstNonBlank\<close> does: the last use, and the claim time when there is none.\<close>

definition lastUse :: "leaseClaim \<Rightarrow> stamp" where
  "lastUse c = (case LastUsedAt c of
     Text s p \<Rightarrow> if TrimSpace s = [] then ClaimedAt c else LastUsedAt c | At n \<Rightarrow> At n)"

definition claimPruneEligible ::
  "registry \<Rightarrow> (string \<Rightarrow> int) \<Rightarrow> leaseClaim \<Rightarrow> int \<Rightarrow> int \<Rightarrow> bool res" where
  "claimPruneEligible rg bound c now age =
     (if StaticHost c \<noteq> [] \<or> FixedIntent c \<noteq> None \<or> CheckpointCapture c \<noteq> None
         \<or> RuntimeAdapterPendingRegistrationID c \<noteq> [] \<or> RuntimeAdapterRegistrationID c \<noteq> []
         \<or> CoordinatorRegistrationURL c \<noteq> [] then Inr False
      else (case ProviderFor rg (Provider c) of
              None \<Rightarrow> Inr False
            | Some p \<Rightarrow>
                if bound p \<le> 0 then Inr False
                else (case time_parse (lastUse c) of
                        None \<Rightarrow> Inl (Fail ''invalid_timestamp'')
                      | Some used \<Rightarrow> Inr (used < now - age \<and> used + bound p < now))))"

record pruneOutput =
  po_Eligible :: "string list"
  po_Pruned :: "string list"
  po_Kept :: nat
  po_Problems :: "string list"

text \<open>One visited file. \<open>between\<close> is what other processes do to the directory between the snapshot
  read of the file and the fenced removal.\<close>

definition pruneVisit ::
  "registry \<Rightarrow> (string \<Rightarrow> int) \<Rightarrow> int \<Rightarrow> int \<Rightarrow> bool \<Rightarrow> rmEnv \<Rightarrow> (claimsDir \<Rightarrow> claimsDir) \<Rightarrow> string
    \<Rightarrow> claimsDir \<times> pruneOutput \<Rightarrow> claimsDir \<times> pruneOutput" where
  "pruneVisit rg bound now age dryRun env between leaseID st =
     (case st of (d, out) \<Rightarrow>
        let problem = (\<lambda>d'. if map_of d' (claimFile leaseID) = None then (d', out)
              else (d', out\<lparr>po_Problems := po_Problems out @ [leaseID], po_Kept := Suc (po_Kept out)\<rparr>))
        in if \<not> validLeaseClaimPathID leaseID then
             (d, out\<lparr>po_Problems := po_Problems out @ [leaseID], po_Kept := Suc (po_Kept out)\<rparr>)
           else case ReadLeaseClaimWithPresence None d leaseID of
             Inl err \<Rightarrow> problem d
           | Inr (c, exists) \<Rightarrow>
               if \<not> exists then (d, out)
               else if LeaseID c = [] then problem d
               else (case claimPruneEligible rg bound c now age of
                       Inl err \<Rightarrow> problem d
                     | Inr False \<Rightarrow> (d, out\<lparr>po_Kept := Suc (po_Kept out)\<rparr>)
                     | Inr True \<Rightarrow>
                         (let out1 = out\<lparr>po_Eligible := po_Eligible out @ [leaseID]\<rparr> in
                          if dryRun then (d, out1\<lparr>po_Kept := Suc (po_Kept out)\<rparr>)
                          else (let r = cleanupLeaseClaimIfUnchangedAfter leaseID c True None env (between d) in
                            if tr_Err r \<noteq> None
                            then (tr_Dir r, out1\<lparr>po_Kept := Suc (po_Kept out),
                                      po_Problems := po_Problems out @ [leaseID]\<rparr>)
                            else (tr_Dir r, out1\<lparr>po_Pruned := po_Pruned out @ [leaseID]\<rparr>)))))"

text \<open>A pass over the files after the cursor; the scan may be cancelled after \<open>budget\<close> files.\<close>

definition pruneLeaseClaims ::
  "registry \<Rightarrow> (string \<Rightarrow> int) \<Rightarrow> int \<Rightarrow> int \<Rightarrow> bool \<Rightarrow> string \<Rightarrow> nat \<Rightarrow> (string \<Rightarrow> rmEnv)
    \<Rightarrow> (string \<Rightarrow> claimsDir \<Rightarrow> claimsDir) \<Rightarrow> claimsDir \<Rightarrow> claimsDir \<times> pruneOutput" where
  "pruneLeaseClaims rg bound now age dryRun after budget env between d =
     foldl (\<lambda>st e. pruneVisit rg bound now age dryRun (env e) (between e) e st)
       (d, \<lparr>po_Eligible = [], po_Pruned = [], po_Kept = 0, po_Problems = []\<rparr>)
       (take budget (filter (\<lambda>e. after < claimFile e) (claimEntries d)))"

section \<open>What a scan finds\<close>

text \<open>A claim read by a scan that names a lease is the one in its file.\<close>

lemma read_presence_claim:
  assumes "ReadLeaseClaimWithPresence se d e = Inr (c, ex)"
  shows "(ex \<and> claimAt d e = Some c) \<or> (\<not> ex \<and> c = zeroClaim)"
  using assms
  by (auto simp: ReadLeaseClaimWithPresence_def leaseClaimPath_def claimAt_def claimLook_def
      readLeaseClaimPathWithPresence_def decodeLeaseClaim_def validateLeaseClaimFileIdentity_def
      split: sum.splits option.splits cfile.splits if_splits)

lemma zeroClaim_unidentified: "identifier \<noteq> [] \<Longrightarrow> \<not> identifies identifier zeroClaim"
  by (auto simp: identifies_def zeroClaim_def claimLookupSlug_def NormalizeLeaseSlug_def Let_def)

text \<open>The matching claims in the order of the entries, when every file can be read.\<close>

definition entryHit :: "scanEnv \<Rightarrow> claimsDir \<Rightarrow> string \<Rightarrow> (leaseClaim \<Rightarrow> bool) \<Rightarrow> string \<Rightarrow> leaseClaim list" where
  "entryHit env d i m e =
     (case ReadLeaseClaimWithPresence (sc_StateDirErr env) d e of
        Inl _ \<Rightarrow> [] | Inr (c, _) \<Rightarrow> if identifies i c \<and> m c then [c] else [])"

definition scanHits :: "scanEnv \<Rightarrow> claimsDir \<Rightarrow> string \<Rightarrow> (leaseClaim \<Rightarrow> bool) \<Rightarrow> string list \<Rightarrow> leaseClaim list" where
  "scanHits env d i m es = concat (map (entryHit env d i m) es)"

definition accumulate :: "scanState \<Rightarrow> leaseClaim \<Rightarrow> scanState" where
  "accumulate s c =
     (if isReceipt c then s\<lparr>ss_receipt := c, ss_receiptCount := Suc (ss_receiptCount s)\<rparr>
      else s\<lparr>ss_live := c, ss_liveCount := Suc (ss_liveCount s)\<rparr>)"

lemma scanClaims_unique:
  assumes "scanClaims env d i m True k es s = Inr r" and "ss_liveCount s \<le> 1"
  shows "ss_liveCount (foldl accumulate s (scanHits env d i m es)) \<le> 1
     \<and> scanResult (foldl accumulate s (scanHits env d i m es)) = Inr r"
  using assms
proof (induction es arbitrary: k s)
  case Nil
  then show ?case by (simp add: scanHits_def)
next
  case (Cons e es)
  have ctx: "sc_CtxErr env k = None"
    using Cons.prems(1) by (cases "sc_CtxErr env k") auto
  obtain b ex where rd: "ReadLeaseClaimWithPresence (sc_StateDirErr env) d e = Inr (b, ex)"
    using Cons.prems(1) ctx by (cases "ReadLeaseClaimWithPresence (sc_StateDirErr env) d e") auto
  have h: "scanHits env d i m (e # es) = (if identifies i b \<and> m b then [b] else []) @ scanHits env d i m es"
    by (simp add: scanHits_def entryHit_def rd)
  show ?case
  proof (cases "identifies i b \<and> m b")
    case False
    with Cons.prems rd ctx have "scanClaims env d i m True (Suc k) es s = Inr r" by simp
    from Cons.IH [OF this Cons.prems(2)] False h show ?thesis by auto
  next
    case True
    have "scanClaims env d i m True (Suc k) es (accumulate s b) = Inr r \<and> ss_liveCount (accumulate s b) \<le> 1"
      using Cons.prems rd ctx True by (auto simp: accumulate_def split: if_splits)
    with Cons.IH [of "Suc k" "accumulate s b"] True h show ?thesis by simp
  qed
qed

lemma accumulate_counts:
  "ss_liveCount (foldl accumulate s cs) = ss_liveCount s + length (filter (\<lambda>c. \<not> isReceipt c) cs)"
  "ss_receiptCount (foldl accumulate s cs) = ss_receiptCount s + length (filter isReceipt cs)"
  by (induction cs arbitrary: s) (auto simp: accumulate_def)

lemma accumulate_last:
  "filter (\<lambda>c. \<not> isReceipt c) cs = [c] \<Longrightarrow> ss_live (foldl accumulate s cs) = c"
  "filter isReceipt cs = [c] \<Longrightarrow> ss_receipt (foldl accumulate s cs) = c"
proof -
  have a: "filter (\<lambda>c. \<not> isReceipt c) cs = [] \<Longrightarrow> ss_live (foldl accumulate s cs) = ss_live s" for s cs
    by (induction cs arbitrary: s) (auto simp: accumulate_def split: if_splits)
  have b: "filter isReceipt cs = [] \<Longrightarrow> ss_receipt (foldl accumulate s cs) = ss_receipt s" for s cs
    by (induction cs arbitrary: s) (auto simp: accumulate_def split: if_splits)
  show "filter (\<lambda>c. \<not> isReceipt c) cs = [c] \<Longrightarrow> ss_live (foldl accumulate s cs) = c"
    by (induction cs arbitrary: s) (auto simp: accumulate_def a split: if_splits)
  show "filter isReceipt cs = [c] \<Longrightarrow> ss_receipt (foldl accumulate s cs) = c"
    by (induction cs arbitrary: s) (auto simp: accumulate_def b split: if_splits)
qed

lemma length_one: "length xs = 1 \<Longrightarrow> xs = [hd xs]"
  by (cases xs) auto

text \<open>The specification of a unique lookup among the matching claims: one live claim wins over any
  receipts; without a live one a single receipt is returned.\<close>

definition uniqueAmong :: "leaseClaim list \<Rightarrow> leaseClaim \<Rightarrow> bool" where
  "uniqueAmong cs c \<longleftrightarrow> filter (\<lambda>c. \<not> isReceipt c) cs = [c]
     \<or> (filter (\<lambda>c. \<not> isReceipt c) cs = [] \<and> filter isReceipt cs = [c])"

lemma scan_found_unique:
  assumes "scanClaims env d i m True k es emptyScan = Inr (c, ok)"
  shows "if ok then uniqueAmong (scanHits env d i m es) c else scanHits env d i m es = []"
proof -
  let ?hs = "scanHits env d i m es"
  let ?s = "foldl accumulate emptyScan ?hs"
  have r: "ss_liveCount ?s \<le> 1" "scanResult ?s = Inr (c, ok)"
    using scanClaims_unique [OF assms] by (simp_all add: emptyScan_def)
  have n: "ss_liveCount ?s = length (filter (\<lambda>c. \<not> isReceipt c) ?hs)"
    "ss_receiptCount ?s = length (filter isReceipt ?hs)"
    by (simp_all add: accumulate_counts emptyScan_def)
  show ?thesis
  proof (cases "ss_liveCount ?s = 1")
    case True
    then have f: "filter (\<lambda>c. \<not> isReceipt c) ?hs = [hd (filter (\<lambda>c. \<not> isReceipt c) ?hs)]"
      using n(1) by (intro length_one) simp
    from accumulate_last(1) [OF f, of emptyScan] have "c = hd (filter (\<lambda>c. \<not> isReceipt c) ?hs)" "ok"
      using r(2) True by (simp_all add: scanResult_def)
    with f show ?thesis by (simp add: uniqueAmong_def)
  next
    case False
    then have "length (filter (\<lambda>c. \<not> isReceipt c) ?hs) = 0" using r(1) n(1) by linarith
    then have z: "filter (\<lambda>c. \<not> isReceipt c) ?hs = []" by (simp only: length_0_conv)
    show ?thesis
    proof (cases "ss_receiptCount ?s = 1")
      case True
      then have f: "filter isReceipt ?hs = [hd (filter isReceipt ?hs)]"
        using n(2) by (intro length_one) simp
      from accumulate_last(2) [OF f, of emptyScan] have "c = hd (filter isReceipt ?hs)" "ok"
        using r(2) True False by (auto simp: scanResult_def split: if_splits)
      with f z show ?thesis by (simp add: uniqueAmong_def)
    next
      case no: False
      have l: "ss_liveCount ?s = 0" using n(1) z by simp
      have "\<not> ss_receiptCount ?s > 1" using r(2) l by (auto simp: scanResult_def)
      then have zero: "ss_receiptCount ?s = 0" using no by linarith
      have "\<not> ok" using r(2) l zero by (auto simp: scanResult_def)
      moreover have "filter isReceipt ?hs = []" using zero n(2) by (metis length_0_conv)
      ultimately show ?thesis using z by (metis (no_types, lifting) filter_empty_conv list.set_sel(1))
    qed
  qed
qed

lemma scan_first_none:
  assumes "scanClaims env d i m False k es emptyScan = Inr (c, False)"
  shows "scanHits env d i m es = []"
  using assms
proof (induction es arbitrary: k)
  case Nil
  then show ?case by (simp add: scanHits_def)
next
  case (Cons e es)
  have ctx: "sc_CtxErr env k = None"
    using Cons.prems(1) by (cases "sc_CtxErr env k") auto
  obtain b ex where rd: "ReadLeaseClaimWithPresence (sc_StateDirErr env) d e = Inr (b, ex)"
    using Cons.prems(1) ctx by (cases "ReadLeaseClaimWithPresence (sc_StateDirErr env) d e") auto
  have "\<not> (identifies i b \<and> m b)" and "scanClaims env d i m False (Suc k) es emptyScan = Inr (c, False)"
    using Cons.prems ctx rd by (auto split: if_splits)
  with Cons.IH show ?case by (auto simp: scanHits_def entryHit_def rd)
qed

text \<open>Every file of the directory that holds a claim naming a lease is one of the scanned entries.\<close>

lemma scan_reads:
  assumes "scanClaims env d i m u k es s = Inr r" and "e \<in> set es" and "\<not> (u = False \<and> snd r)"
  shows "\<exists>c ex. ReadLeaseClaimWithPresence (sc_StateDirErr env) d e = Inr (c, ex)"
  using assms
proof (induction es arbitrary: k s)
  case (Cons x es)
  have ctx: "sc_CtxErr env k = None"
    using Cons.prems(1) by (cases "sc_CtxErr env k") auto
  obtain b ex where rd: "ReadLeaseClaimWithPresence (sc_StateDirErr env) d x = Inr (b, ex)"
    using Cons.prems(1) ctx by (cases "ReadLeaseClaimWithPresence (sc_StateDirErr env) d x") auto
  show ?case
  proof (cases "e = x")
    case True
    with rd show ?thesis by blast
  next
    case False
    then have "e \<in> set es" using Cons.prems(2) by simp
    moreover obtain k' s' where "scanClaims env d i m u k' es s' = Inr r"
      using Cons.prems(1,3) ctx rd by (auto split: if_splits)
    ultimately show ?thesis using Cons.IH Cons.prems(3) by blast
  qed
qed simp

lemma claimEntries_file:
  assumes "claimAt d e = Some c"
  shows "e \<in> set (claimEntries d)"
proof -
  have "(claimFile e, CClaim c) \<in> set d"
    using assms by (auto simp: claimAt_def claimLook_def split: option.splits cfile.splits dest: map_of_SomeD)
  then show ?thesis
    by (force simp: claimEntries_def claimFile_def HasSuffix_def image_iff)
qed

lemma hit_in_scan:
  assumes "claimAt d e = Some c" "identifies i c" "m c"
    and "\<exists>c ex. ReadLeaseClaimWithPresence (sc_StateDirErr env) d e = Inr (c, ex)"
    and "LeaseID c \<noteq> []" "validLeaseClaimPathID e"
  shows "c \<in> set (scanHits env d i m (claimEntries d))"
proof -
  obtain b ex where rd: "ReadLeaseClaimWithPresence (sc_StateDirErr env) d e = Inr (b, ex)" using assms(4) by blast
  have "b = c \<and> ex"
    using rd assms(1,6)
    by (auto simp: ReadLeaseClaimWithPresence_def leaseClaimPath_def claimAt_def claimLook_def
        readLeaseClaimPathWithPresence_def decodeLeaseClaim_def
        split: sum.splits option.splits cfile.splits if_splits)
  then have "c \<in> set (entryHit env d i m e)" using rd assms(2,3) by (simp add: entryHit_def)
  then show ?thesis using claimEntries_file [OF assms(1)] by (auto simp: scanHits_def)
qed

lemma hits_are_claims:
  assumes "c \<in> set (scanHits env d i m es)" and "i \<noteq> []"
  shows "identifies i c \<and> m c \<and> (\<exists>e \<in> set es. claimAt d e = Some c)"
proof -
  obtain e where e: "e \<in> set es" "c \<in> set (entryHit env d i m e)"
    using assms(1) by (auto simp: scanHits_def)
  then obtain ex where "ReadLeaseClaimWithPresence (sc_StateDirErr env) d e = Inr (c, ex)"
    "identifies i c" "m c"
    by (cases "ReadLeaseClaimWithPresence (sc_StateDirErr env) d e") (auto simp: entryHit_def split: if_splits)
  with e(1) read_presence_claim zeroClaim_unidentified [OF assms(2)] show ?thesis by blast
qed

lemma uniqueAmong_mem: "uniqueAmong cs c \<Longrightarrow> c \<in> set cs"
  unfolding uniqueAmong_def by (metis filter_is_subset list.set_intros(1) subsetD)

section \<open>Properties of resolution and pruning\<close>

text \<open>C33: Resolving an identifier for a provider is unambiguous. A claim it returns belongs to that
  provider and is in the directory; it is the claim stored under the identifier, or the identifier
  is not a canonical lease ID and the claim is the only live one of that provider with this lease
  ID or slug (or, with no live one, the only release receipt). When it reports that there is none
  for a non-canonical identifier, no claim of the provider matches.\<close>

theorem provider_resolution_unambiguous:
  assumes "provider \<noteq> []" and "identifier \<noteq> []"
    and "ResolveLeaseClaimForProviderContext rg env d identifier provider = Inr (c, ok)"
  shows "(ok \<longrightarrow> canonicalClaimProvider rg (Provider c) = provider
       \<and> (claimAt d identifier = Some c
          \<or> (\<not> IsCanonicalLeaseID identifier \<and> (\<exists>e. claimAt d e = Some c) \<and> identifies identifier c
             \<and> uniqueAmong (scanHits env d identifier (\<lambda>b. canonicalClaimProvider rg (Provider b) = provider)
                  (claimEntries d)) c)))
     \<and> (\<not> ok \<and> \<not> IsCanonicalLeaseID identifier \<longrightarrow>
          scanHits env d identifier (\<lambda>b. canonicalClaimProvider rg (Provider b) = provider) (claimEntries d) = [])"
proof -
  let ?m = "\<lambda>b. canonicalClaimProvider rg (Provider b) = provider"
  obtain a ex where ctx: "sc_CtxErr env 0 = None"
    and rd: "ReadLeaseClaimWithPresence (sc_StateDirErr env) d identifier = Inr (a, ex)"
    using assms by (auto simp: ResolveLeaseClaimForProviderContext_def split: option.splits sum.splits)
  show ?thesis
  proof (cases "ex \<and> LeaseID a \<noteq> [] \<and> ?m a")
    case True
    then have "c = a \<and> ok"
      using assms ctx rd by (simp add: ResolveLeaseClaimForProviderContext_def)
    with True rd read_presence_claim show ?thesis by fastforce
  next
    case False
    show ?thesis
    proof (cases "IsCanonicalLeaseID identifier")
      case True
      then show ?thesis
        using False assms ctx rd by (auto simp: ResolveLeaseClaimForProviderContext_def)
    next
      case nc: False
      have "findMatchingLeaseClaim env d identifier ?m True = Inr (c, ok)"
        using False nc assms ctx rd by (auto simp: ResolveLeaseClaimForProviderContext_def split: if_splits)
      then have "scanClaims env d identifier ?m True 1 (claimEntries d) emptyScan = Inr (c, ok)"
        using nc assms(2) ctx by (auto simp: findMatchingLeaseClaim_def split: option.splits)
      note u = scan_found_unique [OF this]
      show ?thesis
      proof (cases ok)
        case True
        then have "uniqueAmong (scanHits env d identifier ?m (claimEntries d)) c" using u by simp
        with hits_are_claims [OF uniqueAmong_mem assms(2)] True nc show ?thesis by blast
      next
        case no: False
        with u show ?thesis by simp
      qed
    qed
  qed
qed

definition quietScan :: scanEnv where
  "quietScan = \<lparr>sc_StateDirErr = None, sc_ReadDirErr = None, sc_CtxErr = (\<lambda>_. None)\<rparr>"

definition boxClaim :: leaseClaim where
  "boxClaim = zeroClaim\<lparr>LeaseID := ''a'', Slug := ''box'', Provider := ''aws''\<rparr>"

lemma aws_canonical: "canonicalClaimProvider emptyRegistry ''aws'' = ''aws''"
proof -
  have "TrimSpace ''aws'' = ''aws''" "ToLower ''aws'' = ''aws''"
    by (simp_all add: TrimSpace_ascii trim_by_def is_space_def code_def ToLower_def chunks_ascii lower_char_def)
  then show ?thesis
    by (simp add: canonicalClaimProvider_def fixed_aliases_def ProviderFor_def emptyRegistry_def normalizeProviderName_def)
qed

lemma box_plain: "NormalizeLeaseSlug ''box'' = ''box''" "validLeaseClaimPathID ''box''"
proof -
  have "slug_normal ''box''"
    by (simp add: slug_normal_def slug_char_def is_lower_alnum_def no_double_dash_def code_def)
  then show "NormalizeLeaseSlug ''box'' = ''box''" by (rule NormalizeLeaseSlug_fixed)
  show "validLeaseClaimPathID ''box''"
    by (simp add: validLeaseClaimPathID_def validLeaseClaimID_def TrimSpace_ascii trim_by_def is_space_def
        code_def chunks_ascii ToUpper_def upper_char_def HasSuffix_def Let_def char_of_def)
qed

lemma box_reads:
  "ReadLeaseClaimWithPresence None [(''a.json'', CClaim boxClaim)] ''box'' = Inr (zeroClaim, False)"
  "ReadLeaseClaimWithPresence None [(''a.json'', CClaim boxClaim)] ''a'' = Inr (boxClaim, True)"
  "claimEntries [(''a.json'', CClaim boxClaim)] = [''a'']"
  by (simp_all add: ReadLeaseClaimWithPresence_def leaseClaimPath_def box_plain valid_a claimFile_def
      readLeaseClaimPathWithPresence_def decodeLeaseClaim_def validateLeaseClaimFileIdentity_def
      boxClaim_def zeroClaim_def claimEntries_def HasSuffix_def)

theorem provider_resolution_unambiguous_witness:
  "ResolveLeaseClaimForProviderContext emptyRegistry quietScan [(''a.json'', CClaim boxClaim)] ''box'' ''aws''
     = Inr (boxClaim, True)
   \<and> uniqueAmong (scanHits quietScan [(''a.json'', CClaim boxClaim)] ''box''
        (\<lambda>b. canonicalClaimProvider emptyRegistry (Provider b) = ''aws'') [''a'']) boxClaim"
proof -
  let ?d = "[(''a.json'', CClaim boxClaim)]"
  have nc: "\<not> IsCanonicalLeaseID ''box''" by (simp add: IsCanonicalLeaseID_def)
  have ib: "identifies ''box'' boxClaim" "Provider boxClaim = ''aws''" "\<not> isReceipt boxClaim"
    by (simp_all add: identifies_def claimLookupSlug_def nc box_plain boxClaim_def isReceipt_def zeroClaim_def)
  have r: "ResolveLeaseClaimForProviderContext emptyRegistry quietScan ?d ''box'' ''aws'' = Inr (boxClaim, True)"
    by (simp add: ResolveLeaseClaimForProviderContext_def quietScan_def box_reads nc findMatchingLeaseClaim_def
        ib aws_canonical emptyScan_def scanResult_def)
  have "claimAt ?d ''box'' = None"
    by (simp add: claimAt_def claimLook_def claimFile_def)
  then show ?thesis
    using provider_resolution_unambiguous [OF _ _ r] r by (simp add: box_reads)
qed

text \<open>C35: A slug that the allocation loop grants against the claims of the directory is not the slug
  of any other lease's claim, when the caller asked for a slug and all claim files could be read.\<close>

theorem allocated_slug_unused_by_claims:
  assumes "allocateDirectLeaseSlug sha256 ctxErr leaseID requested servers (claimSlugInUse env d) = Inr s"
    and "length (sha256 leaseID) = 32" and "NormalizeLeaseSlug requested \<noteq> []"
    and "claimAt d e = Some c" and "validLeaseClaimPathID e" and "LeaseID c \<noteq> []" and "LeaseID c \<noteq> leaseID"
  shows "NormalizeLeaseSlug (Slug c) \<noteq> s"
proof
  assume same: "NormalizeLeaseSlug (Slug c) = s"
  have "sha256 leaseID \<noteq> []" using assms(2) by auto
  note a = allocated_slug [OF assms(1) this]
  have n: "NormalizeLeaseSlug s = s" and ne: "s \<noteq> []" using a(2) NormalizeLeaseSlug_fixed by auto
  have nc: "\<not> IsCanonicalLeaseID s"
  proof
    assume "IsCanonicalLeaseID s"
    then have "CHR ''_'' \<in> set s"
      by (auto simp: IsCanonicalLeaseID_def) (metis in_set_takeD list.set_intros(1) list.set_intros(2))
    then have "slug_char CHR ''_''" using a(2) by (auto simp: slug_normal_def list_all_iff)
    then show False by (simp add: slug_char_def is_lower_alnum_def code_def)
  qed
  let ?m = "\<lambda>c. LeaseID c \<noteq> [] \<and> LeaseID c \<noteq> leaseID \<and> NormalizeLeaseSlug (Slug c) = s"
  have "claimSlugInUse env d s leaseID = Inr False"
    using a(1) assms(3) by (auto simp: slug_taken_def Let_def split: if_splits)
  then obtain b where "findMatchingLeaseClaim env d s ?m False = Inr (b, False)"
    using n ne by (auto simp: claimSlugInUse_def split: sum.splits)
  then have sc: "scanClaims env d s ?m False 1 (claimEntries d) emptyScan = Inr (b, False)"
    using nc ne by (auto simp: findMatchingLeaseClaim_def split: option.splits)
  have "identifies s c"
    using same nc n ne by (simp add: identifies_def claimLookupSlug_def)
  moreover have "\<exists>c ex. ReadLeaseClaimWithPresence (sc_StateDirErr env) d e = Inr (c, ex)"
    by (rule scan_reads [OF sc]) (use claimEntries_file [OF assms(4)] in simp_all)
  ultimately have "c \<in> set (scanHits env d s ?m (claimEntries d))"
    using assms(4-7) same by (intro hit_in_scan) simp_all
  with scan_first_none [OF sc] show False by simp
qed

theorem allocated_slug_unused_by_claims_witness:
  "\<exists>s. allocateDirectLeaseSlug (\<lambda>_. replicate 32 0) (\<lambda>_. None) ''b'' ''Cab'' []
         (claimSlugInUse quietScan [(''a.json'', CClaim boxClaim)]) = Inr s
     \<and> NormalizeLeaseSlug (Slug boxClaim) \<noteq> s"
proof -
  let ?d = "[(''a.json'', CClaim boxClaim)]"
  have n: "NormalizeLeaseSlug ''Cab'' = ''cab''" "NormalizeLeaseSlug ''cab'' = ''cab''"
    by (simp_all add: NormalizeLeaseSlug_def TrimSpace_ascii chunks_ascii code_def
        trim_by_def is_space_def lower_rune_def comp_def char_of_def bit_0)
  have nc: "\<not> IsCanonicalLeaseID ''cab''" by (simp add: IsCanonicalLeaseID_def)
  have "\<not> identifies ''cab'' boxClaim"
    by (simp add: identifies_def claimLookupSlug_def nc n box_plain boxClaim_def)
  then have "claimSlugInUse quietScan ?d ''cab'' ''b'' = Inr False"
    by (simp add: claimSlugInUse_def n findMatchingLeaseClaim_def quietScan_def nc box_reads emptyScan_def scanResult_def)
  then have s: "allocateDirectLeaseSlug (\<lambda>_. replicate 32 0) (\<lambda>_. None) ''b'' ''Cab'' [] (claimSlugInUse quietScan ?d) = Inr ''cab''"
    using allocate_loop.simps(2) [where k = 19, simplified]
    by (simp add: allocateDirectLeaseSlug_def n Let_def slug_taken_def serverSlugInUse_def)
  have "claimAt ?d ''a'' = Some boxClaim" by (simp add: claimAt_def claimLook_def claimFile_def)
  from allocated_slug_unused_by_claims [OF s _ _ this valid_a] s show ?thesis
    by (simp add: n) (simp add: boxClaim_def)
qed

section \<open>Pruning\<close>

lemma pruneEligible_plain:
  assumes "claimPruneEligible rg bound c now age = Inr True"
  shows "StaticHost c = [] \<and> FixedIntent c = None \<and> CheckpointCapture c = None
     \<and> RuntimeAdapterPendingRegistrationID c = [] \<and> RuntimeAdapterRegistrationID c = []
     \<and> CoordinatorRegistrationURL c = []
     \<and> (\<exists>p used. ProviderFor rg (Provider c) = Some p \<and> 0 < bound p
          \<and> time_parse (lastUse c) = Some used \<and> used < now - age \<and> used + bound p < now)"
  using assms by (auto simp: claimPruneEligible_def split: if_splits option.splits)

lemma cleanup_removes:
  assumes "tr_Dir (cleanupLeaseClaimIfUnchangedAfter e c True None env d) \<noteq> d"
  shows "tr_Dir (cleanupLeaseClaimIfUnchangedAfter e c True None env d) = dirDelete (claimFile e) d
     \<and> claimAt d e = Some c"
proof -
  from assms have "tr_Dir (finalizeLeaseClaimIfUnchangedAfterContext e c True (True, None) env d) \<noteq> d"
    by (simp add: cleanupLeaseClaimIfUnchangedAfter_def)
  from finalize_removes [OF this] unchanged_read show ?thesis
    by (auto simp: cleanupLeaseClaimIfUnchangedAfter_def)
qed

lemma pruneVisit_cases:
  obtains (kept) "fst (pruneVisit rg bound now age dryRun env between e (d, out)) = d"
  | (tried) c where "\<not> dryRun" "claimPruneEligible rg bound c now age = Inr True" "claimAt d e = Some c"
      "fst (pruneVisit rg bound now age dryRun env between e (d, out))
         = tr_Dir (cleanupLeaseClaimIfUnchangedAfter e c True None env (between d))"
proof (cases "validLeaseClaimPathID e")
  case False
  then show ?thesis by (intro kept) (simp add: pruneVisit_def)
next
  case valid: True
  show ?thesis
  proof (cases "ReadLeaseClaimWithPresence None d e")
    case (Inl err)
    then show ?thesis using valid by (intro kept) (simp add: pruneVisit_def Let_def)
  next
    case (Inr r)
    obtain c ex where r: "r = (c, ex)" by (cases r)
    have at: "ex \<Longrightarrow> claimAt d e = Some c" using read_presence_claim Inr r by blast
    consider "\<not> ex \<or> LeaseID c = [] \<or> claimPruneEligible rg bound c now age \<noteq> Inr True \<or> dryRun"
      | "ex" "LeaseID c \<noteq> []" "claimPruneEligible rg bound c now age = Inr True" "\<not> dryRun" by blast
    then show ?thesis
    proof cases
      case 1
      then show ?thesis using valid Inr r
        by (intro kept) (auto simp: pruneVisit_def Let_def split: sum.splits bool.splits)
    next
      case 2
      then show ?thesis using valid Inr r at
        by (intro tried) (auto simp: pruneVisit_def Let_def)
    qed
  qed
qed

text \<open>C32: Pruning removes a claim file only when the claim that is in the file at the moment of the
  removal, under its lock, was judged stale: whatever other processes do between the reading of the
  file and its removal, the visit leaves the directory as those processes left it, or it deletes one
  file whose current claim has no static host, no fixed create intent, no checkpoint and no
  registration, belongs to a provider with an expiry bound, and has been unused for longer than both
  the age and the bound. Every other claim stays. A dry run removes nothing.\<close>

theorem prune_removes_only_stale_claims:
  fixes rg bound now age dryRun env between e d out
  defines "d' \<equiv> fst (pruneVisit rg bound now age dryRun env between e (d, out))"
  shows "d' = d \<or> d' = between d
     \<or> (\<not> dryRun \<and> (\<forall>other. claimAt d' other = (if other = e then None else claimAt (between d) other))
        \<and> (\<exists>c p used. claimAt (between d) e = Some c
             \<and> StaticHost c = [] \<and> FixedIntent c = None \<and> CheckpointCapture c = None
             \<and> RuntimeAdapterPendingRegistrationID c = [] \<and> RuntimeAdapterRegistrationID c = []
             \<and> CoordinatorRegistrationURL c = []
             \<and> ProviderFor rg (Provider c) = Some p \<and> 0 < bound p
             \<and> time_parse (lastUse c) = Some used \<and> used < now - age \<and> used + bound p < now))"
proof (rule pruneVisit_cases [of rg bound now age dryRun env between e d out])
  assume "fst (pruneVisit rg bound now age dryRun env between e (d, out)) = d"
  then show ?thesis by (simp add: d'_def)
next
  fix c
  assume "\<not> dryRun" and el: "claimPruneEligible rg bound c now age = Inr True"
    and "fst (pruneVisit rg bound now age dryRun env between e (d, out))
         = tr_Dir (cleanupLeaseClaimIfUnchangedAfter e c True None env (between d))"
  then show ?thesis
    using cleanup_removes [of e c env "between d"] pruneEligible_plain [OF el]
    by (cases "d' = between d") (auto simp: d'_def claimAt_dirDelete)
qed

end
