(* ===== verification/FixedTx.thy ===== *)
theory FixedTx
  imports ClaimResolve
begin

text \<open>
  The transaction of a fixed lease (\<open>internal/cli/fixed_lease_protocol.go\<close> and the first half of
  \<open>internal/cli/fixed_lease_engine.go\<close>): the durable claim lock and its \<open>persist\<close>, admission, the
  attempt plan, resource bindings, the journal and the settlement of rejections.

  \<^item> \<open>lockState\<close> is what \<open>WithDurableLeaseClaimLock\<close> gives its action: the claim in memory, the
    claims directory, and a supply of the random revisions and write outcomes of successive
    \<open>persist\<close> calls. \<open>lk_Trace\<close> is not in the code: it records, in order, every change of the claim
    file (a removal with the error that was settled by it), every native submission and deletion with
    the file as it was at that moment, and the answer of a native deletion. What a crash leaves behind
    is the claim file at some point of the trace.
  \<^item> \<open>FixedTransaction\<close> has the fields of the code; \<open>ft_Lock\<close> holds \<open>*tx.Claim\<close> and what
    \<open>tx.persist\<close> works on. \<open>tx.now()\<close> is an argument of the operations that read the clock, as each
    reads it at most once.
  \<^item> Payloads in JSON are read and written by a \<open>jsonCodec\<close> that stands for \<open>encoding/json\<close> on
    objects of raw messages and on strings; \<open>rand\<close> is the supply \<open>planEnv\<close>.
\<close>

section \<open>The durable claim lock\<close>

record persistIO =
  pi_Random :: "string res"
  pi_Write :: writeOutcome

datatype event =
    OnDisk leaseClaim
  | Removed gerr
  | Submit "leaseClaim option"
  | Delete "leaseClaim option"
  | Answered "gerr option"

record lockState =
  lk_LeaseID :: string
  lk_Claim :: leaseClaim
  lk_Exists :: bool
  lk_Dir :: claimsDir
  lk_IO :: "nat \<Rightarrow> persistIO"
  lk_N :: nat
  lk_Trace :: "event list"

definition lk_Disk :: "lockState \<Rightarrow> leaseClaim option" where
  "lk_Disk l = claimAt (lk_Dir l) (lk_LeaseID l)"

definition noteEvent :: "(leaseClaim option \<Rightarrow> event) \<Rightarrow> lockState \<Rightarrow> lockState" where
  "noteEvent ev l = l\<lparr>lk_Trace := lk_Trace l @ [ev (lk_Disk l)]\<rparr>"

definition bindCapture :: "leaseClaim \<Rightarrow> leaseClaim" where
  "bindCapture c =
     (case CheckpointCapture c of
        Some b \<Rightarrow> if cc_BoundRevision b = [] then c\<lparr>CheckpointCapture := Some (b\<lparr>cc_BoundRevision := Revision c\<rparr>)\<rparr> else c
      | None \<Rightarrow> c)"

definition persist :: "lockState \<Rightarrow> lockState \<times> gerr option" where
  "persist l =
     (let c = lk_Claim l;
          c1 = (if LeaseID c = [] then c\<lparr>LeaseID := lk_LeaseID l\<rparr> else c);
          io = lk_IO l (lk_N l);
          l1 = l\<lparr>lk_Claim := c1\<rparr>
      in if LeaseID c1 \<noteq> lk_LeaseID l then (l1, Some (Fail ''invalid lease claim id''))
         else (case pi_Random io of
                 Inl e \<Rightarrow> (l1\<lparr>lk_N := Suc (lk_N l)\<rparr>, Some e)
               | Inr r \<Rightarrow>
                   (let c2 = bindCapture (c1\<lparr>Revision := r\<rparr>);
                        (d, err) = writeLeaseClaimAtomic (pi_Write io) (claimFile (lk_LeaseID l)) c2 (lk_Dir l)
                    in (l\<lparr>lk_Claim := c2, lk_Dir := d, lk_N := Suc (lk_N l),
                          lk_Exists := (lk_Exists l \<or> err = None),
                          lk_Trace := lk_Trace l @ (case pi_Write io of WriteFails e \<Rightarrow> [] | _ \<Rightarrow> [OnDisk c2])\<rparr>, err))))"

record lockEnv =
  le_StateDirErr :: "gerr option"
  le_NearestErr :: "gerr option"
  le_MkdirErr :: "gerr option"
  le_LockErr :: "gerr option"
  le_IO :: "nat \<Rightarrow> persistIO"

definition WithDurableLeaseClaimLockContext ::
  "string \<Rightarrow> lockEnv \<Rightarrow> (lockState, 'a) proc \<Rightarrow> claimsDir \<Rightarrow> claimsDir \<times> event list \<times> 'a res" where
  "WithDurableLeaseClaimLockContext leaseID env action d =
     (case leaseClaimPath (le_StateDirErr env) leaseID of
        Inl e \<Rightarrow> (d, [], Inl e)
      | Inr path \<Rightarrow>
          (case le_NearestErr env of
             Some e \<Rightarrow> (d, [], Inl e)
           | None \<Rightarrow>
          (case le_MkdirErr env of
             Some e \<Rightarrow> (d, [], Inl (Exit 2 ''create claim directory''))
           | None \<Rightarrow>
          (case le_LockErr env of
             Some e \<Rightarrow> (d, [], Inl e)
           | None \<Rightarrow>
               (case readLeaseClaimPathWithPresence d path of
                  Inl e \<Rightarrow> (d, [], Inl e)
                | Inr (c, exists) \<Rightarrow>
                    (case validateLeaseClaimFileIdentity leaseID c exists of
                       Some e \<Rightarrow> (d, [], Inl e)
                     | None \<Rightarrow>
                         (case action \<lparr>lk_LeaseID = leaseID, lk_Claim = c, lk_Exists = exists, lk_Dir = d,
                                 lk_IO = le_IO env, lk_N = 0, lk_Trace = []\<rparr> of
                            (l, r) \<Rightarrow> (lk_Dir l, lk_Trace l, r))))))))"

section \<open>Admission\<close>

record FixedKeyedRetry =
  kr_AttemptKey :: string
  kr_Window :: int

record FixedAdmission =
  fa_KeyedRetry :: "FixedKeyedRetry option"
  fa_FreshOnly :: bool
  fa_RepeatSameIdentity :: bool
  fa_PendingKey :: string
  fa_PendingValue :: string
  fa_SubmittedValue :: string

record FixedTransaction =
  ft_failedSet :: "string list option"
  ft_createLabels :: labels
  ft_Lock :: lockState
  ft_fresh :: bool
  ft_initialUnallocated :: bool
  ft_initial :: FixedCreateIntent
  ft_cloudID :: string
  ft_immutableID :: string
  ft_leaseID :: string
  ft_provider :: string
  ft_attempt :: "labels option"
  ft_failures :: "string list"
  ft_persist :: "lockState \<Rightarrow> lockState \<times> gerr option"
  ft_admission :: "FixedAdmission option"

abbreviation ft_Claim :: "FixedTransaction \<Rightarrow> leaseClaim" where
  "ft_Claim tx \<equiv> lk_Claim (ft_Lock tx)"

abbreviation ft_intent :: "FixedTransaction \<Rightarrow> FixedCreateIntent" where
  "ft_intent tx \<equiv> the (FixedIntent (ft_Claim tx))"

definition setClaim :: "leaseClaim \<Rightarrow> FixedTransaction \<Rightarrow> FixedTransaction" where
  "setClaim c tx = tx\<lparr>ft_Lock := (ft_Lock tx)\<lparr>lk_Claim := c\<rparr>\<rparr>"

definition setIntent :: "FixedCreateIntent \<Rightarrow> FixedTransaction \<Rightarrow> FixedTransaction" where
  "setIntent i tx = setClaim ((ft_Claim tx)\<lparr>FixedIntent := Some i\<rparr>) tx"

text \<open>The entries of an attempt; \<open>nil\<close> and the empty map have none, and a missing key reads as \<open>""\<close>.\<close>

definition attemptMap :: "FixedCreateIntent \<Rightarrow> labels" where
  "attemptMap i = (case fi_Attempt i of None \<Rightarrow> fmempty | Some m \<Rightarrow> m)"

definition attemptValue :: "FixedCreateIntent \<Rightarrow> string \<Rightarrow> string" where
  "attemptValue i k = label (attemptMap i) k"

definition noAttempt :: "FixedCreateIntent \<Rightarrow> bool" where
  "noAttempt i \<longleftrightarrow> attemptMap i = fmempty"

definition unboundClaim :: "leaseClaim \<Rightarrow> bool" where
  "unboundClaim c \<longleftrightarrow> CloudID c = [] \<and> CloudNumericID c = 0 \<and> CloudImmutableID c = []"

definition newFixedTransaction ::
  "lockState \<Rightarrow> bool \<Rightarrow> (lockState \<Rightarrow> lockState \<times> gerr option) \<Rightarrow> FixedTransaction res" where
  "newFixedTransaction l fresh pst =
     (let c = lk_Claim l in
      case validateFixedJournal (FixedIntent c) of
        Some e \<Rightarrow> Inl e
      | None \<Rightarrow>
          (let i = the (FixedIntent c) in
           Inr \<lparr>ft_failedSet = None, ft_createLabels = fmempty, ft_Lock = l, ft_fresh = fresh,
             ft_initialUnallocated = (fi_State i = ''prepared'' \<and> noAttempt i \<and> unboundClaim c),
             ft_initial = i, ft_cloudID = CloudID c, ft_immutableID = CloudImmutableID c,
             ft_leaseID = LeaseID c, ft_provider = Provider c, ft_attempt = fi_Attempt i,
             ft_failures = fi_FailedAttempts i, ft_persist = pst, ft_admission = None\<rparr>))"

definition permits :: "FixedAdmission \<Rightarrow> int \<Rightarrow> FixedTransaction \<Rightarrow> bool" where
  "permits p now tx =
     (case fa_KeyedRetry p of
        Some retry \<Rightarrow>
          if \<not> fa_FreshOnly p \<or> fa_RepeatSameIdentity p \<or> kr_AttemptKey retry = [] \<or> kr_Window retry \<le> 0 then False
          else if ft_fresh tx \<and> noAttempt (ft_intent tx) then True
          else (case fi_Journal (ft_intent tx) of
                  None \<Rightarrow> False
                | Some j \<Rightarrow>
                    (case fj_Submission j of
                       None \<Rightarrow> False
                     | Some s \<Rightarrow>
                         if ks_Count s \<noteq> 1 \<or> ks_Key s \<noteq> attemptValue (ft_intent tx) (kr_AttemptKey retry) then False
                         else (case time_parse (ks_FirstSubmittedAt s) of
                                 None \<Rightarrow> False
                               | Some first \<Rightarrow> first \<le> now \<and> now < first + kr_Window retry)))
      | None \<Rightarrow>
          if fa_RepeatSameIdentity p then True
          else if fa_FreshOnly p then ft_fresh tx \<and> noAttempt (ft_intent tx)
          else noAttempt (ft_intent tx)
               \<or> (fa_PendingKey p \<noteq> [] \<and> attemptValue (ft_intent tx) (fa_PendingKey p) = fa_PendingValue p))"

section \<open>The journal\<close>

definition intentChanged :: "FixedTransaction \<Rightarrow> bool" where
  "intentChanged tx \<longleftrightarrow>
     (let c = ft_Claim tx; i0 = ft_initial tx in
      LeaseID c \<noteq> ft_leaseID tx \<or> Provider c \<noteq> ft_provider tx \<or> Slug c \<noteq> fi_Slug i0
      \<or> (case FixedIntent c of
           None \<Rightarrow> True
         | Some i \<Rightarrow> fi_Version i \<noteq> fi_Version i0 \<or> fi_Fingerprint i \<noteq> fi_Fingerprint i0
             \<or> fi_ProviderScope i \<noteq> fi_ProviderScope i0 \<or> fi_CheckpointID i \<noteq> fi_CheckpointID i0
             \<or> fi_Slug i \<noteq> fi_Slug i0 \<or> fi_CreatedAt i \<noteq> fi_CreatedAt i0 \<or> fi_Retention i \<noteq> fi_Retention i0))"

definition nextJournal :: "string \<Rightarrow> FixedTransaction \<Rightarrow> FixedCreateIntent \<Rightarrow> FixedLeaseJournal" where
  "nextJournal phase tx i =
     (case fi_Journal i of
        None \<Rightarrow> \<lparr>fj_Retention = None, fj_Version = 1, fj_Phase = phase, fj_Revision = 1, fj_Submission = None\<rparr>
      | Some j \<Rightarrow>
          \<lparr>fj_Retention = fj_Retention j, fj_Version = fj_Version j, fj_Phase = phase,
           fj_Revision = (if fj_Phase j \<noteq> phase
                \<or> attemptMap i \<noteq> (case ft_attempt tx of None \<Rightarrow> fmempty | Some m \<Rightarrow> m)
                \<or> fi_FailedAttempts i \<noteq> ft_failures tx then fj_Revision j + 1 else fj_Revision j),
           fj_Submission = fj_Submission j\<rparr>)"

definition recordRefused :: "string \<Rightarrow> FixedTransaction \<Rightarrow> gerr option" where
  "recordRefused phase tx =
     (let c = ft_Claim tx; i = ft_intent tx in
      if intentChanged tx then Some (Exit 4 ''lease_id_conflict: fixed intent changed during transaction'')
      else (case validateFixedJournal (FixedIntent c) of
              Some e \<Rightarrow> Some e
            | None \<Rightarrow>
                if phase = ''submitting'' \<and> (fi_State i \<noteq> ''prepared'' \<or> noAttempt i)
                then Some (Exit 4 ''lease_id_conflict: submission has no prepared native attempt'')
                else if (ft_cloudID tx \<noteq> [] \<and> CloudID c \<noteq> ft_cloudID tx)
                     \<or> (ft_immutableID tx \<noteq> [] \<and> CloudImmutableID c \<noteq> ft_immutableID tx)
                then Some (Exit 4 ''lease_id_conflict: bound fixed resource identity changed during transaction'')
                else None))"

definition recordedIntent :: "string \<Rightarrow> FixedTransaction \<Rightarrow> FixedCreateIntent" where
  "recordedIntent phase tx =
     (let i = ft_intent tx in
      i\<lparr>fi_Journal := Some (nextJournal (if fi_State i = ''acquired'' \<and> phase = ''bound'' then ''acquired'' else phase) tx i)\<rparr>)"

definition recordJournal :: "FixedCreateIntent \<Rightarrow> FixedTransaction \<Rightarrow> FixedTransaction \<times> gerr option" where
  "recordJournal i tx =
     (let tx1 = setIntent i tx in
      case validateFixedJournal (Some i) of
        Some e \<Rightarrow> (tx1, Some e)
      | None \<Rightarrow>
          (case ft_persist tx (ft_Lock tx1) of
             (l, Some e) \<Rightarrow> (tx1\<lparr>ft_Lock := l\<rparr>, Some e)
           | (l, None) \<Rightarrow>
               (tx1\<lparr>ft_Lock := l, ft_cloudID := CloudID (lk_Claim l), ft_immutableID := CloudImmutableID (lk_Claim l),
                    ft_attempt := fi_Attempt i, ft_failures := fi_FailedAttempts i\<rparr>, None)))"

definition Record :: "string \<Rightarrow> FixedTransaction \<Rightarrow> FixedTransaction \<times> gerr option" where
  "Record phase tx =
     (case recordRefused phase tx of
        Some e \<Rightarrow> (tx, Some e)
      | None \<Rightarrow> recordJournal (recordedIntent phase tx) tx)"

definition PersistDeletionEvidence :: "FixedTransaction \<Rightarrow> FixedTransaction \<times> gerr option" where
  "PersistDeletionEvidence = Record ''deleting''"

section \<open>Resource bindings\<close>

record jsonCodec =
  js_Object :: "string \<Rightarrow> labels res"
  js_String :: "string \<Rightarrow> string option"
  js_Quote :: "string \<Rightarrow> string"
  js_Encode :: "labels \<Rightarrow> string res"

record FixedResourceBinding =
  fb_ImageEvidence :: "opaque option"
  fb_SSH :: "SSHTarget option"
  fb_AttemptJSONKey :: string
  fb_OnlyUnbound :: bool
  fb_FingerprintLabel :: string
  fb_CloudID :: string
  fb_ImmutableID :: string
  fb_NumericID :: int
  fb_AttemptIdentityKey :: string
  fb_AttemptValues :: labels
  fb_Labels :: "labels option"
  fb_ProviderScope :: string

definition noBinding :: FixedResourceBinding where
  "noBinding = \<lparr>fb_ImageEvidence = None, fb_SSH = None, fb_AttemptJSONKey = [], fb_OnlyUnbound = False,
     fb_FingerprintLabel = [], fb_CloudID = [], fb_ImmutableID = [], fb_NumericID = 0, fb_AttemptIdentityKey = [],
     fb_AttemptValues = fmempty, fb_Labels = None, fb_ProviderScope = []\<rparr>"

definition identityConflict :: "FixedResourceBinding \<Rightarrow> leaseClaim \<Rightarrow> bool" where
  "identityConflict b c \<longleftrightarrow>
     (fb_CloudID b \<noteq> [] \<and> CloudID c \<noteq> [] \<and> CloudID c \<noteq> fb_CloudID b)
     \<or> (fb_ImmutableID b \<noteq> [] \<and> CloudImmutableID c \<noteq> [] \<and> CloudImmutableID c \<noteq> fb_ImmutableID b)
     \<or> (fb_NumericID b \<noteq> 0 \<and> CloudNumericID c \<noteq> 0 \<and> CloudNumericID c \<noteq> fb_NumericID b)"

definition bindingValues :: "FixedResourceBinding \<Rightarrow> labels res" where
  "bindingValues b =
     (if fb_AttemptIdentityKey b \<noteq> [] then
        if fb_CloudID b = [] then Inl (Exit 4 ''lease_id_conflict: returned no resource identity; claim retained'')
        else Inr (fmupd (fb_AttemptIdentityKey b) (fb_CloudID b) (fb_AttemptValues b))
      else Inr (fb_AttemptValues b))"

text \<open>The raw payload of the attempt and the string values in it.\<close>

definition bindingPayload :: "jsonCodec \<Rightarrow> FixedResourceBinding \<Rightarrow> FixedCreateIntent \<Rightarrow> (labels \<times> labels) res" where
  "bindingPayload js b i =
     (if fb_AttemptJSONKey b \<noteq> [] then
        (case js_Object js (attemptValue i (fb_AttemptJSONKey b)) of
           Inl e \<Rightarrow> Inl (Exit 4 ''lease_id_conflict: invalid fixed attempt payload'')
         | Inr payload \<Rightarrow> Inr (payload, fmmap (\<lambda>d. case js_String js d of Some v \<Rightarrow> v | None \<Rightarrow> []) payload))
      else Inr (fmempty, attemptMap i))"

definition attemptConflict :: "labels \<Rightarrow> labels \<Rightarrow> bool" where
  "attemptConflict values attempt \<longleftrightarrow>
     \<not> fmpred (\<lambda>k v. label attempt k = [] \<or> label attempt k = v) values"

definition bindIdentity :: "FixedResourceBinding \<Rightarrow> leaseClaim \<Rightarrow> leaseClaim" where
  "bindIdentity b c = SetLeaseClaimResourceIdentity c
     (if fb_CloudID b \<noteq> [] then fb_CloudID b else CloudID c)
     (if fb_NumericID b \<noteq> 0 then fb_NumericID b else CloudNumericID c)
     (if fb_ImmutableID b \<noteq> [] then fb_ImmutableID b else CloudImmutableID c) (fb_ImageEvidence b)"

definition bindSSH :: "FixedResourceBinding \<Rightarrow> leaseClaim \<Rightarrow> leaseClaim" where
  "bindSSH b c =
     (case fb_SSH b of
        None \<Rightarrow> c
      | Some t \<Rightarrow> c\<lparr>SSHHost := tg_Host t,
          SSHPort := (case Atoi (TrimSpace (tg_Port t)) of Some p \<Rightarrow> if 0 < p then p else SSHPort c | None \<Rightarrow> SSHPort c)\<rparr>)"

definition bindAttempt :: "jsonCodec \<Rightarrow> FixedResourceBinding \<Rightarrow> labels \<Rightarrow> labels \<Rightarrow> FixedCreateIntent \<Rightarrow> FixedCreateIntent res" where
  "bindAttempt js b values payload i =
     (if values = fmempty then Inr i
      else if fb_AttemptJSONKey b \<noteq> [] then
        (case js_Encode js (payload ++\<^sub>f fmmap (js_Quote js) values) of
           Inl e \<Rightarrow> Inl e
         | Inr data \<Rightarrow> Inr (i\<lparr>fi_Attempt := Some (fmupd (fb_AttemptJSONKey b) data (attemptMap i))\<rparr>))
      else Inr (i\<lparr>fi_Attempt := Some (attemptMap i ++\<^sub>f values)\<rparr>))"

definition bindLabels :: "FixedResourceBinding \<Rightarrow> leaseClaim \<Rightarrow> leaseClaim" where
  "bindLabels b c =
     (let ls = (case fb_Labels b of Some l \<Rightarrow> l | None \<Rightarrow> Labels c);
          ls1 = (if fb_FingerprintLabel b \<noteq> []
                 then fmupd (fb_FingerprintLabel b) (fi_Fingerprint (the (FixedIntent c))) ls else ls)
      in c\<lparr>Labels := ls1, ProviderScope := (if fb_ProviderScope b \<noteq> [] then fb_ProviderScope b else ProviderScope c)\<rparr>)"

definition applyBinding :: "jsonCodec \<Rightarrow> FixedResourceBinding \<Rightarrow> leaseClaim \<Rightarrow> leaseClaim \<times> gerr option" where
  "applyBinding js b c =
     (if fb_OnlyUnbound b \<and> CloudID c \<noteq> [] then (c, None)
      else if identityConflict b c then (c, Some (Exit 4 ''lease_id_conflict: resource identity changed''))
      else (case bindingValues b of
              Inl e \<Rightarrow> (c, Some e)
            | Inr values \<Rightarrow>
                (case bindingPayload js b (the (FixedIntent c)) of
                   Inl e \<Rightarrow> (c, Some e)
                 | Inr (payload, attempt) \<Rightarrow>
                     if attemptConflict values attempt then (c, Some (Exit 4 ''lease_id_conflict: attempt changed''))
                     else (let c1 = bindSSH b (bindIdentity b c) in
                           case bindAttempt js b values payload (the (FixedIntent c1)) of
                             Inl e \<Rightarrow> (c1, Some e)
                           | Inr i \<Rightarrow> (bindLabels b (c1\<lparr>FixedIntent := Some i\<rparr>), None)))))"

definition applyBindingTx :: "jsonCodec \<Rightarrow> FixedResourceBinding \<Rightarrow> FixedTransaction \<Rightarrow> FixedTransaction \<times> gerr option" where
  "applyBindingTx js b tx = (case applyBinding js b (ft_Claim tx) of (c, err) \<Rightarrow> (setClaim c tx, err))"

definition BindTx :: "jsonCodec \<Rightarrow> FixedResourceBinding \<Rightarrow> FixedTransaction \<Rightarrow> FixedTransaction \<times> gerr option" where
  "BindTx js b tx =
     (if fb_OnlyUnbound b \<and> CloudID (ft_Claim tx) \<noteq> [] then (tx, None)
      else (case applyBindingTx js b tx of
              (tx1, Some e) \<Rightarrow> (tx1, Some e)
            | (tx1, None) \<Rightarrow> Record ''bound'' tx1))"

definition Observe :: "jsonCodec \<Rightarrow> FixedResourceBinding \<Rightarrow> FixedTransaction \<Rightarrow> FixedTransaction \<times> gerr option" where
  "Observe js b tx =
     (case applyBindingTx js b tx of
        (tx1, Some e) \<Rightarrow> (tx1, Some e)
      | (tx1, None) \<Rightarrow> Record ''observed'' tx1)"

definition BindFixedClaim ::
  "jsonCodec \<Rightarrow> FixedResourceBinding \<Rightarrow> (lockState \<Rightarrow> lockState \<times> gerr option) \<Rightarrow> lockState \<Rightarrow> lockState \<times> gerr option" where
  "BindFixedClaim js b pst l =
     (if fb_OnlyUnbound b \<and> CloudID (lk_Claim l) \<noteq> [] then (l, None)
      else (case newFixedTransaction l False pst of
              Inl e \<Rightarrow> (l, Some e)
            | Inr tx \<Rightarrow>
                (case applyBindingTx js b tx of
                   (tx1, Some e) \<Rightarrow> (ft_Lock tx1, Some e)
                 | (tx1, None) \<Rightarrow> pst (ft_Lock tx1))))"

section \<open>The attempt plan\<close>

record FixedDirectLabels =
  fd_Config :: labelConfig
  fd_Durations :: leaseDurations
  fd_Provider :: string
  fd_Market :: string
  fd_Keep :: bool
  fd_Now :: "int option"

text \<open>\<open>pl_Payload\<close> is what \<open>json.Marshal(plan.Payload)\<close> gives.\<close>

record FixedAttemptPlan =
  pl_OwnerLabel :: string
  pl_PrivateLabels :: labels
  pl_UniqueProviders :: "string list"
  pl_AttemptLabels :: labels
  pl_JSONKey :: string
  pl_Payload :: "string res"
  pl_NonceBytes :: int
  pl_Values :: labels
  pl_NonceKey :: string
  pl_LowerNonce :: bool
  pl_NoncePrefix :: string
  pl_Labels :: labels
  pl_DirectLabels :: "FixedDirectLabels option"
  pl_FingerprintLabel :: string
  pl_NonceLabel :: string
  pl_Identity :: FixedResourceBinding

record planEnv =
  pe_Text :: string
  pe_Read :: "nat \<Rightarrow> bytes res"
  pe_Scan :: scanEnv

definition hexEncode :: "bytes \<Rightarrow> string" where
  "hexEncode bs = concat (map (\<lambda>b. hex_fixed 2 (unat b)) bs)"

definition planNonce :: "planEnv \<Rightarrow> FixedAttemptPlan \<Rightarrow> labels res" where
  "planNonce env p =
     (if pl_NonceKey p = [] then Inr (pl_Values p)
      else (case (if 0 < pl_NonceBytes p
                  then (case pe_Read env (nat (pl_NonceBytes p)) of Inl e \<Rightarrow> Inl e | Inr bs \<Rightarrow> Inr (hexEncode bs))
                  else Inr (pe_Text env)) of
              Inl e \<Rightarrow> Inl e
            | Inr n \<Rightarrow>
                Inr (fmupd (pl_NonceKey p) (pl_NoncePrefix p @ (if pl_LowerNonce p then ToLower n else n)) (pl_Values p))))"

definition planAttempt :: "jsonCodec \<Rightarrow> FixedAttemptPlan \<Rightarrow> labels \<Rightarrow> labels res" where
  "planAttempt js p attempt =
     (if pl_JSONKey p = [] then Inr attempt
      else (case pl_Payload p of
              Inl e \<Rightarrow> Inl e
            | Inr data \<Rightarrow>
                (case js_Object js data of
                   Inl e \<Rightarrow> Inl e
                 | Inr flds \<Rightarrow>
                     (case js_Encode js (flds ++\<^sub>f fmmap (js_Quote js) attempt) of
                        Inl e \<Rightarrow> Inl e
                      | Inr text \<Rightarrow> Inr (fmupd (pl_JSONKey p) text fmempty)))))"

text \<open>The zero \<open>time.Time\<close>, in nanoseconds of the Unix epoch.\<close>

definition zero_time :: int where
  "zero_time = - 62135596800 * second"

definition planLabels :: "FixedAttemptPlan \<Rightarrow> labels \<Rightarrow> leaseClaim \<Rightarrow> labels" where
  "planLabels p attempt c =
     (let i = the (FixedIntent c);
          l0 = (case pl_DirectLabels p of
                  None \<Rightarrow> pl_Labels p
                | Some d \<Rightarrow>
                    DirectLeaseLabels (fd_Config d) (fd_Durations d) (LeaseID c) (Slug c) (fd_Provider d) (fd_Market d)
                      (fd_Keep d)
                      (case fd_Now d of
                         Some t \<Rightarrow> t
                       | None \<Rightarrow> (case time_parse (fi_CreatedAt i) of Some t \<Rightarrow> t | None \<Rightarrow> zero_time))
                    ++\<^sub>f pl_Labels p);
          l1 = (if pl_OwnerLabel p \<noteq> [] then fmupd (pl_OwnerLabel p) (Provider c) l0 else l0);
          l2 = (if pl_FingerprintLabel p \<noteq> [] then fmupd (pl_FingerprintLabel p) (fi_Fingerprint i) l1 else l1);
          l3 = (if pl_NonceLabel p \<noteq> [] then fmupd (pl_NonceLabel p) (label attempt (pl_NonceKey p)) l2 else l2)
      in l3 ++\<^sub>f fmmap (label attempt) (pl_AttemptLabels p))"

definition planTx ::
  "jsonCodec \<Rightarrow> planEnv \<Rightarrow> FixedAttemptPlan \<Rightarrow> FixedTransaction \<Rightarrow> FixedTransaction \<times> gerr option" where
  "planTx js env p tx =
     (if \<not> noAttempt (ft_intent tx) then (tx, None)
      else (case planNonce env p of
              Inl e \<Rightarrow> (tx, Some e)
            | Inr attempt \<Rightarrow>
                (case planAttempt js p attempt of
                   Inl e \<Rightarrow> (tx, Some e)
                 | Inr stored \<Rightarrow>
                     (let tx1 = setIntent ((ft_intent tx)\<lparr>fi_Attempt := Some stored\<rparr>) tx;
                          ls = planLabels p attempt (ft_Claim tx1);
                          all = ls ++\<^sub>f pl_PrivateLabels p;
                          tx2 = tx1\<lparr>ft_createLabels := ls\<rparr>;
                          tx3 = (if all \<noteq> fmempty then setClaim ((ft_Claim tx2)\<lparr>Labels := all\<rparr>) tx2 else tx2)
                      in case applyBindingTx js (pl_Identity p) tx3 of
                           (tx4, Some e) \<Rightarrow> (tx4, Some e)
                         | (tx4, None) \<Rightarrow>
                             if pl_UniqueProviders p = [] then (tx4, None)
                             else (tx4, ValidateFixedLocalClaimUniqueness (pe_Scan env) (lk_Dir (ft_Lock tx4))
                                     \<lparr>fk_RemoveKeyAfterRejection = False, fk_ClaimProvider = Provider (ft_Claim tx4),
                                      fk_IntentVersion = 0, fk_Label = [], fk_DeletionState = [],
                                      fk_AfterTerminal = None, fk_TerminalIdentityLabels = []\<rparr>
                                     (ft_Claim tx4) (pl_UniqueProviders p))))))"

section \<open>Admission of a submission\<close>

definition FixedUncertainCustody :: gerr where
  "FixedUncertainCustody = Exit 4 ''lease_id_conflict: unresolved or unattested creation attempt; no replacement allocated''"

definition keyedSubmission ::
  "FixedAdmission \<Rightarrow> FixedKeyedRetry \<Rightarrow> int \<Rightarrow> FixedTransaction \<Rightarrow> FixedKeyedSubmission res" where
  "keyedSubmission p retry now tx =
     (let i = ft_intent tx; key = attemptValue i (kr_AttemptKey retry) in
      if key = [] then Inl FixedUncertainCustody
      else (case fi_Journal i of
              None \<Rightarrow> Inl (Fail ''panic: nil journal'')
            | Some j \<Rightarrow>
                (case fj_Submission j of
                   None \<Rightarrow>
                     if \<not> ft_fresh tx then Inl FixedUncertainCustody
                     else Inr \<lparr>ks_Key = key, ks_FirstSubmittedAt = fmt_RFC3339Nano now, ks_Count = 1\<rparr>
                 | Some s \<Rightarrow>
                     if \<not> permits p now tx then Inl FixedUncertainCustody
                     else Inr (s\<lparr>ks_Count := ks_Count s + 1\<rparr>))))"

definition admitKeyed :: "int \<Rightarrow> FixedTransaction \<Rightarrow> FixedTransaction res" where
  "admitKeyed now tx =
     (case ft_admission tx of
        None \<Rightarrow> Inr tx
      | Some p \<Rightarrow>
          (case fa_KeyedRetry p of
             None \<Rightarrow> Inr tx
           | Some retry \<Rightarrow>
               (case keyedSubmission p retry now tx of
                  Inl e \<Rightarrow> Inl e
                | Inr s \<Rightarrow>
                    Inr (setIntent ((ft_intent tx)\<lparr>fi_Journal :=
                      Some ((the (fi_Journal (ft_intent tx)))\<lparr>fj_Submission := Some s\<rparr>)\<rparr>) tx))))"

definition admitPending :: "FixedTransaction \<Rightarrow> FixedTransaction res" where
  "admitPending tx =
     (case ft_admission tx of
        None \<Rightarrow> Inr tx
      | Some p \<Rightarrow>
          if fa_PendingKey p = [] then Inr tx
          else (case fi_Attempt (ft_intent tx) of
                  None \<Rightarrow> Inl (Fail ''panic: assignment to entry in nil map'')
                | Some m \<Rightarrow> Inr (setIntent ((ft_intent tx)\<lparr>fi_Attempt :=
                              Some (fmupd (fa_PendingKey p) (fa_SubmittedValue p) m)\<rparr>) tx)))"

definition Admit :: "int \<Rightarrow> FixedTransaction \<Rightarrow> FixedTransaction \<times> gerr option" where
  "Admit now tx =
     (case admitKeyed now tx of
        Inl e \<Rightarrow> (tx, Some e)
      | Inr tx1 \<Rightarrow> (case admitPending tx1 of
                      Inl e \<Rightarrow> (tx1, Some e)
                    | Inr tx2 \<Rightarrow> Record ''submitting'' tx2))"

section \<open>Rejections\<close>

definition CanSettleCreateRejection :: "FixedLeaseKind \<Rightarrow> FixedTransaction \<Rightarrow> bool" where
  "CanSettleCreateRejection k tx \<longleftrightarrow>
     IsFixedClaim k (ft_Claim tx) \<and> ft_initialUnallocated tx \<and> fi_State (ft_intent tx) = ''prepared''
     \<and> CloudImmutableID (ft_Claim tx) = []
     \<and> (case fi_Journal (ft_intent tx) of
          None \<Rightarrow> False | Some j \<Rightarrow> fj_Phase j = ''prepared'' \<or> fj_Phase j = ''submitting'')"

text \<open>What the file system does to a settlement, and the outcome of removing the stored key.
  \<open>se_Rejected\<close> says whether the cause is a certified rejection (\<open>errors.As\<close>); \<open>se_Settled\<close> is the
  error of its \<open>FixedRejectionSettled\<close> when it has that method, whose one implementation
  (\<open>internal/providers/azure/allocation_result.go\<close>) never returns nil.\<close>

record settleEnv =
  se_StateDirErr :: "gerr option"
  se_RemoveErr :: "gerr option"
  se_SyncErr :: "gerr option"
  se_KeyErr :: "gerr option"
  se_Rejected :: "gerr \<Rightarrow> bool"
  se_Settled :: "gerr \<Rightarrow> gerr option"

definition settleCreateRejection ::
  "FixedLeaseKind \<Rightarrow> settleEnv \<Rightarrow> gerr \<Rightarrow> FixedTransaction \<Rightarrow> FixedTransaction \<times> gerr" where
  "settleCreateRejection k env cause tx =
     (if \<not> se_Rejected env cause then (tx, cause)
      else if \<not> CanSettleCreateRejection k tx then
        (tx, Joined cause (Exit 4 ''lease_id_conflict: rejection cannot settle an earlier or bound fixed attempt''))
      else (case leaseClaimPath (se_StateDirErr env) (ft_leaseID tx) of
              Inl e \<Rightarrow> (tx, Joined cause e)
            | Inr path \<Rightarrow>
                (case se_RemoveErr env of
                   Some e \<Rightarrow> (tx, Joined cause e)
                 | None \<Rightarrow>
                     (let l = ft_Lock tx;
                          tx1 = tx\<lparr>ft_Lock := l\<lparr>lk_Dir := dirDelete path (lk_Dir l), lk_Trace := lk_Trace l @ [Removed cause]\<rparr>\<rparr>
                      in case se_SyncErr env of
                           Some e \<Rightarrow> (tx1, Joined cause e)
                         | None \<Rightarrow>
                             if fk_RemoveKeyAfterRejection k
                             then (tx1, case se_KeyErr env of None \<Rightarrow> cause | Some e \<Rightarrow> Joined cause e)
                             else (tx1, case se_Settled env cause of Some outcome \<Rightarrow> outcome | None \<Rightarrow> cause)))))"

definition FailedAttemptSet :: "FixedTransaction \<Rightarrow> FixedTransaction \<times> string list" where
  "FailedAttemptSet tx =
     (case ft_failedSet tx of
        Some xs \<Rightarrow> (tx, xs)
      | None \<Rightarrow> (tx\<lparr>ft_failedSet := Some (fi_FailedAttempts (ft_intent tx))\<rparr>, fi_FailedAttempts (ft_intent tx)))"

text \<open>A rejected attempt that is not terminal is remembered and cleared, for another one.\<close>

definition rejectForRetry :: "string \<Rightarrow> FixedTransaction \<Rightarrow> FixedTransaction \<times> gerr option" where
  "rejectForRetry token tx =
     (let tx1 = fst (FailedAttemptSet tx); failed = snd (FailedAttemptSet tx);
          i = ft_intent tx1;
          i1 = i\<lparr>fi_FailedAttempts := (if token \<in> set failed then fi_FailedAttempts i else fi_FailedAttempts i @ [token]),
                 fi_Attempt := None\<rparr>
      in case Record ''prepared'' (setIntent i1 tx1) of
           (tx2, Some e) \<Rightarrow> (tx2, Some e)
         | (tx2, None) \<Rightarrow>
             ((fst (FailedAttemptSet tx2))\<lparr>ft_failedSet := Some (token # snd (FailedAttemptSet tx2))\<rparr>, None))"

definition RejectAttempt ::
  "FixedLeaseKind \<Rightarrow> string \<Rightarrow> bool \<Rightarrow> int \<Rightarrow> FixedTransaction \<Rightarrow> FixedTransaction \<times> gerr option" where
  "RejectAttempt k token terminal now tx =
     (if \<not> IsFixedClaim k (ft_Claim tx) \<or> fi_Version (ft_intent tx) \<noteq> fk_IntentVersion k
         \<or> fi_State (ft_intent tx) \<noteq> ''prepared'' \<or> token = [] \<or> \<not> unboundClaim (ft_Claim tx) then
        (tx, Some (Exit 4 ''lease_id_conflict: cannot reject a bound or unidentified fixed attempt''))
      else if terminal then
        (case ft_persist tx ((ft_Lock tx)\<lparr>lk_Claim := TerminalClaim k (ft_Claim tx) now\<rparr>) of
           (l, err) \<Rightarrow> (tx\<lparr>ft_Lock := l\<rparr>, err))
      else rejectForRetry token tx)"

section \<open>Attempts and witnesses written by adapters\<close>

definition WriteFixedAttempt ::
  "string \<Rightarrow> string res \<Rightarrow> (FixedTransaction \<Rightarrow> FixedTransaction \<times> gerr option) \<Rightarrow> FixedTransaction
    \<Rightarrow> FixedTransaction \<times> gerr option" where
  "WriteFixedAttempt key value pst tx =
     (case value of
        Inl e \<Rightarrow> (tx, Some e)
      | Inr data \<Rightarrow> pst (setIntent ((ft_intent tx)\<lparr>fi_Attempt := Some (fmupd key data fmempty)\<rparr>) tx))"

definition RecordFixedWitness ::
  "string \<Rightarrow> string \<Rightarrow> (FixedTransaction \<Rightarrow> FixedTransaction \<times> gerr option) \<Rightarrow> FixedTransaction
    \<Rightarrow> FixedTransaction \<times> gerr option" where
  "RecordFixedWitness key value pst tx =
     (case (case FixedIntent (ft_Claim tx) of None \<Rightarrow> None | Some i \<Rightarrow> fi_Attempt i) of
        None \<Rightarrow> (tx, Some (Exit 4 ''lease_id_conflict: incomplete fixed attempt witness''))
      | Some m \<Rightarrow>
          if key = [] \<or> value = [] then (tx, Some (Exit 4 ''lease_id_conflict: incomplete fixed attempt witness''))
          else if label m key \<noteq> [] \<and> label m key \<noteq> value
          then (tx, Some (Exit 4 ''lease_id_conflict: fixed attempt witness changed''))
          else pst (setIntent ((ft_intent tx)\<lparr>fi_Attempt := Some (fmupd key value m)\<rparr>) tx))"

definition CheckFixedAttemptActive :: "leaseClaim \<Rightarrow> string \<Rightarrow> string list \<Rightarrow> gerr option" where
  "CheckFixedAttemptActive c identityKey cleanupKeys =
     (case FixedIntent c of
        None \<Rightarrow> Some (Exit 4 ''no active create attempt; it cannot allocate a replacement'')
      | Some i \<Rightarrow>
          if fi_State i = ''released'' \<or> attemptValue i identityKey = []
          then Some (Exit 4 ''no active create attempt; it cannot allocate a replacement'')
          else if list_ex (\<lambda>k. attemptValue i k \<noteq> []) cleanupKeys
          then Some (Exit 4 ''entered cleanup and cannot be reused; retry stop'') else None)"

definition FixedPristineRecord :: "leaseClaim \<Rightarrow> FixedLeaseKind \<Rightarrow> string \<Rightarrow> bool" where
  "FixedPristineRecord c k scopePrefix \<longleftrightarrow>
     (case FixedIntent c of
        None \<Rightarrow> False
      | Some i \<Rightarrow>
          IsFixedClaim k c \<and> fi_Version i = fk_IntentVersion k \<and> fi_State i = ''prepared''
          \<and> IsCanonicalLeaseID (LeaseID c) \<and> fi_Slug i \<noteq> [] \<and> Slug c = fi_Slug i \<and> ProviderScope c = fi_ProviderScope i
          \<and> noAttempt i \<and> fi_FailedAttempts i = [] \<and> Labels c = fmempty \<and> unboundClaim c
          \<and> SSHHost c = [] \<and> SSHPort c = 0 \<and> StaticHost c = [] \<and> StaticUser c = [] \<and> StaticPort c = []
          \<and> StaticWorkRoot c = []
          \<and> (case fi_Journal i of None \<Rightarrow> True | Some j \<Rightarrow> fj_Version j = 1 \<and> fj_Revision j \<noteq> 0 \<and> fj_Phase j = ''prepared'')
          \<and> HasPrefix (fi_ProviderScope i) scopePrefix
          \<and> hex_decoded_length (drop (length scopePrefix) (fi_ProviderScope i)) = Some 32
          \<and> hex_decoded_length (fi_Fingerprint i) = Some 32 \<and> time_parse (fi_CreatedAt i) \<noteq> None)"

end
