(* ===== verification/FixedAdapter.thy ===== *)
theory FixedAdapter
  imports FixedTx
begin

text \<open>
  Provider adapters as clients of a transaction. The engine hands an adapter the transaction; the
  adapter reads the claim and calls the exported methods, and what it learns from its cloud decides
  what it calls next. An \<open>adapter\<close> is such a program: a tree of calls whose continuation may depend
  on everything it can read. The calls are \<open>Bind\<close>, \<open>Observe\<close>, \<open>Record\<close>, \<open>Admit\<close>, \<open>RejectAttempt\<close>,
  \<open>PersistDeletionEvidence\<close>, \<open>WriteFixedAttempt(..., tx.Admit)\<close> and
  \<open>RecordFixedWitness(..., tx.PersistDeletionEvidence)\<close>. The transaction also gives the adapter a
  pointer to the claim in memory, so \<open>CallEdit\<close> is an assignment through it (the asciibox provider
  writes labels that way). Any assignment is allowed, except that it cannot set the intent to nil,
  on which the engine would panic. Quantifying over adapters covers every provider under
  \<open>internal/providers\<close> and every answer of its cloud.

  The locale \<open>tx_invariant\<close> is the contract between the two: a reflexive and transitive relation on
  transactions that every allowed call keeps is kept by every adapter that makes only such calls.
\<close>

datatype txCall =
    CallBind FixedResourceBinding
  | CallObserve FixedResourceBinding
  | CallRecord string
  | CallAdmit int
  | CallReject FixedLeaseKind string bool int
  | CallDeletionEvidence
  | CallWriteAttempt string "string res" int
  | CallWitness string string
  | CallEdit "leaseClaim \<Rightarrow> leaseClaim"

datatype 'a adapter =
    Return "'a res"
  | Call txCall "gerr option \<Rightarrow> FixedTransaction \<Rightarrow> 'a adapter"

definition editClaim :: "(leaseClaim \<Rightarrow> leaseClaim) \<Rightarrow> FixedTransaction \<Rightarrow> FixedTransaction" where
  "editClaim f tx =
     (let c = f (ft_Claim tx)
      in setClaim (if FixedIntent c = None then c\<lparr>FixedIntent := FixedIntent (ft_Claim tx)\<rparr> else c) tx)"

fun runCall :: "jsonCodec \<Rightarrow> txCall \<Rightarrow> FixedTransaction \<Rightarrow> FixedTransaction \<times> gerr option" where
  "runCall js (CallBind b) tx = BindTx js b tx"
| "runCall js (CallObserve b) tx = Observe js b tx"
| "runCall js (CallRecord phase) tx = Record phase tx"
| "runCall js (CallAdmit now) tx = Admit now tx"
| "runCall js (CallReject k token terminal now) tx = RejectAttempt k token terminal now tx"
| "runCall js CallDeletionEvidence tx = PersistDeletionEvidence tx"
| "runCall js (CallWriteAttempt key value now) tx = WriteFixedAttempt key value (Admit now) tx"
| "runCall js (CallWitness key value) tx = RecordFixedWitness key value PersistDeletionEvidence tx"
| "runCall js (CallEdit f) tx = (editClaim f tx, None)"

primrec runAdapter :: "jsonCodec \<Rightarrow> 'a adapter \<Rightarrow> FixedTransaction \<Rightarrow> FixedTransaction \<times> 'a res" where
  "runAdapter js (Return r) = (\<lambda>tx. (tx, r))"
| "runAdapter js (Call c k) = (\<lambda>tx. case runCall js c tx of (tx', err) \<Rightarrow> runAdapter js (k err tx') tx')"

primrec callsOnly :: "(txCall \<Rightarrow> bool) \<Rightarrow> 'a adapter \<Rightarrow> bool" where
  "callsOnly allowed (Return r) \<longleftrightarrow> True"
| "callsOnly allowed (Call c k) \<longleftrightarrow> allowed c \<and> (\<forall>err tx. callsOnly allowed (k err tx))"

section \<open>Relations kept by every adapter\<close>

locale tx_invariant =
  fixes js :: jsonCodec
    and allowed :: "txCall \<Rightarrow> bool"
    and R :: "FixedTransaction \<Rightarrow> FixedTransaction \<Rightarrow> bool"
  assumes R_refl: "R tx tx"
    and R_trans: "R tx tx1 \<Longrightarrow> R tx1 tx2 \<Longrightarrow> R tx tx2"
    and R_call: "allowed c \<Longrightarrow> R tx (fst (runCall js c tx))"
begin

lemma adapter_keeps: "callsOnly allowed a \<Longrightarrow> R tx (fst (runAdapter js a tx))"
proof (induction a arbitrary: tx)
  case (Return r)
  then show ?case by (simp add: R_refl)
next
  case (Call c k)
  obtain tx' err where c: "runCall js c tx = (tx', err)" by fastforce
  then have "R tx tx'" using R_call [of c tx] Call.prems by simp
  moreover have "R tx' (fst (runAdapter js (k err tx') tx'))" using Call.IH [OF rangeI rangeI] Call.prems by simp
  ultimately show ?case using R_trans c by simp
qed

end

lemma callsOnly_all [simp]: "callsOnly (\<lambda>_. True) a"
  by (induction a) (auto intro: rangeI)

text \<open>The calls are built from assignments to the claim in memory, \<open>Record\<close>, and the receipt of a
  terminal rejection. A relation that these three keep is kept by every call, whatever is assigned.\<close>

locale tx_steps =
  fixes R :: "FixedTransaction \<Rightarrow> FixedTransaction \<Rightarrow> bool"
  assumes step_refl: "R tx tx"
    and step_trans: "R tx tx1 \<Longrightarrow> R tx1 tx2 \<Longrightarrow> R tx tx2"
    and step_claim: "R tx (setClaim c tx)"
    and step_failed: "R tx (tx\<lparr>ft_failedSet := fs\<rparr>)"
    and step_Record: "R tx (fst (Record phase tx))"
    and step_terminal: "IsFixedClaim k (ft_Claim tx) \<Longrightarrow> fi_State (ft_intent tx) = ''prepared'' \<Longrightarrow> unboundClaim (ft_Claim tx)
      \<Longrightarrow> R tx (tx\<lparr>ft_Lock := fst (ft_persist tx ((ft_Lock tx)\<lparr>lk_Claim := TerminalClaim k (ft_Claim tx) now\<rparr>))\<rparr>)"
begin

lemma then_claim: "R tx tx1 \<Longrightarrow> R tx (setClaim c tx1)"
  using step_trans step_claim by blast

lemma then_intent: "R tx tx1 \<Longrightarrow> R tx (setIntent i tx1)"
  unfolding setIntent_def by (rule then_claim)

lemma then_failed: "R tx tx1 \<Longrightarrow> R tx (tx1\<lparr>ft_failedSet := fs\<rparr>)"
  using step_trans step_failed by blast

lemma then_Record: "R tx tx1 \<Longrightarrow> R tx (fst (Record phase tx1))"
  using step_trans step_Record by blast

lemmas steps = step_refl then_claim then_intent then_failed then_Record

lemma applyBindingTx_step: "R tx (fst (applyBindingTx js b tx))"
  by (auto simp: applyBindingTx_def split: prod.splits intro: steps)

lemma Admit_step: "R tx (fst (Admit now tx))"
  by (auto simp: Admit_def admitKeyed_def admitPending_def intro: steps split: option.splits sum.splits if_splits)

lemma then_FailedAttemptSet: "R tx tx1 \<Longrightarrow> R tx (fst (FailedAttemptSet tx1))"
  by (auto simp: FailedAttemptSet_def intro: steps split: option.splits)

lemma rejectForRetry_step: "R tx (fst (rejectForRetry token tx))"
proof -
  let ?tx = "fst (FailedAttemptSet tx)"
  have "R tx (fst (Record ''prepared'' (setIntent i ?tx)))" for i
    by (intro steps then_FailedAttemptSet)
  then have h: "Record ''prepared'' (setIntent i ?tx) = (tx2, e) \<Longrightarrow> R tx tx2" for i tx2 e by (metis fst_conv)
  show ?thesis
    by (auto simp: rejectForRetry_def Let_def split: prod.splits option.splits intro: then_failed then_FailedAttemptSet h)
qed

lemma RejectAttempt_step: "R tx (fst (RejectAttempt k token terminal now tx))"
  using step_terminal [of k tx now]
  by (auto simp: RejectAttempt_def rejectForRetry_step step_refl split: prod.splits)

lemma call_step: "R tx (fst (runCall js c tx))"
proof (cases c)
  case (CallBind b)
  then show ?thesis
    using applyBindingTx_step [of tx js b]
    by (auto simp: BindTx_def intro: steps split: prod.splits option.splits)
next
  case (CallObserve b)
  then show ?thesis
    using applyBindingTx_step [of tx js b]
    by (auto simp: Observe_def intro: steps split: prod.splits option.splits)
next
  case (CallWriteAttempt key v now)
  then show ?thesis
    using step_trans [OF then_intent [OF step_refl] Admit_step]
    by (auto simp: WriteFixedAttempt_def intro: steps split: sum.splits)
qed (auto simp: RejectAttempt_step Admit_step PersistDeletionEvidence_def RecordFixedWitness_def editClaim_def Let_def
    intro: steps split: option.splits)

end

sublocale tx_steps \<subseteq> tx_invariant js "\<lambda>_. True" R for js
  by unfold_locales (auto intro: step_refl step_trans call_step)

subsection \<open>The claim file changes only by writes of the claim\<close>

definition writeAll :: "string \<Rightarrow> leaseClaim list \<Rightarrow> claimsDir \<Rightarrow> claimsDir" where
  "writeAll leaseID cs d = foldl (\<lambda>d c. dirPut (claimFile leaseID) (CClaim c) d) d cs"

definition wrote :: "lockState \<Rightarrow> lockState \<Rightarrow> bool" where
  "wrote l l' \<longleftrightarrow> lk_LeaseID l' = lk_LeaseID l \<and> lk_IO l' = lk_IO l
     \<and> (\<exists>cs. lk_Trace l' = lk_Trace l @ map OnDisk cs \<and> lk_Dir l' = writeAll (lk_LeaseID l) cs (lk_Dir l))"

lemma wrote_refl [simp]: "wrote l l"
  unfolding wrote_def by (auto intro!: exI [of _ "[]"] simp: writeAll_def)

lemma wrote_trans: "wrote l l1 \<Longrightarrow> wrote l1 l2 \<Longrightarrow> wrote l l2"
  unfolding wrote_def writeAll_def by (auto simp flip: foldl_append map_append)

lemma wrote_claim [simp]: "wrote l (l'\<lparr>lk_Claim := c\<rparr>) \<longleftrightarrow> wrote l l'" "wrote (l\<lparr>lk_Claim := c\<rparr>) l' \<longleftrightarrow> wrote l l'"
  by (simp_all add: wrote_def)

lemma wrote_none:
  "lk_LeaseID l' = lk_LeaseID l \<Longrightarrow> lk_IO l' = lk_IO l \<Longrightarrow> lk_Trace l' = lk_Trace l \<Longrightarrow> lk_Dir l' = lk_Dir l
    \<Longrightarrow> wrote l l'"
  unfolding wrote_def by (auto intro!: exI [of _ "[]"] simp: writeAll_def)

lemma wrote_one:
  "lk_LeaseID l' = lk_LeaseID l \<Longrightarrow> lk_IO l' = lk_IO l \<Longrightarrow> lk_Trace l' = lk_Trace l @ [OnDisk c]
    \<Longrightarrow> lk_Dir l' = dirPut (claimFile (lk_LeaseID l)) (CClaim c) (lk_Dir l) \<Longrightarrow> wrote l l'"
  unfolding wrote_def by (auto intro!: exI [of _ "[c]"] simp: writeAll_def)

text \<open>What \<open>persist\<close> writes: the claim in memory with its lease ID, a new revision and the bound
  revision of its checkpoint capture.\<close>

definition stamped :: "lockState \<Rightarrow> string \<Rightarrow> leaseClaim" where
  "stamped l r =
     (let c = lk_Claim l in
      bindCapture ((if LeaseID c = [] then c\<lparr>LeaseID := lk_LeaseID l\<rparr> else c)\<lparr>Revision := r\<rparr>))"

lemma FixedIntent_stamped [simp]: "FixedIntent (stamped l r) = FixedIntent (lk_Claim l)"
  by (simp add: stamped_def bindCapture_def Let_def split: option.splits)

lemma access_stamped [simp]: "SSHHost (stamped l r) = SSHHost (lk_Claim l)" "Labels (stamped l r) = Labels (lk_Claim l)"
  by (simp_all add: stamped_def bindCapture_def Let_def split: option.splits)

lemma persist_cases:
  assumes "persist l = (l', err)"
  obtains (skipped) "err \<noteq> None" "lk_LeaseID l' = lk_LeaseID l" "lk_IO l' = lk_IO l" "lk_Trace l' = lk_Trace l"
      "lk_Dir l' = lk_Dir l" "\<exists>r. lk_Claim l' = stamped l r \<or> lk_Claim l' = lk_Claim l
        \<or> (LeaseID (lk_Claim l) = [] \<and> lk_Claim l' = (lk_Claim l)\<lparr>LeaseID := lk_LeaseID l\<rparr>)"
  | (written) r where "lk_LeaseID l' = lk_LeaseID l" "lk_IO l' = lk_IO l"
      "lk_Trace l' = lk_Trace l @ [OnDisk (lk_Claim l')]"
      "lk_Dir l' = dirPut (claimFile (lk_LeaseID l)) (CClaim (lk_Claim l')) (lk_Dir l)"
      "lk_Claim l' = stamped l r" "LeaseID (lk_Claim l) = [] \<or> LeaseID (lk_Claim l) = lk_LeaseID l"
proof -
  let ?c1 = "if LeaseID (lk_Claim l) = [] then (lk_Claim l)\<lparr>LeaseID := lk_LeaseID l\<rparr> else lk_Claim l"
  let ?io = "lk_IO l (lk_N l)"
  show ?thesis
  proof (cases "LeaseID ?c1 = lk_LeaseID l \<and> (\<exists>r. pi_Random ?io = Inr r) \<and> \<not> (\<exists>e. pi_Write ?io = WriteFails e)")
    case True
    then obtain r where "pi_Random ?io = Inr r" by blast
    with True assms show ?thesis
      by (intro written [of r])
        (auto simp: persist_def Let_def writeLeaseClaimAtomic_def stamped_def
          split: writeOutcome.splits if_splits)
  next
    case False
    with assms show ?thesis
      by (intro skipped)
        (auto simp: persist_def Let_def writeLeaseClaimAtomic_def stamped_def
          split: writeOutcome.splits if_splits sum.splits)
  qed
qed

lemma persist_wrote: "wrote l (fst (persist l))"
proof -
  obtain l' err where p: "persist l = (l', err)" by fastforce
  from p have "wrote l l'"
    by (cases rule: persist_cases) (auto intro: wrote_none wrote_one)
  with p show ?thesis by simp
qed

definition goodPersist :: "(lockState \<Rightarrow> lockState \<times> gerr option) \<Rightarrow> bool" where
  "goodPersist f \<longleftrightarrow> (\<forall>l. wrote l (fst (f l)))"

lemma goodPersist_persist [simp]: "goodPersist persist"
  by (simp add: goodPersist_def persist_wrote)

definition txWrote :: "FixedTransaction \<Rightarrow> FixedTransaction \<Rightarrow> bool" where
  "txWrote tx tx' \<longleftrightarrow> ft_persist tx' = ft_persist tx \<and> ft_fresh tx' = ft_fresh tx
     \<and> ft_admission tx' = ft_admission tx \<and> ft_leaseID tx' = ft_leaseID tx
     \<and> ft_initialUnallocated tx' = ft_initialUnallocated tx \<and> ft_initial tx' = ft_initial tx
     \<and> (goodPersist (ft_persist tx) \<longrightarrow> wrote (ft_Lock tx) (ft_Lock tx'))"

lemma txWrote_refl [simp]: "txWrote tx tx"
  by (simp add: txWrote_def)

lemma txWrote_trans: "txWrote tx tx1 \<Longrightarrow> txWrote tx1 tx2 \<Longrightarrow> txWrote tx tx2"
  unfolding txWrote_def by (auto intro: wrote_trans)

lemma txWrote_memory [simp]:
  "txWrote tx (setClaim c tx') \<longleftrightarrow> txWrote tx tx'" "txWrote tx (setIntent i tx') \<longleftrightarrow> txWrote tx tx'"
  "txWrote (setClaim c tx) tx' \<longleftrightarrow> txWrote tx tx'" "txWrote (setIntent i tx) tx' \<longleftrightarrow> txWrote tx tx'"
  "txWrote tx (tx'\<lparr>ft_failedSet := fs\<rparr>) \<longleftrightarrow> txWrote tx tx'" "txWrote tx (tx'\<lparr>ft_createLabels := ls\<rparr>) \<longleftrightarrow> txWrote tx tx'"
  "txWrote (tx\<lparr>ft_failedSet := fs\<rparr>) tx' \<longleftrightarrow> txWrote tx tx'"
  by (auto simp: txWrote_def setClaim_def setIntent_def)

lemma Record_txWrote: "txWrote tx (fst (Record phase tx))"
proof -
  have p: "goodPersist (ft_persist tx) \<Longrightarrow> ft_persist tx l = (l', e) \<Longrightarrow> wrote l l'" for l l' e
    unfolding goodPersist_def by (metis fst_conv)
  show ?thesis
    by (auto simp: Record_def recordJournal_def Let_def txWrote_def setIntent_def setClaim_def
        split: option.splits prod.splits dest: p)
qed

lemma terminal_txWrote:
  "txWrote tx (tx\<lparr>ft_Lock := fst (ft_persist tx ((ft_Lock tx)\<lparr>lk_Claim := c\<rparr>))\<rparr>)"
proof -
  have "goodPersist (ft_persist tx) \<Longrightarrow> wrote ((ft_Lock tx)\<lparr>lk_Claim := c\<rparr>) (fst (ft_persist tx ((ft_Lock tx)\<lparr>lk_Claim := c\<rparr>)))"
    unfolding goodPersist_def by blast
  then show ?thesis by (simp add: txWrote_def)
qed

interpretation writes: tx_steps txWrote
  by unfold_locales (auto intro: txWrote_trans Record_txWrote terminal_txWrote)

lemmas applyBindingTx_txWrote = writes.applyBindingTx_step
lemmas then_Record_txWrote = writes.then_Record
lemmas Admit_txWrote = writes.Admit_step
lemmas runCall_txWrote = writes.call_step

lemma adapter_writes:
  assumes "runAdapter js a tx = (tx', r)"
  shows "txWrote tx tx'"
  using writes.adapter_keeps [of a tx js] assms by simp

end
