(* ===== verification/FixedAcquire.thy ===== *)
theory FixedAcquire
  imports FixedAdapter
begin

text \<open>
  Acquisition of a fixed lease (\<open>internal/cli/fixed_lease.go\<close> and \<open>AcquireFixedResource\<close> of
  \<open>internal/cli/fixed_lease_engine.go\<close>).

  The clock, the context, the locks and the disk are the record \<open>acquireEnv\<close>: \<open>aq_Now\<close> gives the
  successive readings of the clock (intent creation, expiry, admission test, admission, keyed window,
  last use), \<open>aq_CtxErr\<close> the two checks of the context (after planning, before submission). Native
  submission is the event \<open>Submit\<close>, noted when the engine calls \<open>ops.Submit\<close>.
\<close>

section \<open>Requests and operations\<close>

record LeaseTarget =
  lt_Server :: Server
  lt_SSH :: SSHTarget
  lt_LeaseID :: string

record FixedLeaseBinding =
  lb_InitialLabels :: labels
  lb_AllocateSlug :: bool
  lb_RejectExistingLease :: bool
  lb_RequestedSlug :: string
  lb_Inventory :: "Server list"
  lb_ProviderScope :: string
  lb_Fingerprint :: string
  lb_Slug :: string

record FixedAcquireOptions =
  ao_Retention :: "SessionDiskRetentionPolicy option"
  ao_Kind :: FixedLeaseKind
  ao_LeaseID :: string
  ao_CheckpointID :: string
  ao_RepoRoot :: string
  ao_LegacyRepoRoot :: string
  ao_Reclaim :: bool
  ao_TargetOS :: string
  ao_WindowsMode :: string
  ao_TTL :: int
  ao_IdleTimeout :: int
  ao_journal :: bool

record 'r FixedObservation =
  ob_Binding :: "FixedResourceBinding option"
  ob_Candidates :: "'r list"
  ob_CanSubmit :: bool
  ob_AbsenceProven :: bool
  ob_Conflict :: string

datatype FixedObserveMode = FixedObserveAcquire | FixedObserveInspect | FixedObserveDelete

record FixedReleasePolicy =
  rl_RepoRoot :: string
  rl_LegacyRepoRoot :: string
  rl_CheckpointID :: "string option"
  rl_PristineScopePrefix :: string
  rl_SkipTerminalObservation :: bool
  rl_Binding :: "FixedResourceBinding option"

record 'r FixedLeaseOperations =
  op_Release :: "FixedReleasePolicy option"
  op_PlanReservationKey :: string
  op_PlanDuringSubmit :: bool
  op_Admission :: "FixedAdmission option"
  op_Plan :: "(leaseClaim \<Rightarrow> FixedAttemptPlan res) option"
  op_Identity :: "('r \<Rightarrow> FixedResourceBinding) option"
  op_DeferredAdmission :: bool
  op_DescribeIntent :: "(leaseClaim \<Rightarrow> bool \<Rightarrow> FixedLeaseBinding res) option"
  op_ObserveExact :: "(FixedTransaction \<Rightarrow> FixedObserveMode \<Rightarrow> 'r FixedObservation adapter) option"
  op_Submit :: "(FixedTransaction \<Rightarrow> 'r adapter) option"
  op_PrepareAccess :: "(FixedTransaction \<Rightarrow> 'r \<Rightarrow> LeaseTarget adapter) option"
  op_DeleteExact :: "(FixedTransaction \<Rightarrow> 'r \<Rightarrow> unit adapter) option"

record acquireEnv =
  aq_Lock :: lockEnv
  aq_Settle :: settleEnv
  aq_Plan :: planEnv
  aq_JSON :: jsonCodec
  aq_SHA256 :: "string \<Rightarrow> byte list"
  aq_Now :: "nat \<Rightarrow> int"
  aq_CtxErr :: "nat \<Rightarrow> gerr option"
  aq_ReserveErr :: "gerr option"

section \<open>Durable acquisition\<close>

definition conflict4 :: "string \<Rightarrow> gerr" where
  "conflict4 s = Exit 4 (''lease_id_conflict: '' @ s)"

text \<open>\<open>int(d.Seconds())\<close> truncates towards zero.\<close>

definition wholeSeconds :: "int \<Rightarrow> int" where
  "wholeSeconds d = (if d < 0 then - ((- d) div second) else d div second)"

definition freshSlug :: "acquireEnv \<Rightarrow> FixedAcquireOptions \<Rightarrow> FixedLeaseBinding \<Rightarrow> claimsDir \<Rightarrow> string res" where
  "freshSlug env opts b d =
     (if \<not> lb_AllocateSlug b then Inr (lb_Slug b)
      else if lb_RejectExistingLease b
              \<and> list_ex (\<lambda>s. label (sv_Labels s) ''lease'' = ao_LeaseID opts) (lb_Inventory b)
      then Inl (conflict4 ''resource exists without its create intent'')
      else allocateDirectLeaseSlug (aq_SHA256 env) (\<lambda>_. None) (ao_LeaseID opts) (lb_RequestedSlug b)
             (map sv_Labels (lb_Inventory b)) (claimSlugInUse (pe_Scan (aq_Plan env)) d))"

definition replayRefused :: "FixedAcquireOptions \<Rightarrow> FixedLeaseBinding \<Rightarrow> leaseClaim \<Rightarrow> gerr option" where
  "replayRefused opts b c =
     (case FixedIntent c of
        None \<Rightarrow> Some (conflict4 ''bound to another create intent'')
      | Some i \<Rightarrow>
          if fi_Retention i \<noteq> ao_Retention opts \<or> fi_Version i \<noteq> fk_IntentVersion (ao_Kind opts)
             \<or> fi_Fingerprint i \<noteq> lb_Fingerprint b \<or> fi_ProviderScope i \<noteq> lb_ProviderScope b
          then Some (conflict4 ''bound to another create intent'')
          else if Provider c \<noteq> fk_ClaimProvider (ao_Kind opts) then Some (conflict4 ''bound to provider'')
          else if RepoRoot c \<noteq> [] \<and> \<not> ClaimRepositoryMatches (RepoRoot c) (ao_RepoRoot opts) (ao_LegacyRepoRoot opts)
                  \<and> \<not> ao_Reclaim opts
          then Some (conflict4 ''bound to another repository'') else None)"

definition freshIntent :: "FixedAcquireOptions \<Rightarrow> FixedLeaseBinding \<Rightarrow> string \<Rightarrow> int \<Rightarrow> FixedCreateIntent res" where
  "freshIntent opts b slug current =
     (let i = \<lparr>fi_Retention = ao_Retention opts, fi_Version = fk_IntentVersion (ao_Kind opts),
               fi_Fingerprint = lb_Fingerprint b, fi_ProviderScope = lb_ProviderScope b,
               fi_CheckpointID = ao_CheckpointID opts, fi_Slug = slug, fi_CreatedAt = fmt_RFC3339Nano current,
               fi_State = ''prepared'', fi_Attempt = None, fi_FailedAttempts = [],
               fi_Journal = (if ao_journal opts
                  then Some \<lparr>fj_Retention = None, fj_Version = 1, fj_Phase = ''prepared'', fj_Revision = 1, fj_Submission = None\<rparr>
                  else None)\<rparr>
      in if ao_journal opts \<and> ao_Retention opts \<noteq> None
         then initializeSessionDiskRetention i (ao_LeaseID opts) current else Inr i)"

definition freshClaim :: "FixedAcquireOptions \<Rightarrow> FixedLeaseBinding \<Rightarrow> string \<Rightarrow> int \<Rightarrow> FixedCreateIntent \<Rightarrow> leaseClaim \<Rightarrow> leaseClaim" where
  "freshClaim opts b slug current i c =
     c\<lparr>LeaseID := ao_LeaseID opts, Slug := slug, Provider := fk_ClaimProvider (ao_Kind opts),
       ProviderScope := lb_ProviderScope b, TargetOS := ao_TargetOS opts, WindowsMode := ao_WindowsMode opts,
       RepoRoot := ao_RepoRoot opts, ClaimedAt := fmt_RFC3339 current, LastUsedAt := fmt_RFC3339 current,
       IdleTimeoutSeconds := wholeSeconds (ao_IdleTimeout opts), Labels := lb_InitialLabels b, FixedIntent := Some i\<rparr>"

definition persistR :: "(lockState, unit) proc" where
  "persistR = stateR persist"

definition openIntent ::
  "acquireEnv \<Rightarrow> FixedAcquireOptions \<Rightarrow> (leaseClaim \<Rightarrow> bool \<Rightarrow> FixedLeaseBinding res) \<Rightarrow> (lockState, unit) proc" where
  "openIntent env opts prepare l =
     (case prepare (lk_Claim l) (lk_Exists l) of
        Inl e \<Rightarrow> (l, Inl e)
      | Inr b \<Rightarrow>
          if lk_Exists l then checkR (replayRefused opts b (lk_Claim l)) l
          else (case freshSlug env opts b (lk_Dir l) of
                  Inl e \<Rightarrow> (l, Inl e)
                | Inr slug \<Rightarrow>
                    (case freshIntent opts b slug (aq_Now env 0) of
                       Inl e \<Rightarrow> (l, Inl e)
                     | Inr i \<Rightarrow> persistR (l\<lparr>lk_Claim := freshClaim opts b slug (aq_Now env 0) i (lk_Claim l)\<rparr>))))"

text \<open>\<open>intent.State = "acquired"\<close> writes through the pointer taken before the attempt. When a
  rejection replaced the claim by its receipt, the pointer no longer belongs to the claim.\<close>

definition acquiredClaim :: "int \<Rightarrow> leaseClaim \<Rightarrow> leaseClaim" where
  "acquiredClaim now c =
     (let i = the (FixedIntent c);
          i1 = i\<lparr>fi_State := ''acquired'',
                 fi_Journal := map_option (\<lambda>j. if fj_Phase j \<noteq> ''acquired''
                    then j\<lparr>fj_Phase := ''acquired'', fj_Revision := fj_Revision j + 1\<rparr> else j) (fi_Journal i)\<rparr>
      in c\<lparr>LastUsedAt := fmt_RFC3339 now, FixedIntent := Some (if fi_State i = ''released'' then i else i1)\<rparr>)"

definition intentGuards :: "acquireEnv \<Rightarrow> FixedAcquireOptions \<Rightarrow> leaseClaim \<Rightarrow> gerr option" where
  "intentGuards env opts c =
     (let i = the (FixedIntent c) in
      if fi_State i \<noteq> ''prepared'' \<and> fi_State i \<noteq> ''acquired'' then Some (conflict4 ''invalid create state'')
      else (case time_parse (fi_CreatedAt i) of
              None \<Rightarrow> Some (conflict4 ''invalid fixed create timestamp'')
            | Some createdAt \<Rightarrow>
                if ao_Retention opts = None \<and> 0 < ao_TTL opts \<and> createdAt + ao_TTL opts < aq_Now env 1
                then Some (conflict4 ''fixed create intent has expired'') else None))"

definition ownershipRefused :: "FixedAcquireOptions \<Rightarrow> lockState \<Rightarrow> gerr option" where
  "ownershipRefused opts l =
     (let c = lk_Claim l in
      if \<not> lk_Exists l then None
      else if IsFixedClaim (ao_Kind opts) c \<and> fi_State (the (FixedIntent c)) = ''released''
      then Some (conflict4 ''terminal and cannot be replayed'')
      else if (case FixedIntent c of Some i \<Rightarrow> fi_CheckpointID i \<noteq> ao_CheckpointID opts | None \<Rightarrow> False)
      then Some (conflict4 ''bound to another checkpoint'')
      else if Provider c \<noteq> fk_ClaimProvider (ao_Kind opts) then Some (conflict4 ''it already has another owner'')
      else None)"

definition acquireUnderLock ::
  "acquireEnv \<Rightarrow> FixedAcquireOptions \<Rightarrow> (leaseClaim \<Rightarrow> bool \<Rightarrow> FixedLeaseBinding res) \<Rightarrow> (bool \<Rightarrow> (lockState, 'a) proc)
    \<Rightarrow> (lockState, 'a \<times> leaseClaim) proc" where
  "acquireUnderLock env opts prepare acquire l =
     bindR (checkR (ownershipRefused opts l)) (\<lambda>_.
     bindR (openIntent env opts prepare) (\<lambda>_.
     bindR (\<lambda>l1. checkR (intentGuards env opts (lk_Claim l1)) l1) (\<lambda>_.
     bindR (acquire (\<not> lk_Exists l)) (\<lambda>r.
     bindR (\<lambda>l1. persistR (l1\<lparr>lk_Claim := acquiredClaim (aq_Now env 5) (lk_Claim l1)\<rparr>)) (\<lambda>_ l2.
       (l2, Inr (r, lk_Claim l2))))))) l"

definition AcquireFixedIntent ::
  "acquireEnv \<Rightarrow> FixedAcquireOptions \<Rightarrow> (leaseClaim \<Rightarrow> bool \<Rightarrow> FixedLeaseBinding res) \<Rightarrow> (bool \<Rightarrow> (lockState, 'a) proc)
    \<Rightarrow> claimsDir \<Rightarrow> claimsDir \<times> event list \<times> ('a \<times> leaseClaim) res" where
  "AcquireFixedIntent env opts prepare acquire d =
     (if ao_Retention opts \<noteq> None \<and> \<not> ao_journal opts
      then (d, [], Inl (Exit 4 ''retained acquisition requires the fixed resource journal owner''))
      else WithDurableLeaseClaimLockContext (ao_LeaseID opts) (aq_Lock env) (acquireUnderLock env opts prepare acquire) d)"

definition publishAcquired :: "FixedAcquireOptions \<Rightarrow> LeaseTarget \<Rightarrow> leaseClaim \<Rightarrow> leaseClaim" where
  "publishAcquired opts t c =
     (let sv = lt_Server t;
          c1 = SetLeaseClaimResourceIdentity c (sv_CloudID sv) (CloudNumericID c) (sv_ImmutableID sv) (sv_ImageEvidence sv)
      in c1\<lparr>Slug := fi_Slug (the (FixedIntent c)), Provider := fk_ClaimProvider (ao_Kind opts), Labels := sv_Labels sv,
            SSHHost := tg_Host (lt_SSH t),
            SSHPort := (case Atoi (TrimSpace (tg_Port (lt_SSH t))) of Some p \<Rightarrow> p | None \<Rightarrow> SSHPort c)\<rparr>)"

definition AcquireFixedLease ::
  "acquireEnv \<Rightarrow> FixedAcquireOptions \<Rightarrow> (leaseClaim \<Rightarrow> bool \<Rightarrow> FixedLeaseBinding res) \<Rightarrow> (bool \<Rightarrow> (lockState, LeaseTarget) proc)
    \<Rightarrow> claimsDir \<Rightarrow> claimsDir \<times> event list \<times> LeaseTarget res" where
  "AcquireFixedLease env opts prepare acquire d =
     (case AcquireFixedIntent env opts prepare
             (\<lambda>fresh. bindR (acquire fresh) (\<lambda>t l. (l\<lparr>lk_Claim := publishAcquired opts t (lk_Claim l)\<rparr>, Inr t))) d of
        (d', tr, Inl e) \<Rightarrow> (d', tr, Inl e)
      | (d', tr, Inr (t, c)) \<Rightarrow> (d', tr, Inr (t\<lparr>lt_Server := SetServerLeaseClaimSnapshot (lt_Server t) c True\<rparr>)))"

section \<open>The acquisition engine\<close>

definition fixedObservationConflict :: "'r FixedObservation \<Rightarrow> gerr option" where
  "fixedObservationConflict ob =
     (if ob_Conflict ob \<noteq> [] then Some (conflict4 (ob_Conflict ob))
      else if 1 < length (ob_Candidates ob) then Some (conflict4 ''multiple resources match fixed lease'') else None)"

definition acquireConfigured :: "'r FixedLeaseOperations \<Rightarrow> gerr option" where
  "acquireConfigured ops =
     (if op_Admission ops = None \<or> op_DescribeIntent ops = None \<or> (op_Plan ops = None \<and> \<not> op_PlanDuringSubmit ops)
         \<or> op_ObserveExact ops = None \<or> op_Submit ops = None \<or> op_PrepareAccess ops = None
      then Some (Fail ''fixed lease engine requires all acquisition operations'')
      else if op_PlanReservationKey ops \<noteq> [] \<and> (op_Plan ops = None \<or> op_PlanDuringSubmit ops)
      then Some (Fail ''fixed identity reservation requires a pre-submission plan'')
      else (case fa_KeyedRetry (the (op_Admission ops)) of
              None \<Rightarrow> None
            | Some retry \<Rightarrow>
                if op_DeferredAdmission ops \<or> op_PlanDuringSubmit ops \<or> \<not> fa_FreshOnly (the (op_Admission ops))
                   \<or> fa_RepeatSameIdentity (the (op_Admission ops)) \<or> fa_PendingKey (the (op_Admission ops)) \<noteq> []
                   \<or> kr_AttemptKey retry = [] \<or> kr_Window retry \<le> 0
                then Some (Fail ''keyed recovery requires fresh-only admission and a pre-submission plan'') else None))"

definition describeForReplay ::
  "'r FixedLeaseOperations \<Rightarrow> leaseClaim \<Rightarrow> bool \<Rightarrow> FixedLeaseBinding res" where
  "describeForReplay ops c exists =
     (case (if exists then
              (case validateFixedJournal (FixedIntent c) of
                 Some e \<Rightarrow> Some e
               | None \<Rightarrow>
                   (case fi_Journal (the (FixedIntent c)) of
                      Some j \<Rightarrow> if fj_Phase j = ''deleting'' \<or> fj_Phase j = ''released''
                                then Some (conflict4 ''fixed lease has entered cleanup; retry stop'') else None
                    | None \<Rightarrow> None))
            else None) of
        Some e \<Rightarrow> Inl e
      | None \<Rightarrow> the (op_DescribeIntent ops) c exists)"

text \<open>A step of the attempt whose error may certify that nothing was allocated.\<close>

definition settling ::
  "acquireEnv \<Rightarrow> FixedLeaseKind \<Rightarrow> (FixedTransaction, 'a) proc \<Rightarrow> (FixedTransaction, 'a) proc" where
  "settling env k m tx =
     (case m tx of
        (tx1, Inr x) \<Rightarrow> (tx1, Inr x)
      | (tx1, Inl e) \<Rightarrow> (case settleCreateRejection k (aq_Settle env) e tx1 of (tx2, e') \<Rightarrow> (tx2, Inl e')))"

definition withFixedPlanReservation :: "acquireEnv \<Rightarrow> string \<Rightarrow> ('s, unit) proc \<Rightarrow> ('s, unit) proc" where
  "withFixedPlanReservation env key action =
     (if key = [] then action else bindR (checkR (aq_ReserveErr env)) (\<lambda>_. action))"

definition planAndRecord :: "acquireEnv \<Rightarrow> 'r FixedLeaseOperations \<Rightarrow> (FixedTransaction, unit) proc" where
  "planAndRecord env ops =
     bindR (\<lambda>tx. case op_Plan ops of
              Some plan \<Rightarrow>
                if noAttempt (ft_intent tx) then
                  (case plan (ft_Claim tx) of
                     Inl e \<Rightarrow> (tx, Inl e)
                   | Inr p \<Rightarrow> bindR (checkR (aq_CtxErr env 0)) (\<lambda>_. stateR (planTx (aq_JSON env) (aq_Plan env) p)) tx)
                else (tx, Inr ())
            | None \<Rightarrow> (tx, Inr ())) (\<lambda>_.
     bindR (\<lambda>tx. requireR (\<not> noAttempt (ft_intent tx) \<or> op_PlanDuringSubmit ops)
                   (conflict4 ''fixed lease submission has no native attempt'') tx) (\<lambda>_.
     stateR (Record ''prepared'')))"

definition keyedWindow :: "acquireEnv \<Rightarrow> FixedAdmission \<Rightarrow> (FixedTransaction, unit) proc" where
  "keyedWindow env adm tx =
     (case fa_KeyedRetry adm of
        None \<Rightarrow> (tx, Inr ())
      | Some retry \<Rightarrow>
          (let first = (case (case fi_Journal (ft_intent tx) of None \<Rightarrow> None | Some j \<Rightarrow> fj_Submission j) of
                          None \<Rightarrow> zero_time
                        | Some s \<Rightarrow> (case time_parse (ks_FirstSubmittedAt s) of Some t \<Rightarrow> t | None \<Rightarrow> zero_time))
           in requireR (0 < first + kr_Window retry - aq_Now env 4) FixedUncertainCustody tx))"

definition noteSubmit :: "(FixedTransaction, unit) proc" where
  "noteSubmit tx = (tx\<lparr>ft_Lock := noteEvent Submit (ft_Lock tx)\<rparr>, Inr ())"

definition submissionAllowed :: "acquireEnv \<Rightarrow> FixedAdmission \<Rightarrow> 'r FixedObservation \<Rightarrow> FixedTransaction \<Rightarrow> bool" where
  "submissionAllowed env adm ob tx \<longleftrightarrow>
     ob_CanSubmit ob \<and> permits adm (aq_Now env 2) tx \<and> fi_State (ft_intent tx) = ''prepared'' \<and> unboundClaim (ft_Claim tx)"

definition submitFixed ::
  "acquireEnv \<Rightarrow> FixedAcquireOptions \<Rightarrow> 'r FixedLeaseOperations \<Rightarrow> 'r FixedObservation \<Rightarrow> (FixedTransaction, 'r) proc" where
  "submitFixed env opts ops ob =
     (let adm = the (op_Admission ops) in
      bindR (\<lambda>tx. requireR (submissionAllowed env adm ob tx) (conflict4 ''unresolved or missing resource'') tx) (\<lambda>_.
      bindR (settling env (ao_Kind opts) (withFixedPlanReservation env (op_PlanReservationKey ops) (planAndRecord env ops))) (\<lambda>_.
      bindR (if op_DeferredAdmission ops then returnR () else stateR (Admit (aq_Now env 3))) (\<lambda>_.
      bindR (keyedWindow env adm) (\<lambda>_.
      bindR (checkR (aq_CtxErr env 1)) (\<lambda>_.
      bindR noteSubmit (\<lambda>_.
      bindR (settling env (ao_Kind opts) (\<lambda>tx. runAdapter (aq_JSON env) (the (op_Submit ops) tx) tx)) (\<lambda>r.
      bindR (\<lambda>tx. requireR (\<not> noAttempt (ft_intent tx)) (conflict4 ''no valid durable launch attempt after provisioning'') tx) (\<lambda>_.
      returnR r)))))))))"

definition adoptFixed :: "acquireEnv \<Rightarrow> 'r FixedObservation \<Rightarrow> (FixedTransaction, 'r) proc" where
  "adoptFixed env ob =
     bindR (case ob_Binding ob of None \<Rightarrow> returnR () | Some b \<Rightarrow> stateR (BindTx (aq_JSON env) b))
       (\<lambda>_. returnR (hd (ob_Candidates ob)))"

definition accessMatches :: "LeaseTarget \<Rightarrow> leaseClaim \<Rightarrow> bool" where
  "accessMatches t c \<longleftrightarrow> lt_LeaseID t = LeaseID c
     \<and> (CloudID c = [] \<or> CloudID c = sv_CloudID (lt_Server t))
     \<and> (CloudImmutableID c = [] \<or> CloudImmutableID c = sv_ImmutableID (lt_Server t))"

definition acquireTx ::
  "acquireEnv \<Rightarrow> FixedAcquireOptions \<Rightarrow> 'r FixedLeaseOperations \<Rightarrow> (FixedTransaction, LeaseTarget) proc" where
  "acquireTx env opts ops =
     (let js = aq_JSON env in
      bindR (settling env (ao_Kind opts) (\<lambda>tx. runAdapter js (the (op_ObserveExact ops) tx FixedObserveAcquire) tx)) (\<lambda>ob.
      bindR (checkR (fixedObservationConflict ob)) (\<lambda>_.
      bindR (if length (ob_Candidates ob) = 1 then adoptFixed env ob else submitFixed env opts ops ob) (\<lambda>r.
      bindR (case op_Identity ops of None \<Rightarrow> returnR () | Some ident \<Rightarrow> stateR (BindTx js (ident r))) (\<lambda>_.
      bindR (\<lambda>tx. runAdapter js (the (op_PrepareAccess ops) tx r) tx) (\<lambda>t.
      bindR (\<lambda>tx. requireR (accessMatches t (ft_Claim tx)) (conflict4 ''prepared access changed the fixed resource identity'') tx) (\<lambda>_.
      bindR (stateR (Record ''bound'')) (\<lambda>_.
      returnR t))))))))"

definition acquireResource ::
  "acquireEnv \<Rightarrow> FixedAcquireOptions \<Rightarrow> 'r FixedLeaseOperations \<Rightarrow> bool \<Rightarrow> (lockState, LeaseTarget) proc" where
  "acquireResource env opts ops fresh l =
     (case newFixedTransaction l fresh persist of
        Inl e \<Rightarrow> (l, Inl e)
      | Inr tx \<Rightarrow> (case acquireTx env opts ops (tx\<lparr>ft_admission := op_Admission ops\<rparr>) of (tx', r) \<Rightarrow> (ft_Lock tx', r)))"

definition AcquireFixedResource ::
  "acquireEnv \<Rightarrow> FixedAcquireOptions \<Rightarrow> 'r FixedLeaseOperations \<Rightarrow> claimsDir \<Rightarrow> claimsDir \<times> event list \<times> LeaseTarget res" where
  "AcquireFixedResource env opts ops d =
     (case acquireConfigured ops of
        Some e \<Rightarrow> (d, [], Inl e)
      | None \<Rightarrow> AcquireFixedLease env (opts\<lparr>ao_journal := True\<rparr>) (describeForReplay ops) (acquireResource env opts ops) d)"

section \<open>What an acquisition leaves behind\<close>

text \<open>The directory after a trace; what a crash after some prefix leaves.\<close>

fun replayEvent :: "string \<Rightarrow> claimsDir \<Rightarrow> event \<Rightarrow> claimsDir" where
  "replayEvent leaseID d (OnDisk c) = dirPut (claimFile leaseID) (CClaim c) d"
| "replayEvent leaseID d (Removed e) = dirDelete (claimFile leaseID) d"
| "replayEvent leaseID d (Submit x) = d"
| "replayEvent leaseID d (Delete x) = d"
| "replayEvent leaseID d (Answered x) = d"

definition replayDir :: "string \<Rightarrow> claimsDir \<Rightarrow> event list \<Rightarrow> claimsDir" where
  "replayDir leaseID d es = foldl (replayEvent leaseID) d es"

lemma replayDir_append [simp]: "replayDir i d (es @ fs) = replayDir i (replayDir i d es) fs"
  by (simp add: replayDir_def)

lemma replayDir_simps [simp]:
  "replayDir i d [] = d" "replayDir i d (e # es) = replayDir i (replayEvent i d e) es"
  by (simp_all add: replayDir_def)

lemma writeAll_replay: "writeAll i cs d = replayDir i d (map OnDisk cs)"
  by (induction cs arbitrary: d) (simp_all add: writeAll_def)

lemma dirOk_replay [simp]: "dirOk d \<Longrightarrow> dirOk (replayDir i d es)"
proof (induction es arbitrary: d)
  case (Cons e es)
  then show ?case by (cases e) (simp_all add: dirOk_dirPut dirOk_dirDelete)
qed simp

text \<open>The submissions and deletions in a trace carry the claim that was in the file at the time.\<close>

fun truthful :: "string \<Rightarrow> claimsDir \<Rightarrow> event list \<Rightarrow> bool" where
  "truthful i d [] = True"
| "truthful i d (e # es) =
     ((case e of Submit x \<Rightarrow> x = claimAt d i | Delete x \<Rightarrow> x = claimAt d i | _ \<Rightarrow> True) \<and> truthful i (replayEvent i d e) es)"

lemma truthful_append [simp]:
  "truthful i d (es @ fs) \<longleftrightarrow> truthful i d es \<and> truthful i (replayDir i d es) fs"
  by (induction es arbitrary: d) auto

lemma truthful_writes [simp]: "truthful i d (map OnDisk cs)"
  by (induction cs arbitrary: d) auto

text \<open>A transaction that runs with the lock's own \<open>persist\<close> on its own claim file. A legacy claim
  without a lease ID has no file name to remove.\<close>

definition ownTx :: "FixedTransaction \<Rightarrow> bool" where
  "ownTx tx \<longleftrightarrow> ft_persist tx = persist \<and> (ft_leaseID tx = lk_LeaseID (ft_Lock tx) \<or> ft_leaseID tx = [])"

definition emitted :: "FixedTransaction \<Rightarrow> event list \<Rightarrow> FixedTransaction \<Rightarrow> bool" where
  "emitted tx es tx' \<longleftrightarrow> (ownTx tx \<longrightarrow> ownTx tx') \<and> ft_fresh tx' = ft_fresh tx \<and> ft_admission tx' = ft_admission tx
     \<and> lk_LeaseID (ft_Lock tx') = lk_LeaseID (ft_Lock tx)
     \<and> ft_initialUnallocated tx' = ft_initialUnallocated tx \<and> ft_initial tx' = ft_initial tx
     \<and> lk_Trace (ft_Lock tx') = lk_Trace (ft_Lock tx) @ es
     \<and> lk_Dir (ft_Lock tx') = replayDir (lk_LeaseID (ft_Lock tx)) (lk_Dir (ft_Lock tx)) es
     \<and> truthful (lk_LeaseID (ft_Lock tx)) (lk_Dir (ft_Lock tx)) es"

lemma emitted_refl [simp]: "emitted tx [] tx"
  by (simp add: emitted_def)

lemma emitted_trans: "emitted tx es tx1 \<Longrightarrow> emitted tx1 fs tx2 \<Longrightarrow> emitted tx (es @ fs) tx2"
  by (auto simp: emitted_def)

lemma emitted_own: "emitted tx es tx' \<Longrightarrow> ownTx tx \<Longrightarrow> ownTx tx'"
  by (simp add: emitted_def)

lemma emitted_dirOk: "emitted tx es tx' \<Longrightarrow> dirOk (lk_Dir (ft_Lock tx)) \<Longrightarrow> dirOk (lk_Dir (ft_Lock tx'))"
  by (auto simp: emitted_def)

lemma txWrote_emitted:
  assumes "txWrote tx tx'" and "ownTx tx"
  shows "\<exists>cs. emitted tx (map OnDisk cs) tx'"
  using assms by (auto simp: txWrote_def emitted_def wrote_def writeAll_replay ownTx_def)

text \<open>A trace tail: nothing, or the removal of an attempt that was certified as rejected.\<close>

definition retired :: "(gerr \<Rightarrow> bool) \<Rightarrow> event list \<Rightarrow> bool" where
  "retired certified z \<longleftrightarrow> z = [] \<or> (\<exists>e. certified e \<and> z = [Removed e])"

definition removes :: "event list \<Rightarrow> bool" where
  "removes es \<longleftrightarrow> (\<exists>e. Removed e \<in> set es)"

lemma removes_simps [simp]:
  "\<not> removes []" "removes (es @ fs) \<longleftrightarrow> removes es \<or> removes fs" "\<not> removes (map OnDisk a)"
  "removes (Submit x # es) \<longleftrightarrow> removes es" "removes (Removed e # es)"
  by (auto simp: removes_def)

lemma retired_Nil [simp]: "retired P []" by (simp add: retired_def)

lemma retired_quiet: "retired P z \<Longrightarrow> \<not> removes z \<Longrightarrow> z = []"
  by (auto simp: retired_def)

text \<open>Stages of the attempt: a quiet one only writes the claim.\<close>

definition quietStage :: "(FixedTransaction, 'a) proc \<Rightarrow> bool" where
  "quietStage m \<longleftrightarrow> (\<forall>tx tx' r. m tx = (tx', r) \<longrightarrow> txWrote tx tx')"

lemma quietStageI: "(\<And>tx. txWrote tx (fst (m tx))) \<Longrightarrow> quietStage m"
  unfolding quietStage_def by (metis fst_conv)

lemma quietStage_bind: "quietStage m \<Longrightarrow> (\<And>x. quietStage (f x)) \<Longrightarrow> quietStage (bindR m f)"
  unfolding quietStage_def bindR_def
  by (auto split: prod.splits sum.splits) (blast intro: txWrote_trans)+

lemma quietStage_basic [simp]:
  "quietStage (returnR x)" "quietStage (failR e)" "quietStage (checkR c)" "quietStage (requireR b e)"
  "quietStage (\<lambda>tx. checkR (f tx) tx)" "quietStage (\<lambda>tx. requireR (g tx) e tx)" "quietStage (\<lambda>tx. (tx, h tx))"
  by (auto simp: quietStage_def returnR_def failR_def checkR_def requireR_def)

lemma quietStage_state: "(\<And>tx. txWrote tx (fst (f tx))) \<Longrightarrow> quietStage (stateR f)"
  by (intro quietStageI) (simp add: fst_stateR)

lemma quietStage_adapter: "quietStage (\<lambda>tx. runAdapter js (a tx) tx)"
  by (auto simp: quietStage_def intro: adapter_writes)

lemma quietStage_Record [simp]: "quietStage (stateR (Record phase))"
  by (rule quietStage_state) (rule Record_txWrote)

lemma quietStage_Admit [simp]: "quietStage (stateR (Admit now))"
  by (rule quietStage_state) (rule Admit_txWrote)

lemma quietStage_Bind [simp]: "quietStage (stateR (BindTx js b))"
  using runCall_txWrote [of _ js "CallBind b"] by (intro quietStage_state) simp

lemma planTx_txWrote: "txWrote tx (fst (planTx js env p tx))"
  by (auto simp: planTx_def Let_def applyBindingTx_def split: sum.splits prod.splits option.splits)

lemma quietStage_plan: "quietStage (withFixedPlanReservation env key (planAndRecord env' ops))"
proof -
  have "quietStage (planAndRecord env' ops)"
    unfolding planAndRecord_def
  proof (intro quietStage_bind)
    show "quietStage (\<lambda>tx. case op_Plan ops of
              Some plan \<Rightarrow>
                if noAttempt (ft_intent tx) then
                  (case plan (ft_Claim tx) of
                     Inl e \<Rightarrow> (tx, Inl e)
                   | Inr p \<Rightarrow> bindR (checkR (aq_CtxErr env' 0)) (\<lambda>_. stateR (planTx (aq_JSON env') (aq_Plan env') p)) tx)
                else (tx, Inr ())
            | None \<Rightarrow> (tx, Inr ()))"
      using planTx_txWrote
      by (intro quietStageI)
        (auto simp: bindR_def checkR_def fst_stateR split: option.splits sum.splits prod.splits)
  qed simp_all
  then show ?thesis
    by (auto simp: withFixedPlanReservation_def intro: quietStage_bind)
qed

lemma quietStage_keyedWindow: "quietStage (keyedWindow env adm)"
  by (intro quietStageI) (auto simp: keyedWindow_def requireR_def Let_def split: option.splits)

lemma quietStage_adopt: "quietStage (adoptFixed env ob)"
  unfolding adoptFixed_def by (intro quietStage_bind) (auto split: option.splits)

lemma quiet_emitted:
  assumes "quietStage m" "m tx = (tx', r)" "ownTx tx"
  obtains cs where "emitted tx (map OnDisk cs) tx'"
  using assms txWrote_emitted unfolding quietStage_def by blast

lemma validPathID_Nil: "\<not> validLeaseClaimPathID []"
  by (simp add: validLeaseClaimPathID_def validLeaseClaimID_def)

lemma settle_cases:
  assumes "settleCreateRejection k env e tx = (tx', e')"
  shows "tx' = tx \<or> (validLeaseClaimPathID (ft_leaseID tx) \<and> CanSettleCreateRejection k tx \<and> se_Rejected env e
     \<and> tx' = tx\<lparr>ft_Lock := (ft_Lock tx)\<lparr>lk_Dir := dirDelete (claimFile (ft_leaseID tx)) (lk_Dir (ft_Lock tx)),
                lk_Trace := lk_Trace (ft_Lock tx) @ [Removed e]\<rparr>\<rparr>)"
  using assms
  by (cases "se_Rejected env e"; cases "CanSettleCreateRejection k tx"; cases "validLeaseClaimPathID (ft_leaseID tx)")
    (auto simp: settleCreateRejection_def leaseClaimPath_def Let_def split: if_splits option.splits)

lemma settle_emitted:
  assumes "settleCreateRejection k env e tx = (tx', e')" and "ownTx tx"
  shows "emitted tx [] tx' \<or> (se_Rejected env e \<and> emitted tx [Removed e] tx')"
  using settle_cases [OF assms(1)]
proof
  assume t: "validLeaseClaimPathID (ft_leaseID tx) \<and> CanSettleCreateRejection k tx \<and> se_Rejected env e
     \<and> tx' = tx\<lparr>ft_Lock := (ft_Lock tx)\<lparr>lk_Dir := dirDelete (claimFile (ft_leaseID tx)) (lk_Dir (ft_Lock tx)),
                lk_Trace := lk_Trace (ft_Lock tx) @ [Removed e]\<rparr>\<rparr>"
  then have "ft_leaseID tx = lk_LeaseID (ft_Lock tx)"
    using assms(2) validPathID_Nil by (auto simp: ownTx_def)
  with t show ?thesis by (simp add: emitted_def ownTx_def)
qed simp

lemma settling_emitted:
  assumes "quietStage m" "settling env k m tx = (tx', r)" "ownTx tx"
  obtains (ok) cs x where "r = Inr x" "m tx = (tx', Inr x)" "emitted tx (map OnDisk cs) tx'"
  | (bad) cs z e where "r = Inl e" "retired (se_Rejected (aq_Settle env)) z" "emitted tx (map OnDisk cs @ z) tx'"
proof -
  obtain tx1 r1 where m: "m tx = (tx1, r1)" by fastforce
  obtain cs where cs: "emitted tx (map OnDisk cs) tx1" using quiet_emitted [OF assms(1) m assms(3)] .
  show ?thesis
  proof (cases r1)
    case (Inr x)
    then show ?thesis using m cs assms(2) by (intro ok) (auto simp: settling_def)
  next
    case (Inl e)
    obtain tx2 e2 where s: "settleCreateRejection k (aq_Settle env) e tx1 = (tx2, e2)" by fastforce
    then have "tx' = tx2" "r = Inl e2" using m Inl assms(2) by (auto simp: settling_def)
    moreover obtain z where "retired (se_Rejected (aq_Settle env)) z" "emitted tx1 z tx2"
      using settle_emitted [OF s] emitted_own [OF cs assms(3)] unfolding retired_def by blast
    ultimately show ?thesis using emitted_trans [OF cs] bad by blast
  qed
qed

text \<open>A successful \<open>Record\<close> is on disk.\<close>

lemma bindCapture_simps [simp]:
  "FixedIntent (bindCapture c) = FixedIntent c" "CloudID (bindCapture c) = CloudID c"
  "CloudNumericID (bindCapture c) = CloudNumericID c" "CloudImmutableID (bindCapture c) = CloudImmutableID c"
  "LeaseID (bindCapture c) = LeaseID c" "Provider (bindCapture c) = Provider c" "Slug (bindCapture c) = Slug c"
  by (auto simp: bindCapture_def split: option.splits)

lemma stamped_simps [simp]:
  "FixedIntent (stamped l r) = FixedIntent (lk_Claim l)" "CloudID (stamped l r) = CloudID (lk_Claim l)"
  "CloudNumericID (stamped l r) = CloudNumericID (lk_Claim l)"
  "CloudImmutableID (stamped l r) = CloudImmutableID (lk_Claim l)"
  "Provider (stamped l r) = Provider (lk_Claim l)" "Slug (stamped l r) = Slug (lk_Claim l)"
  by (simp_all add: stamped_def Let_def)

lemma persist_ok:
  assumes "persist l = (l', None)" and "dirOk (lk_Dir l)"
  shows "lk_Disk l' = Some (lk_Claim l')" "\<exists>r. lk_Claim l' = stamped l r"
  using assms by (auto elim!: persist_cases simp: lk_Disk_def claimAt_dirPut)

lemma Record_ok:
  assumes "Record phase tx = (tx', None)" and "ownTx tx" and "dirOk (lk_Dir (ft_Lock tx))"
  shows "lk_Disk (ft_Lock tx') = Some (ft_Claim tx')"
    and "FixedIntent (ft_Claim tx') = Some (recordedIntent phase tx)"
    and "phase = ''submitting'' \<Longrightarrow> fi_State (ft_intent tx) = ''prepared'' \<and> \<not> noAttempt (ft_intent tx)"
proof -
  let ?i = "recordedIntent phase tx"
  have r: "recordRefused phase tx = None" and w: "recordJournal ?i tx = (tx', None)"
    using assms(1) by (auto simp: Record_def split: option.splits)
  obtain l where p: "persist (ft_Lock (setIntent ?i tx)) = (l, None)" and t: "ft_Lock tx' = l"
    using w assms(2) by (auto simp: recordJournal_def Let_def ownTx_def split: option.splits prod.splits)
  have d: "dirOk (lk_Dir (ft_Lock (setIntent ?i tx)))" using assms(3) by (simp add: setIntent_def setClaim_def)
  from persist_ok [OF p d] t show "lk_Disk (ft_Lock tx') = Some (ft_Claim tx')"
    and "FixedIntent (ft_Claim tx') = Some ?i"
    by (auto simp: setIntent_def setClaim_def)
  show "phase = ''submitting'' \<Longrightarrow> fi_State (ft_intent tx) = ''prepared'' \<and> \<not> noAttempt (ft_intent tx)"
    using r by (auto simp: recordRefused_def Let_def split: if_splits option.splits)
qed

lemma nextJournal_phase [simp]: "fj_Phase (nextJournal phase tx i) = phase"
  by (simp add: nextJournal_def split: option.splits)

text \<open>A durable record of a submission about to be made.\<close>

definition submittingRecord :: "leaseClaim option \<Rightarrow> bool" where
  "submittingRecord x \<longleftrightarrow> (\<exists>c i j. x = Some c \<and> FixedIntent c = Some i \<and> fi_Journal i = Some j
     \<and> fj_Phase j = ''submitting'' \<and> fi_State i = ''prepared'' \<and> attemptMap i \<noteq> fmempty)"

lemma own_memory [simp]: "ownTx (setIntent i tx) \<longleftrightarrow> ownTx tx" "ownTx (setClaim c tx) \<longleftrightarrow> ownTx tx"
  "lk_Dir (ft_Lock (setIntent i tx)) = lk_Dir (ft_Lock tx)" "lk_Dir (ft_Lock (setClaim c tx)) = lk_Dir (ft_Lock tx)"
  by (simp_all add: ownTx_def setIntent_def setClaim_def)

lemma Admit_ok:
  assumes "Admit now tx = (tx', None)" and "ownTx tx" and "dirOk (lk_Dir (ft_Lock tx))"
  shows "submittingRecord (lk_Disk (ft_Lock tx'))"
proof -
  obtain tx1 tx2 where 1: "admitKeyed now tx = Inr tx1" and 2: "admitPending tx1 = Inr tx2"
    and r: "Record ''submitting'' tx2 = (tx', None)"
    using assms(1) by (auto simp: Admit_def split: sum.splits)
  have "ownTx tx1 \<and> dirOk (lk_Dir (ft_Lock tx1))"
    using 1 assms(2,3) by (auto simp: admitKeyed_def split: option.splits sum.splits)
  then have "ownTx tx2" "dirOk (lk_Dir (ft_Lock tx2))"
    using 2 by (auto simp: admitPending_def split: option.splits sum.splits if_splits)
  from Record_ok [OF r this] show ?thesis
    by (auto simp: submittingRecord_def attemptMap_def noAttempt_def recordedIntent_def Let_def)
qed

text \<open>A removal ends the run with an error.\<close>

definition trailing :: "(gerr \<Rightarrow> bool) \<Rightarrow> 'a res \<Rightarrow> event list \<Rightarrow> bool" where
  "trailing P r z \<longleftrightarrow> retired P z \<and> (is_ok r \<longrightarrow> z = [])"

lemma trailing_Nil [simp]: "trailing P r []" by (simp add: trailing_def)

lemma planAndRecord_durable:
  assumes "withFixedPlanReservation env key (planAndRecord env' ops) tx = (tx', Inr x)"
    and "ownTx tx" and "dirOk (lk_Dir (ft_Lock tx))"
  shows "lk_Disk (ft_Lock tx') \<noteq> None"
proof -
  have "planAndRecord env' ops tx = (tx', Inr x)"
    using assms(1) by (auto simp: withFixedPlanReservation_def bindR_Inr split: if_splits)
  then obtain tx1 u where p: "(case op_Plan ops of
              Some plan \<Rightarrow>
                if noAttempt (ft_intent tx) then
                  (case plan (ft_Claim tx) of
                     Inl e \<Rightarrow> (tx, Inl e)
                   | Inr p \<Rightarrow> bindR (checkR (aq_CtxErr env' 0)) (\<lambda>_. stateR (planTx (aq_JSON env') (aq_Plan env') p)) tx)
                else (tx, Inr ())
            | None \<Rightarrow> (tx, Inr ())) = (tx1, Inr u)"
    and r: "Record ''prepared'' tx1 = (tx', None)"
    unfolding planAndRecord_def bindR_Inr requireR_Inr stateR_Inr by blast
  have "txWrote tx tx1"
    using p planTx_txWrote [of tx]
    by (auto simp: bindR_Inr stateR_Inr split: option.splits if_splits sum.splits) (metis fst_conv)
  then obtain cs where "emitted tx (map OnDisk cs) tx1" using txWrote_emitted assms(2) by blast
  with Record_ok(1) [OF r] assms show ?thesis
    using emitted_own emitted_dirOk by auto
qed

definition submitShape :: "(gerr \<Rightarrow> bool) \<Rightarrow> bool \<Rightarrow> event list \<Rightarrow> bool" where
  "submitShape P deferred es \<longleftrightarrow>
     (\<exists>a b x z. es = map OnDisk a @ Submit (Some x) # map OnDisk b @ z \<and> retired P z
        \<and> (\<not> deferred \<longrightarrow> submittingRecord (Some x)))"

lemma afterSubmit_emitted:
  assumes "bindR (settling env k (\<lambda>tx. runAdapter js (a tx) tx)) (\<lambda>r.
      bindR (\<lambda>tx. requireR (g tx) e tx) (\<lambda>_. returnR r)) tx = (tx', r)" and "ownTx tx"
  obtains b z where "emitted tx (map OnDisk b @ z) tx'" "trailing (se_Rejected (aq_Settle env)) r z"
  using assms(1)
proof (cases rule: bindR_cases)
  case (first e')
  then show ?thesis
    using settling_emitted [OF quietStage_adapter first(1) assms(2)] that
    by (metis Inl_Inr_False is_ok.simps(1) trailing_def)
next
  case (both tx1 x)
  from both(2) have "tx' = tx1"
    by (auto simp: bindR_def requireR_def returnR_def split: if_splits)
  with both(1) show ?thesis
    using settling_emitted [OF quietStage_adapter both(1) assms(2)] that
    by (metis append_Nil2 sum.distinct(1) trailing_Nil)
qed

lemma noteSubmit_emitted: "emitted tx [Submit (lk_Disk (ft_Lock tx))] (fst (noteSubmit tx))"
  by (simp add: noteSubmit_def noteEvent_def emitted_def ownTx_def lk_Disk_def)

lemma keyedWindow_same: "keyedWindow env adm tx = (tx', r) \<Longrightarrow> tx' = tx"
  by (auto simp: keyedWindow_def requireR_def Let_def split: option.splits)

lemma admitted_record:
  assumes "(if deferred then returnR () else stateR (Admit now)) tx = (tx', Inr x)" and "ownTx tx"
    and "dirOk (lk_Dir (ft_Lock tx))" and "lk_Disk (ft_Lock tx) \<noteq> None"
  shows "lk_Disk (ft_Lock tx') \<noteq> None \<and> (\<not> deferred \<longrightarrow> submittingRecord (lk_Disk (ft_Lock tx')))"
  using assms Admit_ok [of now tx tx']
  by (auto simp: stateR_Inr submittingRecord_def split: if_splits)

lemma submitTail_emitted:
  assumes "bindR (keyedWindow env adm) (\<lambda>_.
      bindR (checkR (aq_CtxErr env 1)) (\<lambda>_.
      bindR noteSubmit (\<lambda>_.
      bindR (settling env k (\<lambda>tx. runAdapter js (a tx) tx)) (\<lambda>r.
      bindR (\<lambda>tx. requireR (g tx) e tx) (\<lambda>_. returnR r))))) tx = (tx', r)"
    and "ownTx tx" and disk: "lk_Disk (ft_Lock tx) = Some x" and "\<not> deferred \<longrightarrow> submittingRecord (Some x)"
  obtains (none) "emitted tx [] tx'" "\<not> is_ok r"
  | (submitted) b z where "emitted tx (Submit (Some x) # map OnDisk b @ z) tx'" "trailing (se_Rejected (aq_Settle env)) r z"
  using assms(1)
proof (cases rule: bindR_cases)
  case (first e')
  then show ?thesis using none keyedWindow_same by fastforce
next
  case (both tx1 u)
  have t1: "tx1 = tx" using keyedWindow_same both(1) by blast
  show ?thesis
    using both(2)
  proof (cases rule: bindR_cases)
    case (first e')
    then show ?thesis using t1 none by (auto simp: checkR_def split: option.splits)
  next
    case c: (both tx2 u2)
    have t2: "tx2 = tx" using c(1) t1 by simp
    let ?tx3 = "fst (noteSubmit tx)"
    have n: "emitted tx [Submit (Some x)] ?tx3" using noteSubmit_emitted [of tx] disk by simp
    have "bindR (settling env k (\<lambda>tx. runAdapter js (a tx) tx)) (\<lambda>r.
        bindR (\<lambda>tx. requireR (g tx) e tx) (\<lambda>_. returnR r)) ?tx3 = (tx', r)"
      using c(2) t2 by (simp add: bindR_def [of noteSubmit] noteSubmit_def)
    then obtain b z where "emitted ?tx3 (map OnDisk b @ z) tx'" "trailing (se_Rejected (aq_Settle env)) r z"
      using afterSubmit_emitted [of env k js a g e ?tx3 tx' r] emitted_own [OF n assms(2)] by blast
    with emitted_trans [OF n] submitted show ?thesis by fastforce
  qed
qed

lemma submitFixed_emitted:
  assumes run: "submitFixed env opts ops ob tx = (tx', r)" and own: "ownTx tx" and ok: "dirOk (lk_Dir (ft_Lock tx))"
  obtains (none) a z where "emitted tx (map OnDisk a @ z) tx'" "trailing (se_Rejected (aq_Settle env)) r z" "\<not> is_ok r"
  | (submitted) es where "emitted tx es tx'" "submitShape (se_Rejected (aq_Settle env)) (op_DeferredAdmission ops) es" "is_ok r \<longrightarrow> \<not> removes es"
      "submissionAllowed env (the (op_Admission ops)) ob tx"
  using run unfolding submitFixed_def Let_def
proof (cases rule: bindR_cases)
  case (first e)
  then show ?thesis using none [of "[]" "[]"] by (auto simp: requireR_def split: if_splits)
next
  case (both tx0 u)
  then have t0: "tx0 = tx" and allowed: "submissionAllowed env (the (op_Admission ops)) ob tx" by simp_all
  show ?thesis
    using both(2)
  proof (cases rule: bindR_cases)
    case (first e)
    then show ?thesis
      using settling_emitted [OF quietStage_plan first(1)] own t0 none
      by (metis Inl_Inr_False is_ok.simps(1) trailing_def)
  next
    case p: (both tx1 u1)
    then obtain a where a: "emitted tx (map OnDisk a) tx1"
      and d1: "lk_Disk (ft_Lock tx1) \<noteq> None"
      using settling_emitted [OF quietStage_plan p(1)] own t0 ok planAndRecord_durable
      by (metis sum.distinct(1))
    have own1: "ownTx tx1" and ok1: "dirOk (lk_Dir (ft_Lock tx1))"
      using emitted_own [OF a own] emitted_dirOk [OF a ok] by simp_all
    have q: "quietStage (if op_DeferredAdmission ops then returnR () else stateR (Admit (aq_Now env 3)))" by simp
    show ?thesis
      using p(2)
    proof (cases rule: bindR_cases)
      case (first e)
      then obtain b where "emitted tx1 (map OnDisk b) tx'" using quiet_emitted [OF q] own1 by blast
      with emitted_trans [OF a this] first show ?thesis using none [of "a @ b" "[]"] by simp
    next
      case m: (both tx2 u2)
      obtain b where "emitted tx1 (map OnDisk b) tx2" using quiet_emitted [OF q m(1) own1] .
      then have ab: "emitted tx (map OnDisk (a @ b)) tx2" using emitted_trans [OF a] by simp
      obtain x where x: "lk_Disk (ft_Lock tx2) = Some x"
        and rec: "\<not> op_DeferredAdmission ops \<longrightarrow> submittingRecord (Some x)"
        using admitted_record [OF m(1) own1 ok1 d1] by auto
      show ?thesis
      proof (cases rule: submitTail_emitted [OF m(2) emitted_own [OF ab own] x rec])
        case n: 1
        with emitted_trans [OF ab n(1)] none [of "a @ b" "[]"] show ?thesis by simp
      next
        case submitted: (2 c z)
        from emitted_trans [OF ab submitted(1)]
        have e: "emitted tx (map OnDisk (a @ b) @ Submit (Some x) # map OnDisk c @ z) tx'" by simp
        show ?thesis
        proof (rule that(2) [OF e _ _ allowed])
          show "submitShape (se_Rejected (aq_Settle env)) (op_DeferredAdmission ops) (map OnDisk (a @ b) @ Submit (Some x) # map OnDisk c @ z)"
            unfolding submitShape_def using rec submitted(2)
            by (intro exI [of _ "a @ b"] exI [of _ c] exI [of _ x] exI [of _ z]) (auto simp: trailing_def)
          show "is_ok r \<longrightarrow> \<not> removes (map OnDisk (a @ b) @ Submit (Some x) # map OnDisk c @ z)"
            using submitted(2) by (auto simp: trailing_def)
        qed
      qed
    qed
  qed
qed

lemma submitShape_append:
  assumes "submitShape P d es"
  shows "submitShape P d (map OnDisk a @ es)"
proof -
  from assms obtain a' b x z where "es = map OnDisk a' @ Submit (Some x) # map OnDisk b @ z"
    "retired P z" "\<not> d \<longrightarrow> submittingRecord (Some x)"
    unfolding submitShape_def by blast
  then show ?thesis
    unfolding submitShape_def
    by (intro exI [of _ "a @ a'"] exI [of _ b] exI [of _ x] exI [of _ z]) simp
qed

lemma submitShape_quiet:
  assumes "submitShape P d es" and "\<not> removes es"
  shows "submitShape P d (es @ map OnDisk c)"
proof -
  obtain a b x z where es: "es = map OnDisk a @ Submit (Some x) # map OnDisk b @ z"
    and z: "retired P z" and x: "\<not> d \<longrightarrow> submittingRecord (Some x)"
    using assms(1) unfolding submitShape_def by blast
  have "z = []" using retired_quiet [OF z] es assms(2) by simp
  with es x show ?thesis
    unfolding submitShape_def
    by (intro exI [of _ a] exI [of _ "b @ c"] exI [of _ x] exI [of _ "[]"]) simp
qed

text \<open>The whole attempt: a possible removal ends it, and at most one submission is made, after its
  record is on disk.\<close>

definition attemptShape :: "(gerr \<Rightarrow> bool) \<Rightarrow> bool \<Rightarrow> 'a res \<Rightarrow> event list \<Rightarrow> bool" where
  "attemptShape P deferred r es \<longleftrightarrow>
     (\<exists>a z. es = map OnDisk a @ z \<and> trailing P r z)
     \<or> (submitShape P deferred es \<and> (is_ok r \<longrightarrow> \<not> removes es))"

lemma attemptShape_write: "trailing P r z \<Longrightarrow> attemptShape P d r (map OnDisk a @ z)"
  unfolding attemptShape_def by blast

lemma attemptShape_error: "attemptShape P d (Inl e) es \<Longrightarrow> attemptShape P d (Inl e') es"
  by (simp add: attemptShape_def trailing_def)

lemma attemptShape_prepend:
  assumes "attemptShape P d r es"
  shows "attemptShape P d r (map OnDisk a @ es)"
  using assms unfolding attemptShape_def
proof (elim disjE exE conjE)
  fix b z
  assume "es = map OnDisk b @ z" "trailing P r z"
  then have "map OnDisk a @ es = map OnDisk (a @ b) @ z \<and> trailing P r z" by simp
  then show "(\<exists>b z. map OnDisk a @ es = map OnDisk b @ z \<and> trailing P r z)
      \<or> submitShape P d (map OnDisk a @ es) \<and> (is_ok r \<longrightarrow> \<not> removes (map OnDisk a @ es))" by blast
next
  assume "submitShape P d es" "is_ok r \<longrightarrow> \<not> removes es"
  then have "submitShape P d (map OnDisk a @ es)" "is_ok r \<longrightarrow> \<not> removes (map OnDisk a @ es)"
    using submitShape_append by auto
  then show "(\<exists>b z. map OnDisk a @ es = map OnDisk b @ z \<and> trailing P r z)
      \<or> submitShape P d (map OnDisk a @ es) \<and> (is_ok r \<longrightarrow> \<not> removes (map OnDisk a @ es))" by blast
qed

lemma attemptShape_then:
  assumes "attemptShape P d (Inr x) es"
  shows "attemptShape P d r (es @ map OnDisk b)"
  using assms unfolding attemptShape_def
proof (elim disjE exE conjE)
  fix a z
  assume "es = map OnDisk a @ z" "trailing P (Inr x) z"
  then have "es @ map OnDisk b = map OnDisk (a @ b) @ [] \<and> trailing P r []" by (auto simp: trailing_def)
  then show "(\<exists>a z. es @ map OnDisk b = map OnDisk a @ z \<and> trailing P r z)
      \<or> submitShape P d (es @ map OnDisk b) \<and> (is_ok r \<longrightarrow> \<not> removes (es @ map OnDisk b))" by blast
next
  assume "submitShape P d es" "is_ok (Inr x) \<longrightarrow> \<not> removes es"
  then have "submitShape P d (es @ map OnDisk b)" "is_ok r \<longrightarrow> \<not> removes (es @ map OnDisk b)"
    using submitShape_quiet by auto
  then show "(\<exists>a z. es @ map OnDisk b = map OnDisk a @ z \<and> trailing P r z)
      \<or> submitShape P d (es @ map OnDisk b) \<and> (is_ok r \<longrightarrow> \<not> removes (es @ map OnDisk b))" by blast
qed

definition submits :: "event list \<Rightarrow> bool" where
  "submits es \<longleftrightarrow> (\<exists>x. Submit x \<in> set es)"

lemma submits_simps [simp]:
  "\<not> submits []" "submits (es @ fs) \<longleftrightarrow> submits es \<or> submits fs" "\<not> submits (map OnDisk a)"
  "\<not> submits [Removed e]" "submits [Submit x]"
  by (auto simp: submits_def)

lemma retired_no_submission: "retired P z \<Longrightarrow> \<not> submits z"
  by (auto simp: retired_def)

lemma accessStage_quiet:
  "quietStage (bindR (case idf of None \<Rightarrow> returnR () | Some ident \<Rightarrow> stateR (BindTx js (ident r))) (\<lambda>_.
      bindR (\<lambda>tx. runAdapter js (p tx r) tx) (\<lambda>t.
      bindR (\<lambda>tx. requireR (accessMatches t (ft_Claim tx)) e tx) (\<lambda>_.
      bindR (stateR (Record ''bound'')) (\<lambda>_. returnR t)))))"
  by (intro quietStage_bind quietStage_adapter) (simp_all split: option.splits)

lemma acquireTx_emitted:
  assumes run: "acquireTx env opts ops tx = (tx', r)" and own: "ownTx tx" and ok: "dirOk (lk_Dir (ft_Lock tx))"
  obtains es where "emitted tx es tx'" "attemptShape (se_Rejected (aq_Settle env)) (op_DeferredAdmission ops) r es"
    "submits es \<longrightarrow> (\<exists>tx1. permits (the (op_Admission ops)) (aq_Now env 2) tx1 \<and> unboundClaim (ft_Claim tx1)
      \<and> ft_fresh tx1 = ft_fresh tx)"
proof -
  note q = quietStage_adapter
  from run show ?thesis
    unfolding acquireTx_def Let_def
  proof (cases rule: bindR_cases)
    case (first e)
    then obtain a z where e: "emitted tx (map OnDisk a @ z) tx'" and z: "retired (se_Rejected (aq_Settle env)) z"
      using settling_emitted [OF q first(1) own] by (metis sum.distinct(1))
    moreover have "attemptShape (se_Rejected (aq_Settle env)) (op_DeferredAdmission ops) r (map OnDisk a @ z)"
      using z first unfolding attemptShape_def trailing_def by auto
    moreover have "\<not> submits (map OnDisk a @ z)" using retired_no_submission [OF z] by simp
    ultimately show ?thesis using that by blast
  next
    case (both tx1 ob)
    obtain a where a: "emitted tx (map OnDisk a) tx1"
      using settling_emitted [OF q both(1) own] by (metis sum.distinct(1))
    have own1: "ownTx tx1" and ok1: "dirOk (lk_Dir (ft_Lock tx1))" and fr: "ft_fresh tx1 = ft_fresh tx"
      using emitted_own [OF a own] emitted_dirOk [OF a ok] a by (simp_all add: emitted_def)
    show ?thesis
      using both(2)
    proof (cases rule: bindR_cases)
      case (first e)
      then have "tx' = tx1" by (simp add: checkR_def split: option.splits)
      then show ?thesis
        using a that [of "map OnDisk a"] attemptShape_write [OF trailing_Nil, where r = r and a = a] by simp
    next
      case c: (both tx2 u)
      then have t2: "tx2 = tx1" by simp
      let ?choose = "if length (ob_Candidates ob) = 1 then adoptFixed env ob else submitFixed env opts ops ob"
      have choose: "\<exists>es. emitted tx1 es txa \<and> attemptShape (se_Rejected (aq_Settle env)) (op_DeferredAdmission ops) ra es
          \<and> (submits es \<longrightarrow> submissionAllowed env (the (op_Admission ops)) ob tx1)"
        if "?choose tx1 = (txa, ra)" for txa ra
      proof (cases "length (ob_Candidates ob) = 1")
        case True
        then have "adoptFixed env ob tx1 = (txa, ra)" using that by simp
        then obtain b where "emitted tx1 (map OnDisk b) txa" using quiet_emitted [OF quietStage_adopt _ own1] by blast
        then show ?thesis unfolding attemptShape_def by (metis append_Nil2 submits_simps(3) trailing_Nil)
      next
        case False
        then have "submitFixed env opts ops ob tx1 = (txa, ra)" using that by simp
        then show ?thesis
        proof (cases rule: submitFixed_emitted [OF _ own1 ok1, consumes 1])
          case (1 b z)
          then show ?thesis using retired_no_submission [of _ z] unfolding attemptShape_def trailing_def
            by (intro exI [of _ "map OnDisk b @ z"]) auto
        next
          case (2 es)
          then show ?thesis unfolding attemptShape_def by blast
        qed
      qed
      show ?thesis
        using c(2) unfolding t2
      proof (cases rule: bindR_cases)
        case (first e)
        obtain es where es: "emitted tx1 es tx'" "attemptShape (se_Rejected (aq_Settle env)) (op_DeferredAdmission ops) r es"
          "submits es \<longrightarrow> submissionAllowed env (the (op_Admission ops)) ob tx1"
          using choose [OF first(1)] unfolding first(2) using attemptShape_error by blast
        have "attemptShape (se_Rejected (aq_Settle env)) (op_DeferredAdmission ops) r (map OnDisk a @ es)"
          using attemptShape_prepend [OF es(2)] .
        moreover have "submits (map OnDisk a @ es) \<longrightarrow> submits es" by simp
        ultimately show ?thesis
          using es(3) fr that [OF emitted_trans [OF a es(1)]] by (auto simp: submissionAllowed_def)
      next
        case s: (both tx3 res)
        obtain es where es: "emitted tx1 es tx3" "attemptShape (se_Rejected (aq_Settle env)) (op_DeferredAdmission ops) (Inr res) es"
          "submits es \<longrightarrow> submissionAllowed env (the (op_Admission ops)) ob tx1"
          using choose [OF s(1)] by blast
        have own3: "ownTx tx3" using emitted_own [OF es(1) own1] .
        obtain b where b: "emitted tx3 (map OnDisk b) tx'" 
          using quiet_emitted [OF accessStage_quiet [where idf = "op_Identity ops" and js = "aq_JSON env" and r = res and p = "the (op_PrepareAccess ops)"] s(2) own3] .
        have e: "emitted tx (map OnDisk a @ es @ map OnDisk b) tx'"
          using emitted_trans [OF a emitted_trans [OF es(1) b]] .
        have "attemptShape (se_Rejected (aq_Settle env)) (op_DeferredAdmission ops) r (map OnDisk a @ es @ map OnDisk b)"
          using attemptShape_prepend [OF attemptShape_then [OF es(2)]] .
        moreover have "submits (map OnDisk a @ es @ map OnDisk b) \<longrightarrow> submits es" by simp
        ultimately show ?thesis
          using es(3) fr that [OF e] by (auto simp: submissionAllowed_def)
      qed
    qed
  qed
qed

end
