(* ===== verification/FixedSafety.thy ===== *)
theory FixedSafety
  imports FixedAcquire
begin

text \<open>
  Safety of fixed acquisition: what a run of \<open>AcquireFixedResource\<close> does to the claim file and to the
  cloud, in which order, and what a history of runs with crashes can do. The engine's guarantee is
  that the record of a submission is durable before the submission, so that a later run finds it.
\<close>

section \<open>A run under the claim lock\<close>

definition lockEmitted :: "lockState \<Rightarrow> event list \<Rightarrow> lockState \<Rightarrow> bool" where
  "lockEmitted l es l' \<longleftrightarrow> lk_LeaseID l' = lk_LeaseID l \<and> lk_Trace l' = lk_Trace l @ es
     \<and> lk_Dir l' = replayDir (lk_LeaseID l) (lk_Dir l) es \<and> truthful (lk_LeaseID l) (lk_Dir l) es"

lemma lockEmitted_refl [simp]: "lockEmitted l [] l"
  by (simp add: lockEmitted_def)

lemma lockEmitted_claim [simp]:
  "lockEmitted (l\<lparr>lk_Claim := c\<rparr>) es l' \<longleftrightarrow> lockEmitted l es l'" "lockEmitted l es (l'\<lparr>lk_Claim := c\<rparr>) \<longleftrightarrow> lockEmitted l es l'"
  by (simp_all add: lockEmitted_def)

lemma lockEmitted_trans: "lockEmitted l es l1 \<Longrightarrow> lockEmitted l1 fs l2 \<Longrightarrow> lockEmitted l (es @ fs) l2"
  by (simp add: lockEmitted_def)

lemma lockEmitted_dirOk: "lockEmitted l es l' \<Longrightarrow> dirOk (lk_Dir l) \<Longrightarrow> dirOk (lk_Dir l')"
  by (simp add: lockEmitted_def)

lemma emitted_lock: "emitted tx es tx' \<Longrightarrow> lockEmitted (ft_Lock tx) es (ft_Lock tx')"
  by (simp add: emitted_def lockEmitted_def)

lemma persist_emitted:
  assumes "persist l = (l', err)"
  obtains (failed) "err \<noteq> None" "lockEmitted l [] l'"
  | (stored) "lockEmitted l [OnDisk (lk_Claim l')] l'"
  using assms by (cases rule: persist_cases) (simp_all add: lockEmitted_def)

lemma persistR_emitted:
  assumes "persistR l = (l', r)"
  obtains cs where "lockEmitted l (map OnDisk cs) l'" "is_ok r \<longrightarrow> cs = [lk_Claim l']"
proof -
  obtain err where p: "persist l = (l', err)" and r: "is_ok r \<longleftrightarrow> err = None"
    using assms by (auto simp: persistR_def stateR_def split: prod.splits option.splits)
  from p show ?thesis
  proof (cases rule: persist_emitted)
    case failed
    then show ?thesis using that [of "[]"] r by simp
  next
    case stored
    then show ?thesis using that [of "[lk_Claim l']"] by simp
  qed
qed

lemma newFixedTransaction_own:
  assumes "newFixedTransaction l fresh persist = Inr tx" and "LeaseID (lk_Claim l) = lk_LeaseID l \<or> LeaseID (lk_Claim l) = []"
  shows "ownTx (tx\<lparr>ft_admission := adm\<rparr>)" "ft_Lock tx = l" "ft_fresh tx = fresh"
  using assms by (auto simp: newFixedTransaction_def Let_def ownTx_def split: option.splits)

definition admissible :: "acquireEnv \<Rightarrow> 'r FixedLeaseOperations \<Rightarrow> bool \<Rightarrow> bool" where
  "admissible env ops fresh \<longleftrightarrow>
     (\<exists>tx. permits (the (op_Admission ops)) (aq_Now env 2) tx \<and> unboundClaim (ft_Claim tx) \<and> ft_fresh tx = fresh)"

lemma acquireResource_emitted:
  assumes "acquireResource env opts ops fresh l = (l', r)" and "dirOk (lk_Dir l)"
    and "LeaseID (lk_Claim l) = lk_LeaseID l \<or> LeaseID (lk_Claim l) = []"
  obtains es where "lockEmitted l es l'" "attemptShape (se_Rejected (aq_Settle env)) (op_DeferredAdmission ops) r es"
    "submits es \<longrightarrow> admissible env ops fresh"
proof (cases "newFixedTransaction l fresh persist")
  case (Inl e)
  then have "l' = l" using assms(1) by (simp add: acquireResource_def)
  then show ?thesis using that [of "[]"] attemptShape_write [of _ r "[]" _ "[]"] by simp
next
  case (Inr tx)
  let ?tx = "tx\<lparr>ft_admission := op_Admission ops\<rparr>"
  note n = newFixedTransaction_own [OF Inr assms(3)]
  obtain tx' where t: "acquireTx env opts ops ?tx = (tx', r)" and l': "l' = ft_Lock tx'"
    using assms(1) Inr by (auto simp: acquireResource_def split: prod.splits)
  have "dirOk (lk_Dir (ft_Lock ?tx))" using n(2) assms(2) by simp
  from acquireTx_emitted [OF t n(1) this]
  obtain es where "emitted ?tx es tx'" "attemptShape (se_Rejected (aq_Settle env)) (op_DeferredAdmission ops) r es"
    "submits es \<longrightarrow> admissible env ops fresh"
    by (auto simp: admissible_def n(3))
  with emitted_lock [of ?tx es tx'] n(2) l' that show ?thesis by simp
qed

lemma openIntent_emitted:
  assumes "openIntent env opts prepare l = (l', r)"
    and "LeaseID (lk_Claim l) = lk_LeaseID l \<or> LeaseID (lk_Claim l) = []" and "lk_LeaseID l = ao_LeaseID opts"
  obtains cs where "lockEmitted l (map OnDisk cs) l'"
    "is_ok r \<longrightarrow> LeaseID (lk_Claim l') = lk_LeaseID l' \<or> LeaseID (lk_Claim l') = []"
proof (cases "prepare (lk_Claim l) (lk_Exists l)")
  case (Inl e)
  then show ?thesis using assms that [of "[]"] by (simp add: openIntent_def)
next
  case (Inr b)
  show ?thesis
  proof (cases "lk_Exists l \<or> (\<exists>e. freshSlug env opts b (lk_Dir l) = Inl e)
      \<or> (\<exists>e slug. freshSlug env opts b (lk_Dir l) = Inr slug \<and> freshIntent opts b slug (aq_Now env 0) = Inl e)")
    case True
    then have "l' = l" using assms(1) Inr by (auto simp: openIntent_def checkR_def split: sum.splits if_splits)
    then show ?thesis using that [of "[]"] assms(2) by simp
  next
    case False
    then obtain slug i where f: "\<not> lk_Exists l" "freshSlug env opts b (lk_Dir l) = Inr slug"
      "freshIntent opts b slug (aq_Now env 0) = Inr i"
      by (metis sum.exhaust)
    let ?l = "l\<lparr>lk_Claim := freshClaim opts b slug (aq_Now env 0) i (lk_Claim l)\<rparr>"
    have p: "persistR ?l = (l', r)" using f Inr assms(1) by (simp add: openIntent_def)
    then obtain cs where cs: "lockEmitted ?l (map OnDisk cs) l'" by (rule persistR_emitted)
    have "is_ok r \<longrightarrow> LeaseID (lk_Claim l') = lk_LeaseID l'"
    proof
      assume "is_ok r"
      then have "persist ?l = (l', None)"
        using p by (auto simp: persistR_def stateR_def split: prod.splits option.splits)
      then show "LeaseID (lk_Claim l') = lk_LeaseID l'"
        by (cases rule: persist_cases) (auto simp: stamped_def Let_def freshClaim_def assms(3))
    qed
    with cs that [of cs] show ?thesis by simp
  qed
qed

lemma attemptShape_weak: "attemptShape P d r es \<Longrightarrow> attemptShape P d (Inl e) es"
  by (auto simp: attemptShape_def trailing_def)

definition publishing ::
  "FixedAcquireOptions \<Rightarrow> (bool \<Rightarrow> (lockState, LeaseTarget) proc) \<Rightarrow> bool \<Rightarrow> (lockState, LeaseTarget) proc" where
  "publishing opts acquire fresh =
     bindR (acquire fresh) (\<lambda>t l. (l\<lparr>lk_Claim := publishAcquired opts t (lk_Claim l)\<rparr>, Inr t))"

lemma publishing_emitted:
  assumes "publishing opts (acquireResource env opts' ops) fresh l = (l', r)" and "dirOk (lk_Dir l)"
    and "LeaseID (lk_Claim l) = lk_LeaseID l \<or> LeaseID (lk_Claim l) = []"
  obtains es where "lockEmitted l es l'" "attemptShape (se_Rejected (aq_Settle env)) (op_DeferredAdmission ops) r es"
    "submits es \<longrightarrow> admissible env ops fresh"
  using assms(1) unfolding publishing_def
proof (cases rule: bindR_cases)
  case (first e)
  with acquireResource_emitted [OF first(1) assms(2,3)] show ?thesis using that by blast
next
  case (both l1 t)
  obtain es where "lockEmitted l es l1" "attemptShape (se_Rejected (aq_Settle env)) (op_DeferredAdmission ops) (Inr t) es"
    "submits es \<longrightarrow> admissible env ops fresh"
    using acquireResource_emitted [OF both(1) assms(2,3)] .
  with both(2) that [of es] show ?thesis by auto
qed

lemma acquireUnderLock_emitted:
  assumes run: "acquireUnderLock env opts prepare (publishing opts (acquireResource env opts' ops)) l = (l', r)"
    and ok: "dirOk (lk_Dir l)" and id: "LeaseID (lk_Claim l) = lk_LeaseID l \<or> LeaseID (lk_Claim l) = []"
    and own: "lk_LeaseID l = ao_LeaseID opts"
  obtains es where "lockEmitted l es l'" "attemptShape (se_Rejected (aq_Settle env)) (op_DeferredAdmission ops) (Inl e :: unit res) es"
    "submits es \<longrightarrow> admissible env ops (\<not> lk_Exists l)"
proof -
  note goal = that
  have none: thesis if "lockEmitted l (map OnDisk cs) l'" for cs
    using that by (rule goal) (use attemptShape_write [of _ "Inl e :: unit res" "[]" _ cs] in simp_all)
  from run show ?thesis
    unfolding acquireUnderLock_def
  proof (cases rule: bindR_cases)
    case (first e)
    then show ?thesis using none [of "[]"] by (auto simp: checkR_def split: option.splits)
  next
    case (both l0 u)
    then have l0: "l0 = l" by simp
    show ?thesis
      using both(2) unfolding l0
    proof (cases rule: bindR_cases)
      case (first e)
      then show ?thesis using openIntent_emitted [OF first(1) id own] none by blast
    next
      case o: (both l1 u1)
      obtain cs where cs: "lockEmitted l (map OnDisk cs) l1"
        and id1: "LeaseID (lk_Claim l1) = lk_LeaseID l1 \<or> LeaseID (lk_Claim l1) = []"
        using openIntent_emitted [OF o(1) id own] by (metis is_ok.simps(2))
      show ?thesis
        using o(2)
      proof (cases rule: bindR_cases)
        case (first e)
        then have "l' = l1" by (auto simp: checkR_def split: option.splits)
        then show ?thesis using none cs by blast
      next
        case g: (both l2 u2)
        then have l2: "l2 = l1" by simp
        show ?thesis
          using g(2) unfolding l2
        proof (cases rule: bindR_cases)
          case (first e')
          obtain es where es: "lockEmitted l1 es l'" "attemptShape (se_Rejected (aq_Settle env)) (op_DeferredAdmission ops) (Inl e' :: LeaseTarget res) es"
            "submits es \<longrightarrow> admissible env ops (\<not> lk_Exists l)"
            using publishing_emitted [OF first(1) lockEmitted_dirOk [OF cs ok] id1] by blast
          show ?thesis
          proof (rule that [OF lockEmitted_trans [OF cs es(1)]])
            show "attemptShape (se_Rejected (aq_Settle env)) (op_DeferredAdmission ops) (Inl e :: unit res) (map OnDisk cs @ es)"
              by (rule attemptShape_prepend [OF attemptShape_error [OF es(2)]])
          qed (use es(3) in simp)
        next
          case a: (both l3 t)
          obtain es where es: "lockEmitted l1 es l3" "attemptShape (se_Rejected (aq_Settle env)) (op_DeferredAdmission ops) (Inr t) es"
            "submits es \<longrightarrow> admissible env ops (\<not> lk_Exists l)"
            using publishing_emitted [OF a(1) lockEmitted_dirOk [OF cs ok] id1] by blast
          obtain r1 where "persistR (l3\<lparr>lk_Claim := acquiredClaim (aq_Now env 5) (lk_Claim l3)\<rparr>) = (l', r1)"
            using a(2) by (cases rule: bindR_cases) auto
          then obtain b where b: "lockEmitted l3 (map OnDisk b) l'" by (rule persistR_emitted) auto
          show ?thesis
          proof (rule that [OF lockEmitted_trans [OF cs lockEmitted_trans [OF es(1) b]]])
            show "attemptShape (se_Rejected (aq_Settle env)) (op_DeferredAdmission ops) (Inl e :: unit res) (map OnDisk cs @ es @ map OnDisk b)"
              by (rule attemptShape_prepend [OF attemptShape_then [OF es(2)]])
          qed (use es(3) in simp)
        qed
      qed
    qed
  qed
qed

lemma lock_body:
  assumes "WithDurableLeaseClaimLockContext i env action d = (d', tr, r)"
  obtains (refused) "d' = d" "tr = []" "\<not> is_ok r"
  | (ran) c exists l where
      "action \<lparr>lk_LeaseID = i, lk_Claim = c, lk_Exists = exists, lk_Dir = d, lk_IO = le_IO env, lk_N = 0, lk_Trace = []\<rparr> = (l, r)"
      "d' = lk_Dir l" "tr = lk_Trace l" "readLeaseClaimPathWithPresence d (claimFile i) = Inr (c, exists)"
      "LeaseID c = i \<or> LeaseID c = []" "exists \<longleftrightarrow> map_of d (claimFile i) \<noteq> None"
proof -
  consider e where "leaseClaimPath (le_StateDirErr env) i = Inl e"
    | "leaseClaimPath (le_StateDirErr env) i = Inr (claimFile i)"
    by (cases "le_StateDirErr env"; cases "validLeaseClaimPathID i") (auto simp: leaseClaimPath_def)
  then show ?thesis
  proof cases
    case 1
    then show ?thesis using assms by (intro refused) (auto simp: WithDurableLeaseClaimLockContext_def)
  next
    case 2
    show ?thesis
    proof (cases "le_NearestErr env = None \<and> le_MkdirErr env = None \<and> le_LockErr env = None
        \<and> (\<exists>c ex. readLeaseClaimPathWithPresence d (claimFile i) = Inr (c, ex) \<and> validateLeaseClaimFileIdentity i c ex = None)")
      case False
      then show ?thesis using assms 2
        by (intro refused) (auto simp: WithDurableLeaseClaimLockContext_def split: option.splits sum.splits)
    next
      case True
      then obtain c ex where rd: "readLeaseClaimPathWithPresence d (claimFile i) = Inr (c, ex)"
        and v: "validateLeaseClaimFileIdentity i c ex = None" by blast
      have ex: "ex \<longleftrightarrow> map_of d (claimFile i) \<noteq> None" and c0: "\<not> ex \<Longrightarrow> c = zeroClaim"
        using rd by (auto simp: readLeaseClaimPathWithPresence_def split: option.splits cfile.splits sum.splits)
      have "LeaseID c = i \<or> LeaseID c = []"
        using v c0 by (cases ex) (auto simp: validateLeaseClaimFileIdentity_def zeroClaim_def split: if_splits)
      moreover obtain l r' where a: "action \<lparr>lk_LeaseID = i, lk_Claim = c, lk_Exists = ex, lk_Dir = d, lk_IO = le_IO env, lk_N = 0, lk_Trace = []\<rparr> = (l, r')"
        by fastforce
      ultimately show ?thesis using assms 2 True rd v ex
        by (intro ran [of c ex l]) (simp_all add: WithDurableLeaseClaimLockContext_def)
    qed
  qed
qed

lemma AcquireFixedResource_emitted:
  assumes run: "AcquireFixedResource env opts ops d = (d', tr, r)" and ok: "dirOk d"
  shows "d' = replayDir (ao_LeaseID opts) d tr" "truthful (ao_LeaseID opts) d tr"
    "attemptShape (se_Rejected (aq_Settle env)) (op_DeferredAdmission ops) (Inl (Fail []) :: unit res) tr"
    "submits tr \<longrightarrow> admissible env ops (map_of d (claimFile (ao_LeaseID opts)) = None)"
proof -
  let ?goal = "d' = replayDir (ao_LeaseID opts) d tr \<and> truthful (ao_LeaseID opts) d tr
    \<and> attemptShape (se_Rejected (aq_Settle env)) (op_DeferredAdmission ops) (Inl (Fail []) :: unit res) tr
    \<and> (submits tr \<longrightarrow> admissible env ops (map_of d (claimFile (ao_LeaseID opts)) = None))"
  have none: ?goal if "d' = d" "tr = []"
    using that attemptShape_write [of _ "Inl (Fail []) :: unit res" "[]" _ "[]"] by simp
  let ?o = "opts\<lparr>ao_journal := True\<rparr>"
  have ?goal
  proof (cases "acquireConfigured ops")
    case (Some e)
    then show ?thesis using none run by (simp add: AcquireFixedResource_def)
  next
    case None
    obtain r2 where "WithDurableLeaseClaimLockContext (ao_LeaseID opts) (aq_Lock env)
        (acquireUnderLock env ?o (describeForReplay ops) (publishing ?o (acquireResource env opts ops))) d = (d', tr, r2)"
      using run None
      by (auto simp: AcquireFixedResource_def AcquireFixedLease_def AcquireFixedIntent_def publishing_def [abs_def]
          split: prod.splits sum.splits)
    then show ?thesis
    proof (cases rule: lock_body)
      case refused
      then show ?thesis using none by blast
    next
      case (ran c ex l)
      let ?l = "\<lparr>lk_LeaseID = ao_LeaseID opts, lk_Claim = c, lk_Exists = ex, lk_Dir = d, lk_IO = le_IO (aq_Lock env), lk_N = 0, lk_Trace = []\<rparr>"
      obtain es where "lockEmitted ?l es l" "attemptShape (se_Rejected (aq_Settle env)) (op_DeferredAdmission ops) (Inl (Fail []) :: unit res) es"
        "submits es \<longrightarrow> admissible env ops (\<not> ex)"
        by (rule acquireUnderLock_emitted [OF ran(1), of "Fail []"]) (use ok ran(5) in auto)
      then show ?thesis using ran(2,3,6) by (simp add: lockEmitted_def)
    qed
  qed
  then show "d' = replayDir (ao_LeaseID opts) d tr" "truthful (ao_LeaseID opts) d tr"
    "attemptShape (se_Rejected (aq_Settle env)) (op_DeferredAdmission ops) (Inl (Fail []) :: unit res) tr"
    "submits tr \<longrightarrow> admissible env ops (map_of d (claimFile (ao_LeaseID opts)) = None)" by blast+
qed

lemma submitShape_once:
  assumes "submitShape P d tr" and "tr = pre @ Submit x # post"
  shows "\<not> submits pre \<and> \<not> submits post \<and> x \<noteq> None \<and> (\<not> d \<longrightarrow> submittingRecord x)"
proof -
  obtain a b c z where t: "tr = map OnDisk a @ Submit (Some c) # map OnDisk b @ z"
    and z: "retired P z" and rc: "\<not> d \<longrightarrow> submittingRecord (Some c)"
    using assms(1) unfolding submitShape_def by blast
  have no: "\<not> submits (map OnDisk b @ z)" using retired_no_submission [OF z] by simp
  have "Submit x \<in> set tr" using assms(2) by simp
  with t no have x: "x = Some c" by (auto simp: submits_def)
  have "map OnDisk a @ Submit (Some c) # (map OnDisk b @ z) = pre @ Submit (Some c) # post"
    using t assms(2) x by simp
  then have "map OnDisk a = pre \<and> map OnDisk b @ z = post"
    by (subst (asm) append_Cons_eq_iff) (use no in \<open>auto simp: submits_def\<close>)
  with no rc x show ?thesis by auto
qed

lemma attemptShape_once:
  assumes "attemptShape P d (Inl e) tr" and "tr = pre @ Submit x # post"
  shows "\<not> submits pre \<and> \<not> submits post \<and> x \<noteq> None \<and> (\<not> d \<longrightarrow> submittingRecord x)"
proof -
  have "submits tr" using assms(2) by (auto simp: submits_def)
  then have "\<not> (\<exists>a z. tr = map OnDisk a @ z \<and> trailing P (Inl e) z)" by (auto simp: trailing_def dest: retired_no_submission)
  then have "submitShape P d tr" using assms(1) unfolding attemptShape_def by blast
  from submitShape_once [OF this assms(2)] show ?thesis .
qed

section \<open>Properties\<close>

text \<open>C1: A native submission is recorded before it is made. Whatever the provider adapter does
  through its transaction and whatever the disk does, when \<open>AcquireFixedResource\<close> (with admission
  not deferred to the adapter) calls the native submission, the claim file on disk at that moment is
  a claim in state \<open>prepared\<close> whose journal says \<open>submitting\<close> and which carries the attempt, so that
  a crash during the call leaves the evidence of it. A run submits at most once, and the trace
  accounts for every change of the file.\<close>

theorem submission_recorded_first:
  assumes "AcquireFixedResource env opts ops d = (d', tr, r)" and "dirOk d" and "\<not> op_DeferredAdmission ops"
    and "tr = pre @ Submit x # post"
  shows "x = claimAt (replayDir (ao_LeaseID opts) d pre) (ao_LeaseID opts) \<and> submittingRecord x
     \<and> \<not> submits (pre @ post) \<and> d' = replayDir (ao_LeaseID opts) d tr"
proof -
  note e = AcquireFixedResource_emitted [OF assms(1,2)]
  have "x = claimAt (replayDir (ao_LeaseID opts) d pre) (ao_LeaseID opts)"
    using e(2) assms(4) by simp
  with e(1) attemptShape_once [OF e(3) assms(4)] assms(3) show ?thesis by simp
qed

subsection \<open>A sample provider\<close>

text \<open>A disk and a cloud where everything works, and an adapter of a single-use lease that plans a nonce,
  submits, and reports the machine \<open>i-1\<close>.\<close>

definition sampleIO :: "nat \<Rightarrow> persistIO" where
  "sampleIO n = \<lparr>pi_Random = Inr (replicate (Suc n) CHR ''r''), pi_Write = WriteOk\<rparr>"

definition sampleLock :: lockEnv where
  "sampleLock = \<lparr>le_StateDirErr = None, le_NearestErr = None, le_MkdirErr = None, le_LockErr = None, le_IO = sampleIO\<rparr>"

definition sampleEnv :: acquireEnv where
  "sampleEnv = \<lparr>aq_Lock = sampleLock,
     aq_Settle = \<lparr>se_StateDirErr = None, se_RemoveErr = None, se_SyncErr = None, se_KeyErr = None,
        se_Rejected = (\<lambda>e. e = Native ''rejected''), se_Settled = (\<lambda>_. None)\<rparr>,
     aq_Plan = \<lparr>pe_Text = ''nonce'', pe_Read = (\<lambda>_. Inl (Fail ''rand'')), pe_Scan = quietScan\<rparr>,
     aq_JSON = \<lparr>js_Object = (\<lambda>_. Inl (Fail ''json'')), js_String = (\<lambda>_. None), js_Quote = id, js_Encode = (\<lambda>_. Inl (Fail ''json''))\<rparr>,
     aq_SHA256 = (\<lambda>_. replicate 32 0), aq_Now = (\<lambda>n. int n), aq_CtxErr = (\<lambda>_. None), aq_ReserveErr = None\<rparr>"

definition sampleOpts :: FixedAcquireOptions where
  "sampleOpts = \<lparr>ao_Retention = None, ao_Kind = sampleKind, ao_LeaseID = ''a'', ao_CheckpointID = [], ao_RepoRoot = ''/r'',
     ao_LegacyRepoRoot = [], ao_Reclaim = False, ao_TargetOS = [], ao_WindowsMode = [], ao_TTL = 0, ao_IdleTimeout = 0,
     ao_journal = False\<rparr>"

definition samplePlan :: FixedAttemptPlan where
  "samplePlan = \<lparr>pl_OwnerLabel = [], pl_PrivateLabels = fmempty, pl_UniqueProviders = [], pl_AttemptLabels = fmempty,
     pl_JSONKey = [], pl_Payload = Inl (Fail []), pl_NonceBytes = 0, pl_Values = fmempty, pl_NonceKey = ''nonce'',
     pl_LowerNonce = False, pl_NoncePrefix = [], pl_Labels = fmempty, pl_DirectLabels = None, pl_FingerprintLabel = [],
     pl_NonceLabel = [], pl_Identity = noBinding\<rparr>"

definition sampleOps :: "string FixedLeaseOperations" where
  "sampleOps = \<lparr>op_Release = None, op_PlanReservationKey = [], op_PlanDuringSubmit = False,
     op_Admission = Some \<lparr>fa_KeyedRetry = None, fa_FreshOnly = True, fa_RepeatSameIdentity = False, fa_PendingKey = [],
        fa_PendingValue = [], fa_SubmittedValue = []\<rparr>,
     op_Plan = Some (\<lambda>_. Inr samplePlan), op_Identity = Some (\<lambda>r. noBinding\<lparr>fb_CloudID := r\<rparr>), op_DeferredAdmission = False,
     op_DescribeIntent = Some (\<lambda>_ _. Inr \<lparr>lb_InitialLabels = fmempty, lb_AllocateSlug = False, lb_RejectExistingLease = False,
        lb_RequestedSlug = [], lb_Inventory = [], lb_ProviderScope = ''s'', lb_Fingerprint = ''f'', lb_Slug = ''box''\<rparr>),
     op_ObserveExact = Some (\<lambda>_ _. Return (Inr \<lparr>ob_Binding = None, ob_Candidates = [], ob_CanSubmit = True, ob_AbsenceProven = False,
        ob_Conflict = []\<rparr>)),
     op_Submit = Some (\<lambda>_. Return (Inr ''i-1'')),
     op_PrepareAccess = Some (\<lambda>tx r. Return (Inr \<lparr>lt_Server = zeroServer\<lparr>sv_CloudID := r\<rparr>, lt_SSH = zeroTarget, lt_LeaseID = LeaseID (ft_Claim tx)\<rparr>)),
     op_DeleteExact = None\<rparr>"

text \<open>The submission of the sample run is its fourth event.\<close>

definition isSubmit :: "event \<Rightarrow> bool" where
  "isSubmit e = (case e of Submit _ \<Rightarrow> True | _ \<Rightarrow> False)"

lemma sample_run:
  "map isSubmit (fst (snd (AcquireFixedResource sampleEnv sampleOpts sampleOps []))) = [False, False, False, True, False, False, False]"
  by code_simp

lemma map_split_nth:
  assumes "map f xs = replicate n False @ True # ys"
  obtains pre x post where "xs = pre @ x # post" "length pre = n" "f x"
  using assms by (auto simp: map_eq_append_conv map_eq_Cons_conv dest: arg_cong [where f = length])

theorem submission_recorded_first_witness:
  "\<exists>pre x post. fst (snd (AcquireFixedResource sampleEnv sampleOpts sampleOps [])) = pre @ Submit x # post
     \<and> length pre = 3 \<and> submittingRecord x"
proof -
  obtain d' tr r where run: "AcquireFixedResource sampleEnv sampleOpts sampleOps [] = (d', tr, r)" by (rule prod_cases3)
  have "map isSubmit tr = replicate 3 False @ True # [False, False, False]"
    using sample_run run by (simp add: eval_nat_numeral)
  then obtain pre e post where tr: "tr = pre @ e # post" "length pre = 3" and e: "isSubmit e"
    by (rule map_split_nth)
  obtain x where x: "e = Submit x" using e by (auto simp: isSubmit_def split: event.splits)
  have "dirOk []" "\<not> op_DeferredAdmission sampleOps" by (simp_all add: dirOk_def sampleOps_def)
  from submission_recorded_first [OF run this] tr x have "submittingRecord x" by blast
  with tr x run show ?thesis by auto
qed

section \<open>Histories with crashes\<close>

text \<open>A history of one lease: runs of the engine, each interrupted after some number of events (a
  run that is not interrupted has a large number), and steps of other processes.\<close>

datatype 'r historyStep =
    Run acquireEnv FixedAcquireOptions "'r FixedLeaseOperations" nat
  | Elsewhere "claimsDir \<Rightarrow> claimsDir"

fun runPrefix :: "'r historyStep \<Rightarrow> claimsDir \<Rightarrow> event list" where
  "runPrefix (Run env opts ops n) d = take n (fst (snd (AcquireFixedResource env opts ops d)))"
| "runPrefix (Elsewhere f) d = []"

fun afterStep :: "string \<Rightarrow> 'r historyStep \<Rightarrow> claimsDir \<Rightarrow> claimsDir" where
  "afterStep i (Run env opts ops n) d = replayDir i d (runPrefix (Run env opts ops n) d)"
| "afterStep i (Elsewhere f) d = f d"

fun history :: "string \<Rightarrow> 'r historyStep list \<Rightarrow> claimsDir \<Rightarrow> event list" where
  "history i [] d = []"
| "history i (s # ss) d = runPrefix s d @ history i ss (afterStep i s d)"

definition submissions :: "event list \<Rightarrow> nat" where
  "submissions es = length (filter (\<lambda>e. \<exists>x. e = Submit x) es)"

text \<open>The rejections of a run that its provider certified: the intent was removed for an error that is a
  \<open>FixedCreateRejected\<close>. An intent that is removed for any other error does not count.\<close>

definition certified :: "acquireEnv \<Rightarrow> event \<Rightarrow> bool" where
  "certified env e = (case e of Removed cause \<Rightarrow> se_Rejected (aq_Settle env) cause | _ \<Rightarrow> False)"

fun certifiedIn :: "'r historyStep \<Rightarrow> event list \<Rightarrow> nat" where
  "certifiedIn (Run env opts ops n) es = length (filter (certified env) es)"
| "certifiedIn (Elsewhere f) es = 0"

fun rejections :: "string \<Rightarrow> 'r historyStep list \<Rightarrow> claimsDir \<Rightarrow> nat" where
  "rejections i [] d = 0"
| "rejections i (s # ss) d = certifiedIn s (runPrefix s d) + rejections i ss (afterStep i s d)"

text \<open>An adapter that admits a submission only for a lease without a claim.\<close>

definition singleUse :: "'r FixedLeaseOperations \<Rightarrow> bool" where
  "singleUse ops \<longleftrightarrow> (\<forall>p. op_Admission ops = Some p \<longrightarrow>
     fa_FreshOnly p \<and> \<not> fa_RepeatSameIdentity p \<and> fa_KeyedRetry p = None)"

fun stepOk :: "string \<Rightarrow> 'r historyStep \<Rightarrow> bool" where
  "stepOk i (Run env opts ops n) \<longleftrightarrow> ao_LeaseID opts = i \<and> singleUse ops"
| "stepOk i (Elsewhere f) \<longleftrightarrow> (\<forall>d. dirOk d \<longrightarrow> dirOk (f d)
     \<and> (map_of d (claimFile i) \<noteq> None \<longrightarrow> map_of (f d) (claimFile i) \<noteq> None))"

definition held :: "string \<Rightarrow> claimsDir \<Rightarrow> nat" where
  "held i d = (if map_of d (claimFile i) = None then 0 else 1)"

text \<open>Every removal in a trace is certified, so that only certified rejections can free a lease.\<close>

definition removalsCertified :: "acquireEnv \<Rightarrow> event list \<Rightarrow> bool" where
  "removalsCertified env es \<longleftrightarrow> (\<forall>cause. Removed cause \<in> set es \<longrightarrow> se_Rejected (aq_Settle env) cause)"

lemma removalsCertified_simps [simp]:
  "removalsCertified env (e # es) \<longleftrightarrow> (\<forall>cause. e = Removed cause \<longrightarrow> certified env e) \<and> removalsCertified env es"
  "removalsCertified env (es @ fs) \<longleftrightarrow> removalsCertified env es \<and> removalsCertified env fs"
  "removalsCertified env []" "removalsCertified env (map OnDisk cs)"
  by (auto simp: removalsCertified_def certified_def)

lemma attemptShape_certified:
  assumes "attemptShape (se_Rejected (aq_Settle env)) d r es"
  shows "removalsCertified env es"
proof -
  have "removalsCertified env z" if "retired (se_Rejected (aq_Settle env)) z" for z
    using that by (auto simp: retired_def certified_def)
  with assms show ?thesis by (auto simp: attemptShape_def submitShape_def trailing_def)
qed

lemma held_replay:
  "dirOk d \<Longrightarrow> removalsCertified env es \<Longrightarrow> held i d \<le> held i (replayDir i d es) + length (filter (certified env) es)"
proof (induction es arbitrary: d)
  case (Cons e es)
  have "held i d \<le> held i (replayEvent i d e) + length (filter (certified env) [e])" "dirOk (replayEvent i d e)"
    using Cons.prems by (cases e; simp add: held_def certified_def map_of_dirPut dirOk_dirPut dirOk_dirDelete)+
  moreover have "length (filter (certified env) (e # es)) = length (filter (certified env) [e]) + length (filter (certified env) es)"
    by simp
  ultimately show ?case using Cons.IH [of "replayEvent i d e"] Cons.prems by simp
qed simp

lemma submissions_append [simp]: "submissions (a @ b) = submissions a + submissions b"
  by (simp add: submissions_def)

lemma no_submissions: "submissions es = 0 \<longleftrightarrow> \<not> submits es"
  by (auto simp: submissions_def submits_def filter_empty_conv)

lemma run_balance:
  assumes ok: "dirOk d" and id: "ao_LeaseID opts = i" and "singleUse ops"
    and p: "p = take n (fst (snd (AcquireFixedResource env opts ops d)))"
  shows "submissions p + held i d \<le> length (filter (certified env) p) + held i (replayDir i d p)"
proof -
  obtain d' tr r where run: "AcquireFixedResource env opts ops d = (d', tr, r)" by (rule prod_cases3)
  note e = AcquireFixedResource_emitted [OF run ok]
  have tr: "tr = p @ drop n tr" and p: "p = take n tr" using run p by auto
  have rc: "removalsCertified env p" using attemptShape_certified [OF e(3)] tr removalsCertified_simps(2) by metis
  show ?thesis
  proof (cases "submits p")
    case False
    then show ?thesis using held_replay [OF ok rc, of i] no_submissions [of p] by simp
  next
    case True
    obtain x where "Submit x \<in> set p" using True by (auto simp: submits_def)
    then obtain pre post where s: "p = pre @ Submit x # post" by (meson split_list)
    then have "tr = pre @ Submit x # (post @ drop n tr)" using tr by simp
    from attemptShape_once [OF e(3) this] have once: "\<not> submits pre" "\<not> submits post" and "x \<noteq> None" by simp_all
    moreover have "truthful i d p" using e(2) id tr truthful_append by metis
    ultimately have "claimAt (replayDir i d pre) i \<noteq> None" using s by simp
    then have "held i (replayDir i d pre) = 1"
      by (auto simp: held_def claimAt_def claimLook_def split: option.splits)
    then have "1 \<le> held i (replayDir i d p) + length (filter (certified env) post)"
      using held_replay [of "replayDir i d pre" env post i] rc ok s by simp
    moreover have "held i d = 0"
    proof -
      have "admissible env ops (map_of d (claimFile i) = None)" using e(4) True tr id by (metis submits_simps(2))
      moreover have "op_Admission ops \<noteq> None"
      proof
        assume "op_Admission ops = None"
        then have "tr = []" using run by (simp add: AcquireFixedResource_def acquireConfigured_def)
        with True p show False by simp
      qed
      ultimately show ?thesis
        using assms(3) by (auto simp: held_def admissible_def singleUse_def permits_def split: option.splits)
    qed
    moreover have "submissions p = 1"
      using s once no_submissions [of pre] no_submissions [of post] by (simp add: submissions_def)
    ultimately show ?thesis using s by (simp add: certified_def)
  qed
qed

lemma history_balance:
  assumes "dirOk d" and "\<forall>s \<in> set ss. stepOk i s"
  shows "submissions (history i ss d) + held i d \<le> rejections i ss d + 1"
  using assms
proof (induction ss arbitrary: d)
  case Nil
  then show ?case by (simp add: held_def submissions_def)
next
  case (Cons s ss)
  show ?case
  proof (cases s)
    case (Run env opts ops n)
    let ?p = "runPrefix s d"
    have "submissions ?p + held i d \<le> length (filter (certified env) ?p) + held i (replayDir i d ?p)"
      using Cons.prems Run by (intro run_balance [where opts = opts and ops = ops and env = env and n = n]) auto
    moreover have "submissions (history i ss (replayDir i d ?p)) + held i (replayDir i d ?p)
        \<le> rejections i ss (replayDir i d ?p) + 1"
      using Cons by simp
    ultimately show ?thesis using Run by simp
  next
    case (Elsewhere f)
    then have "held i d \<le> held i (f d)" and "dirOk (f d)" using Cons.prems by (auto simp: held_def)
    then show ?thesis using Cons.IH [of "f d"] Cons.prems Elsewhere by simp
  qed
qed

text \<open>C2: A single-use lease ID never buys two machines. Over any history of acquisitions of one
  lease, each cut short by a crash at any point, interleaved with other processes that may rewrite the
  claim but not delete it, the number of native submissions is at most one more than the number of
  attempts whose intent was removed for an error that the provider certified as a rejection before
  allocation; and at most that number when the lease has a claim to begin with. A removal for an error
  that is not certified does not count, so an ambiguous failure never makes room for another
  submission.\<close>

theorem at_most_one_unrejected_submission:
  assumes "dirOk d" and "\<forall>s \<in> set ss. stepOk i s"
  shows "submissions (history i ss d) \<le> rejections i ss d + 1
     \<and> (map_of d (claimFile i) \<noteq> None \<longrightarrow> submissions (history i ss d) \<le> rejections i ss d)"
  using history_balance [OF assms] by (auto simp: held_def split: if_splits)

text \<open>A provider whose submission is rejected before allocation, then a second and a third attempt with
  one that accepts: the rejection made room for exactly one more.\<close>

definition rejectedOps :: "string FixedLeaseOperations" where
  "rejectedOps = sampleOps\<lparr>op_Submit := Some (\<lambda>_. Return (Inl (Native ''rejected'')))\<rparr>"

definition sampleHistory :: "string historyStep list" where
  "sampleHistory = [Run sampleEnv sampleOpts rejectedOps 9, Run sampleEnv sampleOpts sampleOps 5, Elsewhere (\<lambda>d. d),
     Run sampleEnv sampleOpts sampleOps 9]"

theorem at_most_one_unrejected_submission_witness:
  "submissions (history ''a'' sampleHistory []) \<le> rejections ''a'' sampleHistory [] + 1"
  using at_most_one_unrejected_submission [of "[]" sampleHistory "''a''"]
  by (simp add: dirOk_def sampleHistory_def sampleOpts_def sampleOps_def rejectedOps_def singleUse_def)

end
