(* ===== verification/FixedIdentity.thy ===== *)
theory FixedIdentity
  imports FixedSafety
begin

text \<open>
  Identity of a fixed lease during a transaction, by two more interpretations of the adapter
  contract. \<open>txFrozen\<close>: the identity of the lease, a known resource identity and the create intent
  never change through the calls of the transaction, in memory and in everything written to disk.
  \<open>txSealed\<close>: even an adapter that assigns to the claim in memory gets nothing past \<open>Record\<close> that
  differs from the claim the transaction began with. Also the refusal to replay a lease that entered
  cleanup.
\<close>

section \<open>Frozen identity\<close>

definition sameCreate :: "FixedCreateIntent \<Rightarrow> FixedCreateIntent \<Rightarrow> bool" where
  "sameCreate i i' \<longleftrightarrow> fi_Version i' = fi_Version i \<and> fi_Fingerprint i' = fi_Fingerprint i
     \<and> fi_ProviderScope i' = fi_ProviderScope i \<and> fi_CheckpointID i' = fi_CheckpointID i \<and> fi_Slug i' = fi_Slug i
     \<and> fi_CreatedAt i' = fi_CreatedAt i \<and> fi_Retention i' = fi_Retention i"

definition sameIntent :: "FixedCreateIntent \<Rightarrow> FixedCreateIntent \<Rightarrow> bool" where
  "sameIntent i i' \<longleftrightarrow> sameCreate i i' \<and> (fi_State i' = fi_State i \<or> fi_State i' = ''released'')"

lemmas sameIntent_defs = sameIntent_def sameCreate_def

definition keepsIdentity :: "leaseClaim \<Rightarrow> leaseClaim \<Rightarrow> bool" where
  "keepsIdentity c c' \<longleftrightarrow> (LeaseID c \<noteq> [] \<longrightarrow> LeaseID c' = LeaseID c) \<and> Provider c' = Provider c
     \<and> (CloudID c \<noteq> [] \<longrightarrow> CloudID c' = CloudID c)
     \<and> (CloudImmutableID c \<noteq> [] \<longrightarrow> CloudImmutableID c' = CloudImmutableID c)
     \<and> (CloudNumericID c \<noteq> 0 \<longrightarrow> CloudNumericID c' = CloudNumericID c)"

definition frozenClaim :: "leaseClaim \<Rightarrow> leaseClaim \<Rightarrow> bool" where
  "frozenClaim c c' \<longleftrightarrow> keepsIdentity c c'
     \<and> (\<forall>i. FixedIntent c = Some i \<longrightarrow> (\<exists>i'. FixedIntent c' = Some i' \<and> sameIntent i i'))"

lemma frozenClaim_refl [simp]: "frozenClaim c c"
  by (auto simp: frozenClaim_def keepsIdentity_def sameIntent_defs)

lemma keepsIdentity_trans: "keepsIdentity a b \<Longrightarrow> keepsIdentity b c \<Longrightarrow> keepsIdentity a c"
  unfolding keepsIdentity_def by metis

lemma sameIntent_trans: "sameIntent a b \<Longrightarrow> sameIntent b c \<Longrightarrow> sameIntent a c"
  by (auto simp: sameIntent_defs)

lemma frozenClaim_trans: "frozenClaim a b \<Longrightarrow> frozenClaim b c \<Longrightarrow> frozenClaim a c"
  unfolding frozenClaim_def using keepsIdentity_trans sameIntent_trans by metis

lemma identity_fields [simp]:
  "CloudID (SetLeaseClaimResourceIdentity c a n m e) = a" "CloudNumericID (SetLeaseClaimResourceIdentity c a n m e) = n"
  "CloudImmutableID (SetLeaseClaimResourceIdentity c a n m e) = m"
  "FixedIntent (SetLeaseClaimResourceIdentity c a n m e) = FixedIntent c"
  "LeaseID (SetLeaseClaimResourceIdentity c a n m e) = LeaseID c" "Provider (SetLeaseClaimResourceIdentity c a n m e) = Provider c"
  by (simp_all add: SetLeaseClaimResourceIdentity_def Let_def)

lemma bindSSH_fields [simp]:
  "CloudID (bindSSH b c) = CloudID c" "CloudNumericID (bindSSH b c) = CloudNumericID c"
  "CloudImmutableID (bindSSH b c) = CloudImmutableID c" "FixedIntent (bindSSH b c) = FixedIntent c"
  "LeaseID (bindSSH b c) = LeaseID c" "Provider (bindSSH b c) = Provider c"
  by (simp_all add: bindSSH_def split: option.splits)

lemma bindIdentity_frozen:
  "\<not> identityConflict b c \<Longrightarrow> keepsIdentity c (bindIdentity b c)" "FixedIntent (bindIdentity b c) = FixedIntent c"
  by (auto simp: identityConflict_def keepsIdentity_def bindIdentity_def)

lemma applyBinding_frozen:
  assumes "FixedIntent c \<noteq> None" and "applyBinding js b c = (c', err)"
  shows "frozenClaim c c'"
proof -
  obtain i where i: "FixedIntent c = Some i" using assms(1) by blast
  show ?thesis
  proof (cases "(fb_OnlyUnbound b \<and> CloudID c \<noteq> []) \<or> identityConflict b c \<or> c' = c")
    case True
    then have "c' = c" using assms(2) by (auto simp: applyBinding_def split: if_splits)
    then show ?thesis by simp
  next
    case False
    let ?c1 = "bindSSH b (bindIdentity b c)"
    have c1: "keepsIdentity c ?c1" "FixedIntent ?c1 = Some i"
      using False i bindIdentity_frozen [of b c] by (simp_all add: keepsIdentity_def)
    have "c' = ?c1 \<or> (\<exists>vs p i'. bindAttempt js b vs p i = Inr i' \<and> c' = bindLabels b (?c1\<lparr>FixedIntent := Some i'\<rparr>))"
      using False assms(2) c1(2) i
      by (auto simp: applyBinding_def Let_def split: if_splits sum.splits prod.splits)
    then show ?thesis
    proof (elim disjE exE conjE)
      assume "c' = ?c1"
      with c1 i show ?thesis by (auto simp: frozenClaim_def sameIntent_defs)
    next
      fix vs p i'
      assume a: "bindAttempt js b vs p i = Inr i'" and c': "c' = bindLabels b (?c1\<lparr>FixedIntent := Some i'\<rparr>)"
      have "sameIntent i i'" using a by (auto simp: bindAttempt_def sameIntent_defs split: if_splits sum.splits)
      with c1 c' i show ?thesis by (auto simp: frozenClaim_def keepsIdentity_def bindLabels_def Let_def)
    qed
  qed
qed

lemma TerminalClaim_frozen:
  assumes "unboundClaim c" and "FixedIntent c \<noteq> None" and "IsFixedClaim k c"
  shows "frozenClaim c (TerminalClaim k c now)"
  using assms
  by (auto simp: frozenClaim_def keepsIdentity_def unboundClaim_def sameIntent_defs TerminalClaim_def Let_def
      released_intent_def terminalFixedJournal_def IsFixedClaim_def)

section \<open>Transactions\<close>

lemma LeaseID_stamped: "LeaseID (stamped l r) = (if LeaseID (lk_Claim l) = [] then lk_LeaseID l else LeaseID (lk_Claim l))"
  by (simp add: stamped_def Let_def)

text \<open>A \<open>persist\<close> that writes the claim in memory or nothing.\<close>

definition plainPersist :: "(lockState \<Rightarrow> lockState \<times> gerr option) \<Rightarrow> bool" where
  "plainPersist f \<longleftrightarrow> (\<forall>l. let l' = fst (f l) in
     FixedIntent (lk_Claim l') = FixedIntent (lk_Claim l) \<and> keepsIdentity (lk_Claim l) (lk_Claim l')
     \<and> (lk_Trace l' = lk_Trace l \<or> lk_Trace l' = lk_Trace l @ [OnDisk (lk_Claim l')]))"

lemma plainPersist_persist [simp]: "plainPersist persist"
  unfolding plainPersist_def Let_def
proof
  fix l
  obtain l' err where p: "persist l = (l', err)" by fastforce
  from p have "FixedIntent (lk_Claim l') = FixedIntent (lk_Claim l) \<and> keepsIdentity (lk_Claim l) (lk_Claim l')
     \<and> (lk_Trace l' = lk_Trace l \<or> lk_Trace l' = lk_Trace l @ [OnDisk (lk_Claim l')])"
    by (cases rule: persist_cases) (auto simp: keepsIdentity_def LeaseID_stamped)
  with p show "FixedIntent (lk_Claim (fst (persist l))) = FixedIntent (lk_Claim l)
     \<and> keepsIdentity (lk_Claim l) (lk_Claim (fst (persist l)))
     \<and> (lk_Trace (fst (persist l)) = lk_Trace l
        \<or> lk_Trace (fst (persist l)) = lk_Trace l @ [OnDisk (lk_Claim (fst (persist l)))])"
    by simp
qed

definition txFrozen :: "FixedTransaction \<Rightarrow> FixedTransaction \<Rightarrow> bool" where
  "txFrozen tx tx' \<longleftrightarrow> ft_persist tx' = ft_persist tx
     \<and> (plainPersist (ft_persist tx) \<and> FixedIntent (ft_Claim tx) \<noteq> None \<longrightarrow>
          frozenClaim (ft_Claim tx) (ft_Claim tx')
          \<and> (\<exists>cs. lk_Trace (ft_Lock tx') = lk_Trace (ft_Lock tx) @ map OnDisk cs \<and> (\<forall>c \<in> set cs. frozenClaim (ft_Claim tx) c)))"

lemma txFrozen_refl [simp]: "txFrozen tx tx"
  by (auto simp: txFrozen_def intro: exI [of _ "[]"])

lemma frozen_intent: "frozenClaim c c' \<Longrightarrow> FixedIntent c \<noteq> None \<Longrightarrow> FixedIntent c' \<noteq> None"
  by (auto simp: frozenClaim_def)

lemma txFrozen_trans:
  assumes "txFrozen tx tx1" and "txFrozen tx1 tx2"
  shows "txFrozen tx tx2"
proof -
  have "frozenClaim (ft_Claim tx) (ft_Claim tx2)
      \<and> (\<exists>cs. lk_Trace (ft_Lock tx2) = lk_Trace (ft_Lock tx) @ map OnDisk cs \<and> (\<forall>c \<in> set cs. frozenClaim (ft_Claim tx) c))"
    if "plainPersist (ft_persist tx)" "FixedIntent (ft_Claim tx) \<noteq> None"
  proof -
    from assms(1) that obtain a where a: "frozenClaim (ft_Claim tx) (ft_Claim tx1)" "ft_persist tx1 = ft_persist tx"
      "lk_Trace (ft_Lock tx1) = lk_Trace (ft_Lock tx) @ map OnDisk a" "\<forall>c \<in> set a. frozenClaim (ft_Claim tx) c"
      by (auto simp: txFrozen_def)
    with assms(2) that frozen_intent obtain b where b: "frozenClaim (ft_Claim tx1) (ft_Claim tx2)"
      "lk_Trace (ft_Lock tx2) = lk_Trace (ft_Lock tx1) @ map OnDisk b" "\<forall>c \<in> set b. frozenClaim (ft_Claim tx1) c"
      by (auto simp: txFrozen_def)
    have "lk_Trace (ft_Lock tx2) = lk_Trace (ft_Lock tx) @ map OnDisk (a @ b) \<and> (\<forall>c \<in> set (a @ b). frozenClaim (ft_Claim tx) c)"
      using a b frozenClaim_trans by auto
    moreover have "frozenClaim (ft_Claim tx) (ft_Claim tx2)" using a(1) b(1) frozenClaim_trans by blast
    ultimately show ?thesis by blast
  qed
  then show ?thesis using assms unfolding txFrozen_def by simp
qed

lemma txFrozen_memory:
  assumes "frozenClaim (ft_Claim tx) c"
  shows "txFrozen tx (setClaim c tx)"
  using assms by (auto simp: txFrozen_def setClaim_def intro: exI [of _ "[]"])

lemma txFrozen_persist:
  assumes "frozenClaim (ft_Claim tx) c" and "ft_persist tx (ft_Lock tx\<lparr>lk_Claim := c\<rparr>) = (l, e)"
    and "ft_Lock tx' = l" and "ft_persist tx' = ft_persist tx"
  shows "txFrozen tx tx'"
proof -
  have "frozenClaim (ft_Claim tx) (lk_Claim l)
      \<and> (\<exists>cs. lk_Trace l = lk_Trace (ft_Lock tx) @ map OnDisk cs \<and> (\<forall>c \<in> set cs. frozenClaim (ft_Claim tx) c))"
    if "plainPersist (ft_persist tx)"
  proof -
    from that have p: "FixedIntent (lk_Claim l) = FixedIntent c" "keepsIdentity c (lk_Claim l)"
      "lk_Trace l = lk_Trace (ft_Lock tx) \<or> lk_Trace l = lk_Trace (ft_Lock tx) @ [OnDisk (lk_Claim l)]"
      unfolding plainPersist_def Let_def
      by (metis (no_types, lifting) assms(2) fst_conv lockState.select_convs(2,7) lockState.surjective lockState.update_convs(2))+
    have f: "frozenClaim (ft_Claim tx) (lk_Claim l)"
      using assms(1) p(1,2) by (auto simp: frozenClaim_def keepsIdentity_def)
    with p(3) show ?thesis by (metis append_Nil2 list.simps(8) list.simps(9) list.set(1) list.set(2) empty_iff insert_iff)
  qed
  then show ?thesis using assms(3,4) by (simp add: txFrozen_def)
qed

lemma setIntent_claim: "setIntent i tx = setClaim ((ft_Claim tx)\<lparr>FixedIntent := Some i\<rparr>) tx"
  by (simp add: setIntent_def)

lemma recordJournal_txFrozen:
  assumes "frozenClaim (ft_Claim tx) ((ft_Claim tx)\<lparr>FixedIntent := Some i\<rparr>)"
  shows "txFrozen tx (fst (recordJournal i tx))"
proof -
  obtain l e where p: "ft_persist tx (ft_Lock (setIntent i tx)) = (l, e)" by fastforce
  then have p': "ft_persist tx (ft_Lock tx\<lparr>lk_Claim := (ft_Claim tx)\<lparr>FixedIntent := Some i\<rparr>\<rparr>) = (l, e)"
    by (simp add: setIntent_def setClaim_def)
  have m: "txFrozen tx (setIntent i tx)" unfolding setIntent_claim by (rule txFrozen_memory [OF assms])
  have w: "txFrozen tx tx'" if "ft_Lock tx' = l" "ft_persist tx' = ft_persist tx" for tx'
    using txFrozen_persist [OF assms p' that] .
  have "ft_persist (setIntent i tx) = ft_persist tx" by (simp add: setIntent_def setClaim_def)
  then show ?thesis
    using p m w by (auto simp: recordJournal_def Let_def split: option.splits)
qed

lemma Record_txFrozen: "txFrozen tx (fst (Record phase tx))"
proof (cases "recordRefused phase tx")
  case None
  then have "\<not> intentChanged tx" by (auto simp: recordRefused_def Let_def)
  then obtain i where i: "FixedIntent (ft_Claim tx) = Some i"
    by (auto simp: intentChanged_def Let_def split: option.splits)
  have "frozenClaim (ft_Claim tx) ((ft_Claim tx)\<lparr>FixedIntent := Some (recordedIntent phase tx)\<rparr>)"
    using i by (simp add: frozenClaim_def keepsIdentity_def sameIntent_defs recordedIntent_def Let_def)
  with None recordJournal_txFrozen show ?thesis by (simp add: Record_def)
qed (simp add: Record_def)

lemma attempt_frozen:
  assumes "FixedIntent (ft_Claim tx) = Some i"
  shows "txFrozen tx (setIntent (i\<lparr>fi_Attempt := a\<rparr>) tx)" "txFrozen tx (setIntent (i\<lparr>fi_Journal := j\<rparr>) tx)"
    "txFrozen tx (setIntent (i\<lparr>fi_FailedAttempts := fs, fi_Attempt := a\<rparr>) tx)"
  unfolding setIntent_claim
  by (rule txFrozen_memory, use assms in \<open>simp add: frozenClaim_def keepsIdentity_def sameIntent_defs\<close>)+

text \<open>Without an intent every call fails or leaves the relation vacuous.\<close>

lemma txFrozen_vacuous: "FixedIntent (ft_Claim tx) = None \<Longrightarrow> ft_persist tx' = ft_persist tx \<Longrightarrow> txFrozen tx tx'"
  by (simp add: txFrozen_def)

lemma then_Record_txFrozen: "txFrozen tx tx1 \<Longrightarrow> txFrozen tx (fst (Record phase tx1))"
  by (blast intro: txFrozen_trans Record_txFrozen)

lemma applyBindingTx_txFrozen: "txFrozen tx (fst (applyBindingTx js b tx))"
proof -
  obtain c e where a: "applyBinding js b (ft_Claim tx) = (c, e)" by fastforce
  show ?thesis
  proof (cases "FixedIntent (ft_Claim tx)")
    case None
    then show ?thesis by (intro txFrozen_vacuous) (simp_all add: applyBindingTx_def a setClaim_def)
  next
    case (Some i)
    then show ?thesis using txFrozen_memory [OF applyBinding_frozen [OF _ a]] by (simp add: applyBindingTx_def a)
  qed
qed

lemma runCall_persist: "ft_persist (fst (runCall js c tx)) = ft_persist tx"
  using runCall_txWrote [of tx js c] by (simp add: txWrote_def)

lemma Admit_txFrozen:
  assumes i: "FixedIntent (ft_Claim tx) = Some i"
  shows "txFrozen tx (fst (Admit now tx))"
proof (cases "admitKeyed now tx")
  case (Inl e)
  then show ?thesis by (simp add: Admit_def)
next
  case (Inr tx1)
  then have t1: "txFrozen tx tx1" and "FixedIntent (ft_Claim tx1) \<noteq> None"
    using attempt_frozen(2) [OF i] i
    by (auto simp: admitKeyed_def setIntent_def setClaim_def split: option.splits sum.splits)
  then obtain i1 where i1: "FixedIntent (ft_Claim tx1) = Some i1" by blast
  show ?thesis
  proof (cases "admitPending tx1")
    case (Inl e)
    then show ?thesis using Inr t1 by (simp add: Admit_def)
  next
    case p: (Inr tx2)
    then have "txFrozen tx1 tx2"
      using attempt_frozen(1) [OF i1] i1 by (auto simp: admitPending_def split: option.splits if_splits)
    then show ?thesis using Inr p t1 by (simp add: Admit_def) (blast intro: then_Record_txFrozen txFrozen_trans)
  qed
qed

lemma FailedAttemptSet_txFrozen [simp]: "txFrozen tx (fst (FailedAttemptSet tx')) \<longleftrightarrow> txFrozen tx tx'"
  "ft_Lock (fst (FailedAttemptSet tx')) = ft_Lock tx'"
  by (auto simp: FailedAttemptSet_def txFrozen_def split: option.splits)

lemma rejectForRetry_txFrozen:
  assumes "FixedIntent (ft_Claim tx) = Some i"
  shows "txFrozen tx (fst (rejectForRetry token tx))"
proof -
  let ?tx = "fst (FailedAttemptSet tx)"
  have i: "FixedIntent (ft_Claim ?tx) = Some i" using assms by simp
  obtain i1 where r: "i1 = i\<lparr>fi_FailedAttempts := (if token \<in> set (snd (FailedAttemptSet tx)) then fi_FailedAttempts i
      else fi_FailedAttempts i @ [token]), fi_Attempt := None\<rparr>" by blast
  have "txFrozen tx (setIntent i1 ?tx)"
    using txFrozen_trans [OF _ attempt_frozen(3) [OF i]] r by simp
  then have "txFrozen tx (fst (Record ''prepared'' (setIntent i1 ?tx)))" by (rule then_Record_txFrozen)
  moreover have "txFrozen tx (tx'\<lparr>ft_failedSet := fs\<rparr>) \<longleftrightarrow> txFrozen tx tx'" for tx' fs
    by (simp add: txFrozen_def)
  ultimately show ?thesis
    using i r by (cases "Record ''prepared'' (setIntent i1 ?tx)")
      (auto simp: rejectForRetry_def Let_def split: option.splits)
qed

lemma RejectAttempt_txFrozen:
  assumes "FixedIntent (ft_Claim tx) = Some i"
  shows "txFrozen tx (fst (RejectAttempt k token terminal now tx))"
proof -
  obtain l e where p: "ft_persist tx (ft_Lock tx\<lparr>lk_Claim := TerminalClaim k (ft_Claim tx) now\<rparr>) = (l, e)" by fastforce
  have t: "txFrozen tx (tx\<lparr>ft_Lock := l\<rparr>)" if "unboundClaim (ft_Claim tx)" "IsFixedClaim k (ft_Claim tx)"
    using txFrozen_persist [OF TerminalClaim_frozen [OF that(1) _ that(2)] p] assms by simp
  show ?thesis
    using t p rejectForRetry_txFrozen [OF assms] by (auto simp: RejectAttempt_def)
qed

text \<open>The assignments of the providers: to the labels of the claim.\<close>

definition labelEdits :: "txCall \<Rightarrow> bool" where
  "labelEdits c = (case c of CallEdit f \<Rightarrow> (\<forall>x. f x = x\<lparr>Labels := Labels (f x)\<rparr>) | _ \<Rightarrow> True)"

lemma labels_frozen: "txFrozen tx (setClaim ((ft_Claim tx)\<lparr>Labels := ls\<rparr>) tx)"
  by (intro txFrozen_memory) (auto simp: frozenClaim_def keepsIdentity_def sameIntent_defs)

lemma editClaim_txFrozen:
  assumes "labelEdits (CallEdit f)" and "FixedIntent (ft_Claim tx) = Some i"
  shows "txFrozen tx (editClaim f tx)"
proof -
  have f: "f x = x\<lparr>Labels := Labels (f x)\<rparr>" for x using assms(1) by (simp add: labelEdits_def)
  have "FixedIntent (f (ft_Claim tx)) = Some i" by (subst f) (simp add: assms(2))
  then have "editClaim f tx = setClaim (f (ft_Claim tx)) tx" by (simp add: editClaim_def)
  then show ?thesis using labels_frozen [of tx "Labels (f (ft_Claim tx))"] f [of "ft_Claim tx"] by simp
qed

lemma runCall_txFrozen:
  assumes "labelEdits c"
  shows "txFrozen tx (fst (runCall js c tx))"
proof (cases "FixedIntent (ft_Claim tx)")
  case None
  then show ?thesis using txFrozen_vacuous runCall_persist by blast
next
  case (Some i)
  note a = attempt_frozen(1) [OF Some]
  show ?thesis
  proof (cases c)
    case (CallBind b)
    then show ?thesis
      using applyBindingTx_txFrozen [of tx js b]
      by (auto simp: BindTx_def intro: then_Record_txFrozen split: prod.splits option.splits)
  next
    case (CallObserve b)
    then show ?thesis
      using applyBindingTx_txFrozen [of tx js b]
      by (auto simp: Observe_def intro: then_Record_txFrozen split: prod.splits option.splits)
  next
    case (CallWriteAttempt key v now)
    have "FixedIntent (ft_Claim (setIntent i' tx)) = Some i'" for i' by (simp add: setIntent_def setClaim_def)
    then show ?thesis
      using Some a txFrozen_trans [OF a Admit_txFrozen]
      by (auto simp: CallWriteAttempt WriteFixedAttempt_def split: sum.splits)
  next
    case (CallWitness key v)
    then show ?thesis
      using Some a
      by (auto simp: RecordFixedWitness_def PersistDeletionEvidence_def intro: then_Record_txFrozen split: option.splits)
  next
    case (CallEdit f)
    then show ?thesis using editClaim_txFrozen assms Some by simp
  qed (use Some in \<open>simp_all add: Record_txFrozen PersistDeletionEvidence_def Admit_txFrozen RejectAttempt_txFrozen\<close>)
qed

interpretation frozen: tx_invariant js labelEdits txFrozen for js
  by unfold_locales (auto intro: txFrozen_trans runCall_txFrozen)

section \<open>The seal of a transaction\<close>

text \<open>What \<open>Record\<close> lets through: the identity with which the transaction was opened.\<close>

definition sealed :: "FixedTransaction \<Rightarrow> leaseClaim \<Rightarrow> bool" where
  "sealed tx c \<longleftrightarrow> (ft_leaseID tx \<noteq> [] \<longrightarrow> LeaseID c = ft_leaseID tx) \<and> Provider c = ft_provider tx
     \<and> Slug c = fi_Slug (ft_initial tx) \<and> (\<exists>i. FixedIntent c = Some i \<and> sameCreate (ft_initial tx) i)
     \<and> (ft_cloudID tx \<noteq> [] \<longrightarrow> CloudID c = ft_cloudID tx)
     \<and> (ft_immutableID tx \<noteq> [] \<longrightarrow> CloudImmutableID c = ft_immutableID tx)"

text \<open>The receipt of a terminal rejection, which \<open>RejectAttempt\<close> writes without \<open>Record\<close>: only of a claim
  in state \<open>prepared\<close> without a resource identity.\<close>

definition rejectionReceipt :: "leaseClaim \<Rightarrow> bool" where
  "rejectionReceipt c \<longleftrightarrow> (\<exists>k c0 now leaseID r. IsFixedClaim k c0 \<and> fi_State (the (FixedIntent c0)) = ''prepared'' \<and> unboundClaim c0
     \<and> c = (TerminalClaim k c0 now)\<lparr>LeaseID := leaseID, Revision := r\<rparr>)"

definition txSealed :: "FixedTransaction \<Rightarrow> FixedTransaction \<Rightarrow> bool" where
  "txSealed tx tx' \<longleftrightarrow> ft_persist tx' = ft_persist tx \<and> ft_leaseID tx' = ft_leaseID tx \<and> ft_provider tx' = ft_provider tx
     \<and> ft_initial tx' = ft_initial tx
     \<and> (ft_persist tx = persist \<longrightarrow>
          (ft_cloudID tx \<noteq> [] \<longrightarrow> ft_cloudID tx' = ft_cloudID tx) \<and> (ft_immutableID tx \<noteq> [] \<longrightarrow> ft_immutableID tx' = ft_immutableID tx)
          \<and> (\<exists>cs. lk_Trace (ft_Lock tx') = lk_Trace (ft_Lock tx) @ map OnDisk cs
               \<and> (\<forall>c \<in> set cs. sealed tx c \<or> rejectionReceipt c)))"

lemma txSealed_same:
  assumes "ft_persist tx' = ft_persist tx" "ft_leaseID tx' = ft_leaseID tx" "ft_provider tx' = ft_provider tx"
    "ft_initial tx' = ft_initial tx" "ft_cloudID tx' = ft_cloudID tx" "ft_immutableID tx' = ft_immutableID tx"
    "lk_Trace (ft_Lock tx') = lk_Trace (ft_Lock tx)"
  shows "txSealed tx tx'"
  using assms unfolding txSealed_def by (auto intro: exI [of _ "[]"])

lemma txSealed_trans:
  assumes "txSealed tx tx1" and "txSealed tx1 tx2"
  shows "txSealed tx tx2"
proof -
  have s: "sealed tx c" if "sealed tx1 c" "ft_persist tx = persist" for c
    using that assms(1) by (auto simp: sealed_def txSealed_def)
  have "\<exists>cs. lk_Trace (ft_Lock tx2) = lk_Trace (ft_Lock tx) @ map OnDisk cs
      \<and> (\<forall>c \<in> set cs. sealed tx c \<or> rejectionReceipt c)" if p: "ft_persist tx = persist"
  proof -
    obtain a where a: "lk_Trace (ft_Lock tx1) = lk_Trace (ft_Lock tx) @ map OnDisk a" "\<forall>c \<in> set a. sealed tx c \<or> rejectionReceipt c"
      using assms(1) p by (auto simp: txSealed_def)
    obtain b where b: "lk_Trace (ft_Lock tx2) = lk_Trace (ft_Lock tx1) @ map OnDisk b" "\<forall>c \<in> set b. sealed tx1 c \<or> rejectionReceipt c"
      using assms p by (auto simp: txSealed_def)
    show ?thesis by (rule exI [of _ "a @ b"]) (use a b s p in auto)
  qed
  then show ?thesis using assms by (auto simp: txSealed_def)
qed

text \<open>What \<open>persist\<close> puts on disk is the claim in memory with its lease ID and a revision.\<close>

lemma txSealed_persist:
  assumes w: "\<And>r. sealed tx (stamped l r) \<or> rejectionReceipt (stamped l r)" and p: "ft_persist tx l = (l', e)"
    and l: "lk_Trace l = lk_Trace (ft_Lock tx)" and tx': "ft_Lock tx' = l'" "ft_persist tx' = ft_persist tx" "ft_leaseID tx' = ft_leaseID tx"
    "ft_provider tx' = ft_provider tx" "ft_initial tx' = ft_initial tx"
    and c: "ft_persist tx = persist \<Longrightarrow> ft_cloudID tx \<noteq> [] \<longrightarrow> ft_cloudID tx' = ft_cloudID tx"
    "ft_persist tx = persist \<Longrightarrow> ft_immutableID tx \<noteq> [] \<longrightarrow> ft_immutableID tx' = ft_immutableID tx"
  shows "txSealed tx tx'"
proof -
  have "\<exists>cs. lk_Trace l' = lk_Trace (ft_Lock tx) @ map OnDisk cs \<and> (\<forall>c \<in> set cs. sealed tx c \<or> rejectionReceipt c)"
    if "ft_persist tx = persist"
  proof -
    have "persist l = (l', e)" using p that by simp
    then show ?thesis
    proof (cases rule: persist_cases)
      case skipped
      then show ?thesis using l by (auto intro: exI [of _ "[]"])
    next
      case (written r)
      then show ?thesis using l w [of r] by (intro exI [of _ "[stamped l r]"]) auto
    qed
  qed
  then show ?thesis using tx' c by (simp add: txSealed_def)
qed

lemma Slug_stamped: "Slug (stamped l r) = Slug (lk_Claim l)" "Provider (stamped l r) = Provider (lk_Claim l)"
  by (simp_all add: stamped_def Let_def)

lemma Record_txSealed: "txSealed tx (fst (Record phase tx))"
proof (cases "recordRefused phase tx")
  case (Some e)
  then show ?thesis by (simp add: Record_def txSealed_same)
next
  case None
  let ?i = "recordedIntent phase tx"
  let ?tx1 = "setIntent ?i tx"
  have ok: "\<not> intentChanged tx" "ft_cloudID tx \<noteq> [] \<longrightarrow> CloudID (ft_Claim tx) = ft_cloudID tx"
    "ft_immutableID tx \<noteq> [] \<longrightarrow> CloudImmutableID (ft_Claim tx) = ft_immutableID tx"
    using None by (auto simp: recordRefused_def Let_def split: if_splits option.splits)
  have same: "sameCreate (ft_initial tx) ?i"
    using ok(1) by (auto simp: intentChanged_def recordedIntent_def sameCreate_def Let_def split: option.splits)
  have w: "sealed tx (stamped (ft_Lock ?tx1) r)" for r
    using ok same by (auto simp: sealed_def intentChanged_def Let_def setIntent_def setClaim_def LeaseID_stamped Slug_stamped
        split: option.splits)
  obtain l e where p: "ft_persist tx (ft_Lock ?tx1) = (l, e)" by fastforce
  show ?thesis
  proof (cases "validateFixedJournal (Some ?i)")
    case (Some e)
    then show ?thesis using None by (simp add: Record_def recordJournal_def Let_def) (simp add: txSealed_same setIntent_def setClaim_def)
  next
    case valid: None
    have t1: "lk_Trace (ft_Lock ?tx1) = lk_Trace (ft_Lock tx)" by (simp add: setIntent_def setClaim_def)
    show ?thesis
    proof (rule txSealed_persist [OF disjI1 [OF w] p t1])
      assume "ft_persist tx = persist"
      with p plainPersist_persist have "keepsIdentity (ft_Claim ?tx1) (lk_Claim l)"
        unfolding plainPersist_def Let_def by (metis fst_conv)
      then have k: "ft_cloudID tx \<noteq> [] \<longrightarrow> CloudID (lk_Claim l) = ft_cloudID tx"
        "ft_immutableID tx \<noteq> [] \<longrightarrow> CloudImmutableID (lk_Claim l) = ft_immutableID tx"
        using ok(2,3) by (auto simp: keepsIdentity_def setIntent_def setClaim_def)
      have f: "ft_cloudID ?tx1 = ft_cloudID tx" "ft_immutableID ?tx1 = ft_immutableID tx" by (simp_all add: setIntent_def setClaim_def)
      show "ft_cloudID tx \<noteq> [] \<longrightarrow> ft_cloudID (fst (Record phase tx)) = ft_cloudID tx"
        and "ft_immutableID tx \<noteq> [] \<longrightarrow> ft_immutableID (fst (Record phase tx)) = ft_immutableID tx"
        using k f None valid p by (auto simp: Record_def recordJournal_def Let_def split: option.splits)
    qed (use None valid p in \<open>auto simp: Record_def recordJournal_def Let_def setIntent_def setClaim_def split: option.splits\<close>)
  qed
qed

lemma stamped_terminal:
  assumes "lk_Claim l = TerminalClaim k c now"
  shows "stamped l r = (TerminalClaim k c now)\<lparr>LeaseID := LeaseID (stamped l r), Revision := r\<rparr>"
  using assms by (simp add: stamped_def bindCapture_def TerminalClaim_def zeroClaim_def Let_def)

lemma terminal_txSealed:
  assumes "IsFixedClaim k (ft_Claim tx)" "fi_State (ft_intent tx) = ''prepared''" "unboundClaim (ft_Claim tx)"
  shows "txSealed tx (tx\<lparr>ft_Lock := fst (ft_persist tx ((ft_Lock tx)\<lparr>lk_Claim := TerminalClaim k (ft_Claim tx) now\<rparr>))\<rparr>)"
proof -
  let ?l = "(ft_Lock tx)\<lparr>lk_Claim := TerminalClaim k (ft_Claim tx) now\<rparr>"
  obtain l' e where p: "ft_persist tx ?l = (l', e)" by fastforce
  have "stamped ?l r = (TerminalClaim k (ft_Claim tx) now)\<lparr>LeaseID := LeaseID (stamped ?l r), Revision := r\<rparr>" for r
    by (rule stamped_terminal) simp
  then have "rejectionReceipt (stamped ?l r)" for r using assms unfolding rejectionReceipt_def by blast
  then show ?thesis using p by (intro txSealed_persist [OF disjI2 p]) simp_all
qed

interpretation seals: tx_steps txSealed
  by unfold_locales
    (auto intro: txSealed_trans Record_txSealed terminal_txSealed txSealed_same simp: setClaim_def)

section \<open>Properties of identity and cleanup\<close>

text \<open>C5: The identity of a fixed lease is monotonic. Whatever a provider adapter does with its
  transaction, including arbitrary assignments to the claim in memory, every claim that it gets onto
  disk carries the lease ID, provider and slug with which the transaction was opened, and a create
  intent with the same version, fingerprint, scope, checkpoint, slug, creation time and retention
  policy, and keeps a cloud ID and an immutable ID that were bound; the one exception is the receipt
  of a terminal rejection, which is written only for a claim in state \<open>prepared\<close> that has no resource
  identity. When the adapter assigns only to labels, as the providers do, all of this holds for the
  receipt and for the claim in memory too, and the numeric ID is kept and the state of the intent is
  unchanged or released.\<close>

theorem adapter_keeps_identity:
  assumes "runAdapter js a tx = (tx', r)" and "ft_persist tx = persist" and "FixedIntent (ft_Claim tx) \<noteq> None"
  shows "\<exists>cs. lk_Trace (ft_Lock tx') = lk_Trace (ft_Lock tx) @ map OnDisk cs
     \<and> (\<forall>c \<in> set cs. sealed tx c \<or> rejectionReceipt c)
     \<and> (callsOnly labelEdits a \<longrightarrow>
          frozenClaim (ft_Claim tx) (ft_Claim tx') \<and> (\<forall>c \<in> set cs. frozenClaim (ft_Claim tx) c))"
proof -
  have "inj OnDisk" by (auto intro: injI)
  then have eq: "map OnDisk a = map OnDisk b \<longleftrightarrow> a = b" for a b by (rule inj_map_eq_map)
  obtain cs where cs: "lk_Trace (ft_Lock tx') = lk_Trace (ft_Lock tx) @ map OnDisk cs" "\<forall>c \<in> set cs. sealed tx c \<or> rejectionReceipt c"
    using seals.adapter_keeps [of a tx js] assms(1,2) by (auto simp: txSealed_def)
  have "frozenClaim (ft_Claim tx) (ft_Claim tx') \<and> (\<forall>c \<in> set cs. frozenClaim (ft_Claim tx) c)" if "callsOnly labelEdits a"
    using frozen.adapter_keeps [OF that, of tx js] assms cs(1) eq by (auto simp: txFrozen_def)
  with cs show ?thesis by blast
qed

definition boundTx :: FixedTransaction where
  "boundTx = \<lparr>ft_failedSet = None, ft_createLabels = fmempty,
     ft_Lock = \<lparr>lk_LeaseID = ''a'', lk_Claim = sampleClaim\<lparr>CloudID := ''i-1''\<rparr>, lk_Exists = True, lk_Dir = [], lk_IO = sampleIO,
       lk_N = 0, lk_Trace = []\<rparr>,
     ft_fresh = False, ft_initialUnallocated = False, ft_initial = sampleIntent, ft_cloudID = ''i-1'', ft_immutableID = [],
     ft_leaseID = ''a'', ft_provider = Provider sampleClaim, ft_attempt = fi_Attempt sampleIntent, ft_failures = [],
     ft_persist = persist, ft_admission = None\<rparr>"

text \<open>An adapter that reports another machine, writes a label, then records.\<close>

definition rebinding :: "unit adapter" where
  "rebinding = Call (CallBind (noBinding\<lparr>fb_CloudID := ''i-2''\<rparr>)) (\<lambda>_ _.
     Call (CallEdit (\<lambda>c. c\<lparr>Labels := fmupd ''k'' ''v'' (Labels c)\<rparr>)) (\<lambda>_ _.
     Call (CallRecord ''bound'') (\<lambda>_ _. Return (Inr ()))))"

theorem adapter_keeps_identity_witness:
  "CloudID (ft_Claim (fst (runAdapter (aq_JSON sampleEnv) rebinding boundTx))) = ''i-1''"
proof -
  obtain tx' r where run: "runAdapter (aq_JSON sampleEnv) rebinding boundTx = (tx', r)" by fastforce
  have "ft_persist boundTx = persist" "FixedIntent (ft_Claim boundTx) \<noteq> None" "callsOnly labelEdits rebinding"
    by (simp_all add: boundTx_def sampleClaim_def rebinding_def labelEdits_def)
  with adapter_keeps_identity [OF run] have "keepsIdentity (ft_Claim boundTx) (ft_Claim tx')"
    by (auto simp: frozenClaim_def)
  with run show ?thesis by (simp add: keepsIdentity_def boundTx_def)
qed

lemma describe_refuses:
  assumes "FixedIntent c = Some i" and "\<exists>j. fi_Journal i = Some j \<and> fj_Phase j \<in> {''deleting'', ''released''}"
  shows "\<exists>e. describeForReplay ops c True = Inl e"
  using assms by (auto simp: describeForReplay_def split: option.splits)

lemma underLock_refuses:
  assumes "lk_Exists l" and "FixedIntent (lk_Claim l) = Some i"
    and "fi_State i = ''released'' \<or> (\<exists>j. fi_Journal i = Some j \<and> fj_Phase j \<in> {''deleting'', ''released''})"
  shows "\<exists>e. acquireUnderLock env opts (describeForReplay ops) acquire l = (l, Inl e)"
proof (cases "ownershipRefused opts l")
  case (Some e)
  then show ?thesis by (simp add: acquireUnderLock_def bindR_def checkR_def)
next
  case None
  then have "\<not> IsFixedClaim (ao_Kind opts) (lk_Claim l) \<or> fi_State i \<noteq> ''released''"
    and "Provider (lk_Claim l) = fk_ClaimProvider (ao_Kind opts)"
    using assms(1,2) by (auto simp: ownershipRefused_def Let_def split: if_splits)
  then have "fi_State i \<noteq> ''released''" using assms(2) by (simp add: IsFixedClaim_def)
  then obtain e where "describeForReplay ops (lk_Claim l) (lk_Exists l) = Inl e"
    using describe_refuses [OF assms(2)] assms(1,3) by auto
  with None show ?thesis by (simp add: acquireUnderLock_def bindR_def checkR_def openIntent_def)
qed

text \<open>C6: A lease that entered cleanup is never acquired again. When the claim on disk is a release
  receipt, or its journal says that deletion began or finished, then for every provider, every request
  and every environment the acquisition fails without any native submission and without changing the
  claims directory.\<close>

theorem cleanup_is_never_replayed:
  assumes "claimAt d (ao_LeaseID opts) = Some c" and "FixedIntent c = Some i"
    and "fi_State i = ''released'' \<or> (\<exists>j. fi_Journal i = Some j \<and> fj_Phase j \<in> {''deleting'', ''released''})"
  shows "\<exists>e. AcquireFixedResource env opts ops d = (d, [], Inl e)"
proof (cases "acquireConfigured ops")
  case (Some e)
  then show ?thesis by (simp add: AcquireFixedResource_def)
next
  case None
  let ?o = "opts\<lparr>ao_journal := True\<rparr>"
  let ?body = "acquireUnderLock env ?o (describeForReplay ops) (publishing ?o (acquireResource env opts ops))"
  obtain d' tr r where run: "WithDurableLeaseClaimLockContext (ao_LeaseID opts) (aq_Lock env) ?body d = (d', tr, r)"
    by (rule prod_cases3)
  have eq: "AcquireFixedResource env opts ops d = (case (d', tr, r) of
        (d', tr, Inl e) \<Rightarrow> (d', tr, Inl e)
      | (d', tr, Inr (t, c)) \<Rightarrow> (d', tr, Inr (t\<lparr>lt_Server := SetServerLeaseClaimSnapshot (lt_Server t) c True\<rparr>)))"
    using None run by (simp add: AcquireFixedResource_def AcquireFixedLease_def AcquireFixedIntent_def publishing_def [abs_def])
  from run show ?thesis
  proof (cases rule: lock_body)
    case refused
    then show ?thesis using eq by (cases r) auto
  next
    case (ran c' ex l)
    have m: "map_of d (claimFile (ao_LeaseID opts)) = Some (CClaim c)"
      using assms(1) by (auto simp: claimAt_def claimLook_def split: option.splits cfile.splits)
    have c': "ex" "c' = c" using ran(4,6) m read_claim_content by (fastforce)+
    let ?l = "\<lparr>lk_LeaseID = ao_LeaseID opts, lk_Claim = c', lk_Exists = ex, lk_Dir = d,
        lk_IO = le_IO (aq_Lock env), lk_N = 0, lk_Trace = []\<rparr>"
    have "lk_Exists ?l" "FixedIntent (lk_Claim ?l) = Some i" using c' assms(2) by simp_all
    from underLock_refuses [OF this assms(3)] obtain e where "?body ?l = (?l, Inl e)" by blast
    with ran(1) have "l = ?l" "r = Inl e" by simp_all
    with eq ran(2,3) show ?thesis by simp
  qed
qed

theorem cleanup_is_never_replayed_witness:
  "\<exists>e. AcquireFixedResource sampleEnv sampleOpts sampleOps [(''a.json'', CClaim (TerminalClaim sampleKind sampleClaim 0))]
     = ([(''a.json'', CClaim (TerminalClaim sampleKind sampleClaim 0))], [], Inl e)"
  using cleanup_is_never_replayed
    [of "[(''a.json'', CClaim (TerminalClaim sampleKind sampleClaim 0))]" sampleOpts "TerminalClaim sampleKind sampleClaim 0"
      "released_intent (the (FixedIntent sampleClaim))" sampleEnv sampleOps]
  by (simp add: claimAt_def claimLook_def claimFile_def sampleOpts_def)

end
