(* ===== verification/FixedRelease.thy ===== *)
theory FixedRelease
  imports FixedIdentity
begin

text \<open>
  Release, inspection and resolution of fixed leases: \<open>DeleteFixedResource\<close>, \<open>InspectFixedResource\<close>
  and their helpers in \<open>internal/cli/fixed_lease_engine.go\<close>, the claim rules and recovery of
  \<open>internal/cli/fixed_lease_protocol.go\<close>, and \<open>internal/cli/fixed_lease_resolve.go\<close>.

  A release holds the claim lock across attestation, native deletion and publication of the receipt.
  Native deletion is the event \<open>Delete\<close>, noted when the engine calls \<open>ops.DeleteExact\<close>, and its answer
  is the event \<open>Answered\<close>, noted with the error that \<open>ops.DeleteExact\<close> returned. The flags a
  caller sees through \<open>FixedReleasePolicy.Started\<close> and \<open>Outcome.Terminal\<close> are fields of \<open>delState\<close>.
  \<open>authorize\<close> stands for \<open>AuthorizeCheckpointRelease\<close>, which reads the checkpoint store.
\<close>

section \<open>Deletion\<close>

record delState =
  ds_Tx :: FixedTransaction
  ds_Started :: bool
  ds_Terminal :: bool

definition onTx :: "(FixedTransaction, 'a) proc \<Rightarrow> (delState, 'a) proc" where
  "onTx m s = (case m (ds_Tx s) of (tx, r) \<Rightarrow> (s\<lparr>ds_Tx := tx\<rparr>, r))"

abbreviation ds_Claim :: "delState \<Rightarrow> leaseClaim" where
  "ds_Claim s \<equiv> ft_Claim (ds_Tx s)"

definition afterTerminal :: "FixedLeaseKind \<Rightarrow> leaseClaim \<Rightarrow> gerr option" where
  "afterTerminal k c = (case fk_AfterTerminal k of Some f \<Rightarrow> f c | None \<Rightarrow> None)"

text \<open>A release of a lease that already has its receipt.\<close>

definition finishTerminal :: "FixedLeaseKind \<Rightarrow> leaseClaim \<Rightarrow> (delState, unit) proc" where
  "finishTerminal k expected =
     bindR (\<lambda>s. checkR (ValidateTerminalClaim k (ds_Claim s) expected (LeaseID (ds_Claim s)) None) s) (\<lambda>_.
     bindR (\<lambda>s. (s\<lparr>ds_Started := True, ds_Terminal := True\<rparr>, Inr ())) (\<lambda>_ s.
       checkR (afterTerminal k (ds_Claim s)) s))"

definition releaseRefused ::
  "(leaseClaim \<Rightarrow> string \<Rightarrow> gerr option) \<Rightarrow> FixedReleasePolicy option \<Rightarrow> leaseClaim \<Rightarrow> gerr option" where
  "releaseRefused authorize policy c =
     (case policy of
        None \<Rightarrow> None
      | Some p \<Rightarrow>
          (case (if rl_RepoRoot p \<noteq> [] then
                   if RepoRoot c = [] then Some (Exit 4 ''fixed lease has no current repository owner'')
                   else CheckLeaseClaimRepositoryOwner c (rl_RepoRoot p) False (rl_LegacyRepoRoot p)
                 else None) of
             Some e \<Rightarrow> Some e
           | None \<Rightarrow> (case rl_CheckpointID p of Some ck \<Rightarrow> authorize c ck | None \<Rightarrow> None)))"

definition noObservation :: "'r FixedObservation" where
  "noObservation = \<lparr>ob_Binding = None, ob_Candidates = [], ob_CanSubmit = False, ob_AbsenceProven = False, ob_Conflict = []\<rparr>"

definition pristineRelease :: "FixedLeaseKind \<Rightarrow> FixedReleasePolicy option \<Rightarrow> leaseClaim \<Rightarrow> bool" where
  "pristineRelease k policy c =
     (case policy of
        None \<Rightarrow> False
      | Some p \<Rightarrow> rl_PristineScopePrefix p \<noteq> [] \<and> FixedPristineRecord c k (rl_PristineScopePrefix p))"

definition observeDelete ::
  "jsonCodec \<Rightarrow> FixedLeaseKind \<Rightarrow> 'r FixedLeaseOperations \<Rightarrow> (FixedTransaction, 'r FixedObservation) proc" where
  "observeDelete js k ops tx =
     (if pristineRelease k (op_Release ops) (ft_Claim tx) then (tx, Inr (noObservation\<lparr>ob_AbsenceProven := True\<rparr>))
      else runAdapter js (the (op_ObserveExact ops) tx FixedObserveDelete) tx)"

text \<open>The supplied bindings are applied in order; the result says whether any was.\<close>

fun applyBindings :: "jsonCodec \<Rightarrow> FixedResourceBinding option list \<Rightarrow> bool \<Rightarrow> (FixedTransaction, bool) proc" where
  "applyBindings js [] persistBinding tx = (tx, Inr persistBinding)"
| "applyBindings js (None # bs) persistBinding tx = applyBindings js bs persistBinding tx"
| "applyBindings js (Some b # bs) persistBinding tx =
     (if fb_OnlyUnbound b \<and> CloudID (ft_Claim tx) \<noteq> [] then applyBindings js bs persistBinding tx
      else (case applyBindingTx js b tx of
              (tx1, Some e) \<Rightarrow> (tx1, Inl e)
            | (tx1, None) \<Rightarrow> applyBindings js bs True tx1))"

definition retireRetention :: "bool \<Rightarrow> (FixedTransaction, bool) proc" where
  "retireRetention persistBinding tx =
     (case fi_Journal (ft_intent tx) of
        Some j \<Rightarrow>
          (case fj_Retention j of
             Some s \<Rightarrow> (setIntent ((ft_intent tx)\<lparr>fi_Journal := Some (j\<lparr>fj_Retention := Some (retire_state s)\<rparr>)\<rparr>) tx, Inr True)
           | None \<Rightarrow> (tx, Inr persistBinding))
      | None \<Rightarrow> (tx, Inr persistBinding))"

definition enterDeletion :: "FixedLeaseKind \<Rightarrow> bool \<Rightarrow> (FixedTransaction, unit) proc" where
  "enterDeletion k persistBinding tx =
     (let tx1 = (if fk_DeletionState k \<noteq> [] then setIntent ((ft_intent tx)\<lparr>fi_State := fk_DeletionState k\<rparr>) tx else tx)
      in if fk_DeletionState k \<noteq> [] \<or> persistBinding then stateR (Record ''deleting'') tx1 else (tx1, Inr ()))"

definition noteDelete :: "(FixedTransaction, unit) proc" where
  "noteDelete tx = (tx\<lparr>ft_Lock := noteEvent Delete (ft_Lock tx)\<rparr>, Inr ())"

definition noteAnswer :: "unit res \<Rightarrow> FixedTransaction \<Rightarrow> FixedTransaction" where
  "noteAnswer r tx = tx\<lparr>ft_Lock := noteEvent (\<lambda>_. Answered (case r of Inl e \<Rightarrow> Some e | Inr _ \<Rightarrow> None)) (ft_Lock tx)\<rparr>"

definition deleteCandidate :: "jsonCodec \<Rightarrow> 'r FixedLeaseOperations \<Rightarrow> 'r FixedObservation \<Rightarrow> (FixedTransaction, unit) proc" where
  "deleteCandidate js ops ob =
     (if ob_Candidates ob = [] then returnR ()
      else bindR noteDelete (\<lambda>_ tx.
        case runAdapter js (the (op_DeleteExact ops) tx (hd (ob_Candidates ob))) tx of (tx1, r) \<Rightarrow> (noteAnswer r tx1, r)))"

definition publishReceipt :: "FixedLeaseKind \<Rightarrow> int \<Rightarrow> (FixedTransaction, unit) proc" where
  "publishReceipt k now tx =
     (case ft_persist tx ((ft_Lock tx)\<lparr>lk_Claim := TerminalClaim k (ft_Claim tx) now\<rparr>) of
        (l, Some e) \<Rightarrow> (tx\<lparr>ft_Lock := l\<rparr>, Inl e)
      | (l, None) \<Rightarrow> (tx\<lparr>ft_Lock := l\<rparr>, case afterTerminal k (lk_Claim l) of Some e \<Rightarrow> Inl e | None \<Rightarrow> Inr ()))"

definition enterCleanup ::
  "jsonCodec \<Rightarrow> FixedLeaseKind \<Rightarrow> 'r FixedLeaseOperations \<Rightarrow> 'r FixedObservation \<Rightarrow> (FixedTransaction, unit) proc" where
  "enterCleanup js k ops ob =
     bindR (applyBindings js (ob_Binding ob # (case op_Release ops of Some p \<Rightarrow> [rl_Binding p] | None \<Rightarrow> [])) False) (\<lambda>pb.
     bindR (retireRetention pb) (enterDeletion k))"

definition deleteObserved ::
  "jsonCodec \<Rightarrow> FixedLeaseKind \<Rightarrow> 'r FixedLeaseOperations \<Rightarrow> int \<Rightarrow> 'r FixedObservation \<Rightarrow> (delState, unit) proc" where
  "deleteObserved js k ops now ob =
     bindR (requireR (ob_Candidates ob \<noteq> [] \<or> ob_AbsenceProven ob) (conflict4 ''absence is unverified; claim retained'')) (\<lambda>_.
     bindR (onTx (enterCleanup js k ops ob)) (\<lambda>_.
     bindR (\<lambda>s. (s\<lparr>ds_Started := True\<rparr>, Inr ())) (\<lambda>_.
     bindR (onTx (deleteCandidate js ops ob)) (\<lambda>_.
     bindR (\<lambda>s. (s\<lparr>ds_Terminal := True\<rparr>, Inr ())) (\<lambda>_.
     onTx (publishReceipt k now))))))"

definition deleteTx ::
  "jsonCodec \<Rightarrow> (leaseClaim \<Rightarrow> string \<Rightarrow> gerr option) \<Rightarrow> FixedLeaseKind \<Rightarrow> leaseClaim \<Rightarrow> 'r FixedLeaseOperations \<Rightarrow> int
    \<Rightarrow> (delState, unit) proc" where
  "deleteTx js authorize k expected ops now s =
     (if (case op_Release ops of Some p \<Rightarrow> rl_SkipTerminalObservation p | None \<Rightarrow> False) \<and> fi_State (ft_intent (ds_Tx s)) = ''released''
      then finishTerminal k expected s
      else bindR (checkR (releaseRefused authorize (op_Release ops) (ds_Claim s))) (\<lambda>_.
           bindR (onTx (observeDelete js k ops)) (\<lambda>ob.
           bindR (checkR (fixedObservationConflict ob)) (\<lambda>_ s1.
             if fi_State (ft_intent (ds_Tx s1)) = ''released'' then finishTerminal k expected s1
             else deleteObserved js k ops now ob s1))) s)"

definition previouslyStarted :: "FixedLeaseKind \<Rightarrow> leaseClaim \<Rightarrow> bool" where
  "previouslyStarted k c \<longleftrightarrow> IsFixedClaim k c
     \<and> ((fk_DeletionState k \<noteq> [] \<and> fi_State (the (FixedIntent c)) = fk_DeletionState k)
        \<or> (case fi_Journal (the (FixedIntent c)) of Some j \<Rightarrow> fj_Phase j = ''deleting'' | None \<Rightarrow> False))"

definition deleteUnderLock ::
  "jsonCodec \<Rightarrow> (leaseClaim \<Rightarrow> string \<Rightarrow> gerr option) \<Rightarrow> FixedLeaseKind \<Rightarrow> leaseClaim \<Rightarrow> 'r FixedLeaseOperations \<Rightarrow> int
    \<Rightarrow> (lockState, bool \<times> bool \<times> gerr option) proc" where
  "deleteUnderLock js authorize k expected ops now l =
     (let before = (previouslyStarted k expected, False) in
      if RecoveryHold (lk_Claim l) \<noteq> None then (l, Inr (fst before, False, Some (Exit 4 ''recovery_required: held for salvage'')))
      else if \<not> lk_Exists l \<or> lk_Claim l \<noteq> expected
      then (l, Inr (fst before, False, Some (conflict4 ''fixed claim changed before release; retry'')))
      else (case newFixedTransaction l False persist of
              Inl e \<Rightarrow> (l, Inr (fst before, False, Some e))
            | Inr tx \<Rightarrow>
                (case deleteTx js authorize k expected ops now \<lparr>ds_Tx = tx, ds_Started = fst before, ds_Terminal = False\<rparr> of
                   (s, r) \<Rightarrow> (ft_Lock (ds_Tx s),
                      Inr (ds_Started s, ds_Terminal s, case r of Inl e \<Rightarrow> Some e | Inr _ \<Rightarrow> None)))))"

text \<open>The outcome is the directory, the trace, whether cleanup started, whether the lease is
  terminal, and the error.\<close>

definition DeleteFixedResource ::
  "jsonCodec \<Rightarrow> (leaseClaim \<Rightarrow> string \<Rightarrow> gerr option) \<Rightarrow> lockEnv \<Rightarrow> FixedLeaseKind \<Rightarrow> leaseClaim \<Rightarrow> 'r FixedLeaseOperations
    \<Rightarrow> int \<Rightarrow> claimsDir \<Rightarrow> claimsDir \<times> event list \<times> bool \<times> bool \<times> gerr option" where
  "DeleteFixedResource js authorize env k expected ops now d =
     (if \<not> IsFixedClaim k expected \<or> fi_Version (the (FixedIntent expected)) \<noteq> fk_IntentVersion k
      then (d, [], previouslyStarted k expected, False, Some (conflict4 ''fixed deletion has no matching ownership dialect''))
      else if op_ObserveExact ops = None \<or> op_DeleteExact ops = None
      then (d, [], previouslyStarted k expected, False, Some (Fail ''fixed lease engine requires observation and exact deletion''))
      else (case WithDurableLeaseClaimLockContext (LeaseID expected) env (deleteUnderLock js authorize k expected ops now) d of
              (d', tr, Inl e) \<Rightarrow> (d', tr, previouslyStarted k expected, False, Some e)
            | (d', tr, Inr (started, terminal, err)) \<Rightarrow> (d', tr, started, terminal, err)))"

section \<open>What a release leaves behind\<close>

text \<open>A durable record that deletion began.\<close>

definition deletingRecord :: "FixedLeaseKind \<Rightarrow> leaseClaim option \<Rightarrow> bool" where
  "deletingRecord k x \<longleftrightarrow> (\<exists>c i j. x = Some c \<and> FixedIntent c = Some i \<and> fi_Journal i = Some j
     \<and> fj_Phase j = ''deleting'' \<and> fi_State i = fk_DeletionState k)"

text \<open>The receipt of a claim: its terminal form with a revision.\<close>

definition receiptFor :: "FixedLeaseKind \<Rightarrow> int \<Rightarrow> string \<Rightarrow> leaseClaim \<Rightarrow> leaseClaim option \<Rightarrow> bool" where
  "receiptFor k now i c x \<longleftrightarrow> (\<exists>r. x = Some ((TerminalClaim k c now)\<lparr>LeaseID := i, Revision := r\<rparr>))"

definition deletes :: "event list \<Rightarrow> bool" where
  "deletes es \<longleftrightarrow> (\<exists>x. Delete x \<in> set es)"

lemma deletes_simps [simp]:
  "\<not> deletes []" "deletes (es @ fs) \<longleftrightarrow> deletes es \<or> deletes fs" "\<not> deletes (map OnDisk a)" "deletes (Delete x # es)"
  "deletes (Answered y # es) \<longleftrightarrow> deletes es"
  by (auto simp: deletes_def)

text \<open>The trace of a release: at most one deletion, after its record; a deletion that fails ends the
  release with its error, and nothing is written after it.\<close>

definition deletion :: "FixedLeaseKind \<Rightarrow> gerr option \<Rightarrow> bool \<Rightarrow> event list \<Rightarrow> bool" where
  "deletion k err term es \<longleftrightarrow> (\<exists>b c x y. es = Delete x # map OnDisk b @ Answered y # map OnDisk c
     \<and> (fk_DeletionState k \<noteq> [] \<longrightarrow> deletingRecord k x) \<and> (y \<noteq> None \<longrightarrow> c = [] \<and> err = y \<and> \<not> term))"

definition deleteShape :: "FixedLeaseKind \<Rightarrow> gerr option \<Rightarrow> bool \<Rightarrow> event list \<Rightarrow> bool" where
  "deleteShape k err term es \<longleftrightarrow> (\<exists>a z. es = map OnDisk a @ z \<and> (z = [] \<or> deletion k err term z))"

lemma deleteShape_prepend: "deleteShape k err term es \<Longrightarrow> deleteShape k err term (map OnDisk a @ es)"
  unfolding deleteShape_def by (metis append_assoc map_append)

lemma deleteShape_writes [simp]: "deleteShape k err term (map OnDisk a)" "deleteShape k err term []"
  unfolding deleteShape_def by (auto intro: exI [of _ "[]"])

lemma quietStage_observe: "quietStage (observeDelete js k ops)"
proof (rule quietStageI)
  fix tx
  show "txWrote tx (fst (observeDelete js k ops tx))"
    using adapter_writes by (cases "runAdapter js (the (op_ObserveExact ops) tx FixedObserveDelete) tx")
      (auto simp: observeDelete_def)
qed

lemma applyBindings_quiet: "quietStage (applyBindings js bs pb)"
proof (rule quietStageI)
  fix tx
  show "txWrote tx (fst (applyBindings js bs pb tx))"
  proof (induction js bs pb tx rule: applyBindings.induct)
    case (3 js b bs pb tx)
    have t: "txWrote tx (fst (applyBindingTx js b tx))" by (rule applyBindingTx_txWrote)
    show ?case
      using 3 t by (auto split: prod.splits option.splits intro: txWrote_trans)
  qed simp_all
qed

lemma enterCleanup_quiet: "quietStage (enterCleanup js k ops ob)"
proof -
  have "quietStage (retireRetention pb)" for pb
    by (intro quietStageI) (simp add: retireRetention_def split: option.splits)
  moreover have "quietStage (enterDeletion k pb)" for pb
    by (intro quietStageI) (auto simp: enterDeletion_def Let_def fst_stateR intro: then_Record_txWrote)
  ultimately show ?thesis
    unfolding enterCleanup_def by (intro quietStage_bind applyBindings_quiet) (simp_all split: option.splits)
qed

lemma enterCleanup_recorded:
  assumes "enterCleanup js k ops ob tx = (tx', Inr u)" and "ownTx tx" and "dirOk (lk_Dir (ft_Lock tx))"
    and "fk_DeletionState k \<noteq> []"
  shows "deletingRecord k (lk_Disk (ft_Lock tx'))"
proof -
  obtain tx1 pb tx2 pb2 where 1: "applyBindings js (ob_Binding ob # (case op_Release ops of Some p \<Rightarrow> [rl_Binding p] | None \<Rightarrow> [])) False tx = (tx1, Inr pb)"
    and 2: "retireRetention pb tx1 = (tx2, Inr pb2)" and 3: "enterDeletion k pb2 tx2 = (tx', Inr u)"
    using assms(1) unfolding enterCleanup_def bindR_Inr by blast
  obtain cs where e: "emitted tx (map OnDisk cs) tx1" using quiet_emitted [OF applyBindings_quiet 1 assms(2)] .
  have "ownTx tx2" "dirOk (lk_Dir (ft_Lock tx2))"
    using 2 emitted_own [OF e assms(2)] emitted_dirOk [OF e assms(3)] by (auto simp: retireRetention_def split: option.splits)
  moreover have "Record ''deleting'' (setIntent ((ft_intent tx2)\<lparr>fi_State := fk_DeletionState k\<rparr>) tx2) = (tx', None)"
    using 3 assms(4) by (simp add: enterDeletion_def Let_def stateR_Inr)
  ultimately show ?thesis
    using Record_ok [of "''deleting''" "setIntent ((ft_intent tx2)\<lparr>fi_State := fk_DeletionState k\<rparr>) tx2" tx']
    by (auto simp: deletingRecord_def recordedIntent_def Let_def setIntent_def setClaim_def ownTx_def)
qed

lemma publishReceipt_quiet: "quietStage (publishReceipt k now)"
proof (rule quietStageI)
  fix tx
  obtain l e where p: "ft_persist tx ((ft_Lock tx)\<lparr>lk_Claim := TerminalClaim k (ft_Claim tx) now\<rparr>) = (l, e)" by fastforce
  then have "goodPersist (ft_persist tx) \<Longrightarrow> wrote (ft_Lock tx) l"
    unfolding goodPersist_def by (metis fst_conv wrote_claim(2))
  then show "txWrote tx (fst (publishReceipt k now tx))"
    using p by (auto simp: publishReceipt_def txWrote_def split: option.splits)
qed

lemma publishReceipt_ok:
  assumes "publishReceipt k now tx = (tx', Inr u)" and "ownTx tx" and "dirOk (lk_Dir (ft_Lock tx))"
  shows "receiptFor k now (lk_LeaseID (ft_Lock tx)) (ft_Claim tx) (lk_Disk (ft_Lock tx'))"
proof -
  let ?l = "(ft_Lock tx)\<lparr>lk_Claim := TerminalClaim k (ft_Claim tx) now\<rparr>"
  have p: "persist ?l = (ft_Lock tx', None)"
    using assms(1,2) by (auto simp: publishReceipt_def ownTx_def split: prod.splits option.splits)
  from p obtain r where r: "lk_Claim (ft_Lock tx') = stamped ?l r" and id: "LeaseID (stamped ?l r) = lk_LeaseID (ft_Lock tx)"
    by (cases rule: persist_cases) (auto simp: LeaseID_stamped)
  have "stamped ?l r = (TerminalClaim k (ft_Claim tx) now)\<lparr>LeaseID := LeaseID (stamped ?l r), Revision := r\<rparr>"
    by (rule stamped_terminal) simp
  with persist_ok(1) [OF p] assms(3) r id show ?thesis unfolding receiptFor_def by auto
qed

lemma noteDelete_emitted: "emitted tx [Delete (lk_Disk (ft_Lock tx))] (fst (noteDelete tx))"
  by (simp add: noteDelete_def noteEvent_def emitted_def ownTx_def lk_Disk_def)

lemma noteAnswer_emitted: "emitted tx [Answered (case r of Inl e \<Rightarrow> Some e | Inr _ \<Rightarrow> None)] (noteAnswer r tx)"
  by (simp add: noteAnswer_def noteEvent_def emitted_def ownTx_def)

lemma deleteCandidate_emitted:
  assumes "deleteCandidate js ops ob tx = (tx', r)" and "ownTx tx"
  obtains (absent) "ob_Candidates ob = []" "tx' = tx" "r = Inr ()"
  | (deleted) b where "ob_Candidates ob \<noteq> []"
      "emitted tx (Delete (lk_Disk (ft_Lock tx)) # map OnDisk b @ [Answered (case r of Inl e \<Rightarrow> Some e | Inr _ \<Rightarrow> None)]) tx'"
proof (cases "ob_Candidates ob = []")
  case True
  then show ?thesis using assms absent by (simp add: deleteCandidate_def returnR_def)
next
  case False
  let ?tx = "fst (noteDelete tx)"
  have n: "emitted tx [Delete (lk_Disk (ft_Lock tx))] ?tx" by (rule noteDelete_emitted)
  obtain tx1 where a: "runAdapter js (the (op_DeleteExact ops) ?tx (hd (ob_Candidates ob))) ?tx = (tx1, r)"
    and tx': "tx' = noteAnswer r tx1"
    using assms(1) False by (auto simp: deleteCandidate_def bindR_def noteDelete_def split: prod.splits)
  from a obtain b where b: "emitted ?tx (map OnDisk b) tx1"
    using adapter_writes txWrote_emitted emitted_own [OF n assms(2)] by blast
  show ?thesis
    using deleted [OF False] emitted_trans [OF emitted_trans [OF n b] noteAnswer_emitted [of tx1 r]] tx' by simp
qed

lemma onTx_run: "onTx m s = (s', r) \<longleftrightarrow> (\<exists>tx. m (ds_Tx s) = (tx, r) \<and> s' = s\<lparr>ds_Tx := tx\<rparr>)"
  by (auto simp: onTx_def split: prod.splits)

lemma finishTerminal_same: "finishTerminal k expected s = (s', r) \<Longrightarrow> ds_Tx s' = ds_Tx s"
  by (auto simp: finishTerminal_def bindR_def checkR_def split: option.splits)

subsection \<open>The lease under the lock\<close>

text \<open>The claim of a release changes its journal, its state and its evidence, and stays the claim of the same
  lease, as long as the adapters assign only to labels.\<close>

definition sameLease :: "leaseClaim \<Rightarrow> leaseClaim \<Rightarrow> bool" where
  "sameLease c c' \<longleftrightarrow> keepsIdentity c c'
     \<and> (\<forall>i. FixedIntent c = Some i \<longrightarrow> (\<exists>i'. FixedIntent c' = Some i' \<and> sameCreate i i'))"

definition labelOps :: "'r FixedLeaseOperations \<Rightarrow> bool" where
  "labelOps ops \<longleftrightarrow> (\<forall>tx m. callsOnly labelEdits (the (op_ObserveExact ops) tx m))
     \<and> (\<forall>tx r. callsOnly labelEdits (the (op_DeleteExact ops) tx r))"

definition keepsLease :: "FixedTransaction \<Rightarrow> FixedTransaction \<Rightarrow> bool" where
  "keepsLease tx tx' \<longleftrightarrow> ft_persist tx' = ft_persist tx
     \<and> (ft_persist tx = persist \<and> FixedIntent (ft_Claim tx) \<noteq> None \<longrightarrow> sameLease (ft_Claim tx) (ft_Claim tx'))"

lemma sameLease_trans: "sameLease a b \<Longrightarrow> sameLease b c \<Longrightarrow> sameLease a c"
proof -
  have "sameCreate a b \<Longrightarrow> sameCreate b c \<Longrightarrow> sameCreate a c" for a b c by (simp add: sameCreate_def)
  then show "sameLease a b \<Longrightarrow> sameLease b c \<Longrightarrow> sameLease a c"
    unfolding sameLease_def using keepsIdentity_trans by metis
qed

lemma keepsLease_trans:
  assumes "keepsLease tx tx1" and "keepsLease tx1 tx2"
  shows "keepsLease tx tx2"
proof -
  have "sameLease (ft_Claim tx) (ft_Claim tx2)" if "ft_persist tx = persist" "FixedIntent (ft_Claim tx) \<noteq> None"
  proof -
    have 1: "sameLease (ft_Claim tx) (ft_Claim tx1)" using assms(1) that by (simp add: keepsLease_def)
    then have "FixedIntent (ft_Claim tx1) \<noteq> None" using that(2) by (auto simp: sameLease_def)
    then have "sameLease (ft_Claim tx1) (ft_Claim tx2)" using assms that(1) by (simp add: keepsLease_def)
    with 1 show ?thesis by (rule sameLease_trans)
  qed
  then show ?thesis using assms by (simp add: keepsLease_def)
qed

lemma frozen_keepsLease: "txFrozen tx tx' \<Longrightarrow> keepsLease tx tx'"
  by (auto simp: txFrozen_def keepsLease_def frozenClaim_def sameLease_def sameIntent_def)

lemma keepsLease_refl [simp]: "keepsLease tx tx"
  by (rule frozen_keepsLease) simp

lemma keepsLease_intent:
  assumes "FixedIntent (ft_Claim tx) \<noteq> None \<Longrightarrow> sameCreate (ft_intent tx) i"
  shows "keepsLease tx (setIntent i tx)"
  using assms by (auto simp: keepsLease_def sameLease_def keepsIdentity_def setIntent_def setClaim_def)

lemma observe_keepsLease:
  assumes "labelOps ops" and "observeDelete js k ops tx = (tx', r)"
  shows "keepsLease tx tx'"
proof (cases "pristineRelease k (op_Release ops) (ft_Claim tx)")
  case False
  then have "runAdapter js (the (op_ObserveExact ops) tx FixedObserveDelete) tx = (tx', r)"
    using assms(2) by (simp add: observeDelete_def)
  moreover have "callsOnly labelEdits (the (op_ObserveExact ops) tx FixedObserveDelete)" using assms(1) by (simp add: labelOps_def)
  ultimately show ?thesis using frozen.adapter_keeps [of "the (op_ObserveExact ops) tx FixedObserveDelete" tx js] frozen_keepsLease by simp
qed (use assms in \<open>simp add: observeDelete_def\<close>)

lemma applyBindings_keepsLease: "keepsLease tx (fst (applyBindings js bs pb tx))"
proof (induction js bs pb tx rule: applyBindings.induct)
  case (3 js b bs pb tx)
  have t: "keepsLease tx (fst (applyBindingTx js b tx))" by (rule frozen_keepsLease [OF applyBindingTx_txFrozen])
  show ?case using 3 t by (auto split: prod.splits option.splits intro: keepsLease_trans)
qed simp_all

lemma enterCleanup_keepsLease:
  assumes "enterCleanup js k ops ob tx = (tx', Inr u)"
  shows "keepsLease tx tx'"
proof -
  obtain tx1 pb tx2 pb2 where 1: "applyBindings js (ob_Binding ob # (case op_Release ops of Some p \<Rightarrow> [rl_Binding p] | None \<Rightarrow> [])) False tx = (tx1, Inr pb)"
    and 2: "retireRetention pb tx1 = (tx2, Inr pb2)" and 3: "enterDeletion k pb2 tx2 = (tx', Inr u)"
    using assms unfolding enterCleanup_def bindR_Inr by blast
  have "keepsLease tx tx1" using applyBindings_keepsLease 1 by (metis fst_conv)
  moreover have "keepsLease tx1 tx2"
    using 2 by (auto simp: retireRetention_def sameCreate_def intro!: keepsLease_intent split: option.splits)
  moreover have "keepsLease tx2 tx'"
  proof -
    let ?tx = "if fk_DeletionState k \<noteq> [] then setIntent ((ft_intent tx2)\<lparr>fi_State := fk_DeletionState k\<rparr>) tx2 else tx2"
    have "keepsLease tx2 ?tx" by (auto simp: sameCreate_def intro!: keepsLease_intent)
    moreover have "tx' = ?tx \<or> tx' = fst (Record ''deleting'' ?tx)"
      using 3 by (auto simp: enterDeletion_def Let_def stateR_Inr split: if_splits)
    ultimately show ?thesis
      using frozen_keepsLease [OF Record_txFrozen [of ?tx "''deleting''"]] keepsLease_trans [of tx2 ?tx tx'] by (elim disjE) simp_all
  qed
  ultimately show ?thesis using keepsLease_trans by blast
qed

lemma deleteCandidate_keepsLease:
  assumes "labelOps ops" and "deleteCandidate js ops ob tx = (tx', r)"
  shows "keepsLease tx tx'"
proof (cases "ob_Candidates ob = []")
  case True
  then show ?thesis using assms by (simp add: deleteCandidate_def returnR_def)
next
  case False
  let ?tx = "fst (noteDelete tx)"
  let ?a = "the (op_DeleteExact ops) ?tx (hd (ob_Candidates ob))"
  have tx': "tx' = noteAnswer r (fst (runAdapter js ?a ?tx))"
    using assms(2) False by (simp add: deleteCandidate_def bindR_def noteDelete_def case_prod_beta) auto
  have "callsOnly labelEdits ?a" using assms(1) by (simp add: labelOps_def)
  then have "keepsLease ?tx (fst (runAdapter js ?a ?tx))" by (rule frozen_keepsLease [OF frozen.adapter_keeps])
  moreover have "keepsLease tx ?tx" "keepsLease tx1 (noteAnswer r tx1)" for tx1
    by (auto simp: keepsLease_def noteDelete_def noteAnswer_def noteEvent_def sameLease_def keepsIdentity_def sameCreate_def)
  ultimately show ?thesis unfolding tx' using keepsLease_trans by blast
qed

subsection \<open>Attestation\<close>

definition attested :: "'r FixedObservation \<Rightarrow> event list \<Rightarrow> bool" where
  "attested ob es \<longleftrightarrow> Answered None \<in> set es \<or> (ob_Candidates ob = [] \<and> ob_AbsenceProven ob)"

definition errOf :: "'a res \<Rightarrow> gerr option" where
  "errOf r = (case r of Inl e \<Rightarrow> Some e | Inr _ \<Rightarrow> None)"

lemma errOf_simps [simp]: "errOf (Inl e) = Some e" "errOf (Inr x) = None" "errOf r = None \<longleftrightarrow> is_ok r"
  by (simp_all add: errOf_def) (cases r; simp)

text \<open>What a run of the deletion leaves: its trace, that the lease is terminal only when its end was
  attested, and that a success has published the receipt of the claim.\<close>

definition ends :: "FixedLeaseKind \<Rightarrow> int \<Rightarrow> 'r FixedLeaseOperations \<Rightarrow> bool \<Rightarrow> FixedTransaction \<Rightarrow> delState \<Rightarrow> unit res \<Rightarrow> bool" where
  "ends k now ops ev tx s' r \<longleftrightarrow>
     (ds_Terminal s' \<longrightarrow> ev \<and> ds_Started s')
     \<and> (is_ok r \<longrightarrow> ds_Terminal s' \<and> (\<exists>c. receiptFor k now (lk_LeaseID (ft_Lock tx)) c (lk_Disk (ft_Lock (ds_Tx s')))
          \<and> (labelOps ops \<longrightarrow> keepsLease tx (setClaim c tx))))"

lemma ends_error: "\<not> ds_Terminal s' \<Longrightarrow> ends k now ops ev tx s' (Inl e)"
  by (simp add: ends_def)

lemma ends_after:
  assumes "emitted tx es tx1" and "labelOps ops \<Longrightarrow> keepsLease tx tx1" and "ends k now ops ev tx1 s' r" and "ev \<Longrightarrow> ev'"
  shows "ends k now ops ev' tx s' r"
proof -
  have "keepsLease tx (setClaim c tx)" if "labelOps ops" "keepsLease tx1 (setClaim c tx1)" for c
    using keepsLease_trans [OF assms(2) [OF that(1)] that(2)] by (auto simp: keepsLease_def setClaim_def)
  moreover have "lk_LeaseID (ft_Lock tx1) = lk_LeaseID (ft_Lock tx)" using assms(1) by (simp add: emitted_def)
  ultimately show ?thesis using assms(3,4) by (auto simp: ends_def)
qed

lemma deleteObserved_emitted:
  assumes run: "deleteObserved js k ops now ob s = (s', r)" and own: "ownTx (ds_Tx s)" and ok: "dirOk (lk_Dir (ft_Lock (ds_Tx s)))"
    and "\<not> ds_Terminal s"
  obtains es where "emitted (ds_Tx s) es (ds_Tx s')" "deleteShape k (errOf r) (ds_Terminal s') es"
    "ends k now ops (attested ob es) (ds_Tx s) s' r"
  using run unfolding deleteObserved_def
proof (cases rule: bindR_cases)
  case (first e)
  then have "s' = s" by (simp add: requireR_def split: if_splits)
  then show ?thesis using that [of "[]"] first assms(4) by (simp add: ends_error)
next
  case (both s0 u)
  then have s0: "s0 = s" and pres: "ob_Candidates ob \<noteq> [] \<or> ob_AbsenceProven ob" by simp_all
  show ?thesis
    using both(2) unfolding s0
  proof (cases rule: bindR_cases)
    case (first e)
    then obtain tx where "enterCleanup js k ops ob (ds_Tx s) = (tx, Inl e)" "s' = s\<lparr>ds_Tx := tx\<rparr>" by (auto simp: onTx_run)
    moreover from this obtain a where "emitted (ds_Tx s) (map OnDisk a) tx" using quiet_emitted [OF enterCleanup_quiet _ own] by blast
    ultimately show ?thesis using that [of "map OnDisk a"] first assms(4) by (simp add: ends_error)
  next
    case c: (both s1 u1)
    then obtain tx1 where e1: "enterCleanup js k ops ob (ds_Tx s) = (tx1, Inr u1)" and s1: "s1 = s\<lparr>ds_Tx := tx1\<rparr>" by (auto simp: onTx_run)
    obtain a where a: "emitted (ds_Tx s) (map OnDisk a) tx1" using quiet_emitted [OF enterCleanup_quiet e1 own] .
    have own1: "ownTx tx1" and ok1: "dirOk (lk_Dir (ft_Lock tx1))" using emitted_own [OF a own] emitted_dirOk [OF a ok] by simp_all
    have rc: "fk_DeletionState k \<noteq> [] \<longrightarrow> deletingRecord k (lk_Disk (ft_Lock tx1))" using enterCleanup_recorded [OF e1 own ok] by blast
    let ?s2 = "s1\<lparr>ds_Started := True\<rparr>"
    have "bindR (onTx (deleteCandidate js ops ob)) (\<lambda>_. bindR (\<lambda>s. (s\<lparr>ds_Terminal := True\<rparr>, Inr ())) (\<lambda>_. onTx (publishReceipt k now))) ?s2 = (s', r)"
      using c(2) by (simp add: bindR_def [of "\<lambda>s. (s\<lparr>ds_Started := True\<rparr>, Inr ())"])
    then show ?thesis
    proof (cases rule: bindR_cases)
      case d: (first e)
      then obtain tx2 where dc: "deleteCandidate js ops ob tx1 = (tx2, Inl e)" and s': "s' = ?s2\<lparr>ds_Tx := tx2\<rparr>" by (auto simp: onTx_run s1)
      then have nt: "\<not> ds_Terminal s'" using assms(4) s1 by simp
      from dc own1 show ?thesis
      proof (cases rule: deleteCandidate_emitted)
        case (deleted b)
        let ?z = "Delete (lk_Disk (ft_Lock tx1)) # map OnDisk b @ [Answered (Some e)]"
        have "deletion k (Some e) (ds_Terminal s') ?z" using rc nt unfolding deletion_def by (intro exI [of _ b] exI [of _ "[]"]) auto
        then have "deleteShape k (errOf r) (ds_Terminal s') (map OnDisk a @ ?z)" using d(2) unfolding deleteShape_def by auto
        with emitted_trans [OF a deleted(2)] s' d(2) nt that [of "map OnDisk a @ ?z"] show ?thesis by (simp add: ends_error)
      qed simp
    next
      case d: (both s2 u2)
      then obtain tx2 where dc: "deleteCandidate js ops ob tx1 = (tx2, Inr u2)" and s2: "s2 = ?s2\<lparr>ds_Tx := tx2\<rparr>" by (auto simp: onTx_run s1)
      obtain tx3 where p: "publishReceipt k now tx2 = (tx3, r)" and s': "s' = s2\<lparr>ds_Terminal := True, ds_Tx := tx3\<rparr>"
        using d(2) by (auto simp: bindR_def [of "\<lambda>s. (s\<lparr>ds_Terminal := True\<rparr>, Inr ())"] onTx_run s2)
      obtain es where es: "emitted (ds_Tx s) es tx2" "\<And>c err. deleteShape k err True (es @ map OnDisk c)" "attested ob es"
        using dc own1
      proof (cases rule: deleteCandidate_emitted)
        case absent
        have "deleteShape k err True (map OnDisk a @ map OnDisk c)" for c err using deleteShape_writes(1) [of k err True "a @ c"] by simp
        with that [of "map OnDisk a"] a absent pres show ?thesis by (auto simp: attested_def)
      next
        case (deleted b)
        let ?z = "Delete (lk_Disk (ft_Lock tx1)) # map OnDisk b @ [Answered None]"
        have "deletion k err True (?z @ map OnDisk c)" for c err
          using rc unfolding deletion_def by (intro exI [of _ b] exI [of _ c]) auto
        then have "deleteShape k err True ((map OnDisk a @ ?z) @ map OnDisk c)" for c err
          unfolding deleteShape_def by (metis append_assoc)
        with emitted_trans [OF a deleted(2)] that [of "map OnDisk a @ ?z"] show ?thesis by (simp add: attested_def)
      qed
      have own2: "ownTx tx2" and ok2: "dirOk (lk_Dir (ft_Lock tx2))" using emitted_own [OF es(1) own] emitted_dirOk [OF es(1) ok] by simp_all
      obtain b where b: "emitted tx2 (map OnDisk b) tx3" using quiet_emitted [OF publishReceipt_quiet p own2] .
      have id: "lk_LeaseID (ft_Lock tx2) = lk_LeaseID (ft_Lock (ds_Tx s))" using es(1) by (simp add: emitted_def)
      have "is_ok r \<longrightarrow> receiptFor k now (lk_LeaseID (ft_Lock (ds_Tx s))) (ft_Claim tx2) (lk_Disk (ft_Lock tx3))"
        using publishReceipt_ok [of k now tx2 tx3] p own2 ok2 id by (cases r) auto
      moreover have "labelOps ops \<longrightarrow> keepsLease (ds_Tx s) (setClaim (ft_Claim tx2) (ds_Tx s))"
        using keepsLease_trans [OF enterCleanup_keepsLease [OF e1] deleteCandidate_keepsLease [OF _ dc]]
        by (auto simp: keepsLease_def setClaim_def)
      moreover have "attested ob (es @ map OnDisk b)" using es(3) by (auto simp: attested_def)
      ultimately have "ends k now ops (attested ob (es @ map OnDisk b)) (ds_Tx s) s' r"
        using s' s2 unfolding ends_def by auto
      then show ?thesis
        using that [OF _ _ , of "es @ map OnDisk b"] es(2) emitted_trans [OF es(1) b] s' s2 by simp
    qed
  qed
qed

text \<open>The observation of a release does not itself end the lease.\<close>

definition observesOnly :: "jsonCodec \<Rightarrow> 'r FixedLeaseOperations \<Rightarrow> bool" where
  "observesOnly js ops \<longleftrightarrow> (\<forall>tx tx1 ob. runAdapter js (the (op_ObserveExact ops) tx FixedObserveDelete) tx = (tx1, Inr ob)
     \<and> fi_State (ft_intent tx) \<noteq> ''released'' \<longrightarrow> fi_State (ft_intent tx1) \<noteq> ''released'')"

definition provenAbsent :: "jsonCodec \<Rightarrow> FixedLeaseKind \<Rightarrow> 'r FixedLeaseOperations \<Rightarrow> leaseClaim \<Rightarrow> bool" where
  "provenAbsent js k ops c \<longleftrightarrow> pristineRelease k (op_Release ops) c
     \<or> (\<exists>tx tx1 ob. ft_Claim tx = c \<and> runAdapter js (the (op_ObserveExact ops) tx FixedObserveDelete) tx = (tx1, Inr ob)
          \<and> ob_Candidates ob = [] \<and> ob_AbsenceProven ob)"

lemma deleteTx_emitted:
  assumes run: "deleteTx js authorize k expected ops now s = (s', r)" and own: "ownTx (ds_Tx s)"
    and ok: "dirOk (lk_Dir (ft_Lock (ds_Tx s)))" and nt: "\<not> ds_Terminal s"
  obtains es where "emitted (ds_Tx s) es (ds_Tx s')" "deleteShape k (errOf r) (ds_Terminal s') es"
    "fi_State (ft_intent (ds_Tx s)) \<noteq> ''released'' \<and> observesOnly js ops \<longrightarrow>
       ends k now ops (Answered None \<in> set es \<or> provenAbsent js k ops (ds_Claim s)) (ds_Tx s) s' r"
proof (cases "(case op_Release ops of Some p \<Rightarrow> rl_SkipTerminalObservation p | None \<Rightarrow> False) \<and> fi_State (ft_intent (ds_Tx s)) = ''released''")
  case True
  then have "finishTerminal k expected s = (s', r)" using run by (simp add: deleteTx_def)
  then show ?thesis using finishTerminal_same that [of "[]"] True by fastforce
next
  case False
  from run False have "bindR (checkR (releaseRefused authorize (op_Release ops) (ds_Claim s))) (\<lambda>_.
           bindR (onTx (observeDelete js k ops)) (\<lambda>ob.
           bindR (checkR (fixedObservationConflict ob)) (\<lambda>_ s1.
             if fi_State (ft_intent (ds_Tx s1)) = ''released'' then finishTerminal k expected s1
             else deleteObserved js k ops now ob s1))) s = (s', r)"
    by (auto simp: deleteTx_def)
  then show ?thesis
  proof (cases rule: bindR_cases)
    case (first e)
    then have "s' = s" by (simp add: checkR_def split: option.splits)
    then show ?thesis using that [of "[]"] first nt by (simp add: ends_error)
  next
    case (both s0 u)
    then have s0: "s0 = s" by simp
    show ?thesis
      using both(2) unfolding s0
    proof (cases rule: bindR_cases)
      case (first e)
      then obtain tx where o: "observeDelete js k ops (ds_Tx s) = (tx, Inl e)" and "s' = s\<lparr>ds_Tx := tx\<rparr>" by (auto simp: onTx_run)
      moreover obtain a where "emitted (ds_Tx s) (map OnDisk a) tx" using quiet_emitted [OF quietStage_observe o own] .
      ultimately show ?thesis using that [of "map OnDisk a"] first nt by (simp add: ends_error)
    next
      case o: (both s1 ob)
      then obtain tx1 where ob: "observeDelete js k ops (ds_Tx s) = (tx1, Inr ob)" and s1: "s1 = s\<lparr>ds_Tx := tx1\<rparr>" by (auto simp: onTx_run)
      obtain a where a: "emitted (ds_Tx s) (map OnDisk a) tx1" using quiet_emitted [OF quietStage_observe ob own] .
      have own1: "ownTx (ds_Tx s1)" and ok1: "dirOk (lk_Dir (ft_Lock (ds_Tx s1)))" and nt1: "\<not> ds_Terminal s1"
        using emitted_own [OF a own] emitted_dirOk [OF a ok] s1 nt by simp_all
      have st: "fi_State (ft_intent (ds_Tx s1)) \<noteq> ''released''"
        if "fi_State (ft_intent (ds_Tx s)) \<noteq> ''released''" "observesOnly js ops"
        using ob that s1 by (auto simp: observeDelete_def observesOnly_def split: if_splits)
      show ?thesis
        using o(2)
      proof (cases rule: bindR_cases)
        case (first e)
        then have "s' = s1" by (simp add: checkR_def split: option.splits)
        then show ?thesis using that [of "map OnDisk a"] a first s1 nt by (simp add: ends_error)
      next
        case c: (both s2 u2)
        then have s2: "s2 = s1" by simp
        show ?thesis
        proof (cases "fi_State (ft_intent (ds_Tx s1)) = ''released''")
          case True
          then have "finishTerminal k expected s1 = (s', r)" using c(2) s2 by simp
          then have "ds_Tx s' = ds_Tx s1" by (rule finishTerminal_same)
          then show ?thesis using that [of "map OnDisk a"] a s1 st True by auto
        next
          case False
          then have "deleteObserved js k ops now ob s1 = (s', r)" using c(2) s2 by simp
          then obtain es where es: "emitted (ds_Tx s1) es (ds_Tx s')" "deleteShape k (errOf r) (ds_Terminal s') es"
            "ends k now ops (attested ob es) (ds_Tx s1) s' r"
            by (rule deleteObserved_emitted [OF _ own1 ok1 nt1])
          have pa: "provenAbsent js k ops (ds_Claim s)" if "ob_Candidates ob = [] \<and> ob_AbsenceProven ob"
            using ob that by (auto simp: observeDelete_def provenAbsent_def split: if_splits)
          show ?thesis
          proof (rule that)
            show "emitted (ds_Tx s) (map OnDisk a @ es) (ds_Tx s')" using emitted_trans [OF a] es(1) s1 by simp
            show "deleteShape k (errOf r) (ds_Terminal s') (map OnDisk a @ es)" using deleteShape_prepend es(2) .
            have "ends k now ops (Answered None \<in> set (map OnDisk a @ es) \<or> provenAbsent js k ops (ds_Claim s)) (ds_Tx s) s' r"
              by (rule ends_after [OF a _ es(3) [unfolded s1, simplified]]) (use observe_keepsLease [OF _ ob] pa in \<open>auto simp: attested_def\<close>)
            then show "fi_State (ft_intent (ds_Tx s)) \<noteq> ''released'' \<and> observesOnly js ops \<longrightarrow>
                ends k now ops (Answered None \<in> set (map OnDisk a @ es) \<or> provenAbsent js k ops (ds_Claim s)) (ds_Tx s) s' r" ..
          qed
        qed
      qed
    qed
  qed
qed

text \<open>The same, seen from the claims directory.\<close>

definition released ::
  "FixedLeaseKind \<Rightarrow> int \<Rightarrow> 'r FixedLeaseOperations \<Rightarrow> leaseClaim \<Rightarrow> leaseClaim option \<Rightarrow> bool" where
  "released k now ops expected x \<longleftrightarrow> (\<exists>c. receiptFor k now (LeaseID expected) c x \<and> (labelOps ops \<longrightarrow> sameLease expected c))"

lemma DeleteFixedResource_emitted:
  assumes run: "DeleteFixedResource js authorize env k expected ops now d = (d', tr, started, terminal, err)" and ok: "dirOk d"
  shows "d' = replayDir (LeaseID expected) d tr" "truthful (LeaseID expected) d tr" "deleteShape k err terminal tr"
    "err = None \<or> terminal \<longrightarrow> claimAt d (LeaseID expected) = Some expected \<and> RecoveryHold expected = None"
    "fi_State (the (FixedIntent expected)) \<noteq> ''released'' \<and> observesOnly js ops \<longrightarrow>
       (terminal \<longrightarrow> (Answered None \<in> set tr \<or> provenAbsent js k ops expected) \<and> started)
       \<and> (err = None \<longrightarrow> terminal \<and> released k now ops expected (claimAt d' (LeaseID expected)))"
proof -
  let ?i = "LeaseID expected"
  let ?attested = "fi_State (the (FixedIntent expected)) \<noteq> ''released'' \<and> observesOnly js ops \<longrightarrow>
       (terminal \<longrightarrow> (Answered None \<in> set tr \<or> provenAbsent js k ops expected) \<and> started)
       \<and> (err = None \<longrightarrow> terminal \<and> released k now ops expected (claimAt d' ?i))"
  let ?goal = "d' = replayDir ?i d tr \<and> truthful ?i d tr \<and> deleteShape k err terminal tr
    \<and> (err = None \<or> terminal \<longrightarrow> claimAt d ?i = Some expected \<and> RecoveryHold expected = None) \<and> ?attested"
  have none: ?goal if "d' = d" "tr = []" "err \<noteq> None" "\<not> terminal" using that by auto
  have ?goal
  proof (cases "IsFixedClaim k expected \<and> fi_Version (the (FixedIntent expected)) = fk_IntentVersion k
      \<and> op_ObserveExact ops \<noteq> None \<and> op_DeleteExact ops \<noteq> None")
    case False
    then show ?thesis using none run by (auto simp: DeleteFixedResource_def split: if_splits)
  next
    case cfg: True
    obtain r where w: "WithDurableLeaseClaimLockContext ?i env (deleteUnderLock js authorize k expected ops now) d = (d', tr, r)"
      and r: "case r of Inl e \<Rightarrow> err = Some e \<and> \<not> terminal | Inr x \<Rightarrow> x = (started, terminal, err)"
      using run cfg by (auto simp: DeleteFixedResource_def split: prod.splits sum.splits)
    from w show ?thesis
    proof (cases rule: lock_body)
      case refused
      then show ?thesis using none r by (cases r) auto
    next
      case (ran c ex l)
      let ?l = "\<lparr>lk_LeaseID = ?i, lk_Claim = c, lk_Exists = ex, lk_Dir = d, lk_IO = le_IO env, lk_N = 0, lk_Trace = []\<rparr>"
      show ?thesis
      proof (cases "RecoveryHold c = None \<and> ex \<and> c = expected \<and> (\<exists>tx. newFixedTransaction ?l False persist = Inr tx)")
        case False
        then have "l = ?l \<and> err \<noteq> None \<and> \<not> terminal"
          using ran(1) r by (auto simp: deleteUnderLock_def Let_def split: if_splits sum.splits)
        then have "d' = d" "tr = []" "err \<noteq> None" "\<not> terminal" using ran(2,3) by simp_all
        then show ?thesis by (rule none)
      next
        case True
        then obtain tx where tx: "newFixedTransaction ?l False persist = Inr tx" by blast
        note n = newFixedTransaction_own [OF tx]
        let ?s = "\<lparr>ds_Tx = tx, ds_Started = previouslyStarted k expected, ds_Terminal = False\<rparr>"
        obtain s' r' where dt: "deleteTx js authorize k expected ops now ?s = (s', r')" by fastforce
        then have l: "l = ft_Lock (ds_Tx s')" and out: "started = ds_Started s'" "terminal = ds_Terminal s'" "err = errOf r'"
          using ran(1) True tx r by (auto simp: deleteUnderLock_def Let_def errOf_def split: sum.splits)
        have "ownTx tx" using n(1) ran(5) by (simp add: ownTx_def)
        moreover have "ft_Lock tx = ?l" using n(2) ran(5) by simp
        ultimately obtain es where es: "emitted tx es (ds_Tx s')" "deleteShape k (errOf r') (ds_Terminal s') es"
          "fi_State (ft_intent tx) \<noteq> ''released'' \<and> observesOnly js ops \<longrightarrow>
             ends k now ops (Answered None \<in> set es \<or> provenAbsent js k ops (ft_Claim tx)) tx s' r'"
          using deleteTx_emitted [OF dt] ok by auto
        have at: "claimAt d ?i = Some expected"
          using ran(4) True read_claim_content by (auto simp: claimAt_def claimLook_def)
        have id: "lk_LeaseID l = ?i" using emitted_lock [OF es(1)] \<open>ft_Lock tx = ?l\<close> l by (simp add: lockEmitted_def)
        have intent: "FixedIntent expected \<noteq> None" "ft_persist tx = persist" "ft_Claim tx = expected"
          using cfg n(1) \<open>ft_Lock tx = ?l\<close> True by (auto simp: IsFixedClaim_def ownTx_def)
        have "is_ok r' \<longrightarrow> released k now ops expected (claimAt d' ?i)" if "ends k now ops ev tx s' r'" for ev
          using that intent ran(2) l id \<open>ft_Lock tx = ?l\<close>
          by (auto simp: ends_def released_def lk_Disk_def keepsLease_def setClaim_def)
        then have "?attested" using es(3) intent(3) ran(3) out l \<open>ft_Lock tx = ?l\<close> emitted_lock [OF es(1)]
          by (auto simp: ends_def lockEmitted_def)
        then show ?thesis
          using es(2) emitted_lock [OF es(1)] \<open>ft_Lock tx = ?l\<close> ran(2,3) l out True at
          by (simp add: lockEmitted_def) blast
      qed
    qed
  qed
  then show "d' = replayDir ?i d tr" "truthful ?i d tr" "deleteShape k err terminal tr"
    "err = None \<or> terminal \<longrightarrow> claimAt d ?i = Some expected \<and> RecoveryHold expected = None" ?attested
    by blast+
qed

section \<open>Properties of releases\<close>

lemma answered_last:
  assumes "deleteShape k err term tr" and "tr = pre @ Answered (Some e) # post"
  shows "post = [] \<and> err = Some e \<and> \<not> term"
proof -
  obtain a z where t: "tr = map OnDisk a @ z" and z: "z = [] \<or> deletion k err term z"
    using assms(1) unfolding deleteShape_def by blast
  have "Answered (Some e) \<in> set z" using assms(2) t by (metis (no_types) Un_iff event.distinct(7) in_set_conv_decomp imageE set_append set_map)
  then obtain b c x y where d: "z = Delete x # map OnDisk b @ Answered y # map OnDisk c" "y \<noteq> None \<longrightarrow> c = [] \<and> err = y \<and> \<not> term"
    using z by (auto simp: deletion_def)
  then have y: "y = Some e" using \<open>Answered (Some e) \<in> set z\<close> by auto
  have "(map OnDisk a @ Delete x # map OnDisk b) @ Answered (Some e) # [] = pre @ Answered (Some e) # post"
    using assms(2) t d y by simp
  then have "post = []" by (subst (asm) append_Cons_eq_iff) auto
  with d(2) y show ?thesis by simp
qed

text \<open>C3: A release is attested, whatever its outcome. When the native deletion fails, nothing is
  written after it: the release ends with exactly that error and the lease is not reported as terminal.
  When \<open>DeleteFixedResource\<close> reports a lease that was not yet released as terminal, even if it then
  fails to write the receipt, the file held exactly the claim the caller had inspected, without a
  recovery hold, cleanup was reported as started, and either the native deletion was called and
  answered without an error or the absence of the resource was proven (by a pristine record or by the
  provider's observation). When it reports success, the lease is terminal and the claim file holds the
  terminal form of the claim under the lock, which is the claim of the same lease (its lease ID,
  provider, known resource identities and create intent) when the adapters assign only to labels. The
  observation of the provider for a deletion is assumed to observe only: it does not itself turn the
  claim into a receipt.\<close>

theorem release_is_attested:
  assumes "DeleteFixedResource js authorize env k expected ops now d = (d', tr, started, terminal, err)" and "dirOk d"
    and "fi_State (the (FixedIntent expected)) \<noteq> ''released''" and "observesOnly js ops"
  shows "(\<forall>pre e post. tr = pre @ Answered (Some e) # post \<longrightarrow> post = [] \<and> err = Some e \<and> \<not> terminal)
     \<and> (terminal \<longrightarrow> claimAt d (LeaseID expected) = Some expected \<and> RecoveryHold expected = None \<and> started
          \<and> (Answered None \<in> set tr \<or> provenAbsent js k ops expected))
     \<and> (err = None \<longrightarrow> terminal \<and> released k now ops expected (claimAt d' (LeaseID expected)))"
  using DeleteFixedResource_emitted [OF assms(1,2)] assms(3,4) answered_last by blast

lemma deleteShape_once:
  assumes "deleteShape k err term tr" and "tr = pre @ Delete x # post"
  shows "\<not> deletes (pre @ post) \<and> (fk_DeletionState k \<noteq> [] \<longrightarrow> deletingRecord k x)"
proof -
  obtain a z where t: "tr = map OnDisk a @ z" and z: "z = [] \<or> deletion k err term z"
    using assms(1) unfolding deleteShape_def by blast
  have "deletes tr" using assms(2) by simp
  then obtain b c w y where d: "z = Delete w # map OnDisk b @ Answered y # map OnDisk c" "fk_DeletionState k \<noteq> [] \<longrightarrow> deletingRecord k w"
    using z t by (auto simp: deletion_def)
  have "Delete x \<in> set tr" using assms(2) by simp
  with t d have x: "x = w" by auto
  have "map OnDisk a @ Delete w # (map OnDisk b @ Answered y # map OnDisk c) = pre @ Delete w # post" using t d assms(2) x by simp
  then have "map OnDisk a = pre \<and> map OnDisk b @ Answered y # map OnDisk c = post" by (subst (asm) append_Cons_eq_iff) auto
  with d(2) x show ?thesis by auto
qed

lemma replay_present:
  assumes "dirOk d" and "\<not> removes es" and "claimAt d i \<noteq> None"
  shows "claimAt (replayDir i d es) i \<noteq> None"
  using assms
proof (induction es arbitrary: d)
  case (Cons e es)
  then show ?case by (cases e) (auto simp: claimAt_dirPut dirOk_dirPut removes_def)
qed simp

lemma replay_frame:
  assumes "dirOk d" and "other \<noteq> i"
  shows "claimAt (replayDir i d es) other = claimAt d other"
  using assms
proof (induction es arbitrary: d)
  case (Cons e es)
  then show ?case by (cases e) (auto simp: claimAt_dirPut claimAt_dirDelete dirOk_dirPut dirOk_dirDelete)
qed simp

text \<open>C4: A release never loses a lease. Whatever fails (the provider, the disk, a lock), the claim
  file that was there is still there afterwards, and no other claim changes; the native deletion is
  called at most once, and for a kind with a deletion state the claim on disk at that moment is marked
  as being deleted, so that an interrupted release is never mistaken for a usable lease.\<close>

theorem release_never_loses_claim:
  assumes "DeleteFixedResource js authorize env k expected ops now d = (d', tr, started, terminal, err)" and "dirOk d"
  shows "(claimAt d (LeaseID expected) \<noteq> None \<longrightarrow> claimAt d' (LeaseID expected) \<noteq> None)
     \<and> (\<forall>other. other \<noteq> LeaseID expected \<longrightarrow> claimAt d' other = claimAt d other)
     \<and> (\<forall>pre x post. tr = pre @ Delete x # post \<longrightarrow>
          x = claimAt (replayDir (LeaseID expected) d pre) (LeaseID expected) \<and> \<not> deletes (pre @ post)
          \<and> (fk_DeletionState k \<noteq> [] \<longrightarrow> deletingRecord k x))"
proof (intro conjI impI allI)
  note e = DeleteFixedResource_emitted [OF assms]
  have nr: "\<not> removes tr" using e(3) by (auto simp: deleteShape_def deletion_def removes_def)
  show "claimAt d' (LeaseID expected) \<noteq> None" if "claimAt d (LeaseID expected) \<noteq> None"
    using replay_present [OF assms(2) nr that] e(1) by simp
  show "claimAt d' other = claimAt d other" if "other \<noteq> LeaseID expected" for other
    using replay_frame [OF assms(2) that] e(1) by simp
  fix pre x post
  assume tr: "tr = pre @ Delete x # post"
  show "x = claimAt (replayDir (LeaseID expected) d pre) (LeaseID expected)" using e(2) tr by simp
  show "\<not> deletes (pre @ post)" using deleteShape_once [OF e(3) tr] by blast
  show "deletingRecord k x" if "fk_DeletionState k \<noteq> []" using deleteShape_once [OF e(3) tr] that by blast
qed

subsection \<open>A sample release\<close>

definition releaseKind :: FixedLeaseKind where
  "releaseKind = sampleKind\<lparr>fk_DeletionState := ''deleting''\<rparr>"

definition releaseIntent :: FixedCreateIntent where
  "releaseIntent = sampleIntent\<lparr>fi_State := ''acquired''\<rparr>"

definition releaseClaim :: leaseClaim where
  "releaseClaim = sampleClaim\<lparr>LeaseID := ''a'', CloudID := ''i-1'', FixedIntent := Some releaseIntent\<rparr>"

definition releaseOps :: "string FixedLeaseOperations" where
  "releaseOps = sampleOps\<lparr>
     op_ObserveExact := Some (\<lambda>_ _. Return (Inr (noObservation\<lparr>ob_Candidates := [''i-1'']\<rparr>))),
     op_DeleteExact := Some (\<lambda>_ _. Return (Inr ()))\<rparr>"

definition releaseLock :: lockState where
  "releaseLock = \<lparr>lk_LeaseID = ''a'', lk_Claim = releaseClaim, lk_Exists = True, lk_Dir = [(''a.json'', CClaim releaseClaim)],
     lk_IO = sampleIO, lk_N = 0, lk_Trace = []\<rparr>"

definition releaseTx :: FixedTransaction where
  "releaseTx = \<lparr>ft_failedSet = None, ft_createLabels = fmempty, ft_Lock = releaseLock, ft_fresh = False,
     ft_initialUnallocated = False, ft_initial = releaseIntent, ft_cloudID = ''i-1'', ft_immutableID = [],
     ft_leaseID = ''a'', ft_provider = ''aws-fixed-v1'', ft_attempt = None, ft_failures = [], ft_persist = persist, ft_admission = None\<rparr>"

lemma releaseIntent_valid: "validateFixedJournal (Some releaseIntent) = None"
  by (simp add: validateFixedJournal_ok validateSessionDiskRetention_ok releaseIntent_def sampleIntent_def journal_phases_def)

lemma releaseTx_new: "newFixedTransaction releaseLock False persist = Inr releaseTx"
  using releaseIntent_valid
  by (simp add: newFixedTransaction_def releaseLock_def releaseTx_def releaseClaim_def sampleClaim_def zeroClaim_def Let_def)
    (simp add: releaseIntent_def sampleIntent_def)

definition isDelete :: "event \<Rightarrow> bool" where
  "isDelete e = (case e of Delete _ \<Rightarrow> True | _ \<Rightarrow> False)"

definition sampleRelease :: "delState \<times> unit res" where
  "sampleRelease = deleteTx (aq_JSON sampleEnv) (\<lambda>_ _. None) releaseKind releaseClaim releaseOps 9
    \<lparr>ds_Tx = releaseTx, ds_Started = False, ds_Terminal = False\<rparr>"

lemma sampleRelease_run:
  "snd sampleRelease = Inr ()" "map isDelete (lk_Trace (ft_Lock (ds_Tx (fst sampleRelease)))) = [False, True, False, False]"
  by code_simp+

definition sampleDelete :: "claimsDir \<times> event list \<times> bool \<times> bool \<times> gerr option" where
  "sampleDelete = DeleteFixedResource (aq_JSON sampleEnv) (\<lambda>_ _. None) sampleLock releaseKind releaseClaim releaseOps 9
     [(''a.json'', CClaim releaseClaim)]"

lemma sampleDelete_eq:
  "sampleDelete = (let s = fst sampleRelease in (lk_Dir (ft_Lock (ds_Tx s)), lk_Trace (ft_Lock (ds_Tx s)), ds_Started s, ds_Terminal s, None))"
proof -
  have rd: "readLeaseClaimPathWithPresence [(''a.json'', CClaim releaseClaim)] ''a.json'' = Inr (releaseClaim, True)"
    using releaseIntent_valid by (simp add: readLeaseClaimPathWithPresence_def decodeLeaseClaim_def releaseClaim_def)
  have f: "LeaseID releaseClaim = ''a''" "RecoveryHold releaseClaim = None" "Provider releaseClaim = ''aws-fixed-v1''"
    "FixedIntent releaseClaim = Some releaseIntent" "fi_Version releaseIntent = 1" "fi_Journal releaseIntent = fi_Journal sampleIntent"
    "fi_State releaseIntent = ''acquired''" "fk_ClaimProvider releaseKind = ''aws-fixed-v1''" "fk_IntentVersion releaseKind = 1"
    "fk_DeletionState releaseKind = ''deleting''"
    "op_ObserveExact releaseOps \<noteq> None" "op_DeleteExact releaseOps \<noteq> None"
    by (simp_all add: releaseClaim_def sampleClaim_def zeroClaim_def releaseIntent_def sampleIntent_def releaseKind_def sampleKind_def releaseOps_def)
  have st: "previouslyStarted releaseKind releaseClaim = False"
    using f by (simp add: previouslyStarted_def sampleIntent_def)
  have l: "\<lparr>lk_LeaseID = ''a'', lk_Claim = releaseClaim, lk_Exists = True, lk_Dir = [(''a.json'', CClaim releaseClaim)],
     lk_IO = sampleIO, lk_N = 0, lk_Trace = []\<rparr> = releaseLock" by (simp add: releaseLock_def)
  have lf: "RecoveryHold (lk_Claim releaseLock) = None" "lk_Exists releaseLock" "lk_Claim releaseLock = releaseClaim"
    using f by (simp_all add: releaseLock_def)
  obtain s where s: "sampleRelease = (s, Inr ())" using sampleRelease_run(1) by (metis prod.collapse)
  have "deleteUnderLock (aq_JSON sampleEnv) (\<lambda>_ _. None) releaseKind releaseClaim releaseOps 9 releaseLock
      = (ft_Lock (ds_Tx s), Inr (ds_Started s, ds_Terminal s, None))"
    using s lf releaseTx_new st by (simp add: deleteUnderLock_def Let_def sampleRelease_def)
  moreover have "fst sampleRelease = s" by (subst s) simp
  ultimately show ?thesis
    by (simp add: rd f valid_a l Let_def sampleDelete_def DeleteFixedResource_def IsFixedClaim_def WithDurableLeaseClaimLockContext_def leaseClaimPath_def
        sampleLock_def claimFile_def validateLeaseClaimFileIdentity_def)
qed

theorem release_is_attested_witness:
  "fst (snd (snd (snd sampleDelete))) \<and> released releaseKind 9 releaseOps releaseClaim (claimAt (fst sampleDelete) ''a'')"
proof -
  obtain d' tr st te where run: "sampleDelete = (d', tr, st, te, None)"
    using sampleDelete_eq by (simp add: Let_def)
  have f: "fi_State (the (FixedIntent releaseClaim)) \<noteq> ''released''" "LeaseID releaseClaim = ''a''" "dirOk [(''a.json'', CClaim releaseClaim)]"
    by (simp_all add: releaseClaim_def releaseIntent_def dirOk_def)
  have "observesOnly (aq_JSON sampleEnv) releaseOps" by (auto simp: observesOnly_def releaseOps_def)
  with release_is_attested [OF run [unfolded sampleDelete_def]] f show ?thesis by (simp add: run)
qed

theorem release_never_loses_claim_witness:
  "\<exists>pre x post. fst (snd sampleDelete) = pre @ Delete x # post \<and> deletingRecord releaseKind x"
proof -
  let ?s = "fst sampleRelease"
  define tr where "tr = lk_Trace (ft_Lock (ds_Tx ?s))"
  have run: "sampleDelete = (lk_Dir (ft_Lock (ds_Tx ?s)), tr, ds_Started ?s, ds_Terminal ?s, None)"
    using sampleDelete_eq by (simp add: Let_def tr_def)
  from tr_def have "map isDelete tr = replicate 1 False @ True # [False, False]" using sampleRelease_run(2) by simp
  then obtain pre e1 post where tr: "tr = pre @ e1 # post" and "isDelete e1" by (rule map_split_nth)
  then obtain x where x: "e1 = Delete x" by (auto simp: isDelete_def split: event.splits)
  have "dirOk [(''a.json'', CClaim releaseClaim)]" "fk_DeletionState releaseKind \<noteq> []"
    by (simp_all add: dirOk_def releaseKind_def)
  with release_never_loses_claim [OF run [unfolded sampleDelete_def]] tr x have "deletingRecord releaseKind x" by blast
  moreover have "fst (snd sampleDelete) = pre @ Delete x # post" by (subst run) (simp add: tr x)
  ultimately show ?thesis by blast
qed

end
