(* ===== verification/Retention.thy ===== *)
theory Retention
  imports FixedRelease
begin

text \<open>
  Session disk retention (\<open>internal/cli/fixed_session_retention.go\<close>): a retained lease keeps its disk
  while its compute is paused and resumed inside authorised windows. \<open>MutateFixedRetention\<close> pauses or
  resumes it under the durable claim lock: it records the operation, drives the provider until an
  observation shows the target, and suspends again when the window of a resume expires on the way.

  \<^item> The provider, the clock and the cancellation of the context are the supply \<open>retentionEnv\<close>,
    indexed by the round of the loop (0 is the part before the loop).
  \<^item> The loop of the code may wait for the provider forever. \<open>retentionLoop\<close> takes the number of
    rounds to run; the result \<open>Inr False\<close> says that it is still running then, so that what is shown
    of every number of rounds is shown of runs that are interrupted or never end.
  \<^item> \<open>rn_Sent\<close> is not in the code: it records every native command with the clock of its round and
    the claim on disk when it was sent.
\<close>

section \<open>Expected provider identities\<close>

record ProviderIdentityExpectation =
  px_LeaseID :: string
  px_AttemptLeaseID :: string
  px_Slug :: string
  px_ResourceID :: string

definition px_empty :: "ProviderIdentityExpectation \<Rightarrow> bool" where
  "px_empty i \<longleftrightarrow> px_LeaseID i = [] \<and> px_AttemptLeaseID i = [] \<and> px_Slug i = [] \<and> px_ResourceID i = []"

definition validControllerInventoryIdentity :: "string \<Rightarrow> bool" where
  "validControllerInventoryIdentity v \<longleftrightarrow>
     v \<noteq> [] \<and> length v \<le> 4096 \<and> list_all (\<lambda>(r, _). 32 \<le> r \<and> r \<noteq> 127) (chunks v)"

definition ValidateProviderIdentityExpectation :: "ProviderIdentityExpectation \<Rightarrow> gerr option" where
  "ValidateProviderIdentityExpectation i =
     (let bad = (\<lambda>v. v \<noteq> [] \<and> (v \<noteq> TrimSpace v \<or> \<not> validLeaseClaimID v)) in
      if bad (px_LeaseID i) then Some (Exit 2 ''invalid expected provider lease ID'')
      else if bad (px_AttemptLeaseID i) then Some (Exit 2 ''invalid expected provider attempt lease ID'')
      else if px_Slug i \<noteq> [] \<and> (px_Slug i \<noteq> TrimSpace (px_Slug i) \<or> NormalizeLeaseSlug (px_Slug i) \<noteq> px_Slug i)
        then Some (Exit 2 ''invalid expected provider slug'')
      else if px_ResourceID i \<noteq> [] \<and> (px_ResourceID i \<noteq> TrimSpace (px_ResourceID i)
          \<or> \<not> validControllerInventoryIdentity (px_ResourceID i))
        then Some (Exit 2 ''invalid expected provider resource ID'')
      else if px_LeaseID i = [] \<and> px_AttemptLeaseID i = []
        then Some (Exit 2 ''expected provider identity requires a lease or attempt lease ID'')
      else None)"

definition DisplayID :: "Server \<Rightarrow> string" where
  "DisplayID s = (if sv_CloudID s \<noteq> [] then sv_CloudID s else Itoa (sv_ID s))"

definition ValidateLeaseTargetProviderIdentity :: "LeaseTarget \<Rightarrow> ProviderIdentityExpectation \<Rightarrow> gerr option" where
  "ValidateLeaseTargetProviderIdentity lease expected =
     (if px_empty expected then None
      else case ValidateProviderIdentityExpectation expected of
        Some e \<Rightarrow> Some e
      | None \<Rightarrow>
          if px_LeaseID expected \<noteq> [] \<and> lt_LeaseID lease \<noteq> px_LeaseID expected
            then Some (Exit 4 ''provider lease ID mismatch before release'')
          else if px_AttemptLeaseID expected \<noteq> [] \<and> lt_LeaseID lease \<noteq> px_AttemptLeaseID expected
            then Some (Exit 4 ''provider attempt lease ID mismatch before release'')
          else if px_Slug expected \<noteq> [] \<and> ServerSlug (sv_Labels (lt_Server lease)) \<noteq> px_Slug expected
            then Some (Exit 4 ''provider slug mismatch before release'')
          else if px_ResourceID expected \<noteq> [] \<and> DisplayID (lt_Server lease) \<noteq> px_ResourceID expected
            then Some (Exit 4 ''provider resource ID mismatch before release'')
          else None)"

section \<open>Requests and deadlines\<close>

record RetentionLifecycleRequest =
  rq_OperationID :: string
  rq_OwnerBinding :: string
  rq_ExpectedClaimRevision :: string
  rq_ExpectedProviderIdentity :: ProviderIdentityExpectation

text \<open>The retention state of a claim that has one, and updates of the journal in place.\<close>

definition claimJournal :: "leaseClaim \<Rightarrow> FixedLeaseJournal" where
  "claimJournal c = the (fi_Journal (the (FixedIntent c)))"

definition retained :: "leaseClaim \<Rightarrow> SessionDiskRetentionState" where
  "retained c = the (fj_Retention (claimJournal c))"

definition mapJournal :: "(FixedLeaseJournal \<Rightarrow> FixedLeaseJournal) \<Rightarrow> leaseClaim \<Rightarrow> leaseClaim" where
  "mapJournal f c = c\<lparr>FixedIntent := map_option (\<lambda>i. i\<lparr>fi_Journal := map_option f (fi_Journal i)\<rparr>) (FixedIntent c)\<rparr>"

definition mapRetained :: "(SessionDiskRetentionState \<Rightarrow> SessionDiskRetentionState) \<Rightarrow> leaseClaim \<Rightarrow> leaseClaim" where
  "mapRetained f = mapJournal (\<lambda>j. j\<lparr>fj_Retention := map_option f (fj_Retention j)\<rparr>)"

definition timeOf :: "stamp \<Rightarrow> int" where
  "timeOf s = (case time_parse s of Some t \<Rightarrow> t | None \<Rightarrow> zero_time)"

definition SessionDiskWindowDeadline :: "leaseClaim \<Rightarrow> int \<Rightarrow> int res" where
  "SessionDiskWindowDeadline c now =
     (case FixedIntent c of
        None \<Rightarrow> Inl (Exit 4 ''lease has no session disk policy'')
      | Some i \<Rightarrow>
          if fi_Retention i = None then Inl (Exit 4 ''lease has no session disk policy'')
          else case validateFixedJournal (Some i) of
            Some e \<Rightarrow> Inl e
          | None \<Rightarrow>
              (let j = claimJournal c; s = retained c; w = rs_ComputeWindow s;
                   end = timeOf (cw_ExpiresAt w); start = timeOf (cw_AuthorizedAt w)
               in if fj_Phase j = ''deleting'' \<or> fj_Phase j = ''released'' \<or> rs_DesiredState s \<noteq> ''running''
                     \<or> cw_State w \<noteq> ''active'' \<or> (case rs_Operation s of Some op \<Rightarrow> ro_Phase op \<noteq> ''observed'' | None \<Rightarrow> False)
                     \<or> end \<le> now \<or> now < start
                  then Inl (Exit 4 ''retained compute window is closed, expired or uncertain'')
                  else Inr end))"

definition SessionDiskExecutionDeadline :: "leaseClaim \<Rightarrow> int \<Rightarrow> int res" where
  "SessionDiskExecutionDeadline c now =
     (if (case FixedIntent c of None \<Rightarrow> True | Some i \<Rightarrow> fi_State i \<noteq> ''acquired'') \<or> CloudID c = []
      then Inl (Exit 4 ''retained allocation is not acquired'')
      else SessionDiskWindowDeadline c now)"

definition ValidateRetentionLifecycleRequest ::
  "leaseClaim \<Rightarrow> RetentionLifecycleRequest \<Rightarrow> string \<Rightarrow> gerr option" where
  "ValidateRetentionLifecycleRequest c req action =
     (let x = rq_ExpectedProviderIdentity req in
      if \<not> validRetentionOperationID (rq_OperationID req) \<or> rq_ExpectedClaimRevision req = []
         \<or> \<not> IsCanonicalLeaseID (LeaseID c) \<or> px_LeaseID x \<noteq> LeaseID c \<or> px_AttemptLeaseID x \<noteq> LeaseID c
         \<or> px_Slug x \<noteq> Slug c \<or> px_ResourceID x = []
        then Some (Exit 2 ''retained lifecycle requires operation, revision and complete exact provider identity'')
      else if action \<noteq> ''pause'' \<and> action \<noteq> ''resume'' then Some (Exit 2 ''invalid retention lifecycle action'')
      else case FixedIntent c of
        None \<Rightarrow> Some (Exit 4 ''retained lifecycle owner mismatch'')
      | Some i \<Rightarrow>
          (case fi_Retention i of
             None \<Rightarrow> Some (Exit 4 ''retained lifecycle owner mismatch'')
           | Some p \<Rightarrow>
               if rp_OwnerBinding p \<noteq> rq_OwnerBinding req then Some (Exit 4 ''retained lifecycle owner mismatch'')
               else case validateFixedJournal (Some i) of
                 Some e \<Rightarrow> Some e
               | None \<Rightarrow>
                   if fi_State i \<noteq> ''acquired'' \<or> fj_Phase (claimJournal c) = ''deleting'' \<or> RecoveryHold c \<noteq> None
                     then Some (Exit 4 ''retained ownership is unavailable for lifecycle admission'')
                   else case ValidateLeaseTargetProviderIdentity
                       \<lparr>lt_Server = zeroServer\<lparr>sv_CloudID := CloudID c, sv_ImmutableID := CloudImmutableID c,
                            sv_Name := Slug c, sv_Labels := fmap_of_list [(''slug'', Slug c)]\<rparr>,
                         lt_SSH = zeroTarget, lt_LeaseID = LeaseID c\<rparr> x of
                     Some e \<Rightarrow> Some e
                   | None \<Rightarrow>
                       (case rs_Operation (retained c) of
                          Some op \<Rightarrow>
                            if ro_ID op = rq_OperationID req then
                              (if ro_Action op \<noteq> action \<or> ro_ExpectedClaimRevision op \<noteq> rq_ExpectedClaimRevision req
                               then Some (Exit 4 ''retained operation identity conflict'') else None)
                            else if Revision c \<noteq> rq_ExpectedClaimRevision req \<or> ro_Phase op = ''pending''
                              then Some (Exit 4 ''retained lifecycle revision conflict'')
                            else None
                        | None \<Rightarrow>
                            if Revision c \<noteq> rq_ExpectedClaimRevision req
                              then Some (Exit 4 ''retained lifecycle revision conflict'')
                            else None)))"

section \<open>The mutation\<close>

record retentionEnv =
  mr_Now :: "nat \<Rightarrow> int"
  mr_Observe :: "nat \<Rightarrow> leaseClaim \<Rightarrow> string res"
  mr_Submit :: "nat \<Rightarrow> leaseClaim \<Rightarrow> string \<Rightarrow> gerr option"
  mr_Ctx :: "nat \<Rightarrow> gerr option"
  mr_Wait :: "nat \<Rightarrow> gerr option"

record retentionRun =
  rn_Lock :: lockState
  rn_state :: string
  rn_target :: string
  rn_submitted :: bool
  rn_Sent :: "(string \<times> int \<times> leaseClaim option) list"

abbreviation rn_Claim :: "retentionRun \<Rightarrow> leaseClaim" where
  "rn_Claim m \<equiv> lk_Claim (rn_Lock m)"

definition targetOf :: "string \<Rightarrow> string" where
  "targetOf action = (if action = ''resume'' then ''running'' else ''suspended'')"

definition expiredResume :: "string \<Rightarrow> int \<Rightarrow> leaseClaim \<Rightarrow> bool" where
  "expiredResume action now c \<longleftrightarrow> action = ''resume''
     \<and> (timeOf (cw_ExpiresAt (rs_ComputeWindow (retained c))) \<le> now \<or> cw_State (rs_ComputeWindow (retained c)) = ''closed'')"

text \<open>\<open>record := func() error { i.Journal.Revision++; return persist() }\<close>, after an update of the state.\<close>

definition recordRetention ::
  "(SessionDiskRetentionState \<Rightarrow> SessionDiskRetentionState) \<Rightarrow> (retentionRun, unit) proc" where
  "recordRetention f m =
     (case persist ((rn_Lock m)\<lparr>lk_Claim := mapJournal (\<lambda>j. j\<lparr>fj_Revision := fj_Revision j + 1\<rparr>) (mapRetained f (rn_Claim m))\<rparr>) of
        (l, Some e) \<Rightarrow> (m\<lparr>rn_Lock := l\<rparr>, Inl e)
      | (l, None) \<Rightarrow> (m\<lparr>rn_Lock := l\<rparr>, Inr ()))"

definition observeRetention :: "retentionEnv \<Rightarrow> nat \<Rightarrow> (retentionRun, unit) proc" where
  "observeRetention env n m =
     (case mr_Observe env n (rn_Claim m) of
        Inl e \<Rightarrow> (m, Inl e)
      | Inr s \<Rightarrow> (m\<lparr>rn_state := s\<rparr>, Inr ()))"

definition suspendState :: "SessionDiskRetentionState \<Rightarrow> SessionDiskRetentionState" where
  "suspendState s = s\<lparr>rs_DesiredState := ''suspended'', rs_ComputeWindow := (rs_ComputeWindow s)\<lparr>cw_State := ''closed''\<rparr>\<rparr>"

definition closeExpired :: "string \<Rightarrow> int \<Rightarrow> (retentionRun, bool) proc" where
  "closeExpired action now m =
     (if expiredResume action now (rn_Claim m) then
        (let m1 = m\<lparr>rn_submitted := (rn_submitted m \<and> rn_target m = ''suspended''), rn_target := ''suspended''\<rparr>
         in if rs_DesiredState (retained (rn_Claim m)) \<noteq> ''suspended'' \<or> cw_State (rs_ComputeWindow (retained (rn_Claim m))) \<noteq> ''closed''
            then bindR (recordRetention suspendState) (\<lambda>_. returnR True) m1
            else (m1, Inr True))
      else (m, Inr False))"

definition observedState :: "SessionDiskRetentionState \<Rightarrow> SessionDiskRetentionState" where
  "observedState s = s\<lparr>rs_Operation := map_option (\<lambda>op. op\<lparr>ro_Phase := ''observed''\<rparr>) (rs_Operation s)\<rparr>"

definition sendRetention :: "retentionEnv \<Rightarrow> nat \<Rightarrow> (retentionRun, unit) proc" where
  "sendRetention env n m =
     (let m1 = m\<lparr>rn_Sent := rn_Sent m @ [(rn_target m, mr_Now env n, lk_Disk (rn_Lock m))]\<rparr>
      in case mr_Submit env n (rn_Claim m) (rn_target m) of
           Some e \<Rightarrow> (m1, Inl e)
         | None \<Rightarrow> (m1\<lparr>rn_submitted := True\<rparr>, Inr ()))"

definition submitRetention :: "retentionEnv \<Rightarrow> nat \<Rightarrow> (retentionRun, unit) proc" where
  "submitRetention env n m =
     (if \<not> rn_submitted m \<and> (rn_state m = ''running'' \<or> rn_state m = ''suspended'')
      then bindR (recordRetention (\<lambda>s. s)) (\<lambda>_. sendRetention env n) m
      else (m, Inr ()))"

text \<open>One round of the loop: \<open>Inr True\<close> when the code returns \<open>nil\<close>, \<open>Inr False\<close> when it goes on.\<close>

definition retentionRound :: "retentionEnv \<Rightarrow> string \<Rightarrow> nat \<Rightarrow> (retentionRun, bool) proc" where
  "retentionRound env action n =
     bindR (closeExpired action (mr_Now env n)) (\<lambda>expired m.
       if rn_state m = rn_target m then
         bindR (recordRetention observedState) (\<lambda>_.
           if expired then failR (Exit 4 ''resume window expired; suspension confirmed before any new admission'')
           else returnR True) m
       else
         bindR (checkR (mr_Ctx env n)) (\<lambda>_.
         bindR (submitRetention env n) (\<lambda>_.
         bindR (observeRetention env n) (\<lambda>_ m1.
           if rn_state m1 = rn_target m1 then (m1, Inr False)
           else bindR (checkR (mr_Wait env n)) (\<lambda>_. returnR False) m1))) m)"

fun retentionLoop :: "retentionEnv \<Rightarrow> string \<Rightarrow> nat \<Rightarrow> nat \<Rightarrow> (retentionRun, bool) proc" where
  "retentionLoop env action 0 n = returnR False"
| "retentionLoop env action (Suc rounds) n =
     bindR (retentionRound env action n) (\<lambda>finished.
       if finished then returnR True else retentionLoop env action rounds (Suc n))"

definition admittedState ::
  "RetentionLifecycleRequest \<Rightarrow> string \<Rightarrow> int \<Rightarrow> int \<Rightarrow> SessionDiskRetentionState \<Rightarrow> SessionDiskRetentionState" where
  "admittedState req action seconds at s =
     \<lparr>rs_DesiredState = targetOf action,
      rs_ComputeWindow =
        (if action = ''resume''
         then \<lparr>cw_ID = rq_OperationID req, cw_AuthorizedAt = fmt_RFC3339Nano at,
               cw_ExpiresAt = fmt_RFC3339Nano (at + seconds * second), cw_State = ''active''\<rparr>
         else (rs_ComputeWindow s)\<lparr>cw_State := ''closed''\<rparr>),
      rs_Operation = Some \<lparr>ro_ID = rq_OperationID req, ro_Action = action, ro_Phase = ''pending'',
        ro_ExpectedClaimRevision = rq_ExpectedClaimRevision req\<rparr>\<rparr>"

definition admitRetention :: "RetentionLifecycleRequest \<Rightarrow> string \<Rightarrow> int \<Rightarrow> (retentionRun, unit) proc" where
  "admitRetention req action at m =
     bindR (requireR (\<not> (action = ''resume'' \<and> (rn_state m \<noteq> ''suspended'' \<or> cw_State (rs_ComputeWindow (retained (rn_Claim m))) \<noteq> ''closed'')))
       (Exit 4 ''resume requires a confirmed suspended resource and closed window'')) (\<lambda>_.
     recordRetention (admittedState req action (rp_ComputeWindowSeconds (the (fi_Retention (the (FixedIntent (rn_Claim m)))))) at)) m"

definition retentionChanged :: "FixedLeaseKind \<Rightarrow> leaseClaim \<Rightarrow> lockState \<Rightarrow> bool" where
  "retentionChanged k expected l \<longleftrightarrow> \<not> lk_Exists l \<or> lk_Claim l \<noteq> expected \<or> \<not> IsFixedClaim k (lk_Claim l)
     \<or> fi_Version (the (FixedIntent (lk_Claim l))) \<noteq> fk_IntentVersion k"

definition retentionBody ::
  "nat \<Rightarrow> retentionEnv \<Rightarrow> FixedLeaseKind \<Rightarrow> leaseClaim \<Rightarrow> RetentionLifecycleRequest \<Rightarrow> string \<Rightarrow> (retentionRun, bool) proc" where
  "retentionBody rounds env k expected req action m =
     bindR (requireR (\<not> retentionChanged k expected (rn_Lock m)) (Exit 4 ''retained claim changed; inspect and retry'')) (\<lambda>_.
     bindR (requireR (fi_State (the (FixedIntent (rn_Claim m))) = ''acquired'' \<and> fj_Phase (claimJournal (rn_Claim m)) \<noteq> ''deleting''
         \<and> RecoveryHold (rn_Claim m) = None) (Exit 4 ''retained ownership is unavailable for lifecycle admission'')) (\<lambda>_.
     bindR (observeRetention env 0) (\<lambda>_ m1.
       (let op = rs_Operation (retained (rn_Claim m1));
            replay = (case op of Some q \<Rightarrow> ro_ID q = rq_OperationID req | None \<Rightarrow> False)
        in if replay \<and> ro_Phase (the op) = ''observed'' then
             (if rn_state m1 \<noteq> rn_target m1 \<or> expiredResume action (mr_Now env 0) (rn_Claim m1)
              then failR (Exit 4 ''observed lifecycle no longer has an active target; inspect before new admission'')
              else returnR True) m1
           else bindR (if replay then returnR () else admitRetention req action (mr_Now env 0)) (\<lambda>_.
                  retentionLoop env action rounds 1) m1)))) m"

text \<open>The replay of a completed operation only observes, under the shared lock.\<close>

definition replayObserved ::
  "retentionEnv \<Rightarrow> FixedLeaseKind \<Rightarrow> leaseClaim \<Rightarrow> string \<Rightarrow> gerr option" where
  "replayObserved env k expected action =
     (if \<not> IsFixedClaim k expected \<or> fi_Version (the (FixedIntent expected)) \<noteq> fk_IntentVersion k
        then Some (Exit 4 ''retained claim changed; inspect and retry'')
      else case mr_Observe env 0 expected of
        Inl e \<Rightarrow> Some e
      | Inr state \<Rightarrow>
          if state \<noteq> targetOf action \<or> (action = ''resume'' \<and> \<not> is_ok (SessionDiskExecutionDeadline expected (mr_Now env 0)))
            then Some (Exit 4 ''observed lifecycle no longer has an active target; inspect before new admission'')
          else None)"

definition completedReplay :: "leaseClaim \<Rightarrow> RetentionLifecycleRequest \<Rightarrow> bool" where
  "completedReplay expected req \<longleftrightarrow>
     (case rs_Operation (retained expected) of
        Some op \<Rightarrow> ro_ID op = rq_OperationID req \<and> ro_Phase op = ''observed''
      | None \<Rightarrow> False)"

type_synonym retentionResult =
  "claimsDir \<times> event list \<times> (string \<times> int \<times> leaseClaim option) list \<times> bool res"

definition MutateFixedRetention ::
  "nat \<Rightarrow> retentionEnv \<Rightarrow> lockEnv \<Rightarrow> rmEnv \<Rightarrow> FixedLeaseKind \<Rightarrow> leaseClaim \<Rightarrow> RetentionLifecycleRequest \<Rightarrow> string
    \<Rightarrow> claimsDir \<Rightarrow> retentionResult" where
  "MutateFixedRetention rounds env lenv shared k expected req action d =
     (case ValidateRetentionLifecycleRequest expected req action of
        Some e \<Rightarrow> (d, [], [], Inl e)
      | None \<Rightarrow>
          if completedReplay expected req then
            (case withLeaseClaimUnchangedContext (LeaseID expected) expected (Some (replayObserved env k expected action)) shared d of
               (Some e, acted) \<Rightarrow> (d, [], [], Inl e)
             | (None, acted) \<Rightarrow> (d, [], [], Inr True))
          else
            (case WithDurableLeaseClaimLockContext (LeaseID expected) lenv
                (\<lambda>l. case retentionBody rounds env k expected req action
                       \<lparr>rn_Lock = l, rn_state = [], rn_target = targetOf action, rn_submitted = False, rn_Sent = []\<rparr> of
                     (m, r) \<Rightarrow> (rn_Lock m, Inr (rn_Sent m, r))) d of
               (d', tr, Inl e) \<Rightarrow> (d', tr, [], Inl e)
             | (d', tr, Inr (sent, r)) \<Rightarrow> (d', tr, sent, r)))"

end
