(* ===== verification/RetentionLife.thy ===== *)
theory RetentionLife
  imports Retention
begin

text \<open>
  The lifecycle of a retained lease as an abstract machine, and the refinement: the claims that
  \<open>MutateFixedRetention\<close> writes follow the machine, its native commands are authorised by the claim on
  disk, and it returns once the provider has settled.
\<close>

section \<open>The abstract lifecycle\<close>

datatype life = Running | Pausing | Suspended | Resuming | Expiring | Retired

text \<open>The allowed moves. A pause may start from any settled state, a resume only from suspension; a
  resume whose window expires turns into a suspension; only settled states accept a new operation.\<close>

inductive lifeStep :: "life \<Rightarrow> life \<Rightarrow> bool" where
  pause_running: "lifeStep Running Pausing"
| pause_again: "lifeStep Suspended Pausing"
| paused: "lifeStep Pausing Suspended"
| resume: "lifeStep Suspended Resuming"
| resumed: "lifeStep Resuming Running"
| expire: "lifeStep Resuming Expiring"
| expired: "lifeStep Expiring Suspended"
| note_again: "lifeStep a a"

inductive_simps lifeStep_simps: "lifeStep a b"

text \<open>The state of the machine that a recorded retention state stands for; \<open>None\<close> when its fields
  contradict each other.\<close>

definition life :: "SessionDiskRetentionState \<Rightarrow> life option" where
  "life s =
     (let w = cw_State (rs_ComputeWindow s) in
      if rs_DesiredState s = ''running'' \<and> w = ''active'' then
        (case rs_Operation s of
           None \<Rightarrow> Some Running
         | Some op \<Rightarrow> if ro_Action op \<noteq> ''resume'' then None
                      else if ro_Phase op = ''pending'' then Some Resuming
                      else if ro_Phase op = ''observed'' then Some Running else None)
      else if rs_DesiredState s = ''suspended'' \<and> w = ''closed'' then
        (case rs_Operation s of
           None \<Rightarrow> None
         | Some op \<Rightarrow> if ro_Phase op = ''observed'' then Some Suspended
                      else if ro_Phase op \<noteq> ''pending'' then None
                      else if ro_Action op = ''pause'' then Some Pausing
                      else if ro_Action op = ''resume'' then Some Expiring else None)
      else if rs_DesiredState s = ''retired'' \<and> w = ''closed'' \<and> rs_Operation s = None then Some Retired
      else None)"

fun lifePath :: "life \<Rightarrow> leaseClaim list \<Rightarrow> bool" where
  "lifePath a [] = True"
| "lifePath a (c # cs) = (case life (retained c) of Some b \<Rightarrow> lifeStep a b \<and> lifePath b cs | None \<Rightarrow> False)"

fun lifeEnd :: "life \<Rightarrow> leaseClaim list \<Rightarrow> life" where
  "lifeEnd a [] = a"
| "lifeEnd a (c # cs) = lifeEnd (the (life (retained c))) cs"

lemma lifePath_append: "lifePath a (cs @ ds) \<longleftrightarrow> lifePath a cs \<and> lifePath (lifeEnd a cs) ds"
  by (induction cs arbitrary: a) (auto split: option.splits)

lemma lifeEnd_append [simp]: "lifeEnd a (cs @ ds) = lifeEnd (lifeEnd a cs) ds"
  by (induction cs arbitrary: a) auto

lemma initial_life:
  assumes "initializeSessionDiskRetention i leaseID now = Inr i'" and "fi_Journal i' = Some j"
  shows "life (the (fj_Retention j)) = Some Running"
  using assms by (auto simp: initializeSessionDiskRetention_def life_def Let_def split: option.splits if_splits)

lemma retired_life: "life (retire_state s) = Some Retired"
  by (simp add: life_def retire_state_def Let_def)

section \<open>Updates of the journal\<close>

definition hasRetention :: "leaseClaim \<Rightarrow> bool" where
  "hasRetention c \<longleftrightarrow> (\<exists>i j s. FixedIntent c = Some i \<and> fi_Journal i = Some j \<and> fj_Retention j = Some s)"

lemma map_retained [simp]:
  "hasRetention c \<Longrightarrow> retained (mapRetained f c) = f (retained c)"
  "hasRetention c \<Longrightarrow> retained (mapJournal (\<lambda>j. j\<lparr>fj_Revision := r j\<rparr>) c) = retained c"
  "hasRetention (mapRetained f c) = hasRetention c"
  "hasRetention (mapJournal (\<lambda>j. j\<lparr>fj_Revision := r j\<rparr>) c) = hasRetention c"
  by (auto simp: hasRetention_def mapRetained_def mapJournal_def retained_def claimJournal_def
      split: option.splits)

lemma retained_cong: "FixedIntent c = FixedIntent c' \<Longrightarrow> retained c = retained c'"
  by (simp add: retained_def claimJournal_def)

lemma hasRetention_cong: "FixedIntent c = FixedIntent c' \<Longrightarrow> hasRetention c = hasRetention c'"
  by (simp add: hasRetention_def)

section \<open>What a run keeps\<close>

text \<open>From a start state whose claim is on disk: everything written so far followed the machine from
  \<open>a\<close>, and while no write failed the claim in memory is the one on disk.\<close>

definition follows :: "life \<Rightarrow> retentionRun \<Rightarrow> leaseClaim list \<Rightarrow> retentionRun \<Rightarrow> bool" where
  "follows a m cs m' \<longleftrightarrow> lk_Trace (rn_Lock m') = lk_Trace (rn_Lock m) @ map OnDisk cs
     \<and> lk_LeaseID (rn_Lock m') = lk_LeaseID (rn_Lock m)
     \<and> lk_Dir (rn_Lock m') = writeAll (lk_LeaseID (rn_Lock m)) cs (lk_Dir (rn_Lock m)) \<and> lifePath a cs"

definition inSync :: "retentionRun \<Rightarrow> bool" where
  "inSync m \<longleftrightarrow> dirOk (lk_Dir (rn_Lock m)) \<and> lk_Disk (rn_Lock m) = Some (rn_Claim m) \<and> hasRetention (rn_Claim m)"

lemma writeAll_simps [simp]:
  "writeAll i [] d = d" "writeAll i [c] d = dirPut (claimFile i) (CClaim c) d"
  "writeAll i (cs @ ds) d = writeAll i ds (writeAll i cs d)"
  by (simp_all add: writeAll_def)

lemma recordRetention_cases:
  assumes run: "recordRetention f m = (m', r)" and sync: "inSync m"
    and b: "life (f (retained (rn_Claim m))) = Some b" and step: "lifeStep a b"
  obtains (skipped) e where "r = Inl e" "follows a m [] m'" "rn_Sent m' = rn_Sent m"
  | (failed) e c where "r = Inl e" "follows a m [c] m'" "rn_Sent m' = rn_Sent m"
  | (written) "r = Inr ()" "follows a m [rn_Claim m'] m'" "inSync m'" "retained (rn_Claim m') = f (retained (rn_Claim m))"
      "rn_Sent m' = rn_Sent m" "rn_submitted m' = rn_submitted m" "rn_target m' = rn_target m" "rn_state m' = rn_state m"
      "fi_Retention (the (FixedIntent (rn_Claim m'))) = fi_Retention (the (FixedIntent (rn_Claim m)))"
proof -
  let ?c = "mapJournal (\<lambda>j. j\<lparr>fj_Revision := fj_Revision j + 1\<rparr>) (mapRetained f (rn_Claim m))"
  obtain l err where p: "persist ((rn_Lock m)\<lparr>lk_Claim := ?c\<rparr>) = (l, err)" by fastforce
  have m': "m' = m\<lparr>rn_Lock := l\<rparr>" and r: "r = (case err of Some e \<Rightarrow> Inl e | None \<Rightarrow> Inr ())"
    using run p by (auto simp: recordRetention_def split: option.splits)
  have hr: "hasRetention (rn_Claim m)" and ok: "dirOk (lk_Dir (rn_Lock m))" using sync by (auto simp: inSync_def)
  have policy: "fi_Retention (the (FixedIntent ?c)) = fi_Retention (the (FixedIntent (rn_Claim m)))"
    using hr by (auto simp: hasRetention_def mapRetained_def mapJournal_def)
  from p show thesis
  proof (cases rule: persist_cases)
    case skipped
    then show thesis using that(1) m' r by (auto simp: follows_def)
  next
    case (written r')
    have ret: "retained (lk_Claim l) = f (retained (rn_Claim m))" "hasRetention (lk_Claim l)"
      using written(5) hr by (auto simp: retained_cong [OF FixedIntent_stamped] hasRetention_cong [OF FixedIntent_stamped])
    have f: "follows a m [lk_Claim l] m'" using written m' ret b step by (simp add: follows_def)
    show thesis
    proof (cases err)
      case None
      have "inSync m'" using m' written ret ok by (simp add: inSync_def lk_Disk_def claimAt_dirPut dirOk_dirPut)
      moreover have "fi_Retention (the (FixedIntent (lk_Claim l))) = fi_Retention (the (FixedIntent (rn_Claim m)))"
        using policy written(5) by simp
      ultimately show thesis using that(3) None r m' f ret by simp
    next
      case (Some e)
      then show thesis using that(2) r m' f by simp
    qed
  qed
qed


lemma follows_refl [simp]: "follows a m [] m"
  by (simp add: follows_def)

lemma follows_append:
  "follows a m cs m1 \<Longrightarrow> follows (lifeEnd a cs) m1 ds m2 \<Longrightarrow> follows a m (cs @ ds) m2"
  by (auto simp: follows_def lifePath_append)

lemma follows_upd [simp]:
  "follows a (m\<lparr>rn_state := x\<rparr>) cs m' = follows a m cs m'" "follows a m cs (m'\<lparr>rn_state := x\<rparr>) = follows a m cs m'"
  "follows a (m\<lparr>rn_target := x\<rparr>) cs m' = follows a m cs m'" "follows a m cs (m'\<lparr>rn_target := x\<rparr>) = follows a m cs m'"
  "follows a (m\<lparr>rn_submitted := b\<rparr>) cs m' = follows a m cs m'" "follows a m cs (m'\<lparr>rn_submitted := b\<rparr>) = follows a m cs m'"
  "follows a m cs (m'\<lparr>rn_Sent := t\<rparr>) = follows a m cs m'"
  by (simp_all add: follows_def)

lemma inSync_upd [simp]:
  "inSync (m\<lparr>rn_state := x\<rparr>) = inSync m" "inSync (m\<lparr>rn_target := x\<rparr>) = inSync m"
  "inSync (m\<lparr>rn_submitted := b\<rparr>) = inSync m" "inSync (m\<lparr>rn_Sent := t\<rparr>) = inSync m"
  by (simp_all add: inSync_def)

text \<open>A native command is authorised by the claim on disk: a resume by a pending resume in a window
  that is still open at the clock of the round, a suspension by a pending pause or an expired resume.\<close>

definition authorised :: "string \<times> int \<times> leaseClaim option \<Rightarrow> bool" where
  "authorised x \<longleftrightarrow>
     (case x of
        (t, now, Some c) \<Rightarrow>
          (t = ''running'' \<and> life (retained c) = Some Resuming \<and> now < timeOf (cw_ExpiresAt (rs_ComputeWindow (retained c))))
          \<or> (t = ''suspended'' \<and> (life (retained c) = Some Pausing \<or> life (retained c) = Some Expiring))
      | _ \<Rightarrow> False)"

definition sentOk :: "(string \<times> int \<times> leaseClaim option) list \<Rightarrow> bool" where
  "sentOk xs \<longleftrightarrow> distinct (map fst xs) \<and> list_all authorised xs"

definition sentTargets :: "(string \<times> int \<times> leaseClaim option) list \<Rightarrow> string set" where
  "sentTargets xs = fst ` set xs"

lemma sentTargets_simps [simp]:
  "sentTargets [] = {}" "sentTargets (xs @ [x]) = insert (fst x) (sentTargets xs)"
  by (simp_all add: sentTargets_def)

lemma sentOk_snoc: "sentOk (xs @ [x]) \<longleftrightarrow> sentOk xs \<and> fst x \<notin> sentTargets xs \<and> authorised x"
  by (auto simp: sentOk_def sentTargets_def)

text \<open>The invariant of the loop. The target of a replayed resume whose expiry is already recorded is
  corrected at the start of the first round.\<close>

definition loopInv :: "string \<Rightarrow> life \<Rightarrow> retentionRun \<Rightarrow> bool" where
  "loopInv action a m \<longleftrightarrow> inSync m \<and> life (retained (rn_Claim m)) = Some a \<and> sentOk (rn_Sent m)
     \<and> (rn_submitted m \<longleftrightarrow> rn_target m \<in> sentTargets (rn_Sent m))
     \<and> (rn_target m = ''running'' \<longrightarrow> ''suspended'' \<notin> sentTargets (rn_Sent m))
     \<and> ((action = ''pause'' \<and> a = Pausing \<and> rn_target m = ''suspended'')
        \<or> (action = ''resume'' \<and> a = Resuming \<and> rn_target m = ''running'')
        \<or> (action = ''resume'' \<and> a = Expiring \<and> (rn_target m = ''running'' \<or> rn_target m = ''suspended'')))"

lemma life_expiring: "life s = Some Resuming \<Longrightarrow> life (suspendState s) = Some Expiring"
  by (auto simp: life_def suspendState_def Let_def split: option.splits if_splits)

lemma life_observed:
  "life s = Some Pausing \<Longrightarrow> life (observedState s) = Some Suspended"
  "life s = Some Expiring \<Longrightarrow> life (observedState s) = Some Suspended"
  "life s = Some Resuming \<Longrightarrow> life (observedState s) = Some Running"
  by (auto simp: life_def observedState_def Let_def split: option.splits if_splits)

lemma life_window:
  "life s = Some Expiring \<Longrightarrow> rs_DesiredState s = ''suspended'' \<and> cw_State (rs_ComputeWindow s) = ''closed''"
  "life s = Some Resuming \<Longrightarrow> rs_DesiredState s = ''running'' \<and> cw_State (rs_ComputeWindow s) = ''active''"
  "life s = Some Pausing \<Longrightarrow> rs_DesiredState s = ''suspended'' \<and> cw_State (rs_ComputeWindow s) = ''closed''"
  by (auto simp: life_def Let_def split: option.splits if_splits)

text \<open>After the expiry check the target agrees with the state of the machine.\<close>

definition targeted :: "string \<Rightarrow> int \<Rightarrow> life \<Rightarrow> retentionRun \<Rightarrow> bool" where
  "targeted action now a m \<longleftrightarrow> loopInv action a m \<and> (a = Expiring \<longrightarrow> rn_target m = ''suspended'')
     \<and> (a = Resuming \<longrightarrow> now < timeOf (cw_ExpiresAt (rs_ComputeWindow (retained (rn_Claim m)))))"

lemma closeExpired_stage:
  assumes "closeExpired action now m = (m', r)" and inv: "loopInv action a m"
  shows "\<exists>cs. follows a m cs m' \<and> sentOk (rn_Sent m')
     \<and> (\<forall>x. r = Inr x \<longrightarrow> targeted action now (lifeEnd a cs) m' \<and> (x \<longleftrightarrow> lifeEnd a cs = Expiring) \<and> rn_state m' = rn_state m)"
proof (cases "expiredResume action now (rn_Claim m)")
  case False
  then have "m' = m" "r = Inr False" using assms(1) by (auto simp: closeExpired_def)
  moreover have "a \<noteq> Expiring"
    using False inv life_window(1) by (auto simp: loopInv_def expiredResume_def)
  ultimately show ?thesis using inv False
    by (intro exI [of _ "[]"]) (auto simp: targeted_def loopInv_def expiredResume_def)
next
  case True
  let ?m1 = "m\<lparr>rn_submitted := (rn_submitted m \<and> rn_target m = ''suspended''), rn_target := ''suspended''\<rparr>"
  have act: "action = ''resume''" using True by (simp add: expiredResume_def)
  have m1: "inSync ?m1" "sentOk (rn_Sent m)" using inv by (simp_all add: loopInv_def)
  have sub: "rn_submitted ?m1 \<longleftrightarrow> ''suspended'' \<in> sentTargets (rn_Sent m)"
    using inv by (auto simp: loopInv_def)
  show ?thesis
  proof (cases "a = Expiring")
    case exp: True
    then have "life (retained (rn_Claim m)) = Some Expiring" using inv by (simp add: loopInv_def)
    note life_window(1) [OF this]
    then have "m' = ?m1" "r = Inr True" using assms(1) True by (auto simp: closeExpired_def)
    then show ?thesis using inv exp sub m1 act
      by (intro exI [of _ "[]"]) (auto simp: targeted_def loopInv_def)
  next
    case False
    then have a: "a = Resuming" "life (retained (rn_Claim m)) = Some Resuming" using inv act by (auto simp: loopInv_def)
    note life_window(2) [OF a(2)]
    then have "bindR (recordRetention suspendState) (\<lambda>_. returnR True) ?m1 = (m', r)"
      using assms(1) True by (auto simp: closeExpired_def)
    then obtain r1 where rec: "recordRetention suspendState ?m1 = (m', r1)" and r: "r = (case r1 of Inl e \<Rightarrow> Inl e | Inr _ \<Rightarrow> Inr True)"
      by (auto elim!: bindR_cases simp: returnR_def)
    have "life (suspendState (retained (rn_Claim ?m1))) = Some Expiring" "lifeStep a Expiring"
      using life_expiring [OF a(2)] a(1) by (simp_all add: lifeStep.intros)
    from rec m1(1) this show ?thesis
    proof (cases rule: recordRetention_cases)
      case (skipped e)
      then show ?thesis using m1 r by (intro exI [of _ "[]"]) simp
    next
      case (failed e c)
      then show ?thesis using m1 r by (intro exI [of _ "[c]"]) simp
    next
      case written
      have l: "life (retained (rn_Claim m')) = Some Expiring" using written(4) life_expiring [OF a(2)] by simp
      show ?thesis using written(1-3,5-8) l sub m1 act r
        by (intro exI [of _ "[rn_Claim m']"]) (auto simp: targeted_def loopInv_def)
    qed
  qed
qed

lemma authorised_target:
  assumes "targeted action now a m" and "retained c = retained (rn_Claim m)"
  shows "authorised (rn_target m, now, Some c)"
  using assms by (auto simp: targeted_def loopInv_def authorised_def)

lemma submit_stage:
  assumes "submitRetention env n m = (m', r)" and inv: "targeted action (mr_Now env n) a m"
  shows "\<exists>cs. follows a m cs m' \<and> sentOk (rn_Sent m') \<and> (is_ok r \<longrightarrow> lifeEnd a cs = a \<and> loopInv action a m')"
proof (cases "\<not> rn_submitted m \<and> (rn_state m = ''running'' \<or> rn_state m = ''suspended'')")
  case False
  then have "m' = m" "r = Inr ()" using assms(1) by (auto simp: submitRetention_def)
  then show ?thesis using inv by (intro exI [of _ "[]"]) (auto simp: targeted_def loopInv_def)
next
  case True
  have base: "inSync m" "life (retained (rn_Claim m)) = Some a" "sentOk (rn_Sent m)" and fresh: "rn_target m \<notin> sentTargets (rn_Sent m)"
    using inv True by (auto simp: targeted_def loopInv_def)
  have "bindR (recordRetention (\<lambda>s. s)) (\<lambda>_. sendRetention env n) m = (m', r)"
    using assms(1) True by (simp add: submitRetention_def)
  then show ?thesis
  proof (cases rule: bindR_cases)
    case (first e)
    from first(1) base(1,2) note_again show ?thesis
    proof (cases rule: recordRetention_cases)
      case skipped
      then show ?thesis using base first(2) by (intro exI [of _ "[]"]) simp
    next
      case (failed e' c)
      then show ?thesis using base first(2) by (intro exI [of _ "[c]"]) simp
    qed simp
  next
    case (both m1 x)
    from both(1) base(1,2) note_again show ?thesis
    proof (cases rule: recordRetention_cases)
      case written
      have auth: "authorised (rn_target m, mr_Now env n, lk_Disk (rn_Lock m1))"
        using authorised_target [OF inv written(4)] written(3) by (simp add: inSync_def)
      have sent: "rn_Sent m' = rn_Sent m @ [(rn_target m, mr_Now env n, lk_Disk (rn_Lock m1))]"
        and lk: "rn_Lock m' = rn_Lock m1" "rn_target m' = rn_target m" and sub: "is_ok r \<longrightarrow> rn_submitted m'"
        using both(2) written by (auto simp: sendRetention_def Let_def split: option.splits)
      have f: "follows a m [rn_Claim m1] m'" using written(2) lk by (simp add: follows_def)
      have so: "sentOk (rn_Sent m')" using sent auth fresh base(3) by (simp add: sentOk_snoc)
      have "loopInv action a m'" if "is_ok r"
        using inv sub that sent lk written(3,4) base so by (auto simp: targeted_def loopInv_def inSync_def)
      then show ?thesis using f so written(4) base(2) by (intro exI [of _ "[rn_Claim m1]"]) simp
    qed simp_all
  qed
qed

text \<open>A run that reports success has the target observed, recorded, and for a resume in time.\<close>

definition settled :: "string \<Rightarrow> int \<Rightarrow> life \<Rightarrow> retentionRun \<Rightarrow> bool" where
  "settled action now b m \<longleftrightarrow> inSync m \<and> life (retained (rn_Claim m)) = Some b
     \<and> b = (if action = ''resume'' then Running else Suspended) \<and> rn_state m = targetOf action
     \<and> (action = ''resume'' \<longrightarrow> now < timeOf (cw_ExpiresAt (rs_ComputeWindow (retained (rn_Claim m)))))"

definition roundOk :: "retentionEnv \<Rightarrow> string \<Rightarrow> life \<Rightarrow> retentionRun \<Rightarrow> retentionRun \<Rightarrow> bool res \<Rightarrow> bool" where
  "roundOk env action a m m' r \<longleftrightarrow>
     (\<exists>cs. follows a m cs m' \<and> sentOk (rn_Sent m')
        \<and> (r = Inr False \<longrightarrow> loopInv action (lifeEnd a cs) m')
        \<and> (r = Inr True \<longrightarrow> (\<exists>n. settled action (mr_Now env n) (lifeEnd a cs) m')))"

lemma roundOk_trans:
  assumes "follows a m cs m1" and "roundOk env action (lifeEnd a cs) m1 m' r"
  shows "roundOk env action a m m' r"
  using assms follows_append [OF assms(1)] unfolding roundOk_def by (metis lifeEnd_append)

lemma observed_round:
  assumes "bindR (recordRetention observedState)
      (\<lambda>_. if expired then failR e else returnR True) m = (m', r)"
    and inv: "targeted action (mr_Now env n) a m" and "expired \<longleftrightarrow> a = Expiring" and st: "rn_state m = rn_target m"
  shows "roundOk env action a m m' r"
proof -
  have base: "inSync m" "life (retained (rn_Claim m)) = Some a" "sentOk (rn_Sent m)" using inv by (auto simp: targeted_def loopInv_def)
  let ?b = "if a = Resuming then Running else Suspended"
  have b: "life (observedState (retained (rn_Claim m))) = Some ?b" "lifeStep a ?b"
    using inv life_observed by (auto simp: targeted_def loopInv_def lifeStep.intros)
  obtain r1 where rec: "recordRetention observedState m = (m', r1)"
    and r: "r = (case r1 of Inl e' \<Rightarrow> Inl e' | Inr _ \<Rightarrow> if expired then Inl e else Inr True)"
    using assms(1) by (auto elim!: bindR_cases simp: returnR_def failR_def split: if_splits)
  from rec base(1) b show ?thesis
  proof (cases rule: recordRetention_cases)
    case (skipped e')
    then show ?thesis using base r unfolding roundOk_def by (intro exI [of _ "[]"]) simp
  next
    case (failed e' c)
    then show ?thesis using base r unfolding roundOk_def by (intro exI [of _ "[c]"]) simp
  next
    case written
    have w: "rs_ComputeWindow (retained (rn_Claim m')) = rs_ComputeWindow (retained (rn_Claim m))"
      using written(4) by (simp add: observedState_def)
    have "settled action (mr_Now env n) ?b m'" if "\<not> expired"
      using inv written w b st that assms(3) by (auto simp: targeted_def loopInv_def settled_def targetOf_def)
    then show ?thesis using written base r b(1) unfolding roundOk_def
      by (intro exI [of _ "[rn_Claim m']"]) (auto split: if_splits)
  qed
qed

lemma loopInv_state [simp]: "loopInv action a (m\<lparr>rn_state := x\<rparr>) = loopInv action a m"
  by (simp add: loopInv_def)

lemma driving_round:
  assumes run: "bindR (checkR (mr_Ctx env n)) (\<lambda>_.
         bindR (submitRetention env n) (\<lambda>_.
         bindR (observeRetention env n) (\<lambda>_ m1.
           if rn_state m1 = rn_target m1 then (m1, Inr False)
           else bindR (checkR (mr_Wait env n)) (\<lambda>_. returnR False) m1))) m = (m', r)"
    and inv: "targeted action (mr_Now env n) a m"
  shows "roundOk env action a m m' r"
  using run
proof (cases rule: bindR_cases)
  case (first e)
  then show ?thesis using inv unfolding roundOk_def
    by (intro exI [of _ "[]"]) (auto simp: checkR_def targeted_def loopInv_def split: option.splits)
next
  case (both m0 x)
  then have m0: "m0 = m" by simp
  from both(2) show ?thesis
  proof (cases rule: bindR_cases)
    case (first e)
    from submit_stage [OF first(1), of action a] inv m0 obtain cs where "follows a m cs m'" "sentOk (rn_Sent m')" by auto
    then show ?thesis using first(2) unfolding roundOk_def by auto
  next
    case (both m1 y)
    from submit_stage [OF both(1), of action a] inv m0 obtain cs
      where s: "follows a m cs m1" "sentOk (rn_Sent m1)" "lifeEnd a cs = a" "loopInv action a m1" by auto
    have "(m' = m1 \<or> (\<exists>x. m' = m1\<lparr>rn_state := x\<rparr>)) \<and> r \<noteq> Inr True"
      using both(2) by (auto simp: observeRetention_def bindR_def checkR_def returnR_def
          split: sum.splits option.splits if_splits)
    then show ?thesis using s unfolding roundOk_def by (intro exI [of _ cs]) auto
  qed
qed

lemma retentionRound_ok:
  assumes "retentionRound env action n m = (m', r)" and inv: "loopInv action a m"
  shows "roundOk env action a m m' r"
  using assms(1) unfolding retentionRound_def
proof (cases rule: bindR_cases)
  case (first e)
  from closeExpired_stage [OF first(1) inv] obtain cs where "follows a m cs m'" "sentOk (rn_Sent m')" by auto
  then show ?thesis using first(2) unfolding roundOk_def by auto
next
  case (both m1 expired)
  from closeExpired_stage [OF both(1) inv] obtain cs
    where s: "follows a m cs m1" "targeted action (mr_Now env n) (lifeEnd a cs) m1" "expired \<longleftrightarrow> lifeEnd a cs = Expiring"
    by auto
  have "roundOk env action (lifeEnd a cs) m1 m' r"
  proof (cases "rn_state m1 = rn_target m1")
    case True
    with both(2) show ?thesis by (intro observed_round [OF _ s(2,3) True]) simp
  next
    case False
    with both(2) show ?thesis by (intro driving_round [OF _ s(2)]) simp
  qed
  with s(1) show ?thesis by (rule roundOk_trans)
qed

lemma retentionLoop_ok:
  "retentionLoop env action rounds n m = (m', r) \<Longrightarrow> loopInv action a m \<Longrightarrow> roundOk env action a m m' r"
proof (induction rounds arbitrary: n m a)
  case 0
  then show ?case unfolding roundOk_def by (intro exI [of _ "[]"]) (auto simp: returnR_def loopInv_def)
next
  case (Suc rounds)
  from Suc.prems(1) show ?case unfolding retentionLoop.simps
  proof (cases rule: bindR_cases)
    case (first e)
    then show ?thesis using retentionRound_ok [OF first(1) Suc.prems(2)] by (simp add: roundOk_def)
  next
    case (both m1 finished)
    have step: "roundOk env action a m m1 (Inr finished)" by (rule retentionRound_ok [OF both(1) Suc.prems(2)])
    show ?thesis
    proof (cases finished)
      case True
      then show ?thesis using both(2) step by (simp add: returnR_def)
    next
      case False
      from step False obtain cs where "follows a m cs m1" "loopInv action (lifeEnd a cs) m1" by (auto simp: roundOk_def)
      then show ?thesis using Suc.IH both(2) False roundOk_trans by (metis (full_types))
    qed
  qed
qed

section \<open>The whole mutation\<close>

text \<open>What an accepted request says of the claim.\<close>

lemma request_accepted:
  assumes "ValidateRetentionLifecycleRequest c req action = None"
  shows "hasRetention c" and "action = ''pause'' \<or> action = ''resume''"
    and "rs_Operation (retained c) = Some op \<Longrightarrow> ro_ID op = rq_OperationID req \<Longrightarrow> ro_Action op = action"
    and "rs_Operation (retained c) = Some op \<Longrightarrow> ro_ID op \<noteq> rq_OperationID req \<Longrightarrow> ro_Phase op \<noteq> ''pending''"
  using assms
  by (auto simp: ValidateRetentionLifecycleRequest_def Let_def hasRetention_def validateFixedJournal_ok
      validateSessionDiskRetention_ok split: if_splits option.splits)

lemma life_replayed:
  assumes "life s = Some a" and "rs_Operation s = Some op" and "ro_Phase op \<noteq> ''observed''"
  shows "(ro_Action op = ''pause'' \<and> a = Pausing) \<or> (ro_Action op = ''resume'' \<and> (a = Resuming \<or> a = Expiring))"
  using assms by (auto simp: life_def Let_def split: if_splits)

lemma life_new:
  assumes "life s = Some a" and "a \<noteq> Retired" and "\<And>op. rs_Operation s = Some op \<Longrightarrow> ro_Phase op \<noteq> ''pending''"
  shows "(a = Running \<and> cw_State (rs_ComputeWindow s) = ''active'') \<or> a = Suspended"
  using assms by (auto simp: life_def Let_def split: if_splits option.splits)

lemma life_admitted:
  "life (admittedState req ''pause'' secs at s) = Some Pausing"
  "life (admittedState req ''resume'' secs at s) = Some Resuming"
  by (simp_all add: life_def admittedState_def targetOf_def Let_def)

definition startRun :: "string \<Rightarrow> lockState \<Rightarrow> retentionRun" where
  "startRun action l = \<lparr>rn_Lock = l, rn_state = [], rn_target = targetOf action, rn_submitted = False, rn_Sent = []\<rparr>"

definition isReplay :: "leaseClaim \<Rightarrow> RetentionLifecycleRequest \<Rightarrow> bool" where
  "isReplay c req \<longleftrightarrow> (case rs_Operation (retained c) of Some q \<Rightarrow> ro_ID q = rq_OperationID req | None \<Rightarrow> False)"

text \<open>The end of the window that bounds the run.\<close>

definition windowEnd :: "retentionEnv \<Rightarrow> leaseClaim \<Rightarrow> RetentionLifecycleRequest \<Rightarrow> int" where
  "windowEnd env c req =
     (if isReplay c req then timeOf (cw_ExpiresAt (rs_ComputeWindow (retained c)))
      else mr_Now env 0 + rp_ComputeWindowSeconds (the (fi_Retention (the (FixedIntent c)))) * second)"

abbreviation rn_End :: "retentionRun \<Rightarrow> int" where
  "rn_End m \<equiv> timeOf (cw_ExpiresAt (rs_ComputeWindow (retained (rn_Claim m))))"

lemma admit_stage:
  assumes run: "admitRetention req action at m = (m', r)" and m: "inSync m" "rn_Sent m = []" "\<not> rn_submitted m" "rn_target m = targetOf action"
    and action: "action = ''pause'' \<or> action = ''resume''"
    and a: "(a = Running \<and> cw_State (rs_ComputeWindow (retained (rn_Claim m))) = ''active'') \<or> a = Suspended"
  shows "\<exists>cs. follows a m cs m' \<and> rn_Sent m' = [] \<and> (is_ok r \<longrightarrow> loopInv action (lifeEnd a cs) m'
     \<and> (action = ''resume'' \<longrightarrow> rn_End m' = at + rp_ComputeWindowSeconds (the (fi_Retention (the (FixedIntent (rn_Claim m))))) * second))"
proof (cases "action = ''resume'' \<and> (rn_state m \<noteq> ''suspended'' \<or> cw_State (rs_ComputeWindow (retained (rn_Claim m))) \<noteq> ''closed'')")
  case True
  then have "m' = m" "\<not> is_ok r" using run by (auto simp: admitRetention_def requireR_def bindR_def)
  then show ?thesis using m by (intro exI [of _ "[]"]) simp
next
  case False
  let ?f = "admittedState req action (rp_ComputeWindowSeconds (the (fi_Retention (the (FixedIntent (rn_Claim m)))))) at"
  let ?b = "if action = ''resume'' then Resuming else Pausing"
  have rec: "recordRetention ?f m = (m', r)" using run False by (auto simp: admitRetention_def requireR_def bindR_def)
  have b: "life (?f (retained (rn_Claim m))) = Some ?b" "lifeStep a ?b"
    using action a False life_admitted by (auto intro: lifeStep.intros)
  from rec m(1) b show ?thesis
  proof (cases rule: recordRetention_cases)
    case (skipped e)
    then show ?thesis using m by (intro exI [of _ "[]"]) simp
  next
    case (failed e c)
    then show ?thesis using m by (intro exI [of _ "[c]"]) simp
  next
    case written
    have "loopInv action ?b m'"
      using written m b action by (auto simp: loopInv_def sentOk_def targetOf_def)
    moreover have "rn_End m' = at + rp_ComputeWindowSeconds (the (fi_Retention (the (FixedIntent (rn_Claim m))))) * second"
      if "action = ''resume''"
      using that by (simp add: written(4)) (simp add: admittedState_def fmt_RFC3339Nano_def timeOf_def)
    ultimately show ?thesis using written m b
      by (intro exI [of _ "[rn_Claim m']"]) simp
  qed
qed

lemma retentionBody_cases:
  assumes run: "retentionBody rounds env k expected req action (startRun action l) = (m', r)"
    and ok: "dirOk (lk_Dir l)" and disk: "lk_Exists l \<longrightarrow> lk_Disk l = Some (lk_Claim l)"
    and valid: "ValidateRetentionLifecycleRequest expected req action = None" and new: "\<not> completedReplay expected req"
    and a: "life (retained expected) = Some a" "a \<noteq> Retired"
  obtains (stopped) cs where "follows a (startRun action l) cs m'" "rn_Sent m' = []" "\<not> is_ok r"
  | (looped) cs m where "follows a (startRun action l) cs m" "loopInv action (lifeEnd a cs) m"
      "retentionLoop env action rounds 1 m = (m', r)" "action = ''resume'' \<Longrightarrow> rn_End m = windowEnd env expected req"
proof -
  note acc = request_accepted [OF valid]
  let ?m0 = "startRun action l"
  from run show thesis unfolding retentionBody_def
  proof (cases rule: bindR_cases)
    case (first e)
    then show thesis using stopped [of "[]"] by (auto simp: requireR_def startRun_def)
  next
    case (both m1 x)
    then have m1: "m1 = ?m0" and unch: "\<not> retentionChanged k expected l" by (auto simp: startRun_def)
    then have cl: "lk_Claim l = expected" and ex: "lk_Exists l" by (auto simp: retentionChanged_def)
    from both(2) show thesis
    proof (cases rule: bindR_cases)
      case (first e)
      then show thesis using stopped [of "[]"] m1 by (auto simp: requireR_def startRun_def)
    next
      case (both m2 x)
      then have m2: "m2 = ?m0" using m1 by simp
      from both(2) show thesis
      proof (cases rule: bindR_cases)
        case (first e)
        then show thesis using stopped [of "[]"] m2 by (auto simp: observeRetention_def startRun_def split: sum.splits)
      next
        case (both m3 x)
        then obtain s where m3: "m3 = ?m0\<lparr>rn_state := s\<rparr>" using m2 by (auto simp: observeRetention_def split: sum.splits)
        have sync: "inSync m3" using m3 ok disk ex cl acc(1) by (simp add: inSync_def startRun_def)
        have c3: "rn_Claim m3 = expected" using m3 cl by (simp add: startRun_def)
        have sent: "rn_Sent m3 = []" "\<not> rn_submitted m3" "rn_target m3 = targetOf action" using m3 by (simp_all add: startRun_def)
        show thesis
        proof (cases "isReplay expected req")
          case True
          then obtain op where op: "rs_Operation (retained expected) = Some op" "ro_ID op = rq_OperationID req"
            by (auto simp: isReplay_def split: option.splits)
          with new have ph: "ro_Phase op \<noteq> ''observed''" by (simp add: completedReplay_def)
          have "retentionLoop env action rounds 1 m3 = (m', r)" using both(2) op ph c3 by (simp add: bindR_def returnR_def)
          moreover have "loopInv action a m3"
            using life_replayed [OF a(1) op(1) ph] acc(3) [OF op] sync sent c3 a
            by (auto simp: loopInv_def sentOk_def targetOf_def)
          moreover have "rn_End m3 = windowEnd env expected req" using True c3 by (simp add: windowEnd_def)
          moreover have "follows a ?m0 [] m3" using m3 by simp
          ultimately show thesis using looped [of "[]" m3] by simp
        next
          case False
          then have "bindR (admitRetention req action (mr_Now env 0)) (\<lambda>_. retentionLoop env action rounds 1) m3 = (m', r)"
            using both(2) c3 by (auto simp: isReplay_def Let_def split: option.splits)
          then obtain m4 r4 where adm: "admitRetention req action (mr_Now env 0) m3 = (m4, r4)"
            and nxt: "(case r4 of Inl e \<Rightarrow> (m4, Inl e) | Inr _ \<Rightarrow> retentionLoop env action rounds 1 m4) = (m', r)"
            by (auto simp: bindR_def split: prod.splits sum.splits)
          have settled: "(a = Running \<and> cw_State (rs_ComputeWindow (retained (rn_Claim m3))) = ''active'') \<or> a = Suspended"
          proof -
            have "\<And>op. rs_Operation (retained expected) = Some op \<Longrightarrow> ro_Phase op \<noteq> ''pending''"
              using acc(4) False by (auto simp: isReplay_def)
            from life_new [OF a this] show ?thesis using c3 by simp
          qed
          from admit_stage [OF adm sync sent acc(2) settled] obtain cs where
            cs: "follows a m3 cs m4" "rn_Sent m4 = []" "is_ok r4 \<Longrightarrow> loopInv action (lifeEnd a cs) m4"
              "is_ok r4 \<Longrightarrow> action = ''resume'' \<Longrightarrow> rn_End m4 = windowEnd env expected req"
            using c3 False by (auto simp: windowEnd_def)
          have f: "follows a ?m0 cs m4" using cs(1) m3 by simp
          show thesis
          proof (cases r4)
            case (Inl e)
            then show thesis using stopped [of cs] f cs nxt by auto
          next
            case (Inr u)
            then show thesis using looped [of cs m4] f cs nxt by auto
          qed
        qed
      qed
    qed
  qed
qed

lemma MutateFixedRetention_cases:
  assumes run: "MutateFixedRetention rounds env lenv shared k expected req action d = (d', tr, sent, r)"
  obtains (refused) "d' = d" "tr = []" "sent = []" "\<not> is_ok r"
  | (replayed) "ValidateRetentionLifecycleRequest expected req action = None" "completedReplay expected req"
      "d' = d" "tr = []" "sent = []" "r = Inr True" "replayObserved env k expected action = None"
  | (locked) l m where "ValidateRetentionLifecycleRequest expected req action = None" "\<not> completedReplay expected req"
      "retentionBody rounds env k expected req action (startRun action l) = (m, r)"
      "lk_LeaseID l = LeaseID expected" "lk_Dir l = d" "lk_Trace l = []" "lk_Exists l \<longrightarrow> lk_Disk l = Some (lk_Claim l)"
      "d' = lk_Dir (rn_Lock m)" "tr = lk_Trace (rn_Lock m)" "sent = rn_Sent m"
      "l = \<lparr>lk_LeaseID = LeaseID expected, lk_Claim = lk_Claim l, lk_Exists = lk_Exists l, lk_Dir = d, lk_IO = le_IO lenv, lk_N = 0, lk_Trace = []\<rparr>"
proof (cases "ValidateRetentionLifecycleRequest expected req action")
  case (Some e)
  then show thesis using run refused by (auto simp: MutateFixedRetention_def)
next
  case valid: None
  show thesis
  proof (cases "completedReplay expected req")
    case True
    obtain x acted where w: "withLeaseClaimUnchangedContext (LeaseID expected) expected (Some (replayObserved env k expected action)) shared d = (x, acted)"
      by fastforce
    have "x = None \<Longrightarrow> replayObserved env k expected action = None"
      using w by (auto simp: withLeaseClaimUnchangedContext_def split: sum.splits option.splits prod.splits)
    then show thesis using run valid True w refused replayed
      by (cases x) (auto simp: MutateFixedRetention_def)
  next
    case False
    let ?act = "\<lambda>l. case retentionBody rounds env k expected req action (startRun action l) of (m, r) \<Rightarrow> (rn_Lock m, Inr (rn_Sent m, r))"
    obtain d1 tr1 r1 where w: "WithDurableLeaseClaimLockContext (LeaseID expected) lenv ?act d = (d1, tr1, r1)" by (rule prod_cases3)
    have res: "(d', tr, sent, r) = (case r1 of Inl e \<Rightarrow> (d1, tr1, [], Inl e) | Inr (sent, r) \<Rightarrow> (d1, tr1, sent, r))"
      using run valid False w by (auto simp: MutateFixedRetention_def startRun_def split: sum.splits)
    from w show thesis
    proof (cases rule: lock_body)
      case refused
      then show thesis using res that(1) by (cases r1) auto
    next
      case (ran c ex l')
      let ?l = "\<lparr>lk_LeaseID = LeaseID expected, lk_Claim = c, lk_Exists = ex, lk_Dir = d, lk_IO = le_IO lenv, lk_N = 0, lk_Trace = []\<rparr>"
      obtain m r' where body: "retentionBody rounds env k expected req action (startRun action ?l) = (m, r')" by fastforce
      have "ex \<Longrightarrow> lk_Disk ?l = Some c"
        using ran(4) read_claim_content by (auto simp: lk_Disk_def claimAt_def claimLook_def)
      then show thesis using locked [OF valid False, of ?l m] body ran res by auto
    qed
  qed
qed

section \<open>Properties\<close>

text \<open>C7: Retention follows the abstract lifecycle. Whatever the provider answers, whatever the disk
  does and after any number of rounds of waiting, the claims that a pause or resume has written to
  disk move along the lifecycle machine from the state of the inspected claim, one step each; nothing
  else changes in the claims directory; and success is reported only in the settled state of the
  request: running for a resume, suspended for a pause.\<close>

theorem retention_follows_lifecycle:
  assumes run: "MutateFixedRetention rounds env lenv shared k expected req action d = (d', tr, sent, r)"
    and ok: "dirOk d" and a: "life (retained expected) = Some a" "a \<noteq> Retired"
  shows "\<exists>cs. tr = map OnDisk cs \<and> d' = writeAll (LeaseID expected) cs d \<and> lifePath a cs
     \<and> (r = Inr True \<longrightarrow> lifeEnd a cs = (if action = ''resume'' then Running else Suspended))"
  using run
proof (cases rule: MutateFixedRetention_cases)
  case refused
  then show ?thesis by (intro exI [of _ "[]"]) auto
next
  case replayed
  note acc = request_accepted [OF replayed(1)]
  obtain op where op: "rs_Operation (retained expected) = Some op" "ro_ID op = rq_OperationID req" "ro_Phase op = ''observed''"
    using replayed(2) by (auto simp: completedReplay_def split: option.splits)
  have "a = (if action = ''resume'' then Running else Suspended)"
    using acc(2) acc(3) [OF op(1,2)] op replayed(7) a
    by (auto simp: life_def Let_def replayObserved_def SessionDiskExecutionDeadline_def SessionDiskWindowDeadline_def
        split: if_splits sum.splits option.splits)
  then show ?thesis using replayed by (intro exI [of _ "[]"]) auto
next
  case (locked l m)
  have okl: "dirOk (lk_Dir l)" using ok locked(5) by simp
  show ?thesis
  proof (cases rule: retentionBody_cases [OF locked(3) okl locked(7,1,2) a])
    case stopped: (1 cs)
    then show ?thesis using locked by (intro exI [of _ cs]) (auto simp: follows_def startRun_def)
  next
    case looped: (2 cs m1)
    from retentionLoop_ok [OF looped(3,2)] obtain ds where "follows (lifeEnd a cs) m1 ds m"
      "r = Inr True \<Longrightarrow> lifeEnd (lifeEnd a cs) ds = (if action = ''resume'' then Running else Suspended)"
      by (auto simp: roundOk_def settled_def)
    with follows_append [OF looped(1) this(1)] show ?thesis
      using locked by (intro exI [of _ "cs @ ds"]) (auto simp: follows_def startRun_def)
  qed
qed

text \<open>C8: Every native lifecycle command is authorised by the claim on disk. Whatever the provider, the
  clock and the disk do, a pause or resume sends each of the commands \<open>running\<close> and \<open>suspended\<close> at
  most once; when it asks the provider to run, the claim file holds a pending resume whose compute
  window ends after the clock of that round; when it asks to suspend, the file holds a pending pause
  or a resume whose window was closed because it expired.\<close>

theorem retention_commands_authorised:
  assumes run: "MutateFixedRetention rounds env lenv shared k expected req action d = (d', tr, sent, r)"
    and ok: "dirOk d" and a: "life (retained expected) = Some a" "a \<noteq> Retired"
  shows "distinct (map fst sent) \<and> length sent \<le> 2 \<and> (\<forall>x \<in> set sent. authorised x)"
proof -
  have "sentOk sent" using run
  proof (cases rule: MutateFixedRetention_cases)
    case (locked l m)
    have okl: "dirOk (lk_Dir l)" using ok locked(5) by simp
    show ?thesis
    proof (cases rule: retentionBody_cases [OF locked(3) okl locked(7,1,2) a])
      case stopped: (1 cs)
      then show ?thesis using locked by (simp add: sentOk_def)
    next
      case looped: (2 cs m1)
      from retentionLoop_ok [OF looped(3,2)] show ?thesis using locked by (auto simp: roundOk_def)
    qed
  qed (simp_all add: sentOk_def)
  then have len: "card (set (map fst sent)) = length sent" and all: "\<forall>x \<in> set sent. authorised x"
    and "distinct (map fst sent)"
    using distinct_card [of "map fst sent"] by (auto simp: sentOk_def list_all_iff)
  moreover have "set (map fst sent) \<subseteq> {''running'', ''suspended''}"
    using all by (auto simp: authorised_def split: option.splits)
  then have "card (set (map fst sent)) \<le> card {''running'', ''suspended''}" by (intro card_mono) auto
  ultimately show ?thesis by simp
qed

section \<open>The mutation returns\<close>

lemma recordRetention_end:
  assumes "recordRetention f m = (m', Inr ())" and "inSync m" and "cw_ExpiresAt (rs_ComputeWindow (f (retained (rn_Claim m)))) = cw_ExpiresAt (rs_ComputeWindow (retained (rn_Claim m)))"
  shows "rn_End m' = rn_End m"
proof -
  obtain l where "persist ((rn_Lock m)\<lparr>lk_Claim := mapJournal (\<lambda>j. j\<lparr>fj_Revision := fj_Revision j + 1\<rparr>) (mapRetained f (rn_Claim m))\<rparr>) = (l, None)"
    and m': "m' = m\<lparr>rn_Lock := l\<rparr>"
    using assms(1) by (auto simp: recordRetention_def split: prod.splits option.splits)
  then have "\<exists>r. lk_Claim l = stamped ((rn_Lock m)\<lparr>lk_Claim := mapJournal (\<lambda>j. j\<lparr>fj_Revision := fj_Revision j + 1\<rparr>) (mapRetained f (rn_Claim m))\<rparr>) r"
    by (auto elim!: persist_cases)
  then have "retained (lk_Claim l) = f (retained (rn_Claim m))"
    using assms(2) by (auto simp: retained_cong [OF FixedIntent_stamped] inSync_def)
  then show ?thesis using m' assms(3) by simp
qed

lemma closeExpired_end:
  assumes "closeExpired action now m = (m', Inr x)" and "loopInv action a m"
  shows "rn_End m' = rn_End m"
  using assms
  by (auto simp: closeExpired_def loopInv_def bindR_Inr suspendState_def Let_def split: if_splits
      dest!: recordRetention_end)

lemma submit_end:
  assumes "submitRetention env n m = (m', Inr x)" and "inSync m"
  shows "rn_End m' = rn_End m"
proof -
  have "rn_End m2 = rn_End m1" if "sendRetention env n m1 = (m2, Inr ())" for m1 m2
    using that by (auto simp: sendRetention_def Let_def split: option.splits)
  then show ?thesis using assms recordRetention_end [of "\<lambda>s. s" m]
    by (auto simp: submitRetention_def bindR_Inr split: if_splits)
qed

lemma continued_round:
  assumes "retentionRound env action n m = (m', Inr False)" and inv: "loopInv action a m"
  shows "rn_End m' = rn_End m" and "\<exists>c. mr_Observe env n c = Inr (rn_state m')"
    and "\<exists>b. loopInv action b m'"
proof -
  obtain m1 expired where ce: "closeExpired action (mr_Now env n) m = (m1, Inr expired)"
    and body: "(if rn_state m1 = rn_target m1 then
         bindR (recordRetention observedState) (\<lambda>_.
           if expired then failR (Exit 4 ''resume window expired; suspension confirmed before any new admission'')
           else returnR True) m1
       else
         bindR (checkR (mr_Ctx env n)) (\<lambda>_.
         bindR (submitRetention env n) (\<lambda>_.
         bindR (observeRetention env n) (\<lambda>_ m1.
           if rn_state m1 = rn_target m1 then (m1, Inr False)
           else bindR (checkR (mr_Wait env n)) (\<lambda>_. returnR False) m1))) m1) = (m', Inr False)"
    using assms(1) by (auto simp: retentionRound_def bindR_Inr)
  from closeExpired_stage [OF ce inv] obtain b where "loopInv action b m1" by (auto simp: targeted_def)
  then have sync: "inSync m1" by (simp add: loopInv_def)
  have neq: "rn_state m1 \<noteq> rn_target m1" using body by (auto simp: bindR_Inr split: if_splits)
  then obtain m2 where sub: "submitRetention env n m1 = (m2, Inr ())" and obs: "observeRetention env n m2 = (m', Inr ())"
    using body by (auto simp: bindR_Inr split: if_splits)
  then have "rn_End m' = rn_End m2" and st: "mr_Observe env n (rn_Claim m2) = Inr (rn_state m')"
    by (auto simp: observeRetention_def split: sum.splits)
  then show "rn_End m' = rn_End m" using submit_end [OF sub sync] closeExpired_end [OF ce inv] by simp
  from st show "\<exists>c. mr_Observe env n c = Inr (rn_state m')" by blast
  from retentionRound_ok [OF assms] show "\<exists>b. loopInv action b m'" by (auto simp: roundOk_def)
qed

text \<open>Once the provider reports suspension, and a resume is past its window, the next round ends.\<close>

lemma last_round:
  assumes inv: "loopInv action a m" and "rn_state m = ''suspended''" and late: "action = ''resume'' \<Longrightarrow> rn_End m \<le> mr_Now env n"
  shows "snd (retentionRound env action n m) \<noteq> Inr False"
proof
  assume "snd (retentionRound env action n m) = Inr False"
  then obtain m' where r: "retentionRound env action n m = (m', Inr False)" by (metis prod.collapse)
  obtain m1 expired where ce: "closeExpired action (mr_Now env n) m = (m1, Inr expired)"
    using r by (auto simp: retentionRound_def bindR_Inr)
  from closeExpired_stage [OF ce inv] obtain b where t: "targeted action (mr_Now env n) b m1" "rn_state m1 = ''suspended''"
    using assms(2) by auto
  have "rn_End m1 = rn_End m" by (rule closeExpired_end [OF ce inv])
  then have "rn_target m1 = ''suspended''" using t(1) late by (auto simp: targeted_def loopInv_def)
  then show False using r ce t(2) by (auto simp: retentionRound_def bindR_Inr split: if_splits)
qed

lemma retentionLoop_returns:
  assumes "loopInv action a m" and obs: "\<And>n c s. N \<le> n \<Longrightarrow> mr_Observe env n c = Inr s \<Longrightarrow> s = ''suspended''"
    and late: "\<And>n. action = ''resume'' \<Longrightarrow> N \<le> n \<Longrightarrow> rn_End m \<le> mr_Now env n"
    and "N - n + 2 \<le> rounds"
  shows "snd (retentionLoop env action rounds n m) \<noteq> Inr False"
  using assms(1,3,4)
proof (induction rounds arbitrary: n m a)
  case (Suc rounds)
  obtain m1 r where round: "retentionRound env action n m = (m1, r)" by fastforce
  show ?case
  proof (cases "r = Inr False")
    case False
    then show ?thesis using round by (cases r) (auto simp: bindR_def returnR_def)
  next
    case True
    note c = continued_round [OF round [unfolded True] Suc.prems(1)]
    then obtain b where b: "loopInv action b m1" by blast
    have loop: "retentionLoop env action (Suc rounds) n m = retentionLoop env action rounds (Suc n) m1"
      using round True by (simp add: bindR_def)
    show ?thesis
    proof (cases "N \<le> n")
      case False
      then have "snd (retentionLoop env action rounds (Suc n) m1) \<noteq> Inr False"
        using Suc.prems c(1) by (intro Suc.IH [OF b]) auto
      with loop show ?thesis by simp
    next
      case True
      then have "rn_state m1 = ''suspended''" using obs c(2) by blast
      then have l: "snd (retentionRound env action (Suc n) m1) \<noteq> Inr False"
        using last_round [OF b] Suc.prems(2) True c(1) by simp
      obtain k where "rounds = Suc k" using Suc.prems(3) by (cases rounds) auto
      then show ?thesis using loop l
        by (cases "retentionRound env action (Suc n) m1"; cases "snd (retentionRound env action (Suc n) m1)")
          (auto simp: bindR_def returnR_def)
    qed
  qed
qed simp

text \<open>C9: A lifecycle mutation cannot wait forever on a settled provider. When from some round on every
  successful observation shows the resource suspended, and, for a resume, the clock has passed the
  end of its window by then, \<open>MutateFixedRetention\<close> returns within two rounds of that moment,
  whatever the provider did before and whatever the disk does. (A resume that never gets the resource
  running ends this way when its window expires.)\<close>

theorem retention_mutation_returns:
  assumes "dirOk d" and "life (retained expected) = Some a" and "a \<noteq> Retired"
    and obs: "\<And>n c s. N \<le> n \<Longrightarrow> mr_Observe env n c = Inr s \<Longrightarrow> s = ''suspended''"
    and late: "\<And>n. action = ''resume'' \<Longrightarrow> N \<le> n \<Longrightarrow> windowEnd env expected req \<le> mr_Now env n"
    and "N + 2 \<le> rounds"
  shows "snd (snd (snd (MutateFixedRetention rounds env lenv shared k expected req action d))) \<noteq> Inr False"
proof -
  obtain d' tr sent r where run: "MutateFixedRetention rounds env lenv shared k expected req action d = (d', tr, sent, r)"
    by (metis prod.collapse)
  then have "r \<noteq> Inr False"
  proof (cases rule: MutateFixedRetention_cases)
    case (locked l m)
    have okl: "dirOk (lk_Dir l)" using assms(1) locked(5) by simp
    show ?thesis
    proof (cases rule: retentionBody_cases [OF locked(3) okl locked(7,1,2) assms(2,3)])
      case (2 cs m1)
      have "snd (retentionLoop env action rounds 1 m1) \<noteq> Inr False"
        using 2 late assms(6) by (intro retentionLoop_returns [OF 2(2) obs]) auto
      then show ?thesis using 2 by simp
    qed auto
  qed auto
  with run show ?thesis by simp
qed

section \<open>A sample pause\<close>

definition pauseState :: SessionDiskRetentionState where
  "pauseState = \<lparr>rs_DesiredState = ''running'',
     rs_ComputeWindow = \<lparr>cw_ID = ''w'', cw_AuthorizedAt = At 0, cw_ExpiresAt = At 60000000000, cw_State = ''active''\<rparr>,
     rs_Operation = None\<rparr>"

definition pausePolicy :: SessionDiskRetentionPolicy where
  "pausePolicy = \<lparr>rp_Mode = ''session-disk'', rp_OwnerBinding = replicate 64 CHR ''0'', rp_ComputeWindowSeconds = 60\<rparr>"

definition pauseIntent :: FixedCreateIntent where
  "pauseIntent = sampleIntent\<lparr>fi_State := ''acquired'', fi_Retention := Some pausePolicy,
     fi_Journal := Some \<lparr>fj_Retention = Some pauseState, fj_Version = 2, fj_Phase = ''acquired'', fj_Revision = 1, fj_Submission = None\<rparr>\<rparr>"

definition pauseClaim :: leaseClaim where
  "pauseClaim = sampleClaim\<lparr>CloudID := ''i-1'', Revision := ''r'', FixedIntent := Some pauseIntent\<rparr>"

definition pauseRequest :: RetentionLifecycleRequest where
  "pauseRequest = \<lparr>rq_OperationID = ''op-1'', rq_OwnerBinding = replicate 64 CHR ''0'', rq_ExpectedClaimRevision = ''r'',
     rq_ExpectedProviderIdentity = \<lparr>px_LeaseID = ''cbx_0123456789ab'', px_AttemptLeaseID = ''cbx_0123456789ab'',
       px_Slug = ''box'', px_ResourceID = ''i-1''\<rparr>\<rparr>"

text \<open>The resource runs, is told to suspend in the first round, and has done so in the second.\<close>

definition pauseEnv :: retentionEnv where
  "pauseEnv = \<lparr>mr_Now = (\<lambda>n. int n), mr_Observe = (\<lambda>n _. Inr (if n < 2 then ''running'' else ''suspended'')),
     mr_Submit = (\<lambda>_ _ _. None), mr_Ctx = (\<lambda>_. None), mr_Wait = (\<lambda>_. None)\<rparr>"

definition pauseDir :: claimsDir where
  "pauseDir = [(''cbx_0123456789ab.json'', CClaim pauseClaim)]"

definition pauseLock :: lockState where
  "pauseLock = \<lparr>lk_LeaseID = ''cbx_0123456789ab'', lk_Claim = pauseClaim, lk_Exists = True,
     lk_Dir = pauseDir, lk_IO = sampleIO, lk_N = 0, lk_Trace = []\<rparr>"

lemma pauseClaim_fields [simp]:
  "LeaseID pauseClaim = ''cbx_0123456789ab''" "Slug pauseClaim = ''box''" "CloudID pauseClaim = ''i-1''" "Revision pauseClaim = ''r''"
  "RecoveryHold pauseClaim = None" "FixedIntent pauseClaim = Some pauseIntent" "fi_Retention pauseIntent = Some pausePolicy"
  "fi_State pauseIntent = ''acquired''" "rp_OwnerBinding pausePolicy = replicate 64 CHR ''0''"
  "fj_Phase (claimJournal pauseClaim) = ''acquired''" "retained pauseClaim = pauseState" "rs_Operation pauseState = None"
  by (simp_all add: pauseClaim_def sampleClaim_def zeroClaim_def pauseIntent_def pausePolicy_def claimJournal_def
      retained_def pauseState_def)

lemma trim_ascii_word:
  "is_ascii s \<Longrightarrow> s \<noteq> [] \<Longrightarrow> \<not> is_space (code (hd s)) \<Longrightarrow> \<not> is_space (code (last s)) \<Longrightarrow> TrimSpace s = s"
  by (simp add: TrimSpace_ascii trim_by_fixed)

lemma pauseOwner_sha: "FixedSHA256 (replicate 64 CHR ''0'')"
proof -
  have "is_ascii (replicate 64 CHR ''0'')" by (simp add: is_ascii_def code_def)
  then show ?thesis
    by (simp add: FixedSHA256_def hex_decoded_length_def is_hex_char_def list_all_iff ToLower_def chunks_ascii comp_def)
      (simp add: code_def lower_char_def concat_map_singleton map_replicate)
qed

lemma pauseIntent_valid: "validateFixedJournal (Some pauseIntent) = None"
  using pauseOwner_sha
  by (simp add: validateFixedJournal_ok validateSessionDiskRetention_ok pauseIntent_def pausePolicy_def pauseState_def
      sampleIntent_def journal_phases_def valid_policy_def maxWindowSeconds_def second_def valid_window_def)

lemma pause_words:
  "TrimSpace ''box'' = ''box''" "TrimSpace ''i-1'' = ''i-1''" "TrimSpace ''cbx_0123456789ab'' = ''cbx_0123456789ab''"
  "validRetentionOperationID ''op-1''" "IsCanonicalLeaseID ''cbx_0123456789ab''" "validControllerInventoryIdentity ''i-1''"
  "validLeaseClaimID ''cbx_0123456789ab''" "NormalizeLeaseSlug ''box'' = ''box''"
proof -
  show "TrimSpace ''box'' = ''box''" "TrimSpace ''i-1'' = ''i-1''" "TrimSpace ''cbx_0123456789ab'' = ''cbx_0123456789ab''"
    by (simp_all add: trim_ascii_word is_ascii_def code_def is_space_def)
  have a: "is_ascii ''op-1''" "is_ascii ''i-1''" "is_ascii ''cbx_0123456789ab''" by (simp_all add: is_ascii_def code_def)
  show "validRetentionOperationID ''op-1''"
    using trim_ascii_word [OF a(1)] by (simp add: validRetentionOperationID_def chunks_ascii [OF a(1)] code_def is_space_def)
  show "validControllerInventoryIdentity ''i-1''"
    by (simp add: validControllerInventoryIdentity_def chunks_ascii [OF a(2)] code_def)
  show "validLeaseClaimID ''cbx_0123456789ab''"
    by (simp add: validLeaseClaimID_def chunks_ascii [OF a(3)] code_def ToUpper_def upper_char_def HasSuffix_def Let_def)
  show "IsCanonicalLeaseID ''cbx_0123456789ab''" by (simp add: IsCanonicalLeaseID_def is_hex_lower_def code_def)
  show "NormalizeLeaseSlug ''box'' = ''box''" by code_simp
qed

lemma pause_identity:
  "ValidateLeaseTargetProviderIdentity
     \<lparr>lt_Server = zeroServer\<lparr>sv_CloudID := ''i-1'', sv_ImmutableID := x, sv_Name := ''box'',
        sv_Labels := fmap_of_list [(''slug'', ''box'')]\<rparr>, lt_SSH = zeroTarget, lt_LeaseID = ''cbx_0123456789ab''\<rparr>
     (rq_ExpectedProviderIdentity pauseRequest) = None"
  by (simp add: pauseRequest_def ValidateLeaseTargetProviderIdentity_def px_empty_def ValidateProviderIdentityExpectation_def
      pause_words Let_def ServerSlug_def label_def DisplayID_def)

lemma pause_accepted: "ValidateRetentionLifecycleRequest pauseClaim pauseRequest ''pause'' = None"
  using pause_identity pauseIntent_valid
  by (simp add: ValidateRetentionLifecycleRequest_def Let_def pause_words) (simp add: pauseRequest_def pause_words)

definition pauseBody :: "retentionRun \<times> bool res" where
  "pauseBody = retentionBody 4 pauseEnv sampleKind pauseClaim pauseRequest ''pause'' (startRun ''pause'' pauseLock)"

lemma pauseBody_run: "snd pauseBody = Inr True" "map fst (rn_Sent (fst pauseBody)) = [''suspended'']"
  by code_simp+

definition samplePause :: "nat \<Rightarrow> retentionResult" where
  "samplePause rounds = MutateFixedRetention rounds pauseEnv sampleLock
     \<lparr>rm_StateDirErr = None, rm_LockErr = None, rm_RemoveErr = None, rm_SyncErr = None, rm_SyncMissing = False\<rparr>
     sampleKind pauseClaim pauseRequest ''pause'' pauseDir"

lemma samplePause_run:
  "samplePause 4 = (let m = fst pauseBody in (lk_Dir (rn_Lock m), lk_Trace (rn_Lock m), rn_Sent m, Inr True))"
proof -
  have rd: "readLeaseClaimPathWithPresence pauseDir ''cbx_0123456789ab.json'' = Inr (pauseClaim, True)"
    using pauseIntent_valid by (simp add: readLeaseClaimPathWithPresence_def decodeLeaseClaim_def pauseDir_def)
  have vp: "validLeaseClaimPathID ''cbx_0123456789ab''" by (simp add: validLeaseClaimPathID_def pause_words)
  obtain m where m: "pauseBody = (m, Inr True)" using pauseBody_run(1) by (metis prod.collapse)
  have l: "\<lparr>lk_LeaseID = ''cbx_0123456789ab'', lk_Claim = pauseClaim, lk_Exists = True, lk_Dir = pauseDir, lk_IO = sampleIO, lk_N = 0,
     lk_Trace = []\<rparr> = pauseLock" by (simp add: pauseLock_def)
  have "retentionBody 4 pauseEnv sampleKind pauseClaim pauseRequest ''pause''
      \<lparr>rn_Lock = pauseLock, rn_state = [], rn_target = targetOf ''pause'', rn_submitted = False, rn_Sent = []\<rparr> = (m, Inr True)"
    using m by (simp add: pauseBody_def startRun_def)
  moreover have "fst pauseBody = m" by (subst m) simp
  ultimately show ?thesis
    by (simp add: samplePause_def MutateFixedRetention_def pause_accepted completedReplay_def WithDurableLeaseClaimLockContext_def
        leaseClaimPath_def sampleLock_def claimFile_def rd vp l validateLeaseClaimFileIdentity_def Let_def)
qed

lemma pause_ready: "dirOk pauseDir" "life (retained pauseClaim) = Some Running"
  by (simp_all add: dirOk_def pauseDir_def life_def pauseState_def)

theorem retention_follows_lifecycle_witness:
  "\<exists>cs. fst (snd (samplePause 4)) = map OnDisk cs \<and> lifePath Running cs \<and> lifeEnd Running cs = Suspended"
proof -
  let ?m = "fst pauseBody"
  have run: "samplePause 4 = (lk_Dir (rn_Lock ?m), lk_Trace (rn_Lock ?m), rn_Sent ?m, Inr True)"
    using samplePause_run by (simp add: Let_def)
  from retention_follows_lifecycle [OF run [unfolded samplePause_def] pause_ready] show ?thesis
    by (subst run) auto
qed

theorem retention_commands_authorised_witness:
  "\<exists>x. fst (snd (snd (samplePause 4))) = [x] \<and> fst x = ''suspended'' \<and> authorised x"
proof -
  let ?m = "fst pauseBody"
  have run: "samplePause 4 = (lk_Dir (rn_Lock ?m), lk_Trace (rn_Lock ?m), rn_Sent ?m, Inr True)"
    using samplePause_run by (simp add: Let_def)
  obtain x where x: "rn_Sent ?m = [x]" "fst x = ''suspended''" using pauseBody_run(2) by auto
  from retention_commands_authorised [OF run [unfolded samplePause_def] pause_ready] x have "authorised x" by simp
  then show ?thesis by (subst run) (simp add: x)
qed

theorem retention_mutation_returns_witness: "snd (snd (snd (samplePause 9))) \<noteq> Inr False"
  unfolding samplePause_def
  by (rule retention_mutation_returns [OF pause_ready, of 2]) (auto simp: pauseEnv_def split: if_splits)

end
