(* ===== verification/FixedResolve.thy ===== *)
theory FixedResolve
  imports RetentionLife
begin

text \<open>
  Reading, validating and resolving fixed leases: the readers and validators of
  \<open>internal/cli/fixed_lease_protocol.go\<close>, the read-only inspections of
  \<open>internal/cli/fixed_lease_engine.go\<close> and the resolution of \<open>internal/cli/fixed_lease_resolve.go\<close>.

  The native callbacks (inventories, lookups, attestations, \<open>prepare\<close> and \<open>inspect\<close>) and
  \<open>AuthorizeCheckpointRelease\<close> are parameters. A resolution that fails returns its error; the lease
  that the code returns beside the error is left out.
\<close>

section \<open>Attempts and claims as records\<close>

record FixedAttemptFormat =
  af_RejectEmptyObject :: bool
  af_PositiveIntegers :: "string list"
  af_Trimmed :: "string list"
  af_SHA256 :: "string list"
  af_JSONKey :: string
  af_ExactKeys :: nat
  af_Required :: "string list"
  af_Equal :: labels
  af_OptionalEqual :: labels

text \<open>The checks of \<open>ReadFixedAttempt\<close> on the string fields of the payload.\<close>

definition attemptFields :: "jsonCodec \<Rightarrow> labels \<Rightarrow> string \<Rightarrow> string" where
  "attemptFields js payload key =
     (case fmlookup payload key of None \<Rightarrow> [] | Some d \<Rightarrow> (case js_String js d of Some v \<Rightarrow> v | None \<Rightarrow> []))"

definition canonicalPositive :: "string \<Rightarrow> bool" where
  "canonicalPositive v \<longleftrightarrow> (case Atoi v of None \<Rightarrow> False | Some n \<Rightarrow> 0 < n \<and> Itoa n = v)"

definition attemptFormatError :: "FixedAttemptFormat \<Rightarrow> (string \<Rightarrow> string) \<Rightarrow> gerr option" where
  "attemptFormatError f get =
     (if list_ex (\<lambda>k. \<not> canonicalPositive (get k)) (af_PositiveIntegers f)
        then Some (conflict4 ''fixed attempt is not a canonical positive integer'')
      else if list_ex (\<lambda>k. get k \<noteq> TrimSpace (get k)) (af_Trimmed f) then Some (conflict4 ''fixed attempt is not canonical'')
      else if list_ex (\<lambda>k. \<not> FixedSHA256 (get k)) (af_SHA256 f) then Some (conflict4 ''fixed attempt is not a canonical digest'')
      else if list_ex (\<lambda>k. get k = []) (af_Required f) then Some (conflict4 ''fixed attempt is missing a field'')
      else if \<not> fmpred (\<lambda>k v. get k = v) (af_Equal f) then Some (conflict4 ''fixed attempt changed'')
      else if \<not> fmpred (\<lambda>k v. get k = [] \<or> get k = v) (af_OptionalEqual f) then Some (conflict4 ''fixed attempt changed'')
      else None)"

text \<open>\<open>decode\<close> is \<open>json.Unmarshal\<close> into the type of the caller; the result \<open>Inr None\<close> is a nil pointer.\<close>

definition ReadFixedAttempt ::
  "jsonCodec \<Rightarrow> (string \<Rightarrow> 'a res) \<Rightarrow> FixedCreateIntent option \<Rightarrow> FixedAttemptFormat \<Rightarrow> 'a option res" where
  "ReadFixedAttempt js decode intent f =
     (case intent of
        None \<Rightarrow> Inl (conflict4 ''missing fixed create intent'')
      | Some i \<Rightarrow>
          (case validateFixedJournal intent of
             Some e \<Rightarrow> Inl e
           | None \<Rightarrow>
               if noAttempt i then
                 (if fi_Attempt i \<noteq> None \<and> af_RejectEmptyObject f
                  then Inl (conflict4 ''empty fixed attempt has no creation identity; claim retained'') else Inr None)
               else if af_ExactKeys f \<noteq> 0 \<and> fcard (fmdom (attemptMap i)) \<noteq> af_ExactKeys f
                 then Inl (conflict4 ''invalid fixed attempt fields'')
               else
                 (case (if af_JSONKey f \<noteq> [] then Inr (attemptValue i (af_JSONKey f))
                        else js_Encode js (fmmap (js_Quote js) (attemptMap i))) of
                    Inl e \<Rightarrow> Inl e
                  | Inr data \<Rightarrow>
                      (case decode data of
                         Inl e \<Rightarrow> Inl (conflict4 ''invalid fixed attempt payload'')
                       | Inr x \<Rightarrow>
                           (case js_Object js data of
                              Inl e \<Rightarrow> Inl e
                            | Inr payload \<Rightarrow>
                                (case attemptFormatError f (attemptFields js payload) of
                                   Some e \<Rightarrow> Inl e
                                 | None \<Rightarrow> Inr (Some x)))))))"

record FixedClaimRules =
  cr_RequireIntentScope :: bool
  cr_NumericMatchesID :: bool
  cr_GenerationAfterPrepared :: bool
  cr_ExpectedID :: string
  cr_RequiredLabels :: "string list"
  cr_BoundLabels :: labels
  cr_RequireBound :: bool
  cr_UnboundMustBeBare :: bool
  cr_Kind :: FixedLeaseKind
  cr_States :: "string list"
  cr_Scope :: string
  cr_IntentScope :: string
  cr_RequireCanonicalID :: bool
  cr_RequireSlug :: bool
  cr_RequireTimestamp :: bool
  cr_RequireSHA256 :: bool
  cr_NoCheckpoint :: bool
  cr_NoFailedAttempts :: bool
  cr_NoNumericID :: bool
  cr_SameImmutableID :: bool
  cr_EmptyAttemptMustBePristine :: bool

definition noAccess :: "leaseClaim \<Rightarrow> bool" where
  "noAccess c \<longleftrightarrow> Labels c = fmempty \<and> SSHHost c = [] \<and> SSHPort c = 0"

definition ValidateFixedClaim :: "leaseClaim \<Rightarrow> FixedClaimRules \<Rightarrow> gerr option" where
  "ValidateFixedClaim c r =
     (if \<not> IsFixedClaim (cr_Kind r) c then Some (conflict4 ''invalid fixed identity or provider scope'')
      else let i = the (FixedIntent c) in
      if fi_Version i \<noteq> fk_IntentVersion (cr_Kind r) \<or> fi_Fingerprint i = [] \<or> fi_Slug i \<noteq> Slug c
         \<or> (cr_States r \<noteq> [] \<and> \<not> List.member (cr_States r) (fi_State i))
         \<or> (cr_IntentScope r \<noteq> [] \<and> fi_ProviderScope i \<noteq> cr_IntentScope r)
         \<or> (cr_RequireCanonicalID r \<and> \<not> IsCanonicalLeaseID (LeaseID c)) \<or> (cr_RequireSlug r \<and> fi_Slug i = [])
         \<or> (cr_NoCheckpoint r \<and> fi_CheckpointID i \<noteq> []) \<or> (cr_NoFailedAttempts r \<and> fi_FailedAttempts i \<noteq> [])
        then Some (conflict4 ''invalid fixed identity or provider scope'')
      else if (cr_Scope r \<noteq> [] \<and> ProviderScope c \<noteq> cr_Scope r) \<or> (cr_NoNumericID r \<and> CloudNumericID c \<noteq> 0)
         \<or> (cr_SameImmutableID r \<and> CloudImmutableID c \<noteq> CloudID c)
        then Some (conflict4 ''inconsistent immutable identity or provider scope'')
      else if (cr_RequireIntentScope r \<and> fi_ProviderScope i = []) \<or> (cr_ExpectedID r \<noteq> [] \<and> CloudID c \<noteq> cr_ExpectedID r)
         \<or> (cr_NumericMatchesID r \<and> CloudID c \<noteq> Itoa (CloudNumericID c))
         \<or> (cr_GenerationAfterPrepared r \<and> fi_State i \<noteq> ''prepared'' \<and> CloudImmutableID c = [])
        then Some (conflict4 ''inconsistent durable identity'')
      else if list_ex (\<lambda>k. label (Labels c) k = []) (cr_RequiredLabels r) then Some (conflict4 ''no durable label'')
      else if cr_RequireTimestamp r \<and> time_parse (fi_CreatedAt i) = None then Some (conflict4 ''invalid fixed create timestamp'')
      else if cr_RequireSHA256 r \<and> \<not> FixedSHA256 (fi_Fingerprint i) then Some (conflict4 ''invalid fixed intent fingerprint'')
      else if cr_EmptyAttemptMustBePristine r \<and> noAttempt i
         \<and> (fi_State i \<noteq> ''prepared'' \<or> \<not> unboundClaim c \<or> \<not> noAccess c)
        then Some (conflict4 ''no durable attempt'')
      else if cr_RequireBound r \<and> CloudID c = [] then Some (conflict4 ''no bound identity'')
      else if CloudID c = [] \<and> cr_UnboundMustBeBare r \<and> (fi_State i = ''acquired'' \<or> \<not> noAccess c)
        then Some (conflict4 ''inconsistent unbound identity'')
      else if CloudID c \<noteq> [] \<and> \<not> fmpred (\<lambda>k v. label (Labels c) k = v) (cr_BoundLabels r)
        then Some (conflict4 ''inconsistent bound label'')
      else validateFixedJournal (Some i))"

definition recoveryRules :: "FixedLeaseKind \<Rightarrow> FixedClaimRules" where
  "recoveryRules k = \<lparr>cr_RequireIntentScope = True, cr_NumericMatchesID = False, cr_GenerationAfterPrepared = False,
     cr_ExpectedID = [], cr_RequiredLabels = [], cr_BoundLabels = fmempty, cr_RequireBound = True, cr_UnboundMustBeBare = False,
     cr_Kind = k, cr_States = [''acquired''], cr_Scope = [], cr_IntentScope = [], cr_RequireCanonicalID = True,
     cr_RequireSlug = True, cr_RequireTimestamp = True, cr_RequireSHA256 = True, cr_NoCheckpoint = True,
     cr_NoFailedAttempts = True, cr_NoNumericID = False, cr_SameImmutableID = False, cr_EmptyAttemptMustBePristine = False\<rparr>"

definition PublishFixedRecoveryClaimIfAbsent :: "FixedLeaseKind \<Rightarrow> leaseClaim \<Rightarrow> txEnv \<Rightarrow> claimsDir \<Rightarrow> txResult" where
  "PublishFixedRecoveryClaimIfAbsent k c env d =
     (case ValidateFixedClaim c (recoveryRules k) of
        Some e \<Rightarrow> txFail d False e
      | None \<Rightarrow>
          transactLeaseClaim (LeaseID c)
            \<lparr>tx_Guard = Some (unchangedLeaseClaimGuard zeroClaim False), tx_Action = None, tx_Mutate = (\<lambda>_. Inr c),
             tx_Revision = claimRevisionAfterMutation, tx_Directory = claimDirectoryDurableNamespace,
             tx_Publication = claimPublish\<rparr> env d)"

text \<open>\<open>bind\<close> is a callback that changes the claim and may call the \<open>persist\<close> it is given; every call
  compares the file with the original claim.\<close>

definition CompareAndBindFixedClaim ::
  "leaseClaim \<Rightarrow> (((claimsDir \<times> nat \<times> leaseClaim) \<Rightarrow> (claimsDir \<times> nat \<times> leaseClaim) \<times> gerr option)
      \<Rightarrow> (claimsDir \<times> nat \<times> leaseClaim) \<Rightarrow> (claimsDir \<times> nat \<times> leaseClaim) \<times> gerr option)
    \<Rightarrow> (nat \<Rightarrow> txEnv) \<Rightarrow> claimsDir \<Rightarrow> claimsDir \<times> leaseClaim \<times> gerr option" where
  "CompareAndBindFixedClaim c bind envs d =
     (case bind (\<lambda>(d, n, c1). let r = replaceLeaseClaimTransaction (LeaseID c1) c c1 None (envs n) d
                               in ((tr_Dir r, Suc n, tr_Claim r), tr_Err r)) (d, 0, c) of
        ((d', n, c'), err) \<Rightarrow> (d', c', err))"

definition RetainMatchingFingerprint ::
  "FixedLeaseKind \<Rightarrow> gerr option \<Rightarrow> claimsDir \<Rightarrow> string \<Rightarrow> leaseClaim \<Rightarrow> string \<Rightarrow> bool res" where
  "RetainMatchingFingerprint k stateDirErr d leaseID previous fingerprint =
     RetainClaimAfterRelease k stateDirErr d leaseID previous (fingerprint \<noteq> []) None
       (Some (\<lambda>c. if fingerprint \<noteq> [] \<and> fingerprint \<noteq> fi_Fingerprint (the (FixedIntent c))
                  then Some (conflict4 ''resource label differs from its terminal tombstone'') else None))"

definition ResolveTerminal :: "FixedLeaseKind \<Rightarrow> leaseClaim \<Rightarrow> bool \<Rightarrow> LeaseTarget \<times> bool \<times> gerr option" where
  "ResolveTerminal k c releaseOnly =
     (let none = \<lparr>lt_Server = zeroServer, lt_SSH = zeroTarget, lt_LeaseID = []\<rparr> in
      if fi_State (the (FixedIntent c)) \<noteq> ''released'' then (none, False, None)
      else if \<not> releaseOnly then (none, True, Some (Exit 4 ''fixed lease is terminal''))
      else (none\<lparr>lt_LeaseID := LeaseID c\<rparr>, True, ValidateTerminalClaim k c c (LeaseID c) None))"

definition FixedCreateTime :: "leaseClaim \<Rightarrow> int" where
  "FixedCreateTime c = (case time_parse (fi_CreatedAt (the (FixedIntent c))) of Some t \<Rightarrow> t | None \<Rightarrow> zero_time)"

definition ProviderKeyForLease :: "string \<Rightarrow> string" where
  "ProviderKeyForLease leaseID = map (\<lambda>c. if c = CHR ''_'' then CHR ''-'' else c) (''crabbox-'' @ leaseID)"

definition FixedIdentityLabels :: "string \<Rightarrow> string \<Rightarrow> string \<Rightarrow> string \<Rightarrow> labels \<Rightarrow> labels" where
  "FixedIdentityLabels provider leaseID slug fingerprint native =
     fmap_of_list [(''crabbox'', ''true''), (''provider'', provider), (''lease'', leaseID), (''slug'', slug),
       (''provider_key'', ProviderKeyForLease leaseID), (''fixed_intent_sha256'', fingerprint)] ++\<^sub>f native"

text \<open>The outcome of the native rollback and reconciliation after a failed readiness check.\<close>

record FixedReadinessRecovery =
  rd_Expected :: leaseClaim
  rd_Keep :: bool
  rd_IdentityConflict :: bool
  rd_RollbackExact :: "gerr option"
  rd_Reconcile :: "bool \<times> gerr option"

definition ReconcileFixedReadiness :: "FixedReadinessRecovery \<Rightarrow> rmEnv \<Rightarrow> claimsDir \<Rightarrow> bool \<times> gerr option" where
  "ReconcileFixedReadiness p env d =
     (if rd_IdentityConflict p then
        (case VerifyLeaseClaimUnchanged (LeaseID (rd_Expected p)) (rd_Expected p) env d of
           Some e \<Rightarrow> (False, Some e)
         | None \<Rightarrow> (True, None))
      else if \<not> rd_Keep p then
        (case rd_RollbackExact p of
           None \<Rightarrow> (False, None)
         | Some e \<Rightarrow> (fst (rd_Reconcile p), joinErrs [Some e, snd (rd_Reconcile p)]))
      else rd_Reconcile p)"

definition CompleteFixedAcquisition ::
  "LeaseTarget res \<Rightarrow> (LeaseTarget \<Rightarrow> gerr option) option \<Rightarrow> LeaseTarget res" where
  "CompleteFixedAcquisition lease onAcquired =
     (case lease of
        Inl e \<Rightarrow> Inl e
      | Inr t \<Rightarrow> (case (case onAcquired of Some f \<Rightarrow> f t | None \<Rightarrow> None) of Some e \<Rightarrow> Inl e | None \<Rightarrow> Inr t))"

section \<open>Inspection\<close>

text \<open>An inspection runs on a copy of the claim with a \<open>persist\<close> that always fails, so its lock state
  stands for nothing outside.\<close>

definition inspectPersist :: "lockState \<Rightarrow> lockState \<times> gerr option" where
  "inspectPersist l = (l, Some (Exit 4 ''fixed lease inspection cannot mutate state''))"

definition inspectLock :: "leaseClaim \<Rightarrow> lockState" where
  "inspectLock c = \<lparr>lk_LeaseID = LeaseID c, lk_Claim = c, lk_Exists = True, lk_Dir = [],
     lk_IO = (\<lambda>_. \<lparr>pi_Random = Inl (Fail []), pi_Write = WriteFails (Fail [])\<rparr>), lk_N = 0, lk_Trace = []\<rparr>"

definition InspectFixedResource ::
  "jsonCodec \<Rightarrow> FixedLeaseKind \<Rightarrow> leaseClaim \<Rightarrow> 'r FixedLeaseOperations \<Rightarrow> 'r FixedObservation res" where
  "InspectFixedResource js k c ops =
     (if \<not> IsFixedClaim k c \<or> fi_Version (the (FixedIntent c)) \<noteq> fk_IntentVersion k \<or> op_ObserveExact ops = None
      then Inl (conflict4 ''fixed inspection has no matching ownership dialect'')
      else (case newFixedTransaction (inspectLock c) False inspectPersist of
              Inl e \<Rightarrow> Inl e
            | Inr tx \<Rightarrow>
                (case snd (runAdapter js (the (op_ObserveExact ops) tx FixedObserveInspect) tx) of
                   Inl e \<Rightarrow> Inl e
                 | Inr ob \<Rightarrow> (case fixedObservationConflict ob of Some e \<Rightarrow> Inl e | None \<Rightarrow> Inr ob))))"

definition observing :: "('r FixedObservation res) \<Rightarrow> 'r FixedLeaseOperations" where
  "observing r = \<lparr>op_Release = None, op_PlanReservationKey = [], op_PlanDuringSubmit = False, op_Admission = None, op_Plan = None,
     op_Identity = None, op_DeferredAdmission = False, op_DescribeIntent = None, op_ObserveExact = Some (\<lambda>_ _. Return r),
     op_Submit = None, op_PrepareAccess = None, op_DeleteExact = None\<rparr>"

definition InspectFixedCandidate ::
  "jsonCodec \<Rightarrow> FixedLeaseKind \<Rightarrow> leaseClaim \<Rightarrow> 'r list res \<Rightarrow> ('r \<Rightarrow> bool) \<Rightarrow> 'r option res" where
  "InspectFixedCandidate js k c inventory match =
     (case InspectFixedResource js k c (observing
         (case inventory of Inl e \<Rightarrow> Inl e | Inr items \<Rightarrow> Inr (noObservation\<lparr>ob_Candidates := filter match items\<rparr>))) of
        Inl e \<Rightarrow> Inl e
      | Inr ob \<Rightarrow> (case ob_Candidates ob of [] \<Rightarrow> Inr None | x # _ \<Rightarrow> Inr (Some x)))"

definition LookupFixedResource ::
  "jsonCodec \<Rightarrow> FixedLeaseKind \<Rightarrow> leaseClaim \<Rightarrow> (leaseClaim \<Rightarrow> 'r res) \<Rightarrow> 'r res" where
  "LookupFixedResource js k c lookup =
     (case InspectFixedResource js k c (observing
         (case lookup c of Inl e \<Rightarrow> Inl e | Inr x \<Rightarrow> Inr (noObservation\<lparr>ob_Candidates := [x]\<rparr>))) of
        Inl e \<Rightarrow> Inl e
      | Inr ob \<Rightarrow> (case lookup c of Inl e \<Rightarrow> Inl e | Inr x \<Rightarrow> Inr x))"

definition FixedLookupObservation ::
  "leaseClaim \<Rightarrow> 'r res \<Rightarrow> (gerr \<Rightarrow> bool) option \<Rightarrow> (leaseClaim \<Rightarrow> 'r \<Rightarrow> gerr option) \<Rightarrow> 'r FixedObservation res" where
  "FixedLookupObservation c found notFound attest =
     (if fi_Attempt (the (FixedIntent c)) = None then
        (case found of
           Inr x \<Rightarrow> Inl (conflict4 ''resource already exists without its create intent'')
         | Inl e \<Rightarrow> (case notFound of
                       Some f \<Rightarrow> if f e then Inr (noObservation\<lparr>ob_CanSubmit := True\<rparr>) else Inl e
                     | None \<Rightarrow> Inl e))
      else (case found of
              Inl e \<Rightarrow> Inl (Fail ''fixed create unresolved; no replacement allocated'')
            | Inr x \<Rightarrow> (case attest c x of
                          Some e \<Rightarrow> Inl e
                        | None \<Rightarrow> Inr (noObservation\<lparr>ob_Candidates := [x]\<rparr>))))"

definition SelectFixedCandidate :: "'r list \<Rightarrow> ('r \<Rightarrow> bool) \<Rightarrow> 'r option res" where
  "SelectFixedCandidate items match =
     (let matches = filter match items in
      case fixedObservationConflict (noObservation\<lparr>ob_Candidates := matches\<rparr>) of
        Some e \<Rightarrow> Inl e
      | None \<Rightarrow> (case matches of [] \<Rightarrow> Inr None | x # _ \<Rightarrow> Inr (Some x)))"

text \<open>The release of a claim whose exact resources \<open>attest\<close> identifies and \<open>deleteExact\<close> deletes.\<close>

definition DeleteClaimedEvidence ::
  "jsonCodec \<Rightarrow> (leaseClaim \<Rightarrow> string \<Rightarrow> gerr option) \<Rightarrow> lockEnv \<Rightarrow> txEnv \<Rightarrow> rmEnv \<Rightarrow> FixedLeaseKind \<Rightarrow> leaseClaim \<Rightarrow> 'r res
    \<Rightarrow> ('r \<Rightarrow> gerr option) \<Rightarrow> int \<Rightarrow> claimsDir \<Rightarrow> claimsDir \<times> gerr option" where
  "DeleteClaimedEvidence js authorize lenv env renv k c attest deleteExact now d =
     (if \<not> IsFixedClaim k c then
        (let r = FinalizeAfterCleanup k c (case attest of Inl e \<Rightarrow> Some e | Inr x \<Rightarrow> deleteExact x) now env renv d
         in (tr_Dir r, tr_Err r))
      else (case DeleteFixedResource js authorize lenv k c
              ((observing (case attest of Inl e \<Rightarrow> Inl e | Inr x \<Rightarrow> Inr (noObservation\<lparr>ob_Candidates := [x]\<rparr>)))
                 \<lparr>op_DeleteExact := Some (\<lambda>_ x. Return (case deleteExact x of Some e \<Rightarrow> Inl e | None \<Rightarrow> Inr ()))\<rparr>) now d of
              (d', tr, started, terminal, err) \<Rightarrow> (d', err)))"

section \<open>Resolution\<close>

text \<open>The fields of \<open>ResolveRequest\<close> that a fixed resolution reads.\<close>

record ResolveRequest =
  rv_RepoRoot :: string
  rv_LegacyRoot :: string
  rv_StatusOnly :: bool
  rv_ReleaseOnly :: bool
  rv_NoLocalStateMutations :: bool

record FixedResolveOptions =
  rf_Kind :: FixedLeaseKind
  rf_Request :: ResolveRequest
  rf_Expected :: leaseClaim
  rf_Provider :: string
  rf_ResourceName :: string
  rf_TerminalState :: string
  rf_ValidateTerminal :: "(leaseClaim \<Rightarrow> gerr option) option"

record resolveEnv =
  rz_Lock :: lockEnv
  rz_CtxErr :: "nat \<Rightarrow> gerr option"
  rz_Now :: int
  rz_Authorize :: "leaseClaim \<Rightarrow> string \<Rightarrow> gerr option"

definition observesState :: "ResolveRequest \<Rightarrow> bool" where
  "observesState req \<longleftrightarrow> rv_StatusOnly req \<or> rv_ReleaseOnly req"

definition terminalTarget :: "FixedResolveOptions \<Rightarrow> leaseClaim \<Rightarrow> LeaseTarget" where
  "terminalTarget opts c =
     \<lparr>lt_Server = zeroServer\<lparr>sv_CloudID := CloudID c, sv_ImmutableID := CloudImmutableID c, sv_Provider := rf_Provider opts,
        sv_Name := rf_ResourceName opts, sv_Status := rf_TerminalState opts,
        sv_Labels := Labels c ++\<^sub>f fmap_of_list [(''lease'', LeaseID c), (''slug'', Slug c), (''provider'', rf_Provider opts),
          (''state'', rf_TerminalState opts)]\<rparr>,
      lt_SSH = zeroTarget, lt_LeaseID = LeaseID c\<rparr>"

definition enteredCleanup :: "FixedLeaseKind \<Rightarrow> leaseClaim \<Rightarrow> bool" where
  "enteredCleanup k c \<longleftrightarrow>
     (case FixedIntent c of
        None \<Rightarrow> False
      | Some i \<Rightarrow> (fk_DeletionState k \<noteq> [] \<and> fi_State i = fk_DeletionState k)
          \<or> (case fi_Journal i of Some j \<Rightarrow> fj_Phase j = ''deleting'' | None \<Rightarrow> False))"

text \<open>\<open>n, _ := strconv.Atoi(s)\<close>: the value beside the error is 0 for text that is not a number and the
  nearest \<open>int64\<close> for a number out of range.\<close>

definition atoiValue :: "string \<Rightarrow> int" where
  "atoiValue s =
     (case Atoi s of
        Some n \<Rightarrow> n
      | None \<Rightarrow>
          (case s of
             [] \<Rightarrow> 0
           | c # cs \<Rightarrow>
               (let digits = (if c = CHR ''-'' \<or> c = CHR ''+'' then cs else s)
                in if digits = [] \<or> digits_value 0 digits = None then 0
                   else if c = CHR ''-'' then - (2 ^ 63) else 2 ^ 63 - 1)))"

definition preparedClaim :: "int \<Rightarrow> LeaseTarget \<Rightarrow> leaseClaim \<Rightarrow> leaseClaim" where
  "preparedClaim now lease c =
     c\<lparr>Labels := sv_Labels (lt_Server lease), SSHHost := tg_Host (lt_SSH lease),
       SSHPort := atoiValue (tg_Port (lt_SSH lease)), LastUsedAt := fmt_RFC3339 now,
       FixedIntent := map_option (\<lambda>i. i\<lparr>fi_State := ''acquired''\<rparr>) (FixedIntent c)\<rparr>"

definition prepareResolved ::
  "resolveEnv \<Rightarrow> FixedResolveOptions \<Rightarrow> (lockState, LeaseTarget) proc \<Rightarrow> (lockState, LeaseTarget) proc" where
  "prepareResolved env opts prepare l =
     bindR (requireR (\<not> enteredCleanup (rf_Kind opts) (lk_Claim l)) (conflict4 ''fixed lease has entered cleanup; retry stop'')) (\<lambda>_.
     bindR (requireR (\<not> rv_NoLocalStateMutations (rf_Request opts)) (Exit 4 ''fixed command preparation requires durable identity binding'')) (\<lambda>_.
     bindR (checkR (rz_Authorize env (lk_Claim l) [])) (\<lambda>_.
     bindR prepare (\<lambda>lease.
     bindR (\<lambda>l. stateR persist (l\<lparr>lk_Claim := preparedClaim (rz_Now env) lease (lk_Claim l)\<rparr>)) (\<lambda>_.
     returnR lease))))) l"

definition resolveTerminalClaim :: "FixedResolveOptions \<Rightarrow> (lockState, LeaseTarget) proc" where
  "resolveTerminalClaim opts l =
     bindR (checkR (ValidateTerminalClaim (rf_Kind opts) (lk_Claim l) zeroClaim (LeaseID (lk_Claim l)) (rf_ValidateTerminal opts))) (\<lambda>_.
     bindR (requireR (observesState (rf_Request opts)) (conflict4 ''fixed lease is terminal'')) (\<lambda>_.
     returnR (terminalTarget opts (lk_Claim l)))) l"

definition inspectResolved :: "(leaseClaim \<Rightarrow> LeaseTarget res) \<Rightarrow> (lockState, LeaseTarget) proc" where
  "inspectResolved inspect l = (l, inspect (lk_Claim l))"

definition resolveUnderLock ::
  "resolveEnv \<Rightarrow> FixedResolveOptions \<Rightarrow> (lockState, LeaseTarget) proc \<Rightarrow> (leaseClaim \<Rightarrow> LeaseTarget res) \<Rightarrow> (lockState, LeaseTarget) proc" where
  "resolveUnderLock env opts prepare inspect l =
     (let req = rf_Request opts; c = lk_Claim l in
      bindR (requireR (lk_Exists l \<and> c = rf_Expected opts) (conflict4 ''fixed claim changed during resolution; retry'')) (\<lambda>_.
      bindR (checkR (rz_CtxErr env 0)) (\<lambda>_.
      bindR (requireR (rv_RepoRoot req = [] \<or> ClaimRepositoryMatches (RepoRoot c) (rv_RepoRoot req) (rv_LegacyRoot req))
          (conflict4 ''fixed lease belongs to another repository'')) (\<lambda>_.
      bindR (if (case FixedIntent c of Some i \<Rightarrow> fi_State i = ''released'' | None \<Rightarrow> False) then resolveTerminalClaim opts
             else if \<not> observesState req then prepareResolved env opts prepare
             else inspectResolved inspect) (\<lambda>lease.
      bindR (checkR (rz_CtxErr env 1)) (\<lambda>_ l.
        (l, Inr (lease\<lparr>lt_Server := SetServerLeaseClaimSnapshot (lt_Server lease) (lk_Claim l) True\<rparr>))))))) l)"

definition ResolveFixedLeaseTarget ::
  "resolveEnv \<Rightarrow> FixedResolveOptions \<Rightarrow> (lockState, LeaseTarget) proc \<Rightarrow> (leaseClaim \<Rightarrow> LeaseTarget res)
    \<Rightarrow> claimsDir \<Rightarrow> claimsDir \<times> event list \<times> LeaseTarget res" where
  "ResolveFixedLeaseTarget env opts prepare inspect d =
     WithDurableLeaseClaimLockContext (LeaseID (rf_Expected opts)) (rz_Lock env) (resolveUnderLock env opts prepare inspect) d"

definition ReclaimFixedLease ::
  "registry \<Rightarrow> (leaseClaim \<Rightarrow> string \<Rightarrow> gerr option) \<Rightarrow> leaseClaim \<Rightarrow> claimConfig \<Rightarrow> string \<Rightarrow> bool \<Rightarrow> (leaseClaim \<Rightarrow> Server res)
    \<Rightarrow> int \<Rightarrow> txEnv \<Rightarrow> claimsDir \<Rightarrow> txResult" where
  "ReclaimFixedLease rg authorize c cfg repoRoot reclaim lookup wall env d =
     (let stop = (\<lambda>e. \<lparr>tr_Dir = d, tr_Claim = c, tr_Err = e, tr_Ran = False\<rparr>) in
      if \<not> reclaim then stop None
      else if repoRoot = [] then stop (Some (Exit 2 ''fixed reclaim requires the current repository''))
      else case authorize c [] of
        Some e \<Rightarrow> stop (Some e)
      | None \<Rightarrow>
          (case lookup c of
             Inl e \<Rightarrow> stop (Some e)
           | Inr server \<Rightarrow>
               claimLeaseTargetForRepoConfigScopeIfUnchangedMode rg (LeaseID c) (Slug c) cfg (ProviderScope c) server zeroTarget
                 repoRoot (cf_IdleTimeout cfg) True c True
                 \<lparr>to_endpoint = claimEndpointUpdate, to_directory = claimDirectoryDurableNamespace,
                  to_action = Some (authorize c []), to_idle = claimIdlePreserveRecorded\<rparr> wall env d))"

section \<open>What a resolution leaves behind\<close>

lemma wrote_disk:
  assumes "wrote l l'" and "dirOk (lk_Dir l)"
  shows "dirOk (lk_Dir l')" "lk_LeaseID l' = lk_LeaseID l"
proof -
  have "dirOk (foldl (\<lambda>d c. dirPut (claimFile i) (CClaim c) d) d cs)" if "dirOk d" for i d and cs :: "leaseClaim list"
    using that by (induction cs arbitrary: d) (simp_all add: dirOk_dirPut)
  with assms show "dirOk (lk_Dir l')" "lk_LeaseID l' = lk_LeaseID l" by (auto simp: wrote_def writeAll_def)
qed

text \<open>The lease carries the claim that is on disk, and after a preparation that claim is acquired and has
  the endpoint of the lease.\<close>

definition carries :: "FixedResolveOptions \<Rightarrow> lockState \<Rightarrow> LeaseTarget \<Rightarrow> bool" where
  "carries opts l lease \<longleftrightarrow> lk_Disk l = Some (lk_Claim l)
     \<and> (\<not> observesState (rf_Request opts) \<longrightarrow> SSHHost (lk_Claim l) = tg_Host (lt_SSH lease)
          \<and> Labels (lk_Claim l) = sv_Labels (lt_Server lease) \<and> (\<forall>i. FixedIntent (lk_Claim l) = Some i \<longrightarrow> fi_State i = ''acquired''))"

lemma prepareResolved_ok:
  assumes run: "prepareResolved env opts prepare l = (l', r)" and ok: "dirOk (lk_Dir l)"
    and prep: "\<And>l. wrote l (fst (prepare l))"
  shows "wrote l l'" and "r = Inr lease \<Longrightarrow> \<not> enteredCleanup (rf_Kind opts) (lk_Claim l) \<and> carries opts l' lease"
proof -
  let ?pub = "\<lambda>lease l. stateR persist (l\<lparr>lk_Claim := preparedClaim (rz_Now env) lease (lk_Claim l)\<rparr>)"
  consider e where "r = Inl e" "l' = l" | l1 e where "prepare l = (l1, Inl e)" "l' = l1" "r = Inl e"
    | l1 t where "prepare l = (l1, Inr t)" "\<not> enteredCleanup (rf_Kind opts) (lk_Claim l)" "bindR (?pub t) (\<lambda>_. returnR t) l1 = (l', r)"
    using run by (auto simp: prepareResolved_def bindR_def requireR_def checkR_def split: if_splits option.splits prod.splits sum.splits)
  then have "wrote l l' \<and> (r = Inr lease \<longrightarrow> \<not> enteredCleanup (rf_Kind opts) (lk_Claim l) \<and> carries opts l' lease)"
  proof cases
    case 2
    then show ?thesis using prep [of l] by simp
  next
    case (3 l1 t)
    have w1: "wrote l l1" using prep [of l] 3(1) by simp
    let ?l2 = "l1\<lparr>lk_Claim := preparedClaim (rz_Now env) t (lk_Claim l1)\<rparr>"
    obtain err where p: "persist ?l2 = (l', err)" and r: "r = (case err of Some e \<Rightarrow> Inl e | None \<Rightarrow> Inr t)"
      using 3(3) by (auto simp: bindR_def stateR_def returnR_def split: prod.splits option.splits)
    have "wrote ?l2 l'" using persist_wrote [of ?l2] p by simp
    then have w: "wrote l l'" using wrote_trans [OF w1, of l'] by simp
    have "carries opts l' t" if "err = None"
    proof -
      have "dirOk (lk_Dir ?l2)" using wrote_disk [OF w1 ok] by simp
      note persist_ok [OF p [unfolded that] this]
      then show ?thesis by (auto simp: carries_def preparedClaim_def)
    qed
    then show ?thesis using w r 3(2) by (auto split: option.splits)
  qed simp
  then show "wrote l l'" "r = Inr lease \<Longrightarrow> \<not> enteredCleanup (rf_Kind opts) (lk_Claim l) \<and> carries opts l' lease" by blast+
qed

lemma resolveUnderLock_ok:
  assumes run: "resolveUnderLock env opts prepare inspect l = (l', r)" and ok: "dirOk (lk_Dir l)"
    and disk: "lk_Exists l \<longrightarrow> lk_Disk l = Some (lk_Claim l)" and prep: "\<And>l. wrote l (fst (prepare l))"
  shows "wrote l l'" and "observesState (rf_Request opts) \<Longrightarrow> l' = l"
    and "r = Inr lease \<Longrightarrow> lk_Exists l \<and> lk_Claim l = rf_Expected opts \<and> carries opts l' lease
       \<and> sv_Snapshot (lt_Server lease) = Some (lk_Claim l', True)
       \<and> (\<not> observesState (rf_Request opts) \<longrightarrow> \<not> enteredCleanup (rf_Kind opts) (lk_Claim l))"
proof -
  let ?step = "if (case FixedIntent (lk_Claim l) of Some i \<Rightarrow> fi_State i = ''released'' | None \<Rightarrow> False) then resolveTerminalClaim opts
             else if \<not> observesState (rf_Request opts) then prepareResolved env opts prepare
             else inspectResolved inspect"
  obtain l1 r1 where st: "?step l = (l1, r1)" by fastforce
  have step: "wrote l l1" "observesState (rf_Request opts) \<Longrightarrow> l1 = l"
    "r1 = Inr t \<Longrightarrow> lk_Exists l \<Longrightarrow> carries opts l1 t \<and> (\<not> observesState (rf_Request opts) \<longrightarrow> \<not> enteredCleanup (rf_Kind opts) (lk_Claim l))" for t
    using st prepareResolved_ok [OF _ ok prep] disk
    by (auto simp: resolveTerminalClaim_def inspectResolved_def bindR_def requireR_def checkR_def returnR_def carries_def
        split: if_splits option.splits)
  have cases: "(l' = l \<and> \<not> is_ok r) \<or> (l' = l1 \<and> lk_Exists l \<and> lk_Claim l = rf_Expected opts \<and> (\<not> is_ok r \<or>
      (\<exists>t. r1 = Inr t \<and> r = Inr (t\<lparr>lt_Server := SetServerLeaseClaimSnapshot (lt_Server t) (lk_Claim l1) True\<rparr>))))"
    using run st
    by (auto simp: resolveUnderLock_def Let_def bindR_def requireR_def checkR_def split: if_splits option.splits prod.splits sum.splits)
  show "wrote l l'" using cases step(1) by auto
  show "l' = l" if "observesState (rf_Request opts)" using cases step(2) [OF that] by auto
  show "lk_Exists l \<and> lk_Claim l = rf_Expected opts \<and> carries opts l' lease
       \<and> sv_Snapshot (lt_Server lease) = Some (lk_Claim l', True)
       \<and> (\<not> observesState (rf_Request opts) \<longrightarrow> \<not> enteredCleanup (rf_Kind opts) (lk_Claim l))" if "r = Inr lease"
  proof -
    from cases that obtain t where t: "l' = l1" "lk_Exists l" "lk_Claim l = rf_Expected opts" "r1 = Inr t"
      "lease = t\<lparr>lt_Server := SetServerLeaseClaimSnapshot (lt_Server t) (lk_Claim l1) True\<rparr>" by auto
    then show ?thesis using step(3) [OF t(4,2)] by (auto simp: carries_def SetServerLeaseClaimSnapshot_def)
  qed
qed

section \<open>Properties of resolution and recovery\<close>

text \<open>C10: A resolved lease carries the durable claim that authorises it. Resolving for status or release
  changes nothing. Otherwise only the claim file of the lease is written, by the preparation and the
  publication. Success means that the file held the claim the caller expected, that it was not in
  cleanup, that the file now holds an acquired claim with the labels and the host of the returned
  lease, and that the snapshot the lease carries is exactly that claim.\<close>

theorem resolution_carries_durable_claim:
  assumes "ResolveFixedLeaseTarget env opts prepare inspect d = (d', tr, r)" and ok: "dirOk d"
    and prep: "\<And>l. wrote l (fst (prepare l))"
  shows "(observesState (rf_Request opts) \<longrightarrow> d' = d \<and> tr = [])
     \<and> (\<exists>cs. tr = map OnDisk cs \<and> d' = writeAll (LeaseID (rf_Expected opts)) cs d)
     \<and> (\<forall>lease. r = Inr lease \<longrightarrow> claimAt d (LeaseID (rf_Expected opts)) = Some (rf_Expected opts)
          \<and> (\<exists>c. claimAt d' (LeaseID (rf_Expected opts)) = Some c \<and> sv_Snapshot (lt_Server lease) = Some (c, True)
               \<and> (\<not> observesState (rf_Request opts) \<longrightarrow> \<not> enteredCleanup (rf_Kind opts) (rf_Expected opts)
                    \<and> SSHHost c = tg_Host (lt_SSH lease) \<and> Labels c = sv_Labels (lt_Server lease)
                    \<and> (\<forall>i. FixedIntent c = Some i \<longrightarrow> fi_State i = ''acquired''))))"
  using assms(1) unfolding ResolveFixedLeaseTarget_def
proof (cases rule: lock_body)
  case refused
  then show ?thesis by (auto simp: is_ok_iff intro!: exI [of _ "[]"] simp: writeAll_def)
next
  case (ran c ex l)
  let ?i = "LeaseID (rf_Expected opts)"
  let ?l0 = "\<lparr>lk_LeaseID = ?i, lk_Claim = c, lk_Exists = ex, lk_Dir = d, lk_IO = le_IO (rz_Lock env), lk_N = 0, lk_Trace = []\<rparr>"
  have disk: "lk_Exists ?l0 \<longrightarrow> lk_Disk ?l0 = Some (lk_Claim ?l0)"
    using ran(4) read_claim_content by (auto simp: lk_Disk_def claimAt_def claimLook_def)
  have ok0: "dirOk (lk_Dir ?l0)" using ok by simp
  note u = resolveUnderLock_ok [OF ran(1) ok0 disk prep]
  have "\<exists>cs. tr = map OnDisk cs \<and> d' = writeAll ?i cs d" and i: "lk_LeaseID l = ?i"
    using u(1) ran(2,3) by (auto simp: wrote_def)
  moreover have "observesState (rf_Request opts) \<longrightarrow> d' = d \<and> tr = []" using u(2) ran(2,3) by auto
  ultimately show ?thesis using u(3) disk ran(2) i by (auto simp: carries_def lk_Disk_def)
qed

lemma admitted_unchanged_absent:
  assumes "admitted leaseID tx d c exists" and "tx_Guard tx = Some (unchangedLeaseClaimGuard zeroClaim False)"
  shows "map_of d (claimFile leaseID) = None"
  using assms by (auto simp: admitted_def guardPasses_def unchangedLeaseClaimGuard_def readLeaseClaimPathWithPresence_def
      split: if_splits option.splits cfile.splits sum.splits)

text \<open>C11: Recovery never overwrites a claim and restores only a usable one. When
  \<open>PublishFixedRecoveryClaimIfAbsent\<close> changes the claims directory, there was no file for the lease, the
  only new entry is the given claim with a fresh revision, and that claim is an acquired fixed claim of
  the kind, bound to a resource, with a canonical lease ID, a digest as fingerprint, a scope, no
  checkpoint, no failed attempts and a valid journal.\<close>

theorem recovery_publishes_only_absent_bound_claim:
  assumes "tr_Dir (PublishFixedRecoveryClaimIfAbsent k c env d) \<noteq> d"
  shows "\<exists>r i. map_of d (claimFile (LeaseID c)) = None
     \<and> tr_Dir (PublishFixedRecoveryClaimIfAbsent k c env d) = dirPut (claimFile (LeaseID c)) (CClaim (c\<lparr>Revision := r\<rparr>)) d
     \<and> FixedIntent c = Some i \<and> Provider c = fk_ClaimProvider k \<and> fi_State i = ''acquired'' \<and> CloudID c \<noteq> []
     \<and> IsCanonicalLeaseID (LeaseID c) \<and> FixedSHA256 (fi_Fingerprint i) \<and> fi_ProviderScope i \<noteq> []
     \<and> fi_CheckpointID i = [] \<and> fi_FailedAttempts i = [] \<and> validateFixedJournal (Some i) = None"
proof -
  let ?tx = "\<lparr>tx_Guard = Some (unchangedLeaseClaimGuard zeroClaim False), tx_Action = None, tx_Mutate = (\<lambda>_. Inr c),
             tx_Revision = claimRevisionAfterMutation, tx_Directory = claimDirectoryDurableNamespace, tx_Publication = claimPublish\<rparr>"
  have v: "ValidateFixedClaim c (recoveryRules k) = None"
    using assms by (auto simp: PublishFixedRecoveryClaimIfAbsent_def txFail_def split: option.splits)
  then have p: "PublishFixedRecoveryClaimIfAbsent k c env d = transactLeaseClaim (LeaseID c) ?tx env d"
    by (simp add: PublishFixedRecoveryClaimIfAbsent_def)
  from transactLeaseClaim_publishes [OF assms [unfolded p]] obtain c0 ex r' where
    a: "admitted (LeaseID c) ?tx d c0 ex" and t: "tr_Claim (transactLeaseClaim (LeaseID c) ?tx env d) = c\<lparr>Revision := r'\<rparr>"
    and dd: "tr_Dir (transactLeaseClaim (LeaseID c) ?tx env d)
       = dirPut (claimFile (LeaseID c)) (CClaim (tr_Claim (transactLeaseClaim (LeaseID c) ?tx env d))) d"
    by auto
  have "map_of d (claimFile (LeaseID c)) = None" using admitted_unchanged_absent [OF a] by simp
  then show ?thesis using v dd t p
    by (auto simp: ValidateFixedClaim_def recoveryRules_def Let_def IsFixedClaim_def split: if_splits)
qed

subsection \<open>A sample resolution and recovery\<close>

definition resolveSample :: resolveEnv where
  "resolveSample = \<lparr>rz_Lock = sampleLock, rz_CtxErr = (\<lambda>_. None), rz_Now = 5, rz_Authorize = (\<lambda>_ _. None)\<rparr>"

definition resolveOptions :: FixedResolveOptions where
  "resolveOptions = \<lparr>rf_Kind = sampleKind,
     rf_Request = \<lparr>rv_RepoRoot = [], rv_LegacyRoot = [], rv_StatusOnly = False, rv_ReleaseOnly = False, rv_NoLocalStateMutations = False\<rparr>,
     rf_Expected = releaseClaim, rf_Provider = ''aws'', rf_ResourceName = [], rf_TerminalState = [], rf_ValidateTerminal = None\<rparr>"

definition resolvedTarget :: LeaseTarget where
  "resolvedTarget = \<lparr>lt_Server = zeroServer, lt_SSH = zeroTarget\<lparr>tg_Host := ''h''\<rparr>, lt_LeaseID = ''a''\<rparr>"

definition sampleResolve :: "claimsDir \<times> event list \<times> LeaseTarget res" where
  "sampleResolve = ResolveFixedLeaseTarget resolveSample resolveOptions (\<lambda>l. (l, Inr resolvedTarget)) (\<lambda>_. Inl (Fail []))
     [(''a.json'', CClaim releaseClaim)]"

lemma releaseClaim_fields:
  "LeaseID releaseClaim = ''a''" "FixedIntent releaseClaim = Some releaseIntent" "fi_State releaseIntent = ''acquired''"
  "fi_Journal releaseIntent = fi_Journal sampleIntent" "fk_DeletionState sampleKind = []"
  by (simp_all add: releaseClaim_def releaseIntent_def sampleKind_def)

lemma sampleResolve_ok: "\<exists>lease. snd (snd sampleResolve) = Inr lease \<and> lt_SSH lease = lt_SSH resolvedTarget"
proof -
  have rd: "readLeaseClaimPathWithPresence [(''a.json'', CClaim releaseClaim)] ''a.json'' = Inr (releaseClaim, True)"
    using releaseIntent_valid by (simp add: readLeaseClaimPathWithPresence_def decodeLeaseClaim_def releaseClaim_def)
  define l0 where "l0 = \<lparr>lk_LeaseID = ''a'', lk_Claim = releaseClaim, lk_Exists = True, lk_Dir = [(''a.json'', CClaim releaseClaim)],
     lk_IO = sampleIO, lk_N = 0, lk_Trace = []\<rparr>"
  have ec: "\<not> enteredCleanup sampleKind releaseClaim"
    by (simp add: enteredCleanup_def releaseClaim_fields) (simp add: sampleIntent_def)
  have p: "\<exists>l. persist (l0\<lparr>lk_Claim := preparedClaim 5 resolvedTarget releaseClaim\<rparr>) = (l, None)"
    by (auto simp: persist_def l0_def Let_def preparedClaim_def releaseClaim_fields sampleIO_def writeLeaseClaimAtomic_def)
  obtain l where "resolveUnderLock resolveSample resolveOptions (\<lambda>l. (l, Inr resolvedTarget)) (\<lambda>_. Inl (Fail [])) l0
      = (l, Inr (resolvedTarget\<lparr>lt_Server := SetServerLeaseClaimSnapshot (lt_Server resolvedTarget) (lk_Claim l) True\<rparr>))"
    using p ec by (auto simp: resolveUnderLock_def resolveOptions_def resolveSample_def observesState_def prepareResolved_def bindR_run
        l0_def releaseClaim_fields)
  then show ?thesis
    by (auto simp: sampleResolve_def ResolveFixedLeaseTarget_def resolveSample_def resolveOptions_def releaseClaim_fields
        WithDurableLeaseClaimLockContext_def leaseClaimPath_def valid_a sampleLock_def claimFile_def rd validateLeaseClaimFileIdentity_def l0_def)
qed

theorem resolution_carries_durable_claim_witness:
  "\<exists>c lease. claimAt (fst sampleResolve) ''a'' = Some c \<and> SSHHost c = ''h'' \<and> snd (snd sampleResolve) = Inr lease
     \<and> sv_Snapshot (lt_Server lease) = Some (c, True)"
proof -
  obtain lease where l: "snd (snd sampleResolve) = Inr lease" "tg_Host (lt_SSH lease) = ''h''"
    using sampleResolve_ok by (auto simp: resolvedTarget_def)
  obtain d' tr where run: "sampleResolve = (d', tr, Inr lease)" using l(1) by (metis prod.collapse)
  have "dirOk [(''a.json'', CClaim releaseClaim)]" by (simp add: dirOk_def)
  from resolution_carries_durable_claim [OF run [unfolded sampleResolve_def] this]
  have "\<exists>c. claimAt d' ''a'' = Some c \<and> sv_Snapshot (lt_Server lease) = Some (c, True) \<and> SSHHost c = ''h''"
    using l(2) by (auto simp: resolveOptions_def observesState_def releaseClaim_fields)
  then show ?thesis by (subst (1 2) run) auto
qed

definition recoveryClaim :: leaseClaim where
  "recoveryClaim = sampleClaim\<lparr>CloudID := ''i-1'', FixedIntent := Some (sampleIntent\<lparr>fi_State := ''acquired'',
     fi_Fingerprint := replicate 64 CHR ''0'', fi_Slug := ''box''\<rparr>)\<rparr>"

lemma recoveryClaim_valid: "ValidateFixedClaim recoveryClaim (recoveryRules sampleKind) = None"
proof -
  have "validateFixedJournal (FixedIntent recoveryClaim) = None"
    by (simp add: recoveryClaim_def validateFixedJournal_ok validateSessionDiskRetention_ok sampleIntent_def journal_phases_def)
  then show ?thesis
    using pauseOwner_sha pause_words(5)
    by (simp add: ValidateFixedClaim_def recoveryRules_def recoveryClaim_def sampleClaim_def zeroClaim_def IsFixedClaim_def
        sampleKind_def Let_def) (simp add: sampleIntent_def)
qed

theorem recovery_publishes_only_absent_bound_claim_witness:
  "\<exists>r. tr_Dir (PublishFixedRecoveryClaimIfAbsent sampleKind recoveryClaim (quietEnv ''r1'') [])
     = [(''cbx_0123456789ab.json'', CClaim (recoveryClaim\<lparr>Revision := r\<rparr>))]"
proof -
  have f: "LeaseID recoveryClaim = ''cbx_0123456789ab''" by (simp add: recoveryClaim_def sampleClaim_def)
  have vp: "validLeaseClaimPathID ''cbx_0123456789ab''" by (simp add: validLeaseClaimPathID_def pause_words)
  have "tr_Dir (PublishFixedRecoveryClaimIfAbsent sampleKind recoveryClaim (quietEnv ''r1'') []) \<noteq> []"
    by (simp add: PublishFixedRecoveryClaimIfAbsent_def recoveryClaim_valid f transactLeaseClaim_def leaseClaimPath_def quietEnv_def vp
        lockedLeaseClaimTransaction_def readLeaseClaimPathWithPresence_def validateLeaseClaimFileIdentity_def unchangedLeaseClaimGuard_def
        publishLeaseClaim_def refreshLeaseClaimRevision_def writeLeaseClaimAtomic_def claimFile_def Let_def)
  from recovery_publishes_only_absent_bound_claim [OF this] show ?thesis by (auto simp: f claimFile_def)
qed

end
