(* ===== verification/Json.thy ===== *)
theory Json
  imports GoStrings
begin

text \<open>
  The part of Go's \<open>encoding/json\<close> that the runner protocol uses: JSON values, the text that
  \<open>json.Marshal\<close> gives them, and the parser behind \<open>json.Unmarshal\<close> and \<open>json.Decoder\<close>.

  \<^item> Objects keep the order and the duplicates of their members, numbers keep their literal.
  \<^item> Strings are UTF-8 byte strings. \<open>Marshal\<close> escapes the quote, the backslash, control characters,
    \<open>< > &\<close>, U+2028 and U+2029, and replaces invalid bytes by U+FFFD. The parser copies the bytes of a
    string that are not escaped; it is only applied to text that was checked to be valid UTF-8.
  \<^item> The parser recurses on fuel; \<open>jsonParse\<close> gives it one more than the length of the text, which is
    enough because every recursive call consumes a character.
\<close>

section \<open>Values\<close>

datatype json =
    JNull
  | JBool bool
  | JNum string
  | JStr string
  | JArr "json list"
  | JObj "(string \<times> json) list"

section \<open>Printing\<close>

definition utf8_valid :: "string \<Rightarrow> bool" where
  "utf8_valid s \<longleftrightarrow> list_all (\<lambda>(r, bs). \<not> (r = rune_error \<and> length bs = 1)) (chunks s)"

definition encode_rune :: "nat \<Rightarrow> string" where
  "encode_rune r0 =
     (let r = (if (55296 \<le> r0 \<and> r0 \<le> 57343) \<or> 1114111 < r0 then rune_error else r0) in
      map char_of
        (if r < 128 then [r]
         else if r < 2048 then [192 + r div 64, 128 + r mod 64]
         else if r < 65536 then [224 + r div 4096, 128 + r div 64 mod 64, 128 + r mod 64]
         else [240 + r div 262144, 128 + r div 4096 mod 64, 128 + r div 64 mod 64, 128 + r mod 64]))"

definition escapeRune :: "nat \<times> string \<Rightarrow> string" where
  "escapeRune x =
     (case x of (r, bs) \<Rightarrow>
        let esc = (\<lambda>c. [CHR 0x5C, c]) in
        if r = rune_error \<and> length bs = 1 then CHR 0x5C # CHR ''u'' # hex_fixed 4 r
        else if r = 34 then esc (CHR 0x22)
        else if r = 92 then esc (CHR 0x5C)
        else if r = 8 then esc (CHR ''b'')
        else if r = 12 then esc (CHR ''f'')
        else if r = 10 then esc (CHR ''n'')
        else if r = 13 then esc (CHR ''r'')
        else if r = 9 then esc (CHR ''t'')
        else if r < 32 \<or> r = 38 \<or> r = 60 \<or> r = 62 \<or> r = 8232 \<or> r = 8233 then CHR 0x5C # CHR ''u'' # hex_fixed 4 r
        else bs)"

definition jsonString :: "string \<Rightarrow> string" where
  "jsonString s = CHR 0x22 # concat (map escapeRune (chunks s)) @ [CHR 0x22]"

fun joinComma :: "string list \<Rightarrow> string" where
  "joinComma [] = []"
| "joinComma [x] = x"
| "joinComma (x # y # xs) = x @ CHR '','' # joinComma (y # xs)"

fun jsonPrint :: "json \<Rightarrow> string" where
  "jsonPrint JNull = ''null''"
| "jsonPrint (JBool b) = (if b then ''true'' else ''false'')"
| "jsonPrint (JNum t) = t"
| "jsonPrint (JStr s) = jsonString s"
| "jsonPrint (JArr vs) = CHR ''['' # joinComma (map jsonPrint vs) @ '']''"
| "jsonPrint (JObj ms) = CHR ''{'' # joinComma (map (\<lambda>(k, v). jsonString k @ CHR '':'' # jsonPrint v) ms) @ ''}''"

section \<open>Parsing\<close>

definition is_json_space :: "char \<Rightarrow> bool" where
  "is_json_space c \<longleftrightarrow> code c = 32 \<or> code c = 9 \<or> code c = 10 \<or> code c = 13"

definition skipWs :: "string \<Rightarrow> string" where
  "skipWs = dropWhile is_json_space"

definition hexValue :: "char \<Rightarrow> nat option" where
  "hexValue c =
     (if 48 \<le> code c \<and> code c \<le> 57 then Some (code c - 48)
      else if 97 \<le> code c \<and> code c \<le> 102 then Some (code c - 87)
      else if 65 \<le> code c \<and> code c \<le> 70 then Some (code c - 55)
      else None)"

fun parseHex :: "nat \<Rightarrow> nat \<Rightarrow> string \<Rightarrow> (nat \<times> string) option" where
  "parseHex 0 acc s = Some (acc, s)"
| "parseHex (Suc k) acc [] = None"
| "parseHex (Suc k) acc (c # s) = (case hexValue c of Some d \<Rightarrow> parseHex k (16 * acc + d) s | None \<Rightarrow> None)"

text \<open>A surrogate is decoded with the escape after it, if that is its partner, and is U+FFFD otherwise.\<close>

definition parseUnicode :: "string \<Rightarrow> (string \<times> string) option" where
  "parseUnicode s =
     (case parseHex 4 0 s of
        None \<Rightarrow> None
      | Some (u, r) \<Rightarrow>
          if 55296 \<le> u \<and> u \<le> 57343 then
            (case r of
               b # v # r1 \<Rightarrow>
                 (case (if b = CHR 0x5C \<and> v = CHR ''u'' then parseHex 4 0 r1 else None) of
                    Some (w, r2) \<Rightarrow>
                      if u < 56320 \<and> 56320 \<le> w \<and> w \<le> 57343
                      then Some (encode_rune ((u - 55296) * 1024 + (w - 56320) + 65536), r2)
                      else Some (encode_rune rune_error, r)
                  | None \<Rightarrow> Some (encode_rune rune_error, r))
             | _ \<Rightarrow> Some (encode_rune rune_error, r))
          else Some (encode_rune u, r))"

definition parseEscape :: "string \<Rightarrow> (string \<times> string) option" where
  "parseEscape s =
     (case s of
        [] \<Rightarrow> None
      | e # r \<Rightarrow>
          if e = CHR 0x22 \<or> e = CHR 0x5C \<or> e = CHR ''/'' then Some ([e], r)
          else if e = CHR ''b'' then Some ([CHR 0x08], r)
          else if e = CHR ''f'' then Some ([CHR 0x0C], r)
          else if e = CHR ''n'' then Some ([CHR 0x0A], r)
          else if e = CHR ''r'' then Some ([CHR 0x0D], r)
          else if e = CHR ''t'' then Some ([CHR 0x09], r)
          else if e = CHR ''u'' then parseUnicode r
          else None)"

lemma parseHex_length: "parseHex k acc s = Some (n, r) \<Longrightarrow> length r + k = length s"
  by (induction k acc s rule: parseHex.induct) (auto split: option.splits)

lemma parseUnicode_length: "parseUnicode s = Some (t, r) \<Longrightarrow> length r < length s"
  by (fastforce simp: parseUnicode_def split: option.splits if_splits list.splits dest: parseHex_length)

lemma parseEscape_length: "parseEscape s = Some (t, r) \<Longrightarrow> length r < length s"
  by (auto simp: parseEscape_def split: list.splits if_splits dest: parseUnicode_length)

function parseChars :: "string \<Rightarrow> (string \<times> string) option" where
  "parseChars [] = None"
| "parseChars (c # s) =
     (if c = CHR 0x22 then Some ([], s)
      else if c = CHR 0x5C then
        (case parseEscape s of
           None \<Rightarrow> None
         | Some (t, r) \<Rightarrow> (case parseChars r of None \<Rightarrow> None | Some (u, r') \<Rightarrow> Some (t @ u, r')))
      else if code c < 32 then None
      else (case parseChars s of None \<Rightarrow> None | Some (u, r') \<Rightarrow> Some (c # u, r')))"
  by pat_completeness auto
termination
  by (relation "measure length") (auto dest: parseEscape_length)

definition is_digit :: "char \<Rightarrow> bool" where
  "is_digit c \<longleftrightarrow> 48 \<le> code c \<and> code c \<le> 57"

definition spanDigits :: "string \<Rightarrow> (string \<times> string) option" where
  "spanDigits s = (if takeWhile is_digit s = [] then None else Some (takeWhile is_digit s, dropWhile is_digit s))"

definition parseInteger :: "string \<Rightarrow> (string \<times> string) option" where
  "parseInteger s =
     (case s of
        [] \<Rightarrow> None
      | c # r \<Rightarrow> if c = CHR ''0'' then Some ([c], r) else spanDigits s)"

definition parseFraction :: "string \<Rightarrow> (string \<times> string) option" where
  "parseFraction s =
     (case s of
        [] \<Rightarrow> Some ([], [])
      | c # r \<Rightarrow> if c = CHR ''.'' then map_option (\<lambda>(t, u). (c # t, u)) (spanDigits r) else Some ([], s))"

definition parseExponent :: "string \<Rightarrow> (string \<times> string) option" where
  "parseExponent s =
     (case s of
        [] \<Rightarrow> Some ([], [])
      | c # r \<Rightarrow>
          if c = CHR ''e'' \<or> c = CHR ''E'' then
            (case r of
               [] \<Rightarrow> None
             | g # r1 \<Rightarrow>
                 if g = CHR ''+'' \<or> g = CHR ''-'' then map_option (\<lambda>(t, u). (c # g # t, u)) (spanDigits r1)
                 else map_option (\<lambda>(t, u). (c # t, u)) (spanDigits r))
          else Some ([], s))"

definition parseNumber :: "string \<Rightarrow> (string \<times> string) option" where
  "parseNumber s =
     (let (m, s1) = (case s of c # r \<Rightarrow> if c = CHR ''-'' then ([c], r) else ([], s) | [] \<Rightarrow> ([], s)) in
      case parseInteger s1 of
        None \<Rightarrow> None
      | Some (i, s2) \<Rightarrow>
          (case parseFraction s2 of
             None \<Rightarrow> None
           | Some (f, s3) \<Rightarrow>
               (case parseExponent s3 of
                  None \<Rightarrow> None
                | Some (e, s4) \<Rightarrow> Some (m @ i @ f @ e, s4))))"

definition parseLiteral :: "string \<Rightarrow> (json \<times> string) option" where
  "parseLiteral s =
     (if HasPrefix s ''null'' then Some (JNull, drop 4 s)
      else if HasPrefix s ''true'' then Some (JBool True, drop 4 s)
      else if HasPrefix s ''false'' then Some (JBool False, drop 5 s)
      else None)"

fun jvalue :: "nat \<Rightarrow> string \<Rightarrow> (json \<times> string) option"
  and jelems :: "nat \<Rightarrow> string \<Rightarrow> (json list \<times> string) option"
  and jmembers :: "nat \<Rightarrow> string \<Rightarrow> ((string \<times> json) list \<times> string) option" where
  "jvalue 0 s = None"
| "jvalue (Suc n) s =
     (case skipWs s of
        [] \<Rightarrow> None
      | c # r \<Rightarrow>
          if c = CHR ''{'' then
            (if take 1 (skipWs r) = ''}'' then Some (JObj [], tl (skipWs r)) else map_option (\<lambda>(ms, u). (JObj ms, u)) (jmembers n r))
          else if c = CHR ''['' then
            (if take 1 (skipWs r) = '']'' then Some (JArr [], tl (skipWs r)) else map_option (\<lambda>(vs, u). (JArr vs, u)) (jelems n r))
          else if c = CHR 0x22 then map_option (\<lambda>(t, u). (JStr t, u)) (parseChars r)
          else if c = CHR ''-'' \<or> is_digit c then map_option (\<lambda>(t, u). (JNum t, u)) (parseNumber (c # r))
          else parseLiteral (c # r))"
| "jelems 0 s = None"
| "jelems (Suc n) s =
     (case jvalue n s of
        None \<Rightarrow> None
      | Some (v, r) \<Rightarrow>
          (case skipWs r of
             [] \<Rightarrow> None
           | c # u \<Rightarrow>
               if c = CHR '']'' then Some ([v], u)
               else if c = CHR '','' then map_option (\<lambda>(vs, u'). (v # vs, u')) (jelems n u)
               else None))"
| "jmembers 0 s = None"
| "jmembers (Suc n) s =
     (case skipWs s of
        [] \<Rightarrow> None
      | q # r0 \<Rightarrow>
          if q \<noteq> CHR 0x22 then None
          else (case parseChars r0 of
             None \<Rightarrow> None
           | Some (k, r1) \<Rightarrow>
               (case skipWs r1 of
                  [] \<Rightarrow> None
                | d # r2 \<Rightarrow>
                    if d \<noteq> CHR '':'' then None
                    else (case jvalue n r2 of
                       None \<Rightarrow> None
                     | Some (v, r3) \<Rightarrow>
                         (case skipWs r3 of
                            [] \<Rightarrow> None
                          | c # u \<Rightarrow>
                              if c = CHR ''}'' then Some ([(k, v)], u)
                              else if c = CHR '','' then map_option (\<lambda>(ms, u'). ((k, v) # ms, u')) (jmembers n u)
                              else None)))))"

definition jsonParse :: "string \<Rightarrow> json option" where
  "jsonParse s =
     (case jvalue (Suc (length s)) s of
        Some (v, r) \<Rightarrow> if skipWs r = [] then Some v else None
      | None \<Rightarrow> None)"

section \<open>Printed strings are read back\<close>

lemma hexValue_digit: "d < 16 \<Longrightarrow> hexValue (digit_char d) = Some d"
  by (auto simp: hexValue_def digit_char_def code_char_of)

lemma hexValue_hex_fixed_step: "parseHex (Suc k) acc (digit_char (n mod 16) # s) = parseHex k (16 * acc + n mod 16) s"
  by (simp add: hexValue_digit)

lemma parseHex_hex_fixed_aux:
  "n < 16 ^ k \<Longrightarrow> parseHex (k + j) acc (hex_fixed k n @ rest) = parseHex j (16 ^ k * acc + n) rest"
proof (induction k arbitrary: n j acc rest)
  case (Suc k)
  have "n div 16 < 16 ^ k" using Suc.prems by (auto simp: less_mult_imp_div_less mult.commute)
  then have "parseHex (k + Suc j) acc (hex_fixed k (n div 16) @ digit_char (n mod 16) # rest)
      = parseHex (Suc j) (16 ^ k * acc + n div 16) (digit_char (n mod 16) # rest)"
    by (rule Suc.IH)
  moreover have "16 * (16 ^ k * acc + n div 16) + n mod 16 = 16 ^ Suc k * acc + n" by (simp add: algebra_simps)
  ultimately show ?case by (simp only: hexValue_hex_fixed_step hex_fixed.simps append_assoc append.simps add_Suc_shift)
qed simp

lemma parseHex_hex_fixed:
  assumes "n < 65536"
  shows "parseHex 4 0 (hex_fixed 4 n @ rest) = Some (n, rest)"
  using parseHex_hex_fixed_aux [of n 4 0 0 rest] assms by simp

lemma code_less [simp]: "code c < 256"
  by (simp add: code_def)

lemma code_inject: "code c = code d \<longleftrightarrow> c = d"
  by (metis char_of_code)

text \<open>What decoding says of the bytes of a rune.\<close>

definition runeOk :: "nat \<times> string \<Rightarrow> bool" where
  "runeOk x \<longleftrightarrow>
     (case x of (r, bs) \<Rightarrow>
        (r < 128 \<and> bs = [char_of r])
        \<or> (128 \<le> r \<and> r \<noteq> 8232 \<and> r \<noteq> 8233 \<and> (\<forall>c \<in> set bs. 128 \<le> code c))
        \<or> ((r = 8232 \<or> r = 8233) \<and> bs = encode_rune r))"

lemma decode_rune_cases:
  assumes "s \<noteq> []" and "decode_rune (map code s) = (r, w)"
  obtains (ascii) "r = code (s ! 0)" "w = 1" "r < 128"
  | (bad) "r = rune_error" "w = 1"
  | (two) a b where "take w s = [a, b]" "r = (code a - 192) * 64 + (code b - 128)" "194 \<le> code a" "code a \<le> 223" "is_cont (code b)"
  | (three) a b c where "take w s = [a, b, c]" "r = (code a - 224) * 4096 + (code b - 128) * 64 + (code c - 128)"
      "224 \<le> code a" "code a \<le> 239" "is_cont (code b)" "is_cont (code c)" "code a = 224 \<longrightarrow> 160 \<le> code b"
  | (four) a b c d where "take w s = [a, b, c, d]"
      "r = (code a - 240) * 262144 + (code b - 128) * 4096 + (code c - 128) * 64 + (code d - 128)"
      "240 \<le> code a" "code a \<le> 244" "is_cont (code b)" "is_cont (code c)" "is_cont (code d)" "code a = 240 \<longrightarrow> 144 \<le> code b"
proof -
  have t: "take n s = map ((!) s) [0..<n]" if "n \<le> length s" for n
    using that by (auto intro: nth_equalityI)
  have t2: "take 2 s = [s ! 0, s ! 1]" if "2 \<le> length s" using t [OF that] by (simp add: upt_rec)
  have t3: "take 3 s = [s ! 0, s ! 1, s ! 2]" if "3 \<le> length s" using t [OF that] by (simp add: upt_rec eval_nat_numeral)
  have t4: "take 4 s = [s ! 0, s ! 1, s ! 2, s ! 3]" if "4 \<le> length s" using t [OF that] by (simp add: upt_rec eval_nat_numeral)
  show thesis
    using assms t2 t3 t4 that unfolding decode_rune_def Let_def
    by (auto split: if_splits)
qed

lemma separator_digits:
  fixes i j k :: nat
  assumes "j \<le> 63" "k \<le> 63" "i * 4096 + j * 64 + k = 8232 + e" "e \<le> 1"
  shows "i = 2 \<and> j = 0 \<and> k = 40 + e"
proof -
  have "i * 4096 \<le> 8233" "8232 \<le> i * 4096 + 4095" using assms by linarith+
  then have "i = 2" by linarith
  then have "j * 64 + k = 40 + e" using assms(3) by linarith
  then have "j = 0" using assms by (cases j) simp_all
  then show ?thesis using \<open>i = 2\<close> \<open>j * 64 + k = 40 + e\<close> by simp
qed

lemma separator_bytes:
  assumes "224 \<le> code a" "is_cont (code b)" "is_cont (code c)"
    and "(code a - 224) * 4096 + (code b - 128) * 64 + (code c - 128) = 8232 + e" "e \<le> 1"
  shows "[a, b, c] = encode_rune (8232 + e)"
proof -
  have "code a - 224 = 2 \<and> code b - 128 = 0 \<and> code c - 128 = 40 + e"
    using assms by (intro separator_digits) (auto simp: is_cont_def)
  then have "code a = 226" "code b = 128" "code c = 168 + e" using assms by (auto simp: is_cont_def)
  then have "a = char_of (226::nat)" "b = char_of (128::nat)" "c = char_of (168 + e)" by (metis char_of_code)+
  moreover have "e = 0 \<or> e = 1" using assms by linarith
  ultimately show ?thesis by (elim disjE) (simp_all add: encode_rune_def)
qed

lemma runeOk_decode:
  assumes "s \<noteq> []" and "decode_rune (map code s) = (r, w)" and valid: "\<not> (r = rune_error \<and> w = 1)"
  shows "runeOk (r, take w s)"
  using assms(1,2)
proof (cases rule: decode_rune_cases)
  case ascii
  then show ?thesis using assms(1) by (cases s) (simp_all add: runeOk_def)
next
  case bad
  then show ?thesis using valid by simp
next
  case (two a b)
  then have "128 \<le> r" "r < 2048" by (auto simp: is_cont_def)
  then show ?thesis using two by (auto simp: runeOk_def is_cont_def)
next
  case (three a b c)
  have "128 \<le> r"
  proof (cases "code a = 224")
    case True
    then show ?thesis using three by simp
  next
    case False
    then have "1 \<le> code a - 224" using three by simp
    then show ?thesis using three(2) by linarith
  qed
  show ?thesis
  proof (cases "r = 8232 \<or> r = 8233")
    case True
    then obtain e where "r = 8232 + e" "e \<le> 1" using that [of 0] that [of 1] by auto
    then have "[a, b, c] = encode_rune r" using three separator_bytes [of a b c e] by simp
    then show ?thesis using True three(1) by (simp add: runeOk_def)
  next
    case False
    then show ?thesis using three \<open>128 \<le> r\<close> by (simp add: runeOk_def is_cont_def)
  qed
next
  case (four a b c d)
  have "65536 \<le> r"
  proof (cases "code a = 240")
    case True
    then show ?thesis using four by simp
  next
    case False
    then have "1 \<le> code a - 240" using four by simp
    then show ?thesis using four(2) by linarith
  qed
  then show ?thesis using four by (simp add: runeOk_def is_cont_def)
qed

lemma chunks_ok: "utf8_valid s \<Longrightarrow> x \<in> set (chunks s) \<Longrightarrow> runeOk x \<and> \<not> (fst x = rune_error \<and> length (snd x) = 1)"
proof (induction s rule: chunks.induct)
  case (1 s)
  show ?case
  proof (cases "s = []")
    case True
    with 1 show ?thesis by simp
  next
    case False
    obtain r w where d: "decode_rune (map code s) = (r, w)" by fastforce
    have c: "chunks s = (r, take w s) # chunks (drop w s)" using False d by (subst chunks.simps) simp
    have valid: "\<not> (r = rune_error \<and> length (take w s) = 1)" "utf8_valid (drop w s)"
      using 1(2) c by (simp_all add: utf8_valid_def)
    have "\<not> (r = rune_error \<and> w = 1)" using valid(1) False by (cases s) auto
    then have "runeOk (r, take w s)" using False d by (intro runeOk_decode) auto
    then show ?thesis using 1 c valid False d by auto
  qed
qed

lemma parseChars_plain: "\<forall>c \<in> set bs. 128 \<le> code c \<Longrightarrow>
    parseChars (bs @ rest) = map_option (\<lambda>(u, r). (bs @ u, r)) (parseChars rest)"
proof (induction bs)
  case Nil
  then show ?case by (simp add: option.map_ident)
next
  case (Cons c bs)
  then have "c \<noteq> CHR 0x22" "c \<noteq> CHR 0x5C" "\<not> code c < 32" by (auto simp: code_def)
  then show ?case using Cons by (cases "parseChars rest") auto
qed

lemma char_of_escaped:
  "char_of (34::nat) = CHR 0x22" "char_of (92::nat) = CHR 0x5C" "char_of (8::nat) = CHR 0x08" "char_of (12::nat) = CHR 0x0C"
  "char_of (10::nat) = CHR 0x0A" "char_of (13::nat) = CHR 0x0D" "char_of (9::nat) = CHR 0x09"
  by code_simp+

lemma parseChars_escape:
  assumes "runeOk x" and "\<not> (fst x = rune_error \<and> length (snd x) = 1)"
  shows "parseChars (escapeRune x @ rest) = map_option (\<lambda>(u, r). (snd x @ u, r)) (parseChars rest)"
proof -
  obtain r bs where x: "x = (r, bs)" by fastforce
  have step: "parseChars (CHR 0x5C # s @ rest) = map_option (\<lambda>(u, r). (t @ u, r)) (parseChars rest)"
    if "parseEscape (s @ rest) = Some (t, rest)" for s t
    using that by (cases "parseChars rest") auto
  have uni: "parseEscape ((CHR ''u'' # hex_fixed 4 n) @ rest) = Some (encode_rune n, rest)"
    if "n < 65536" "\<not> (55296 \<le> n \<and> n \<le> 57343)" for n
    using that parseHex_hex_fixed [of n rest] by (auto simp: parseEscape_def parseUnicode_def)
  have asc: "encode_rune n = [char_of n]" if "n < 128" for n using that by (simp add: encode_rune_def)
  show ?thesis
  proof (cases "r < 32 \<or> r = 34 \<or> r = 92 \<or> r = 38 \<or> r = 60 \<or> r = 62 \<or> r = 8232 \<or> r = 8233")
    case False
    then have e: "escapeRune x = bs" using assms x by (auto simp: escapeRune_def)
    show ?thesis
    proof (cases "r < 128")
      case True
      then have bs: "bs = [char_of r]" using assms x by (auto simp: runeOk_def)
      have "code (char_of r) = r" using True by (simp add: code_char_of)
      moreover have "code (CHR 0x22) = 34" "code (CHR 0x5C) = 92" by (simp_all add: code_def)
      ultimately have "char_of r \<noteq> CHR 0x22" "char_of r \<noteq> CHR 0x5C" "\<not> code (char_of r) < 32"
        using False by metis+
      then show ?thesis using e bs x by (cases "parseChars rest") auto
    next
      case ge: False
      then have "\<forall>c \<in> set bs. 128 \<le> code c" using assms x False by (auto simp: runeOk_def)
      then show ?thesis using e x by (simp add: parseChars_plain)
    qed
  next
    case True
    have bs: "bs = encode_rune r" using True assms(1) x asc [of r] by (auto simp: runeOk_def)
    have valid: "\<not> (r = rune_error \<and> length bs = 1)" using assms(2) x by simp
    show ?thesis
    proof (cases "r = 34 \<or> r = 92 \<or> r = 8 \<or> r = 12 \<or> r = 10 \<or> r = 13 \<or> r = 9")
      case True
      then obtain c where "escapeRune x = CHR 0x5C # [c]" "parseEscape ([c] @ rest) = Some ([char_of r], rest)"
        using valid x by (elim disjE) (auto simp: escapeRune_def parseEscape_def rune_error_def char_of_escaped)
      then show ?thesis using step [of "[c]" "[char_of r]"] asc [of r] True bs x by auto
    next
      case False
      then have "escapeRune x = CHR 0x5C # (CHR ''u'' # hex_fixed 4 r)" using True valid x by (auto simp: escapeRune_def Let_def)
      moreover have "parseEscape ((CHR ''u'' # hex_fixed 4 r) @ rest) = Some (bs, rest)" using True bs by (subst uni) auto
      ultimately show ?thesis using step [of "CHR ''u'' # hex_fixed 4 r" bs] x by simp
    qed
  qed
qed

lemma parseChars_print:
  assumes "utf8_valid s"
  shows "parseChars (concat (map escapeRune (chunks s)) @ CHR 0x22 # rest) = Some (s, rest)"
proof -
  have "\<forall>x \<in> set xs. runeOk x \<and> \<not> (fst x = rune_error \<and> length (snd x) = 1) \<Longrightarrow>
      parseChars (concat (map escapeRune xs) @ CHR 0x22 # rest) = Some (concat (map snd xs), rest)" for xs
  proof (induction xs)
    case (Cons x xs)
    then show ?case by (simp add: parseChars_escape)
  qed simp
  from this [of "chunks s"] show ?thesis using chunks_ok [OF assms] chunks_concat [of s] by auto
qed

section \<open>Printed values are read back\<close>

lemma skipWs_hd: "\<not> is_json_space c \<Longrightarrow> skipWs (c # s) = c # s"
  by (simp add: skipWs_def)

text \<open>What stands after a value in a printed text: nothing, a comma or a closing bracket.\<close>

definition delimited :: "string \<Rightarrow> bool" where
  "delimited s \<longleftrightarrow> s = [] \<or> hd s = CHR '','' \<or> hd s = CHR '']'' \<or> hd s = CHR ''}''"

lemma delimited_simps [simp]:
  "delimited []" "delimited (CHR '','' # s)" "delimited (CHR '']'' # s)" "delimited (CHR ''}'' # s)"
  by (simp_all add: delimited_def)

lemma delimiter_codes [simp]:
  "\<not> is_digit (CHR '','')" "\<not> is_digit (CHR '']'')" "\<not> is_digit (CHR ''}'')"
  by (simp_all add: is_digit_def code_def)

text \<open>The numbers the protocol writes are decimal naturals.\<close>

definition natLiteral :: "string \<Rightarrow> bool" where
  "natLiteral t \<longleftrightarrow> t \<noteq> [] \<and> list_all is_digit t \<and> (hd t = CHR ''0'' \<longrightarrow> t = ''0'')"

lemma parseNumber_natLiteral:
  assumes "natLiteral t" and "delimited rest"
  shows "parseNumber (t @ rest) = Some (t, rest)"
proof -
  obtain c u where t: "t = c # u" using assms by (cases t) (auto simp: natLiteral_def)
  have all: "list_all is_digit (c # u)" using assms t by (simp add: natLiteral_def)
  have stop: "takeWhile is_digit rest = []" "dropWhile is_digit rest = rest"
    using assms(2) by (cases rest; auto simp: delimited_def)+
  have c: "c \<noteq> CHR ''-''" using all by (auto simp: is_digit_def code_def)
  have i: "parseInteger (t @ rest) = Some (t, rest)"
  proof (cases "c = CHR ''0''")
    case True
    then show ?thesis using assms t by (auto simp: parseInteger_def natLiteral_def)
  next
    case False
    have "takeWhile is_digit (t @ rest) = t" "dropWhile is_digit (t @ rest) = rest"
      using all t stop by (simp_all add: takeWhile_append2 dropWhile_append2 list_all_iff)
    then show ?thesis using False t by (simp add: parseInteger_def spanDigits_def)
  qed
  have "parseFraction rest = Some ([], rest)" "parseExponent rest = Some ([], rest)"
    using assms(2) by (cases rest; auto simp: delimited_def parseFraction_def parseExponent_def)+
  then show ?thesis using i c t by (simp add: parseNumber_def)
qed

fun wfJson :: "json \<Rightarrow> bool" where
  "wfJson JNull = True"
| "wfJson (JBool b) = True"
| "wfJson (JNum t) = natLiteral t"
| "wfJson (JStr s) = utf8_valid s"
| "wfJson (JArr vs) = list_all wfJson vs"
| "wfJson (JObj ms) = list_all (\<lambda>(k, v). utf8_valid k \<and> wfJson v) ms"

lemma head_codes [simp]:
  "\<not> is_json_space (CHR ''{'')" "\<not> is_json_space (CHR ''['')" "\<not> is_json_space (CHR 0x22)" "\<not> is_json_space (CHR '','')"
  "\<not> is_json_space (CHR '']'')" "\<not> is_json_space (CHR ''}'')" "\<not> is_json_space (CHR '':'')" "\<not> is_json_space (CHR ''n'')"
  "\<not> is_json_space (CHR ''t'')" "\<not> is_json_space (CHR ''f'')"
  "\<not> is_digit (CHR ''n'')" "\<not> is_digit (CHR ''t'')" "\<not> is_digit (CHR ''f'')"
  by (simp_all add: is_json_space_def is_digit_def code_def)

lemma jvalue_number:
  assumes "natLiteral t" and "delimited rest"
  shows "jvalue (Suc n) (t @ rest) = Some (JNum t, rest)"
proof -
  obtain c u where t: "t = c # u" using assms by (cases t) (auto simp: natLiteral_def)
  have d: "is_digit c" using assms t by (simp add: natLiteral_def)
  then have "\<not> is_json_space c" "c \<noteq> CHR ''{''" "c \<noteq> CHR ''[''" "c \<noteq> CHR 0x22"
    by (auto simp: is_digit_def is_json_space_def code_def)
  then show ?thesis using parseNumber_natLiteral [OF assms] t d by (simp add: skipWs_hd)
qed

lemma jvalue_string:
  assumes "utf8_valid s"
  shows "jvalue (Suc n) (jsonString s @ rest) = Some (JStr s, rest)"
  using parseChars_print [OF assms, of rest] by (simp add: jsonString_def skipWs_hd)

lemma jsonPrint_head:
  assumes "wfJson v"
  obtains c u where "jsonPrint v = c # u" "\<not> is_json_space c" "c \<noteq> CHR '']''"
proof (cases v)
  case (JNum t)
  then obtain c u where "t = c # u" using assms by (cases t) (auto simp: natLiteral_def)
  moreover from this have "is_digit c" using assms JNum by (simp add: natLiteral_def)
  moreover from this have "c \<noteq> CHR '']''" "\<not> is_json_space c" by (auto simp: is_digit_def is_json_space_def code_def)
  ultimately show thesis using JNum that [of c u] by simp
next
  case (JStr s)
  then show thesis using that [of "CHR 0x22"] by (simp add: jsonString_def)
next
  case (JBool b)
  then show thesis using that by (cases b) auto
qed (use that in auto)

text \<open>Elements and members, given that each value is read back by the fuel at hand.\<close>

lemma jelems_print:
  assumes "vs \<noteq> []"
    and "\<And>v rest n. v \<in> set vs \<Longrightarrow> delimited rest \<Longrightarrow> m \<le> n \<Longrightarrow> jvalue n (jsonPrint v @ rest) = Some (v, rest)"
    and "m + length vs \<le> n"
  shows "jelems n (joinComma (map jsonPrint vs) @ CHR '']'' # rest) = Some (vs, rest)"
  using assms
proof (induction vs arbitrary: n)
  case (Cons v vs)
  obtain k where n: "n = Suc k" "m + length vs \<le> k" using Cons.prems(3) by (cases n) auto
  show ?case
  proof (cases vs)
    case Nil
    then show ?thesis using Cons.prems(2) [of v "CHR '']'' # rest" k] n by (simp add: skipWs_hd)
  next
    case (Cons w ws)
    have "jelems k (joinComma (map jsonPrint vs) @ CHR '']'' # rest) = Some (vs, rest)"
      using Cons Cons.prems n by (intro Cons.IH) auto
    then show ?thesis using Cons.prems(2) [of v] n Cons by (simp add: skipWs_hd)
  qed
qed simp

lemma jmembers_print:
  assumes "ms \<noteq> []"
    and "\<And>k v rest n. (k, v) \<in> set ms \<Longrightarrow> utf8_valid k \<and> (delimited rest \<longrightarrow> m \<le> n \<longrightarrow> jvalue n (jsonPrint v @ rest) = Some (v, rest))"
    and "m + length ms \<le> n"
  shows "jmembers n (joinComma (map (\<lambda>(k, v). jsonString k @ CHR '':'' # jsonPrint v) ms) @ CHR ''}'' # rest) = Some (ms, rest)"
  using assms
proof (induction ms arbitrary: n)
  case (Cons x ms)
  obtain key v where x: "x = (key, v)" by fastforce
  obtain k where n: "n = Suc k" "m + length ms \<le> k" using Cons.prems(3) by (cases n) auto
  have key: "utf8_valid key" and v: "delimited r \<Longrightarrow> jvalue k (jsonPrint v @ r) = Some (v, r)" for r
    using Cons.prems(2) [of key v] n x by auto
  note p = parseChars_print [OF key]
  show ?case
  proof (cases ms)
    case Nil
    then show ?thesis using v n x p by (simp add: skipWs_hd jsonString_def)
  next
    case (Cons w ws)
    have "jmembers k (joinComma (map (\<lambda>(k, v). jsonString k @ CHR '':'' # jsonPrint v) ms) @ CHR ''}'' # rest) = Some (ms, rest)"
      using Cons Cons.prems n by (intro Cons.IH) auto
    then show ?thesis using v n x p Cons by (simp add: skipWs_hd jsonString_def)
  qed
qed simp

lemma joinComma_count: "length xs \<le> length (joinComma xs) + 1"
  by (induction xs rule: joinComma.induct) auto

lemma joinComma_length: "x \<in> set xs \<Longrightarrow> length x + length xs \<le> length (joinComma xs) + 1"
proof (induction xs rule: joinComma.induct)
  case (3 y z xs)
  then show ?case using joinComma_count [of "z # xs"] by (cases "x = y") auto
qed auto

lemma joinComma_head: "xs \<noteq> [] \<Longrightarrow> hd xs = c # u \<Longrightarrow> \<exists>w. joinComma xs = c # w"
  by (cases xs rule: joinComma.cases) auto

theorem jvalue_print:
  "wfJson v \<Longrightarrow> delimited rest \<Longrightarrow> length (jsonPrint v) < n \<Longrightarrow> jvalue n (jsonPrint v @ rest) = Some (v, rest)"
proof (induction v arbitrary: rest n)
  case JNull
  then show ?case by (cases n) (simp_all add: skipWs_hd parseLiteral_def HasPrefix_def)
next
  case (JBool b)
  then show ?case by (cases n; cases b) (simp_all add: skipWs_hd parseLiteral_def HasPrefix_def)
next
  case (JNum t)
  then show ?case by (cases n) (simp_all add: jvalue_number del: jvalue.simps(2))
next
  case (JStr s)
  then show ?case by (cases n) (simp_all add: jvalue_string del: jvalue.simps(2))
next
  case (JArr vs)
  then obtain k where n: "n = Suc k" "length (joinComma (map jsonPrint vs)) + 2 \<le> k" by (cases n) auto
  show ?case
  proof (cases vs)
    case Nil
    then show ?thesis using n by (simp add: skipWs_hd)
  next
    case (Cons w ws)
    let ?t = "joinComma (map jsonPrint vs)"
    have "wfJson w" using JArr.prems Cons by simp
    then obtain c u where "jsonPrint w = c # u" "\<not> is_json_space c" "c \<noteq> CHR '']''" by (rule jsonPrint_head)
    then obtain t where t: "?t = c # t" "\<not> is_json_space c" "c \<noteq> CHR '']''"
      using joinComma_head [of "map jsonPrint vs" c u] Cons by auto
    have "jelems k (?t @ CHR '']'' # rest) = Some (vs, rest)"
    proof (rule jelems_print [where m = "length ?t + 2 - length vs"])
      fix v r n assume v: "v \<in> set vs" "delimited r" "length ?t + 2 - length vs \<le> n"
      have "length (jsonPrint v) + length vs \<le> length ?t + 1"
        using joinComma_length [of "jsonPrint v" "map jsonPrint vs"] v by simp
      then show "jvalue n (jsonPrint v @ r) = Some (v, r)"
        using v JArr.prems by (intro JArr.IH) (auto simp: list_all_iff)
    next
      have "length vs \<le> length ?t + 1" using joinComma_count [of "map jsonPrint vs"] by simp
      then show "length ?t + 2 - length vs + length vs \<le> k" using n by simp
    qed (use Cons in simp)
    then show ?thesis using n t by (simp add: skipWs_hd)
  qed
next
  case (JObj ms)
  let ?f = "\<lambda>(k, v). jsonString k @ CHR '':'' # jsonPrint v"
  let ?t = "joinComma (map ?f ms)"
  from JObj obtain k where n: "n = Suc k" "length ?t + 2 \<le> k" by (cases n) auto
  show ?case
  proof (cases ms)
    case Nil
    then show ?thesis using n by (simp add: skipWs_hd)
  next
    case (Cons w ws)
    have "?f w = CHR 0x22 # tl (?f w)" by (simp add: jsonString_def split: prod.splits)
    then obtain t where t: "?t = CHR 0x22 # t"
      using joinComma_head [of "map ?f ms" "CHR 0x22" "tl (?f w)"] Cons by auto
    have "jmembers k (?t @ CHR ''}'' # rest) = Some (ms, rest)"
    proof (rule jmembers_print [where m = "length ?t + 2 - length ms"], goal_cases)
      case (2 key v r n)
      have "length (?f (key, v)) + length ms \<le> length ?t + 1"
        using joinComma_length [of "?f (key, v)" "map ?f ms"] 2 by force
      moreover have "length (jsonPrint v) \<le> length (?f (key, v))" by simp
      ultimately show ?case
        using 2 JObj.prems by (auto simp: list_all_iff intro!: JObj.IH)
    next
      case 3
      have "length ms \<le> length ?t + 1" using joinComma_count [of "map ?f ms"] by simp
      then show ?case using n by simp
    qed (use Cons in simp)
    then show ?thesis using n t by (simp add: skipWs_hd)
  qed
qed

lemma jsonParse_print: "wfJson v \<Longrightarrow> jsonParse (jsonPrint v) = Some v"
  using jvalue_print [of v "[]" "Suc (length (jsonPrint v))"] by (simp add: jsonParse_def skipWs_def del: jvalue.simps)

section \<open>Printed values are UTF-8\<close>

lemma decode_rune_cong:
  assumes "decode_rune bs = (r, w)" "\<not> (r = rune_error \<and> w = 1)" "bs \<noteq> []"
    and "\<And>i. i < w \<Longrightarrow> ys ! i = bs ! i" "w \<le> length ys"
  shows "w \<le> length bs \<and> decode_rune ys = (r, w)"
proof -
  consider "bs ! 0 < 128" | "194 \<le> bs ! 0" "bs ! 0 \<le> 223" | "224 \<le> bs ! 0" "bs ! 0 \<le> 239" | "240 \<le> bs ! 0" "bs ! 0 \<le> 244"
    using assms(1,2) by (fastforce simp: decode_rune_def Let_def)
  then show ?thesis
  proof cases
    case 1
    then have "w = 1" "r = bs ! 0" using assms(1) by (simp_all add: decode_rune_def)
    then show ?thesis using assms(3,4) 1 by (simp add: decode_rune_def Suc_le_eq)
  next
    case 2
    then have d: "w = 2" "r = (bs ! 0 - 192) * 64 + (bs ! 1 - 128)" "2 \<le> length bs" "is_cont (bs ! 1)"
      using assms(1,2) by (auto simp: decode_rune_def Let_def split: if_splits)
    then show ?thesis using assms(4) [of 0] assms(4) [of 1] assms(5) 2 by (simp add: decode_rune_def)
  next
    case 3
    then have d: "w = 3" "r = (bs ! 0 - 224) * 4096 + (bs ! 1 - 128) * 64 + (bs ! 2 - 128)" "3 \<le> length bs"
      "is_cont (bs ! 1) \<and> (bs ! 0 = 224 \<longrightarrow> 160 \<le> bs ! 1) \<and> (bs ! 0 = 237 \<longrightarrow> bs ! 1 \<le> 159) \<and> is_cont (bs ! 2)"
      using assms(1,2) by (auto simp: decode_rune_def Let_def split: if_splits)
    then show ?thesis using assms(4) [of 0] assms(4) [of 1] assms(4) [of 2] assms(5) 3 by (simp add: decode_rune_def)
  next
    case 4
    then have d: "w = 4" "r = (bs ! 0 - 240) * 262144 + (bs ! 1 - 128) * 4096 + (bs ! 2 - 128) * 64 + (bs ! 3 - 128)" "4 \<le> length bs"
      "is_cont (bs ! 1) \<and> (bs ! 0 = 240 \<longrightarrow> 144 \<le> bs ! 1) \<and> (bs ! 0 = 244 \<longrightarrow> bs ! 1 \<le> 143) \<and> is_cont (bs ! 2) \<and> is_cont (bs ! 3)"
      using assms(1,2) by (auto simp: decode_rune_def Let_def split: if_splits)
    then show ?thesis using assms(4) [of 0] assms(4) [of 1] assms(4) [of 2] assms(4) [of 3] assms(5) 4 by (simp add: decode_rune_def)
  qed
qed

lemma decode_rune_ext:
  assumes "bs \<noteq> []" "decode_rune bs = (r, w)" "\<not> (r = rune_error \<and> w = 1)"
  shows "w \<le> length bs" "decode_rune (take w bs @ cs) = (r, w)"
proof -
  show w: "w \<le> length bs" using decode_rune_cong [OF assms(2,3,1), of "map ((!) bs) [0..<w]"] by simp
  show "decode_rune (take w bs @ cs) = (r, w)"
    using decode_rune_cong [OF assms(2,3,1), of "take w bs @ cs"] w by (simp add: nth_append)
qed

lemma chunks_Cons:
  assumes "s \<noteq> []" "decode_rune (map code s) = (r, w)"
  shows "chunks s = (r, take w s) # chunks (drop w s)"
  using assms by (subst chunks.simps) simp

lemma utf8_valid_Nil [simp]: "utf8_valid []"
  by (subst utf8_valid_def, subst chunks.simps) simp

lemma utf8_valid_append: "utf8_valid a \<Longrightarrow> utf8_valid b \<Longrightarrow> utf8_valid (a @ b)"
proof (induction a rule: chunks.induct)
  case (1 s)
  show ?case
  proof (cases "s = []")
    case False
    obtain r w where d: "decode_rune (map code s) = (r, w)" by fastforce
    have valid: "\<not> (r = rune_error \<and> length (take w s) = 1)" "utf8_valid (drop w s)"
      using 1(2) chunks_Cons [OF False d] by (simp_all add: utf8_valid_def)
    have v: "\<not> (r = rune_error \<and> w = 1)" using valid(1) False by (cases s) auto
    have w: "w \<le> length s" "decode_rune (map code (s @ b)) = (r, w)"
      using decode_rune_ext(1) [OF _ d v] decode_rune_ext(2) [OF _ d v, of "drop w (map code s) @ map code b"] False
      by (auto simp flip: append_assoc)
    have "utf8_valid (drop w (s @ b))" using 1(1) [OF False d [symmetric]] valid(2) 1(3) w(1) by simp
    then show ?thesis using chunks_Cons [OF _ w(2)] False w(1) valid(1) by (simp add: utf8_valid_def)
  qed (use 1 in simp)
qed

lemma utf8_valid_chunk: "utf8_valid s \<Longrightarrow> (r, bs) \<in> set (chunks s) \<Longrightarrow> utf8_valid bs"
proof (induction s rule: chunks.induct)
  case (1 s)
  show ?case
  proof (cases "s = []")
    case True
    then show ?thesis using 1 by (simp add: chunks.simps)
  next
    case False
    obtain r' w where d: "decode_rune (map code s) = (r', w)" by fastforce
    note c = chunks_Cons [OF False d]
    have valid: "\<not> (r' = rune_error \<and> length (take w s) = 1)" "utf8_valid (drop w s)"
      using 1(2) c by (simp_all add: utf8_valid_def)
    have v: "\<not> (r' = rune_error \<and> w = 1)" using valid(1) False by (cases s) auto
    have w: "w \<le> length s" "decode_rune (map code (take w s)) = (r', w)" "0 < w"
      using decode_rune_ext(1) [OF _ d v] decode_rune_ext(2) [OF _ d v, of "[]"] False decode_rune_width [of "map code s"] d by (auto simp: take_map)
    have "take w s \<noteq> []" using w False by auto
    then have "utf8_valid (take w s)" using chunks_Cons [OF _ w(2)] valid(1) by (simp add: utf8_valid_def chunks.simps)
    then show ?thesis using 1 c valid(2) False d by auto
  qed
qed

lemma utf8_valid_ascii: "is_ascii s \<Longrightarrow> utf8_valid s"
  by (auto simp: utf8_valid_def chunks_ascii list_all_iff is_ascii_def rune_error_def)

lemma utf8_valid_Cons: "code c < 128 \<Longrightarrow> utf8_valid s \<Longrightarrow> utf8_valid (c # s)"
  using utf8_valid_append [of "[c]" s] utf8_valid_ascii [of "[c]"] by (simp add: is_ascii_def)

lemma is_ascii_hex_fixed: "is_ascii (hex_fixed k n)"
  by (auto simp: is_ascii_def intro: is_lower_alnum_ascii hex_fixed_alnum)

lemma utf8_valid_escape: "utf8_valid s \<Longrightarrow> x \<in> set (chunks s) \<Longrightarrow> utf8_valid (escapeRune x)"
  using utf8_valid_chunk [of s "fst x" "snd x"] is_ascii_hex_fixed [of 4 "fst x"]
  by (cases x) (auto simp: escapeRune_def Let_def code_def intro!: utf8_valid_ascii)

lemma utf8_valid_concat: "\<forall>x \<in> set xs. utf8_valid x \<Longrightarrow> utf8_valid (concat xs)"
  by (induction xs) (auto intro: utf8_valid_append)

lemma utf8_valid_jsonString: "utf8_valid s \<Longrightarrow> utf8_valid (jsonString s)"
  unfolding jsonString_def
  by (auto simp: code_def intro!: utf8_valid_Cons utf8_valid_append utf8_valid_concat utf8_valid_escape)

lemma utf8_valid_joinComma: "\<forall>x \<in> set xs. utf8_valid x \<Longrightarrow> utf8_valid (joinComma xs)"
  by (induction xs rule: joinComma.induct) (auto simp: code_def intro!: utf8_valid_Cons utf8_valid_append)

lemma natLiteral_ascii: "natLiteral t \<Longrightarrow> is_ascii t"
  by (auto simp: natLiteral_def is_ascii_def list_all_iff is_digit_def)

lemma utf8_valid_print: "wfJson v \<Longrightarrow> utf8_valid (jsonPrint v)"
proof (induction v)
  case (JNum t)
  then show ?case by (auto intro: utf8_valid_ascii natLiteral_ascii)
next
  case (JArr vs)
  then show ?case by (auto simp: code_def list_all_iff intro!: utf8_valid_Cons utf8_valid_append utf8_valid_joinComma)
next
  case (JObj ms)
  then show ?case
    by (fastforce simp: code_def list_all_iff intro!: utf8_valid_Cons utf8_valid_append utf8_valid_joinComma utf8_valid_jsonString)
qed (auto simp: code_def is_ascii_def intro!: utf8_valid_ascii utf8_valid_jsonString)

section \<open>Strings that need no escape\<close>

definition plainText :: "string \<Rightarrow> bool" where
  "plainText s \<longleftrightarrow> list_all (\<lambda>c. 32 \<le> code c \<and> code c < 128 \<and> code c \<notin> {34, 38, 60, 62, 92}) s"

lemma plainText_simps [simp]: "plainText []"
  "plainText (c # s) \<longleftrightarrow> 32 \<le> code c \<and> code c < 128 \<and> code c \<notin> {34, 38, 60, 62, 92} \<and> plainText s"
  by (simp_all add: plainText_def)

lemma plainText_ascii: "plainText s \<Longrightarrow> is_ascii s"
  by (auto simp: plainText_def is_ascii_def list_all_iff)

lemma jsonString_plain: "plainText s \<Longrightarrow> jsonString s = CHR 0x22 # s @ [CHR 0x22]"
proof -
  assume p: "plainText s"
  have "concat (map escapeRune (map (\<lambda>c. (code c, [c])) s)) = s"
    using p by (induction s) (auto simp: escapeRune_def rune_error_def Let_def)
  then show ?thesis using p by (simp add: jsonString_def chunks_ascii plainText_ascii)
qed

end
