(* ===== verification/GoReaders.thy ===== *)
theory GoReaders
  imports Prelude GoStrings
begin

text \<open>
  The \<open>io.Reader\<close> and \<open>io.Writer\<close> values of the runner protocol.

  \<^item> A \<open>stream\<close> is an underlying transport: the bytes it will still deliver, where it cuts them into
    reads, the error that ends it (\<open>io.EOF\<close>, or the cause a pipe was closed with), and whether that
    error comes with the last bytes or in a read of its own.
  \<^item> A \<open>sink\<close> is an \<open>io.Writer\<close>: what was written, how many bytes it still accepts (\<open>None\<close> is no
    bound), and whether a write beyond that reports an error or only a short count.
  \<^item> \<open>ReadFull\<close> and \<open>ReadAll\<close> are \<open>io.ReadFull\<close> and \<open>io.ReadAll\<close> over any \<open>Read\<close> method. Their
    properties are proved once from the contract of a reader, the locale \<open>byte_source\<close>, which the
    stream satisfies here and a frame's payload in \<open>RunnerWire\<close>.
\<close>

section \<open>Streams\<close>

definition EOF :: gerr where "EOF = Native ''EOF''"
definition ErrUnexpectedEOF :: gerr where "ErrUnexpectedEOF = Native ''unexpected EOF''"
definition ErrShortWrite :: gerr where "ErrShortWrite = Native ''short write''"

lemma EOF_neq [simp]: "EOF \<noteq> ErrUnexpectedEOF" "ErrUnexpectedEOF \<noteq> EOF" "EOF \<noteq> Fail m" "Fail m \<noteq> EOF"
  by (simp_all add: EOF_def ErrUnexpectedEOF_def)

record stream =
  st_Data :: string
  st_Cuts :: "nat list"
  st_Last :: gerr
  st_Eager :: bool

type_synonym 's reader = "'s \<Rightarrow> nat \<Rightarrow> 's \<times> string \<times> gerr option"

definition streamRead :: "stream reader" where
  "streamRead s len =
     (if len = 0 then (s, [], None)
      else if st_Data s = [] then (s, [], Some (st_Last s))
      else let k = (case st_Cuts s of [] \<Rightarrow> len | c # _ \<Rightarrow> min len (max 1 c));
               rest = drop k (st_Data s)
           in (s\<lparr>st_Data := rest, st_Cuts := tl (st_Cuts s)\<rparr>, take k (st_Data s),
               if rest = [] \<and> st_Eager s then Some (st_Last s) else None))"

definition streamOf :: "string \<Rightarrow> stream" where
  "streamOf s = \<lparr>st_Data = s, st_Cuts = [], st_Last = EOF, st_Eager = False\<rparr>"

section \<open>Reading in full\<close>

text \<open>\<open>io.ReadFull\<close>: every read that reports no error delivers a byte, so as many reads as bytes are
  wanted are enough.\<close>

fun readFullLoop :: "'s reader \<Rightarrow> nat \<Rightarrow> nat \<Rightarrow> string \<Rightarrow> 's \<Rightarrow> 's \<times> string \<times> gerr option" where
  "readFullLoop read 0 want got s = (s, got, if want = 0 then None else Some ErrUnexpectedEOF)"
| "readFullLoop read (Suc fuel) want got s =
     (if want = 0 then (s, got, None)
      else (case read s want of (s', d, err) \<Rightarrow>
        if want \<le> length d then (s', got @ d, None)
        else (case err of
                Some e \<Rightarrow> (s', got @ d, Some (if got @ d \<noteq> [] \<and> e = EOF then ErrUnexpectedEOF else e))
              | None \<Rightarrow> readFullLoop read fuel (want - length d) (got @ d) s')))"

definition ReadFull :: "'s reader \<Rightarrow> nat \<Rightarrow> 's \<Rightarrow> 's \<times> string \<times> gerr option" where
  "ReadFull read n s = readFullLoop read n n [] s"

text \<open>\<open>io.ReadAll\<close>: \<open>space n\<close> is the free space of the buffer after \<open>n\<close> bytes, at least one byte.\<close>

fun readAllLoop :: "'s reader \<Rightarrow> (nat \<Rightarrow> nat) \<Rightarrow> nat \<Rightarrow> string \<Rightarrow> 's \<Rightarrow> 's \<times> string \<times> gerr option" where
  "readAllLoop read space 0 got s = (s, got, Some ErrUnexpectedEOF)"
| "readAllLoop read space (Suc fuel) got s =
     (case read s (max 1 (space (length got))) of (s', d, err) \<Rightarrow>
        (case err of
           Some e \<Rightarrow> (s', got @ d, if e = EOF then None else Some e)
         | None \<Rightarrow> readAllLoop read space fuel (got @ d) s'))"

definition ReadAll :: "'s reader \<Rightarrow> (nat \<Rightarrow> nat) \<Rightarrow> nat \<Rightarrow> 's \<Rightarrow> 's \<times> string \<times> gerr option" where
  "ReadAll read space bound s = readAllLoop read space (Suc bound) [] s"

section \<open>The contract of a reader\<close>

text \<open>\<open>pending s\<close> is what the reader still delivers and \<open>final s\<close> the error it ends with. A read
  delivers a prefix of it, at least one byte unless it reports an error, and reports an error only
  with the last byte or after it.\<close>

locale byte_source =
  fixes read :: "'s reader"
    and pending :: "'s \<Rightarrow> string"
    and final :: "'s \<Rightarrow> gerr"
    and fine :: "'s \<Rightarrow> bool"
  assumes read_prefix: "fine s \<Longrightarrow> read s n = (s', d, e) \<Longrightarrow> pending s = d @ pending s' \<and> length d \<le> n \<and> fine s'"
    and read_final: "fine s \<Longrightarrow> read s n = (s', d, e) \<Longrightarrow> final s' = final s"
    and read_progress: "fine s \<Longrightarrow> read s n = (s', d, None) \<Longrightarrow> 0 < n \<Longrightarrow> d \<noteq> []"
    and read_error: "fine s \<Longrightarrow> read s n = (s', d, Some x) \<Longrightarrow> pending s' = [] \<and> x = final s"
begin

lemma read_result: "fine s \<Longrightarrow> read s n = (s', d, e) \<Longrightarrow> d = take (length d) (pending s) \<and> pending s' = drop (length d) (pending s)"
  using read_prefix by fastforce

lemma readFullLoop_enough:
  assumes "fine s" "want \<le> length (pending s)" "want \<le> fuel"
  shows "\<exists>s'. readFullLoop read fuel want got s = (s', got @ take want (pending s), None)
           \<and> pending s' = drop want (pending s) \<and> final s' = final s \<and> fine s'"
  using assms
proof (induction fuel arbitrary: want got s)
  case (Suc fuel)
  show ?case
  proof (cases "want = 0")
    case False
    obtain s1 d e where r: "read s want = (s1, d, e)" using prod_cases3 by blast
    note p = read_prefix [OF Suc.prems(1) r] read_final [OF Suc.prems(1) r]
    show ?thesis
    proof (cases "want \<le> length d")
      case True
      then have "length d = want" using p by simp
      then show ?thesis using r p False by simp
    next
      case short: False
      have e: "e = None"
      proof (rule ccontr)
        assume "e \<noteq> None"
        then obtain x where "e = Some x" by auto
        then have "pending s1 = []" using read_error Suc.prems(1) r by blast
        then show False using short p Suc.prems(2) by simp
      qed
      then have "d \<noteq> []" using read_progress Suc.prems(1) r False by auto
      then have "want - length d \<le> length (pending s1)" "want - length d \<le> fuel" using p Suc.prems by (cases d; auto)+
      from Suc.IH [OF _ this, of "got @ d"] p obtain s' where
        "readFullLoop read fuel (want - length d) (got @ d) s1 = (s', (got @ d) @ take (want - length d) (pending s1), None)"
        "pending s' = drop (want - length d) (pending s1)" "final s' = final s" "fine s'" by auto
      then show ?thesis using r e p short False by simp
    qed
  qed (use Suc in simp)
qed simp

lemma readFullLoop_short:
  assumes "fine s" "length (pending s) < want" "want \<le> fuel"
  shows "\<exists>s'. readFullLoop read fuel want got s =
             (s', got @ pending s, Some (if got @ pending s \<noteq> [] \<and> final s = EOF then ErrUnexpectedEOF else final s))
           \<and> pending s' = [] \<and> final s' = final s \<and> fine s'"
  using assms
proof (induction fuel arbitrary: want got s)
  case (Suc fuel)
  obtain s1 d e where r: "read s want = (s1, d, e)" using prod_cases3 by blast
  note p = read_prefix [OF Suc.prems(1) r] read_final [OF Suc.prems(1) r]
  have len: "length d < want" "want \<noteq> 0" using p Suc.prems(2) by auto
  show ?case
  proof (cases e)
    case None
    then have "d \<noteq> []" using read_progress Suc.prems(1) r len by auto
    then have "length (pending s1) < want - length d" "want - length d \<le> fuel" using p Suc.prems by (cases d; auto)+
    from Suc.IH [OF _ this, of "got @ d"] p show ?thesis using None r p len by auto
  next
    case (Some x)
    then have "pending s1 = []" "x = final s" using read_error Suc.prems(1) r by auto
    then show ?thesis using r p len Some by auto
  qed
qed simp

lemmas ReadFull_enough = readFullLoop_enough [where fuel = n and want = n and got = "[]" for n, folded ReadFull_def, simplified]
lemmas ReadFull_short = readFullLoop_short [where fuel = n and want = n and got = "[]" for n, folded ReadFull_def, simplified]

lemma readAllLoop_all:
  assumes "fine s" "length (pending s) < fuel"
  shows "\<exists>s'. readAllLoop read space fuel got s = (s', got @ pending s, if final s = EOF then None else Some (final s))
           \<and> pending s' = [] \<and> final s' = final s \<and> fine s'"
  using assms
proof (induction fuel arbitrary: got s)
  case (Suc fuel)
  obtain s1 d e where r: "read s (max 1 (space (length got))) = (s1, d, e)" using prod_cases3 by blast
  note p = read_prefix [OF Suc.prems(1) r] read_final [OF Suc.prems(1) r]
  show ?case
  proof (cases e)
    case None
    then have "d \<noteq> []" using read_progress Suc.prems(1) r by auto
    then have "length (pending s1) < fuel" using p Suc.prems by (cases d) auto
    from Suc.IH [OF _ this, of "got @ d"] p show ?thesis using None r p by auto
  next
    case (Some x)
    then have "pending s1 = []" "x = final s" using read_error Suc.prems(1) r by auto
    then show ?thesis using r p Some by auto
  qed
qed simp

lemmas ReadAll_all = readAllLoop_all [where fuel = "Suc n" and got = "[]" for n, folded ReadAll_def, simplified]

end

lemma streamRead_cases:
  assumes "streamRead s n = (s', d, e)"
  obtains (none) "n = 0" "s' = s" "d = []" "e = None"
  | (empty) "0 < n" "st_Data s = []" "s' = s" "d = []" "e = Some (st_Last s)"
  | (some) k where "0 < n" "0 < k" "k \<le> n" "st_Data s \<noteq> []" "d = take k (st_Data s)"
      "s' = s\<lparr>st_Data := drop k (st_Data s), st_Cuts := tl (st_Cuts s)\<rparr>"
      "e = (if drop k (st_Data s) = [] \<and> st_Eager s then Some (st_Last s) else None)"
proof -
  let ?k = "case st_Cuts s of [] \<Rightarrow> n | c # _ \<Rightarrow> min n (max 1 c)"
  have k: "0 < n \<Longrightarrow> 0 < ?k \<and> ?k \<le> n" by (cases "st_Cuts s") auto
  consider "n = 0" | "0 < n" "st_Data s = []" | "0 < n" "st_Data s \<noteq> []" by blast
  then show thesis
  proof cases
    case 1
    then show thesis using assms by (intro that(1)) (simp_all add: streamRead_def)
  next
    case 2
    then show thesis using assms by (intro that(2)) (auto simp: streamRead_def)
  next
    case 3
    then have "streamRead s n = (s\<lparr>st_Data := drop ?k (st_Data s), st_Cuts := tl (st_Cuts s)\<rparr>, take ?k (st_Data s),
        if drop ?k (st_Data s) = [] \<and> st_Eager s then Some (st_Last s) else None)"
      by (simp add: streamRead_def Let_def)
    then show thesis using assms k 3 by (intro that(3) [of ?k]) simp_all
  qed
qed

lemma streamRead_shape:
  assumes "streamRead s n = (s', d, e)"
  shows "st_Eager s' = st_Eager s" "st_Last s' = st_Last s" "st_Data s = d @ st_Data s'" "length d \<le> n"
    "0 < n \<Longrightarrow> e \<noteq> None \<longleftrightarrow> st_Data s' = [] \<and> (d = [] \<or> st_Eager s)" "e \<noteq> None \<Longrightarrow> e = Some (st_Last s)"
    "0 < n \<Longrightarrow> d = [] \<longleftrightarrow> st_Data s = []"
proof -
  have "st_Eager s' = st_Eager s \<and> st_Last s' = st_Last s \<and> st_Data s = d @ st_Data s' \<and> length d \<le> n
    \<and> (0 < n \<longrightarrow> (e \<noteq> None \<longleftrightarrow> st_Data s' = [] \<and> (d = [] \<or> st_Eager s))) \<and> (e \<noteq> None \<longrightarrow> e = Some (st_Last s))
    \<and> (0 < n \<longrightarrow> (d = [] \<longleftrightarrow> st_Data s = []))"
    using assms
  proof (cases rule: streamRead_cases)
    case (some k)
    then show ?thesis by (simp add: min_le_iff_disj)
  qed simp_all
  then show "st_Eager s' = st_Eager s" "st_Last s' = st_Last s" "st_Data s = d @ st_Data s'" "length d \<le> n"
    "0 < n \<Longrightarrow> e \<noteq> None \<longleftrightarrow> st_Data s' = [] \<and> (d = [] \<or> st_Eager s)" "e \<noteq> None \<Longrightarrow> e = Some (st_Last s)"
    "0 < n \<Longrightarrow> d = [] \<longleftrightarrow> st_Data s = []"
    by blast+
qed


interpretation str: byte_source streamRead st_Data st_Last "\<lambda>s. st_Eager s = b" for b
proof (unfold_locales, goal_cases)
  case (1 s n s' d e)
  then show ?case using streamRead_shape(1,3,4) [of s n s' d e] by simp
next
  case (2 s n s' d e)
  then show ?case using streamRead_shape(2) [of s n s' d e] by simp
next
  case (3 s n s' d)
  then show ?case by (cases rule: streamRead_cases [OF 3(2)]) auto
next
  case (4 s n s' d x)
  then show ?case using streamRead_shape(5,6) [of s n s' d "Some x"] by (cases "n = 0") (auto simp: streamRead_def)
qed

section \<open>Writers\<close>

record sink =
  sk_Out :: string
  sk_Room :: "nat option"
  sk_Quiet :: bool

text \<open>A write takes what fits; the error of a full sink is the transport's.\<close>

definition sinkWrite :: "sink \<Rightarrow> string \<Rightarrow> sink \<times> nat \<times> gerr option" where
  "sinkWrite w data =
     (case sk_Room w of
        None \<Rightarrow> (w\<lparr>sk_Out := sk_Out w @ data\<rparr>, length data, None)
      | Some r \<Rightarrow>
          (let n = min r (length data) in
           (w\<lparr>sk_Out := sk_Out w @ take n data, sk_Room := Some (r - n)\<rparr>, n,
            if n < length data \<and> \<not> sk_Quiet w then Some (Native ''write'') else None)))"

text \<open>The writes of whole parts in \<open>WriteFrame\<close>.\<close>

definition writePart :: "string \<Rightarrow> (sink, unit) proc" where
  "writePart data w =
     (case sinkWrite w data of (w', n, err) \<Rightarrow>
        (w', case err of
               Some e \<Rightarrow> Inl e
             | None \<Rightarrow> if n \<noteq> length data then Inl ErrShortWrite else Inr ()))"

text \<open>\<open>io.CopyN(writer, body, n)\<close> for a body that delivers the given bytes and then \<open>io.EOF\<close>. The
  copy stops at the first write that fails or is short.\<close>

definition CopyN :: "nat \<Rightarrow> string \<Rightarrow> (sink, unit) proc" where
  "CopyN n body w =
     (case writePart (take n body) w of
        (w', Inl e) \<Rightarrow> (w', Inl e)
      | (w', Inr _) \<Rightarrow> (w', if length body < n then Inl EOF else Inr ()))"

lemma writePart_ok: "writePart data w = (w', Inr u) \<Longrightarrow>
    sk_Out w' = sk_Out w @ data \<and> (sk_Room w = None \<longrightarrow> sk_Room w' = None)"
  by (auto simp: writePart_def sinkWrite_def Let_def split: option.splits if_splits prod.splits)

lemma writePart_room: "sk_Room w = None \<Longrightarrow> writePart data w = (w\<lparr>sk_Out := sk_Out w @ data\<rparr>, Inr ())"
  by (simp add: writePart_def sinkWrite_def)

lemma CopyN_ok: "CopyN n body w = (w', Inr u) \<Longrightarrow> n \<le> length body \<and> sk_Out w' = sk_Out w @ take n body"
  by (auto simp: CopyN_def split: prod.splits sum.splits if_splits dest: writePart_ok)

lemma CopyN_room: "sk_Room w = None \<Longrightarrow> n \<le> length body \<Longrightarrow> CopyN n body w = (w\<lparr>sk_Out := sk_Out w @ take n body\<rparr>, Inr ())"
  by (simp add: CopyN_def writePart_room)

end
