(* ===== verification/RunnerWire.thy ===== *)
theory RunnerWire
  imports Json GoReaders
begin

text \<open>
  The framing of the runner protocol (internal/runner/runnerwire/frame.go): a frame is the magic
  \<open>CBXR\<close>, the big-endian length of its header, the header as a JSON object, and \<open>Size\<close> raw bytes.

  A \<open>Header\<close>'s metadata is the JSON value its raw text denotes. A \<open>Reader\<close> is the stream under it,
  what is unread of the current payload, and the error that stopped it. Malformed JSON text and JSON
  of the wrong type have one error, \<open>jsonError\<close>.
\<close>

section \<open>Headers\<close>

definition Version :: int where "Version = 1"
definition MaxHeaderBytes :: nat where "MaxHeaderBytes = 65536"
definition magic :: string where "magic = ''CBXR''"
definition MaxInt64 :: nat where "MaxInt64 = 2 ^ 63 - 1"

definition ErrUnreadPayload :: gerr where "ErrUnreadPayload = Fail ''previous frame payload has not been consumed''"
definition jsonError :: gerr where "jsonError = Fail ''json''"

definition Hello :: string where "Hello = ''hello''"
definition Request :: string where "Request = ''request''"
definition File :: string where "File = ''file''"
definition Result :: string where "Result = ''result''"
definition Error :: string where "Error = ''error''"
definition End :: string where "End = ''end''"

lemmas kind_defs = Hello_def Request_def File_def Result_def Error_def End_def

record Header =
  hd_Version :: int
  hd_Kind :: string
  hd_Size :: nat
  hd_Meta :: "json option"

definition isObject :: "json \<Rightarrow> bool" where
  "isObject v \<longleftrightarrow> (case v of JObj _ \<Rightarrow> True | _ \<Rightarrow> False)"

definition validateHeader :: "Header \<Rightarrow> nat \<Rightarrow> gerr option" where
  "validateHeader header limit =
     (if hd_Version header \<noteq> Version then Some (Fail ''unsupported runner protocol version'')
      else if hd_Kind header \<notin> {Hello, Request, File, Result, Error, End} then Some (Fail ''unknown runner frame kind'')
      else if limit < hd_Size header \<or> MaxInt64 < hd_Size header then Some (Fail ''runner frame payload exceeds limit'')
      else if hd_Size header \<noteq> 0 \<and> hd_Kind header \<noteq> Request \<and> hd_Kind header \<noteq> File
        then Some (Fail ''runner metadata frame cannot contain a payload'')
      else (case hd_Meta header of
              Some meta \<Rightarrow> if isObject meta then None else Some (Fail ''runner metadata must be an object'')
            | None \<Rightarrow> None))"

text \<open>The visit of \<open>uniqueObjectKeys\<close>: objects and arrays at most 64 deep, no key twice in an object.\<close>

fun visit :: "nat \<Rightarrow> json \<Rightarrow> gerr option"
  and visitMembers :: "nat \<Rightarrow> string set \<Rightarrow> (string \<times> json) list \<Rightarrow> gerr option"
  and visitElements :: "nat \<Rightarrow> json list \<Rightarrow> gerr option" where
  "visit depth v =
     (if 64 < depth then Some (Fail ''runner metadata nesting exceeds limit'')
      else (case v of
              JObj ms \<Rightarrow> visitMembers (depth + 1) {} ms
            | JArr vs \<Rightarrow> visitElements (depth + 1) vs
            | _ \<Rightarrow> None))"
| "visitMembers depth keys [] = None"
| "visitMembers depth keys ((name, v) # ms) =
     (if name \<in> keys then Some (Fail ''duplicate runner metadata key'')
      else (case visit depth v of Some e \<Rightarrow> Some e | None \<Rightarrow> visitMembers depth (insert name keys) ms))"
| "visitElements depth [] = None"
| "visitElements depth (v # vs) =
     (case visit depth v of Some e \<Rightarrow> Some e | None \<Rightarrow> visitElements depth vs)"

definition uniqueObjectKeys :: "string \<Rightarrow> gerr option" where
  "uniqueObjectKeys data =
     (if \<not> utf8_valid data then Some (Fail ''runner metadata contains invalid UTF-8'')
      else (case jsonParse data of None \<Rightarrow> Some jsonError | Some v \<Rightarrow> visit 0 v))"

text \<open>How \<open>json.Unmarshal\<close> sets an \<open>int\<close>, a \<open>uint64\<close> and a \<open>string\<close>: \<open>null\<close> leaves the value it
  had, a number literal must be an integer in range.\<close>

definition setInt :: "int \<Rightarrow> json option \<Rightarrow> int option" where
  "setInt old v = (case v of None \<Rightarrow> Some old | Some JNull \<Rightarrow> Some old | Some (JNum t) \<Rightarrow> Atoi t | Some _ \<Rightarrow> None)"

definition ParseUint64 :: "string \<Rightarrow> nat option" where
  "ParseUint64 t = (case (if t = [] then None else digits_value 0 t) of Some n \<Rightarrow> if n < 2 ^ 64 then Some n else None | None \<Rightarrow> None)"

definition setUint64 :: "nat \<Rightarrow> json option \<Rightarrow> nat option" where
  "setUint64 old v = (case v of None \<Rightarrow> Some old | Some JNull \<Rightarrow> Some old | Some (JNum t) \<Rightarrow> ParseUint64 t | Some _ \<Rightarrow> None)"

definition setString :: "string \<Rightarrow> json option \<Rightarrow> string option" where
  "setString old v = (case v of None \<Rightarrow> Some old | Some JNull \<Rightarrow> Some old | Some (JStr t) \<Rightarrow> Some t | Some _ \<Rightarrow> None)"

definition decodeHeader :: "string \<Rightarrow> Header res" where
  "decodeHeader data =
     (case uniqueObjectKeys data of
        Some e \<Rightarrow> Inl e
      | None \<Rightarrow>
          (case jsonParse data of
             Some (JObj members) \<Rightarrow>
               if \<exists>key \<in> fst ` set members. key \<notin> {''version'', ''kind'', ''size'', ''meta''}
               then Inl (Fail ''unknown runner header field'')
               else if map_of members ''size'' \<in> {None, Some JNull} then Inl (Fail ''runner header size is missing'')
               else (case (setInt 0 (map_of members ''version''), setString [] (map_of members ''kind''),
                           setUint64 0 (map_of members ''size'')) of
                       (Some version, Some kind, Some bytes) \<Rightarrow>
                         Inr \<lparr>hd_Version = version, hd_Kind = kind, hd_Size = bytes, hd_Meta = map_of members ''meta''\<rparr>
                     | _ \<Rightarrow> Inl jsonError)
           | Some JNull \<Rightarrow> Inl (Fail ''runner header must be an object'')
           | _ \<Rightarrow> Inl jsonError))"

text \<open>\<open>json.Marshal\<close> of a header.\<close>

definition headerJson :: "Header \<Rightarrow> json" where
  "headerJson h =
     JObj ([(''version'', JNum (Itoa (hd_Version h))), (''kind'', JStr (hd_Kind h)), (''size'', JNum (dec_nat (hd_Size h)))]
           @ (case hd_Meta h of Some m \<Rightarrow> [(''meta'', m)] | None \<Rightarrow> []))"

section \<open>Writing a frame\<close>

definition bigEndian :: "nat \<Rightarrow> string" where
  "bigEndian n = map (\<lambda>k. char_of (n div 2 ^ k mod 256)) [24, 16, 8, 0]"

definition bigEndianUint32 :: "string \<Rightarrow> nat" where
  "bigEndianUint32 bs = foldl (\<lambda>a c. 256 * a + code c) 0 bs"

definition WriteFrame :: "Header \<Rightarrow> string option \<Rightarrow> (sink, unit) proc" where
  "WriteFrame header0 body =
     (let header = (if hd_Version header0 = 0 then header0\<lparr>hd_Version := Version\<rparr> else header0);
          data = jsonPrint (headerJson header)
      in bindR (checkR (validateHeader header MaxInt64)) (\<lambda>_.
         bindR (requireR (hd_Size header = 0 \<or> body \<noteq> None) (Fail ''runner frame body is missing'')) (\<lambda>_.
         bindR (requireR (length data \<le> MaxHeaderBytes) (Fail ''runner frame header exceeds limit'')) (\<lambda>_.
         bindR (checkR (uniqueObjectKeys data)) (\<lambda>_.
         bindR (writePart (magic @ bigEndian (length data))) (\<lambda>_.
         bindR (writePart data) (\<lambda>_.
         if hd_Size header = 0 then returnR ()
         else (\<lambda>w. case CopyN (hd_Size header) (the body) w of
                     (w', Inl e) \<Rightarrow> (w', Inl (if e = EOF then ErrUnexpectedEOF else e))
                   | (w', Inr u) \<Rightarrow> (w', Inr u)))))))))"

section \<open>Reading frames\<close>

record Reader =
  rd_Stream :: stream
  rd_MaxBody :: nat
  rd_Current :: "nat option"
  rd_Err :: "gerr option"

definition NewReader :: "stream \<Rightarrow> nat \<Rightarrow> Reader" where
  "NewReader s maxBody = \<lparr>rd_Stream = s, rd_MaxBody = maxBody, rd_Current = None, rd_Err = None\<rparr>"

definition readPart :: "nat \<Rightarrow> (Reader, string) proc" where
  "readPart n r =
     (case ReadFull streamRead n (rd_Stream r) of (s', d, err) \<Rightarrow>
        (r\<lparr>rd_Stream := s'\<rparr>, case err of Some e \<Rightarrow> Inl e | None \<Rightarrow> Inr d))"

definition nextFrame :: "(Reader, Header) proc" where
  "nextFrame =
     bindR (readPart 8) (\<lambda>prefix.
     bindR (requireR (take 4 prefix = magic) (Fail ''invalid runner frame magic'')) (\<lambda>_.
     let size = bigEndianUint32 (drop 4 prefix) in
     bindR (requireR (size \<noteq> 0 \<and> size \<le> MaxHeaderBytes) (Fail ''runner frame header exceeds limit'')) (\<lambda>_.
     bindR (readPart size) (\<lambda>data.
     case decodeHeader data of
       Inl e \<Rightarrow> failR e
     | Inr header \<Rightarrow> (\<lambda>r.
         case validateHeader header (rd_MaxBody r) of
           Some e \<Rightarrow> (r, Inl e)
         | None \<Rightarrow> (r\<lparr>rd_Current := Some (hd_Size header)\<rparr>, Inr header))))))"

definition Next :: "(Reader, Header) proc" where
  "Next r =
     (case rd_Err r of
        Some e \<Rightarrow> (r, Inl e)
      | None \<Rightarrow>
          if rd_Current r \<noteq> None \<and> rd_Current r \<noteq> Some 0 then (r, Inl ErrUnreadPayload)
          else (case nextFrame r of
                  (r', Inl e) \<Rightarrow> (r'\<lparr>rd_Err := Some e\<rparr>, Inl e)
                | (r', Inr header) \<Rightarrow> (r', Inr header)))"

text \<open>\<open>payload.Read\<close> of the current payload. The transport keeps the contract of \<open>io.Reader\<close>: it
  never returns more bytes than it was asked for.\<close>

definition payloadRead :: "Reader reader" where
  "payloadRead r len =
     (case rd_Err r of
        Some e \<Rightarrow> (r, [], Some e)
      | None \<Rightarrow>
          let remaining = (case rd_Current r of Some n \<Rightarrow> n | None \<Rightarrow> 0) in
          if remaining = 0 then (r, [], Some EOF)
          else (case streamRead (rd_Stream r) (min len remaining) of (s', d, err0) \<Rightarrow>
            let remaining' = remaining - length d;
                err = (if err0 = Some EOF \<and> remaining' \<noteq> 0 then Some ErrUnexpectedEOF else err0);
                r' = r\<lparr>rd_Stream := s', rd_Current := Some remaining'\<rparr>
            in (if err \<noteq> None \<and> err \<noteq> Some EOF then r'\<lparr>rd_Err := err\<rparr> else r', d, err)))"

section \<open>The payload as a reader\<close>

definition unread :: "Reader \<Rightarrow> nat" where
  "unread r = (case rd_Current r of Some n \<Rightarrow> n | None \<Rightarrow> 0)"

text \<open>What the payload still delivers, and the error it ends with: \<open>io.EOF\<close> only when all of it was
  there.\<close>

definition payPending :: "Reader \<Rightarrow> string" where
  "payPending r = (if rd_Err r = None then take (unread r) (st_Data (rd_Stream r)) else [])"

definition cutShort :: "Reader \<Rightarrow> bool" where
  "cutShort r \<longleftrightarrow> length (st_Data (rd_Stream r)) < unread r
     \<or> (unread r \<noteq> 0 \<and> length (st_Data (rd_Stream r)) = unread r \<and> st_Eager (rd_Stream r) \<and> st_Last (rd_Stream r) \<noteq> EOF)"

definition payFinal :: "Reader \<Rightarrow> gerr" where
  "payFinal r =
     (case rd_Err r of
        Some e \<Rightarrow> e
      | None \<Rightarrow>
          if cutShort r
          then (if st_Last (rd_Stream r) = EOF then ErrUnexpectedEOF else st_Last (rd_Stream r))
          else EOF)"

lemma payloadRead_cases:
  assumes "payloadRead r n = (r', d, e)"
  obtains (stopped) x where "rd_Err r = Some x" "r' = r" "d = []" "e = Some x"
  | (finished) "rd_Err r = None" "unread r = 0" "r' = r" "d = []" "e = Some EOF"
  | (chunk) s' err0 where "rd_Err r = None" "unread r \<noteq> 0" "streamRead (rd_Stream r) (min n (unread r)) = (s', d, err0)"
      "e = (if err0 = Some EOF \<and> unread r - length d \<noteq> 0 then Some ErrUnexpectedEOF else err0)"
      "r' = r\<lparr>rd_Stream := s', rd_Current := Some (unread r - length d), rd_Err := (if e = Some EOF then None else e)\<rparr>"
proof (cases "rd_Err r")
  case None
  show thesis
  proof (cases "unread r = 0")
    case True
    then have "payloadRead r n = (r, [], Some EOF)" using None by (simp add: payloadRead_def unread_def)
    then show thesis using assms by (intro that(2) [OF None True]) simp_all
  next
    case False
    obtain s' d' err0 where s: "streamRead (rd_Stream r) (min n (unread r)) = (s', d', err0)" using prod_cases3 by blast
    let ?e = "if err0 = Some EOF \<and> unread r - length d' \<noteq> 0 then Some ErrUnexpectedEOF else err0"
    let ?r = "r\<lparr>rd_Stream := s', rd_Current := Some (unread r - length d')\<rparr>"
    have "payloadRead r n = (if ?e \<noteq> None \<and> ?e \<noteq> Some EOF then ?r\<lparr>rd_Err := ?e\<rparr> else ?r, d', ?e)"
      using None False s by (simp only: payloadRead_def Let_def flip: unread_def) simp
    then have "d = d'" "e = ?e" "r' = (if ?e \<noteq> None \<and> ?e \<noteq> Some EOF then ?r\<lparr>rd_Err := ?e\<rparr> else ?r)"
      using assms by simp_all
    moreover have "?r = ?r\<lparr>rd_Err := None\<rparr>" using None by simp
    ultimately have "r' = ?r\<lparr>rd_Err := (if e = Some EOF then None else e)\<rparr>" by (cases e) auto
    then show thesis by (intro that(3) [OF None False, of s' err0]) (use s \<open>d = d'\<close> \<open>e = ?e\<close> in simp_all)
  qed
next
  case (Some x)
  then have "payloadRead r n = (r, [], Some x)" by (simp add: payloadRead_def)
  then show thesis using assms by (intro that(1) [OF Some]) simp_all
qed

text \<open>What the payload's reads leave alone: what follows the payload, the end of the stream, the limit.\<close>

definition behind :: "nat \<Rightarrow> gerr \<Rightarrow> string \<Rightarrow> Reader \<Rightarrow> bool" where
  "behind m l rest r \<longleftrightarrow> rd_MaxBody r = m \<and> st_Last (rd_Stream r) = l \<and> drop (unread r) (st_Data (rd_Stream r)) = rest
     \<and> rd_Err r \<noteq> Some EOF"

interpretation pay: byte_source payloadRead payPending payFinal "behind m l rest" for m l rest
proof (unfold_locales, goal_cases)
  case (1 r n r' d e)
  from 1(2) show ?case
  proof (cases rule: payloadRead_cases)
    case (chunk s' err0)
    note s = streamRead_shape [OF chunk(3)]
    have "payPending r = take (unread r) (d @ st_Data s')" using chunk(1) s(3) by (simp add: payPending_def)
    moreover have len: "length d \<le> unread r" "length d \<le> n" using s(4) by auto
    moreover have "payPending r' = take (unread r - length d) (st_Data s')"
    proof (cases "err0 = None")
      case True
      then show ?thesis using chunk(4,5) by (simp add: payPending_def unread_def)
    next
      case False
      then have "st_Data s' = []" using s(5) chunk(2,3) by (cases "n = 0") (auto simp: streamRead_def)
      then show ?thesis using chunk(5) by (simp add: payPending_def)
    qed
    moreover have "behind m l rest r'"
      using 1(1) s(2) len s(3) unfolding chunk(5) behind_def by (auto simp: unread_def split: if_splits)
    ultimately show ?thesis by simp
  qed (use 1 in \<open>auto simp: payPending_def\<close>)
next
  case (2 r n r' d e)
  from 2(2) show ?case
  proof (cases rule: payloadRead_cases)
    case (chunk s' err0)
    note s = streamRead_shape [OF chunk(3)]
    show ?thesis
    proof (cases "n = 0")
      case True
      then have "s' = rd_Stream r" "d = []" "err0 = None" using chunk by (auto simp: streamRead_def)
      then show ?thesis using chunk by (simp add: payFinal_def cutShort_def unread_def)
    next
      case False
      have len: "length (st_Data (rd_Stream r)) = length d + length (st_Data s')" using s(3) by simp
      show ?thesis
      proof (cases err0)
        case None
        then have "d \<noteq> []" "st_Data s' \<noteq> [] \<or> \<not> st_Eager (rd_Stream r)" "e = None" using s(5,7) len False chunk(2,4) by auto
        then show ?thesis using len s(1,2,4) chunk(1,2) unfolding chunk(5)
          by (auto simp: payFinal_def cutShort_def unread_def)
      next
        case (Some x)
        then have "x = st_Last (rd_Stream r)" "st_Data s' = []" "d = [] \<or> st_Eager (rd_Stream r)" using s(5,6) False chunk(2) by auto
        then show ?thesis using len s(1,2,4) chunk(1,2,4) Some unfolding chunk(5)
          by (auto simp: payFinal_def cutShort_def unread_def)
      qed
    qed
  qed auto
next
  case (3 r n r' d)
  from 3(2) show ?case
  proof (cases rule: payloadRead_cases)
    case (chunk s' err0)
    note s = streamRead_shape [OF chunk(3)]
    have "err0 = None" using chunk(4) by (auto split: if_splits)
    then show ?thesis using str.read_progress [OF refl chunk(3) [unfolded \<open>err0 = None\<close>]] chunk(2) 3(3) by simp
  qed auto
next
  case (4 r n r' d x)
  from 4(2) show ?case
  proof (cases rule: payloadRead_cases)
    case (chunk s' err0)
    note s = streamRead_shape [OF chunk(3)]
    have err: "err0 \<noteq> None" using chunk(4) by (auto split: if_splits)
    moreover have "n \<noteq> 0"
    proof
      assume "n = 0"
      then have "err0 = None" using chunk(3) by (simp add: streamRead_def)
      then show False using err by simp
    qed
    ultimately have "err0 = Some (st_Last (rd_Stream r))" "st_Data s' = []" "d = [] \<or> st_Eager (rd_Stream r)"
      using s(5,6) chunk(2) by auto
    moreover have "length (st_Data (rd_Stream r)) = length d + length (st_Data s')" using s(3) by simp
    moreover have "payPending r' = []" unfolding chunk(5) using \<open>st_Data s' = []\<close> by (simp add: payPending_def)
    ultimately show ?thesis using chunk(1,2,4) s(4) by (auto simp: payFinal_def cutShort_def split: if_splits)
  qed (auto simp: payFinal_def payPending_def cutShort_def)
qed

section \<open>Frames on the wire\<close>

lemma bigEndian_length [simp]: "length (bigEndian n) = 4"
  by (simp add: bigEndian_def)

lemma bigEndian_value: "n \<le> MaxHeaderBytes \<Longrightarrow> bigEndianUint32 (bigEndian n) = n"
proof -
  assume n: "n \<le> MaxHeaderBytes"
  have c: "code (char_of k) = k mod 256" for k :: nat by (simp add: code_def)
  have "bigEndianUint32 (bigEndian n) = 256 * (256 * (n div 256 div 256) + n div 256 mod 256) + n mod 256"
    using n by (simp add: bigEndian_def bigEndianUint32_def MaxHeaderBytes_def c div_mult2_eq [of n 256 256, simplified])
  then show ?thesis by simp
qed

definition headerText :: "Header \<Rightarrow> string" where
  "headerText h = jsonPrint (headerJson h)"

definition frameBytes :: "Header \<Rightarrow> string \<Rightarrow> string" where
  "frameBytes h body = magic @ bigEndian (length (headerText h)) @ headerText h @ body"

definition sendable :: "Header \<Rightarrow> bool" where
  "sendable h \<longleftrightarrow> validateHeader h MaxInt64 = None \<and> length (headerText h) \<le> MaxHeaderBytes
     \<and> uniqueObjectKeys (headerText h) = None"

lemma validateHeader_None: "validateHeader h limit = None \<longleftrightarrow>
    hd_Version h = 1 \<and> hd_Kind h \<in> {Hello, Request, File, Result, Error, End} \<and> hd_Size h \<le> limit \<and> hd_Size h \<le> MaxInt64
    \<and> (hd_Size h = 0 \<or> hd_Kind h = Request \<or> hd_Kind h = File) \<and> (\<forall>m. hd_Meta h = Some m \<longrightarrow> isObject m)"
  by (cases "hd_Meta h") (simp_all add: validateHeader_def Version_def not_less conj_ac)

definition stamped :: "Header \<Rightarrow> Header" where
  "stamped h = (if hd_Version h = 0 then h\<lparr>hd_Version := Version\<rparr> else h)"

lemma WriteFrame_ok:
  assumes "WriteFrame h body w = (w', Inr u)"
  obtains b where "sendable (stamped h)" "length b = hd_Size h" "sk_Out w' = sk_Out w @ frameBytes (stamped h) b"
    "b = (case body of None \<Rightarrow> [] | Some x \<Rightarrow> take (hd_Size h) x)"
proof -
  have size: "hd_Size (stamped h) = hd_Size h" by (simp add: stamped_def)
  from assms obtain w1 w2 where checks: "sendable (stamped h)" "hd_Size h = 0 \<or> body \<noteq> None"
    and w1: "writePart (magic @ bigEndian (length (headerText (stamped h)))) w = (w1, Inr ())"
    and w2: "writePart (headerText (stamped h)) w1 = (w2, Inr ())"
    and rest0: "(if hd_Size (stamped h) = 0 then returnR () else (\<lambda>w. case CopyN (hd_Size (stamped h)) (the body) w of
           (w', Inl e) \<Rightarrow> (w', Inl (if e = EOF then ErrUnexpectedEOF else e)) | (w', Inr u) \<Rightarrow> (w', Inr u))) w2 = (w', Inr u)"
    unfolding WriteFrame_def Let_def bindR_Inr sendable_def headerText_def stamped_def [symmetric] by (auto simp: size)
  note rest = rest0 [unfolded size]
  have out: "sk_Out w2 = sk_Out w @ frameBytes (stamped h) []"
    using writePart_ok [OF w1] writePart_ok [OF w2] by (simp add: frameBytes_def)
  show thesis
  proof (cases "hd_Size h = 0")
    case True
    then show thesis using rest out checks that [of "[]"] by (auto split: option.splits)
  next
    case False
    then obtain x where x: "body = Some x" using checks by auto
    have "CopyN (hd_Size h) x w2 = (w', Inr u)" using rest False x by (auto split: prod.splits sum.splits)
    then have "hd_Size h \<le> length x \<and> sk_Out w' = sk_Out w2 @ take (hd_Size h) x" by (rule CopyN_ok)
    then show thesis using out x checks by (intro that [of "take (hd_Size h) x"]) (auto simp: frameBytes_def)
  qed
qed

lemma natLiteral_dec_nat: "natLiteral (dec_nat n)"
proof (induction n rule: dec_nat.induct)
  case (1 n)
  show ?case
  proof (cases "n < 10")
    case True
    have "code (digit_char n) = 48 + n" using True by (rule code_digit_char)
    then show ?thesis using True by (subst dec_nat.simps) (auto simp: natLiteral_def is_digit_def)
  next
    case False
    let ?q = "dec_nat (n div 10)"
    have q: "natLiteral ?q" using 1 False by simp
    have "?q \<noteq> ''0''"
    proof
      assume "?q = ''0''"
      then have "digits_value 0 ?q = Some 0" by (simp add: code_def)
      then show False using False by (simp add: digits_value_dec_nat)
    qed
    then have "hd ?q \<noteq> CHR ''0''" using q by (auto simp: natLiteral_def)
    moreover have "is_digit (digit_char (n mod 10))" by (simp add: is_digit_def code_digit_char)
    ultimately show ?thesis using False q by (subst dec_nat.simps) (simp add: natLiteral_def)
  qed
qed

lemma kind_ascii: "k \<in> {Hello, Request, File, Result, Error, End} \<Longrightarrow> is_ascii k"
  by (auto simp: kind_defs is_ascii_def code_def)

text \<open>The metadata a header carries: an object of natural numbers, UTF-8 strings, booleans, lists and
  objects, which is what the protocol's structures are encoded as.\<close>

definition plainMeta :: "Header \<Rightarrow> bool" where
  "plainMeta h \<longleftrightarrow> (\<forall>m. hd_Meta h = Some m \<longrightarrow> wfJson m)"

lemma wfJson_header:
  assumes "validateHeader h limit = None" "plainMeta h"
  shows "wfJson (headerJson h)"
proof -
  have "wfJson (JStr (hd_Kind h))" using assms kind_ascii [THEN utf8_valid_ascii] by (simp add: validateHeader_None)
  moreover have "hd_Version h = 1" using assms by (simp add: validateHeader_None)
  ultimately show ?thesis
    using assms(2)
    by (auto simp: headerJson_def plainMeta_def Itoa_def natLiteral_dec_nat is_ascii_def code_def
        intro!: utf8_valid_ascii split: option.splits)
qed

lemma decodeHeader_text:
  assumes "sendable h" "plainMeta h"
  shows "decodeHeader (headerText h) = Inr h"
proof -
  have v: "validateHeader h MaxInt64 = None" using assms by (simp add: sendable_def)
  then have "jsonParse (headerText h) = Some (headerJson h)"
    unfolding headerText_def using assms by (intro jsonParse_print wfJson_header)
  moreover have "ParseUint64 (dec_nat (hd_Size h)) = Some (hd_Size h)"
    using v by (simp add: ParseUint64_def digits_value_dec_nat validateHeader_None MaxInt64_def)
  moreover have "Atoi (Itoa 1) = Some 1" using Atoi_dec_nat [of 1] by (simp add: Itoa_def)
  ultimately show ?thesis
    using assms v
    by (auto simp: decodeHeader_def sendable_def headerJson_def setInt_def setUint64_def setString_def validateHeader_None
        split: option.splits)
qed

lemma readPart_enough:
  assumes "n \<le> length (st_Data (rd_Stream r))"
  obtains s' where "readPart n r = (r\<lparr>rd_Stream := s'\<rparr>, Inr (take n (st_Data (rd_Stream r))))"
    "st_Data s' = drop n (st_Data (rd_Stream r))" "st_Last s' = st_Last (rd_Stream r)" "st_Eager s' = st_Eager (rd_Stream r)"
  using str.ReadFull_enough [OF refl assms] by (auto simp: readPart_def split: prod.splits)

lemma readPart_ok:
  assumes "readPart n r = (r', Inr d)"
  obtains s' where "r' = r\<lparr>rd_Stream := s'\<rparr>" "st_Data (rd_Stream r) = d @ st_Data s'" "length d = n"
    "st_Last s' = st_Last (rd_Stream r)" "st_Eager s' = st_Eager (rd_Stream r)"
proof (cases "n \<le> length (st_Data (rd_Stream r))")
  case True
  then obtain s' where s: "readPart n r = (r\<lparr>rd_Stream := s'\<rparr>, Inr (take n (st_Data (rd_Stream r))))"
    "st_Data s' = drop n (st_Data (rd_Stream r))" "st_Last s' = st_Last (rd_Stream r)" "st_Eager s' = st_Eager (rd_Stream r)"
    by (rule readPart_enough)
  then have "r' = r\<lparr>rd_Stream := s'\<rparr>" "d = take n (st_Data (rd_Stream r))" using assms by simp_all
  then show thesis using s True by (intro that [of s']) simp_all
next
  case False
  then have "length (st_Data (rd_Stream r)) < n" by simp
  from str.ReadFull_short [OF refl this] show thesis using assms by (auto simp: readPart_def)
qed

lemma readPart_short:
  assumes "length (st_Data (rd_Stream r)) < n"
  obtains s' where "readPart n r = (r\<lparr>rd_Stream := s'\<rparr>, Inl (if st_Data (rd_Stream r) \<noteq> [] \<and> st_Last (rd_Stream r) = EOF
      then ErrUnexpectedEOF else st_Last (rd_Stream r)))" "st_Data s' = []"
  using str.ReadFull_short [OF refl assms] by (auto simp: readPart_def split: prod.splits)

text \<open>A reader between frames.\<close>

definition idle :: "Reader \<Rightarrow> bool" where
  "idle r \<longleftrightarrow> rd_Err r = None \<and> unread r = 0"

lemma Next_idle: "idle r \<Longrightarrow> Next r = (case nextFrame r of
    (r', Inl e) \<Rightarrow> (r'\<lparr>rd_Err := Some e\<rparr>, Inl e) | (r', Inr header) \<Rightarrow> (r', Inr header))"
  by (auto simp: Next_def idle_def unread_def split: option.splits)

lemma headerText_nonempty: "headerText h \<noteq> []"
  by (simp add: headerText_def headerJson_def)

lemma Next_frame:
  assumes "idle r" "st_Data (rd_Stream r) = frameBytes h body @ rest" "sendable h" "plainMeta h" "hd_Size h \<le> rd_MaxBody r"
  obtains s' where "Next r = (r\<lparr>rd_Stream := s', rd_Current := Some (hd_Size h)\<rparr>, Inr h)" "st_Data s' = body @ rest"
    "st_Last s' = st_Last (rd_Stream r)" "st_Eager s' = st_Eager (rd_Stream r)"
proof -
  let ?t = "headerText h" let ?p = "magic @ bigEndian (length ?t)"
  have d: "st_Data (rd_Stream r) = ?p @ ?t @ body @ rest" using assms by (simp add: frameBytes_def)
  have p: "length ?p = 8" "take 4 ?p = magic" "drop 4 ?p = bigEndian (length ?t)" by (simp_all add: magic_def)
  have len: "length ?t \<noteq> 0" "length ?t \<le> MaxHeaderBytes" using assms headerText_nonempty by (simp_all add: sendable_def)
  then have be: "bigEndianUint32 (bigEndian (length ?t)) = length ?t" by (simp add: bigEndian_value)
  obtain s1 where s1: "readPart 8 r = (r\<lparr>rd_Stream := s1\<rparr>, Inr ?p)" "st_Data s1 = ?t @ body @ rest"
    "st_Last s1 = st_Last (rd_Stream r)" "st_Eager s1 = st_Eager (rd_Stream r)"
    using readPart_enough [of 8 r] p(1) by (auto simp: d simp del: append_assoc)
  obtain s2 where s2: "readPart (length ?t) (r\<lparr>rd_Stream := s1\<rparr>) = (r\<lparr>rd_Stream := s2\<rparr>, Inr ?t)" "st_Data s2 = body @ rest"
    "st_Last s2 = st_Last (rd_Stream r)" "st_Eager s2 = st_Eager (rd_Stream r)"
    using readPart_enough [of "length ?t" "r\<lparr>rd_Stream := s1\<rparr>"] s1 by auto
  have "validateHeader h (rd_MaxBody r) = None" using assms by (auto simp: sendable_def validateHeader_None)
  then have "nextFrame r = (r\<lparr>rd_Stream := s2, rd_Current := Some (hd_Size h)\<rparr>, Inr h)"
    unfolding nextFrame_def using s1 s2 p be len decodeHeader_text [OF assms(3,4)] by (simp add: bindR_run Let_def)
  then show thesis using assms(1) s2 by (intro that [of s2]) (simp_all add: Next_idle)
qed

lemma payload_read_all:
  assumes "rd_Err r = None" "rd_Current r = Some (length body)" "st_Data (rd_Stream r) = body @ rest"
    and "rest \<noteq> [] \<or> st_Last (rd_Stream r) = EOF" "length body \<le> bound"
  obtains r' where "ReadAll payloadRead space bound r = (r', body, None)" "idle r'" "st_Data (rd_Stream r') = rest"
    "st_Last (rd_Stream r') = st_Last (rd_Stream r)" "rd_MaxBody r' = rd_MaxBody r"
proof -
  have b: "behind (rd_MaxBody r) (st_Last (rd_Stream r)) rest r" using assms by (simp add: behind_def unread_def)
  have p: "payPending r = body" "payFinal r = EOF"
    using assms by (auto simp: payPending_def payFinal_def cutShort_def unread_def)
  from pay.ReadAll_all [OF b, of bound space] p assms(5) obtain r' where
    r: "ReadAll payloadRead space bound r = (r', body, None)" "payPending r' = []" "payFinal r' = EOF"
      "behind (rd_MaxBody r) (st_Last (rd_Stream r)) rest r'" by auto
  have e: "rd_Err r' = None" using r(3,4) by (auto simp: payFinal_def behind_def split: option.splits)
  have "\<not> cutShort r'" using r(3) e by (auto simp: payFinal_def split: if_splits)
  then have "unread r' = 0" using r(2) e by (auto simp: payPending_def cutShort_def)
  then show thesis using r e by (intro that [of r']) (simp_all add: behind_def idle_def)
qed

section \<open>Properties of the framing\<close>

text \<open>No object of a value has a key twice, and how deep objects and arrays are nested.\<close>

fun distinctKeys :: "json \<Rightarrow> bool" where
  "distinctKeys (JObj ms) = (distinct (map fst ms) \<and> list_all (\<lambda>(k, v). distinctKeys v) ms)"
| "distinctKeys (JArr vs) = list_all distinctKeys vs"
| "distinctKeys v = True"

fun jdepth :: "json \<Rightarrow> nat" where
  "jdepth (JObj ms) = fold max (map (\<lambda>(k, v). jdepth v + 1) ms) 0"
| "jdepth (JArr vs) = fold max (map (\<lambda>v. jdepth v + 1) vs) 0"
| "jdepth v = 0"

lemma fold_max_le: "fold max xs a \<le> (b::nat) \<longleftrightarrow> a \<le> b \<and> (\<forall>x \<in> set xs. x \<le> b)"
  by (induction xs arbitrary: a) auto

lemma fold_max_add: "d + fold max xs 0 \<le> b \<longleftrightarrow> d \<le> b \<and> (\<forall>x \<in> set xs. d + x \<le> (b::nat))"
  using fold_max_le [of xs 0 "b - d"] by (cases "d \<le> b") auto

lemma visit_None:
  "visit d v = None \<longleftrightarrow> d \<le> 64 \<and> d + jdepth v \<le> 64 \<and> distinctKeys v"
  "visitMembers d keys ms = None \<longleftrightarrow> distinct (map fst ms) \<and> fst ` set ms \<inter> keys = {}
     \<and> (\<forall>(k, v) \<in> set ms. d \<le> 64 \<and> d + jdepth v \<le> 64 \<and> distinctKeys v)"
  "visitElements d vs = None \<longleftrightarrow> (\<forall>v \<in> set vs. d \<le> 64 \<and> d + jdepth v \<le> 64 \<and> distinctKeys v)"
proof (induction d v and d keys ms and d vs rule: visit_visitMembers_visitElements.induct)
  case (1 d v)
  show ?case
  proof (cases v)
    case (JArr vs)
    then show ?thesis using 1(1) [of vs] by (cases "64 < d") (auto simp: visit.simps [of d] fold_max_add list_all_iff simp del: visit.simps)
  next
    case (JObj ms)
    then show ?thesis using 1(2) [of ms] by (cases "64 < d") (auto simp: visit.simps [of d] fold_max_add list_all_iff simp del: visit.simps)
  qed auto
qed (auto split: option.splits simp del: visit.simps)

definition wellFormed :: "nat \<Rightarrow> Header \<Rightarrow> bool" where
  "wellFormed limit h \<longleftrightarrow>
     hd_Version h = 1 \<and> hd_Kind h \<in> {''hello'', ''request'', ''file'', ''result'', ''error'', ''end''}
     \<and> hd_Size h \<le> limit \<and> hd_Size h < 2 ^ 63
     \<and> (hd_Size h = 0 \<or> hd_Kind h \<in> {''request'', ''file''})
     \<and> (\<forall>m. hd_Meta h = Some m \<longrightarrow> isObject m \<and> distinctKeys m \<and> jdepth m < 64)"

lemma decodeHeader_meta:
  assumes "decodeHeader data = Inr h" "hd_Meta h = Some m"
  shows "distinctKeys m \<and> jdepth m < 64"
proof -
  obtain ms where ms: "jsonParse data = Some (JObj ms)" and u: "uniqueObjectKeys data = None" and m: "map_of ms ''meta'' = Some m"
    using assms by (auto simp: decodeHeader_def split: option.splits json.splits if_splits)
  then have "visit 0 (JObj ms) = None" by (simp add: uniqueObjectKeys_def split: if_splits)
  moreover have "(''meta'', m) \<in> set ms" using m by (rule map_of_SomeD)
  ultimately show ?thesis by (force simp: visit_None fold_max_add [where d = 0, simplified] list_all_iff simp del: visit.simps)
qed

lemma sendable_plain:
  assumes "validateHeader h MaxInt64 = None" "plainMeta h" "length (headerText h) \<le> MaxHeaderBytes"
    and "\<And>m. hd_Meta h = Some m \<Longrightarrow> distinctKeys m \<and> jdepth m < 64"
  shows "sendable h"
proof -
  have w: "wfJson (headerJson h)" using assms(1,2) by (rule wfJson_header)
  have "distinctKeys (headerJson h)" "jdepth (headerJson h) \<le> 64"
    using assms(4) [of "the (hd_Meta h)"] by (cases "hd_Meta h"; simp add: headerJson_def fold_max_le)+
  then have "uniqueObjectKeys (headerText h) = None"
    using w by (simp add: uniqueObjectKeys_def headerText_def utf8_valid_print jsonParse_print visit_None del: visit.simps)
  then show ?thesis using assms by (simp add: sendable_def)
qed

lemma WriteFrame_room:
  assumes "sendable (stamped h)" "sk_Room w = None" "hd_Size h = 0 \<and> b = [] \<or> (\<exists>x. body = Some x \<and> hd_Size h \<le> length x \<and> b = take (hd_Size h) x)"
  shows "WriteFrame h body w = (w\<lparr>sk_Out := sk_Out w @ frameBytes (stamped h) b\<rparr>, Inr ())"
  using assms unfolding WriteFrame_def Let_def stamped_def [symmetric]
  by (auto simp: bindR_run sendable_def headerText_def writePart_room CopyN_room frameBytes_def stamped_def)

lemma Next_inv:
  assumes "Next r = (r', Inr h)"
  obtains n t where "idle r" "rd_MaxBody r' = rd_MaxBody r" "rd_Err r' = None" "rd_Current r' = Some (hd_Size h)"
    "validateHeader h (rd_MaxBody r) = None" "decodeHeader t = Inr h"
    "st_Data (rd_Stream r) = magic @ n @ t @ st_Data (rd_Stream r')" "length n = 4" "bigEndianUint32 n = length t" "length t \<le> MaxHeaderBytes"
    "st_Last (rd_Stream r') = st_Last (rd_Stream r)" "st_Eager (rd_Stream r') = st_Eager (rd_Stream r)"
proof -
  have i: "idle r" "nextFrame r = (r', Inr h)"
    using assms by (auto simp: Next_def idle_def unread_def split: option.splits if_splits prod.splits sum.splits)
  from i(2) obtain r1 p r2 t where p: "readPart 8 r = (r1, Inr p)" "take 4 p = magic" "bigEndianUint32 (drop 4 p) \<le> MaxHeaderBytes"
    and t: "readPart (bigEndianUint32 (drop 4 p)) r1 = (r2, Inr t)"
    and rest: "(case decodeHeader t of Inl e \<Rightarrow> failR e | Inr header \<Rightarrow> (\<lambda>r. case validateHeader header (rd_MaxBody r) of
        Some e \<Rightarrow> (r, Inl e) | None \<Rightarrow> (r\<lparr>rd_Current := Some (hd_Size header)\<rparr>, Inr header))) r2 = (r', Inr h)"
    unfolding nextFrame_def Let_def bindR_Inr by fastforce
  have h: "decodeHeader t = Inr h" "validateHeader h (rd_MaxBody r2) = None" "r' = r2\<lparr>rd_Current := Some (hd_Size h)\<rparr>"
    using rest by (auto split: sum.splits option.splits)
  obtain s1 where s1: "r1 = r\<lparr>rd_Stream := s1\<rparr>" "st_Data (rd_Stream r) = p @ st_Data s1" "length p = 8"
    "st_Last s1 = st_Last (rd_Stream r)" "st_Eager s1 = st_Eager (rd_Stream r)"
    using p(1) by (rule readPart_ok)
  obtain s2 where s2: "r2 = r1\<lparr>rd_Stream := s2\<rparr>" "st_Data s1 = t @ st_Data s2" "length t = bigEndianUint32 (drop 4 p)"
    "st_Last s2 = st_Last s1" "st_Eager s2 = st_Eager s1"
    using t s1(1) by (auto elim: readPart_ok)
  have "p = magic @ drop 4 p" using p(2) by (metis append_take_drop_id)
  then have "p @ t = magic @ drop 4 p @ t" by (metis append_assoc)
  then have d: "st_Data (rd_Stream r) = magic @ drop 4 p @ t @ st_Data s2" using s1(2) s2(2) by (metis append_assoc)
  show thesis
    by (rule that [of t "drop 4 p"]) (use i(1) h d s1 s2 p(3) in \<open>simp_all add: idle_def\<close>)
qed

text \<open>C17: Every frame that \<open>Next\<close> returns is well formed. It took from the stream exactly the magic, a
  length and that many bytes of header text, the header has protocol version 1, a known kind, a size
  within the reader's limit that is zero unless the kind carries a payload, and metadata that is an
  object without duplicate keys nested less than 64 deep; exactly its payload is then unread.\<close>

theorem next_header_well_formed:
  assumes "Next r = (r', Inr h)"
  shows "wellFormed (rd_MaxBody r) h \<and> rd_Current r' = Some (hd_Size h) \<and> rd_Err r' = None
    \<and> (\<exists>size text. st_Data (rd_Stream r) = ''CBXR'' @ size @ text @ st_Data (rd_Stream r')
         \<and> length size = 4 \<and> bigEndianUint32 size = length text \<and> length text \<le> 65536 \<and> decodeHeader text = Inr h)"
proof -
  obtain n t where f: "rd_Err r' = None" "rd_Current r' = Some (hd_Size h)" "validateHeader h (rd_MaxBody r) = None" "decodeHeader t = Inr h"
    "st_Data (rd_Stream r) = magic @ n @ t @ st_Data (rd_Stream r')" "length n = 4" "bigEndianUint32 n = length t" "length t \<le> MaxHeaderBytes"
    using assms by (rule Next_inv)
  have "wellFormed (rd_MaxBody r) h"
    using f(3) decodeHeader_meta [OF f(4)] by (auto simp: wellFormed_def validateHeader_None kind_defs MaxInt64_def)
  moreover have "st_Data (rd_Stream r) = ''CBXR'' @ n @ t @ st_Data (rd_Stream r')" using f(5) by (simp add: magic_def)
  ultimately show ?thesis using f(1,2,4,6,7,8) unfolding MaxHeaderBytes_def by blast
qed

definition demoFrame :: Header where
  "demoFrame = \<lparr>hd_Version = 1, hd_Kind = ''file'', hd_Size = 3, hd_Meta = Some (JObj [(''path'', JStr ''a'')])\<rparr>"

lemma demoFrame_sendable: "sendable demoFrame" "plainMeta demoFrame" "stamped demoFrame = demoFrame"
proof -
  show p: "plainMeta demoFrame"
    by (simp add: demoFrame_def plainMeta_def utf8_valid_ascii is_ascii_def code_def)
  have "length (headerText demoFrame) \<le> 200"
    by (simp add: headerText_def headerJson_def demoFrame_def jsonString_plain Itoa_def dec_nat.simps code_def)
  then show "sendable demoFrame"
    using p by (intro sendable_plain)
      (auto simp: validateHeader_None demoFrame_def kind_defs MaxInt64_def MaxHeaderBytes_def isObject_def)
qed (simp add: stamped_def demoFrame_def)

theorem next_header_well_formed_witness:
  "\<exists>r'. Next (NewReader (streamOf (frameBytes demoFrame ''xyz'')) 9) = (r', Inr demoFrame)
     \<and> wellFormed 9 demoFrame \<and> rd_Current r' = Some 3"
proof -
  let ?r = "NewReader (streamOf (frameBytes demoFrame ''xyz'')) 9"
  have "idle ?r" by (simp add: NewReader_def idle_def unread_def)
  then obtain s' where n: "Next ?r = (?r\<lparr>rd_Stream := s', rd_Current := Some (hd_Size demoFrame)\<rparr>, Inr demoFrame)"
    using Next_frame [of ?r demoFrame "''xyz''" "[]"] demoFrame_sendable
    by (auto simp: NewReader_def streamOf_def demoFrame_def)
  then show ?thesis using next_header_well_formed [OF n] by (auto simp: NewReader_def demoFrame_def)
qed

text \<open>C18: What \<open>WriteFrame\<close> writes, \<open>Next\<close> and reading the body to its end give back: the header (with
  the protocol version filled in) and exactly \<open>Size\<close> bytes of the body, wherever the transport cuts
  the stream and however large the buffers are, and the reader stands at what follows the frame.\<close>

theorem frame_round_trip:
  assumes "WriteFrame h body w = (w', Inr ())" and "plainMeta h"
    and "idle r" "sk_Out w @ st_Data (rd_Stream r) = sk_Out w' @ rest" "rest \<noteq> [] \<or> st_Last (rd_Stream r) = EOF"
    and "hd_Size h \<le> rd_MaxBody r" "hd_Size h \<le> bound"
  shows "\<exists>r1 r2. Next r = (r1, Inr (stamped h))
    \<and> ReadAll payloadRead space bound r1 = (r2, case body of Some b \<Rightarrow> take (hd_Size h) b | None \<Rightarrow> [], None)
    \<and> idle r2 \<and> st_Data (rd_Stream r2) = rest"
proof -
  obtain b where b: "sendable (stamped h)" "length b = hd_Size h" "sk_Out w' = sk_Out w @ frameBytes (stamped h) b"
    "b = (case body of None \<Rightarrow> [] | Some x \<Rightarrow> take (hd_Size h) x)"
    using assms(1) by (rule WriteFrame_ok)
  have same: "hd_Size (stamped h) = hd_Size h" "plainMeta (stamped h)" using assms(2) by (simp_all add: stamped_def plainMeta_def)
  obtain s' where s: "Next r = (r\<lparr>rd_Stream := s', rd_Current := Some (hd_Size h)\<rparr>, Inr (stamped h))"
    "st_Data s' = b @ rest" "st_Last s' = st_Last (rd_Stream r)"
    using Next_frame [OF assms(3) _ b(1) same(2), of b rest] assms(4,6) b(3) same(1) by auto
  obtain r' where "ReadAll payloadRead space bound (r\<lparr>rd_Stream := s', rd_Current := Some (hd_Size h)\<rparr>) = (r', b, None)"
    "idle r'" "st_Data (rd_Stream r') = rest"
    by (rule payload_read_all [of "r\<lparr>rd_Stream := s', rd_Current := Some (hd_Size h)\<rparr>" b rest bound space])
      (use s assms(3,5,7) b(2) in \<open>simp_all add: idle_def\<close>)
  then show ?thesis using s(1) b(4) by auto
qed

theorem frame_round_trip_witness:
  "\<exists>r1 r2. Next (NewReader \<lparr>st_Data = frameBytes demoFrame ''xyz'' @ ''rest'', st_Cuts = [1, 2, 3], st_Last = EOF, st_Eager = True\<rparr> 9)
       = (r1, Inr demoFrame)
    \<and> ReadAll payloadRead (\<lambda>_. 2) 9 r1 = (r2, ''xyz'', None) \<and> idle r2 \<and> st_Data (rd_Stream r2) = ''rest''"
proof -
  let ?w = "\<lparr>sk_Out = [], sk_Room = None, sk_Quiet = False\<rparr>"
  let ?r = "NewReader \<lparr>st_Data = frameBytes demoFrame ''xyz'' @ ''rest'', st_Cuts = [1, 2, 3], st_Last = EOF, st_Eager = True\<rparr> 9"
  have s: "hd_Size demoFrame = 3" by (simp add: demoFrame_def)
  have "WriteFrame demoFrame (Some ''xyz!'') ?w = (?w\<lparr>sk_Out := frameBytes demoFrame ''xyz''\<rparr>, Inr ())"
    using demoFrame_sendable s by (subst WriteFrame_room [where b = "''xyz''"]) (simp_all add: numeral_eq_Suc)
  from frame_round_trip [OF this, of ?r "''rest''" 9 "\<lambda>_. 2"] show ?thesis
    using demoFrame_sendable s by (simp add: NewReader_def idle_def unread_def numeral_eq_Suc)
qed

end
