(* ===== verification/RunnerProtocol.thy ===== *)
theory RunnerProtocol
  imports RunnerWire
begin

text \<open>
  The runner protocol over frames (internal/runner/protocol.go, client.go, transport.go): the metadata
  structures and their JSON, requests, and the client's reading of a response.

  \<^item> Each structure is a record with the source's fields; \<open>marshal\<close> is \<open>json.Marshal\<close> of it and the
    \<open>decode\<close> functions are \<open>decodeObject\<close> at its type. A nil slice is \<open>None\<close>. Where a value has
    several defects the error reported is one of them.
  \<^item> \<open>time.Time\<close> is its nanoseconds since the epoch; its JSON text is the parameter \<open>timeCodec\<close>.
  \<^item> A file consumer is a procedure on the frame reader and a state of its own. The context is the
    function from the number of the check to its error.
  \<^item> The loop of \<open>ReadResponse\<close> recurses on fuel, \<open>None\<close> when it is used up; one more than the bytes
    of the stream is enough because every round reads a frame.
\<close>

section \<open>Metadata\<close>

definition ExplicitMaxFiles :: nat where "ExplicitMaxFiles = 4096"
definition ExplicitMaxFileBytes :: nat where "ExplicitMaxFileBytes = 64 * 2 ^ 20"
definition ExplicitMaxTotalBytes :: nat where "ExplicitMaxTotalBytes = 256 * 2 ^ 20"
definition AutoMaxFiles :: nat where "AutoMaxFiles = 50"
definition AutoMaxTotalBytes :: nat where "AutoMaxTotalBytes = 64 * 2 ^ 20"
definition MaxCompressedBytes :: nat where "MaxCompressedBytes = 256 * 2 ^ 30"

definition validateResultPaths :: "string list option \<Rightarrow> gerr option" where
  "validateResultPaths paths =
     (if ExplicitMaxFiles < length (case paths of Some ps \<Rightarrow> ps | None \<Rightarrow> []) then Some (Fail ''explicit result path limit'')
      else None)"

definition MaxRequestBytes :: nat where
  "MaxRequestBytes = MaxCompressedBytes * 2 + MaxHeaderBytes * 2"

record Identity =
  id_BuildID :: string
  id_OS :: string
  id_Arch :: string
  id_Protocol :: int

definition RecoverArchive :: string where "RecoverArchive = ''recover-archive''"
definition Collect :: string where "Collect = ''collect''"
definition Upload :: string where "Upload = ''upload''"
definition Download :: string where "Download = ''download''"

lemmas operation_defs = RecoverArchive_def Collect_def Upload_def Download_def

definition ArchiveKeepDestination :: string where "ArchiveKeepDestination = ''keep-destination''"
definition ArchiveRestoreBackup :: string where "ArchiveRestoreBackup = ''restore-backup''"

record ArchiveSource =
  as_Base :: string
  as_ContentsOnly :: bool

record RunnerRequest =
  req_RecoveryChoice :: string
  req_BuildID :: string
  req_Operation :: string
  req_Workdir :: string
  req_Paths :: "string list option"
  req_Auto :: bool
  req_Marker :: string
  req_SourcePath :: string
  req_Destination :: string
  req_Source :: ArchiveSource

record FileInfo =
  fin_Path :: string
  fin_ModTime :: int
  fin_Archive :: bool
  fin_Source :: ArchiveSource

record Warning =
  wn_Path :: string
  wn_Message :: string

record Outcome =
  oc_RetainedPath :: string
  oc_Warnings :: "Warning list option"
  oc_Published :: bool

record RemoteError =
  re_Target :: string
  re_Code :: string
  re_Message :: string

text \<open>\<open>MarshalJSON\<close> and \<open>UnmarshalJSON\<close> of \<open>time.Time\<close>; marshalling fails outside the years 0 to 9999.\<close>

record timeCodec =
  tc_Marshal :: "int \<Rightarrow> string option"
  tc_Unmarshal :: "string \<Rightarrow> int option"

definition zeroTime :: int where "zeroTime = - 62135596800 * 10 ^ 9"

definition emptySource :: ArchiveSource where "emptySource = \<lparr>as_Base = [], as_ContentsOnly = False\<rparr>"

definition emptyOutcome :: Outcome where "emptyOutcome = \<lparr>oc_RetainedPath = [], oc_Warnings = None, oc_Published = False\<rparr>"

definition emptyFileInfo :: FileInfo where
  "emptyFileInfo = \<lparr>fin_Path = [], fin_ModTime = zeroTime, fin_Archive = False, fin_Source = emptySource\<rparr>"

datatype metadata =
    MIdentity Identity
  | MRequest RunnerRequest
  | MFile FileInfo
  | MOutcome Outcome
  | MRemote RemoteError

section \<open>Encoding\<close>

definition sourceJson :: "ArchiveSource \<Rightarrow> json" where
  "sourceJson s = JObj [(''base'', JStr (as_Base s)), (''contentsOnly'', JBool (as_ContentsOnly s))]"

definition warningJson :: "Warning \<Rightarrow> json" where
  "warningJson w = JObj [(''path'', JStr (wn_Path w)), (''message'', JStr (wn_Message w))]"

definition sliceJson :: "('a \<Rightarrow> json) \<Rightarrow> 'a list option \<Rightarrow> json" where
  "sliceJson f xs = (case xs of None \<Rightarrow> JNull | Some ys \<Rightarrow> JArr (map f ys))"

fun marshal :: "timeCodec \<Rightarrow> metadata \<Rightarrow> json option" where
  "marshal tc (MIdentity i) = Some (JObj
     [(''buildId'', JStr (id_BuildID i)), (''os'', JStr (id_OS i)), (''arch'', JStr (id_Arch i)),
      (''protocol'', JNum (Itoa (id_Protocol i)))])"
| "marshal tc (MRequest r) = Some (JObj
     [(''recoveryChoice'', JStr (req_RecoveryChoice r)), (''buildId'', JStr (req_BuildID r)),
      (''operation'', JStr (req_Operation r)), (''workdir'', JStr (req_Workdir r)),
      (''paths'', sliceJson JStr (req_Paths r)), (''auto'', JBool (req_Auto r)), (''marker'', JStr (req_Marker r)),
      (''sourcePath'', JStr (req_SourcePath r)), (''destination'', JStr (req_Destination r)),
      (''source'', sourceJson (req_Source r))])"
| "marshal tc (MFile f) = (case tc_Marshal tc (fin_ModTime f) of
       None \<Rightarrow> None
     | Some t \<Rightarrow> Some (JObj
         [(''path'', JStr (fin_Path f)), (''modTime'', JStr t), (''archive'', JBool (fin_Archive f)),
          (''source'', sourceJson (fin_Source f))]))"
| "marshal tc (MOutcome x) = Some (JObj
     [(''retainedPath'', JStr (oc_RetainedPath x)), (''warnings'', sliceJson warningJson (oc_Warnings x)),
      (''published'', JBool (oc_Published x))])"
| "marshal tc (MRemote e) = Some (JObj
     [(''target'', JStr (re_Target e)), (''code'', JStr (re_Code e)), (''message'', JStr (re_Message e))])"

text \<open>The strings that \<open>validateMetadataText\<close> finds in a structure; a \<open>time.Time\<close> has none.\<close>

fun texts :: "metadata \<Rightarrow> string list" where
  "texts (MIdentity i) = [id_BuildID i, id_OS i, id_Arch i]"
| "texts (MRequest r) =
     [req_RecoveryChoice r, req_BuildID r, req_Operation r, req_Workdir r]
     @ (case req_Paths r of Some ps \<Rightarrow> ps | None \<Rightarrow> [])
     @ [req_Marker r, req_SourcePath r, req_Destination r, as_Base (req_Source r)]"
| "texts (MFile f) = [fin_Path f, as_Base (fin_Source f)]"
| "texts (MOutcome x) =
     oc_RetainedPath x # concat (map (\<lambda>w. [wn_Path w, wn_Message w]) (case oc_Warnings x of Some ws \<Rightarrow> ws | None \<Rightarrow> []))"
| "texts (MRemote e) = [re_Target e, re_Code e, re_Message e]"

definition validateMetadataText :: "metadata \<Rightarrow> gerr option" where
  "validateMetadataText m =
     (if list_all utf8_valid (texts m) then None else Some (Fail ''runner metadata contains invalid UTF-8''))"

definition writeFrame :: "timeCodec \<Rightarrow> string \<Rightarrow> metadata option \<Rightarrow> nat \<Rightarrow> string option \<Rightarrow> (sink, unit) proc" where
  "writeFrame tc kind metadata len body =
     (case metadata of
        None \<Rightarrow> WriteFrame \<lparr>hd_Version = 0, hd_Kind = kind, hd_Size = len, hd_Meta = None\<rparr> body
      | Some m \<Rightarrow>
          bindR (checkR (validateMetadataText m)) (\<lambda>_.
            case marshal tc m of
              None \<Rightarrow> failR jsonError
            | Some meta \<Rightarrow> WriteFrame \<lparr>hd_Version = 0, hd_Kind = kind, hd_Size = len, hd_Meta = Some meta\<rparr> body))"

section \<open>Decoding\<close>

text \<open>\<open>exactMetadataKeys\<close> of a structure: the value is an object and has no field but those known.\<close>

definition exactKeys :: "string list \<Rightarrow> json \<Rightarrow> ((string \<times> json) list) res" where
  "exactKeys known v =
     (case v of
        JObj ms \<Rightarrow> if list_all (\<lambda>(k, x). k \<in> set known) ms then Inr ms else Inl (Fail ''unknown runner metadata field'')
      | JNull \<Rightarrow> Inl (Fail ''runner metadata must be an object'')
      | _ \<Rightarrow> Inl jsonError)"

definition setBool :: "bool \<Rightarrow> json option \<Rightarrow> bool option" where
  "setBool old v = (case v of None \<Rightarrow> Some old | Some JNull \<Rightarrow> Some old | Some (JBool b) \<Rightarrow> Some b | Some _ \<Rightarrow> None)"

definition setTime :: "timeCodec \<Rightarrow> int \<Rightarrow> json option \<Rightarrow> int option" where
  "setTime tc old v =
     (case v of None \<Rightarrow> Some old | Some JNull \<Rightarrow> Some old | Some (JStr t) \<Rightarrow> tc_Unmarshal tc t | Some _ \<Rightarrow> None)"

fun mapRes :: "('a \<Rightarrow> 'b res) \<Rightarrow> 'a list \<Rightarrow> 'b list res" where
  "mapRes f [] = Inr []"
| "mapRes f (x # xs) =
     (case f x of Inl e \<Rightarrow> Inl e | Inr y \<Rightarrow> (case mapRes f xs of Inl e \<Rightarrow> Inl e | Inr ys \<Rightarrow> Inr (y # ys)))"

definition setSlice :: "(json \<Rightarrow> 'a res) \<Rightarrow> json option \<Rightarrow> 'a list option res" where
  "setSlice f v =
     (case v of
        None \<Rightarrow> Inr None
      | Some JNull \<Rightarrow> Inr None
      | Some (JArr vs) \<Rightarrow> (case mapRes f vs of Inl e \<Rightarrow> Inl e | Inr ys \<Rightarrow> Inr (Some ys))
      | Some _ \<Rightarrow> Inl jsonError)"

definition ofOption :: "'a option \<Rightarrow> 'a res" where
  "ofOption x = (case x of Some y \<Rightarrow> Inr y | None \<Rightarrow> Inl jsonError)"

definition decodeSource :: "json option \<Rightarrow> ArchiveSource res" where
  "decodeSource v =
     (case v of
        None \<Rightarrow> Inr emptySource
      | Some x \<Rightarrow>
          (case exactKeys [''base'', ''contentsOnly''] x of
             Inl e \<Rightarrow> Inl e
           | Inr ms \<Rightarrow>
               (case (setString [] (map_of ms ''base''), setBool False (map_of ms ''contentsOnly'')) of
                  (Some b, Some c) \<Rightarrow> Inr \<lparr>as_Base = b, as_ContentsOnly = c\<rparr>
                | _ \<Rightarrow> Inl jsonError)))"

definition decodeWarning :: "json \<Rightarrow> Warning res" where
  "decodeWarning v =
     (case exactKeys [''path'', ''message''] v of
        Inl e \<Rightarrow> Inl e
      | Inr ms \<Rightarrow>
          (case (setString [] (map_of ms ''path''), setString [] (map_of ms ''message'')) of
             (Some p, Some m) \<Rightarrow> Inr \<lparr>wn_Path = p, wn_Message = m\<rparr>
           | _ \<Rightarrow> Inl jsonError))"

text \<open>\<open>decodeObject\<close>; a frame without metadata has empty text, which is not JSON.\<close>

definition objectOf :: "string list \<Rightarrow> json option \<Rightarrow> ((string \<times> json) list) res" where
  "objectOf known meta = (case meta of None \<Rightarrow> Inl jsonError | Some v \<Rightarrow> exactKeys known v)"

definition decodeIdentity :: "json option \<Rightarrow> Identity res" where
  "decodeIdentity meta =
     (case objectOf [''buildId'', ''os'', ''arch'', ''protocol''] meta of
        Inl e \<Rightarrow> Inl e
      | Inr ms \<Rightarrow>
          (case (setString [] (map_of ms ''buildId''), setString [] (map_of ms ''os''), setString [] (map_of ms ''arch''),
                 setInt 0 (map_of ms ''protocol'')) of
             (Some b, Some os, Some a, Some p) \<Rightarrow> Inr \<lparr>id_BuildID = b, id_OS = os, id_Arch = a, id_Protocol = p\<rparr>
           | _ \<Rightarrow> Inl jsonError))"

definition decodeRequest :: "json option \<Rightarrow> RunnerRequest res" where
  "decodeRequest meta =
     (case objectOf [''recoveryChoice'', ''buildId'', ''operation'', ''workdir'', ''paths'', ''auto'', ''marker'', ''sourcePath'',
                     ''destination'', ''source''] meta of
        Inl e \<Rightarrow> Inl e
      | Inr ms \<Rightarrow>
          (case (setString [] (map_of ms ''recoveryChoice''), setString [] (map_of ms ''buildId''),
                 setString [] (map_of ms ''operation''), setString [] (map_of ms ''workdir''),
                 setSlice (\<lambda>v. ofOption (setString [] (Some v))) (map_of ms ''paths''), setBool False (map_of ms ''auto''),
                 setString [] (map_of ms ''marker''), setString [] (map_of ms ''sourcePath''),
                 setString [] (map_of ms ''destination''), decodeSource (map_of ms ''source'')) of
             (Some c, Some b, Some oper, Some w, Inr ps, Some a, Some m, Some sp, Some d, Inr s) \<Rightarrow>
               Inr \<lparr>req_RecoveryChoice = c, req_BuildID = b, req_Operation = oper, req_Workdir = w, req_Paths = ps, req_Auto = a,
                    req_Marker = m, req_SourcePath = sp, req_Destination = d, req_Source = s\<rparr>
           | (_, _, _, _, _, _, _, _, _, Inl e) \<Rightarrow> Inl e
           | _ \<Rightarrow> Inl jsonError))"

definition decodeFileInfo :: "timeCodec \<Rightarrow> json option \<Rightarrow> FileInfo res" where
  "decodeFileInfo tc meta =
     (case objectOf [''path'', ''modTime'', ''archive'', ''source''] meta of
        Inl e \<Rightarrow> Inl e
      | Inr ms \<Rightarrow>
          (case (setString [] (map_of ms ''path''), setTime tc zeroTime (map_of ms ''modTime''),
                 setBool False (map_of ms ''archive''), decodeSource (map_of ms ''source'')) of
             (Some p, Some t, Some a, Inr s) \<Rightarrow> Inr \<lparr>fin_Path = p, fin_ModTime = t, fin_Archive = a, fin_Source = s\<rparr>
           | (_, _, _, Inl e) \<Rightarrow> Inl e
           | _ \<Rightarrow> Inl jsonError))"

definition decodeOutcome :: "json option \<Rightarrow> Outcome res" where
  "decodeOutcome meta =
     (case objectOf [''retainedPath'', ''warnings'', ''published''] meta of
        Inl e \<Rightarrow> Inl e
      | Inr ms \<Rightarrow>
          (case (setString [] (map_of ms ''retainedPath''), setSlice decodeWarning (map_of ms ''warnings''),
                 setBool False (map_of ms ''published'')) of
             (Some r, Inr ws, Some p) \<Rightarrow> Inr \<lparr>oc_RetainedPath = r, oc_Warnings = ws, oc_Published = p\<rparr>
           | (_, Inl e, _) \<Rightarrow> Inl e
           | _ \<Rightarrow> Inl jsonError))"

definition decodeRemoteError :: "json option \<Rightarrow> RemoteError res" where
  "decodeRemoteError meta =
     (case objectOf [''target'', ''code'', ''message''] meta of
        Inl e \<Rightarrow> Inl e
      | Inr ms \<Rightarrow>
          (case (setString [] (map_of ms ''target''), setString [] (map_of ms ''code''), setString [] (map_of ms ''message'')) of
             (Some t, Some c, Some m) \<Rightarrow> Inr \<lparr>re_Target = t, re_Code = c, re_Message = m\<rparr>
           | _ \<Rightarrow> Inl jsonError))"

section \<open>Requests\<close>

definition WriteRequest :: "timeCodec \<Rightarrow> RunnerRequest \<Rightarrow> nat \<Rightarrow> string option \<Rightarrow> (sink, unit) proc" where
  "WriteRequest tc request len body =
     bindR (requireR (req_BuildID request \<noteq> []) (Fail ''runner request requires a build identity'')) (\<lambda>_.
     bindR (requireR (\<not> (req_Operation request = RecoverArchive \<and> req_RecoveryChoice request \<noteq> ArchiveKeepDestination
                         \<and> req_RecoveryChoice request \<noteq> ArchiveRestoreBackup))
              (Fail ''choose keep-destination or restore-backup'')) (\<lambda>_.
     bindR (checkR (if req_Operation request = Collect then validateResultPaths (req_Paths request) else None)) (\<lambda>_.
     bindR (requireR (\<not> (req_Operation request \<noteq> Upload \<and> len \<noteq> 0)) (Fail ''runner operation cannot send a payload'')) (\<lambda>_.
     bindR (writeFrame tc RunnerWire.Request (Some (MRequest request)) len body) (\<lambda>_.
     writeFrame tc End None 0 None)))))"

section \<open>Responses\<close>

definition readEnd :: "(Reader, unit) proc" where
  "readEnd r =
     (case Next r of
        (r1, Inl e) \<Rightarrow> (r1, Inl e)
      | (r1, Inr h) \<Rightarrow>
          if hd_Kind h \<noteq> End \<or> hd_Meta h \<noteq> None then (r1, Inl (Fail ''missing runner end frame''))
          else (case Next r1 of
                  (r2, Inr _) \<Rightarrow> (r2, Inl (Fail ''runner stream has trailing data''))
                | (r2, Inl e) \<Rightarrow> (r2, if e = EOF then Inr () else Inl (Joined (Fail ''runner stream termination'') e))))"

datatype runErr = Wire gerr | Remote RemoteError | RemoteAnd RemoteError gerr

type_synonym 'c consumer = "FileInfo \<Rightarrow> (Reader \<times> 'c, unit) proc"

definition aggregateLimit :: nat where "aggregateLimit = ExplicitMaxTotalBytes + AutoMaxTotalBytes"

text \<open>The checks of a file frame, the \<open>count\<close>-th; \<open>total\<close> is a \<open>uint64\<close>.\<close>

definition fileFrame :: "timeCodec \<Rightarrow> string \<Rightarrow> nat \<Rightarrow> nat \<Rightarrow> string set \<Rightarrow> Header \<Rightarrow> (FileInfo \<times> nat \<times> string set) res" where
  "fileFrame tc operation count bytes seen h =
     (case decodeFileInfo tc (hd_Meta h) of
        Inl e \<Rightarrow> Inl e
      | Inr info \<Rightarrow>
          if operation = Upload then Inl (Fail ''upload returned an unexpected file'')
          else if operation = Download then
            (if count \<noteq> 1 \<or> \<not> fin_Archive info then Inl (Fail ''download returned an invalid archive frame'')
             else Inr (info, bytes, seen))
          else if operation \<noteq> Collect \<or> fin_Archive info \<or> fin_Path info = [] \<or> fin_Path info \<in> seen
                  \<or> ExplicitMaxFiles + AutoMaxFiles < count then Inl (Fail ''invalid runner result file'')
          else if (aggregateLimit + 2 ^ 64 - bytes) mod 2 ^ 64 < hd_Size h then Inl (Fail ''runner results exceed aggregate limit'')
          else Inr (info, (bytes + hd_Size h) mod 2 ^ 64, insert (fin_Path info) seen))"

definition resultFrame :: "string \<Rightarrow> nat \<Rightarrow> Header \<Rightarrow> Reader \<Rightarrow> Reader \<times> (runErr + Outcome)" where
  "resultFrame operation count h r =
     (case decodeOutcome (hd_Meta h) of
        Inl e \<Rightarrow> (r, Inl (Wire e))
      | Inr outcome \<Rightarrow>
          if operation = Download \<and> count \<noteq> 1 then (r, Inl (Wire (Fail ''runner download omitted its archive'')))
          else if (oc_RetainedPath outcome \<noteq> []) \<noteq> (operation = RecoverArchive)
            then (r, Inl (Wire (Fail ''invalid runner recovery outcome'')))
          else if oc_Published outcome \<noteq> (operation = Upload)
            then (r, Inl (Wire (Fail ''invalid runner publication outcome'')))
          else (case readEnd r of (r', Inl e) \<Rightarrow> (r', Inl (Wire e)) | (r', Inr _) \<Rightarrow> (r', Inr outcome)))"

definition errorFrame :: "Header \<Rightarrow> Reader \<Rightarrow> Reader \<times> (runErr + Outcome)" where
  "errorFrame h r =
     (case decodeRemoteError (hd_Meta h) of
        Inl e \<Rightarrow> (r, Inl (Wire e))
      | Inr remote \<Rightarrow>
          if re_Code remote = [] \<or> re_Message remote = [] then (r, Inl (Wire (Fail ''invalid runner error'')))
          else if (re_Code remote = ''recovery-required'') \<noteq> (re_Target remote \<noteq> [])
            then (r, Inl (Wire (Fail ''invalid runner recovery destination'')))
          else (case readEnd r of (r', Inl e) \<Rightarrow> (r', Inl (RemoteAnd remote e)) | (r', Inr _) \<Rightarrow> (r', Inl (Remote remote))))"

fun responseLoop :: "nat \<Rightarrow> timeCodec \<Rightarrow> string \<Rightarrow> (nat \<Rightarrow> gerr option) \<Rightarrow> 'c consumer option \<Rightarrow> nat \<Rightarrow> nat \<Rightarrow> string set
    \<Rightarrow> Reader \<times> 'c \<Rightarrow> ((Reader \<times> 'c) \<times> (runErr + Outcome)) option" where
  "responseLoop 0 tc operation ctx consume count bytes seen s = None"
| "responseLoop (Suc fuel) tc operation ctx consume count bytes seen s =
     (case ctx count of
        Some e \<Rightarrow> Some (s, Inl (Wire e))
      | None \<Rightarrow>
          (case Next (fst s) of
             (r1, Inl e) \<Rightarrow> Some ((r1, snd s), Inl (Wire e))
           | (r1, Inr h) \<Rightarrow>
               if hd_Kind h = File then
                 (case fileFrame tc operation (count + 1) bytes seen h of
                    Inl e \<Rightarrow> Some ((r1, snd s), Inl (Wire e))
                  | Inr (info, bytes', seen') \<Rightarrow>
                      (case consume of
                         None \<Rightarrow> Some ((r1, snd s), Inl (Wire (Fail ''runner file has no consumer'')))
                       | Some f \<Rightarrow>
                           (case f info (r1, snd s) of
                              (s', Inl e) \<Rightarrow> Some (s', Inl (Wire e))
                            | (s', Inr _) \<Rightarrow> responseLoop fuel tc operation ctx consume (count + 1) bytes' seen' s')))
               else if hd_Kind h = Result then
                 (case resultFrame operation count h r1 of (r2, res) \<Rightarrow> Some ((r2, snd s), res))
               else if hd_Kind h = Error then
                 (case errorFrame h r1 of (r2, res) \<Rightarrow> Some ((r2, snd s), res))
               else Some ((r1, snd s), Inl (Wire (Fail ''unexpected runner response frame'')))))"

definition maxBody :: "string \<Rightarrow> nat" where
  "maxBody operation = (if operation = Download then MaxCompressedBytes else ExplicitMaxFileBytes)"

definition ReadResponse :: "timeCodec \<Rightarrow> (nat \<Rightarrow> gerr option) \<Rightarrow> stream \<Rightarrow> Identity \<Rightarrow> string \<Rightarrow> 'c consumer option \<Rightarrow> 'c
    \<Rightarrow> ((Reader \<times> 'c) \<times> (runErr + Outcome)) option" where
  "ReadResponse tc ctx input expected operation consume c =
     (case Next (NewReader input (maxBody operation)) of
        (r, Inl e) \<Rightarrow> Some ((r, c), Inl (Wire e))
      | (r, Inr h) \<Rightarrow>
          if hd_Kind h \<noteq> Hello then Some ((r, c), Inl (Wire (Fail ''runner response has no identity'')))
          else (case decodeIdentity (hd_Meta h) of
                  Inl e \<Rightarrow> Some ((r, c), Inl (Wire e))
                | Inr actual \<Rightarrow>
                    if id_BuildID expected = [] \<or> actual \<noteq> expected \<or> id_Protocol actual \<noteq> Version
                    then Some ((r, c), Inl (Wire (Fail ''runner response identity mismatch'')))
                    else responseLoop (Suc (length (st_Data input))) tc operation ctx consume 0 0 {} (r, c)))"

section \<open>The consumer of collected files\<close>

record File =
  fl_Path :: string
  fl_ModTime :: int
  fl_Data :: string

text \<open>The consumer of \<open>Client.Collect\<close>: it reads the body to its end, with the buffer sizes of
  \<open>io.ReadAll\<close>, and keeps the file.\<close>

definition collectFile :: "(nat \<Rightarrow> nat) \<Rightarrow> File list consumer" where
  "collectFile space info s =
     (case ReadAll payloadRead space (unread (fst s)) (fst s) of (r, d, err) \<Rightarrow>
        (case err of
           Some e \<Rightarrow> ((r, snd s), Inl e)
         | None \<Rightarrow> ((r, snd s @ [\<lparr>fl_Path = fin_Path info, fl_ModTime = fin_ModTime info, fl_Data = d\<rparr>]), Inr ())))"

record Results =
  rl_Files :: "File list"
  rl_Warnings :: "Warning list option"

section \<open>Structures are read back\<close>

text \<open>The documented behaviour of \<open>time.Time\<close>'s JSON: what marshals is UTF-8 and unmarshals to the same time.\<close>

definition goodCodec :: "timeCodec \<Rightarrow> bool" where
  "goodCodec tc \<longleftrightarrow> (\<forall>t s. tc_Marshal tc t = Some s \<longrightarrow> utf8_valid s \<and> tc_Unmarshal tc s = Some t)"

lemma mapRes_map: "(\<And>x. x \<in> set xs \<Longrightarrow> f (g x) = Inr x) \<Longrightarrow> mapRes f (map g xs) = Inr xs"
  by (induction xs) auto

lemma setSlice_slice: "(\<And>x. f (g x) = Inr x) \<Longrightarrow> setSlice f (Some (sliceJson g xs)) = Inr xs"
  by (cases xs) (simp_all add: setSlice_def sliceJson_def mapRes_map)

lemmas decode_simps = objectOf_def exactKeys_def setString_def setBool_def setInt_def setTime_def ofOption_def

lemma decodeSource_json: "decodeSource (Some (sourceJson s)) = Inr s"
  by (simp add: decodeSource_def sourceJson_def decode_simps)

lemma decodeWarning_json: "decodeWarning (warningJson w) = Inr w"
  by (simp add: decodeWarning_def warningJson_def decode_simps)

lemma decodeIdentity_marshal:
  "id_Protocol i = 1 \<Longrightarrow> decodeIdentity (marshal tc (MIdentity i)) = Inr i"
  using Atoi_dec_nat [of 1] by (simp add: decodeIdentity_def decode_simps Itoa_def)

lemma decodeRequest_marshal: "decodeRequest (marshal tc (MRequest r)) = Inr r"
  using setSlice_slice [of "\<lambda>v. ofOption (setString [] (Some v))" JStr "req_Paths r"]
  by (simp add: decodeRequest_def decode_simps decodeSource_json)

lemma decodeFileInfo_marshal:
  "goodCodec tc \<Longrightarrow> marshal tc (MFile f) = Some v \<Longrightarrow> decodeFileInfo tc (Some v) = Inr f"
  by (auto simp: decodeFileInfo_def decode_simps decodeSource_json goodCodec_def split: option.splits)

lemma decodeOutcome_marshal: "decodeOutcome (marshal tc (MOutcome x)) = Inr x"
  by (simp add: decodeOutcome_def decode_simps setSlice_slice decodeWarning_json)

lemma decodeRemoteError_marshal: "decodeRemoteError (marshal tc (MRemote e)) = Inr e"
  by (simp add: decodeRemoteError_def decode_simps)

text \<open>The JSON of a structure is an object that a header may carry.\<close>

lemma ascii_utf8 [simp]: "utf8_valid (c # s)" if "is_ascii (c # s)"
  using that by (rule utf8_valid_ascii)

lemma wfJson_slice: "(\<And>x. x \<in> set (case xs of Some ys \<Rightarrow> ys | None \<Rightarrow> []) \<Longrightarrow> wfJson (f x)) \<Longrightarrow> wfJson (sliceJson f xs)"
  by (cases xs) (auto simp: sliceJson_def list_all_iff)

lemma wfJson_marshal:
  assumes "goodCodec tc" "validateMetadataText m = None" "marshal tc m = Some v" "\<And>i. m = MIdentity i \<Longrightarrow> 0 \<le> id_Protocol i"
  shows "wfJson v"
proof (cases m)
  case (MIdentity i)
  then show ?thesis using assms by (auto simp: validateMetadataText_def Itoa_def natLiteral_dec_nat code_def split: if_splits)
next
  case (MRequest r)
  then have "\<forall>t \<in> set (texts (MRequest r)). utf8_valid t" using assms(2) by (auto simp: validateMetadataText_def list_all_iff split: if_splits)
  then show ?thesis using assms(3) MRequest by (auto simp: sourceJson_def code_def intro!: wfJson_slice)
next
  case (MFile f)
  then show ?thesis using assms
    by (auto simp: validateMetadataText_def sourceJson_def code_def goodCodec_def split: if_splits option.splits)
next
  case (MOutcome x)
  then have "\<forall>t \<in> set (texts (MOutcome x)). utf8_valid t" using assms(2) by (auto simp: validateMetadataText_def list_all_iff split: if_splits)
  then show ?thesis using assms(3) MOutcome by (auto simp: warningJson_def code_def intro!: wfJson_slice)
next
  case (MRemote e)
  then show ?thesis using assms by (auto simp: validateMetadataText_def code_def split: if_splits)
qed

lemma slice_shape [simp]:
  "distinctKeys (sliceJson JStr xs)" "jdepth (sliceJson JStr xs) \<le> 2"
  "distinctKeys (sliceJson warningJson ws)" "jdepth (sliceJson warningJson ws) \<le> 2"
  by (cases xs; cases ws; auto simp: sliceJson_def warningJson_def list_all_iff fold_max_le)+

lemma marshal_shape:
  assumes "marshal tc m = Some v"
  shows "isObject v" "distinctKeys v" "jdepth v \<le> 3"
  using assms by (cases m; auto simp: isObject_def sourceJson_def split: option.splits)+

section \<open>Frames that were written\<close>

definition frameHeader :: "string \<Rightarrow> json option \<Rightarrow> nat \<Rightarrow> Header" where
  "frameHeader kind meta len = \<lparr>hd_Version = 1, hd_Kind = kind, hd_Size = len, hd_Meta = meta\<rparr>"

lemma frameHeader_simps [simp]:
  "hd_Version (frameHeader k m n) = 1" "hd_Kind (frameHeader k m n) = k" "hd_Size (frameHeader k m n) = n" "hd_Meta (frameHeader k m n) = m"
  by (simp_all add: frameHeader_def)

lemma stamped_frameHeader: "stamped \<lparr>hd_Version = 0, hd_Kind = k, hd_Size = n, hd_Meta = m\<rparr> = frameHeader k m n"
  by (simp add: stamped_def frameHeader_def Version_def)

lemma WriteFrame_frame:
  assumes "WriteFrame \<lparr>hd_Version = 0, hd_Kind = kind, hd_Size = len, hd_Meta = meta\<rparr> body w = (w', Inr u)"
  obtains b where "sendable (frameHeader kind meta len)" "length b = len" "sk_Out w' = sk_Out w @ frameBytes (frameHeader kind meta len) b"
    "b = (case body of None \<Rightarrow> [] | Some x \<Rightarrow> take len x)"
proof -
  from assms obtain b where "sendable (frameHeader kind meta len)" "length b = len"
    "sk_Out w' = sk_Out w @ frameBytes (frameHeader kind meta len) b"
    "b = (case body of None \<Rightarrow> [] | Some x \<Rightarrow> take (hd_Size \<lparr>hd_Version = 0, hd_Kind = kind, hd_Size = len, hd_Meta = meta\<rparr>) x)"
    by (rule WriteFrame_ok) (simp add: stamped_frameHeader)
  then show thesis by (intro that [of b]) (cases body; simp)+
qed

text \<open>A frame with structured metadata that can be sent and read back.\<close>

definition goodFrame :: "timeCodec \<Rightarrow> string \<Rightarrow> metadata option \<Rightarrow> nat \<Rightarrow> Header \<Rightarrow> bool" where
  "goodFrame tc kind md len h \<longleftrightarrow> h = frameHeader kind (case md of None \<Rightarrow> None | Some m \<Rightarrow> marshal tc m) len
     \<and> (\<forall>m. md = Some m \<longrightarrow> marshal tc m \<noteq> None) \<and> sendable h \<and> plainMeta h"

lemma writeFrame_ok:
  assumes "writeFrame tc kind md len body w = (w', Inr u)" "goodCodec tc" "\<And>i. md = Some (MIdentity i) \<Longrightarrow> 0 \<le> id_Protocol i"
  obtains h b where "goodFrame tc kind md len h" "length b = len" "sk_Out w' = sk_Out w @ frameBytes h b"
    "b = (case body of None \<Rightarrow> [] | Some x \<Rightarrow> take len x)"
proof (cases md)
  case None
  then have "WriteFrame \<lparr>hd_Version = 0, hd_Kind = kind, hd_Size = len, hd_Meta = None\<rparr> body w = (w', Inr u)"
    using assms(1) by (simp add: writeFrame_def)
  then obtain b where b: "sendable (frameHeader kind None len)" "length b = len"
    "sk_Out w' = sk_Out w @ frameBytes (frameHeader kind None len) b" "b = (case body of None \<Rightarrow> [] | Some x \<Rightarrow> take len x)"
    by (rule WriteFrame_frame)
  then show thesis using None by (intro that [of "frameHeader kind None len" b]) (simp_all add: goodFrame_def plainMeta_def)
next
  case (Some m)
  then obtain v where v: "marshal tc m = Some v" "validateMetadataText m = None"
    and w: "WriteFrame \<lparr>hd_Version = 0, hd_Kind = kind, hd_Size = len, hd_Meta = Some v\<rparr> body w = (w', Inr u)"
    using assms(1) by (auto simp: writeFrame_def bindR_Inr split: option.splits)
  from w obtain b where b: "sendable (frameHeader kind (Some v) len)" "length b = len"
    "sk_Out w' = sk_Out w @ frameBytes (frameHeader kind (Some v) len) b" "b = (case body of None \<Rightarrow> [] | Some x \<Rightarrow> take len x)"
    by (rule WriteFrame_frame)
  have "wfJson v" using wfJson_marshal [OF assms(2) v(2,1)] assms(3) Some by auto
  then show thesis using b v Some by (intro that [of "frameHeader kind (Some v) len" b]) (simp_all add: goodFrame_def plainMeta_def)
qed

lemma Next_goodFrame:
  assumes "idle r" "st_Data (rd_Stream r) = frameBytes h body @ rest" "goodFrame tc kind md len h" "len \<le> rd_MaxBody r"
  obtains s' where "Next r = (r\<lparr>rd_Stream := s', rd_Current := Some len\<rparr>, Inr h)" "st_Data s' = body @ rest"
    "st_Last s' = st_Last (rd_Stream r)" "hd_Kind h = kind" "hd_Size h = len"
    "\<And>m. md = Some m \<Longrightarrow> hd_Meta h = marshal tc m \<and> marshal tc m \<noteq> None" "md = None \<Longrightarrow> hd_Meta h = None"
proof -
  have h: "sendable h" "plainMeta h" "hd_Kind h = kind" "hd_Size h = len" using assms(3) by (auto simp: goodFrame_def)
  obtain s' where "Next r = (r\<lparr>rd_Stream := s', rd_Current := Some (hd_Size h)\<rparr>, Inr h)" "st_Data s' = body @ rest"
    "st_Last s' = st_Last (rd_Stream r)"
    by (rule Next_frame [OF assms(1,2) h(1,2)]) (use h assms(4) in auto)
  then show thesis using assms(3) h by (intro that [of s']) (auto simp: goodFrame_def)
qed

lemma Next_empty:
  assumes "idle r" "st_Data (rd_Stream r) = []"
  obtains r' where "Next r = (r', Inl (st_Last (rd_Stream r)))" "st_Data (rd_Stream r') = []"
proof -
  have "length (st_Data (rd_Stream r)) < 8" using assms(2) by simp
  then obtain s' where s: "readPart 8 r = (r\<lparr>rd_Stream := s'\<rparr>, Inl (st_Last (rd_Stream r)))" "st_Data s' = []"
    by (rule readPart_short) (use assms(2) in simp)
  then show thesis using assms(1)
    by (intro that [of "r\<lparr>rd_Stream := s', rd_Err := Some (st_Last (rd_Stream r))\<rparr>"])
      (simp_all add: Next_idle nextFrame_def bindR_def)
qed

lemma readEnd_written:
  assumes "idle r" "st_Data (rd_Stream r) = frameBytes h []" "goodFrame tc End None 0 h" "st_Last (rd_Stream r) = EOF"
  obtains r' where "readEnd r = (r', Inr ())" "st_Data (rd_Stream r') = []"
proof -
  obtain s' where s: "Next r = (r\<lparr>rd_Stream := s', rd_Current := Some 0\<rparr>, Inr h)" "st_Data s' = []" "st_Last s' = EOF"
    "hd_Kind h = End" "hd_Meta h = None"
    by (rule Next_goodFrame [OF assms(1) _ assms(3), of "[]" "[]"]) (use assms in auto)
  let ?r = "r\<lparr>rd_Stream := s', rd_Current := Some 0\<rparr>"
  obtain r2 where "Next ?r = (r2, Inl EOF)" "st_Data (rd_Stream r2) = []"
    by (rule Next_empty [of ?r]) (use assms(1) s in \<open>auto simp: idle_def unread_def\<close>)
  then show thesis using s by (intro that [of r2]) (auto simp: readEnd_def)
qed

section \<open>The response loop returns\<close>

lemma Next_consumes: "Next r = (r', Inr h) \<Longrightarrow> length (st_Data (rd_Stream r')) + 8 \<le> length (st_Data (rd_Stream r))"
  by (rule Next_inv) (auto simp: magic_def)

definition shrinks :: "'c consumer \<Rightarrow> bool" where
  "shrinks f \<longleftrightarrow> (\<forall>info s s' x. f info s = (s', x) \<longrightarrow> length (st_Data (rd_Stream (fst s'))) \<le> length (st_Data (rd_Stream (fst s))))"

lemma responseLoop_returns:
  assumes "\<forall>f. consume = Some f \<longrightarrow> shrinks f" "length (st_Data (rd_Stream (fst s))) < fuel"
  shows "\<exists>y. responseLoop fuel tc operation ctx consume count n seen s = Some y"
  using assms(2)
proof (induction fuel arbitrary: count n seen s)
  case (Suc fuel)
  have "\<exists>y. responseLoop fuel tc operation ctx consume (count + 1) n' seen' s' = Some y"
    if "Next (fst s) = (r1, Inr h)" "consume = Some f" "f info (r1, snd s) = (s', x)" for r1 h f info s' x n' seen'
  proof (rule Suc.IH)
    have "length (st_Data (rd_Stream (fst s'))) \<le> length (st_Data (rd_Stream r1))"
      using assms(1) that(2) that(3) unfolding shrinks_def by (metis fst_conv)
    then show "length (st_Data (rd_Stream (fst s'))) < fuel" using Next_consumes [OF that(1)] Suc.prems by simp
  qed
  then show ?case by (auto split: option.splits prod.splits sum.splits)
qed simp

section \<open>Collecting the files of a response\<close>

lemma collectFile_ok:
  assumes "collectFile space info (r, fs) = ((r', fs'), Inr u)" "rd_Err r = None"
  obtains d where "fs' = fs @ [\<lparr>fl_Path = fin_Path info, fl_ModTime = fin_ModTime info, fl_Data = d\<rparr>]" "length d = unread r"
    "rd_MaxBody r' = rd_MaxBody r"
proof -
  have b: "behind (rd_MaxBody r) (st_Last (rd_Stream r)) (drop (unread r) (st_Data (rd_Stream r))) r" using assms(2) by (simp add: behind_def)
  have "length (payPending r) < Suc (unread r)" by (simp add: payPending_def less_Suc_eq_le)
  from pay.ReadAll_all [OF b this, of space] obtain r1 where
    a: "ReadAll payloadRead space (unread r) r = (r1, payPending r, if payFinal r = EOF then None else Some (payFinal r))"
      "rd_MaxBody r1 = rd_MaxBody r" by (auto simp: behind_def)
  then have e: "payFinal r = EOF" "fs' = fs @ [\<lparr>fl_Path = fin_Path info, fl_ModTime = fin_ModTime info, fl_Data = payPending r\<rparr>]" "r' = r1"
    using assms(1) by (auto simp: collectFile_def split: if_splits)
  then have "\<not> cutShort r" using assms(2) by (auto simp: payFinal_def split: if_splits)
  then have "length (payPending r) = unread r" using assms(2) by (simp add: payPending_def cutShort_def)
  then show thesis using e a(2) by (intro that [of "payPending r"]) simp_all
qed

lemma readAllLoop_shrinks: "readAllLoop payloadRead space fuel got r = (r', d, e) \<Longrightarrow>
    length (st_Data (rd_Stream r')) \<le> length (st_Data (rd_Stream r))"
proof (induction fuel arbitrary: got r)
  case (Suc fuel)
  obtain r1 d1 e1 where p: "payloadRead r (max 1 (space (length got))) = (r1, d1, e1)" using prod_cases3 by blast
  have "length (st_Data (rd_Stream r1)) \<le> length (st_Data (rd_Stream r))"
    using p by (cases rule: payloadRead_cases) (auto dest: streamRead_shape(3))
  then show ?case using Suc p by (fastforce split: option.splits)
qed simp

lemma collectFile_shrinks: "shrinks (collectFile space)"
  unfolding shrinks_def
proof (intro allI impI)
  fix info and s :: "Reader \<times> File list" and s' x
  assume c: "collectFile space info s = (s', x)"
  obtain r d e where a: "readAllLoop payloadRead space (Suc (unread (fst s))) [] (fst s) = (r, d, e)" using prod_cases3 by blast
  then have "fst s' = r" using c by (auto simp: collectFile_def ReadAll_def split: option.splits simp del: readAllLoop.simps)
  then show "length (st_Data (rd_Stream (fst s'))) \<le> length (st_Data (rd_Stream (fst s)))" using readAllLoop_shrinks [OF a] by simp
qed

definition dataBytes :: "File list \<Rightarrow> nat" where
  "dataBytes fs = sum_list (map (\<lambda>f. length (fl_Data f)) fs)"

lemma dataBytes_snoc [simp]: "dataBytes [] = 0" "dataBytes (fs @ [f]) = dataBytes fs + length (fl_Data f)"
  "dataBytes (f # fs) = length (fl_Data f) + dataBytes fs"
  by (simp_all add: dataBytes_def)

text \<open>What a client accepts of a collection: files with distinct nonempty paths, at most 4096 named and
  50 discovered ones, each within 64 MiB and together within 320 MiB.\<close>

definition withinLimits :: "File list \<Rightarrow> bool" where
  "withinLimits fs \<longleftrightarrow> distinct (map fl_Path fs) \<and> [] \<notin> set (map fl_Path fs) \<and> length fs \<le> 4146
     \<and> list_all (\<lambda>f. length (fl_Data f) \<le> 64 * 2 ^ 20) fs \<and> dataBytes fs \<le> 320 * 2 ^ 20"

lemmas limit_defs = aggregateLimit_def ExplicitMaxTotalBytes_def AutoMaxTotalBytes_def ExplicitMaxFiles_def AutoMaxFiles_def
  ExplicitMaxFileBytes_def

lemma fileFrame_collect:
  assumes "fileFrame tc Collect count n seen h = Inr (info, n', seen')" "n \<le> 320 * 2 ^ 20"
  shows "n' = n + hd_Size h \<and> n' \<le> 320 * 2 ^ 20 \<and> seen' = insert (fin_Path info) seen \<and> fin_Path info \<notin> seen
    \<and> fin_Path info \<noteq> [] \<and> count \<le> 4146 \<and> decodeFileInfo tc (hd_Meta h) = Inr info \<and> \<not> fin_Archive info"
proof -
  have "(aggregateLimit + 2 ^ 64 - n) mod 2 ^ 64 = 320 * 2 ^ 20 - n" using assms(2) by (simp add: limit_defs mod_if)
  then have "hd_Size h \<le> 320 * 2 ^ 20 - n" "n' = (n + hd_Size h) mod 2 ^ 64"
    using assms(1) by (auto simp: fileFrame_def operation_defs split: sum.splits if_splits)
  moreover from this have "n' = n + hd_Size h" using assms(2) by simp
  ultimately show ?thesis using assms by (auto simp: fileFrame_def operation_defs limit_defs split: sum.splits if_splits)
qed

lemma responseLoop_collect:
  assumes "responseLoop fuel tc Collect ctx (Some (collectFile space)) (length fs) (dataBytes fs) (fl_Path ` set fs)
      (r, fs) = Some ((r', fs'), Inr outcome)"
    and "withinLimits fs" "rd_MaxBody r = ExplicitMaxFileBytes"
  shows "withinLimits fs'"
  using assms
proof (induction fuel arbitrary: r fs)
  case (Suc fuel)
  have kinds: "Collect \<noteq> Upload" "Collect \<noteq> Download" by (simp_all add: operation_defs)
  from Suc.prems(1) obtain r1 h where n: "Next r = (r1, Inr h)" and c: "ctx (length fs) = None"
    by (auto split: option.splits prod.splits sum.splits)
  show ?case
  proof (cases "hd_Kind h = RunnerWire.File")
    case False
    then have "fs' = fs" using Suc.prems(1) n c by (auto split: if_splits prod.splits)
    then show ?thesis using Suc.prems(2) by simp
  next
    case True
    let ?n = "dataBytes fs"
    from Suc.prems(1) n c True obtain info n' seen' r2 fs2
      where f: "fileFrame tc Collect (length fs + 1) ?n (fl_Path ` set fs) h = Inr (info, n', seen')"
        and g: "collectFile space info (r1, fs) = ((r2, fs2), Inr ())"
        and l: "responseLoop fuel tc Collect ctx (Some (collectFile space)) (length fs + 1) n' seen' (r2, fs2) = Some ((r', fs'), Inr outcome)"
      by (auto split: sum.splits prod.splits)
    obtain ni where ni: "validateHeader h (rd_MaxBody r) = None" "rd_Current r1 = Some (hd_Size h)" "rd_Err r1 = None" "rd_MaxBody r1 = rd_MaxBody r"
      using n by (rule Next_inv) blast
    from collectFile_ok [OF g ni(3)] obtain d
      where d: "fs2 = fs @ [\<lparr>fl_Path = fin_Path info, fl_ModTime = fin_ModTime info, fl_Data = d\<rparr>]" "length d = hd_Size h"
        "rd_MaxBody r2 = rd_MaxBody r1"
      using ni(2) by (auto simp: unread_def)
    have ff: "n' = ?n + hd_Size h \<and> n' \<le> 320 * 2 ^ 20 \<and> seen' = insert (fin_Path info) (fl_Path ` set fs) \<and> fin_Path info \<notin> fl_Path ` set fs
      \<and> fin_Path info \<noteq> [] \<and> length fs + 1 \<le> 4146"
      using fileFrame_collect [OF f] Suc.prems(2) by (simp add: withinLimits_def)
    have "hd_Size h \<le> 64 * 2 ^ 20" using ni(1) Suc.prems(3) by (simp add: validateHeader_None ExplicitMaxFileBytes_def)
    then have w: "withinLimits fs2" using Suc.prems(2) ff d by (auto simp: withinLimits_def)
    have m: "rd_MaxBody r2 = ExplicitMaxFileBytes" using d(3) ni(4) Suc.prems(3) by simp
    show ?thesis
      by (rule Suc.IH [OF _ w m]) (use l ff d in \<open>simp add: insert_commute\<close>)
  qed
qed simp

end
