(* ===== verification/RunnerClient.thy ===== *)
theory RunnerClient
  imports RunnerProtocol
begin

text \<open>
  The client of the runner (internal/runner/transport.go): collecting, recovering, uploading and
  downloading through a transport.

  \<^item> A transport is a parameter. It is a function from the request bytes it was given and the error
    the writer ended with to the response stream and the error of the command's exit. The two pipes
    and goroutines of \<open>exchange\<close> are this function composed with the writer and the reader; that a
    failure on one side closes the other's pipe is part of the stream's last error.
  \<^item> The archive operations of runnerfs that touch the disk are the parameter \<open>archiveOps\<close>.
\<close>

section \<open>The exchange\<close>

type_synonym transport = "string \<Rightarrow> gerr option \<Rightarrow> stream \<times> gerr option"

record Client =
  cl_Identity :: Identity
  cl_Transport :: "transport option"

text \<open>The joined errors of an exchange; it succeeded when there is none.\<close>

record exchangeErr =
  xe_Read :: "runErr option"
  xe_Transport :: "gerr option"
  xe_Write :: "gerr option"
  xe_Cause :: "gerr option"

definition noErr :: exchangeErr where "noErr = \<lparr>xe_Read = None, xe_Transport = None, xe_Write = None, xe_Cause = None\<rparr>"

definition errOf :: "'e + 'a \<Rightarrow> 'e option" where
  "errOf r = (case r of Inl e \<Rightarrow> Some e | Inr _ \<Rightarrow> None)"

definition emptySink :: sink where "emptySink = \<lparr>sk_Out = [], sk_Room = None, sk_Quiet = False\<rparr>"

definition exchange :: "transport \<Rightarrow> gerr option \<Rightarrow> (sink, unit) proc \<Rightarrow> (stream \<Rightarrow> ('s \<times> (runErr + 'a)) option)
    \<Rightarrow> ('s \<times> (exchangeErr + 'a)) option" where
  "exchange transport cause write read =
     (case write emptySink of (w, written) \<Rightarrow>
      case transport (sk_Out w) (errOf written) of (response, transportErr) \<Rightarrow>
      case read response of
        None \<Rightarrow> None
      | Some (s, res) \<Rightarrow>
          let xe = \<lparr>xe_Read = errOf res, xe_Transport = transportErr, xe_Write = errOf written, xe_Cause = cause\<rparr> in
          Some (s, case res of
                     Inr x \<Rightarrow> if xe = noErr then Inr x else Inl xe
                   | Inl _ \<Rightarrow> Inl xe))"

datatype clientErr = Local gerr | Exchanged exchangeErr

text \<open>The caller's context: \<open>ctx.Err()\<close> at each round of the response, its cause when the exchange ends,
  and \<open>ctx.Err()\<close> after it.\<close>

record runContext =
  rc_Err :: "nat \<Rightarrow> gerr option"
  rc_Cause :: "gerr option"
  rc_Late :: "gerr option"

definition invoke :: "timeCodec \<Rightarrow> runContext \<Rightarrow> Client \<Rightarrow> RunnerRequest \<Rightarrow> nat \<Rightarrow> string option \<Rightarrow> 'c consumer option \<Rightarrow> 'c
    \<Rightarrow> ('c \<times> (clientErr + Outcome)) option" where
  "invoke tc ctx client request0 len body consume c =
     (case cl_Transport client of
        None \<Rightarrow> Some (c, Inl (Local (Fail ''runner transport is unavailable'')))
      | Some transport \<Rightarrow>
          let request = request0\<lparr>req_BuildID := id_BuildID (cl_Identity client)\<rparr> in
          (case validateMetadataText (MRequest request) of
             Some e \<Rightarrow> Some (c, Inl (Local e))
           | None \<Rightarrow>
               (case exchange transport (rc_Cause ctx) (WriteRequest tc request len body)
                       (\<lambda>input. ReadResponse tc (rc_Err ctx) input (cl_Identity client) (req_Operation request) consume c) of
                  None \<Rightarrow> None
                | Some ((r, c'), Inl xe) \<Rightarrow> Some (c', Inl (Exchanged xe))
                | Some ((r, c'), Inr outcome) \<Rightarrow> Some (c', Inr outcome))))"

section \<open>The client's operations\<close>

definition emptyRequest :: RunnerRequest where
  "emptyRequest = \<lparr>req_RecoveryChoice = [], req_BuildID = [], req_Operation = [], req_Workdir = [], req_Paths = None, req_Auto = False,
     req_Marker = [], req_SourcePath = [], req_Destination = [], req_Source = emptySource\<rparr>"

definition clientCollect :: "timeCodec \<Rightarrow> runContext \<Rightarrow> (nat \<Rightarrow> nat) \<Rightarrow> Client \<Rightarrow> string \<Rightarrow> string list option \<Rightarrow> bool \<Rightarrow> string
    \<Rightarrow> (clientErr + Results) option" where
  "clientCollect tc ctx space client workdir paths auto marker =
     (case validateResultPaths paths of
        Some e \<Rightarrow> Some (Inl (Local e))
      | None \<Rightarrow>
          (case invoke tc ctx client
                  (emptyRequest\<lparr>req_Operation := Collect, req_Workdir := workdir, req_Paths := paths, req_Auto := auto,
                                req_Marker := marker\<rparr>)
                  0 None (Some (collectFile space)) [] of
             None \<Rightarrow> None
           | Some (fs, Inl e) \<Rightarrow> Some (Inl e)
           | Some (fs, Inr outcome) \<Rightarrow> Some (Inr \<lparr>rl_Files = fs, rl_Warnings = oc_Warnings outcome\<rparr>)))"

definition clientRecoverArchive :: "timeCodec \<Rightarrow> runContext \<Rightarrow> Client \<Rightarrow> string \<Rightarrow> string \<Rightarrow> (clientErr + string) option" where
  "clientRecoverArchive tc ctx client destination choice =
     (case invoke tc ctx client
             (emptyRequest\<lparr>req_Operation := RecoverArchive, req_Destination := destination, req_RecoveryChoice := choice\<rparr>)
             0 None None () of
        None \<Rightarrow> None
      | Some (_, Inl e) \<Rightarrow> Some (Inl e)
      | Some (_, Inr outcome) \<Rightarrow> Some (Inr (oc_RetainedPath outcome)))"

text \<open>\<open>Upload\<close>, given the archive that \<open>CreateArchive\<close> made of the source and its metadata.\<close>

definition clientUpload :: "timeCodec \<Rightarrow> runContext \<Rightarrow> Client \<Rightarrow> (ArchiveSource \<times> string) res \<Rightarrow> string \<Rightarrow> clientErr option option" where
  "clientUpload tc ctx client created destination =
     (case created of
        Inl e \<Rightarrow> Some (Some (Local e))
      | Inr (metadata, archive) \<Rightarrow>
          (case invoke tc ctx client
                  (emptyRequest\<lparr>req_Operation := Upload, req_Destination := destination, req_Source := metadata\<rparr>)
                  (length archive) (Some archive) None () of
             None \<Rightarrow> None
           | Some (_, res) \<Rightarrow> Some (errOf res)))"

definition ContainsAny :: "string \<Rightarrow> string \<Rightarrow> bool" where
  "ContainsAny s chars \<longleftrightarrow> list_ex (\<lambda>c. c \<in> set chars) s"

definition trimSlashes :: "string \<Rightarrow> string" where
  "trimSlashes s = rev (dropWhile (\<lambda>c. c = CHR ''/'') (rev s))"

definition lastElement :: "string \<Rightarrow> string" where
  "lastElement s = rev (takeWhile (\<lambda>c. c \<noteq> CHR ''/'') (rev s))"

text \<open>\<open>path.Base\<close>.\<close>

definition pathBase :: "string \<Rightarrow> string" where
  "pathBase s =
     (if s = [] then ''.'' else if lastElement (trimSlashes s) = [] then ''/'' else lastElement (trimSlashes s))"

definition controls :: string where "controls = [CHR 0x00, CHR 0x0D, CHR 0x0A]"

definition DownloadSource :: "string \<Rightarrow> ArchiveSource res" where
  "DownloadSource name =
     (if TrimSpace name = [] \<or> ContainsAny name controls \<or> (HasPrefix name ''~'' \<and> name \<noteq> ''~'' \<and> \<not> HasPrefix name ''~/'')
      then Inl (Fail ''unsupported remote copy source path'')
      else let trimmed = trimSlashes name; lst = lastElement trimmed in
        if trimmed = [] \<or> trimmed = ''~'' \<or> lst = ''.'' \<or> lst = ''..''
        then Inl (Fail ''archive copy requires a named source below the filesystem root or home'')
        else Inr \<lparr>as_Base = pathBase trimmed, as_ContentsOnly = HasSuffix name ''/''\<rparr>)"

record 'g archiveOps =
  ar_Target :: "string \<Rightarrow> string \<Rightarrow> bool \<Rightarrow> string res"
  ar_Stage :: "string \<Rightarrow> (Reader, 'g) proc"
  ar_Publish :: "'g \<Rightarrow> gerr option"

definition downloadFile :: "'g archiveOps \<Rightarrow> string \<Rightarrow> ArchiveSource \<Rightarrow> 'g option consumer" where
  "downloadFile ops destination requested info s =
     (if fin_Source info \<noteq> requested then (s, Inl (Fail ''remote archive metadata differs from requested source''))
      else (case ar_Target ops destination (as_Base requested) (as_ContentsOnly requested) of
              Inl e \<Rightarrow> (s, Inl e)
            | Inr target \<Rightarrow>
                (case ar_Stage ops target (fst s) of
                   (r, Inl e) \<Rightarrow> ((r, snd s), Inl e)
                 | (r, Inr stage) \<Rightarrow> ((r, Some stage), Inr ()))))"

text \<open>\<open>Download\<close>: the stage that was published, if \<open>Publish\<close> was called, and the error.\<close>

definition clientDownload :: "timeCodec \<Rightarrow> runContext \<Rightarrow> 'g archiveOps \<Rightarrow> Client \<Rightarrow> string \<Rightarrow> string \<Rightarrow> ('g option \<times> clientErr option) option" where
  "clientDownload tc ctx ops client source destination =
     (case DownloadSource source of
        Inl e \<Rightarrow> Some (None, Some (Local e))
      | Inr requested \<Rightarrow>
          (case invoke tc ctx client (emptyRequest\<lparr>req_Operation := Download, req_SourcePath := source\<rparr>)
                  0 None (Some (downloadFile ops destination requested)) None of
             None \<Rightarrow> None
           | Some (_, Inl e) \<Rightarrow> Some (None, Some e)
           | Some (None, Inr _) \<Rightarrow> Some (None, Some (Local (Fail ''runner download did not stage an archive'')))
           | Some (Some stage, Inr _) \<Rightarrow>
               (case rc_Late ctx of
                  Some e \<Rightarrow> Some (None, Some (Local e))
                | None \<Rightarrow> Some (Some stage, map_option Local (ar_Publish ops stage)))))"

section \<open>What a successful exchange shows\<close>

lemma exchange_ok:
  assumes "exchange transport cause write read = Some (s, Inr x)"
  obtains w response where "write emptySink = (w, Inr ())" "transport (sk_Out w) None = (response, None)" "cause = None"
    "read response = Some (s, Inr x)"
  using assms by (auto simp: exchange_def noErr_def errOf_def Let_def split: prod.splits option.splits sum.splits if_splits)

lemma invoke_ok:
  assumes "invoke tc ctx client request len body consume c = Some (c', Inr outcome)" "req_Operation request = operation"
  obtains transport w response r where "cl_Transport client = Some transport"
    "WriteRequest tc (request\<lparr>req_BuildID := id_BuildID (cl_Identity client)\<rparr>) len body emptySink = (w, Inr ())"
    "transport (sk_Out w) None = (response, None)" "rc_Cause ctx = None"
    "ReadResponse tc (rc_Err ctx) response (cl_Identity client) operation consume c = Some ((r, c'), Inr outcome)"
  using assms by (auto simp: invoke_def Let_def split: option.splits prod.splits sum.splits elim!: exchange_ok)

lemma ReadResponse_ok:
  assumes "ReadResponse tc ctx input expected operation consume c = Some ((r', c'), Inr outcome)"
  obtains r h where "Next (NewReader input (maxBody operation)) = (r, Inr h)" "hd_Kind h = Hello"
    "decodeIdentity (hd_Meta h) = Inr expected" "id_BuildID expected \<noteq> []" "id_Protocol expected = 1"
    "responseLoop (Suc (length (st_Data input))) tc operation ctx consume 0 0 {} (r, c) = Some ((r', c'), Inr outcome)"
  using assms by (auto simp: ReadResponse_def Version_def split: prod.splits sum.splits if_splits)

lemma responseLoop_download:
  assumes "responseLoop fuel tc Download ctx (Some f) 0 n seen (r, c) = Some ((r', c'), Inr outcome)"
  obtains r1 h info r2 r3 h3 r4 where "Next r = (r1, Inr h)" "hd_Kind h = RunnerWire.File" "decodeFileInfo tc (hd_Meta h) = Inr info"
    "fin_Archive info" "f info (r1, c) = ((r2, c'), Inr ())" "Next r2 = (r3, Inr h3)" "hd_Kind h3 = Result"
    "decodeOutcome (hd_Meta h3) = Inr outcome" "readEnd r3 = (r4, Inr ())"
proof -
  have k: "Download \<noteq> Upload" "RunnerWire.File \<noteq> Result" "RunnerWire.File \<noteq> Error" "Result \<noteq> Error"
    by (simp_all add: operation_defs kind_defs)
  obtain k1 where fuel: "fuel = Suc k1" using assms by (cases fuel) auto
  have result: "(case resultFrame Download count h r of (r2, res) \<Rightarrow> Some ((r2, x), res)) = Some ((r', c'), Inr outcome) \<Longrightarrow>
      count = 1 \<and> x = c' \<and> decodeOutcome (hd_Meta h) = Inr outcome \<and> (\<exists>r4. readEnd r = (r4, Inr ()))" for count h r x
    by (auto simp: resultFrame_def split: sum.splits if_splits prod.splits)
  have err: "(case errorFrame h r of (r2, res) \<Rightarrow> Some ((r2, x), res)) \<noteq> Some ((r', c'), Inr outcome)" for h r x
    by (auto simp: errorFrame_def split: sum.splits if_splits prod.splits)
  from assms fuel obtain r1 h where h: "Next r = (r1, Inr h)" "ctx 0 = None" by (auto split: option.splits prod.splits sum.splits)
  have isFile: "hd_Kind h = RunnerWire.File"
    using assms fuel h err result [where count = 0 and h = h and r = r1 and x = c] by (auto split: if_splits)
  then obtain info n' seen' r2 c2 where f: "fileFrame tc Download 1 n seen h = Inr (info, n', seen')" "f info (r1, c) = ((r2, c2), Inr ())"
    "responseLoop k1 tc Download ctx (Some f) 1 n' seen' (r2, c2) = Some ((r', c'), Inr outcome)"
    using assms fuel h by (auto split: sum.splits prod.splits)
  obtain k2 where k2: "k1 = Suc k2" using f(3) by (cases k1) auto
  from f(3) k2 obtain r3 h3 where h3: "Next r2 = (r3, Inr h3)" "ctx 1 = None" by (auto split: option.splits prod.splits sum.splits)
  have "hd_Kind h3 = Result \<and> (case resultFrame Download 1 h3 r3 of (r2, res) \<Rightarrow> Some ((r2, c2), res)) = Some ((r', c'), Inr outcome)"
    using f(3) k2 h3 k err by (auto simp: fileFrame_def split: if_splits sum.splits)
  then have "c2 = c'" "decodeOutcome (hd_Meta h3) = Inr outcome" "hd_Kind h3 = Result" and "\<exists>r4. readEnd r3 = (r4, Inr ())"
    using result by blast+
  then obtain r4 where e: "readEnd r3 = (r4, Inr ())" by blast
  have i: "decodeFileInfo tc (hd_Meta h) = Inr info" "fin_Archive info"
    using f(1) k by (auto simp: fileFrame_def split: sum.splits if_splits)
  show thesis
    by (rule that [OF h(1) isFile i _ h3(1) _ _ e]) (use f(2) \<open>c2 = c'\<close> \<open>decodeOutcome (hd_Meta h3) = Inr outcome\<close> \<open>hd_Kind h3 = Result\<close> in simp_all)
qed

section \<open>Reading a response that was written\<close>

definition infoOf :: "File \<Rightarrow> FileInfo" where
  "infoOf f = emptyFileInfo\<lparr>fin_Path := fl_Path f, fin_ModTime := fl_ModTime f\<rparr>"

lemma infoOf_simps [simp]: "fin_Path (infoOf f) = fl_Path f" "fin_ModTime (infoOf f) = fl_ModTime f" "\<not> fin_Archive (infoOf f)"
  by (simp_all add: infoOf_def emptyFileInfo_def)

text \<open>Frames written for files, and their bytes.\<close>

definition fileFrames :: "timeCodec \<Rightarrow> File list \<Rightarrow> Header list \<Rightarrow> bool" where
  "fileFrames tc fs hs \<longleftrightarrow>
     list_all2 (\<lambda>f h. goodFrame tc RunnerWire.File (Some (MFile (infoOf f))) (length (fl_Data f)) h) fs hs"

definition fileBytes :: "File list \<Rightarrow> Header list \<Rightarrow> string" where
  "fileBytes fs hs = concat (map2 (\<lambda>f h. frameBytes h (fl_Data f)) fs hs)"

lemma withinLimits_append: "withinLimits (fs @ gs) \<Longrightarrow> withinLimits fs"
  by (auto simp: withinLimits_def dataBytes_def)

lemma fileFrame_written:
  assumes "goodCodec tc" "goodFrame tc RunnerWire.File (Some (MFile (infoOf f))) (length (fl_Data f)) h" "withinLimits (fs @ [f])"
  shows "fileFrame tc Collect (length fs + 1) (dataBytes fs) (fl_Path ` set fs) h
    = Inr (infoOf f, dataBytes (fs @ [f]), fl_Path ` set (fs @ [f]))"
proof -
  obtain v where v: "marshal tc (MFile (infoOf f)) = Some v" "hd_Meta h = Some v" "hd_Size h = length (fl_Data f)"
    using assms(2) by (auto simp: goodFrame_def simp del: marshal.simps)
  have d: "decodeFileInfo tc (hd_Meta h) = Inr (infoOf f)" using decodeFileInfo_marshal [OF assms(1) v(1)] v(2) by simp
  have n: "dataBytes fs + length (fl_Data f) \<le> 320 * 2 ^ 20" using assms(3) by (simp add: withinLimits_def)
  then have "(aggregateLimit + 2 ^ 64 - dataBytes fs) mod 2 ^ 64 = 320 * 2 ^ 20 - dataBytes fs" by (simp add: limit_defs mod_if)
  then show ?thesis using d n v(3) assms(3)
    by (auto simp: fileFrame_def operation_defs withinLimits_def limit_defs)
qed

lemma collectFile_written:
  assumes "rd_Err r = None" "rd_Current r = Some (length (fl_Data f))" "st_Data (rd_Stream r) = fl_Data f @ rest" "st_Last (rd_Stream r) = EOF"
  obtains r' where "collectFile space (infoOf f) (r, fs) = ((r', fs @ [f]), Inr ())" "idle r'" "st_Data (rd_Stream r') = rest"
    "st_Last (rd_Stream r') = EOF" "rd_MaxBody r' = rd_MaxBody r"
proof -
  have "unread r = length (fl_Data f)" using assms(2) by (simp add: unread_def)
  then obtain r' where "ReadAll payloadRead space (unread r) r = (r', fl_Data f, None)" "idle r'" "st_Data (rd_Stream r') = rest"
    "st_Last (rd_Stream r') = st_Last (rd_Stream r)" "rd_MaxBody r' = rd_MaxBody r"
    using payload_read_all [OF assms(1,2,3), of "unread r" space] assms(4) by (metis order_refl)
  then show thesis using assms(4) by (intro that [of r']) (auto simp: collectFile_def)
qed

lemma responseLoop_frames:
  assumes "goodCodec tc" "fileFrames tc fs hs" "goodFrame tc Result (Some (MOutcome outcome)) 0 hr" "goodFrame tc End None 0 he"
    and "oc_RetainedPath outcome = []" "\<not> oc_Published outcome" "\<forall>i. ctx i = None"
    and "withinLimits (gs @ fs)" "length fs < fuel"
    and "idle r" "st_Data (rd_Stream r) = fileBytes fs hs @ frameBytes hr [] @ frameBytes he []" "st_Last (rd_Stream r) = EOF"
    and "rd_MaxBody r = ExplicitMaxFileBytes"
  shows "\<exists>r'. responseLoop fuel tc Collect ctx (Some (collectFile space)) (length gs) (dataBytes gs) (fl_Path ` set gs) (r, gs)
    = Some ((r', gs @ fs), Inr outcome)"
  using assms
proof (induction fs arbitrary: hs gs r fuel)
  case Nil
  then obtain k where fuel: "fuel = Suc k" by (cases fuel) auto
  have "hs = []" using Nil.prems(2) by (simp add: fileFrames_def)
  then obtain s' where s: "Next r = (r\<lparr>rd_Stream := s', rd_Current := Some 0\<rparr>, Inr hr)" "st_Data s' = frameBytes he []" "st_Last s' = EOF"
    "hd_Kind hr = Result" "hd_Meta hr = marshal tc (MOutcome outcome)"
    using Next_goodFrame [OF Nil.prems(10) _ Nil.prems(3), of "[]" "frameBytes he []"] Nil.prems(11,12) by (auto simp: fileBytes_def simp del: marshal.simps)
  let ?r = "r\<lparr>rd_Stream := s', rd_Current := Some 0\<rparr>"
  obtain r' where e: "readEnd ?r = (r', Inr ())"
    using readEnd_written [OF _ _ Nil.prems(4), of ?r] s Nil.prems(10) by (auto simp: idle_def unread_def)
  have "resultFrame Collect (length gs) hr ?r = (r', Inr outcome)"
    using s(5) e Nil.prems(5,6) decodeOutcome_marshal [of tc outcome] by (simp add: resultFrame_def operation_defs del: marshal.simps)
  then show ?case using fuel s Nil.prems(7) by (simp add: kind_defs del: marshal.simps)
next
  case (Cons f fs)
  then obtain k where fuel: "fuel = Suc k" "length fs < k" by (cases fuel) auto
  obtain h hs' where hs: "hs = h # hs'" "goodFrame tc RunnerWire.File (Some (MFile (infoOf f))) (length (fl_Data f)) h" "fileFrames tc fs hs'"
    using Cons.prems(2) by (auto simp: fileFrames_def list_all2_Cons1)
  let ?rest = "fileBytes fs hs' @ frameBytes hr [] @ frameBytes he []"
  have w: "withinLimits (gs @ [f])" "withinLimits ((gs @ [f]) @ fs)" using Cons.prems(8) withinLimits_append [of "gs @ [f]" fs] by simp_all
  then have len: "length (fl_Data f) \<le> rd_MaxBody r" using Cons.prems(13) by (simp add: withinLimits_def ExplicitMaxFileBytes_def)
  have d: "st_Data (rd_Stream r) = frameBytes h (fl_Data f) @ ?rest" using Cons.prems(11) hs(1) by (simp add: fileBytes_def)
  obtain s' where s: "Next r = (r\<lparr>rd_Stream := s', rd_Current := Some (length (fl_Data f))\<rparr>, Inr h)" "st_Data s' = fl_Data f @ ?rest" "st_Last s' = EOF"
    "hd_Kind h = RunnerWire.File"
    using Next_goodFrame [OF Cons.prems(10) d hs(2) len] Cons.prems(12) by metis
  let ?r = "r\<lparr>rd_Stream := s', rd_Current := Some (length (fl_Data f))\<rparr>"
  obtain r2 where r2: "collectFile space (infoOf f) (?r, gs) = ((r2, gs @ [f]), Inr ())" "idle r2" "st_Data (rd_Stream r2) = ?rest"
    "st_Last (rd_Stream r2) = EOF" "rd_MaxBody r2 = ExplicitMaxFileBytes"
    by (rule collectFile_written [of ?r f ?rest]) (use s Cons.prems(10,13) in \<open>simp_all add: idle_def\<close>)
  have "\<exists>r'. responseLoop k tc Collect ctx (Some (collectFile space)) (length (gs @ [f])) (dataBytes (gs @ [f])) (fl_Path ` set (gs @ [f])) (r2, gs @ [f])
      = Some ((r', (gs @ [f]) @ fs), Inr outcome)"
    by (rule Cons.IH [OF Cons.prems(1) hs(3) Cons.prems(3-7) w(2) fuel(2) r2(2-5)])
  moreover have "ctx (length gs) = None" using Cons.prems(7) by simp
  ultimately show ?case using fuel(1) s fileFrame_written [OF Cons.prems(1) hs(2) w(1)] r2(1) by simp
qed

section \<open>Properties of the client\<close>

text \<open>C21: \<open>Client.Collect\<close> returns, whatever bytes the transport delivers: its reading of the response ends
  because every round takes a frame from the stream.\<close>

theorem collect_returns:
  "\<exists>res. clientCollect tc ctx space client workdir paths auto marker = Some res"
proof -
  have "\<exists>y. ReadResponse tc c input expected Collect (Some (collectFile space)) fs = Some y" for c input expected fs
  proof -
    have "\<exists>y. responseLoop (Suc (length (st_Data input))) tc Collect c (Some (collectFile space)) 0 0 {} (r, fs) = Some y"
      if "Next (NewReader input (maxBody Collect)) = (r, Inr h)" for r h
      using Next_consumes [OF that] by (intro responseLoop_returns) (auto simp: collectFile_shrinks NewReader_def)
    then show ?thesis by (auto simp: ReadResponse_def split: prod.splits sum.splits simp del: responseLoop.simps)
  qed
  then obtain g where g: "\<And>c input expected fs. ReadResponse tc c input expected Collect (Some (collectFile space)) fs = Some (g c input expected fs)"
    by metis
  have "\<exists>y. invoke tc ctx client request 0 None (Some (collectFile space)) [] = Some y" if "req_Operation request = Collect" for request
    using that by (auto simp: invoke_def exchange_def g Let_def split: option.splits prod.splits sum.splits)
  then show ?thesis by (auto simp: clientCollect_def split: option.splits sum.splits) (metis RunnerRequest.select_convs(3) RunnerRequest.surjective RunnerRequest.update_convs old.prod.exhaust option.discI)
qed

text \<open>C22: What a successful \<open>Client.Collect\<close> returns is bounded: the command exited without error after a
  request that was written in full, and the files have distinct nonempty paths, number at most 4146,
  and hold at most 64 MiB each and 320 MiB together.\<close>

theorem collected_results_bounded:
  assumes "clientCollect tc ctx space client workdir paths auto marker = Some (Inr results)"
  shows "withinLimits (rl_Files results) \<and> rc_Cause ctx = None
    \<and> (\<exists>transport request w response. cl_Transport client = Some transport \<and> req_Operation request = ''collect''
         \<and> WriteRequest tc request 0 None emptySink = (w, Inr ()) \<and> transport (sk_Out w) None = (response, None))"
proof -
  let ?q = "emptyRequest\<lparr>req_Operation := Collect, req_Workdir := workdir, req_Paths := paths, req_Auto := auto, req_Marker := marker\<rparr>"
  obtain outcome where i: "invoke tc ctx client ?q 0 None (Some (collectFile space)) [] = Some (rl_Files results, Inr outcome)"
    using assms by (auto simp: clientCollect_def split: option.splits sum.splits prod.splits)
  have op: "req_Operation ?q = Collect" by simp
  obtain transport w response r where t: "cl_Transport client = Some transport" "transport (sk_Out w) None = (response, None)" "rc_Cause ctx = None"
      "WriteRequest tc (?q\<lparr>req_BuildID := id_BuildID (cl_Identity client)\<rparr>) 0 None emptySink = (w, Inr ())"
    and "ReadResponse tc (rc_Err ctx) response (cl_Identity client) Collect (Some (collectFile space)) [] = Some ((r, rl_Files results), Inr outcome)"
    by (rule invoke_ok [OF i op]) blast
  from this(5) obtain r1 h where n: "Next (NewReader response (maxBody Collect)) = (r1, Inr h)"
    and l: "responseLoop (Suc (length (st_Data response))) tc Collect (rc_Err ctx) (Some (collectFile space)) 0 0 {} (r1, [])
      = Some ((r, rl_Files results), Inr outcome)"
    by (rule ReadResponse_ok)
  have m: "rd_MaxBody r1 = ExplicitMaxFileBytes"
  proof -
    have "rd_MaxBody r1 = rd_MaxBody (NewReader response (maxBody Collect))" using n by (rule Next_inv)
    then show ?thesis by (simp add: NewReader_def maxBody_def operation_defs)
  qed
  have "withinLimits (rl_Files results)"
    by (rule responseLoop_collect [where fs = "[]" and r = r1, OF _ _ m])
      (use l in \<open>simp_all add: withinLimits_def del: responseLoop.simps\<close>)
  moreover have "req_Operation (?q\<lparr>req_BuildID := id_BuildID (cl_Identity client)\<rparr>) = ''collect''" by (simp add: Collect_def)
  ultimately show ?thesis using t by blast
qed

text \<open>C20: \<open>Client.Download\<close> publishes an archive only at the end of a complete exchange: the request was
  written, the command exited without error, the context was alive, and the response was the expected
  identity, one archive frame whose source is the one requested, from whose payload the published
  stage was made, the result, and the end of the stream.\<close>

theorem download_publishes_complete_archive:
  assumes "clientDownload tc ctx ops client source destination = Some (Some stage, err)"
  shows "rc_Cause ctx = None \<and> rc_Late ctx = None \<and> (\<exists>transport request w response requested target r0 hello r1 file info r2 r3 result r4 outcome.
      cl_Transport client = Some transport \<and> WriteRequest tc request 0 None emptySink = (w, Inr ())
    \<and> transport (sk_Out w) None = (response, None) \<and> DownloadSource source = Inr requested
    \<and> Next (NewReader response MaxCompressedBytes) = (r0, Inr hello) \<and> decodeIdentity (hd_Meta hello) = Inr (cl_Identity client)
    \<and> Next r0 = (r1, Inr file) \<and> hd_Kind file = ''file'' \<and> decodeFileInfo tc (hd_Meta file) = Inr info
    \<and> fin_Archive info \<and> fin_Source info = requested
    \<and> ar_Target ops destination (as_Base requested) (as_ContentsOnly requested) = Inr target \<and> ar_Stage ops target r1 = (r2, Inr stage)
    \<and> Next r2 = (r3, Inr result) \<and> hd_Kind result = ''result'' \<and> decodeOutcome (hd_Meta result) = Inr outcome \<and> readEnd r3 = (r4, Inr ()))"
proof -
  let ?q = "emptyRequest\<lparr>req_Operation := Download, req_SourcePath := source\<rparr>"
  obtain requested outcome where q: "DownloadSource source = Inr requested" "rc_Late ctx = None"
    and i: "invoke tc ctx client ?q 0 None (Some (downloadFile ops destination requested)) None = Some (Some stage, Inr outcome)"
    using assms by (auto simp: clientDownload_def split: option.splits sum.splits prod.splits)
  have op: "req_Operation ?q = Download" by simp
  obtain transport w response r where t: "cl_Transport client = Some transport" "transport (sk_Out w) None = (response, None)" "rc_Cause ctx = None"
      "WriteRequest tc (?q\<lparr>req_BuildID := id_BuildID (cl_Identity client)\<rparr>) 0 None emptySink = (w, Inr ())"
    and "ReadResponse tc (rc_Err ctx) response (cl_Identity client) Download (Some (downloadFile ops destination requested)) None
      = Some ((r, Some stage), Inr outcome)"
    by (rule invoke_ok [OF i op]) blast
  from this(5) obtain r0 hello where h: "Next (NewReader response (maxBody Download)) = (r0, Inr hello)"
      "decodeIdentity (hd_Meta hello) = Inr (cl_Identity client)"
    and l: "responseLoop (Suc (length (st_Data response))) tc Download (rc_Err ctx) (Some (downloadFile ops destination requested)) 0 0 {} (r0, None)
      = Some ((r, Some stage), Inr outcome)"
    by (rule ReadResponse_ok)
  from l obtain r1 f info r2 r3 result r4 where d: "Next r0 = (r1, Inr f)" "hd_Kind f = RunnerWire.File"
      "decodeFileInfo tc (hd_Meta f) = Inr info" "fin_Archive info"
      "downloadFile ops destination requested info (r1, None) = ((r2, Some stage), Inr ())"
      "Next r2 = (r3, Inr result)" "hd_Kind result = Result" "decodeOutcome (hd_Meta result) = Inr outcome" "readEnd r3 = (r4, Inr ())"
    by (rule responseLoop_download)
  from d(5) obtain target where g: "fin_Source info = requested" "ar_Target ops destination (as_Base requested) (as_ContentsOnly requested) = Inr target"
    "ar_Stage ops target r1 = (r2, Inr stage)"
    by (auto simp: downloadFile_def split: if_splits sum.splits prod.splits)
  have m: "maxBody Download = MaxCompressedBytes" by (simp add: maxBody_def)
  show ?thesis using q t h [unfolded m] d g unfolding kind_defs by blast
qed

end
