(* ===== verification/RunnerResults.thy ===== *)
theory RunnerResults
  imports RunnerProtocol "HOL-Library.List_Lexorder" "HOL-Library.Char_ord" "HOL-Library.Product_Lexorder" "HOL-Library.Sublist"
begin

text \<open>
  Collecting test reports on the runner's side (internal/runner/runnerfs/results.go, read.go and
  directory.go): named files first, then bounded discovery of JUnit reports.

  \<^item> The disk is the parameter \<open>disk\<close>. Opening a name at some step gives a view: the identity of the
    open file, its status before and after it is read, and what reading delivers; the same name may be
    a different file at another step. \<open>os.SameFile\<close> is equality of the identity, which every \<open>Stat\<close>
    of one open file reports alike. The context is a function of the step too.
  \<^item> A directory is a list of entries in the order \<open>ReadDir\<close> gives them; a directory that cannot be
    opened has none. The tree walk visits them as the code does; \<open>dk_RootErr\<close> is the error that ends
    the listing of the root.
  \<^item> The XML tokenizer behind \<open>containsJUnitFailure\<close> is a parameter.
\<close>

section \<open>The disk\<close>

record fileStat =
  sf_Size :: int
  sf_ModTime :: int

record fileView =
  fv_ID :: nat
  fv_Before :: "fileStat res"
  fv_Data :: string
  fv_ReadErr :: "gerr option"
  fv_After :: "fileStat res"

record disk =
  dk_Ctx :: "nat \<Rightarrow> gerr option"
  dk_Open :: "nat \<Rightarrow> string \<Rightarrow> fileView res"
  dk_Failure :: "string \<Rightarrow> bool"
  dk_Windows :: bool
  dk_RootErr :: "gerr option"

definition ErrLimit :: gerr where "ErrLimit = Fail ''file exceeds the byte limit''"
definition ErrChanged :: gerr where "ErrChanged = Fail ''file changed while being read''"
definition errDuplicateReport :: gerr where "errDuplicateReport = Fail ''report file already collected''"

definition AutoMaxFileBytes :: int where "AutoMaxFileBytes = 16 * 2 ^ 20"
definition AutoSniffBytes :: nat where "AutoSniffBytes = 4 * 2 ^ 10"
definition AutoFailureBytes :: nat where "AutoFailureBytes = 2 ^ 20"

text \<open>\<open>ctx.Err()\<close>; every check is a step.\<close>

definition ctxErr :: "disk \<Rightarrow> (nat, unit) proc" where
  "ctxErr dk t = (Suc t, case dk_Ctx dk t of Some e \<Rightarrow> Inl e | None \<Rightarrow> Inr ())"

definition liftRes :: "'a res \<Rightarrow> ('s, 'a) proc" where
  "liftRes r s = (s, r)"

definition openRegular :: "disk \<Rightarrow> string \<Rightarrow> (nat, fileView) proc" where
  "openRegular dk name t = (Suc t, dk_Open dk t name)"

definition readDistinct :: "disk \<Rightarrow> string \<Rightarrow> int \<Rightarrow> nat set \<Rightarrow> (nat, File \<times> nat) proc" where
  "readDistinct dk name limit seen =
     bindR (ctxErr dk) (\<lambda>_.
     bindR (openRegular dk name) (\<lambda>v.
     bindR (liftRes (fv_Before v)) (\<lambda>before.
     bindR (requireR (fv_ID v \<notin> seen) errDuplicateReport) (\<lambda>_.
     bindR (requireR (\<not> (limit \<le> 0 \<or> limit < sf_Size before)) ErrLimit) (\<lambda>_.
     bindR (checkR (fv_ReadErr v)) (\<lambda>_.
     let data = take (nat (limit + 1)) (fv_Data v) in
     bindR (requireR (\<not> limit < int (length data)) ErrLimit) (\<lambda>_.
     bindR (liftRes (fv_After v)) (\<lambda>after.
     bindR (requireR (\<not> (sf_Size before \<noteq> sf_Size after \<or> sf_ModTime before \<noteq> sf_ModTime after \<or> int (length data) \<noteq> sf_Size after))
              ErrChanged) (\<lambda>_.
     bindR (ctxErr dk) (\<lambda>_.
     returnR (\<lparr>fl_Path = name, fl_ModTime = sf_ModTime after, fl_Data = data\<rparr>, fv_ID v)))))))))))"

fun errText :: "gerr \<Rightarrow> string" where
  "errText (Exit n m) = m"
| "errText (Fail m) = m"
| "errText (Native m) = m"
| "errText (Joined a b) = errText a @ [CHR 0x0A] @ errText b"

definition perFileMessage :: string where
  "perFileMessage = ''report exceeds '' @ Itoa AutoMaxFileBytes @ ''-byte per-file limit''"

definition aggregateMessage :: string where
  "aggregateMessage = ''report exceeds remaining '' @ Itoa (int AutoMaxTotalBytes) @ ''-byte aggregate limit''"

section \<open>Candidates\<close>

record resultCandidate =
  rcd_Name :: string
  rcd_Failed :: bool
  rcd_Identity :: nat

text \<open>\<open>sort.Search\<close>: the smallest index from \<open>i\<close> to \<open>j\<close> at which the predicate holds, by bisection.\<close>

function sortSearch :: "(nat \<Rightarrow> bool) \<Rightarrow> nat \<Rightarrow> nat \<Rightarrow> nat" where
  "sortSearch p i j =
     (if i < j then (let h = (i + j) div 2 in if \<not> p h then sortSearch p (h + 1) j else sortSearch p i h) else i)"
  by pat_completeness auto
termination
  by (relation "measure (\<lambda>(p, i, j). j - i)") auto

declare sortSearch.simps [simp del]

fun removeFirst :: "('a \<Rightarrow> bool) \<Rightarrow> 'a list \<Rightarrow> 'a list" where
  "removeFirst p [] = []"
| "removeFirst p (x # xs) = (if p x then xs else x # removeFirst p xs)"

definition retainResultCandidate :: "resultCandidate list \<Rightarrow> resultCandidate \<Rightarrow> resultCandidate list" where
  "retainResultCandidate vs0 c =
     (let same = (\<lambda>v. rcd_Identity v = rcd_Identity c);
          place = (\<lambda>vs. let i = sortSearch (\<lambda>i. rcd_Name c \<le> rcd_Name (vs ! i)) 0 (length vs) in
                     if AutoMaxFiles \<le> i then vs else take AutoMaxFiles (take i vs @ c # drop i vs))
      in case find same vs0 of
           Some previous \<Rightarrow> if rcd_Name previous \<le> rcd_Name c then vs0 else place (removeFirst same vs0)
         | None \<Rightarrow> place vs0)"

definition junitFilenameForOS :: "bool \<Rightarrow> string \<Rightarrow> bool" where
  "junitFilenameForOS windows name =
     (if windows then
        let lower = ToLower name in
        lower = ''results.xml'' \<or> HasPrefix lower ''junit'' \<and> HasSuffix lower ''.xml'' \<or> HasPrefix lower ''test-'' \<and> HasSuffix lower ''.xml''
      else name = ''results.xml'' \<or> HasPrefix name ''junit'' \<and> HasSuffix name ''.xml''
           \<or> HasPrefix name ''TEST-'' \<and> HasSuffix name ''.xml'')"

text \<open>\<open>bytes.Contains\<close>.\<close>

fun BytesContains :: "string \<Rightarrow> string \<Rightarrow> bool" where
  "BytesContains s sub = (HasPrefix s sub \<or> (case s of [] \<Rightarrow> False | _ # r \<Rightarrow> BytesContains r sub))"

declare BytesContains.simps [simp del]

definition looksLikeReport :: "string \<Rightarrow> bool" where
  "looksLikeReport data = BytesContains (take AutoSniffBytes data) ''<testsuite''"

datatype dirEntry =
    DirEntry string "dirEntry list" "gerr option"
  | FileEntry string bool

record scan =
  sc_Step :: nat
  sc_Passing :: "resultCandidate list"
  sc_Failing :: "resultCandidate list"
  sc_Warnings :: "Warning list"

definition SkipDir :: gerr where "SkipDir = Native ''skip this directory''"

definition scanCtx :: "disk \<Rightarrow> (scan, unit) proc" where
  "scanCtx dk s = (s\<lparr>sc_Step := Suc (sc_Step s)\<rparr>, case dk_Ctx dk (sc_Step s) of Some e \<Rightarrow> Inl e | None \<Rightarrow> Inr ())"

text \<open>The callback of \<open>resultCandidates\<close> on a file that was opened.\<close>

definition classify :: "disk \<Rightarrow> int option \<Rightarrow> nat set \<Rightarrow> string \<Rightarrow> fileView \<Rightarrow> scan \<Rightarrow> scan" where
  "classify dk after excluded name v s =
     (case fv_Before v of
        Inl _ \<Rightarrow> s
      | Inr info \<Rightarrow>
          if (case after of Some a \<Rightarrow> sf_ModTime info < a | None \<Rightarrow> False) then s
          else if fv_ID v \<in> excluded then s
          else
            let data = take (if AutoMaxFileBytes < sf_Size info then AutoSniffBytes else AutoFailureBytes) (fv_Data v) in
            if fv_ReadErr v \<noteq> None \<or> \<not> looksLikeReport data then s
            else if AutoMaxFileBytes < sf_Size info then
              (if length (sc_Warnings s) < AutoMaxFiles
               then s\<lparr>sc_Warnings := sc_Warnings s @ [\<lparr>wn_Path = name, wn_Message = perFileMessage\<rparr>]\<rparr> else s)
            else
              let same = (\<lambda>p. rcd_Identity p = fv_ID v) in
              if dk_Failure dk data then
                let c0 = \<lparr>rcd_Name = name, rcd_Failed = True, rcd_Identity = fv_ID v\<rparr>;
                    c = (case find same (sc_Passing s) of
                           Some p \<Rightarrow> c0\<lparr>rcd_Name := min name (rcd_Name p)\<rparr>
                         | None \<Rightarrow> c0)
                in s\<lparr>sc_Passing := removeFirst same (sc_Passing s), sc_Failing := retainResultCandidate (sc_Failing s) c\<rparr>
              else if list_ex same (sc_Failing s) then s
              else s\<lparr>sc_Passing := retainResultCandidate (sc_Passing s)
                       \<lparr>rcd_Name = name, rcd_Failed = False, rcd_Identity = fv_ID v\<rparr>\<rparr>)"

definition visitEntry :: "disk \<Rightarrow> int option \<Rightarrow> nat set \<Rightarrow> string \<Rightarrow> dirEntry \<Rightarrow> (scan, unit) proc" where
  "visitEntry dk after excluded name entry =
     bindR (scanCtx dk) (\<lambda>_.
       case entry of
         DirEntry base _ _ \<Rightarrow>
           (let directory = (if dk_Windows dk then ToLower base else base) in
            if directory = ''.git'' \<or> directory = ''node_modules'' then failR SkipDir else returnR ())
       | FileEntry base regular \<Rightarrow>
           if \<not> regular \<or> \<not> junitFilenameForOS (dk_Windows dk) base then returnR ()
           else (\<lambda>s. case openRegular dk name (sc_Step s) of
                       (t, Inl _) \<Rightarrow> (s\<lparr>sc_Step := t\<rparr>, Inr ())
                     | (t, Inr v) \<Rightarrow> (classify dk after excluded name v (s\<lparr>sc_Step := t\<rparr>), Inr ())))"

definition childPath :: "string \<Rightarrow> string \<Rightarrow> string" where
  "childPath dir base = (if dir = ''.'' then base else dir @ ''/'' @ base)"

text \<open>\<open>walkDirectory\<close> and \<open>readDirectory\<close>: an entry is visited, then entered if it is a directory that was
  not skipped; the error that ends a directory's listing comes after its entries.\<close>

fun walkEntries :: "disk \<Rightarrow> (string \<Rightarrow> dirEntry \<Rightarrow> (scan, unit) proc) \<Rightarrow> string \<Rightarrow> dirEntry list \<Rightarrow> (scan, unit) proc" where
  "walkEntries dk f dir [] s = (s, Inr ())"
| "walkEntries dk f dir (FileEntry base regular # es) s =
     (case bindR (scanCtx dk) (\<lambda>_. f (childPath dir base) (FileEntry base regular)) s of
        (s', Inl e) \<Rightarrow> if e = SkipDir then walkEntries dk f dir es s' else (s', Inl e)
      | (s', Inr _) \<Rightarrow> walkEntries dk f dir es s')"
| "walkEntries dk f dir (DirEntry base cs err # es) s =
     (case bindR (scanCtx dk) (\<lambda>_. f (childPath dir base) (DirEntry base cs err)) s of
        (s', Inl e) \<Rightarrow> if e = SkipDir then walkEntries dk f dir es s' else (s', Inl e)
      | (s', Inr _) \<Rightarrow>
          (case walkEntries dk f (childPath dir base) cs s' of
             (s'', Inl e) \<Rightarrow> (s'', Inl e)
           | (s'', Inr _) \<Rightarrow>
               (case err of Some e \<Rightarrow> (s'', Inl e) | None \<Rightarrow> walkEntries dk f dir es s'')))"

definition resultCandidates :: "disk \<Rightarrow> dirEntry list \<Rightarrow> int option \<Rightarrow> nat set \<Rightarrow> nat \<Rightarrow> scan \<times> unit res" where
  "resultCandidates dk tree after excluded t =
     (case walkEntries dk (visitEntry dk after excluded) ''.'' tree
             \<lparr>sc_Step = t, sc_Passing = [], sc_Failing = [], sc_Warnings = []\<rparr> of
        (s, Inl e) \<Rightarrow> (s, Inl e)
      | (s, Inr _) \<Rightarrow> (s, case dk_RootErr dk of Some e \<Rightarrow> Inl e | None \<Rightarrow> Inr ()))"

section \<open>Collecting\<close>

record ResultOptions =
  ro_Paths :: "string list"
  ro_Auto :: bool
  ro_After :: "int option"
  ro_ExplicitMaxBytes :: int
  ro_ExplicitTotalBytes :: int

record collection =
  co_Files :: "File list"
  co_IDs :: "nat list"
  co_Warnings :: "Warning list"

text \<open>The loop over the named files. \<open>total\<close> is the bytes of the files so far.\<close>

fun readExplicit :: "disk \<Rightarrow> ResultOptions \<Rightarrow> string list \<Rightarrow> collection \<Rightarrow> (nat, collection) proc" where
  "readExplicit dk options [] c t = (t, Inr c)"
| "readExplicit dk options (name # names) c t =
     (case ctxErr dk t of
        (t1, Inl e) \<Rightarrow> (t1, Inl e)
      | (t1, Inr _) \<Rightarrow>
          let remaining = ro_ExplicitTotalBytes options - int (dataBytes (co_Files c)) in
          (case readDistinct dk name (min (ro_ExplicitMaxBytes options) remaining) (set (co_IDs c)) t1 of
             (t2, Inl e) \<Rightarrow>
               (case ctxErr dk t2 of
                  (t3, Inl e') \<Rightarrow> (t3, Inl e')
                | (t3, Inr _) \<Rightarrow>
                    readExplicit dk options names
                      (if e = ErrLimit \<or> e = ErrChanged
                       then c\<lparr>co_Warnings := co_Warnings c @ [\<lparr>wn_Path = name, wn_Message = errText e\<rparr>]\<rparr> else c) t3)
           | (t2, Inr (file, ident)) \<Rightarrow>
               readExplicit dk options names (c\<lparr>co_Files := co_Files c @ [file], co_IDs := co_IDs c @ [ident]\<rparr>) t2))"

text \<open>The loop over the candidates: \<open>auto\<close> are the files it has added.\<close>

fun readCandidates :: "disk \<Rightarrow> ResultOptions \<Rightarrow> resultCandidate list \<Rightarrow> File list \<Rightarrow> collection \<Rightarrow> (nat, File list \<times> collection) proc" where
  "readCandidates dk options [] auto c t = (t, Inr (auto, c))"
| "readCandidates dk options (cand # cands) auto c t =
     (if AutoMaxFiles \<le> length auto then (t, Inr (auto, c))
      else (case ctxErr dk t of
        (t1, Inl e) \<Rightarrow> (t1, Inl e)
      | (t1, Inr _) \<Rightarrow>
          let warn = (\<lambda>m. c\<lparr>co_Warnings := co_Warnings c @ [\<lparr>wn_Path = rcd_Name cand, wn_Message = m\<rparr>]\<rparr>) in
          (case readDistinct dk (rcd_Name cand) AutoMaxFileBytes (set (co_IDs c)) t1 of
             (t2, Inl e) \<Rightarrow>
               (case ctxErr dk t2 of
                  (t3, Inl e') \<Rightarrow> (t3, Inl e')
                | (t3, Inr _) \<Rightarrow>
                    readCandidates dk options cands auto
                      (if e = ErrLimit then warn perFileMessage
                       else if e = ErrChanged then warn (errText e) else c) t3)
           | (t2, Inr (file, ident)) \<Rightarrow>
               if (case ro_After options of Some a \<Rightarrow> fl_ModTime file < a | None \<Rightarrow> False) \<or> \<not> looksLikeReport (fl_Data file)
               then readCandidates dk options cands auto c t2
               else if int AutoMaxTotalBytes < int (dataBytes auto + length (fl_Data file))
               then readCandidates dk options cands auto (warn aggregateMessage) t2
               else readCandidates dk options cands (auto @ [file])
                      (c\<lparr>co_Files := co_Files c @ [file], co_IDs := co_IDs c @ [ident]\<rparr>) t2)))"

definition candidateKey :: "resultCandidate \<Rightarrow> bool \<times> string" where
  "candidateKey c = (\<not> rcd_Failed c, rcd_Name c)"

definition CollectResults :: "disk \<Rightarrow> dirEntry list \<Rightarrow> ResultOptions \<Rightarrow> (nat, collection) proc" where
  "CollectResults dk tree options =
     bindR (ctxErr dk) (\<lambda>_.
     bindR (requireR (\<not> ((ro_ExplicitMaxBytes options < 1 \<or> ro_ExplicitTotalBytes options < 1) \<and> ro_Paths options \<noteq> []))
              (Fail ''explicit result byte limits must be positive'')) (\<lambda>_.
     bindR (readExplicit dk options (ro_Paths options) \<lparr>co_Files = [], co_IDs = [], co_Warnings = []\<rparr>) (\<lambda>c.
     if \<not> ro_Auto options then bindR (ctxErr dk) (\<lambda>_. returnR c)
     else (\<lambda>t. case resultCandidates dk tree (ro_After options) (set (co_IDs c)) t of
       (s, Inl e) \<Rightarrow> (sc_Step s, Inl e)
     | (s, Inr _) \<Rightarrow>
         bindR (readCandidates dk options (sort_key candidateKey (sc_Failing s @ sc_Passing s)) []
                  (c\<lparr>co_Warnings := co_Warnings c @ sc_Warnings s\<rparr>)) (\<lambda>(auto, c').
         bindR (ctxErr dk) (\<lambda>_. returnR c')) (sc_Step s)))))"

section \<open>The candidates that are kept\<close>

lemma sortSearch_bounds: "i \<le> j \<Longrightarrow> i \<le> sortSearch p i j \<and> sortSearch p i j \<le> j"
proof (induction p i j rule: sortSearch.induct)
  case (1 p i j)
  show ?case
  proof (cases "i < j")
    case True
    then show ?thesis using 1 by (subst (1 2) sortSearch.simps) (fastforce simp: Let_def)
  next
    case False
    then have "sortSearch p i j = i" by (subst sortSearch.simps) simp
    then show ?thesis using 1(3) by simp
  qed
qed

lemma sortSearch_split:
  assumes "\<And>a b. a \<le> b \<Longrightarrow> p a \<Longrightarrow> p b" "i \<le> j"
  shows "(\<forall>k. i \<le> k \<longrightarrow> k < sortSearch p i j \<longrightarrow> \<not> p k) \<and> (\<forall>k. sortSearch p i j \<le> k \<longrightarrow> k < j \<longrightarrow> p k)"
  using assms
proof (induction p i j rule: sortSearch.induct)
  case (1 p i j)
  show ?case
  proof (cases "i < j")
    case True
    let ?h = "(i + j) div 2"
    have h: "i \<le> ?h" "?h < j" using True by auto
    show ?thesis
    proof (cases "p ?h")
      case ph: True
      have "sortSearch p i j = sortSearch p i ?h" using True ph by (subst sortSearch.simps) (simp add: Let_def)
      moreover have "\<forall>k. ?h \<le> k \<longrightarrow> p k" using ph 1(3) by blast
      ultimately show ?thesis using 1(2) [OF True refl] ph h 1(3) by (metis not_le)
    next
      case ph: False
      have "sortSearch p i j = sortSearch p (?h + 1) j" using True ph by (subst sortSearch.simps) (simp add: Let_def)
      moreover have "\<forall>k. k \<le> ?h \<longrightarrow> \<not> p k" using ph 1(3) by blast
      moreover have "(\<forall>k. ?h + 1 \<le> k \<longrightarrow> k < sortSearch p (?h + 1) j \<longrightarrow> \<not> p k) \<and> (\<forall>k. sortSearch p (?h + 1) j \<le> k \<longrightarrow> k < j \<longrightarrow> p k)"
        using 1(1) [OF True refl ph] 1(3) h by simp
      ultimately show ?thesis by (metis Suc_eq_plus1 not_less_eq_eq)
    qed
  next
    case False
    then have "sortSearch p i j = i" by (subst sortSearch.simps) simp
    then show ?thesis using False by auto
  qed
qed

text \<open>Inserting a candidate into a list sorted by name.\<close>

abbreviation insertByName :: "resultCandidate \<Rightarrow> resultCandidate list \<Rightarrow> resultCandidate list" where
  "insertByName \<equiv> insort_key rcd_Name"

abbreviation byName :: "resultCandidate list \<Rightarrow> bool" where
  "byName vs \<equiv> sorted (map rcd_Name vs)"

lemma insort_split: "insort_key f x xs = takeWhile (\<lambda>y. \<not> f x \<le> f y) xs @ x # dropWhile (\<lambda>y. \<not> f x \<le> f y) xs"
  by (induction xs) auto

lemma sortSearch_cong: "(\<And>k. k < j \<Longrightarrow> p k = q k) \<Longrightarrow> sortSearch p i j = sortSearch q i j"
proof (induction p i j rule: sortSearch.induct)
  case (1 p i j)
  then show ?case by (subst (1 2) sortSearch.simps) (auto simp: Let_def)
qed

lemma search_insert:
  fixes c vs
  defines "i \<equiv> sortSearch (\<lambda>i. rcd_Name c \<le> rcd_Name (vs ! i)) 0 (length vs)"
  assumes "byName vs"
  shows "i = length (takeWhile (\<lambda>v. \<not> rcd_Name c \<le> rcd_Name v) vs)" "take i vs @ c # drop i vs = insertByName c vs"
proof -
  let ?p = "\<lambda>i. length vs \<le> i \<or> rcd_Name c \<le> rcd_Name (vs ! i)"
  have i: "i = sortSearch ?p 0 (length vs)" unfolding i_def by (rule sortSearch_cong) auto
  have mono: "?p b" if "a \<le> b" "?p a" for a b
  proof (cases "length vs \<le> b")
    case False
    then have "rcd_Name (vs ! a) \<le> rcd_Name (vs ! b)" using sorted_nth_mono [OF assms(2), of a b] that by simp
    then show ?thesis using that False by auto
  qed simp
  have s: "\<forall>k. k < i \<longrightarrow> \<not> ?p k" "\<forall>k. i \<le> k \<longrightarrow> k < length vs \<longrightarrow> ?p k"
    using sortSearch_split [of ?p 0 "length vs"] mono unfolding i by blast+
  have le: "i \<le> length vs" using sortSearch_bounds [of 0 "length vs"] unfolding i_def by blast
  have "takeWhile (\<lambda>v. \<not> rcd_Name c \<le> rcd_Name v) vs = take i vs"
    using s by (intro takeWhile_eq_take_P_nth) auto
  then show len: "i = length (takeWhile (\<lambda>v. \<not> rcd_Name c \<le> rcd_Name v) vs)" using le by simp
  show "take i vs @ c # drop i vs = insertByName c vs"
    unfolding insort_split by (subst takeWhile_eq_take, subst dropWhile_eq_drop, simp only: len [symmetric])
qed

text \<open>The same without the bound: every candidate but the ones with a smaller alias.\<close>

definition keepAll :: "resultCandidate list \<Rightarrow> resultCandidate \<Rightarrow> resultCandidate list" where
  "keepAll vs c =
     (let same = (\<lambda>v. rcd_Identity v = rcd_Identity c) in
      case find same vs of
        Some previous \<Rightarrow> if rcd_Name previous \<le> rcd_Name c then vs else insertByName c (removeFirst same vs)
      | None \<Rightarrow> insertByName c vs)"

lemma take_insort: "take n (insort_key f x (take n xs)) = take n (insort_key f x xs)"
  by (induction xs arbitrary: n) (auto simp: take_Cons split: nat.splits)

lemma insort_smallest: "\<forall>y \<in> set ys. f x \<le> f y \<Longrightarrow> insort_key f x ys = x # ys"
  by (cases ys) auto

lemma take_insort_replace:
  assumes "sorted (map f xs)" "\<exists>x \<in> set (take n xs). q x" "find q xs = Some p" "\<not> f p \<le> f c"
  shows "take n (insort_key f c (take (n - 1) (removeFirst q xs))) = take n (insort_key f c (removeFirst q xs))"
  using assms
proof (induction xs arbitrary: n)
  case (Cons y ys)
  then obtain m where n: "n = Suc m" by (cases n) auto
  show ?case
  proof (cases "q y")
    case True
    then have "\<forall>z \<in> set ys. f c \<le> f z" using Cons.prems by auto
    then have "insort_key f c ys = c # ys" "insort_key f c (take m ys) = c # take m ys"
      by (auto intro!: insort_smallest dest: in_set_takeD)
    then show ?thesis using True n by simp
  next
    case False
    then obtain k where m: "m = Suc k" "\<exists>x \<in> set (take m ys). q x" using Cons.prems(2) n by (cases m) auto
    have "take m (insort_key f c (take (m - 1) (removeFirst q ys))) = take m (insort_key f c (removeFirst q ys))"
      using Cons.prems False m by (intro Cons.IH) auto
    then show ?thesis using False n m by simp
  qed
qed simp

lemma removeFirst_take:
  "removeFirst p (take n xs) = (if \<exists>x \<in> set (take n xs). p x then take (n - 1) (removeFirst p xs) else take n xs)"
proof (induction xs arbitrary: n)
  case (Cons y xs)
  then show ?case by (cases n; cases "n - 1") auto
qed simp

lemma take_removeFirst_late: "\<not> (\<exists>x \<in> set (take n xs). p x) \<Longrightarrow> take n (removeFirst p xs) = take n xs"
proof (induction xs arbitrary: n)
  case (Cons y xs)
  then show ?case by (cases n) auto
qed simp

lemma sorted_removeFirst: "sorted (map f xs) \<Longrightarrow> sorted (map f (removeFirst p xs))"
proof (induction xs)
  case (Cons x xs)
  have "set (removeFirst p xs) \<subseteq> set xs" by (induction xs) auto
  then show ?case using Cons by auto
qed simp

lemma insert_bounded:
  assumes "byName vs" "length vs \<le> AutoMaxFiles"
  shows "(let i = sortSearch (\<lambda>i. rcd_Name c \<le> rcd_Name (vs ! i)) 0 (length vs) in
      if AutoMaxFiles \<le> i then vs else take AutoMaxFiles (take i vs @ c # drop i vs)) = take AutoMaxFiles (insertByName c vs)"
proof -
  let ?i = "sortSearch (\<lambda>i. rcd_Name c \<le> rcd_Name (vs ! i)) 0 (length vs)"
  note s = search_insert [OF assms(1), of c]
  have "take AutoMaxFiles (insertByName c vs) = vs" if "AutoMaxFiles \<le> ?i"
  proof -
    have "length (takeWhile (\<lambda>v. \<not> rcd_Name c \<le> rcd_Name v) vs) = length vs"
      using that s(1) assms(2) length_takeWhile_le [of "\<lambda>v. \<not> rcd_Name c \<le> rcd_Name v" vs] by simp
    then have "takeWhile (\<lambda>v. \<not> rcd_Name c \<le> rcd_Name v) vs = vs" by (metis takeWhile_eq_take take_all_iff le_refl)
    moreover have "AutoMaxFiles \<le> length vs" using that s(1) length_takeWhile_le [of "\<lambda>v. \<not> rcd_Name c \<le> rcd_Name v" vs] by simp
    ultimately show ?thesis unfolding insort_split using assms(2) by (simp only: take_append) simp
  qed
  then show ?thesis using s(2) by (auto simp: Let_def)
qed

lemma find_distinct: "distinct (map f xs) \<Longrightarrow> find (\<lambda>v. f v = k) xs = Some p \<longleftrightarrow> p \<in> set xs \<and> f p = k"
  by (induction xs) (auto simp: image_iff)

lemma length_removeFirst: "length (removeFirst p xs) \<le> length xs"
  by (induction xs) auto

lemma sorted_take_map: "sorted (map f xs) \<Longrightarrow> sorted (map f (take n xs))"
  by (simp add: take_map [symmetric] sorted_wrt_take)

lemma retain_place:
  assumes "byName vs" "length vs \<le> AutoMaxFiles" "find (\<lambda>v. rcd_Identity v = rcd_Identity c) vs = None"
  shows "retainResultCandidate vs c = take AutoMaxFiles (insertByName c vs)"
  using assms insert_bounded [of vs c] by (simp add: retainResultCandidate_def Let_def)

lemma take_insort_large:
  assumes "\<forall>v \<in> set (take n vs). \<not> f c \<le> f v" "n \<le> length vs"
  shows "take n (insort_key f c (take n vs)) = take n vs"
proof -
  have "insort_key f c (take n vs) = take n vs @ [c]" using assms(1) by (simp add: insort_split)
  then show ?thesis using assms(2) by simp
qed

lemma retain_take:
  assumes "byName vs" "distinct (map rcd_Identity vs)" "distinct (map rcd_Name vs)"
  shows "retainResultCandidate (take AutoMaxFiles vs) c = take AutoMaxFiles (keepAll vs c)"
proof -
  let ?n = AutoMaxFiles
  let ?same = "\<lambda>v. rcd_Identity v = rcd_Identity c"
  have st: "byName (take ?n vs)" using assms(1) by (rule sorted_take_map)
  have dt: "distinct (map rcd_Identity (take ?n vs))" using assms(2) by (simp add: distinct_take flip: take_map)
  have fresh: "retainResultCandidate (take ?n vs) c = take ?n (insertByName c vs)" if "\<not> (\<exists>v \<in> set (take ?n vs). ?same v)"
    using that st by (subst retain_place) (auto simp: find_None_iff take_insort)
  show ?thesis
  proof (cases "find ?same vs")
    case None
    then have "\<not> (\<exists>v \<in> set (take ?n vs). ?same v)" by (auto simp: find_None_iff dest: in_set_takeD)
    then show ?thesis using fresh None by (simp add: keepAll_def)
  next
    case (Some p)
    then have p: "p \<in> set vs" "?same p" using find_distinct [OF assms(2)] by auto
    show ?thesis
    proof (cases "p \<in> set (take ?n vs)")
      case True
      then have f: "find ?same (take ?n vs) = Some p" using find_distinct [OF dt] p by blast
      show ?thesis
      proof (cases "rcd_Name p \<le> rcd_Name c")
        case True
        then show ?thesis using f Some by (simp add: retainResultCandidate_def keepAll_def)
      next
        case False
        have r: "removeFirst ?same (take ?n vs) = take (?n - 1) (removeFirst ?same vs)" using True p(2) by (subst removeFirst_take) auto
        have "byName (removeFirst ?same (take ?n vs))" "length (removeFirst ?same (take ?n vs)) \<le> ?n"
          using sorted_removeFirst [OF st] length_removeFirst [of ?same "take ?n vs"] by auto
        from insert_bounded [OF this, of c] have "retainResultCandidate (take ?n vs) c = take ?n (insertByName c (removeFirst ?same (take ?n vs)))"
          using f False by (simp add: retainResultCandidate_def Let_def)
        also have "\<dots> = take ?n (insertByName c (removeFirst ?same vs))"
          unfolding r using assms(1) True p Some False by (intro take_insort_replace) auto
        finally show ?thesis using Some False by (simp add: keepAll_def)
      qed
    next
      case late: False
      then have none: "\<not> (\<exists>v \<in> set (take ?n vs). ?same v)"
        using assms(2) p by (metis find_distinct in_set_takeD option.inject)
      show ?thesis
      proof (cases "rcd_Name p \<le> rcd_Name c")
        case True
        have n: "?n \<le> length vs" using late p(1) by (metis linorder_linear take_all_iff)
        have "\<not> rcd_Name c \<le> rcd_Name v" if v: "v \<in> set (take ?n vs)" for v
        proof
          assume c: "rcd_Name c \<le> rcd_Name v"
          have "p \<in> set (drop ?n vs)" using p(1) late by (metis UnE append_take_drop_id set_append)
          moreover have "byName (take ?n vs @ drop ?n vs)" using assms(1) by simp
          ultimately have "rcd_Name v \<le> rcd_Name p" using v unfolding map_append sorted_append by auto
          then have "rcd_Name v = rcd_Name p" using c True by order
          then have "v = p" using assms(3) v p(1) by (metis distinct_map inj_onD in_set_takeD)
          then show False using late v by simp
        qed
        then have "take ?n (insertByName c (take ?n vs)) = take ?n vs" using n by (intro take_insort_large) auto
        then show ?thesis using fresh [OF none] Some True by (simp add: keepAll_def take_insort)
      next
        case False
        have "take ?n (removeFirst ?same vs) = take ?n vs" using none by (rule take_removeFirst_late)
        then have "take ?n (insertByName c vs) = take ?n (insertByName c (removeFirst ?same vs))" by (metis take_insort)
        then show ?thesis using fresh [OF none] Some False by (simp add: keepAll_def)
      qed
    qed
  qed
qed

text \<open>The reference: of each file the alias with the smallest name, the first fifty by name.\<close>

definition smallestAliases :: "resultCandidate list \<Rightarrow> resultCandidate list" where
  "smallestAliases cs = filter (\<lambda>c. list_all (\<lambda>d. rcd_Identity d = rcd_Identity c \<longrightarrow> rcd_Name c \<le> rcd_Name d) cs) cs"

definition kept :: "resultCandidate list \<Rightarrow> resultCandidate list \<Rightarrow> bool" where
  "kept cs vs \<longleftrightarrow> byName vs \<and> distinct (map rcd_Name vs) \<and> distinct (map rcd_Identity vs) \<and> set vs = set (smallestAliases cs)"

lemma smallestAliases_member: "c \<in> set (smallestAliases cs) \<longleftrightarrow>
    c \<in> set cs \<and> (\<forall>d \<in> set cs. rcd_Identity d = rcd_Identity c \<longrightarrow> rcd_Name c \<le> rcd_Name d)"
  by (auto simp: smallestAliases_def list_all_iff)

lemma smallest_alias_exists:
  assumes "d \<in> set cs"
  shows "\<exists>p \<in> set (smallestAliases cs). rcd_Identity p = rcd_Identity d"
proof -
  let ?S = "{c \<in> set cs. rcd_Identity c = rcd_Identity d}"
  have "finite (rcd_Name ` ?S)" "rcd_Name ` ?S \<noteq> {}" using assms by auto
  then obtain p where "p \<in> ?S" "rcd_Name p = Min (rcd_Name ` ?S)" using Min_in by (metis (no_types, lifting) imageE)
  then show ?thesis using \<open>finite (rcd_Name ` ?S)\<close> by (intro bexI [of _ p]) (auto simp: smallestAliases_member intro!: Min_le)
qed

lemma set_removeFirst_distinct: "distinct (map f xs) \<Longrightarrow> set (removeFirst (\<lambda>v. f v = k) xs) = {v \<in> set xs. f v \<noteq> k}"
  by (induction xs) (auto simp: image_iff)

lemma distinct_removeFirst: "distinct (map g xs) \<Longrightarrow> distinct (map g (removeFirst p xs))"
proof (induction xs)
  case (Cons x xs)
  have "set (removeFirst p xs) \<subseteq> set xs" by (induction xs) auto
  then show ?case using Cons by auto
qed simp

lemma distinct_insort_map: "distinct (map g (insort_key f c vs)) \<longleftrightarrow> g c \<notin> g ` set vs \<and> distinct (map g vs)"
  by (induction vs) (auto simp: set_insort_key)

lemma kept_keepAll:
  assumes "kept cs vs" "rcd_Name c \<notin> rcd_Name ` set cs"
  shows "kept (cs @ [c]) (keepAll vs c)"
proof -
  let ?same = "\<lambda>v. rcd_Identity v = rcd_Identity c"
  note k = assms(1) [unfolded kept_def]
  have names: "rcd_Name c \<notin> rcd_Name ` set vs" using k assms(2) by (auto simp: smallestAliases_member)
  have best: "v \<in> set vs \<longleftrightarrow> v \<in> set cs \<and> (\<forall>d \<in> set cs. rcd_Identity d = rcd_Identity v \<longrightarrow> rcd_Name v \<le> rcd_Name d)" for v
    using k by (simp add: smallestAliases_member)
  show ?thesis
  proof (cases "find ?same vs")
    case None
    then have none: "\<forall>v \<in> set vs. \<not> ?same v" by (auto simp: find_None_iff)
    then have "\<forall>d \<in> set cs. \<not> ?same d" using smallest_alias_exists k by metis
    then have "set (insertByName c vs) = set (smallestAliases (cs @ [c]))"
      using best by (auto simp: smallestAliases_member set_insort_key) metis
    then show ?thesis using None none k names by (auto simp: keepAll_def kept_def sorted_insort_key distinct_insort_map)
  next
    case (Some p)
    then have p: "p \<in> set vs" "?same p" using find_distinct [of rcd_Identity vs "rcd_Identity c" p] k by auto
    have pc: "p \<in> set cs" "rcd_Name p \<noteq> rcd_Name c" "\<forall>d \<in> set cs. ?same d \<longrightarrow> rcd_Name p \<le> rcd_Name d"
      using p names best [of p] by (auto simp: image_iff)
    have only: "v = p" if "v \<in> set vs" "?same v" for v
      using that p k by (metis distinct_map inj_onD)
    have snoc: "v \<in> set (smallestAliases (cs @ [c])) \<longleftrightarrow>
        v = c \<and> (\<forall>d \<in> set cs. ?same d \<longrightarrow> rcd_Name c \<le> rcd_Name d) \<or> v \<in> set vs \<and> (?same v \<longrightarrow> rcd_Name v \<le> rcd_Name c)" for v
      unfolding smallestAliases_member best by auto
    show ?thesis
    proof (cases "rcd_Name p \<le> rcd_Name c")
      case True
      then have "\<not> rcd_Name c \<le> rcd_Name p" using pc(2) by order
      then have "set vs = set (smallestAliases (cs @ [c]))" unfolding set_eq_iff snoc using pc(1) p(2) only True by blast
      then show ?thesis using Some True k by (simp add: keepAll_def kept_def)
    next
      case False
      let ?vs = "removeFirst ?same vs"
      have s: "set ?vs = {v \<in> set vs. \<not> ?same v}" using k by (intro set_removeFirst_distinct) auto
      have "\<forall>d \<in> set cs. ?same d \<longrightarrow> rcd_Name c \<le> rcd_Name d" using pc(3) False by (meson linorder_le_cases order_trans)
      then have "set (insertByName c ?vs) = set (smallestAliases (cs @ [c]))"
        unfolding set_eq_iff set_insort_key s snoc using only False by auto
      moreover have "byName ?vs" "distinct (map rcd_Name ?vs)" "distinct (map rcd_Identity ?vs)"
        using k by (auto intro: sorted_removeFirst distinct_removeFirst)
      ultimately show ?thesis using Some False s names by (auto simp: keepAll_def kept_def sorted_insort_key distinct_insort_map)
    qed
  qed
qed

lemma kept_unique:
  assumes "kept cs vs" "distinct (map rcd_Name cs)"
  shows "vs = sort_key rcd_Name (smallestAliases cs)"
proof -
  let ?s = "sort_key rcd_Name (smallestAliases cs)"
  have d: "distinct (map rcd_Name ?s)"
    using distinct_map_filter [OF assms(2)] by (simp add: distinct_map smallestAliases_def)
  have "map rcd_Name vs = map rcd_Name ?s"
    using assms(1) d by (intro sorted_distinct_set_unique) (auto simp: kept_def)
  moreover have "inj_on rcd_Name (set vs \<union> set ?s)"
    using assms by (auto simp: kept_def distinct_map smallestAliases_member intro: inj_on_subset)
  ultimately show ?thesis by (simp add: map_inj_on)
qed

text \<open>C23: The bounded list of candidates of one priority class is what a full sort would give: after any
  sequence of candidates with distinct names it holds, of every file the alias with the smallest
  name, the first fifty by name.\<close>

theorem retained_candidates_are_first:
  assumes "distinct (map rcd_Name cs)"
  shows "foldl retainResultCandidate [] cs = take 50 (sort_key rcd_Name (smallestAliases cs))"
proof -
  have "kept cs (foldl keepAll [] cs) \<and> foldl retainResultCandidate [] cs = take AutoMaxFiles (foldl keepAll [] cs)"
    using assms
  proof (induction cs rule: rev_induct)
    case Nil
    then show ?case by (simp add: kept_def smallestAliases_def)
  next
    case (snoc c cs)
    then have k: "kept cs (foldl keepAll [] cs)" "foldl retainResultCandidate [] cs = take AutoMaxFiles (foldl keepAll [] cs)" by auto
    have "kept (cs @ [c]) (keepAll (foldl keepAll [] cs) c)" using snoc.prems by (intro kept_keepAll k) auto
    then show ?case using k retain_take [of "foldl keepAll [] cs" c] by (simp add: kept_def)
  qed
  then show ?thesis using kept_unique [OF _ assms, of "foldl keepAll [] cs"] by (simp add: AutoMaxFiles_def)
qed

theorem retained_candidates_are_first_witness:
  "let a = \<lparr>rcd_Name = ''a'', rcd_Failed = False, rcd_Identity = 1\<rparr>; b = \<lparr>rcd_Name = ''b'', rcd_Failed = False, rcd_Identity = 2\<rparr>;
       c = \<lparr>rcd_Name = ''c'', rcd_Failed = False, rcd_Identity = 1\<rparr>
   in foldl retainResultCandidate [] [c, b, a] = [a, b]"
  unfolding Let_def
  by (subst retained_candidates_are_first) (simp_all add: smallestAliases_def less_list_code less_eq_list_code)

section \<open>What is collected\<close>

lemma ctxErr_Inr [simp]: "ctxErr dk t = (t', Inr u) \<longleftrightarrow> t' = Suc t \<and> dk_Ctx dk t = None"
  by (auto simp: ctxErr_def split: option.splits)

lemma readDistinct_ok:
  assumes "readDistinct dk name limit seen t = (t', Inr (f, ident))"
  shows "fl_Path f = name" "0 < limit" "int (length (fl_Data f)) \<le> limit" "ident \<notin> seen"
  using assms by (auto simp: readDistinct_def bindR_Inr Let_def openRegular_def liftRes_def not_le not_less)

text \<open>What the named files add: a subsequence of the names, within both limits.\<close>

definition explicitOk :: "ResultOptions \<Rightarrow> string list \<Rightarrow> File list \<Rightarrow> bool" where
  "explicitOk options names fs \<longleftrightarrow> subseq (map fl_Path fs) names \<and> int (dataBytes fs) \<le> max 0 (ro_ExplicitTotalBytes options)
     \<and> list_all (\<lambda>f. int (length (fl_Data f)) \<le> ro_ExplicitMaxBytes options) fs"

lemma readExplicit_ok:
  assumes "readExplicit dk options names c t = (t', Inr c')" "distinct (co_IDs c)" "explicitOk options done (co_Files c)"
  shows "distinct (co_IDs c') \<and> explicitOk options (done @ names) (co_Files c')"
  using assms
proof (induction names arbitrary: c t "done")
  case (Cons name names)
  let ?limit = "min (ro_ExplicitMaxBytes options) (ro_ExplicitTotalBytes options - int (dataBytes (co_Files c)))"
  obtain t2 r where r: "readDistinct dk name ?limit (set (co_IDs c)) (Suc t) = (t2, r)" by fastforce
  have ctx: "dk_Ctx dk t = None" using Cons.prems(1) by (auto simp: ctxErr_def split: option.splits)
  have skip: "explicitOk options (done @ [name]) (co_Files c)" using Cons.prems(3) by (auto simp: explicitOk_def intro: subseq_append')
  show ?case
  proof (cases r)
    case (Inl e)
    let ?c = "if e = ErrLimit \<or> e = ErrChanged then c\<lparr>co_Warnings := co_Warnings c @ [\<lparr>wn_Path = name, wn_Message = errText e\<rparr>]\<rparr> else c"
    have l: "readExplicit dk options names ?c (Suc t2) = (t', Inr c')"
      using Cons.prems(1) r Inl ctx by (auto simp: ctxErr_def Let_def split: option.splits)
    have "distinct (co_IDs ?c)" "co_Files ?c = co_Files c" using Cons.prems(2) by auto
    then show ?thesis using Cons.IH [OF l, of "done @ [name]"] skip by simp
  next
    case (Inr x)
    obtain f i where x: "x = (f, i)" by fastforce
    let ?c = "c\<lparr>co_Files := co_Files c @ [f], co_IDs := co_IDs c @ [i]\<rparr>"
    have l: "readExplicit dk options names ?c t2 = (t', Inr c')"
      using Cons.prems(1) r Inr x ctx by (auto simp: ctxErr_def Let_def split: option.splits)
    note o = readDistinct_ok [OF r [unfolded Inr x]]
    have "distinct (co_IDs ?c)" using Cons.prems(2) o(4) by simp
    moreover have "explicitOk options (done @ [name]) (co_Files ?c)"
      using Cons.prems(3) o(1-3) by (auto simp: explicitOk_def intro: list_emb_append_mono)
    ultimately show ?thesis using Cons.IH [OF l, of "done @ [name]"] by simp
  qed
qed simp

definition autoOk :: "File list \<Rightarrow> bool" where
  "autoOk fs \<longleftrightarrow> length fs \<le> 50 \<and> dataBytes fs \<le> 64 * 2 ^ 20 \<and> list_all (\<lambda>f. length (fl_Data f) \<le> 16 * 2 ^ 20) fs"

lemma readCandidates_ok:
  assumes "readCandidates dk options cands auto c t = (t', Inr (auto', c'))" "distinct (co_IDs c)" "co_Files c = explicit @ auto" "autoOk auto"
  shows "distinct (co_IDs c') \<and> co_Files c' = explicit @ auto' \<and> autoOk auto'"
  using assms
proof (induction cands arbitrary: auto c t)
  case (Cons cand cands)
  show ?case
  proof (cases "AutoMaxFiles \<le> length auto")
    case True
    then show ?thesis using Cons.prems by simp
  next
    case False
    obtain t2 r where r: "readDistinct dk (rcd_Name cand) AutoMaxFileBytes (set (co_IDs c)) (Suc t) = (t2, r)" by fastforce
    have ctx: "dk_Ctx dk t = None" using Cons.prems(1) False by (auto simp: ctxErr_def split: option.splits)
    show ?thesis
    proof (cases r)
      case (Inl e)
      then obtain ws where "readCandidates dk options cands auto (c\<lparr>co_Warnings := ws\<rparr>) (Suc t2) = (t', Inr (auto', c'))"
        using Cons.prems(1) False r ctx by (auto simp: ctxErr_def Let_def split: option.splits if_splits) (metis collection.surjective collection.update_convs(3) collection.select_convs(3))
      from Cons.IH [OF this] show ?thesis using Cons.prems by simp
    next
      case (Inr x)
      obtain f i where x: "x = (f, i)" by fastforce
      note o = readDistinct_ok [OF r [unfolded Inr x]]
      let ?c = "c\<lparr>co_Files := co_Files c @ [f], co_IDs := co_IDs c @ [i]\<rparr>"
      have ok: "distinct (co_IDs ?c)" using Cons.prems(2) o(4) by simp
      consider (none) "readCandidates dk options cands auto c t2 = (t', Inr (auto', c'))"
        | (same) ws where "readCandidates dk options cands auto (c\<lparr>co_Warnings := ws\<rparr>) t2 = (t', Inr (auto', c'))"
        | (added) "readCandidates dk options cands (auto @ [f]) ?c t2 = (t', Inr (auto', c'))"
            "\<not> int AutoMaxTotalBytes < int (dataBytes auto + length (fl_Data f))"
        using Cons.prems(1) False r ctx Inr x by (auto simp: ctxErr_def Let_def split: option.splits if_splits)
      then show ?thesis
      proof cases
        case none
        from Cons.IH [OF this] show ?thesis using Cons.prems by simp
      next
        case same
        from Cons.IH [OF this] show ?thesis using Cons.prems by simp
      next
        case added
        have "autoOk (auto @ [f])" using Cons.prems(4) False added(2) o(3)
          by (auto simp: autoOk_def AutoMaxFiles_def AutoMaxTotalBytes_def AutoMaxFileBytes_def)
        then show ?thesis using Cons.IH [OF added(1) ok] Cons.prems(3) by simp
      qed
    qed
  qed
qed auto

lemma CollectResults_ok:
  assumes "CollectResults dk tree options t = (t', Inr c)"
  shows "distinct (co_IDs c) \<and> (\<exists>explicit auto. co_Files c = explicit @ auto \<and> explicitOk options (ro_Paths options) explicit \<and> autoOk auto)"
proof -
  let ?c0 = "\<lparr>co_Files = [], co_IDs = [], co_Warnings = []\<rparr>"
  have start: "distinct (co_IDs ?c0)" "explicitOk options [] (co_Files ?c0)" by (simp_all add: explicitOk_def)
  from assms obtain t1 t2 c1 where e: "readExplicit dk options (ro_Paths options) ?c0 t1 = (t2, Inr c1)"
    and rest: "(if \<not> ro_Auto options then bindR (ctxErr dk) (\<lambda>_. returnR c1)
       else (\<lambda>t. case resultCandidates dk tree (ro_After options) (set (co_IDs c1)) t of
         (s, Inl e) \<Rightarrow> (sc_Step s, Inl e)
       | (s, Inr _) \<Rightarrow>
           bindR (readCandidates dk options (sort_key candidateKey (sc_Failing s @ sc_Passing s)) []
                    (c1\<lparr>co_Warnings := co_Warnings c1 @ sc_Warnings s\<rparr>)) (\<lambda>(auto, c').
           bindR (ctxErr dk) (\<lambda>_. returnR c')) (sc_Step s))) t2 = (t', Inr c)"
    unfolding CollectResults_def bindR_Inr by blast
  have c1: "distinct (co_IDs c1)" "explicitOk options (ro_Paths options) (co_Files c1)"
    using readExplicit_ok [OF e start] by auto
  show ?thesis
  proof (cases "ro_Auto options")
    case False
    then have "c = c1" using rest by (auto simp: bindR_Inr)
    then show ?thesis using c1 by (intro conjI exI [of _ "co_Files c1"] exI [of _ "[]"]) (simp_all add: autoOk_def)
  next
    case True
    then obtain s :: scan and auto where "readCandidates dk options (sort_key candidateKey (sc_Failing s @ sc_Passing s)) []
        (c1\<lparr>co_Warnings := co_Warnings c1 @ sc_Warnings s\<rparr>) (sc_Step s) = (t' - 1, Inr (auto, c))"
      using rest by (auto simp: bindR_Inr split: prod.splits sum.splits)
    from readCandidates_ok [OF this, of "co_Files c1"] have "distinct (co_IDs c) \<and> co_Files c = co_Files c1 @ auto \<and> autoOk auto"
      using c1 by (simp add: autoOk_def)
    then show ?thesis using c1 by blast
  qed
qed


definition demoDisk :: disk where
  "demoDisk =
     (let st = \<lparr>sf_Size = 2, sf_ModTime = 5\<rparr> in
      \<lparr>dk_Ctx = (\<lambda>_. None),
       dk_Open = (\<lambda>_ n. if n = ''a.xml'' \<or> n = ''b.xml''
                        then Inr \<lparr>fv_ID = 7, fv_Before = Inr st, fv_Data = ''ok'', fv_ReadErr = None, fv_After = Inr st\<rparr>
                        else Inl (Native ''not found'')),
       dk_Failure = (\<lambda>_. False), dk_Windows = False, dk_RootErr = None\<rparr>)"

definition demoOptions :: ResultOptions where
  "demoOptions = \<lparr>ro_Paths = [''a.xml'', ''b.xml'', ''c.xml''], ro_Auto = False, ro_After = None,
     ro_ExplicitMaxBytes = int ExplicitMaxFileBytes, ro_ExplicitTotalBytes = int ExplicitMaxTotalBytes\<rparr>"

lemma demoCollect: "CollectResults demoDisk [] demoOptions 0 =
    (14, Inr \<lparr>co_Files = [\<lparr>fl_Path = ''a.xml'', fl_ModTime = 5, fl_Data = ''ok''\<rparr>], co_IDs = [7], co_Warnings = []\<rparr>)"
  by (simp add: CollectResults_def demoOptions_def demoDisk_def bindR_run ctxErr_def readDistinct_def openRegular_def liftRes_def Let_def
      ErrLimit_def ErrChanged_def errDuplicateReport_def limit_defs)


text \<open>The limits that the client checks, apart from those on the paths.\<close>

definition acceptablePaths :: "File list \<Rightarrow> bool" where
  "acceptablePaths fs \<longleftrightarrow> distinct (map fl_Path fs) \<and> [] \<notin> set (map fl_Path fs)"

definition fittingSizes :: "File list \<Rightarrow> bool" where
  "fittingSizes fs \<longleftrightarrow> length fs \<le> 4146 \<and> list_all (\<lambda>f. length (fl_Data f) \<le> 64 * 2 ^ 20) fs \<and> dataBytes fs \<le> 320 * 2 ^ 20"

lemma withinLimits_parts: "withinLimits fs \<longleftrightarrow> acceptablePaths fs \<and> fittingSizes fs"
  by (auto simp: withinLimits_def acceptablePaths_def fittingSizes_def)

lemma CollectResults_fits:
  assumes "CollectResults dk tree options t = (t', Inr c)"
    and "ro_ExplicitMaxBytes options = int ExplicitMaxFileBytes" "ro_ExplicitTotalBytes options = int ExplicitMaxTotalBytes"
    and "length (ro_Paths options) \<le> ExplicitMaxFiles"
  shows "fittingSizes (co_Files c)"
proof -
  obtain explicit auto where ok: "co_Files c = explicit @ auto" "explicitOk options (ro_Paths options) explicit" "autoOk auto"
    using CollectResults_ok [OF assms(1)] by blast
  have "length explicit \<le> 4096"
    using ok(2) assms(4) list_emb_length [of "(=)" "map fl_Path explicit" "ro_Paths options"] by (simp add: explicitOk_def ExplicitMaxFiles_def)
  moreover have "dataBytes (explicit @ auto) \<le> 320 * 2 ^ 20"
    using ok(2,3) assms(3) by (simp add: explicitOk_def autoOk_def ExplicitMaxTotalBytes_def dataBytes_def)
  moreover have "list_all (\<lambda>f. length (fl_Data f) \<le> 64 * 2 ^ 20) (explicit @ auto)"
    using ok(2,3) assms(2) by (auto simp: explicitOk_def autoOk_def ExplicitMaxFileBytes_def list_all_iff)
  ultimately show ?thesis using ok(1,3) by (auto simp: fittingSizes_def autoOk_def)
qed

end
