(* ===== verification/RunnerServe.thy ===== *)
theory RunnerServe
  imports RunnerClient RunnerResults
begin

text \<open>
  The runner's server (internal/runner/server.go): one operation per stream, answered by an identity,
  files, a result or an error, and an end frame.

  \<^item> The server's state is its frame reader, its output and the stage it published, if it did.
  \<^item> Parameters (\<open>serveEnv\<close>): the home directory, opening a root (which gives the disk and tree of
    \<open>RunnerResults\<close>), the time of the results marker, the archive operations of runnerfs, the context
    at each of its checks and its cause at the end, and the classification of errors by \<open>errors.As\<close>.
\<close>

section \<open>State and environment\<close>

record 'g serveEnv =
  sv_Ctx :: "nat \<Rightarrow> gerr option"
  sv_Cause :: "gerr option"
  sv_Windows :: bool
  sv_Home :: "string res"
  sv_OpenRoot :: "string \<Rightarrow> (disk \<times> dirEntry list) res"
  sv_Marker :: "string \<Rightarrow> int res"
  sv_Archive :: "'g archiveOps"
  sv_Adopt :: "string \<Rightarrow> string \<Rightarrow> string res"
  sv_Create :: "string \<Rightarrow> (ArchiveSource \<times> string) res"
  sv_IsInvalid :: "gerr \<Rightarrow> bool"
  sv_Adoption :: "gerr \<Rightarrow> string option"

record 'g server =
  sr_In :: Reader
  sr_Out :: sink
  sr_Published :: "'g option"

definition onInput :: "(Reader, 'a) proc \<Rightarrow> ('g server, 'a) proc" where
  "onInput m s = (case m (sr_In s) of (r, x) \<Rightarrow> (s\<lparr>sr_In := r\<rparr>, x))"

definition onOutput :: "(sink, 'a) proc \<Rightarrow> ('g server, 'a) proc" where
  "onOutput m s = (case m (sr_Out s) of (w, x) \<Rightarrow> (s\<lparr>sr_Out := w\<rparr>, x))"

definition publish :: "'g archiveOps \<Rightarrow> 'g \<Rightarrow> ('g server, unit) proc" where
  "publish ops stage s = (s\<lparr>sr_Published := Some stage\<rparr>, case ar_Publish ops stage of Some e \<Rightarrow> Inl e | None \<Rightarrow> Inr ())"

section \<open>Operations\<close>

definition expandPath :: "string res \<Rightarrow> string \<Rightarrow> string res" where
  "expandPath home name =
     (if TrimSpace name = [] \<or> ContainsAny name controls then Inl (Fail ''runner path is empty or contains control characters'')
      else if HasPrefix name ''~'' then
        (if name \<noteq> ''~'' \<and> \<not> HasPrefix name ''~/'' then Inl (Fail ''named-user home paths are unsupported'')
         else (case home of Inl e \<Rightarrow> Inl e | Inr h \<Rightarrow> Inr (h @ drop 1 name)))
      else Inr name)"

definition warningBudget :: int where "warningBudget = 48 * 2 ^ 10"

definition encodedLength :: "Warning \<Rightarrow> int" where
  "encodedLength w = int (length (jsonPrint (warningJson w)))"

fun boundWarnings :: "int \<Rightarrow> nat \<Rightarrow> Warning list \<Rightarrow> Warning list \<times> nat" where
  "boundWarnings used omitted [] = ([], omitted)"
| "boundWarnings used omitted (w # ws) =
     (if encodedLength w + 1 > warningBudget - used then boundWarnings used (omitted + 1) ws
      else (case boundWarnings (used + (encodedLength w + 1)) omitted ws of (ret, n) \<Rightarrow> (w # ret, n)))"

definition boundedResultWarnings :: "Warning list \<Rightarrow> Warning list" where
  "boundedResultWarnings ws =
     (case boundWarnings 0 0 ws of (retained, omitted) \<Rightarrow>
        if omitted \<noteq> 0 then retained @ [\<lparr>wn_Path = [],
           wn_Message = dec_nat omitted @ '' additional result warnings omitted to keep the response bounded''\<rparr>]
        else retained)"

text \<open>The frames of the collected files; the context is checked before each.\<close>

fun writeFiles :: "timeCodec \<Rightarrow> (nat \<Rightarrow> gerr option) \<Rightarrow> nat \<Rightarrow> File list \<Rightarrow> (sink, unit) proc" where
  "writeFiles tc ctx i [] = returnR ()"
| "writeFiles tc ctx i (f # fs) =
     bindR (checkR (ctx i)) (\<lambda>_.
     bindR (writeFrame tc RunnerWire.File (Some (MFile (emptyFileInfo\<lparr>fin_Path := fl_Path f, fin_ModTime := fl_ModTime f\<rparr>)))
              (length (fl_Data f)) (Some (fl_Data f))) (\<lambda>_.
     writeFiles tc ctx (i + 1) fs))"

definition baseOptions :: "RunnerRequest \<Rightarrow> ResultOptions" where
  "baseOptions request =
     \<lparr>ro_Paths = (case req_Paths request of Some ps \<Rightarrow> ps | None \<Rightarrow> []), ro_Auto = req_Auto request, ro_After = None,
      ro_ExplicitMaxBytes = int ExplicitMaxFileBytes, ro_ExplicitTotalBytes = int ExplicitMaxTotalBytes\<rparr>"

definition resultOptions :: "'g serveEnv \<Rightarrow> string \<Rightarrow> RunnerRequest \<Rightarrow> ResultOptions res" where
  "resultOptions env workdir request =
     (if req_Auto request \<and> req_Marker request \<noteq> [] then
        (if req_Marker request \<noteq> ''crabbox/results-start'' then Inl (Fail ''unsupported results marker'')
         else (case sv_Marker env workdir of
                 Inl _ \<Rightarrow> Inr ((baseOptions request)\<lparr>ro_Auto := False\<rparr>)
               | Inr t \<Rightarrow> Inr ((baseOptions request)\<lparr>ro_After := Some t\<rparr>)))
      else Inr (baseOptions request))"

definition serveResults :: "'g serveEnv \<Rightarrow> timeCodec \<Rightarrow> RunnerRequest \<Rightarrow> ('g server, Outcome) proc" where
  "serveResults env tc request =
     bindR (checkR (validateResultPaths (req_Paths request))) (\<lambda>_.
     bindR (liftRes (expandPath (sv_Home env) (req_Workdir request))) (\<lambda>workdir.
     bindR (liftRes (sv_OpenRoot env workdir)) (\<lambda>(dk, tree).
     bindR (liftRes (resultOptions env workdir request)) (\<lambda>options.
     bindR (liftRes (snd (CollectResults dk tree options 0))) (\<lambda>c.
     bindR (onOutput (writeFiles tc (sv_Ctx env) 2 (co_Files c))) (\<lambda>_.
     returnR (emptyOutcome\<lparr>oc_Warnings := Some (boundedResultWarnings (co_Warnings c))\<rparr>)))))))"

definition serveUpload :: "'g serveEnv \<Rightarrow> RunnerRequest \<Rightarrow> Header \<Rightarrow> ('g server, Outcome) proc" where
  "serveUpload env request h =
     bindR (requireR (\<not> sv_Windows env) (Fail ''archive publication requires a POSIX target'')) (\<lambda>_.
     bindR (requireR (hd_Size h \<noteq> 0) (Fail ''upload request has no archive'')) (\<lambda>_.
     bindR (liftRes (expandPath (sv_Home env) (req_Destination request))) (\<lambda>destination.
     bindR (liftRes (ar_Target (sv_Archive env) destination (as_Base (req_Source request)) (as_ContentsOnly (req_Source request)))) (\<lambda>target.
     bindR (onInput (ar_Stage (sv_Archive env) target)) (\<lambda>stage.
     bindR (onInput readEnd) (\<lambda>_.
     bindR (checkR (sv_Ctx env 1)) (\<lambda>_.
     bindR (publish (sv_Archive env) stage) (\<lambda>_.
     returnR (emptyOutcome\<lparr>oc_Published := True\<rparr>)))))))))"

definition serveRecover :: "'g serveEnv \<Rightarrow> RunnerRequest \<Rightarrow> ('g server, Outcome) proc" where
  "serveRecover env request =
     bindR (requireR (\<not> sv_Windows env) (Fail ''archive recovery requires a POSIX target'')) (\<lambda>_.
     bindR (checkR (sv_Ctx env 1)) (\<lambda>_.
     bindR (liftRes (expandPath (sv_Home env) (req_Destination request))) (\<lambda>destination.
     bindR (liftRes (sv_Adopt env destination (req_RecoveryChoice request))) (\<lambda>retained.
     returnR (emptyOutcome\<lparr>oc_RetainedPath := retained\<rparr>)))))"

definition serveDownload :: "'g serveEnv \<Rightarrow> timeCodec \<Rightarrow> RunnerRequest \<Rightarrow> ('g server, Outcome) proc" where
  "serveDownload env tc request =
     bindR (requireR (\<not> sv_Windows env) (Fail ''archive download requires a POSIX target'')) (\<lambda>_.
     bindR (liftRes (DownloadSource (req_SourcePath request))) (\<lambda>_.
     bindR (liftRes (expandPath (sv_Home env) (req_SourcePath request))) (\<lambda>sourcePath.
     bindR (liftRes (sv_Create env sourcePath)) (\<lambda>(source, archive).
     bindR (onOutput (writeFrame tc RunnerWire.File (Some (MFile (emptyFileInfo\<lparr>fin_Archive := True, fin_Source := source\<rparr>)))
              (length archive) (Some archive))) (\<lambda>_.
     returnR emptyOutcome)))))"

text \<open>The operation of an accepted request, whose header is \<open>h\<close>.\<close>

definition serveRequest :: "'g serveEnv \<Rightarrow> timeCodec \<Rightarrow> RunnerRequest \<Rightarrow> Header \<Rightarrow> ('g server, Outcome) proc" where
  "serveRequest env tc request h =
     (if req_Operation request = Upload then serveUpload env request h
      else
        bindR (requireR (hd_Size h = 0) (Fail ''operation does not accept a request payload'')) (\<lambda>_.
        bindR (onInput readEnd) (\<lambda>_.
        if req_Operation request = RecoverArchive then serveRecover env request
        else if req_Operation request = Collect then serveResults env tc request
        else if req_Operation request = Download then serveDownload env tc request
        else failR (Fail ''unknown runner operation''))))"

definition serveOperation :: "'g serveEnv \<Rightarrow> timeCodec \<Rightarrow> Identity \<Rightarrow> ('g server, Outcome) proc" where
  "serveOperation env tc identity =
     bindR (onInput Next) (\<lambda>h.
     bindR (requireR (hd_Kind h = RunnerWire.Request) (Fail ''missing runner request'')) (\<lambda>_.
     bindR (liftRes (decodeRequest (hd_Meta h))) (\<lambda>request.
     bindR (requireR (\<not> (req_BuildID request = [] \<or> req_BuildID request \<noteq> id_BuildID identity))
              (Fail ''runner build identity mismatch'')) (\<lambda>_.
     bindR (checkR (sv_Ctx env 0)) (\<lambda>_.
     serveRequest env tc request h)))))"

definition remoteError :: "'g serveEnv \<Rightarrow> gerr \<Rightarrow> RemoteError" where
  "remoteError env e =
     (case sv_Adoption env e of
        Some target \<Rightarrow> \<lparr>re_Target = target, re_Code = ''recovery-required'', re_Message = errText e\<rparr>
      | None \<Rightarrow> \<lparr>re_Target = [], re_Code = (if sv_IsInvalid env e then ''invalid'' else ''operation''), re_Message = errText e\<rparr>)"

definition Serve :: "'g serveEnv \<Rightarrow> timeCodec \<Rightarrow> stream \<Rightarrow> sink \<Rightarrow> Identity \<Rightarrow> 'g server \<times> gerr option" where
  "Serve env tc input output identity =
     (let s0 = \<lparr>sr_In = NewReader input MaxCompressedBytes, sr_Out = output, sr_Published = None\<rparr> in
      case onOutput (writeFrame tc Hello (Some (MIdentity identity)) 0 None) s0 of
        (s1, Inl e) \<Rightarrow> (s1, Some e)
      | (s1, Inr _) \<Rightarrow>
          (case serveOperation env tc identity s1 of (s2, res) \<Rightarrow>
             (case joinErrs [errOf res, sv_Cause env] of
                Some e \<Rightarrow>
                  (case onOutput (bindR (writeFrame tc Error (Some (MRemote (remoteError env e))) 0 None) (\<lambda>_. writeFrame tc End None 0 None)) s2 of
                     (s3, r) \<Rightarrow> (s3, joinErrs [Some e, errOf r]))
              | None \<Rightarrow>
                  (case res of
                     Inl e \<Rightarrow> (s2, Some e)
                   | Inr outcome \<Rightarrow>
                       (case onOutput (bindR (writeFrame tc Result (Some (MOutcome outcome)) 0 None) (\<lambda>_. writeFrame tc End None 0 None)) s2 of
                          (s3, r) \<Rightarrow> (s3, errOf r))))))"

section \<open>What publication shows\<close>

definition samePublished :: "'g server \<Rightarrow> 'g server \<Rightarrow> bool" where
  "samePublished s s' \<longleftrightarrow> sr_Published s' = sr_Published s"

lemma samePublished_rel [simp]: "reflp samePublished" "transp samePublished"
  by (auto simp: samePublished_def reflp_def transp_def)

lemma keeps_onInput [keeps_intros]: "keeps samePublished (onInput m)"
  by (auto simp: keeps_def onInput_def samePublished_def split: prod.splits)

lemma keeps_onOutput [keeps_intros]: "keeps samePublished (onOutput m)"
  by (auto simp: keeps_def onOutput_def samePublished_def split: prod.splits)

lemma keeps_liftRes [keeps_intros]: "reflp R \<Longrightarrow> keeps R (liftRes r)"
  by (auto simp: keeps_def liftRes_def reflp_def)

lemma keeps_split [keeps_intros]: "(\<And>a b. keeps R (f a b)) \<Longrightarrow> keeps R (case x of (a, b) \<Rightarrow> f a b)"
  by (simp split: prod.split)

lemma keeps_operations:
  "keeps samePublished (serveRecover env request)" "keeps samePublished (serveResults env tc request)"
  "keeps samePublished (serveDownload env tc request)"
  unfolding serveRecover_def serveResults_def serveDownload_def by (intro keeps_intros samePublished_rel)+

lemma bind_simps:
  "bindR (requireR b e) f s = (if b then f () s else (s, Inl e))"
  "bindR (checkR x) f s = (case x of None \<Rightarrow> f () s | Some e \<Rightarrow> (s, Inl e))"
  "bindR (liftRes r0) l s = (case r0 of Inl e \<Rightarrow> (s, Inl e) | Inr y \<Rightarrow> l y s)"
  "bindR (onInput m) g t = (case m (sr_In t) of (r, Inl e) \<Rightarrow> (t\<lparr>sr_In := r\<rparr>, Inl e) | (r, Inr y) \<Rightarrow> g y (t\<lparr>sr_In := r\<rparr>))"
  "bindR (onOutput o1) k t = (case o1 (sr_Out t) of (w, Inl e) \<Rightarrow> (t\<lparr>sr_Out := w\<rparr>, Inl e) | (w, Inr y) \<Rightarrow> k y (t\<lparr>sr_Out := w\<rparr>))"
  by (auto simp: bindR_def requireR_def checkR_def liftRes_def onInput_def onOutput_def split: option.splits sum.splits prod.splits)

lemma serveUpload_published:
  assumes "serveUpload env request h s = (s', res)" "sr_Published s' = Some stage" "sr_Published s = None"
  obtains destination target r2 r3 where "hd_Size h \<noteq> 0" "expandPath (sv_Home env) (req_Destination request) = Inr destination"
    "ar_Target (sv_Archive env) destination (as_Base (req_Source request)) (as_ContentsOnly (req_Source request)) = Inr target"
    "ar_Stage (sv_Archive env) target (sr_In s) = (r2, Inr stage)" "readEnd r2 = (r3, Inr ())" "sv_Ctx env 1 = None"
  using assms
  by (auto simp: serveUpload_def bindR_def requireR_def liftRes_def onInput_def checkR_def publish_def returnR_def
      split: prod.splits sum.splits if_splits option.splits)

lemma serveOperation_published:
  assumes "serveOperation env tc identity s = (s', res)" "sr_Published s' = Some stage" "sr_Published s = None"
  obtains r1 h request destination target r2 r3 where "Next (sr_In s) = (r1, Inr h)" "hd_Kind h = RunnerWire.Request"
    "decodeRequest (hd_Meta h) = Inr request" "req_BuildID request = id_BuildID identity" "req_BuildID request \<noteq> []" "req_Operation request = Upload"
    "expandPath (sv_Home env) (req_Destination request) = Inr destination"
    "ar_Target (sv_Archive env) destination (as_Base (req_Source request)) (as_ContentsOnly (req_Source request)) = Inr target"
    "ar_Stage (sv_Archive env) target r1 = (r2, Inr stage)" "readEnd r2 = (r3, Inr ())" "sv_Ctx env 0 = None" "sv_Ctx env 1 = None"
proof -
  obtain r1 x where n: "Next (sr_In s) = (r1, x)" by fastforce
  obtain h where h: "x = Inr h" using assms n by (cases x) (auto simp: serveOperation_def bind_simps)
  have k: "hd_Kind h = RunnerWire.Request" using assms n h by (auto simp: serveOperation_def bind_simps split: if_splits)
  obtain request where q: "decodeRequest (hd_Meta h) = Inr request"
    using assms n h k by (cases "decodeRequest (hd_Meta h)") (auto simp: serveOperation_def bind_simps)
  let ?s = "s\<lparr>sr_In := r1\<rparr>"
  have guards: "req_BuildID request \<noteq> []" "req_BuildID request = id_BuildID identity" "sv_Ctx env 0 = None"
    and run: "serveRequest env tc request h ?s = (s', res)"
    using assms n h k q by (auto simp: serveOperation_def bind_simps split: if_splits option.splits)
  have "req_Operation request \<noteq> Upload \<Longrightarrow> keeps samePublished (serveRequest env tc request h)"
    unfolding serveRequest_def by (intro keeps_intros samePublished_rel keeps_operations) simp
  then have up: "req_Operation request = Upload"
    using run assms(2,3) keepsD [of samePublished "serveRequest env tc request h" ?s s' res] by (auto simp: samePublished_def)
  from up run have u: "serveUpload env request h ?s = (s', res)" by (simp add: serveRequest_def)
  have "sr_Published ?s = None" using assms(3) by simp
  then obtain destination target r2 r3
    where d: "expandPath (sv_Home env) (req_Destination request) = Inr destination"
      "ar_Target (sv_Archive env) destination (as_Base (req_Source request)) (as_ContentsOnly (req_Source request)) = Inr target"
      "ar_Stage (sv_Archive env) target r1 = (r2, Inr stage)" "readEnd r2 = (r3, Inr ())" "sv_Ctx env 1 = None"
    by (rule serveUpload_published [OF u assms(2)]) simp
  show thesis by (rule that [OF _ k q guards(2,1) up d(1-4) guards(3) d(5)]) (use n h in simp)
qed

text \<open>C19: The server publishes an uploaded archive only at the end of a complete request: the first frame is
  a request of its own build whose operation is an upload, the stage was made from that frame's
  payload for the requested destination, the end frame followed and the stream ended, and the context
  was alive.\<close>

theorem serve_publishes_complete_upload:
  assumes "Serve env tc input output identity = (s, err)" "sr_Published s = Some stage"
  shows "sv_Ctx env 0 = None \<and> sv_Ctx env 1 = None \<and> (\<exists>r1 h request destination target r2 r3.
      Next (NewReader input MaxCompressedBytes) = (r1, Inr h) \<and> hd_Kind h = ''request'' \<and> decodeRequest (hd_Meta h) = Inr request
    \<and> req_BuildID request = id_BuildID identity \<and> req_BuildID request \<noteq> [] \<and> req_Operation request = ''upload''
    \<and> expandPath (sv_Home env) (req_Destination request) = Inr destination
    \<and> ar_Target (sv_Archive env) destination (as_Base (req_Source request)) (as_ContentsOnly (req_Source request)) = Inr target
    \<and> ar_Stage (sv_Archive env) target r1 = (r2, Inr stage) \<and> readEnd r2 = (r3, Inr ()))"
proof -
  let ?s0 = "\<lparr>sr_In = NewReader input MaxCompressedBytes, sr_Out = output, sr_Published = None\<rparr> :: 'a server"
  obtain s1 :: "'a server" and x where h: "onOutput (writeFrame tc Hello (Some (MIdentity identity)) 0 None) ?s0 = (s1, x)" by fastforce
  have s1: "sr_Published s1 = None" "sr_In s1 = NewReader input MaxCompressedBytes" using h by (auto simp: onOutput_def split: prod.splits)
  obtain s2 res where o: "serveOperation env tc identity s1 = (s2, res)" by fastforce
  have "sr_Published s = (if x = Inr () then sr_Published s2 else None)"
    using assms(1) h s1 o by (auto simp: Serve_def Let_def onOutput_def split: sum.splits prod.splits option.splits)
  then have "sr_Published s2 = Some stage" using assms(2) by (auto split: if_splits)
  from serveOperation_published [OF o this s1(1)] show ?thesis unfolding s1(2) kind_defs operation_defs by (metis)
qed

section \<open>The result frame fits\<close>

lemma length_joinComma: "length (joinComma xs) \<le> sum_list (map (\<lambda>x. length x + 1) xs)"
  by (induction xs rule: joinComma.induct) auto

lemma boundWarnings_bound:
  assumes "boundWarnings used omitted ws = (ret, n)" "0 \<le> used" "used \<le> warningBudget"
  shows "used + (\<Sum>w\<leftarrow>ret. encodedLength w + 1) \<le> warningBudget \<and> set ret \<subseteq> set ws \<and> n \<le> omitted + length ws"
  using assms
proof (induction used omitted ws arbitrary: ret n rule: boundWarnings.induct)
  case (2 used omitted w ws)
  show ?case
  proof (cases "encodedLength w + 1 > warningBudget - used")
    case True
    then show ?thesis using 2 by fastforce
  next
    case False
    then obtain ret' where r: "boundWarnings (used + (encodedLength w + 1)) omitted ws = (ret', n)" "ret = w # ret'"
      using 2(3) by (auto split: prod.splits)
    have "0 \<le> used + (encodedLength w + 1)" using 2(4) by (simp add: encodedLength_def)
    then show ?thesis using 2(2) [OF False r(1)] False r(2) by auto
  qed
qed simp

lemma length_dec_nat: "n < 10 ^ k \<Longrightarrow> length (dec_nat n) \<le> max 1 k"
proof (induction k arbitrary: n)
  case 0
  then show ?case by (simp add: dec_nat.simps)
next
  case (Suc k)
  show ?case
  proof (cases "n < 10")
    case True
    then show ?thesis by (simp add: dec_nat.simps)
  next
    case False
    have "n div 10 < 10 ^ k" using Suc.prems by (auto simp: less_mult_imp_div_less mult.commute)
    then have "length (dec_nat (n div 10)) \<le> max 1 k" by (rule Suc.IH)
    moreover have "k \<noteq> 0" using False Suc.prems by (cases k) auto
    ultimately show ?thesis using False by (subst dec_nat.simps) simp
  qed
qed

text \<open>The overflow summary, and the JSON of a list of warnings.\<close>

definition summary :: "nat \<Rightarrow> Warning" where
  "summary n = \<lparr>wn_Path = [], wn_Message = dec_nat n @ '' additional result warnings omitted to keep the response bounded''\<rparr>"

lemma dec_nat_plain: "plainText (dec_nat n)"
  using dec_nat_digits [of _ n] by (fastforce simp: plainText_def list_all_iff)

lemma plainText_append: "plainText (a @ b) \<longleftrightarrow> plainText a \<and> plainText b"
  by (simp add: plainText_def)

lemma summary_plain: "plainText (wn_Message (summary n))"
  by (simp add: summary_def plainText_append dec_nat_plain code_def)

lemma summary_length: "n < 2 ^ 63 \<Longrightarrow> encodedLength (summary n) \<le> 200"
proof -
  assume "n < 2 ^ 63"
  then have "length (dec_nat n) \<le> 19" using length_dec_nat [of n 19] by simp
  then show ?thesis using summary_plain [of n]
    by (simp add: encodedLength_def warningJson_def jsonString_plain code_def summary_def)
qed

lemma sum_encoded: "(\<Sum>w\<leftarrow>ws. encodedLength w + 1) = int (\<Sum>w\<leftarrow>ws. length (jsonPrint (warningJson w)) + 1)"
  by (induction ws) (simp_all add: encodedLength_def)

lemma bounded_warnings_size:
  assumes "length ws < 2 ^ 63"
  shows "(\<Sum>w\<leftarrow>boundedResultWarnings ws. encodedLength w + 1) \<le> 49400"
proof -
  obtain ret n where b: "boundWarnings 0 0 ws = (ret, n)" by fastforce
  from boundWarnings_bound [OF this] have r: "(\<Sum>w\<leftarrow>ret. encodedLength w + 1) \<le> 49152" "n \<le> length ws" by (auto simp: warningBudget_def)
  then show ?thesis using b summary_length [of n] assms
    by (auto simp: boundedResultWarnings_def summary_def split: if_splits)
qed

definition resultOutcome :: "Warning list \<Rightarrow> Outcome" where
  "resultOutcome ws = emptyOutcome\<lparr>oc_Warnings := Some (boundedResultWarnings ws)\<rparr>"

lemma result_header_fits:
  assumes "length ws < 2 ^ 63"
  shows "length (headerText (frameHeader Result (marshal tc (MOutcome (resultOutcome ws))) 0)) \<le> MaxHeaderBytes"
proof -
  have "(\<Sum>w\<leftarrow>boundedResultWarnings ws. length (jsonPrint (warningJson w)) + 1) \<le> 49400"
    using bounded_warnings_size [OF assms] unfolding sum_encoded by linarith
  then have "length (joinComma (map (jsonPrint \<circ> warningJson) (boundedResultWarnings ws))) \<le> 49400"
    using length_joinComma [of "map (jsonPrint \<circ> warningJson) (boundedResultWarnings ws)"] by (simp add: comp_def)
  then show ?thesis
    by (simp add: headerText_def headerJson_def jsonString_plain code_def kind_defs resultOutcome_def emptyOutcome_def sliceJson_def
        Itoa_def dec_nat.simps MaxHeaderBytes_def)
qed

definition textual :: "Warning list \<Rightarrow> bool" where
  "textual ws \<longleftrightarrow> list_all (\<lambda>w. utf8_valid (wn_Path w) \<and> utf8_valid (wn_Message w)) ws"

lemma resultOutcome_text: "validateMetadataText (MOutcome (resultOutcome ws)) = None \<longleftrightarrow> textual (boundedResultWarnings ws)"
  by (auto simp: validateMetadataText_def resultOutcome_def emptyOutcome_def textual_def list_all_iff)

lemma textual_bounded: "textual ws \<Longrightarrow> textual (boundedResultWarnings ws)"
proof -
  assume ws: "textual ws"
  obtain ret n where b: "boundWarnings 0 0 ws = (ret, n)" by fastforce
  have "set ret \<subseteq> set ws" using boundWarnings_bound [OF b] by (simp add: warningBudget_def)
  moreover have "utf8_valid (wn_Message (summary n))" using summary_plain by (intro utf8_valid_ascii plainText_ascii)
  ultimately show ?thesis
    using ws b by (auto simp: boundedResultWarnings_def summary_def textual_def list_all_iff)
qed

text \<open>C25: The warnings never make the result too large to send. Whatever warnings a collection has, the
  result frame with their bounded list is within the limit of 64 KiB on a header: on a working output
  it is written in full exactly when every path and message in the bounded list is UTF-8 text, as it is
  when all the warnings are; otherwise the frame is refused before anything is written.\<close>

theorem bounded_warnings_are_sent:
  fixes tc w ws
  defines "send \<equiv> writeFrame tc ''result'' (Some (MOutcome (emptyOutcome\<lparr>oc_Warnings := Some (boundedResultWarnings ws)\<rparr>))) 0 None w"
  assumes "length ws < 2 ^ 63" "sk_Room w = None"
  shows "(if textual (boundedResultWarnings ws)
      then \<exists>text. send = (w\<lparr>sk_Out := sk_Out w @ ''CBXR'' @ bigEndian (length text) @ text\<rparr>, Inr ()) \<and> length text \<le> 65536
      else \<exists>e. send = (w, Inl e))
    \<and> (textual ws \<longrightarrow> textual (boundedResultWarnings ws))"
proof (cases "textual (boundedResultWarnings ws)")
  case False
  then obtain e where "validateMetadataText (MOutcome (resultOutcome ws)) = Some e" using resultOutcome_text by blast
  then show ?thesis
    using False textual_bounded by (auto simp: send_def writeFrame_def bindR_def checkR_def simp flip: resultOutcome_def simp del: marshal.simps)
next
  case True
  let ?m = "MOutcome (resultOutcome ws)"
  have utf8: "validateMetadataText ?m = None" using True resultOutcome_text by blast
  obtain v where v: "marshal tc ?m = Some v" by simp
  let ?h = "frameHeader Result (Some v) 0"
  have wf: "wfJson v"
  proof -
    have "marshal tc0 ?m = marshal tc ?m" for tc0 by simp
    then show ?thesis
      using wfJson_marshal [of "\<lparr>tc_Marshal = (\<lambda>_. None), tc_Unmarshal = (\<lambda>_. None)\<rparr>" ?m v] v utf8
      by (simp add: goodCodec_def del: marshal.simps)
  qed
  have fits: "length (headerText ?h) \<le> MaxHeaderBytes" using result_header_fits [OF assms(2), of tc] unfolding v .
  have send: "sendable ?h"
    using marshal_shape [OF v] wf fits
    by (intro sendable_plain) (auto simp: validateHeader_None kind_defs plainMeta_def MaxInt64_def)
  have "writeFrame tc Result (Some ?m) 0 None w = (w\<lparr>sk_Out := sk_Out w @ frameBytes ?h []\<rparr>, Inr ())"
    using v utf8 WriteFrame_room [of "\<lparr>hd_Version = 0, hd_Kind = Result, hd_Size = 0, hd_Meta = Some v\<rparr>" w "[]" None]
      send assms(3) by (simp add: writeFrame_def bindR_def checkR_def stamped_frameHeader del: marshal.simps)
  then have "\<exists>text. send_of = (w\<lparr>sk_Out := sk_Out w @ ''CBXR'' @ bigEndian (length text) @ text\<rparr>, Inr ()) \<and> length text \<le> 65536"
    if "send_of = writeFrame tc Result (Some ?m) 0 None w" for send_of
    using fits that by (intro exI [of _ "headerText ?h"]) (simp add: frameBytes_def magic_def MaxHeaderBytes_def del: marshal.simps)
  then show ?thesis using True by (simp add: send_def resultOutcome_def Result_def del: marshal.simps)
qed

text \<open>A codec for witnesses: it knows the zero time and five nanoseconds after the epoch.\<close>

definition demoCodec :: timeCodec where
  "demoCodec = \<lparr>tc_Marshal = (\<lambda>t. if t = 5 then Some ''1970-01-01T00:00:00.000000005Z''
                                else if t = zeroTime then Some ''0001-01-01T00:00:00Z'' else None),
     tc_Unmarshal = (\<lambda>s. if s = ''1970-01-01T00:00:00.000000005Z'' then Some 5
                          else if s = ''0001-01-01T00:00:00Z'' then Some zeroTime else None)\<rparr>"

lemma demoCodec_good: "goodCodec demoCodec"
  by (simp add: goodCodec_def demoCodec_def utf8_valid_ascii is_ascii_def code_def)

theorem bounded_warnings_are_sent_witness:
  "\<exists>text. writeFrame demoCodec ''result'' (Some (MOutcome (emptyOutcome\<lparr>oc_Warnings := Some (boundedResultWarnings [\<lparr>wn_Path = ''a.xml'', wn_Message = ''b''\<rparr>])\<rparr>)))
      0 None emptySink = (emptySink\<lparr>sk_Out := ''CBXR'' @ bigEndian (length text) @ text\<rparr>, Inr ()) \<and> length text \<le> 65536"
proof -
  have "textual [\<lparr>wn_Path = ''a.xml'', wn_Message = ''b''\<rparr>]" by (simp add: textual_def utf8_valid_ascii is_ascii_def code_def)
  then show ?thesis
    using bounded_warnings_are_sent [of "[\<lparr>wn_Path = ''a.xml'', wn_Message = ''b''\<rparr>]" emptySink demoCodec]
    by (simp add: emptySink_def split: if_splits)
qed

section \<open>A collection from end to end\<close>

lemma writeFiles_ok:
  assumes "writeFiles tc ctx i fs w = (w', Inr u)" "goodCodec tc"
  obtains hs where "fileFrames tc fs hs" "sk_Out w' = sk_Out w @ fileBytes fs hs"
  using assms(1)
proof (induction fs arbitrary: i w thesis)
  case Nil
  then show thesis using Nil(1) [of "[]"] by (simp add: fileFrames_def fileBytes_def)
next
  case (Cons f fs)
  from Cons.prems(2) obtain w1 where w1: "writeFrame tc RunnerWire.File (Some (MFile (infoOf f))) (length (fl_Data f)) (Some (fl_Data f)) w = (w1, Inr ())"
    and rest: "writeFiles tc ctx (i + 1) fs w1 = (w', Inr u)"
    by (auto simp: bindR_Inr infoOf_def)
  from w1 obtain h b where h: "goodFrame tc RunnerWire.File (Some (MFile (infoOf f))) (length (fl_Data f)) h" "sk_Out w1 = sk_Out w @ frameBytes h b"
    "b = (case Some (fl_Data f) of None \<Rightarrow> [] | Some x \<Rightarrow> take (length (fl_Data f)) x)"
    by (rule writeFrame_ok [OF _ assms(2)]) auto
  obtain hs where hs: "fileFrames tc fs hs" "sk_Out w' = sk_Out w1 @ fileBytes fs hs" using Cons.IH rest by blast
  show thesis by (rule Cons.prems(1) [of "h # hs"]) (use h hs in \<open>simp_all add: fileFrames_def fileBytes_def\<close>)
qed

lemma twoFrames_ok:
  assumes "bindR (writeFrame tc kind (Some m) 0 None) (\<lambda>_. writeFrame tc End None 0 None) w = (w', Inr u)" "goodCodec tc"
    and "\<And>i. m = MIdentity i \<Longrightarrow> 0 \<le> id_Protocol i"
  obtains h he where "goodFrame tc kind (Some m) 0 h" "goodFrame tc End None 0 he" "sk_Out w' = sk_Out w @ frameBytes h [] @ frameBytes he []"
proof -
  from assms(1) obtain w1 where w: "writeFrame tc kind (Some m) 0 None w = (w1, Inr ())" "writeFrame tc End None 0 None w1 = (w', Inr u)"
    by (auto simp: bindR_Inr)
  from w(1) obtain h where "goodFrame tc kind (Some m) 0 h" "sk_Out w1 = sk_Out w @ frameBytes h []"
    by (rule writeFrame_ok [OF _ assms(2)]) (use assms(3) in auto)
  moreover from w(2) obtain he where "goodFrame tc End None 0 he" "sk_Out w' = sk_Out w1 @ frameBytes he []"
    by (rule writeFrame_ok [OF _ assms(2)]) auto
  ultimately show thesis by (intro that [of h he]) auto
qed

lemma serveOperation_collect:
  assumes "goodFrame tc RunnerWire.Request (Some (MRequest request)) 0 hq" "goodFrame tc End None 0 he"
    and "idle (sr_In s)" "st_Data (rd_Stream (sr_In s)) = frameBytes hq [] @ frameBytes he []" "st_Last (rd_Stream (sr_In s)) = EOF"
    and "req_Operation request = Collect"
  obtains r where "serveOperation env tc identity s =
    bindR (requireR (\<not> (req_BuildID request = [] \<or> req_BuildID request \<noteq> id_BuildID identity)) (Fail ''runner build identity mismatch'')) (\<lambda>_.
    bindR (checkR (sv_Ctx env 0)) (\<lambda>_ _. serveResults env tc request (s\<lparr>sr_In := r\<rparr>))) (s\<lparr>sr_In := fst (Next (sr_In s))\<rparr>)"
proof -
  obtain s1 where n: "Next (sr_In s) = ((sr_In s)\<lparr>rd_Stream := s1, rd_Current := Some 0\<rparr>, Inr hq)" "st_Data s1 = frameBytes he []"
    "st_Last s1 = EOF" "hd_Kind hq = RunnerWire.Request" "hd_Size hq = 0" "hd_Meta hq = marshal tc (MRequest request)"
    using Next_goodFrame [OF assms(3) _ assms(1), of "[]" "frameBytes he []"] assms(4,5) by (auto simp del: marshal.simps)
  let ?r = "(sr_In s)\<lparr>rd_Stream := s1, rd_Current := Some 0\<rparr>"
  obtain r2 where e: "readEnd ?r = (r2, Inr ())"
    by (rule readEnd_written [OF _ _ assms(2), of ?r]) (use n assms(3) in \<open>auto simp: idle_def unread_def\<close>)
  have d: "decodeRequest (hd_Meta hq) = Inr request" using n(6) decodeRequest_marshal by simp
  have "Collect \<noteq> Upload" "Collect \<noteq> RecoverArchive" by (simp_all add: operation_defs)
  then have "serveRequest env tc request hq (s\<lparr>sr_In := ?r\<rparr>) = serveResults env tc request (s\<lparr>sr_In := r2\<rparr>)"
    using e n(5) assms(6) by (simp add: serveRequest_def bind_simps)
  then show thesis using d n by (intro that [of r2]) (simp add: serveOperation_def bind_simps split: option.splits)
qed

lemma serveResults_ok:
  assumes "serveResults env tc request s = (s', Inr outcome)" "goodCodec tc"
  obtains workdir dk tree options t c hs where "expandPath (sv_Home env) (req_Workdir request) = Inr workdir" "sv_OpenRoot env workdir = Inr (dk, tree)"
    "resultOptions env workdir request = Inr options" "CollectResults dk tree options 0 = (t, Inr c)" "fileFrames tc (co_Files c) hs"
    "sk_Out (sr_Out s') = sk_Out (sr_Out s) @ fileBytes (co_Files c) hs" "outcome = resultOutcome (co_Warnings c)"
    "validateResultPaths (req_Paths request) = None"
proof -
  from assms(1) obtain workdir dk tree options c w' where
    "validateResultPaths (req_Paths request) = None" "expandPath (sv_Home env) (req_Workdir request) = Inr workdir"
    "sv_OpenRoot env workdir = Inr (dk, tree)" "resultOptions env workdir request = Inr options" "snd (CollectResults dk tree options 0) = Inr c"
    "writeFiles tc (sv_Ctx env) 2 (co_Files c) (sr_Out s) = (w', Inr ())" "s' = s\<lparr>sr_Out := w'\<rparr>" "outcome = resultOutcome (co_Warnings c)"
    by (auto simp: serveResults_def bind_simps resultOutcome_def returnR_def split: option.splits sum.splits prod.splits)
  moreover obtain hs where "fileFrames tc (co_Files c) hs" "sk_Out w' = sk_Out (sr_Out s) @ fileBytes (co_Files c) hs"
    using calculation(6) assms(2) by (rule writeFiles_ok)
  ultimately show thesis
    by (intro that [of workdir dk tree options "fst (CollectResults dk tree options 0)" c hs]) (auto simp: prod_eq_iff)
qed

lemma resultOptions_limits:
  assumes "resultOptions env workdir request = Inr options"
  shows "ro_ExplicitMaxBytes options = int ExplicitMaxFileBytes" "ro_ExplicitTotalBytes options = int ExplicitMaxTotalBytes"
    "ro_Paths options = (case req_Paths request of Some ps \<Rightarrow> ps | None \<Rightarrow> [])"
  using assms by (auto simp: resultOptions_def baseOptions_def split: if_splits sum.splits)

lemma fileBytes_length: "fileFrames tc fs hs \<Longrightarrow> length fs \<le> length (fileBytes fs hs)"
proof (induction fs arbitrary: hs)
  case (Cons f fs)
  then obtain h hs' where hs: "hs = h # hs'" "fileFrames tc fs hs'" by (auto simp: fileFrames_def list_all2_Cons1)
  have "1 \<le> length (frameBytes h (fl_Data f))" by (simp add: frameBytes_def magic_def)
  moreover have "length (fileBytes (f # fs) hs) = length (frameBytes h (fl_Data f)) + length (fileBytes fs hs')"
    using hs(1) by (simp add: fileBytes_def)
  ultimately show ?case using Cons.IH [OF hs(2)] by simp
qed simp

lemma Serve_ok:
  assumes "Serve env tc input output identity = (s, None)" "goodCodec tc" "id_Protocol identity = 1"
  obtains s1 s2 outcome hh hr he where "goodFrame tc Hello (Some (MIdentity identity)) 0 hh" "sk_Out (sr_Out s1) = sk_Out output @ frameBytes hh []"
    "sr_In s1 = NewReader input MaxCompressedBytes" "serveOperation env tc identity s1 = (s2, Inr outcome)"
    "goodFrame tc Result (Some (MOutcome outcome)) 0 hr" "goodFrame tc End None 0 he"
    "sk_Out (sr_Out s) = sk_Out (sr_Out s2) @ frameBytes hr [] @ frameBytes he []"
proof -
  let ?s0 = "\<lparr>sr_In = NewReader input MaxCompressedBytes, sr_Out = output, sr_Published = None\<rparr> :: 'a server"
  obtain w1 x where w1: "writeFrame tc Hello (Some (MIdentity identity)) 0 None output = (w1, x)" by fastforce
  obtain u where x: "x = Inr u" using assms(1) w1 by (cases x) (auto simp: Serve_def onOutput_def)
  let ?s1 = "?s0\<lparr>sr_Out := w1\<rparr>"
  obtain s2 res where o: "serveOperation env tc identity ?s1 = (s2, res)" by fastforce
  have "joinErrs [errOf res, sv_Cause env] = None"
    using assms(1) w1 x o by (auto simp: Serve_def onOutput_def split: option.splits prod.splits)
  then have "errOf res = None" and c: "sv_Cause env = None" unfolding joinErrs_None by simp_all
  then obtain outcome where res: "res = Inr outcome" by (cases res) (auto simp: errOf_def)
  obtain w3 y where w3: "bindR (writeFrame tc Result (Some (MOutcome outcome)) 0 None) (\<lambda>_. writeFrame tc End None 0 None) (sr_Out s2) = (w3, y)" by fastforce
  have y: "y = Inr ()" "s = s2\<lparr>sr_Out := w3\<rparr>"
    using assms(1) w1 x o res c w3 by (cases y; auto simp: Serve_def onOutput_def errOf_def)+
  from w1 obtain hh where hh: "goodFrame tc Hello (Some (MIdentity identity)) 0 hh" "sk_Out w1 = sk_Out output @ frameBytes hh []"
    unfolding x by (rule writeFrame_ok [OF _ assms(2)]) (use assms(3) in auto)
  from w3 obtain hr he where "goodFrame tc Result (Some (MOutcome outcome)) 0 hr" "goodFrame tc End None 0 he"
    "sk_Out w3 = sk_Out (sr_Out s2) @ frameBytes hr [] @ frameBytes he []"
    unfolding y(1) by (rule twoFrames_ok [OF _ assms(2)]) auto
  then show thesis using hh o res y(2) by (intro that [of hh ?s1 s2 outcome hr he]) simp_all
qed

lemma ReadResponse_frames:
  assumes "goodCodec tc" "id_Protocol identity = 1" "id_BuildID identity \<noteq> []" "goodFrame tc Hello (Some (MIdentity identity)) 0 hh"
    and "fileFrames tc fs hs" "goodFrame tc Result (Some (MOutcome outcome)) 0 hr" "goodFrame tc End None 0 he"
    and "oc_RetainedPath outcome = []" "\<not> oc_Published outcome" "\<forall>i. ctx i = None" "withinLimits fs"
    and "st_Data response = frameBytes hh [] @ fileBytes fs hs @ frameBytes hr [] @ frameBytes he []" "st_Last response = EOF"
  obtains r' where "ReadResponse tc ctx response identity Collect (Some (collectFile space)) [] = Some ((r', fs), Inr outcome)"
proof -
  let ?r0 = "NewReader response (maxBody Collect)"
  obtain s' where n: "Next ?r0 = (?r0\<lparr>rd_Stream := s', rd_Current := Some 0\<rparr>, Inr hh)"
    "st_Data s' = fileBytes fs hs @ frameBytes hr [] @ frameBytes he []" "st_Last s' = EOF"
    "hd_Kind hh = Hello" "hd_Meta hh = marshal tc (MIdentity identity)"
    using Next_goodFrame [of ?r0 hh "[]" "fileBytes fs hs @ frameBytes hr [] @ frameBytes he []", OF _ _ assms(4)] assms(12,13)
    by (auto simp: NewReader_def idle_def unread_def simp del: marshal.simps)
  let ?r1 = "?r0\<lparr>rd_Stream := s', rd_Current := Some 0\<rparr>"
  let ?none = "[] :: File list"
  have "\<exists>r'. responseLoop (Suc (length (st_Data response))) tc Collect ctx (Some (collectFile space)) (length ?none) (dataBytes ?none)
      (fl_Path ` set ?none) (?r1, ?none) = Some ((r', ?none @ fs), Inr outcome)"
  proof (rule responseLoop_frames [OF assms(1,5,6,7,8,9,10)])
    show "length fs < Suc (length (st_Data response))" using fileBytes_length [OF assms(5)] assms(12) by simp
  qed (use assms(11) n in \<open>simp_all add: idle_def unread_def NewReader_def maxBody_def operation_defs\<close>)
  then obtain r' where "responseLoop (Suc (length (st_Data response))) tc Collect ctx (Some (collectFile space)) 0 0 {} (?r1, []) = Some ((r', fs), Inr outcome)"
    by auto
  then show thesis
    using n(1,4,5) decodeIdentity_marshal [OF assms(2), of tc] assms(2,3)
    by (intro that [of r']) (simp add: ReadResponse_def Version_def del: responseLoop.simps marshal.simps)
qed

lemma fileFrame_refused:
  assumes "goodCodec tc" "goodFrame tc RunnerWire.File (Some (MFile (infoOf f))) (length (fl_Data f)) h"
    and "fl_Path f = [] \<or> fl_Path f \<in> seen"
  shows "fileFrame tc Collect count n seen h = Inl (Fail ''invalid runner result file'')"
proof -
  obtain v where v: "marshal tc (MFile (infoOf f)) = Some v" "hd_Meta h = Some v"
    using assms(2) by (auto simp: goodFrame_def simp del: marshal.simps)
  have "decodeFileInfo tc (hd_Meta h) = Inr (infoOf f)" using decodeFileInfo_marshal [OF assms(1) v(1)] v(2) by simp
  then show ?thesis using assms(3) by (auto simp: fileFrame_def operation_defs)
qed

lemma responseLoop_refused:
  assumes "goodCodec tc" "fileFrames tc fs hs" "\<forall>i. ctx i = None" "acceptablePaths gs" "\<not> acceptablePaths (gs @ fs)"
    and "fittingSizes (gs @ fs)" "length fs < fuel" "idle r" "st_Data (rd_Stream r) = fileBytes fs hs @ rest" "st_Last (rd_Stream r) = EOF"
    and "rd_MaxBody r = ExplicitMaxFileBytes"
  shows "\<exists>x. responseLoop fuel tc Collect ctx (Some (collectFile space)) (length gs) (dataBytes gs) (fl_Path ` set gs) (r, gs)
    = Some (x, Inl (Wire (Fail ''invalid runner result file'')))"
  using assms
proof (induction fs arbitrary: hs gs r fuel)
  case (Cons f fs)
  then obtain k where fuel: "fuel = Suc k" "length fs < k" by (cases fuel) auto
  obtain h hs' where hs: "hs = h # hs'" "goodFrame tc RunnerWire.File (Some (MFile (infoOf f))) (length (fl_Data f)) h" "fileFrames tc fs hs'"
    using Cons.prems(2) by (auto simp: fileFrames_def list_all2_Cons1)
  let ?rest = "fileBytes fs hs' @ rest"
  have len: "length (fl_Data f) \<le> rd_MaxBody r" using Cons.prems(6,11) by (simp add: fittingSizes_def ExplicitMaxFileBytes_def)
  have d: "st_Data (rd_Stream r) = frameBytes h (fl_Data f) @ ?rest" using Cons.prems(9) hs(1) by (simp add: fileBytes_def)
  obtain s' where s: "Next r = (r\<lparr>rd_Stream := s', rd_Current := Some (length (fl_Data f))\<rparr>, Inr h)" "st_Data s' = fl_Data f @ ?rest" "st_Last s' = EOF"
    "hd_Kind h = RunnerWire.File"
    using Next_goodFrame [OF Cons.prems(8) d hs(2) len] Cons.prems(10) by metis
  let ?r = "r\<lparr>rd_Stream := s', rd_Current := Some (length (fl_Data f))\<rparr>"
  have ctx: "ctx (length gs) = None" using Cons.prems(3) by simp
  show ?case
  proof (cases "acceptablePaths (gs @ [f])")
    case False
    then have "fl_Path f = [] \<or> fl_Path f \<in> fl_Path ` set gs" using Cons.prems(4) by (auto simp: acceptablePaths_def)
    from fileFrame_refused [OF Cons.prems(1) hs(2) this] show ?thesis using fuel(1) s ctx by simp
  next
    case True
    then have w: "withinLimits (gs @ [f])" using Cons.prems(6) by (auto simp: withinLimits_parts fittingSizes_def dataBytes_def)
    obtain r2 where r2: "collectFile space (infoOf f) (?r, gs) = ((r2, gs @ [f]), Inr ())" "idle r2" "st_Data (rd_Stream r2) = ?rest"
      "st_Last (rd_Stream r2) = EOF" "rd_MaxBody r2 = ExplicitMaxFileBytes"
      by (rule collectFile_written [of ?r f ?rest]) (use s Cons.prems(8,11) in \<open>simp_all add: idle_def\<close>)
    have "\<exists>x. responseLoop k tc Collect ctx (Some (collectFile space)) (length (gs @ [f])) (dataBytes (gs @ [f])) (fl_Path ` set (gs @ [f])) (r2, gs @ [f])
        = Some (x, Inl (Wire (Fail ''invalid runner result file'')))"
      by (rule Cons.IH [OF Cons.prems(1) hs(3) Cons.prems(3) True _ _ fuel(2) r2(2-5)]) (use Cons.prems(5,6) in simp_all)
    then show ?thesis using fuel(1) s fileFrame_written [OF Cons.prems(1) hs(2) w] r2(1) ctx by simp
  qed
qed simp

lemma ReadResponse_refused:
  assumes "goodCodec tc" "id_Protocol identity = 1" "id_BuildID identity \<noteq> []" "goodFrame tc Hello (Some (MIdentity identity)) 0 hh"
    and "fileFrames tc fs hs" "\<forall>i. ctx i = None" "fittingSizes fs" "\<not> acceptablePaths fs"
    and "st_Data response = frameBytes hh [] @ fileBytes fs hs @ rest" "st_Last response = EOF"
  shows "\<exists>x. ReadResponse tc ctx response identity Collect (Some (collectFile space)) [] = Some (x, Inl (Wire (Fail ''invalid runner result file'')))"
proof -
  let ?r0 = "NewReader response (maxBody Collect)"
  obtain s' where n: "Next ?r0 = (?r0\<lparr>rd_Stream := s', rd_Current := Some 0\<rparr>, Inr hh)"
    "st_Data s' = fileBytes fs hs @ rest" "st_Last s' = EOF" "hd_Kind hh = Hello" "hd_Meta hh = marshal tc (MIdentity identity)"
    using Next_goodFrame [of ?r0 hh "[]" "fileBytes fs hs @ rest", OF _ _ assms(4)] assms(9,10)
    by (auto simp: NewReader_def idle_def unread_def simp del: marshal.simps)
  let ?r1 = "?r0\<lparr>rd_Stream := s', rd_Current := Some 0\<rparr>"
  let ?none = "[] :: File list"
  have "\<exists>x. responseLoop (Suc (length (st_Data response))) tc Collect ctx (Some (collectFile space)) (length ?none) (dataBytes ?none)
      (fl_Path ` set ?none) (?r1, ?none) = Some (x, Inl (Wire (Fail ''invalid runner result file'')))"
  proof (rule responseLoop_refused [OF assms(1,5,6)])
    show "length fs < Suc (length (st_Data response))" using fileBytes_length [OF assms(5)] assms(9) by simp
  qed (use assms(7,8) n in \<open>simp_all add: idle_def unread_def NewReader_def maxBody_def operation_defs acceptablePaths_def\<close>)
  then show ?thesis
    using n(1,4,5) decodeIdentity_marshal [OF assms(2), of tc] assms(2,3)
    by (simp add: ReadResponse_def Version_def del: responseLoop.simps marshal.simps)
qed

text \<open>C16: A collection from end to end. When the server reports no error for a client's collect request,
  then \<open>CollectResults\<close> found files; when their paths are distinct and not empty, the client reads from
  the server's output exactly these files, in order and byte for byte, and the bounded warnings; when
  some path is empty or occurs twice (a name that was replaced between two readings), the client
  refuses the response as an invalid result file. This holds wherever the two transports cut their
  streams.\<close>

theorem collect_round_trip:
  assumes codec: "goodCodec tc" and identity: "id_Protocol identity = 1" "id_BuildID identity \<noteq> []"
    and request: "WriteRequest tc request 0 None emptySink = (wq, Inr ())" "req_Operation request = ''collect''"
    and input: "st_Data input = sk_Out wq" "st_Last input = EOF"
    and serve: "Serve env tc input emptySink identity = (s, None)"
    and response: "st_Data response = sk_Out (sr_Out s)" "st_Last response = EOF"
    and alive: "\<forall>i. ctx i = None"
  shows "\<exists>workdir dk tree options t c x.
      expandPath (sv_Home env) (req_Workdir request) = Inr workdir \<and> sv_OpenRoot env workdir = Inr (dk, tree)
    \<and> resultOptions env workdir request = Inr options \<and> CollectResults dk tree options 0 = (t, Inr c)
    \<and> ReadResponse tc ctx response identity ''collect'' (Some (collectFile space)) [] = Some x
    \<and> (if acceptablePaths (co_Files c)
        then snd (fst x) = co_Files c \<and> snd x = Inr (emptyOutcome\<lparr>oc_Warnings := Some (boundedResultWarnings (co_Warnings c))\<rparr>)
        else snd x = Inl (Wire (Fail ''invalid runner result file'')))"
proof -
  from request(1) have "bindR (writeFrame tc RunnerWire.Request (Some (MRequest request)) 0 None) (\<lambda>_. writeFrame tc End None 0 None) emptySink = (wq, Inr ())"
    by (auto simp: WriteRequest_def bindR_Inr)
  then obtain hq heq where q: "goodFrame tc RunnerWire.Request (Some (MRequest request)) 0 hq" "goodFrame tc End None 0 heq"
    "sk_Out wq = frameBytes hq [] @ frameBytes heq []"
    by (rule twoFrames_ok [OF _ codec]) (auto simp: emptySink_def)
  obtain s1 s2 outcome hh hr he where v: "goodFrame tc Hello (Some (MIdentity identity)) 0 hh" "sk_Out (sr_Out s1) = frameBytes hh []"
    "sr_In s1 = NewReader input MaxCompressedBytes" "serveOperation env tc identity s1 = (s2, Inr outcome)"
    "goodFrame tc Result (Some (MOutcome outcome)) 0 hr" "goodFrame tc End None 0 he"
    "sk_Out (sr_Out s) = sk_Out (sr_Out s2) @ frameBytes hr [] @ frameBytes he []"
    by (rule Serve_ok [OF serve codec identity(1)]) (auto simp: emptySink_def)
  obtain r where r: "serveOperation env tc identity s1 =
    bindR (requireR (\<not> (req_BuildID request = [] \<or> req_BuildID request \<noteq> id_BuildID identity)) (Fail ''runner build identity mismatch'')) (\<lambda>_.
    bindR (checkR (sv_Ctx env 0)) (\<lambda>_ _. serveResults env tc request (s1\<lparr>sr_In := r\<rparr>))) (s1\<lparr>sr_In := fst (Next (sr_In s1))\<rparr>)"
    by (rule serveOperation_collect [OF q(1,2), of s1 env identity])
      (use v(3) input q(3) request(2) in \<open>simp_all add: NewReader_def idle_def unread_def Collect_def\<close>)
  then have "serveResults env tc request (s1\<lparr>sr_In := r\<rparr>) = (s2, Inr outcome)"
    using v(4) by (simp add: bind_simps split: if_splits option.splits)
  then obtain workdir dk tree options t c hs where o: "expandPath (sv_Home env) (req_Workdir request) = Inr workdir"
    "sv_OpenRoot env workdir = Inr (dk, tree)" "resultOptions env workdir request = Inr options" "CollectResults dk tree options 0 = (t, Inr c)"
    "fileFrames tc (co_Files c) hs" "sk_Out (sr_Out s2) = sk_Out (sr_Out (s1\<lparr>sr_In := r\<rparr>)) @ fileBytes (co_Files c) hs"
    "outcome = resultOutcome (co_Warnings c)" "validateResultPaths (req_Paths request) = None"
    by (rule serveResults_ok [OF _ codec])
  have fits: "fittingSizes (co_Files c)"
    using o(8) resultOptions_limits [OF o(3)]
    by (intro CollectResults_fits [OF o(4)]) (auto simp: validateResultPaths_def split: if_splits)
  have data: "st_Data response = frameBytes hh [] @ fileBytes (co_Files c) hs @ frameBytes hr [] @ frameBytes he []"
    using response(1) v(2,7) o(6) by simp
  have "\<exists>x. ReadResponse tc ctx response identity Collect (Some (collectFile space)) [] = Some x
      \<and> (if acceptablePaths (co_Files c) then snd (fst x) = co_Files c \<and> snd x = Inr outcome
         else snd x = Inl (Wire (Fail ''invalid runner result file'')))"
  proof (cases "acceptablePaths (co_Files c)")
    case True
    then have within: "withinLimits (co_Files c)" using fits by (simp add: withinLimits_parts)
    have "oc_RetainedPath outcome = []" "\<not> oc_Published outcome" by (simp_all add: o(7) resultOutcome_def emptyOutcome_def)
    then obtain r' where "ReadResponse tc ctx response identity Collect (Some (collectFile space)) [] = Some ((r', co_Files c), Inr outcome)"
      by (rule ReadResponse_frames [OF codec identity v(1) o(5) v(5,6) _ _ alive within data response(2)])
    then show ?thesis using True by simp
  next
    case False
    then show ?thesis
      using ReadResponse_refused [OF codec identity v(1) o(5) alive fits False data response(2), of space] by (auto simp del: marshal.simps)
  qed
  then show ?thesis using o(1-4,7) unfolding resultOutcome_def Collect_def by blast
qed

section \<open>Witnesses\<close>

lemma writeFrame_room:
  assumes "goodCodec tc" "sk_Room w = None" "validateMetadataText m = None" "marshal tc m = Some v" "\<And>i. m = MIdentity i \<Longrightarrow> 0 \<le> id_Protocol i"
    and "length (headerText (frameHeader kind (Some v) (length b))) \<le> MaxHeaderBytes" "kind \<in> {Hello, RunnerWire.Request, RunnerWire.File, Result, Error}"
    and "length b \<le> MaxInt64" "b = [] \<or> kind = RunnerWire.Request \<or> kind = RunnerWire.File"
  shows "writeFrame tc kind (Some m) (length b) (Some b) w = (w\<lparr>sk_Out := sk_Out w @ frameBytes (frameHeader kind (Some v) (length b)) b\<rparr>, Inr ())"
    "b = [] \<Longrightarrow> writeFrame tc kind (Some m) 0 None w = (w\<lparr>sk_Out := sk_Out w @ frameBytes (frameHeader kind (Some v) 0) []\<rparr>, Inr ())"
    "goodFrame tc kind (Some m) (length b) (frameHeader kind (Some v) (length b))"
proof -
  let ?h = "frameHeader kind (Some v) (length b)"
  have wf: "wfJson v" using assms(1,3,4,5) by (rule wfJson_marshal)
  then have send: "sendable ?h"
    using marshal_shape [OF assms(4)] assms(6-9)
    by (intro sendable_plain) (auto simp: validateHeader_None plainMeta_def)
  have s: "sendable (stamped \<lparr>hd_Version = 0, hd_Kind = kind, hd_Size = length b, hd_Meta = Some v\<rparr>)" using send by (simp add: stamped_frameHeader)
  show "writeFrame tc kind (Some m) (length b) (Some b) w = (w\<lparr>sk_Out := sk_Out w @ frameBytes ?h b\<rparr>, Inr ())"
    using WriteFrame_room [OF s assms(2), of b "Some b"] assms(3,4) by (simp add: writeFrame_def bind_simps stamped_frameHeader del: marshal.simps)
  show "writeFrame tc kind (Some m) 0 None w = (w\<lparr>sk_Out := sk_Out w @ frameBytes (frameHeader kind (Some v) 0) []\<rparr>, Inr ())" if "b = []"
    using WriteFrame_room [OF s assms(2), of "[]" None] assms(3,4) that by (simp add: writeFrame_def bind_simps stamped_frameHeader del: marshal.simps)
  show "goodFrame tc kind (Some m) (length b) ?h" using send wf assms(4) by (simp add: goodFrame_def plainMeta_def del: marshal.simps)
qed

lemma endFrame_room:
  assumes "sk_Room w = None"
  shows "writeFrame tc End None 0 None w = (w\<lparr>sk_Out := sk_Out w @ frameBytes (frameHeader End None 0) []\<rparr>, Inr ())"
proof -
  have "length (headerText (frameHeader End None 0)) \<le> MaxHeaderBytes"
    by (simp add: headerText_def headerJson_def jsonString_plain code_def End_def Itoa_def dec_nat.simps MaxHeaderBytes_def)
  then have "sendable (stamped \<lparr>hd_Version = 0, hd_Kind = End, hd_Size = 0, hd_Meta = None\<rparr>)"
    by (intro sendable_plain) (simp_all add: stamped_frameHeader validateHeader_None plainMeta_def)
  from WriteFrame_room [OF this assms, of "[]" None] show ?thesis by (simp add: writeFrame_def stamped_frameHeader)
qed

definition demoIdentity :: Identity where
  "demoIdentity = \<lparr>id_BuildID = ''b1'', id_OS = ''linux'', id_Arch = ''amd64'', id_Protocol = 1\<rparr>"

definition demoRequest :: RunnerRequest where
  "demoRequest = emptyRequest\<lparr>req_BuildID := ''b1'', req_Operation := Collect, req_Workdir := ''/w'',
     req_Paths := Some [''a.xml'', ''b.xml'', ''c.xml'']\<rparr>"

definition demoFile :: File where
  "demoFile = \<lparr>fl_Path = ''a.xml'', fl_ModTime = 5, fl_Data = ''ok''\<rparr>"

text \<open>A staging that keeps the payload it read, for a destination that is its own target.\<close>

definition demoArchive :: "string archiveOps" where
  "demoArchive = \<lparr>ar_Target = (\<lambda>d b c. Inr d),
     ar_Stage = (\<lambda>t r. case ReadAll payloadRead (\<lambda>_. 4) (unread r) r of (r', d, e) \<Rightarrow> (r', case e of Some x \<Rightarrow> Inl x | None \<Rightarrow> Inr d)),
     ar_Publish = (\<lambda>_. None)\<rparr>"

definition demoEnv :: "string serveEnv" where
  "demoEnv = \<lparr>sv_Ctx = (\<lambda>_. None), sv_Cause = None, sv_Windows = False, sv_Home = Inr ''/h'', sv_OpenRoot = (\<lambda>_. Inr (demoDisk, [])),
     sv_Marker = (\<lambda>_. Inl (Native ''none'')), sv_Archive = demoArchive, sv_Adopt = (\<lambda>_ _. Inl (Native ''none'')),
     sv_Create = (\<lambda>_. Inl (Native ''none'')), sv_IsInvalid = (\<lambda>_. False), sv_Adoption = (\<lambda>_. None)\<rparr>"

lemmas demo_eval = headerText_def headerJson_def jsonString_plain code_def kind_defs operation_defs Itoa_def dec_nat.simps MaxHeaderBytes_def
  validateMetadataText_def utf8_valid_ascii is_ascii_def MaxInt64_def demoIdentity_def demoRequest_def emptyRequest_def emptySource_def
  sliceJson_def sourceJson_def warningJson_def emptyOutcome_def demoCodec_def emptyFileInfo_def demoFile_def

lemma demo_hello: "sk_Room w = None \<Longrightarrow> \<exists>w'. writeFrame demoCodec Hello (Some (MIdentity demoIdentity)) 0 None w = (w', Inr ()) \<and> sk_Room w' = None"
  using writeFrame_room(2) [OF demoCodec_good, of w "MIdentity demoIdentity" _ Hello "[]"] by (simp add: demo_eval)

lemma demo_request: "sk_Room w = None \<Longrightarrow> \<exists>w'. writeFrame demoCodec RunnerWire.Request (Some (MRequest demoRequest)) 0 None w = (w', Inr ()) \<and> sk_Room w' = None"
  using writeFrame_room(2) [OF demoCodec_good, of w "MRequest demoRequest" _ RunnerWire.Request "[]"] by (simp add: demo_eval)

lemma demo_file: "sk_Room w = None \<Longrightarrow> \<exists>w'. writeFrame demoCodec RunnerWire.File (Some (MFile (emptyFileInfo\<lparr>fin_Path := ''a.xml'', fin_ModTime := 5\<rparr>))) (Suc (Suc 0)) (Some ''ok'') w
    = (w', Inr ()) \<and> sk_Room w' = None"
  using writeFrame_room(1) [OF demoCodec_good, of w "MFile (emptyFileInfo\<lparr>fin_Path := ''a.xml'', fin_ModTime := 5\<rparr>)" _ RunnerWire.File "''ok''"]
  by (simp add: demo_eval)

lemma demo_result: "sk_Room w = None \<Longrightarrow> \<exists>w'. writeFrame demoCodec Result (Some (MOutcome (emptyOutcome\<lparr>oc_Warnings := Some []\<rparr>))) 0 None w = (w', Inr ()) \<and> sk_Room w' = None"
  using writeFrame_room(2) [OF demoCodec_good, of w "MOutcome (emptyOutcome\<lparr>oc_Warnings := Some []\<rparr>)" _ Result "[]"] by (simp add: demo_eval)

lemma demo_WriteRequest: "\<exists>w'. WriteRequest demoCodec demoRequest 0 None emptySink = (w', Inr ())"
proof -
  obtain w1 where w1: "writeFrame demoCodec RunnerWire.Request (Some (MRequest demoRequest)) 0 None emptySink = (w1, Inr ())" "sk_Room w1 = None"
    using demo_request [of emptySink] by (auto simp: emptySink_def)
  have "req_BuildID demoRequest \<noteq> []" "req_Operation demoRequest = Collect" "validateResultPaths (req_Paths demoRequest) = None"
    by (simp_all add: demoRequest_def emptyRequest_def validateResultPaths_def ExplicitMaxFiles_def)
  then show ?thesis using w1 endFrame_room [OF w1(2), of demoCodec] by (simp add: WriteRequest_def operation_defs bindR_run)
qed

lemma demo_serveResults:
  assumes "sk_Room (sr_Out s) = None"
  shows "\<exists>w'. serveResults demoEnv demoCodec demoRequest s = (s\<lparr>sr_Out := w'\<rparr>, Inr (emptyOutcome\<lparr>oc_Warnings := Some []\<rparr>)) \<and> sk_Room w' = None"
proof -
  obtain w1 where w1: "writeFrame demoCodec RunnerWire.File (Some (MFile (emptyFileInfo\<lparr>fin_Path := ''a.xml'', fin_ModTime := 5\<rparr>))) (Suc (Suc 0)) (Some ''ok'') (sr_Out s) = (w1, Inr ())"
    "sk_Room w1 = None"
    using demo_file [OF assms] by blast
  have path: "expandPath (Inr ''/h'') ''/w'' = Inr ''/w''"
    using chunks_ascii [of "''/w''"]
    by (simp add: expandPath_def HasPrefix_def ContainsAny_def controls_def TrimSpace_ascii is_ascii_def trim_by_def is_space_def code_def)
  have opts: "baseOptions demoRequest = demoOptions"
    by (simp add: baseOptions_def demoRequest_def emptyRequest_def demoOptions_def)
  have v: "validateResultPaths (req_Paths demoRequest) = None" "req_Workdir demoRequest = ''/w''" "\<not> req_Auto demoRequest"
    by (simp_all add: demoRequest_def emptyRequest_def validateResultPaths_def ExplicitMaxFiles_def)
  have "writeFiles demoCodec (\<lambda>_. None) 2 [demoFile] (sr_Out s) = (w1, Inr ())"
    using w1 by (simp add: demoFile_def bindR_run)
  then show ?thesis using v path opts w1(2) demoCollect
    by (intro exI [of _ w1]) (simp add: serveResults_def bind_simps demoEnv_def resultOptions_def demoFile_def returnR_def boundedResultWarnings_def)
qed

lemma demo_Serve:
  assumes "WriteRequest demoCodec demoRequest 0 None emptySink = (wq, Inr ())" "st_Data input = sk_Out wq" "st_Last input = EOF"
  shows "\<exists>s. Serve demoEnv demoCodec input emptySink demoIdentity = (s, None)"
proof -
  from assms(1) have "bindR (writeFrame demoCodec RunnerWire.Request (Some (MRequest demoRequest)) 0 None) (\<lambda>_. writeFrame demoCodec End None 0 None) emptySink = (wq, Inr ())"
    by (auto simp: WriteRequest_def bindR_Inr)
  then obtain hq he where q: "goodFrame demoCodec RunnerWire.Request (Some (MRequest demoRequest)) 0 hq" "goodFrame demoCodec End None 0 he"
    "sk_Out wq = frameBytes hq [] @ frameBytes he []"
    by (rule twoFrames_ok [OF _ demoCodec_good]) (auto simp: emptySink_def)
  obtain w1 where w1: "writeFrame demoCodec Hello (Some (MIdentity demoIdentity)) 0 None emptySink = (w1, Inr ())" "sk_Room w1 = None"
    using demo_hello [of emptySink] by (auto simp: emptySink_def)
  let ?s1 = "\<lparr>sr_In = NewReader input MaxCompressedBytes, sr_Out = w1, sr_Published = None\<rparr> :: string server"
  obtain r where r: "serveOperation demoEnv demoCodec demoIdentity ?s1 =
    bindR (requireR (\<not> (req_BuildID demoRequest = [] \<or> req_BuildID demoRequest \<noteq> id_BuildID demoIdentity)) (Fail ''runner build identity mismatch'')) (\<lambda>_.
    bindR (checkR (sv_Ctx demoEnv 0)) (\<lambda>_ _. serveResults demoEnv demoCodec demoRequest (?s1\<lparr>sr_In := r\<rparr>))) (?s1\<lparr>sr_In := fst (Next (sr_In ?s1))\<rparr>)"
    by (rule serveOperation_collect [OF q(1,2), of ?s1 demoEnv demoIdentity])
      (use assms q(3) in \<open>simp_all add: NewReader_def idle_def unread_def demoRequest_def\<close>)
  obtain w2 where w2: "serveResults demoEnv demoCodec demoRequest (?s1\<lparr>sr_In := r\<rparr>) = (?s1\<lparr>sr_In := r, sr_Out := w2\<rparr>, Inr (emptyOutcome\<lparr>oc_Warnings := Some []\<rparr>))"
    "sk_Room w2 = None"
    using demo_serveResults [of "?s1\<lparr>sr_In := r\<rparr>"] w1(2) by auto
  have o: "serveOperation demoEnv demoCodec demoIdentity ?s1 = (?s1\<lparr>sr_In := r, sr_Out := w2\<rparr>, Inr (emptyOutcome\<lparr>oc_Warnings := Some []\<rparr>))"
    using r w2 by (simp add: bind_simps demoRequest_def emptyRequest_def demoIdentity_def demoEnv_def)
  obtain w3 where w3: "writeFrame demoCodec Result (Some (MOutcome (emptyOutcome\<lparr>oc_Warnings := Some []\<rparr>))) 0 None w2 = (w3, Inr ())" "sk_Room w3 = None"
    using demo_result [OF w2(2)] by blast
  show ?thesis
    using w1 o w3 endFrame_room [OF w3(2), of demoCodec]
    by (simp add: Serve_def onOutput_def errOf_def bindR_def demoEnv_def)
qed

theorem collect_round_trip_witness:
  "\<exists>wq s r. WriteRequest demoCodec demoRequest 0 None emptySink = (wq, Inr ())
    \<and> Serve demoEnv demoCodec \<lparr>st_Data = sk_Out wq, st_Cuts = [3, 1, 4], st_Last = EOF, st_Eager = True\<rparr> emptySink demoIdentity = (s, None)
    \<and> ReadResponse demoCodec (\<lambda>_. None) (streamOf (sk_Out (sr_Out s))) demoIdentity ''collect'' (Some (collectFile (\<lambda>_. 1))) []
        = Some ((r, [demoFile]), Inr (emptyOutcome\<lparr>oc_Warnings := Some []\<rparr>))"
proof -
  obtain wq where wq: "WriteRequest demoCodec demoRequest 0 None emptySink = (wq, Inr ())" using demo_WriteRequest by blast
  let ?in = "\<lparr>st_Data = sk_Out wq, st_Cuts = [3, 1, 4], st_Last = EOF, st_Eager = True\<rparr>"
  obtain s where s: "Serve demoEnv demoCodec ?in emptySink demoIdentity = (s, None)" using demo_Serve [OF wq, of ?in] by auto
  let ?out = "streamOf (sk_Out (sr_Out s))"
  have p: "id_Protocol demoIdentity = 1" "id_BuildID demoIdentity \<noteq> []" "req_Operation demoRequest = ''collect''"
    "st_Data ?in = sk_Out wq" "st_Last ?in = EOF" "st_Data ?out = sk_Out (sr_Out s)" "st_Last ?out = EOF"
    by (simp_all add: demoIdentity_def demoRequest_def emptyRequest_def Collect_def streamOf_def)
  have alive: "\<forall>i. (\<lambda>_ :: nat. None :: gerr option) i = None" by simp
  from collect_round_trip [OF demoCodec_good p(1,2) wq p(3,4,5) s p(6,7) alive, of "\<lambda>_. 1"]
  obtain workdir dk tree options t c x where c: "expandPath (sv_Home demoEnv) (req_Workdir demoRequest) = Inr workdir" "sv_OpenRoot demoEnv workdir = Inr (dk, tree)"
    "resultOptions demoEnv workdir demoRequest = Inr options" "CollectResults dk tree options 0 = (t, Inr c)"
    "ReadResponse demoCodec (\<lambda>_. None) ?out demoIdentity ''collect'' (Some (collectFile (\<lambda>_. 1))) [] = Some x"
    "if acceptablePaths (co_Files c)
     then snd (fst x) = co_Files c \<and> snd x = Inr (emptyOutcome\<lparr>oc_Warnings := Some (boundedResultWarnings (co_Warnings c))\<rparr>)
     else snd x = Inl (Wire (Fail ''invalid runner result file''))"
    by blast
  have "dk = demoDisk" "tree = []" "options = demoOptions"
    using c(2,3) by (auto simp: demoEnv_def resultOptions_def baseOptions_def demoRequest_def emptyRequest_def demoOptions_def)
  then have f: "co_Files c = [demoFile]" "co_Warnings c = []" using c(4) demoCollect by (auto simp: demoFile_def)
  then have "acceptablePaths (co_Files c)" by (simp add: acceptablePaths_def demoFile_def)
  with c(6) f have "x = ((fst (fst x), [demoFile]), Inr (emptyOutcome\<lparr>oc_Warnings := Some []\<rparr>))"
    by (simp add: prod_eq_iff boundedResultWarnings_def)
  then show ?thesis using wq s c(5) by metis
qed

text \<open>A client whose transport answers with one file.\<close>

definition demoHeaders :: "Header list" where
  "demoHeaders = [frameHeader Hello (marshal demoCodec (MIdentity demoIdentity)) 0,
     frameHeader RunnerWire.File (marshal demoCodec (MFile (infoOf demoFile))) (Suc (Suc 0)),
     frameHeader Result (marshal demoCodec (MOutcome (emptyOutcome\<lparr>oc_Warnings := Some []\<rparr>))) 0, frameHeader End None 0]"

definition demoAnswer :: string where
  "demoAnswer = frameBytes (demoHeaders ! 0) [] @ frameBytes (demoHeaders ! 1) ''ok'' @ frameBytes (demoHeaders ! 2) [] @ frameBytes (demoHeaders ! 3) []"

definition demoClient :: Client where
  "demoClient = \<lparr>cl_Identity = demoIdentity, cl_Transport = Some (\<lambda>_ _. (streamOf demoAnswer, None))\<rparr>"

definition demoContext :: runContext where
  "demoContext = \<lparr>rc_Err = (\<lambda>_. None), rc_Cause = None, rc_Late = None\<rparr>"

lemma demo_frames:
  "goodFrame demoCodec Hello (Some (MIdentity demoIdentity)) 0 (demoHeaders ! 0)" "fileFrames demoCodec [demoFile] [demoHeaders ! 1]"
  "goodFrame demoCodec Result (Some (MOutcome (emptyOutcome\<lparr>oc_Warnings := Some []\<rparr>))) 0 (demoHeaders ! 2)"
  "goodFrame demoCodec End None 0 (demoHeaders ! 3)"
proof -
  show "goodFrame demoCodec Hello (Some (MIdentity demoIdentity)) 0 (demoHeaders ! 0)"
    using writeFrame_room(3) [OF demoCodec_good, of emptySink "MIdentity demoIdentity" _ Hello "[]"] by (simp add: emptySink_def demoHeaders_def demo_eval)
  show "fileFrames demoCodec [demoFile] [demoHeaders ! 1]"
    using writeFrame_room(3) [OF demoCodec_good, of emptySink "MFile (infoOf demoFile)" _ RunnerWire.File "''ok''"]
    by (simp add: fileFrames_def infoOf_def emptySink_def demoHeaders_def demo_eval)
  show "goodFrame demoCodec Result (Some (MOutcome (emptyOutcome\<lparr>oc_Warnings := Some []\<rparr>))) 0 (demoHeaders ! 2)"
    using writeFrame_room(3) [OF demoCodec_good, of emptySink "MOutcome (emptyOutcome\<lparr>oc_Warnings := Some []\<rparr>)" _ Result "[]"]
    by (simp add: emptySink_def demoHeaders_def demo_eval)
  have "\<exists>u w'. writeFrame demoCodec End None 0 None emptySink = (w', Inr u)" using endFrame_room [of emptySink demoCodec] by (simp add: emptySink_def)
  then obtain h where "goodFrame demoCodec End None 0 h" by (auto elim: writeFrame_ok [OF _ demoCodec_good])
  then show "goodFrame demoCodec End None 0 (demoHeaders ! 3)" by (auto simp: demoHeaders_def goodFrame_def)
qed

lemma demo_clientCollect:
  "clientCollect demoCodec demoContext (\<lambda>_. 1) demoClient ''/w'' (Some [''a.xml'', ''b.xml'', ''c.xml'']) False []
    = Some (Inr \<lparr>rl_Files = [demoFile], rl_Warnings = Some []\<rparr>)"
proof -
  obtain wq where wq: "WriteRequest demoCodec demoRequest 0 None emptySink = (wq, Inr ())" using demo_WriteRequest by blast
  have data: "st_Data (streamOf demoAnswer)
      = frameBytes (demoHeaders ! 0) [] @ fileBytes [demoFile] [demoHeaders ! 1] @ frameBytes (demoHeaders ! 2) [] @ frameBytes (demoHeaders ! 3) []"
    by (simp add: streamOf_def demoAnswer_def fileBytes_def demoFile_def)
  have alive: "\<forall>i. (\<lambda>_ :: nat. None :: gerr option) i = None" by simp
  have f: "id_Protocol demoIdentity = 1" "id_BuildID demoIdentity \<noteq> []" "oc_RetainedPath (emptyOutcome\<lparr>oc_Warnings := Some []\<rparr>) = []"
      "\<not> oc_Published (emptyOutcome\<lparr>oc_Warnings := Some []\<rparr>)" "withinLimits [demoFile]" "st_Last (streamOf demoAnswer) = EOF"
    by (simp_all add: demoIdentity_def emptyOutcome_def withinLimits_def demoFile_def streamOf_def)
  obtain r where r: "ReadResponse demoCodec (\<lambda>_. None) (streamOf demoAnswer) demoIdentity Collect (Some (collectFile (\<lambda>_. 1))) []
      = Some ((r, [demoFile]), Inr (emptyOutcome\<lparr>oc_Warnings := Some []\<rparr>))"
    by (rule ReadResponse_frames [OF demoCodec_good f(1,2) demo_frames f(3,4) alive f(5) data f(6)])
  have q: "emptyRequest\<lparr>req_Operation := Collect, req_Workdir := ''/w'', req_Paths := Some [''a.xml'', ''b.xml'', ''c.xml''], req_Auto := False,
      req_Marker := [], req_BuildID := ''b1''\<rparr> = demoRequest" by (simp add: demoRequest_def emptyRequest_def)
  have t: "validateMetadataText (MRequest demoRequest) = None" "req_Operation demoRequest = Collect" by (simp_all add: demo_eval)
  show ?thesis
    using wq r t by (simp add: clientCollect_def validateResultPaths_def ExplicitMaxFiles_def invoke_def demoClient_def demoContext_def q
        exchange_def errOf_def noErr_def demoIdentity_def)
qed

theorem collected_results_bounded_witness:
  "\<exists>results. clientCollect demoCodec demoContext (\<lambda>_. 1) demoClient ''/w'' (Some [''a.xml'', ''b.xml'', ''c.xml'']) False [] = Some (Inr results)
     \<and> rl_Files results = [demoFile] \<and> withinLimits (rl_Files results)"
  using demo_clientCollect RunnerClient.collected_results_bounded [OF demo_clientCollect] by simp

end
