(* ===== verification/RunnerTransfer.thy ===== *)
theory RunnerTransfer
  imports RunnerServe
begin

text \<open>
  Archive transfers end to end: an upload that the server publishes, a download that the client
  publishes, and what ends a stream (internal/runner/server.go, transport.go, protocol.go).
\<close>

section \<open>The end of a stream\<close>

text \<open>A prefix that announces a header, with no byte behind it, ends the stream with \<open>io.EOF\<close>: nothing of
  the header was read.\<close>

lemma Next_bare_prefix:
  assumes "idle r" "st_Data (rd_Stream r) = magic @ bigEndian n" "0 < n" "n \<le> MaxHeaderBytes" "st_Last (rd_Stream r) = EOF"
  obtains r' where "Next r = (r', Inl EOF)"
proof -
  let ?p = "magic @ bigEndian n"
  have p: "length ?p = 8" "take 4 ?p = magic" "drop 4 ?p = bigEndian n" by (simp_all add: magic_def)
  obtain s1 where s1: "readPart 8 r = (r\<lparr>rd_Stream := s1\<rparr>, Inr ?p)" "st_Data s1 = []" "st_Last s1 = EOF"
    using readPart_enough [of 8 r] p(1) assms(5) by (auto simp: assms(2))
  have "length (st_Data (rd_Stream (r\<lparr>rd_Stream := s1\<rparr>))) < n" using s1 assms(3) by simp
  then obtain s2 where s2: "readPart n (r\<lparr>rd_Stream := s1\<rparr>) = (r\<lparr>rd_Stream := s2\<rparr>, Inl EOF)"
    by (rule readPart_short) (use s1 in simp)
  have "nextFrame r = (r\<lparr>rd_Stream := s2\<rparr>, Inl EOF)"
    unfolding nextFrame_def using s1 s2 p assms(3,4) by (simp add: bindR_def requireR_def bigEndian_value Let_def)
  then show thesis using assms(1) by (intro that) (simp add: Next_idle)
qed

lemma endFrame_good: "goodFrame tc End None 0 (frameHeader End None 0)"
proof -
  have "length (headerText (frameHeader End None 0)) \<le> MaxHeaderBytes"
    by (simp add: headerText_def headerJson_def jsonString_plain code_def End_def Itoa_def dec_nat.simps MaxHeaderBytes_def)
  then have "sendable (frameHeader End None 0)"
    by (intro sendable_plain) (simp_all add: validateHeader_None plainMeta_def)
  then show ?thesis by (simp add: goodFrame_def plainMeta_def)
qed

text \<open>C26: \<open>readEnd\<close> does not reject every stream with trailing data: after the end frame it accepts the
  prefix of a further frame that announces a header, when the stream ends right behind that prefix.\<close>

theorem trailing_frame_prefix_accepted:
  assumes "idle r" "st_Data (rd_Stream r) = frameBytes (frameHeader End None 0) [] @ magic @ bigEndian n" "st_Last (rd_Stream r) = EOF"
    and "0 < n" "n \<le> 65536"
  shows "\<exists>r'. readEnd r = (r', Inr ())"
proof -
  obtain s' where s: "Next r = (r\<lparr>rd_Stream := s', rd_Current := Some 0\<rparr>, Inr (frameHeader End None 0))"
    "st_Data s' = magic @ bigEndian n" "st_Last s' = EOF"
    using Next_goodFrame [OF assms(1) _ endFrame_good, of "[]" "magic @ bigEndian n"] assms(2,3) by auto
  let ?r = "r\<lparr>rd_Stream := s', rd_Current := Some 0\<rparr>"
  have "idle ?r" using assms(1) by (simp add: idle_def unread_def)
  then obtain r2 where "Next ?r = (r2, Inl EOF)"
    by (rule Next_bare_prefix [of ?r n]) (use s assms(4,5) in \<open>simp_all add: MaxHeaderBytes_def\<close>)
  then show ?thesis using s(1) by (auto simp: readEnd_def)
qed

theorem trailing_frame_prefix_accepted_witness:
  "\<exists>r'. readEnd (NewReader (streamOf (frameBytes (frameHeader End None 0) [] @ ''CBXR'' @ bigEndian 7)) 0) = (r', Inr ())"
  using trailing_frame_prefix_accepted [of "NewReader (streamOf (frameBytes (frameHeader End None 0) [] @ ''CBXR'' @ bigEndian 7)) 0" 7]
  by (simp add: NewReader_def streamOf_def idle_def unread_def magic_def)

section \<open>Witnesses\<close>

definition demoUpload :: RunnerRequest where
  "demoUpload = emptyRequest\<lparr>req_BuildID := ''b1'', req_Operation := Upload, req_Destination := ''/w'',
     req_Source := \<lparr>as_Base = ''s'', as_ContentsOnly = False\<rparr>\<rparr>"

definition uploadHeader :: Header where
  "uploadHeader = frameHeader RunnerWire.Request (marshal demoCodec (MRequest demoUpload)) (Suc (Suc 0))"

definition uploadInput :: stream where
  "uploadInput = \<lparr>st_Data = frameBytes uploadHeader ''gz'' @ frameBytes (frameHeader End None 0) [], st_Cuts = [3, 1], st_Last = EOF, st_Eager = False\<rparr>"

lemma uploadHeader_good: "goodFrame demoCodec RunnerWire.Request (Some (MRequest demoUpload)) (Suc (Suc 0)) uploadHeader"
  using writeFrame_room(3) [OF demoCodec_good, of emptySink "MRequest demoUpload" _ RunnerWire.Request "''gz''"]
  by (simp add: emptySink_def uploadHeader_def demoUpload_def demo_eval)

lemma demo_path: "expandPath (Inr ''/h'') ''/w'' = Inr ''/w''"
  using chunks_ascii [of "''/w''"]
  by (simp add: expandPath_def HasPrefix_def ContainsAny_def controls_def TrimSpace_ascii is_ascii_def trim_by_def is_space_def code_def)

lemma demo_stage:
  assumes "rd_Err r = None" "rd_Current r = Some (length body)" "st_Data (rd_Stream r) = body @ rest" "st_Last (rd_Stream r) = EOF"
  obtains r' where "ar_Stage demoArchive target r = (r', Inr body)" "idle r'" "st_Data (rd_Stream r') = rest" "st_Last (rd_Stream r') = EOF"
    "rd_MaxBody r' = rd_MaxBody r"
proof -
  have "unread r = length body" using assms(2) by (simp add: unread_def)
  then obtain r' where "ReadAll payloadRead (\<lambda>_. 4) (unread r) r = (r', body, None)" "idle r'" "st_Data (rd_Stream r') = rest"
    "st_Last (rd_Stream r') = st_Last (rd_Stream r)" "rd_MaxBody r' = rd_MaxBody r"
    using payload_read_all [OF assms(1-3), of "unread r" "\<lambda>_. 4"] assms(4) by (metis order_refl)
  then show thesis using assms(4) by (intro that [of r']) (simp_all add: demoArchive_def)
qed

lemma publish_run:
  "ar_Publish ops stage = None \<Longrightarrow> bindR (publish ops stage) f s = f () (s\<lparr>sr_Published := Some stage\<rparr>)"
  by (simp add: bindR_def publish_def)

lemma demo_serveUpload:
  assumes "sr_In s = NewReader uploadInput MaxCompressedBytes" "sr_Published s = None"
  shows "\<exists>r. serveOperation demoEnv demoCodec demoIdentity s = (s\<lparr>sr_In := r, sr_Published := Some ''gz''\<rparr>, Inr (emptyOutcome\<lparr>oc_Published := True\<rparr>))"
proof -
  let ?r0 = "NewReader uploadInput MaxCompressedBytes"
  obtain s1 where n: "Next ?r0 = (?r0\<lparr>rd_Stream := s1, rd_Current := Some (Suc (Suc 0))\<rparr>, Inr uploadHeader)"
    "st_Data s1 = ''gz'' @ frameBytes (frameHeader End None 0) []" "st_Last s1 = EOF" "hd_Kind uploadHeader = RunnerWire.Request"
    "hd_Size uploadHeader = Suc (Suc 0)" "hd_Meta uploadHeader = marshal demoCodec (MRequest demoUpload)"
    using Next_goodFrame [OF _ _ uploadHeader_good, of ?r0 "''gz''" "frameBytes (frameHeader End None 0) []"]
    by (auto simp: NewReader_def idle_def unread_def uploadInput_def MaxCompressedBytes_def simp del: marshal.simps)
  let ?r1 = "?r0\<lparr>rd_Stream := s1, rd_Current := Some (Suc (Suc 0))\<rparr>"
  obtain r2 where st: "ar_Stage demoArchive ''/w'' ?r1 = (r2, Inr ''gz'')" "idle r2" "st_Data (rd_Stream r2) = frameBytes (frameHeader End None 0) []"
    "st_Last (rd_Stream r2) = EOF"
    by (rule demo_stage [of ?r1 "''gz''" "frameBytes (frameHeader End None 0) []" "''/w''"]) (use n(2,3) in \<open>simp_all add: NewReader_def\<close>)
  obtain r3 where e: "readEnd r2 = (r3, Inr ())" using readEnd_written [OF st(2,3) endFrame_good st(4)] by blast
  have d: "decodeRequest (hd_Meta uploadHeader) = Inr demoUpload" using n(6) decodeRequest_marshal by simp
  have q: "req_Operation demoUpload = Upload" "req_BuildID demoUpload = ''b1''" "req_Destination demoUpload = ''/w''"
    by (simp_all add: demoUpload_def emptyRequest_def)
  have env: "sv_Archive demoEnv = demoArchive" "sv_Home demoEnv = Inr ''/h''" "\<not> sv_Windows demoEnv" "sv_Ctx demoEnv i = None" for i
    by (simp_all add: demoEnv_def)
  have ops: "ar_Target demoArchive d b c = Inr d" "ar_Publish demoArchive x = None" for d b c x by (simp_all add: demoArchive_def)
  show ?thesis
    using n st(1) e d q env demo_path assms
    by (intro exI [of _ r3]) (simp add: serveOperation_def serveRequest_def serveUpload_def bind_simps demoIdentity_def ops publish_run returnR_def
        del: marshal.simps)
qed

theorem serve_publishes_complete_upload_witness:
  "\<exists>s err. Serve demoEnv demoCodec uploadInput emptySink demoIdentity = (s, err) \<and> sr_Published s = Some ''gz''
    \<and> (\<exists>r1 h. Next (NewReader uploadInput MaxCompressedBytes) = (r1, Inr h) \<and> hd_Kind h = ''request'')"
proof -
  obtain s err where s: "Serve demoEnv demoCodec uploadInput emptySink demoIdentity = (s, err)" by fastforce
  obtain w1 where w1: "writeFrame demoCodec Hello (Some (MIdentity demoIdentity)) 0 None emptySink = (w1, Inr ())"
    using demo_hello [of emptySink] by (auto simp: emptySink_def)
  let ?s1 = "\<lparr>sr_In = NewReader uploadInput MaxCompressedBytes, sr_Out = w1, sr_Published = None\<rparr> :: string server"
  obtain r where "serveOperation demoEnv demoCodec demoIdentity ?s1
      = (?s1\<lparr>sr_In := r, sr_Published := Some ''gz''\<rparr>, Inr (emptyOutcome\<lparr>oc_Published := True\<rparr>))"
    using demo_serveUpload [of ?s1] by auto
  then have "sr_Published s = Some ''gz''"
    using s w1 by (auto simp: Serve_def onOutput_def errOf_def split: prod.splits option.splits)
  then show ?thesis using s serve_publishes_complete_upload [OF s] by blast
qed


definition archiveInfo :: FileInfo where
  "archiveInfo = emptyFileInfo\<lparr>fin_Archive := True, fin_Source := \<lparr>as_Base = ''s'', as_ContentsOnly = False\<rparr>\<rparr>"

definition downloadHeaders :: "Header list" where
  "downloadHeaders = [frameHeader Hello (marshal demoCodec (MIdentity demoIdentity)) 0,
     frameHeader RunnerWire.File (marshal demoCodec (MFile archiveInfo)) (Suc (Suc 0)),
     frameHeader Result (marshal demoCodec (MOutcome emptyOutcome)) 0]"

definition downloadTail :: string where
  "downloadTail = frameBytes (downloadHeaders ! 2) [] @ frameBytes (frameHeader End None 0) []"

definition downloadAnswer :: stream where
  "downloadAnswer = streamOf (frameBytes (downloadHeaders ! 0) [] @ frameBytes (downloadHeaders ! 1) ''gz'' @ downloadTail)"

definition downloadClient :: Client where
  "downloadClient = \<lparr>cl_Identity = demoIdentity, cl_Transport = Some (\<lambda>_ _. (downloadAnswer, None))\<rparr>"

lemma downloadHeaders_good:
  "goodFrame demoCodec Hello (Some (MIdentity demoIdentity)) 0 (downloadHeaders ! 0)"
  "goodFrame demoCodec RunnerWire.File (Some (MFile archiveInfo)) (Suc (Suc 0)) (downloadHeaders ! 1)"
  "goodFrame demoCodec Result (Some (MOutcome emptyOutcome)) 0 (downloadHeaders ! 2)"
proof -
  show "goodFrame demoCodec Hello (Some (MIdentity demoIdentity)) 0 (downloadHeaders ! 0)"
    using writeFrame_room(3) [OF demoCodec_good, of emptySink "MIdentity demoIdentity" _ Hello "[]"] by (simp add: emptySink_def downloadHeaders_def demo_eval)
  show "goodFrame demoCodec RunnerWire.File (Some (MFile archiveInfo)) (Suc (Suc 0)) (downloadHeaders ! 1)"
    using writeFrame_room(3) [OF demoCodec_good, of emptySink "MFile archiveInfo" _ RunnerWire.File "''gz''"]
    by (simp add: emptySink_def downloadHeaders_def archiveInfo_def demo_eval zeroTime_def)
  show "goodFrame demoCodec Result (Some (MOutcome emptyOutcome)) 0 (downloadHeaders ! 2)"
    using writeFrame_room(3) [OF demoCodec_good, of emptySink "MOutcome emptyOutcome" _ Result "[]"] by (simp add: emptySink_def downloadHeaders_def demo_eval)
qed

text \<open>The reader at the archive frame, and the rounds of the response from there.\<close>

lemma download_rounds:
  assumes "idle r" "rd_MaxBody r = MaxCompressedBytes" "st_Data (rd_Stream r) = frameBytes (downloadHeaders ! 1) ''gz'' @ downloadTail"
    and "st_Last (rd_Stream r) = EOF"
  shows "\<exists>r'. responseLoop (Suc (Suc k)) demoCodec Download (\<lambda>_. None) (Some (downloadFile demoArchive ''/w'' \<lparr>as_Base = ''s'', as_ContentsOnly = False\<rparr>)) 0 0 {} (r, None)
    = Some ((r', Some ''gz''), Inr emptyOutcome)"
proof -
  obtain s1 where n: "Next r = (r\<lparr>rd_Stream := s1, rd_Current := Some (Suc (Suc 0))\<rparr>, Inr (downloadHeaders ! 1))"
    "st_Data s1 = ''gz'' @ downloadTail" "st_Last s1 = EOF" "hd_Kind (downloadHeaders ! 1) = RunnerWire.File"
    "hd_Meta (downloadHeaders ! 1) = marshal demoCodec (MFile archiveInfo)"
    by (rule Next_goodFrame [OF assms(1) assms(3) downloadHeaders_good(2)]) (use assms(2,4) in \<open>simp_all add: MaxCompressedBytes_def del: marshal.simps\<close>)
  obtain v where v: "marshal demoCodec (MFile archiveInfo) = Some v" using downloadHeaders_good(2) by (auto simp: goodFrame_def simp del: marshal.simps)
  let ?r1 = "r\<lparr>rd_Stream := s1, rd_Current := Some (Suc (Suc 0))\<rparr>"
  obtain r2 where st: "ar_Stage demoArchive ''/w'' ?r1 = (r2, Inr ''gz'')" "idle r2" "st_Data (rd_Stream r2) = downloadTail" "st_Last (rd_Stream r2) = EOF"
    by (rule demo_stage [of ?r1 "''gz''" downloadTail "''/w''"]) (use n(2,3) assms(1) in \<open>simp_all add: idle_def\<close>)
  obtain s3 where n3: "Next r2 = (r2\<lparr>rd_Stream := s3, rd_Current := Some 0\<rparr>, Inr (downloadHeaders ! 2))"
    "st_Data s3 = frameBytes (frameHeader End None 0) []" "st_Last s3 = EOF" "hd_Kind (downloadHeaders ! 2) = Result"
    "hd_Meta (downloadHeaders ! 2) = marshal demoCodec (MOutcome emptyOutcome)"
    using Next_goodFrame [OF st(2) _ downloadHeaders_good(3), of "[]" "frameBytes (frameHeader End None 0) []"] st(3,4)
    by (auto simp: downloadTail_def simp del: marshal.simps)
  let ?r3 = "r2\<lparr>rd_Stream := s3, rd_Current := Some 0\<rparr>"
  have "idle ?r3" using st(2) by (simp add: idle_def unread_def)
  then obtain r4 where e: "readEnd ?r3 = (r4, Inr ())" using readEnd_written [OF _ _ endFrame_good, of ?r3] n3(2,3) by auto
  have i: "decodeFileInfo demoCodec (hd_Meta (downloadHeaders ! 1)) = Inr archiveInfo"
    using n(5) v decodeFileInfo_marshal [OF demoCodec_good v] by (simp del: marshal.simps)
  have f: "fileFrame demoCodec Download 1 0 {} (downloadHeaders ! 1) = Inr (archiveInfo, 0, {})"
    using i by (simp add: fileFrame_def operation_defs archiveInfo_def)
  have g: "downloadFile demoArchive ''/w'' \<lparr>as_Base = ''s'', as_ContentsOnly = False\<rparr> archiveInfo (?r1, None) = ((r2, Some ''gz''), Inr ())"
    using st(1) by (simp add: downloadFile_def archiveInfo_def demoArchive_def)
  have "resultFrame Download 1 (downloadHeaders ! 2) ?r3 = (r4, Inr emptyOutcome)"
    using n3(5) e decodeOutcome_marshal [of demoCodec emptyOutcome]
    by (simp add: resultFrame_def operation_defs emptyOutcome_def del: marshal.simps)
  then show ?thesis using n(1,4) f g n3(1,4) by (simp add: kind_defs)
qed

lemma demo_clientDownload: "clientDownload demoCodec demoContext demoArchive downloadClient ''/s'' ''/w'' = Some (Some ''gz'', None)"
proof -
  have src: "DownloadSource ''/s'' = Inr \<lparr>as_Base = ''s'', as_ContentsOnly = False\<rparr>"
    using chunks_ascii [of "''/s''"]
    by (simp add: DownloadSource_def HasPrefix_def HasSuffix_def ContainsAny_def controls_def TrimSpace_ascii is_ascii_def trim_by_def is_space_def code_def
        trimSlashes_def lastElement_def pathBase_def Let_def)
  let ?q = "emptyRequest\<lparr>req_Operation := Download, req_SourcePath := ''/s'', req_BuildID := ''b1''\<rparr>"
  have v: "validateMetadataText (MRequest ?q) = None" by (simp add: demo_eval)
  obtain w1 where w1: "writeFrame demoCodec RunnerWire.Request (Some (MRequest ?q)) 0 None emptySink = (w1, Inr ())" "sk_Room w1 = None"
    using writeFrame_room(2) [OF demoCodec_good, of emptySink "MRequest ?q" _ RunnerWire.Request "[]"] by (simp add: demo_eval emptySink_def)
  then obtain wq where wq: "WriteRequest demoCodec ?q 0 None emptySink = (wq, Inr ())"
    using endFrame_room [OF w1(2), of demoCodec] by (simp add: WriteRequest_def operation_defs bindR_run emptyRequest_def)
  let ?r0 = "NewReader downloadAnswer (maxBody Download)"
  obtain s1 where n: "Next ?r0 = (?r0\<lparr>rd_Stream := s1, rd_Current := Some 0\<rparr>, Inr (downloadHeaders ! 0))"
    "st_Data s1 = frameBytes (downloadHeaders ! 1) ''gz'' @ downloadTail" "st_Last s1 = EOF" "hd_Kind (downloadHeaders ! 0) = Hello"
    "hd_Meta (downloadHeaders ! 0) = marshal demoCodec (MIdentity demoIdentity)"
    using Next_goodFrame [OF _ _ downloadHeaders_good(1), of ?r0 "[]" "frameBytes (downloadHeaders ! 1) ''gz'' @ downloadTail"]
    by (auto simp: NewReader_def idle_def unread_def downloadAnswer_def streamOf_def simp del: marshal.simps)
  let ?r1 = "?r0\<lparr>rd_Stream := s1, rd_Current := Some 0\<rparr>"
  have id: "decodeIdentity (hd_Meta (downloadHeaders ! 0)) = Inr demoIdentity"
    using n(5) decodeIdentity_marshal [of demoIdentity demoCodec] by (simp add: demoIdentity_def del: marshal.simps)
  obtain k where k: "length (st_Data downloadAnswer) = Suc k"
    by (cases "length (st_Data downloadAnswer)") (auto simp: downloadAnswer_def streamOf_def frameBytes_def magic_def)
  obtain r' where l: "responseLoop (Suc (Suc k)) demoCodec Download (\<lambda>_. None) (Some (downloadFile demoArchive ''/w'' \<lparr>as_Base = ''s'', as_ContentsOnly = False\<rparr>)) 0 0 {} (?r1, None)
    = Some ((r', Some ''gz''), Inr emptyOutcome)"
    using download_rounds [of ?r1 k] n(2,3) by (auto simp: idle_def unread_def NewReader_def maxBody_def)
  have "ReadResponse demoCodec (\<lambda>_. None) downloadAnswer demoIdentity Download (Some (downloadFile demoArchive ''/w'' \<lparr>as_Base = ''s'', as_ContentsOnly = False\<rparr>)) None
    = Some ((r', Some ''gz''), Inr emptyOutcome)"
    using n(1,4) id l k by (simp add: ReadResponse_def demoIdentity_def Version_def del: responseLoop.simps)
  moreover have "ar_Publish demoArchive x = None" for x by (simp add: demoArchive_def)
  ultimately show ?thesis
    using src v wq by (simp add: clientDownload_def invoke_def downloadClient_def demoContext_def exchange_def errOf_def noErr_def demoIdentity_def)
qed

theorem download_publishes_complete_archive_witness:
  "clientDownload demoCodec demoContext demoArchive downloadClient ''/s'' ''/w'' = Some (Some ''gz'', None)
    \<and> (\<exists>requested. DownloadSource ''/s'' = Inr requested \<and> rc_Late demoContext = None)"
  using demo_clientDownload RunnerClient.download_publishes_complete_archive [OF demo_clientDownload] by blast

end
