(* ===== verification/ArchiveJournal.thy ===== *)
theory ArchiveJournal
  imports RunnerClient
begin

text \<open>
  Journaled publication of an archive (internal/runner/runnerfs/archive_journal.go): the decision
  record, its durable write, the moves it authorises, recovery after an interruption, and the
  adoption of legacy recovery data.

  \<^item> The volume is the parent directory of the destination, as a list of relative paths with their
    entries, and the journal directory. Each keeps the states it had since its last complete sync:
    a loss of power leaves one of them, independently for the two directories. A change of the parent
    is durable once every directory it touched was synced.
  \<^item> Every system call is a \<open>call\<close>. Its fate says whether it works, fails, or the process dies in it;
    a dead process does nothing more, deferred calls included. No other process changes these
    directories during a run, which is what the destination's lock is for.
  \<^item> Parameters: the opened journal context, the lock's error, the physical path of the payload, the
    random token and the identities of what is created, and whether the file system folds case.
\<close>

section \<open>Directories\<close>

datatype fileKind = Directory | Regular | Symlink | Special

record entry =
  en_Dev :: nat
  en_Ino :: nat
  en_Kind :: fileKind
  en_Private :: bool

type_synonym tree = "(string \<times> entry) list"

text \<open>\<open>copyArchiveDirectoryIdentity\<close> of a stat result; \<open>en_Private\<close> is ownership by the user without
  permissions for others.\<close>

definition archiveIdentity :: "entry option \<Rightarrow> string" where
  "archiveIdentity info = (case info of None \<Rightarrow> [] | Some e \<Rightarrow> dec_nat (en_Dev e) @ '':'' @ dec_nat (en_Ino e))"

definition archivePrivateDirectory :: "entry \<Rightarrow> bool" where
  "archivePrivateDirectory e \<longleftrightarrow> en_Kind e = Directory \<and> en_Private e"

definition slashed :: "string \<Rightarrow> string" where
  "slashed p = (if p = ''/'' then p else p @ ''/'')"

definition within :: "string \<Rightarrow> string \<Rightarrow> bool" where
  "within k p \<longleftrightarrow> k = p \<or> HasPrefix k (slashed p)"

text \<open>\<open>filepath.Dir\<close> of a clean path.\<close>

definition dirOf :: "string \<Rightarrow> string" where
  "dirOf p =
     (let d = rev (dropWhile (\<lambda>c. c \<noteq> CHR ''/'') (rev p)) in
      if d = [] then ''.'' else if trimSlashes d = [] then ''/'' else trimSlashes d)"

definition inDir :: "string \<Rightarrow> string \<Rightarrow> string" where
  "inDir d n = d @ ''/'' @ n"

definition treeRemove :: "string \<Rightarrow> tree \<Rightarrow> tree" where
  "treeRemove p t = filter (\<lambda>(k, e). \<not> within k p) t"

definition treeRename :: "string \<Rightarrow> string \<Rightarrow> tree \<Rightarrow> tree" where
  "treeRename from to t =
     map (\<lambda>(k, e). if within k from then (to @ drop (length from) k, e) else (k, e)) (treeRemove to t)"

definition hasChildren :: "string \<Rightarrow> tree \<Rightarrow> bool" where
  "hasChildren p t \<longleftrightarrow> list_ex (\<lambda>(k, e). HasPrefix k (slashed p)) t"

record jfile =
  jf_ID :: nat
  jf_Private :: bool
  jf_Elsewhere :: nat
  jf_Data :: string

type_synonym jdir = "(string \<times> jfile) list"

definition links :: "jdir \<Rightarrow> jfile \<Rightarrow> nat" where
  "links j f = length (filter (\<lambda>(n, g). jf_ID g = jf_ID f) j) + jf_Elsewhere f"

record volume =
  vo_J :: jdir
  vo_JPast :: "jdir list"
  vo_T :: tree
  vo_TPast :: "tree list"
  vo_Dirty :: "string list"

definition setJ :: "jdir \<Rightarrow> volume \<Rightarrow> volume" where
  "setJ j v = v\<lparr>vo_J := j, vo_JPast := vo_J v # vo_JPast v\<rparr>"

definition setT :: "string list \<Rightarrow> tree \<Rightarrow> volume \<Rightarrow> volume" where
  "setT dirs t v = v\<lparr>vo_T := t, vo_TPast := vo_T v # vo_TPast v, vo_Dirty := dirs @ vo_Dirty v\<rparr>"

text \<open>What a loss of power may leave of the two directories.\<close>

definition survivors :: "volume \<Rightarrow> (jdir \<times> tree) list" where
  "survivors v = List.product (vo_J v # vo_JPast v) (vo_T v # vo_TPast v)"

definition settled :: "jdir \<times> tree \<Rightarrow> volume" where
  "settled s = \<lparr>vo_J = fst s, vo_JPast = [], vo_T = snd s, vo_TPast = [], vo_Dirty = []\<rparr>"

section \<open>System calls\<close>

datatype fate = Works | Fails gerr | Dies

record machine =
  mc_Vol :: volume
  mc_Fates :: "fate list"
  mc_Dead :: bool

definition interrupted :: gerr where "interrupted = Native ''interrupted''"

definition call :: "(volume \<Rightarrow> volume \<times> 'a res) \<Rightarrow> (machine, 'a) proc" where
  "call f m =
     (if mc_Dead m then (m, Inl interrupted)
      else case mc_Fates m of
        [] \<Rightarrow> (case f (mc_Vol m) of (v, r) \<Rightarrow> (m\<lparr>mc_Vol := v\<rparr>, r))
      | x # xs \<Rightarrow>
          (let m' = m\<lparr>mc_Fates := xs\<rparr> in
           case x of
             Works \<Rightarrow> (case f (mc_Vol m) of (v, r) \<Rightarrow> (m'\<lparr>mc_Vol := v\<rparr>, r))
           | Fails e \<Rightarrow> (m', Inl e)
           | Dies \<Rightarrow> (m'\<lparr>mc_Dead := True\<rparr>, Inl interrupted)))"

text \<open>A call whose error the code drops, and two calls whose errors are joined.\<close>

definition ignoring :: "(machine, 'a) proc \<Rightarrow> (machine, unit) proc" where
  "ignoring p m = (fst (p m), Inr ())"

definition bothR :: "(machine, unit) proc \<Rightarrow> (machine, unit) proc \<Rightarrow> (machine, unit) proc" where
  "bothR p q m =
     (case p m of (m1, r1) \<Rightarrow> case q m1 of (m2, r2) \<Rightarrow>
        (m2, case joinErrs [errOf r1, errOf r2] of Some e \<Rightarrow> Inl e | None \<Rightarrow> Inr ()))"

text \<open>A call, then what is deferred.\<close>

definition finallyR :: "(machine, 'a) proc \<Rightarrow> (machine, unit) proc \<Rightarrow> (machine, 'a) proc" where
  "finallyR p q m = (case p m of (m1, r) \<Rightarrow> (fst (q m1), r))"

definition onError :: "(machine, 'a) proc \<Rightarrow> (machine, unit) proc \<Rightarrow> (machine, 'a) proc" where
  "onError p q m = (case p m of (m1, Inl e) \<Rightarrow> (fst (q m1), Inl e) | (m1, Inr x) \<Rightarrow> (m1, Inr x))"

definition notExist :: gerr where "notExist = Native ''not exist''"

definition lstat :: "string \<Rightarrow> (machine, entry option) proc" where
  "lstat name = call (\<lambda>v. (v, Inr (map_of (vo_T v) name)))"

definition renameEntry :: "string \<Rightarrow> string \<Rightarrow> (machine, unit) proc" where
  "renameEntry from to =
     call (\<lambda>v. if map_of (vo_T v) from = None then (v, Inl notExist)
               else (setT [dirOf from, dirOf to] (treeRename from to (vo_T v)) v, Inr ()))"

definition mkdirEntry :: "string \<Rightarrow> entry \<Rightarrow> (machine, unit) proc" where
  "mkdirEntry name e =
     call (\<lambda>v. if map_of (vo_T v) name \<noteq> None then (v, Inl (Native ''exists''))
               else (setT [dirOf name] ((name, e) # vo_T v) v, Inr ()))"

text \<open>\<open>RemoveAll\<close> removes one entry at a time, what is in a directory before the directory, and stops at an error.\<close>

fun removePaths :: "string \<Rightarrow> string list \<Rightarrow> (machine, unit) proc" where
  "removePaths name [] = returnR ()"
| "removePaths name (k # ks) =
     bindR (call (\<lambda>v. (setT [dirOf name] (treeRemove k (vo_T v)) v, Inr ()))) (\<lambda>_. removePaths name ks)"

definition removeTree :: "string \<Rightarrow> (machine, unit) proc" where
  "removeTree name =
     bindR (call (\<lambda>v. (v, Inr (rev (sort_key length (filter (\<lambda>k. within k name) (map fst (vo_T v))))))))
       (removePaths name)"

definition removeEntry :: "string \<Rightarrow> (machine, unit) proc" where
  "removeEntry name =
     call (\<lambda>v. if map_of (vo_T v) name = None then (v, Inl notExist)
               else if hasChildren name (vo_T v) then (v, Inl (Native ''not empty''))
               else (setT [dirOf name] (treeRemove name (vo_T v)) v, Inr ()))"

text \<open>\<open>syncArchiveRootDirectory\<close> of a directory below the parent, \<open>.\<close> the parent itself.\<close>

definition syncArchiveRootDirectory :: "string \<Rightarrow> (machine, unit) proc" where
  "syncArchiveRootDirectory name =
     call (\<lambda>v. if name \<noteq> ''.'' \<and> map_of (vo_T v) name = None then (v, Inl notExist)
               else let dirty = removeAll name (vo_Dirty v) in
                 (v\<lparr>vo_Dirty := dirty, vo_TPast := (if dirty = [] then [] else vo_TPast v)\<rparr>, Inr ()))"

text \<open>\<open>syncCopyArchiveDirectory\<close> of the journal directory, and the calls on its files.\<close>

definition syncJournals :: "(machine, unit) proc" where
  "syncJournals = call (\<lambda>v. (v\<lparr>vo_JPast := []\<rparr>, Inr ()))"

definition lstatJournal :: "string \<Rightarrow> (machine, (jfile \<times> nat) option) proc" where
  "lstatJournal name =
     call (\<lambda>v. (v, Inr (map_option (\<lambda>f. (f, links (vo_J v) f)) (map_of (vo_J v) name))))"

definition removeJournal :: "string \<Rightarrow> (machine, unit) proc" where
  "removeJournal name =
     call (\<lambda>v. if map_of (vo_J v) name = None then (v, Inl notExist)
               else (setJ (filter (\<lambda>(n, f). n \<noteq> name) (vo_J v)) v, Inr ()))"

definition createJournal :: "string \<Rightarrow> nat \<Rightarrow> (machine, unit) proc" where
  "createJournal name ident =
     call (\<lambda>v. if map_of (vo_J v) name \<noteq> None then (v, Inl (Native ''exists''))
               else (setJ ((name, \<lparr>jf_ID = ident, jf_Private = True, jf_Elsewhere = 0, jf_Data = []\<rparr>) # vo_J v) v, Inr ()))"

definition writeJournal :: "string \<Rightarrow> string \<Rightarrow> (machine, unit) proc" where
  "writeJournal name data =
     call (\<lambda>v. (setJ (map (\<lambda>(n, f). if n = name then (n, f\<lparr>jf_Data := data\<rparr>) else (n, f)) (vo_J v)) v, Inr ()))"

text \<open>A call that changes no name: opening, reading, syncing or closing a file.\<close>

definition plainCall :: "(machine, unit) proc" where "plainCall = call (\<lambda>v. (v, Inr ()))"

definition linkJournal :: "string \<Rightarrow> string \<Rightarrow> (machine, unit) proc" where
  "linkJournal name target =
     call (\<lambda>v. case map_of (vo_J v) name of
                 None \<Rightarrow> (v, Inl notExist)
               | Some f \<Rightarrow> if map_of (vo_J v) target \<noteq> None then (v, Inl (Native ''exists''))
                           else (setJ ((target, f) # vo_J v) v, Inr ()))"

section \<open>The decision record\<close>

record archiveJournal =
  aj_Version :: int
  aj_Target :: string
  aj_Parent :: string
  aj_Workspace :: string
  aj_WorkspaceID :: string
  aj_Decision :: string
  aj_New :: string
  aj_Old :: string
  aj_Marker :: string
  aj_Backup :: string

definition emptyJournal :: archiveJournal where
  "emptyJournal = \<lparr>aj_Version = 0, aj_Target = [], aj_Parent = [], aj_Workspace = [], aj_WorkspaceID = [], aj_Decision = [],
     aj_New = [], aj_Old = [], aj_Marker = [], aj_Backup = []\<rparr>"

definition omitempty :: "string \<Rightarrow> string \<Rightarrow> (string \<times> json) list" where
  "omitempty k s = (if s = [] then [] else [(k, JStr s)])"

definition journalJson :: "archiveJournal \<Rightarrow> json" where
  "journalJson r = JObj
     ([(''version'', JNum (Itoa (aj_Version r))), (''target'', JStr (aj_Target r)), (''parent'', JStr (aj_Parent r)),
       (''workspace'', JStr (aj_Workspace r)), (''workspaceID'', JStr (aj_WorkspaceID r)), (''decision'', JStr (aj_Decision r))]
      @ omitempty ''new'' (aj_New r) @ omitempty ''old'' (aj_Old r) @ omitempty ''marker'' (aj_Marker r) @ omitempty ''backup'' (aj_Backup r))"

definition journalText :: "archiveJournal \<Rightarrow> string" where
  "journalText r = jsonPrint (journalJson r)"

text \<open>A field of the record by the name that \<open>encoding/json\<close> folds: letters without case, with the two
  non-ASCII letters that fold to ASCII ones.\<close>

definition foldName :: "string \<Rightarrow> string" where
  "foldName k = concat (map (\<lambda>(r, bs). if r = 8490 then ''K'' else if r = 383 then ''S'' else map upper_char bs) (chunks k))"

definition setField :: "archiveJournal \<Rightarrow> string \<times> json \<Rightarrow> archiveJournal option" where
  "setField r kv =
     (case kv of (k, v) \<Rightarrow>
        let name = foldName k; text = (\<lambda>old upd. map_option upd (setString old (Some v))) in
        if name = ''VERSION'' then map_option (\<lambda>n. r\<lparr>aj_Version := n\<rparr>) (setInt (aj_Version r) (Some v))
        else if name = ''TARGET'' then text (aj_Target r) (\<lambda>s. r\<lparr>aj_Target := s\<rparr>)
        else if name = ''PARENT'' then text (aj_Parent r) (\<lambda>s. r\<lparr>aj_Parent := s\<rparr>)
        else if name = ''WORKSPACE'' then text (aj_Workspace r) (\<lambda>s. r\<lparr>aj_Workspace := s\<rparr>)
        else if name = ''WORKSPACEID'' then text (aj_WorkspaceID r) (\<lambda>s. r\<lparr>aj_WorkspaceID := s\<rparr>)
        else if name = ''DECISION'' then text (aj_Decision r) (\<lambda>s. r\<lparr>aj_Decision := s\<rparr>)
        else if name = ''NEW'' then text (aj_New r) (\<lambda>s. r\<lparr>aj_New := s\<rparr>)
        else if name = ''OLD'' then text (aj_Old r) (\<lambda>s. r\<lparr>aj_Old := s\<rparr>)
        else if name = ''MARKER'' then text (aj_Marker r) (\<lambda>s. r\<lparr>aj_Marker := s\<rparr>)
        else if name = ''BACKUP'' then text (aj_Backup r) (\<lambda>s. r\<lparr>aj_Backup := s\<rparr>)
        else None)"

fun setFields :: "archiveJournal \<Rightarrow> (string \<times> json) list \<Rightarrow> archiveJournal option" where
  "setFields r [] = Some r"
| "setFields r (m # ms) = (case setField r m of None \<Rightarrow> None | Some r' \<Rightarrow> setFields r' ms)"

text \<open>Invalid bytes are U+FFFD to the decoder.\<close>

definition toValidUTF8 :: "string \<Rightarrow> string" where
  "toValidUTF8 s = concat (map (\<lambda>(r, bs). if r = rune_error \<and> length bs = 1 then encode_rune rune_error else bs) (chunks s))"

definition decodeJournal :: "string \<Rightarrow> archiveJournal res" where
  "decodeJournal data =
     (let s = toValidUTF8 data; bad = Inl (Fail ''invalid copy recovery journal'') in
      case jvalue (Suc (length s)) s of
        None \<Rightarrow> bad
      | Some (v, rest) \<Rightarrow>
          (case (case v of JObj ms \<Rightarrow> setFields emptyJournal ms | JNull \<Rightarrow> Some emptyJournal | _ \<Rightarrow> None) of
             None \<Rightarrow> bad
           | Some r \<Rightarrow> if skipWs rest = [] then Inr r else Inl (Fail ''copy recovery journal has trailing data'')))"

definition archiveJournalLimit :: nat where "archiveJournalLimit = 16384"

section \<open>The journal context\<close>

record journalContext =
  jc_Target :: string
  jc_ParentID :: string
  jc_Journal :: string
  jc_FoldsCase :: bool
  jc_Darwin :: bool

definition baseOf :: "journalContext \<Rightarrow> string" where
  "baseOf c = pathBase (jc_Target c)"

text \<open>\<open>filepath.Rel\<close> of the payload to the parent, when it is local.\<close>

definition relativeTo :: "string \<Rightarrow> string \<Rightarrow> string option" where
  "relativeTo dir name =
     (if name = dir then Some ''.'' else if HasPrefix name (slashed dir) then Some (drop (length (slashed dir)) name) else None)"

definition archivePathWithin :: "bool \<Rightarrow> string \<Rightarrow> string \<Rightarrow> bool" where
  "archivePathWithin darwin name directory \<longleftrightarrow>
     (if darwin then within (ToLower name) (ToLower directory) else within name directory)"

definition matchesTarget :: "journalContext \<Rightarrow> string \<Rightarrow> bool" where
  "matchesTarget c recorded \<longleftrightarrow>
     recorded = jc_Target c
     \<or> (length recorded = length (jc_Target c)
        \<and> list_all2 (\<lambda>a b. a = b \<or> (code a < 128 \<and> code b < 128 \<and> lower_char a = lower_char b)) recorded (jc_Target c)
        \<and> jc_FoldsCase c)"

definition archiveEntryID :: "string \<Rightarrow> (machine, string) proc" where
  "archiveEntryID name = bindR (lstat name) (\<lambda>e. returnR (archiveIdentity e))"

definition validateWorkspace :: "archiveJournal \<Rightarrow> (machine, unit) proc" where
  "validateWorkspace r =
     bindR (requireR (HasPrefix (aj_Workspace r) ''.crabbox-cp-publish-'' \<and> pathBase (aj_Workspace r) = aj_Workspace r \<and> aj_WorkspaceID r \<noteq> [])
              (Fail ''copy recovery journal has an invalid workspace'')) (\<lambda>_.
     bindR (lstat (aj_Workspace r)) (\<lambda>info.
       case info of
         None \<Rightarrow> failR notExist
       | Some e \<Rightarrow> requireR (archivePrivateDirectory e \<and> archiveIdentity info = aj_WorkspaceID r)
                     (Fail ''copy recovery workspace identity changed; all data retained'')))"

definition pendingName :: "journalContext \<Rightarrow> archiveJournal \<Rightarrow> string" where
  "pendingName c r = ''.'' @ jc_Journal c @ ''-'' @ aj_Workspace r @ ''.pending''"

text \<open>\<open>finishPending\<close> on the opened file \<open>f\<close>; the stat results after a call that fails are errors.\<close>

definition sameName :: "jfile \<Rightarrow> (jfile \<times> nat) option \<Rightarrow> bool" where
  "sameName f named \<longleftrightarrow> (case named of Some (g, _) \<Rightarrow> jf_ID g = jf_ID f \<and> jf_Private g | None \<Rightarrow> False)"

definition linkCount :: "(jfile \<times> nat) option \<Rightarrow> nat" where
  "linkCount named = (case named of Some (_, n) \<Rightarrow> n | None \<Rightarrow> 0)"

definition finishPending :: "journalContext \<Rightarrow> archiveJournal \<Rightarrow> jfile \<Rightarrow> (machine, unit) proc" where
  "finishPending c r f =
     bindR (call (\<lambda>v. (v, Inr (links (vo_J v) f)))) (\<lambda>n.
     bindR (lstatJournal (jc_Journal c)) (\<lambda>named.
     bindR (requireR (named \<noteq> None) notExist) (\<lambda>_.
     bindR (requireR (jf_Private f \<and> sameName f named \<and> (n = 1 \<or> n = 2)) (Fail ''copy recovery journal is not a private singly linked file'')) (\<lambda>_.
     bindR (if n = 2 then
              bindR (lstatJournal (pendingName c r)) (\<lambda>other.
              bindR (requireR (other \<noteq> None) notExist) (\<lambda>_.
              bindR (requireR (sameName f other \<and> linkCount other = 2) (Fail ''copy recovery journal has an unrelated hard link'')) (\<lambda>_.
              bindR (removeJournal (pendingName c r)) (\<lambda>_. syncJournals))))
            else returnR ()) (\<lambda>_.
     bindR (call (\<lambda>v. (v, Inr (links (vo_J v) f)))) (\<lambda>n2.
     bindR (lstatJournal (jc_Journal c)) (\<lambda>named2.
     bindR (requireR (named2 \<noteq> None) notExist) (\<lambda>_.
     requireR (jf_Private f \<and> sameName f named2 \<and> n2 = 1 \<and> linkCount named2 = 1)
       (Fail ''copy recovery journal changed while finishing publication'')))))))))"

definition readJournal :: "journalContext \<Rightarrow> (machine, archiveJournal option) proc" where
  "readJournal c =
     bindR (lstatJournal (jc_Journal c)) (\<lambda>info.
       case info of
         None \<Rightarrow> returnR None
       | Some (f, n) \<Rightarrow>
           bindR (requireR (jf_Private f \<and> (n = 1 \<or> n = 2)) (Fail ''copy recovery journal is not a private regular file'')) (\<lambda>_.
           bindR plainCall (\<lambda>_.
           bindR plainCall (\<lambda>_.
           bindR plainCall (\<lambda>_.
           bindR (requireR (length (jf_Data f) \<le> archiveJournalLimit) (Fail ''copy recovery journal exceeds size limit'')) (\<lambda>_.
           case decodeJournal (jf_Data f) of
             Inl e \<Rightarrow> failR e
           | Inr r \<Rightarrow>
               bindR (requireR (aj_Version r = 2 \<and> aj_Parent r = jc_ParentID c \<and> matchesTarget c (aj_Target r))
                        (Fail ''copy recovery journal does not match destination and physical parent'')) (\<lambda>_.
               bindR (requireR (aj_Decision r = ''publish'' \<or> aj_Decision r = ArchiveKeepDestination \<or> aj_Decision r = ArchiveRestoreBackup)
                        (Fail ''copy recovery journal has no recognized decision'')) (\<lambda>_.
               bindR (requireR (\<not> (aj_Decision r = ''publish'' \<and> (aj_New r = [] \<or> aj_Marker r \<noteq> [] \<or> aj_Backup r \<noteq> [])))
                        (Fail ''copy recovery journal has invalid publication identities'')) (\<lambda>_.
               bindR (validateWorkspace r) (\<lambda>_.
               bindR (finishPending c r f) (\<lambda>_.
               returnR (Some r))))))))))))"

section \<open>Writing the decision\<close>

text \<open>\<open>linkDecision\<close>: the contents are made durable under the pending name, then linked to the journal's
  name, which must not exist.\<close>

definition linkDecision :: "journalContext \<Rightarrow> nat \<Rightarrow> archiveJournal \<Rightarrow> (machine, string) proc" where
  "linkDecision c ident r =
     bindR (validateWorkspace r) (\<lambda>_.
     bindR (requireR (length (journalText r) \<le> archiveJournalLimit) (Fail ''copy recovery journal exceeds size limit'')) (\<lambda>_.
     let temporary = pendingName c r in
     bindR (createJournal temporary ident) (\<lambda>_.
     onError
       (bindR (bothR (writeJournal temporary (journalText r)) (bothR plainCall plainCall)) (\<lambda>_.
        bindR (linkJournal temporary (jc_Journal c)) (\<lambda>_. returnR temporary)))
       (ignoring (removeJournal temporary)))))"

definition writeDecision :: "journalContext \<Rightarrow> nat \<Rightarrow> archiveJournal \<Rightarrow> (machine, unit) proc" where
  "writeDecision c ident r =
     bindR (linkDecision c ident r) (\<lambda>temporary.
     finallyR (bindR (removeJournal temporary) (\<lambda>_. syncJournals)) (ignoring (removeJournal temporary)))"

text \<open>\<open>workspace\<close>: a private directory with a random name beside the destination.\<close>

definition makeWorkspace :: "journalContext \<Rightarrow> string res \<Rightarrow> entry \<Rightarrow> (machine, archiveJournal) proc" where
  "makeWorkspace c token made =
     bindR (\<lambda>m. (m, token)) (\<lambda>hex.
     let name = ''.crabbox-cp-publish-'' @ hex in
     bindR (mkdirEntry name made) (\<lambda>_.
     bindR (lstat name) (\<lambda>info.
       case info of
         None \<Rightarrow> failR notExist
       | Some e \<Rightarrow>
           bindR (requireR (archivePrivateDirectory e) (Fail ''copy publication workspace is not private'')) (\<lambda>_.
           bindR (syncArchiveRootDirectory ''.'') (\<lambda>_.
           returnR (emptyJournal\<lparr>aj_Version := 2, aj_Target := jc_Target c, aj_Parent := jc_ParentID c, aj_Workspace := name,
                      aj_WorkspaceID := archiveIdentity info\<rparr>))))))"

section \<open>Carrying out a decision\<close>

definition syncRecord :: "archiveJournal \<Rightarrow> (machine, unit) proc" where
  "syncRecord r = bothR (syncArchiveRootDirectory (aj_Workspace r)) (syncArchiveRootDirectory ''.'')"

definition moveEntry :: "string \<Rightarrow> string \<Rightarrow> string \<Rightarrow> (machine, unit) proc" where
  "moveEntry from to identity =
     (if identity = [] then returnR ()
      else
        bindR (archiveEntryID from) (\<lambda>source.
        bindR (archiveEntryID to) (\<lambda>destination.
        if source = [] \<and> destination = identity then returnR ()
        else bindR (requireR (source = identity \<and> destination = []) (Fail ''copy recovery needs inspection: entries changed; all data retained'')) (\<lambda>_.
             renameEntry from to))))"

definition replaceEntry :: "archiveJournal \<Rightarrow> string \<Rightarrow> string \<Rightarrow> string \<Rightarrow> (machine, unit) proc" where
  "replaceEntry r source saved replacement =
     bindR (archiveEntryID source) (\<lambda>pending.
     bindR (if pending \<noteq> [] then
              bindR (requireR (pending = replacement) (Fail ''copy replacement identity changed; all data retained'')) (\<lambda>_.
              bindR (moveEntry (pathBase (aj_Target r)) saved (aj_Old r)) (\<lambda>_.
              syncRecord r))
            else returnR ()) (\<lambda>_.
     moveEntry source (pathBase (aj_Target r)) replacement))"

definition backupName :: "string \<Rightarrow> string" where "backupName base = base @ ''.crabbox-cp-backup''"
definition markerName :: "string \<Rightarrow> string" where "markerName base = base @ ''.crabbox-cp-transaction''"

text \<open>The moves of a decision.\<close>

definition decide :: "archiveJournal \<Rightarrow> (machine, unit) proc" where
  "decide r =
     (let target = pathBase (aj_Target r); ws = aj_Workspace r in
      bindR (if aj_Decision r = ''publish'' then replaceEntry r (inDir ws ''new'') (inDir ws ''old'') (aj_New r)
             else if aj_Decision r = ArchiveKeepDestination then
               bindR (archiveEntryID target) (\<lambda>current.
               bindR (requireR (current = aj_Old r) (Fail ''adopted copy destination changed; all data retained'')) (\<lambda>_.
               moveEntry (backupName target) (inDir ws ''legacy-backup'') (aj_Backup r)))
             else if aj_Decision r = ArchiveRestoreBackup then
               replaceEntry r (backupName target) (inDir ws ''legacy-destination'') (aj_Backup r)
             else returnR ()) (\<lambda>_.
      if aj_Decision r \<noteq> ''publish'' then moveEntry (markerName target) (inDir ws ''legacy-marker'') (aj_Marker r) else returnR ()))"

text \<open>The replaced tree is removed once the published name is durable.\<close>

definition pruneOld :: "archiveJournal \<Rightarrow> (machine, unit) proc" where
  "pruneOld r =
     (if aj_Decision r = ''publish'' \<and> aj_Old r \<noteq> [] then
        let old = inDir (aj_Workspace r) ''old'' in
        bindR (archiveEntryID old) (\<lambda>identity.
        bindR (requireR (identity = [] \<or> identity = aj_Old r) (Fail ''replaced copy destination changed; all data retained'')) (\<lambda>_.
        bindR (if identity \<noteq> [] then removeTree old else returnR ()) (\<lambda>_.
        syncRecord r)))
      else returnR ())"

definition recoverArchive :: "journalContext \<Rightarrow> archiveJournal \<Rightarrow> (machine, unit) proc" where
  "recoverArchive c r =
     bindR syncJournals (\<lambda>_.
     bindR (validateWorkspace r) (\<lambda>_.
     bindR (decide r) (\<lambda>_.
     bindR (syncRecord r) (\<lambda>_.
     bindR (pruneOld r) (\<lambda>_.
     bindR (removeJournal (jc_Journal c)) (\<lambda>_.
     bindR syncJournals (\<lambda>_.
     if aj_Decision r = ''publish'' then ignoring (removeEntry (aj_Workspace r)) else returnR ())))))))"

text \<open>What a publication does first: it finishes the decision of an earlier one.\<close>

definition recoverPrevious :: "journalContext \<Rightarrow> (machine, unit) proc" where
  "recoverPrevious c =
     bindR (readJournal c) (\<lambda>previous.
       case previous of None \<Rightarrow> returnR () | Some r \<Rightarrow> recoverArchive c r)"

section \<open>Publication and adoption\<close>

record publication =
  pb_Context :: "journalContext res"
  pb_Lock :: "gerr option"
  pb_Physical :: "string res"
  pb_Outside :: "entry res"
  pb_Token :: "string res"
  pb_Made :: entry
  pb_File :: nat

definition requireLegacyArchiveAdoption :: "journalContext \<Rightarrow> (machine, unit) proc" where
  "requireLegacyArchiveAdoption c =
     (let missing = (\<lambda>name. bindR (lstat name) (\<lambda>e. requireR (e = None) (Fail ''explicit recovery is required''))) in
      bindR (missing (backupName (baseOf c))) (\<lambda>_. missing (markerName (baseOf c))))"

text \<open>\<open>os.Lstat\<close> of the payload, which lies below the parent or elsewhere.\<close>

definition lstatPayload :: "publication \<Rightarrow> journalContext \<Rightarrow> (machine, entry) proc" where
  "lstatPayload pub c =
     (case (case pb_Physical pub of Inr p \<Rightarrow> relativeTo (dirOf (jc_Target c)) p | Inl _ \<Rightarrow> None) of
        Some rel \<Rightarrow> bindR (lstat rel) (\<lambda>e. case e of None \<Rightarrow> failR notExist | Some x \<Rightarrow> returnR x)
      | None \<Rightarrow> call (\<lambda>v. (v, pb_Outside pub)))"

definition retainedIn :: "gerr \<Rightarrow> gerr" where "retainedIn e = Joined (Fail ''copy payload retained'') e"

definition wrapError :: "(machine, 'a) proc \<Rightarrow> (machine, 'a) proc" where
  "wrapError p m = (case p m of (m', Inl e) \<Rightarrow> (m', Inl (retainedIn e)) | (m', Inr x) \<Rightarrow> (m', Inr x))"

text \<open>From the record of the decision on: the payload becomes the workspace's own, the decision is
  written and carried out.\<close>

definition publishRecord :: "publication \<Rightarrow> journalContext \<Rightarrow> archiveJournal \<Rightarrow> (machine, unit) proc" where
  "publishRecord pub c r =
     bindR (\<lambda>m. (m, pb_Physical pub)) (\<lambda>physical.
       case relativeTo (dirOf (jc_Target c)) physical of
         None \<Rightarrow> failR (Fail ''copy publication payload must be staged separately beneath the destination parent'')
       | Some rel \<Rightarrow>
           bindR (requireR (rel \<noteq> baseOf c \<and> \<not> archivePathWithin (jc_Darwin c) (jc_Target c) physical)
                    (Fail ''copy publication payload must be staged separately beneath the destination parent'')) (\<lambda>_.
           bindR (renameEntry rel (inDir (aj_Workspace r) ''new'')) (\<lambda>_.
           bindR (wrapError (syncArchiveRootDirectory (dirOf rel))) (\<lambda>_.
           bindR (wrapError (syncRecord r)) (\<lambda>_.
           bindR (wrapError (writeDecision c (pb_File pub) r)) (\<lambda>_.
           recoverArchive c r))))))"

definition publishFresh :: "publication \<Rightarrow> journalContext \<Rightarrow> (machine, unit) proc" where
  "publishFresh pub c =
     bindR (requireLegacyArchiveAdoption c) (\<lambda>_.
     bindR (lstat (baseOf c)) (\<lambda>old.
     bindR (requireR (\<not> (case old of Some e \<Rightarrow> en_Kind e = Symlink | None \<Rightarrow> False)) (Fail ''archive copy refuses a symlink target'')) (\<lambda>_.
     bindR (lstatPayload pub c) (\<lambda>fresh.
     bindR (requireR (en_Kind fresh = Directory \<or> en_Kind fresh = Regular) (Fail ''copy payload is not a file or directory'')) (\<lambda>_.
     bindR (makeWorkspace c (pb_Token pub) (pb_Made pub)) (\<lambda>r.
     publishRecord pub c (r\<lparr>aj_Decision := ''publish'', aj_New := archiveIdentity (Some fresh), aj_Old := archiveIdentity old\<rparr>)))))))"

definition publishJournaledArchive :: "publication \<Rightarrow> (machine, unit) proc" where
  "publishJournaledArchive pub =
     bindR (\<lambda>m. (m, pb_Context pub)) (\<lambda>c.
     bindR (checkR (pb_Lock pub)) (\<lambda>_.
     bindR (recoverPrevious c) (\<lambda>_. publishFresh pub c)))"

text \<open>\<open>AdoptArchiveRecovery\<close>: an early error comes without a directory, a later one with the directory that
  retains the unselected entries.\<close>

definition withDirectory :: "string \<Rightarrow> (machine, unit) proc \<Rightarrow> (machine, string \<times> gerr option) proc" where
  "withDirectory d p m = (case p m of (m', r) \<Rightarrow> (m', Inr (d, errOf r)))"

definition AdoptArchiveRecovery :: "publication \<Rightarrow> string \<Rightarrow> (machine, string \<times> gerr option) proc" where
  "AdoptArchiveRecovery pub choice =
     bindR (requireR (choice = ArchiveKeepDestination \<or> choice = ArchiveRestoreBackup) (Fail ''choose keep-destination or restore-backup'')) (\<lambda>_.
     bindR (\<lambda>m. (m, pb_Context pub)) (\<lambda>c.
     bindR (checkR (pb_Lock pub)) (\<lambda>_.
     bindR (readJournal c) (\<lambda>existing.
     let retained = (\<lambda>r. slashed (dirOf (jc_Target c)) @ aj_Workspace r) in
     case existing of
       Some r \<Rightarrow>
         bindR (requireR (aj_Decision r = choice) (Fail ''destination already has a different durable recovery decision'')) (\<lambda>_.
         withDirectory (retained r) (recoverArchive c r))
     | None \<Rightarrow>
         bindR (archiveEntryID (baseOf c)) (\<lambda>old.
         bindR (archiveEntryID (backupName (baseOf c))) (\<lambda>backup.
         bindR (archiveEntryID (markerName (baseOf c))) (\<lambda>marker.
         bindR (requireR (\<not> (backup = [] \<and> marker = [])) (Fail ''destination has no legacy recovery data to adopt'')) (\<lambda>_.
         bindR (requireR (\<not> (choice = ArchiveRestoreBackup \<and> backup = [])) (Fail ''destination has no legacy backup to restore'')) (\<lambda>_.
         bindR (makeWorkspace c (pb_Token pub) (pb_Made pub)) (\<lambda>r0.
         let r = r0\<lparr>aj_Decision := choice, aj_Old := old, aj_Backup := backup, aj_Marker := marker\<rparr> in
         withDirectory (retained r) (bindR (writeDecision c (pb_File pub) r) (\<lambda>_. recoverArchive c r))))))))))))"

end
