(* ===== verification/ArchiveLogic.thy ===== *)
theory ArchiveLogic
  imports ArchiveJournal
begin

text \<open>
  Reasoning about the calls of \<open>ArchiveJournal\<close>: what is below a path, and triples over procedures
  whose calls may fail or end the process.
\<close>

section \<open>Paths\<close>

definition suffixPart :: "string \<Rightarrow> bool" where
  "suffixPart s \<longleftrightarrow> s = [] \<or> hd s = CHR ''/''"

lemma suffixPart_simps [simp]: "suffixPart []" "suffixPart (c # s) \<longleftrightarrow> c = CHR ''/''"
  by (simp_all add: suffixPart_def)

lemma suffixPart_append: "suffixPart s \<Longrightarrow> suffixPart u \<Longrightarrow> suffixPart (s @ u)"
  by (cases s) auto

lemma within_iff: "p \<noteq> ''/'' \<Longrightarrow> within k p \<longleftrightarrow> (\<exists>s. k = p @ s \<and> suffixPart s)"
proof -
  assume p: "p \<noteq> ''/''"
  have "HasPrefix k (p @ ''/'') \<longleftrightarrow> (\<exists>u. k = p @ CHR ''/'' # u)"
    by (auto simp: HasPrefix_def) (metis append_Cons append_Nil append_assoc append_take_drop_id length_append)
  moreover have "(\<exists>s. k = p @ s \<and> suffixPart s) \<longleftrightarrow> k = p \<or> (\<exists>u. k = p @ CHR ''/'' # u)"
    by (auto simp: suffixPart_def) (metis list.collapse)
  ultimately show ?thesis using p by (simp add: within_def slashed_def)
qed

lemma within_refl [simp]: "within p p"
  by (simp add: within_def)

definition apart :: "string \<Rightarrow> string \<Rightarrow> bool" where
  "apart p q \<longleftrightarrow> p \<noteq> ''/'' \<and> q \<noteq> ''/'' \<and> \<not> within p q \<and> \<not> within q p"

lemma apart_sym: "apart p q \<Longrightarrow> apart q p"
  by (simp add: apart_def)

lemma apart_paths: "apart p q \<Longrightarrow> suffixPart s \<Longrightarrow> suffixPart u \<Longrightarrow> p @ s \<noteq> q @ u"
proof
  assume a: "apart p q" "suffixPart s" "suffixPart u" and e: "p @ s = q @ u"
  from e obtain w where "p = q @ w \<and> w @ s = u \<or> p @ w = q \<and> s = w @ u"
    by (auto simp: append_eq_append_conv2)
  then have "suffixPart w" using a by (cases w) (auto simp: suffixPart_def)
  then show False using \<open>p = q @ w \<and> w @ s = u \<or> p @ w = q \<and> s = w @ u\<close> a(1) by (auto simp: apart_def within_iff)
qed

lemma apart_inside:
  assumes "apart q p" "within k p" "k \<noteq> ''/''"
  shows "apart q k"
proof -
  obtain u where u: "k = p @ u" "suffixPart u" using assms(1,2) by (auto simp: apart_def within_iff)
  have "\<not> within q k" using apart_paths [OF assms(1), of "[]"] suffixPart_append [OF u(2)] assms(3) by (auto simp: u(1) within_iff)
  moreover have "\<not> within k q" 
  proof
    assume "within k q"
    then obtain s where "p @ u = q @ s" "suffixPart s" using assms(1) by (auto simp: u(1) apart_def within_iff)
    then show False using apart_paths [OF assms(1) _ u(2), of s] by simp
  qed
  ultimately show ?thesis using assms(1,3) by (simp add: apart_def)
qed

definition plainName :: "string \<Rightarrow> bool" where
  "plainName n \<longleftrightarrow> n \<noteq> [] \<and> CHR ''/'' \<notin> set n"

lemma plainName_slash: "plainName n \<Longrightarrow> n \<noteq> ''/''"
  by (auto simp: plainName_def)

lemma suffixPart_cases: "suffixPart s \<Longrightarrow> s = [] \<or> (\<exists>u. s = CHR ''/'' # u)"
  by (cases s) auto

lemma within_name: "plainName a \<Longrightarrow> p \<noteq> ''/'' \<Longrightarrow> within a p \<Longrightarrow> a = p"
  using suffixPart_cases by (fastforce simp: within_iff plainName_def)

lemma apart_names: "plainName a \<Longrightarrow> plainName b \<Longrightarrow> a \<noteq> b \<Longrightarrow> apart a b"
  unfolding apart_def using within_name plainName_slash by metis

lemma name_slash_unique: "plainName a \<Longrightarrow> plainName b \<Longrightarrow> a @ CHR ''/'' # s = b @ CHR ''/'' # u \<Longrightarrow> a = b"
proof -
  have t: "takeWhile (\<lambda>c. c \<noteq> CHR ''/'') (x @ CHR ''/'' # w) = x" if "plainName x" for x w
    using that by (subst takeWhile_append2) (auto simp: plainName_def)
  assume "plainName a" "plainName b" "a @ CHR ''/'' # s = b @ CHR ''/'' # u"
  then show ?thesis using t by metis
qed

lemma inDir_slash: "d \<noteq> [] \<Longrightarrow> inDir d n \<noteq> ''/''"
  by (cases d) (auto simp: inDir_def)

lemma within_inDir: "d \<noteq> [] \<Longrightarrow> within p (inDir d n) \<Longrightarrow> d \<noteq> ''/'' \<Longrightarrow> within p d"
  using within_iff [OF inDir_slash, of d p n] within_iff [of d p] by (auto simp: inDir_def)

lemma apart_inDir:
  assumes "apart p d" "plainName d" "plainName n"
  shows "apart p (inDir d n)"
proof -
  have d: "d \<noteq> []" "d \<noteq> ''/''" using assms(2) by (auto simp: plainName_def)
  have "\<not> within (inDir d n) p"
  proof
    assume "within (inDir d n) p"
    then obtain s where s: "d @ CHR ''/'' # n = p @ s" "suffixPart s" using assms(1) by (auto simp: within_iff apart_def inDir_def)
    then consider "d = p" | w where "p = d @ CHR ''/'' # w" | w where "d = p @ w" "w \<noteq> []" "s = w @ CHR ''/'' # n"
      by (fastforce simp: append_eq_append_conv2 Cons_eq_append_conv)
    then show False
    proof cases
      case 1 then show ?thesis using assms(1) by (simp add: apart_def)
    next
      case (2 w) then show ?thesis using assms(1) d by (auto simp: apart_def within_iff)
    next
      case (3 w)
      then have "suffixPart w" using s(2) by (cases w) auto
      then show ?thesis using assms(1) 3 by (auto simp: apart_def within_iff)
    qed
  qed
  then show ?thesis using assms(1) d within_inDir [of d p n] inDir_slash [OF d(1)] by (auto simp: apart_def)
qed

lemma apart_siblings:
  assumes "plainName d" "plainName a" "plainName b" "a \<noteq> b"
  shows "apart (inDir d a) (inDir d b)"
proof -
  have d: "d \<noteq> []" "d \<noteq> ''/''" using assms(1) by (auto simp: plainName_def)
  have w: "within (inDir d x) (inDir d y) \<Longrightarrow> plainName x \<Longrightarrow> plainName y \<Longrightarrow> x = y" for x y
    using within_iff [OF inDir_slash [OF d(1)], of "inDir d x" y] by (auto simp: plainName_def inDir_def dest!: suffixPart_cases)
  then show ?thesis using assms inDir_slash [OF d(1)] by (metis apart_def)
qed

section \<open>Trees\<close>

text \<open>What is below a path: the path itself at the empty suffix.\<close>

definition below :: "tree \<Rightarrow> string \<Rightarrow> string \<Rightarrow> entry option" where
  "below t p s = (if suffixPart s then map_of t (p @ s) else None)"

abbreviation nothing :: "string \<Rightarrow> entry option" where
  "nothing \<equiv> \<lambda>_. None"

lemma below_Nil [simp]: "below t p [] = map_of t p"
  by (simp add: below_def)

lemma map_of_treeRemove: "map_of (treeRemove p t) k = (if within k p then None else map_of t k)"
  by (induction t) (auto simp: treeRemove_def)

lemma map_of_moved:
  assumes "apart from to" "\<forall>(k, e) \<in> set t. \<not> within k to"
  shows "map_of (map (\<lambda>(k, e). if within k from then (to @ drop (length from) k, e) else (k, e)) t) k
    = (if within k to then map_of t (from @ drop (length to) k) else if within k from then None else map_of t k)"
  using assms(2)
proof (induction t)
  case (Cons x t)
  obtain k' e where x: "x = (k', e)" by (cases x)
  have n: "\<not> within k' to" using Cons.prems x by simp
  have f: "from \<noteq> ''/''" "to \<noteq> ''/''" using assms(1) by (auto simp: apart_def)
  show ?case
  proof (cases "within k' from")
    case True
    then obtain s where s: "k' = from @ s" "suffixPart s" using f by (auto simp: within_iff)
    have "k = to @ s \<longleftrightarrow> within k to \<and> from @ drop (length to) k = k'" using s f by (auto simp: within_iff)
    moreover have "k = k' \<Longrightarrow> \<not> within k to \<and> within k from" using n True by simp
    ultimately show ?thesis using Cons x s True by auto
  next
    case False
    have "within k to \<Longrightarrow> from @ drop (length to) k \<noteq> k'" using False f by (auto simp: within_iff)
    then show ?thesis using Cons x False n by auto
  qed
qed simp

lemma map_of_treeRename:
  assumes "apart from to"
  shows "map_of (treeRename from to t) k
    = (if within k to then map_of t (from @ drop (length to) k) else if within k from then None else map_of t k)"
proof -
  have "\<forall>(k, e) \<in> set (treeRemove to t). \<not> within k to" by (auto simp: treeRemove_def)
  note m = map_of_moved [OF assms this, of k]
  have "within k to \<Longrightarrow> \<not> within (from @ drop (length to) k) to"
  proof
    assume "within k to" "within (from @ drop (length to) k) to"
    then obtain s u where "k = to @ s" "suffixPart s" "from @ s = to @ u" "suffixPart u" using assms by (auto simp: within_iff apart_def)
    then show False using apart_paths [OF assms] by blast
  qed
  then show ?thesis using m by (simp add: treeRename_def map_of_treeRemove)
qed

lemma below_treeRename:
  assumes "apart from to"
  shows "below (treeRename from to t) to = below t from" "below (treeRename from to t) from = nothing"
    and "apart p from \<Longrightarrow> apart p to \<Longrightarrow> below (treeRename from to t) p = below t p"
proof -
  have f: "from \<noteq> ''/''" "to \<noteq> ''/''" using assms by (auto simp: apart_def)
  show "below (treeRename from to t) to = below t from"
    using f by (auto simp: below_def map_of_treeRename [OF assms] within_iff)
  show "below (treeRename from to t) from = nothing"
  proof
    fix s
    show "below (treeRename from to t) from s = None"
      using f apart_paths [OF assms, of s] by (cases "suffixPart s") (auto simp: below_def map_of_treeRename [OF assms] within_iff)
  qed
  show "below (treeRename from to t) p = below t p" if "apart p from" "apart p to"
  proof
    fix s
    show "below (treeRename from to t) p s = below t p s"
      using f apart_paths [OF that(1), of s] apart_paths [OF that(2), of s]
      by (cases "suffixPart s") (auto simp: below_def map_of_treeRename [OF assms] within_iff)
  qed
qed

lemma below_treeRemove:
  assumes "p \<noteq> ''/''"
  shows "below (treeRemove p t) p = nothing" "apart q p \<Longrightarrow> below (treeRemove p t) q = below t q"
proof -
  show "below (treeRemove p t) p = nothing"
    using assms by (auto simp: below_def map_of_treeRemove within_iff)
  show "below (treeRemove p t) q = below t q" if "apart q p"
  proof
    fix s
    show "below (treeRemove p t) q s = below t q s"
      using assms apart_paths [OF that, of s] by (cases "suffixPart s") (auto simp: below_def map_of_treeRemove within_iff)
  qed
qed

lemma below_Cons: "apart p n \<Longrightarrow> below ((n, e) # t) p = below t p"
  using apart_paths [of p n _ "[]"] by (auto simp: below_def)

lemma identity_Nil [simp]: "archiveIdentity e = [] \<longleftrightarrow> e = None" "archiveIdentity None = []"
  by (auto simp: archiveIdentity_def split: option.splits)

section \<open>Triples\<close>

text \<open>No call of this machine will fail.\<close>

definition clean :: "machine \<Rightarrow> bool" where
  "clean m \<longleftrightarrow> mc_Fates m = [] \<and> \<not> mc_Dead m"

text \<open>From a volume with \<open>P\<close>, the procedure ends with \<open>Q\<close> or with an error and \<open>E\<close>; a \<open>sure\<close> one gives no
  error on a clean machine.\<close>

definition stage :: "bool \<Rightarrow> (volume \<Rightarrow> bool) \<Rightarrow> (machine, 'a) proc \<Rightarrow> ('a \<Rightarrow> volume \<Rightarrow> bool) \<Rightarrow> (volume \<Rightarrow> bool) \<Rightarrow> bool" where
  "stage sure P p Q E \<longleftrightarrow> (\<forall>m. P (mc_Vol m) \<longrightarrow>
     (case p m of
        (m', Inr x) \<Rightarrow> Q x (mc_Vol m') \<and> (clean m \<longrightarrow> clean m')
      | (m', Inl e) \<Rightarrow> E (mc_Vol m') \<and> (sure \<longrightarrow> \<not> clean m)))"

lemma stageI:
  assumes "\<And>m m' x. P (mc_Vol m) \<Longrightarrow> p m = (m', Inr x) \<Longrightarrow> Q x (mc_Vol m') \<and> (clean m \<longrightarrow> clean m')"
    and "\<And>m m' e. P (mc_Vol m) \<Longrightarrow> p m = (m', Inl e) \<Longrightarrow> E (mc_Vol m') \<and> (sure \<longrightarrow> \<not> clean m)"
  shows "stage sure P p Q E"
  unfolding stage_def using assms by (auto split: prod.split sum.split)

lemma stage_Inr: "stage sure P p Q E \<Longrightarrow> p m = (m', Inr x) \<Longrightarrow> P (mc_Vol m) \<Longrightarrow> Q x (mc_Vol m') \<and> (clean m \<longrightarrow> clean m')"
  unfolding stage_def by fastforce

lemma stage_Inl: "stage sure P p Q E \<Longrightarrow> p m = (m', Inl e) \<Longrightarrow> P (mc_Vol m) \<Longrightarrow> E (mc_Vol m') \<and> (sure \<longrightarrow> \<not> clean m)"
  unfolding stage_def by fastforce

lemma stage_conseq:
  assumes "stage sure P p Q E" "\<And>v. P' v \<Longrightarrow> P v" "\<And>x v. Q x v \<Longrightarrow> Q' x v" "\<And>v. E v \<Longrightarrow> E' v" "sure' \<longrightarrow> sure"
  shows "stage sure' P' p Q' E'"
  using assms unfolding stage_def by (fastforce split: prod.splits sum.splits)

lemma stage_pre: "stage sure P p Q E \<Longrightarrow> (\<And>v. P' v \<Longrightarrow> P v) \<Longrightarrow> stage sure P' p Q E"
  by (erule stage_conseq) auto

lemma stage_bind:
  assumes "stage sure P p Q E" "\<And>x. stage sure (Q x) (f x) R E"
  shows "stage sure P (bindR p f) R E"
proof (rule stageI)
  fix m m' x assume m: "P (mc_Vol m)" "bindR p f m = (m', Inr x)"
  then obtain m1 y where y: "p m = (m1, Inr y)" "f y m1 = (m', Inr x)" by (auto simp: bindR_Inr)
  then show "R x (mc_Vol m') \<and> (clean m \<longrightarrow> clean m')"
    using stage_Inr [OF assms(1) y(1) m(1)] stage_Inr [OF assms(2) y(2)] by blast
next
  fix m m' e assume m: "P (mc_Vol m)" "bindR p f m = (m', Inl e)"
  from m(2) show "E (mc_Vol m') \<and> (sure \<longrightarrow> \<not> clean m)"
  proof (cases rule: bindR_cases)
    case (first e')
    then show ?thesis using stage_Inl [OF assms(1) first(1) m(1)] by simp
  next
    case (both m1 y)
    then show ?thesis using stage_Inr [OF assms(1) both(1) m(1)] stage_Inl [OF assms(2) both(2)] by blast
  qed
qed

lemma stage_return: "(\<And>v. P v \<Longrightarrow> Q x v) \<Longrightarrow> stage sure P (returnR x) Q E"
  by (simp add: stage_def returnR_def)

lemma stage_fail: "(\<And>v. P v \<Longrightarrow> E v) \<Longrightarrow> \<not> sure \<Longrightarrow> stage sure P (failR e) Q E"
  by (simp add: stage_def failR_def)

lemma stage_require:
  assumes "\<And>v. P v \<Longrightarrow> E v" "\<And>v. P v \<Longrightarrow> sure \<Longrightarrow> b"
  shows "stage sure P (requireR b e) (\<lambda>_ v. P v \<and> b) E"
  using assms by (auto simp: stage_def requireR_def)

lemma stage_check: "(\<And>v. P v \<Longrightarrow> E v) \<Longrightarrow> (sure \<Longrightarrow> x = None) \<Longrightarrow> stage sure P (checkR x) (\<lambda>_. P) E"
  by (auto simp: stage_def checkR_def split: option.splits)

lemma stage_if: "(b \<Longrightarrow> stage sure P p Q E) \<Longrightarrow> (\<not> b \<Longrightarrow> stage sure P q Q E) \<Longrightarrow> stage sure P (if b then p else q) Q E"
  by simp

lemma stage_call:
  assumes "\<And>v. P v \<Longrightarrow> E v" "\<And>v v' x. P v \<Longrightarrow> f v = (v', Inr x) \<Longrightarrow> Q x v'"
    and "\<And>v v' e. P v \<Longrightarrow> f v = (v', Inl e) \<Longrightarrow> E v' \<and> \<not> sure"
  shows "stage sure P (call f) Q E"
proof (rule stageI)
  fix m m' x assume "P (mc_Vol m)" "call f m = (m', Inr x)"
  then show "Q x (mc_Vol m') \<and> (clean m \<longrightarrow> clean m')"
    using assms(2) by (auto simp: call_def Let_def clean_def split: if_splits list.splits fate.splits prod.splits)
next
  fix m m' e assume "P (mc_Vol m)" "call f m = (m', Inl e)"
  then show "E (mc_Vol m') \<and> (sure \<longrightarrow> \<not> clean m)"
    using assms(1,3) by (auto simp: call_def Let_def clean_def split: if_splits list.splits fate.splits prod.splits)
qed

lemma stage_ignoring:
  assumes "stage False P p (\<lambda>_. Q) Q" "\<And>m. clean m \<Longrightarrow> clean (fst (p m))"
  shows "stage sure P (ignoring p) (\<lambda>_. Q) E"
  unfolding stage_def ignoring_def
proof (intro allI impI)
  fix m :: machine assume "P (mc_Vol m)"
  then show "case (fst (p m), Inr ()) of (m', Inl e) \<Rightarrow> E (mc_Vol m') \<and> (sure \<longrightarrow> \<not> clean m)
    | (m', Inr x) \<Rightarrow> Q (mc_Vol m') \<and> (clean m \<longrightarrow> clean m')"
    using stage_Inr [OF assms(1)] stage_Inl [OF assms(1)] assms(2) [of m] by (cases "p m"; cases "snd (p m)") auto
qed

lemma stage_both:
  assumes "stage sure P p (\<lambda>_. A) B" "stage sure A q Q E" "stage False B q (\<lambda>_. E) E"
  shows "stage sure P (bothR p q) Q E"
  unfolding stage_def
proof (intro allI impI)
  fix m :: machine assume m: "P (mc_Vol m)"
  obtain m1 r1 where 1: "p m = (m1, r1)" by fastforce
  obtain m2 r2 where 2: "q m1 = (m2, r2)" by fastforce
  show "case bothR p q m of (m', Inl e) \<Rightarrow> E (mc_Vol m') \<and> (sure \<longrightarrow> \<not> clean m)
    | (m', Inr x) \<Rightarrow> Q x (mc_Vol m') \<and> (clean m \<longrightarrow> clean m')"
  proof (cases r1)
    case (Inl e)
    then have b: "B (mc_Vol m1)" "sure \<longrightarrow> \<not> clean m" using stage_Inl [OF assms(1) _ m] 1 by auto
    then have "E (mc_Vol m2)" using stage_Inl [OF assms(3)] stage_Inr [OF assms(3)] 2 by (cases r2) blast+
    then show ?thesis using 1 2 Inl b(2) by (auto simp: bothR_def errOf_def split: sum.splits option.splits)
  next
    case (Inr x)
    then have a: "A (mc_Vol m1)" "clean m \<longrightarrow> clean m1" using stage_Inr [OF assms(1) _ m] 1 by auto
    then show ?thesis using 1 2 Inr stage_Inl [OF assms(2), of m1 m2] stage_Inr [OF assms(2), of m1 m2]
      by (cases r2) (auto simp: bothR_def errOf_def)
  qed
qed

lemma stage_finally:
  assumes "stage sure P p Q E" "\<And>x. stage True (Q x) q (\<lambda>_. Q x) (Q x)" "stage False E q (\<lambda>_. E) E"
    and "\<And>m. clean m \<Longrightarrow> clean (fst (q m))"
  shows "stage sure P (finallyR p q) Q E"
proof (rule stageI)
  fix m m' x assume m: "P (mc_Vol m)" "finallyR p q m = (m', Inr x)"
  then obtain m1 where 1: "p m = (m1, Inr x)" "m' = fst (q m1)" by (auto simp: finallyR_def split: prod.splits)
  have "Q x (mc_Vol m1)" "clean m \<longrightarrow> clean m1" using stage_Inr [OF assms(1) 1(1) m(1)] by auto
  then show "Q x (mc_Vol m') \<and> (clean m \<longrightarrow> clean m')"
    using 1(2) stage_Inr [OF assms(2)] stage_Inl [OF assms(2)] assms(4) by (cases "q m1"; cases "snd (q m1)") fastforce+
next
  fix m m' e assume m: "P (mc_Vol m)" "finallyR p q m = (m', Inl e)"
  then obtain m1 where 1: "p m = (m1, Inl e)" "m' = fst (q m1)" by (auto simp: finallyR_def split: prod.splits)
  have "E (mc_Vol m1)" "sure \<longrightarrow> \<not> clean m" using stage_Inl [OF assms(1) 1(1) m(1)] by auto
  then show "E (mc_Vol m') \<and> (sure \<longrightarrow> \<not> clean m)"
    using 1(2) stage_Inr [OF assms(3)] stage_Inl [OF assms(3)] by (cases "q m1"; cases "snd (q m1)") fastforce+
qed

lemma stage_onError:
  assumes "stage sure P p Q B" "stage False B q (\<lambda>_. E) E"
  shows "stage sure P (onError p q) Q E"
proof (rule stageI)
  fix m m' x assume m: "P (mc_Vol m)" "onError p q m = (m', Inr x)"
  then have "p m = (m', Inr x)" by (auto simp: onError_def split: prod.splits sum.splits)
  then show "Q x (mc_Vol m') \<and> (clean m \<longrightarrow> clean m')" using stage_Inr [OF assms(1) _ m(1)] by blast
next
  fix m m' e assume m: "P (mc_Vol m)" "onError p q m = (m', Inl e)"
  then obtain m1 where 1: "p m = (m1, Inl e)" "m' = fst (q m1)" by (auto simp: onError_def split: prod.splits sum.splits)
  have "B (mc_Vol m1)" "sure \<longrightarrow> \<not> clean m" using stage_Inl [OF assms(1) 1(1) m(1)] by auto
  then show "E (mc_Vol m') \<and> (sure \<longrightarrow> \<not> clean m)"
    using 1(2) stage_Inr [OF assms(2)] stage_Inl [OF assms(2)] by (cases "q m1"; cases "snd (q m1)") fastforce+
qed

lemma stage_wrap: "stage sure P p Q E \<Longrightarrow> stage sure P (wrapError p) Q E"
  unfolding stage_def wrapError_def by (fastforce split: prod.splits sum.splits)

lemma clean_call: "clean m \<Longrightarrow> clean (fst (call f m))"
  by (auto simp: clean_def call_def split: prod.splits)

text \<open>Calls that change nothing.\<close>

lemma stage_lstat: "(\<And>v. P v \<Longrightarrow> E v) \<Longrightarrow> stage sure P (lstat n) (\<lambda>x v. P v \<and> x = map_of (vo_T v) n) E"
  unfolding lstat_def by (rule stage_call) auto

lemma stage_plain: "(\<And>v. P v \<Longrightarrow> E v) \<Longrightarrow> stage sure P plainCall (\<lambda>_. P) E"
  unfolding plainCall_def by (rule stage_call) auto

lemma stage_entryID: "(\<And>v. P v \<Longrightarrow> E v) \<Longrightarrow> stage sure P (archiveEntryID n) (\<lambda>x v. P v \<and> x = archiveIdentity (map_of (vo_T v) n)) E"
  unfolding archiveEntryID_def
  by (rule stage_bind [OF stage_lstat]) (auto intro: stage_return)

end
