(* ===== verification/ArchiveRecovery.thy ===== *)
theory ArchiveRecovery
  imports ArchiveLogic
begin

text \<open>
  Recovery of a publication (\<open>recoverArchive\<close>): the phases that a decision passes through, that every
  call leaves one of them whatever a loss of power keeps, and that an undisturbed run completes.
\<close>

section \<open>Phases\<close>

definition baseName :: "archiveJournal \<Rightarrow> string" where "baseName r = pathBase (aj_Target r)"
definition newSlot :: "archiveJournal \<Rightarrow> string" where "newSlot r = inDir (aj_Workspace r) ''new''"
definition oldSlot :: "archiveJournal \<Rightarrow> string" where "oldSlot r = inDir (aj_Workspace r) ''old''"

definition workspaceOk :: "archiveJournal \<Rightarrow> tree \<Rightarrow> bool" where
  "workspaceOk r t \<longleftrightarrow> (\<exists>e. map_of t (aj_Workspace r) = Some e \<and> archivePrivateDirectory e \<and> archiveIdentity (Some e) = aj_WorkspaceID r)"

text \<open>What is at the destination, and what the workspace holds as new and as old tree.\<close>

type_synonym content = "string \<Rightarrow> entry option"

definition slots :: "archiveJournal \<Rightarrow> tree \<Rightarrow> content \<times> content \<times> content" where
  "slots r t = (below t (baseName r), below t (newSlot r), below t (oldSlot r))"

definition before :: "content \<Rightarrow> content \<Rightarrow> (content \<times> content \<times> content) set" where
  "before new old = {(old, new, nothing), (nothing, new, old)}"

text \<open>What an interrupted removal leaves of a tree: its top entry goes last.\<close>

definition leftOf :: "content \<Rightarrow> content set" where
  "leftOf old = {x. x \<subseteq>\<^sub>m old \<and> (x = nothing \<or> x [] = old [])}"

lemma leftOf_simps [simp]: "old \<in> leftOf old" "nothing \<in> leftOf old"
  by (auto simp: leftOf_def map_le_def)

lemma le_nothing: "x \<subseteq>\<^sub>m nothing \<longleftrightarrow> x = nothing"
  by (auto simp: map_le_def fun_eq_iff)

lemma leftOf_top: "x \<in> leftOf old \<Longrightarrow> x [] = old [] \<or> x [] = None"
  by (auto simp: leftOf_def)

definition after :: "content \<Rightarrow> content \<Rightarrow> (content \<times> content \<times> content) set" where
  "after new old = {new} \<times> {nothing} \<times> leftOf old"

text \<open>A record that publishes the tree \<open>new\<close> over \<open>old\<close>.\<close>

definition publishes :: "archiveJournal \<Rightarrow> content \<Rightarrow> content \<Rightarrow> bool" where
  "publishes r new old \<longleftrightarrow> aj_Decision r = ''publish'' \<and> plainName (baseName r) \<and> plainName (aj_Workspace r)
     \<and> baseName r \<noteq> aj_Workspace r \<and> HasPrefix (aj_Workspace r) ''.crabbox-cp-publish-'' \<and> aj_WorkspaceID r \<noteq> []
     \<and> new [] \<noteq> None \<and> aj_New r = archiveIdentity (new []) \<and> aj_Old r = archiveIdentity (old []) \<and> (old [] = None \<longrightarrow> old = nothing)"

text \<open>The journal holds the record, linked once or also under its pending name.\<close>

definition namesOf :: "jfile \<Rightarrow> jdir \<Rightarrow> jdir" where
  "namesOf f j = filter (\<lambda>(n, g). jf_ID g = jf_ID f) j"

definition holds :: "journalContext \<Rightarrow> archiveJournal \<Rightarrow> jfile \<Rightarrow> jdir \<Rightarrow> bool" where
  "holds c r f j \<longleftrightarrow> map_of j (jc_Journal c) = Some f \<and> jf_Data f = journalText r \<and> length (jf_Data f) \<le> archiveJournalLimit
     \<and> jf_Private f \<and> jf_Elsewhere f = 0 \<and> distinct (map fst j)
     \<and> namesOf f j
         \<in> {[(jc_Journal c, f)], [(jc_Journal c, f), (pendingName c r, f)], [(pendingName c r, f), (jc_Journal c, f)]}"

definition decided :: "journalContext \<Rightarrow> archiveJournal \<Rightarrow> jdir \<Rightarrow> bool" where
  "decided c r j \<longleftrightarrow> (\<exists>f. holds c r f j)"

lemma decided_present: "decided c r j \<Longrightarrow> map_of j (jc_Journal c) \<noteq> None"
  by (auto simp: decided_def holds_def)

text \<open>The states that a publication of \<open>new\<close>, staged at \<open>p\<close>, over \<open>old\<close> may leave: without a decision the
  destination is the old tree and the new one is kept, or the new tree is published.\<close>

definition consistent :: "journalContext \<Rightarrow> archiveJournal \<Rightarrow> string \<Rightarrow> content \<Rightarrow> content \<Rightarrow> jdir \<times> tree \<Rightarrow> bool" where
  "consistent c r p new old s \<longleftrightarrow>
     (case s of (j, t) \<Rightarrow>
        if map_of j (jc_Journal c) = None
        then below t (baseName r) = old \<and> (below t p = new \<or> below t (newSlot r) = new) \<or> below t (baseName r) = new
        else decided c r j \<and> workspaceOk r t \<and> slots r t \<in> before new old \<union> after new old)"

text \<open>The volumes of such a publication, and of what follows it: all that may survive is consistent, and once there
  is a decision only its two directories have changes that are not durable.\<close>

definition safe :: "journalContext \<Rightarrow> archiveJournal \<Rightarrow> string \<Rightarrow> content \<Rightarrow> content \<Rightarrow> volume \<Rightarrow> bool" where
  "safe c r p new old v \<longleftrightarrow> (\<forall>s \<in> set (survivors v). consistent c r p new old s)
     \<and> (map_of (vo_J v) (jc_Journal c) \<noteq> None \<longrightarrow> set (vo_Dirty v) \<subseteq> {''.'', aj_Workspace r})"

lemma safeI:
  assumes "\<And>j t. j \<in> insert (vo_J v) (set (vo_JPast v)) \<Longrightarrow> t \<in> insert (vo_T v) (set (vo_TPast v)) \<Longrightarrow> consistent c r p new old (j, t)"
    and "map_of (vo_J v) (jc_Journal c) \<noteq> None \<Longrightarrow> set (vo_Dirty v) \<subseteq> {''.'', aj_Workspace r}"
  shows "safe c r p new old v"
  using assms by (auto simp: safe_def survivors_def)

lemma safeD: "safe c r p new old v \<Longrightarrow> j \<in> insert (vo_J v) (set (vo_JPast v)) \<Longrightarrow> t \<in> insert (vo_T v) (set (vo_TPast v)) \<Longrightarrow> consistent c r p new old (j, t)"
  by (auto simp: safe_def survivors_def)

text \<open>The decision is durable and its moves are under way: \<open>X\<close> are the phases that may survive, \<open>Y\<close> those it
  may be in.\<close>

definition going :: "journalContext \<Rightarrow> archiveJournal \<Rightarrow> (content \<times> content \<times> content) set \<Rightarrow> (content \<times> content \<times> content) set \<Rightarrow> volume \<Rightarrow> bool" where
  "going c r X Y v \<longleftrightarrow> vo_JPast v = [] \<and> decided c r (vo_J v)
     \<and> (\<forall>t \<in> insert (vo_T v) (set (vo_TPast v)). workspaceOk r t \<and> slots r t \<in> X) \<and> slots r (vo_T v) \<in> Y
     \<and> set (vo_Dirty v) \<subseteq> {''.'', aj_Workspace r}"

definition still :: "journalContext \<Rightarrow> archiveJournal \<Rightarrow> (content \<times> content \<times> content) set \<Rightarrow> volume \<Rightarrow> bool" where
  "still c r Y v \<longleftrightarrow> going c r Y Y v \<and> vo_TPast v = [] \<and> vo_Dirty v = []"

lemma going_mono: "going c r X Y v \<Longrightarrow> X \<subseteq> X' \<Longrightarrow> Y \<subseteq> Y' \<Longrightarrow> going c r X' Y' v"
  by (auto simp: going_def)

lemma still_going: "still c r Y v \<Longrightarrow> Y \<subseteq> X \<Longrightarrow> going c r X Y v"
  by (auto simp: still_def going_def)

lemma going_split: "going c r X Y v \<longleftrightarrow> (\<exists>y \<in> Y. going c r X {y} v)"
  by (auto simp: going_def)

lemma going_narrow: "going c r X Y v \<Longrightarrow> slots r (vo_T v) \<in> Z \<Longrightarrow> going c r X Z v"
  by (simp add: going_def)

lemma still_narrow: "still c r Y v \<Longrightarrow> slots r (vo_T v) \<in> Z \<Longrightarrow> still c r Z v"
  by (simp add: still_def going_def)

lemma going_safe: "going c r X Y v \<Longrightarrow> X \<subseteq> before new old \<union> after new old \<Longrightarrow> safe c r p new old v"
  by (rule safeI) (auto simp: going_def consistent_def dest: decided_present)

lemma still_safe: "still c r Y v \<Longrightarrow> Y \<subseteq> before new old \<union> after new old \<Longrightarrow> safe c r p new old v"
  by (rule going_safe [OF still_going [OF _ order_refl]])

section \<open>The slots of a record\<close>

lemma last_name: "plainName n \<Longrightarrow> last n \<noteq> CHR ''/''"
  by (metis last_in_set plainName_def)

lemma trimSlashes_name: "plainName n \<Longrightarrow> trimSlashes n = n"
  using last_name [of n] by (auto simp: trimSlashes_def plainName_def hd_rev dropWhile_eq_self_iff [THEN iffD2])

lemma pathBase_name: "plainName n \<Longrightarrow> pathBase n = n"
proof -
  assume n: "plainName n"
  have "takeWhile (\<lambda>c. c \<noteq> CHR ''/'') (rev n) = rev n" using n unfolding takeWhile_eq_all_conv by (auto simp: plainName_def)
  then have "lastElement n = n" by (simp only: lastElement_def rev_rev_ident)
  then show ?thesis using n trimSlashes_name [OF n] by (simp add: pathBase_def plainName_def)
qed

lemma dirOf_name: "plainName n \<Longrightarrow> dirOf n = ''.''"
  by (auto simp: dirOf_def plainName_def Let_def)

lemma dirOf_inDir:
  assumes "plainName d" "plainName n"
  shows "dirOf (inDir d n) = d"
proof -
  have "dropWhile (\<lambda>c. c \<noteq> CHR ''/'') (rev (inDir d n)) = CHR ''/'' # rev d"
    using assms(2) by (auto simp: inDir_def plainName_def dropWhile_append3 intro: dropWhile_append2)
  moreover have "trimSlashes (d @ ''/'') = d"
    using trimSlashes_name [OF assms(1)] by (simp add: trimSlashes_def)
  ultimately show ?thesis using assms(1) by (simp add: dirOf_def plainName_def)
qed

lemma slotNames [simp]: "plainName ''new''" "plainName ''old''"
  by (auto simp: plainName_def)

lemma slots_apart:
  assumes "publishes r new old"
  shows "apart (baseName r) (newSlot r)" "apart (baseName r) (oldSlot r)" "apart (newSlot r) (oldSlot r)"
    and "apart (newSlot r) (baseName r)" "apart (oldSlot r) (baseName r)" "apart (oldSlot r) (newSlot r)"
    and "apart (baseName r) (aj_Workspace r)"
proof -
  have p: "plainName (baseName r)" "plainName (aj_Workspace r)" "baseName r \<noteq> aj_Workspace r" using assms by (auto simp: publishes_def)
  show b: "apart (baseName r) (aj_Workspace r)" using apart_names [OF p] .
  show 1: "apart (baseName r) (newSlot r)" "apart (baseName r) (oldSlot r)"
    using apart_inDir [OF b p(2)] by (simp_all add: newSlot_def oldSlot_def)
  show 2: "apart (newSlot r) (oldSlot r)" using apart_siblings [OF p(2)] by (simp add: newSlot_def oldSlot_def)
  show "apart (newSlot r) (baseName r)" "apart (oldSlot r) (baseName r)" "apart (oldSlot r) (newSlot r)"
    using 1 2 apart_sym by blast+
qed

lemma slots_lookup:
  "slots r t = (x, y, z) \<Longrightarrow> map_of t (baseName r) = x [] \<and> map_of t (newSlot r) = y [] \<and> map_of t (oldSlot r) = z []"
  unfolding slots_def by (metis Pair_inject below_Nil)

lemma slots_move:
  assumes "publishes r new old" "workspaceOk r t"
  shows "slots r t = (x, y, z) \<Longrightarrow> slots r (treeRename (baseName r) (oldSlot r) t) = (nothing, y, x)"
    and "slots r t = (x, y, z) \<Longrightarrow> slots r (treeRename (newSlot r) (baseName r) t) = (y, nothing, z)"
    and "workspaceOk r (treeRename (baseName r) (oldSlot r) t)" "workspaceOk r (treeRename (newSlot r) (baseName r) t)"
proof -
  note a = slots_apart [OF assms(1)]
  show "slots r (treeRename (baseName r) (oldSlot r) t) = (nothing, y, x)" if "slots r t = (x, y, z)"
    using that by (simp add: slots_def below_treeRename(1,2) [OF a(2)] below_treeRename(3) [OF a(2) a(4) a(3)])
  show "slots r (treeRename (newSlot r) (baseName r) t) = (y, nothing, z)" if "slots r t = (x, y, z)"
    using that by (simp add: slots_def below_treeRename(1,2) [OF a(4)] below_treeRename(3) [OF a(4) a(6) a(5)])
  have p: "plainName (aj_Workspace r)" using assms(1) by (simp add: publishes_def)
  have "\<not> within (aj_Workspace r) (inDir (aj_Workspace r) n)" for n
    using within_name [OF p, of "inDir (aj_Workspace r) n"] p inDir_slash [of "aj_Workspace r" n] by (auto simp: inDir_def plainName_def)
  then have w: "\<not> within (aj_Workspace r) (newSlot r)" "\<not> within (aj_Workspace r) (oldSlot r)" "\<not> within (aj_Workspace r) (baseName r)"
    using a(7) by (auto simp: newSlot_def oldSlot_def apart_def)
  show "workspaceOk r (treeRename (baseName r) (oldSlot r) t)" "workspaceOk r (treeRename (newSlot r) (baseName r) t)"
    using assms(2) w by (auto simp: workspaceOk_def map_of_treeRename [OF a(2)] map_of_treeRename [OF a(4)])
qed


section \<open>The calls of a recovery\<close>

lemma stage_syncRecord:
  assumes "plainName (aj_Workspace r)"
  shows "stage True (going c r X Y) (syncRecord r) (\<lambda>_. still c r (X \<inter> Y)) (going c r X Y)"
  unfolding syncRecord_def
proof (rule stage_both)
  let ?A = "\<lambda>v. going c r X Y v \<and> set (vo_Dirty v) \<subseteq> {''.''}"
  have ws: "going c r X Y v \<Longrightarrow> map_of (vo_T v) (aj_Workspace r) \<noteq> None" for v by (auto simp: going_def workspaceOk_def)
  show "stage True (going c r X Y) (syncArchiveRootDirectory (aj_Workspace r)) (\<lambda>_. ?A) (going c r X Y)"
    unfolding syncArchiveRootDirectory_def
    by (rule stage_call) (use ws in \<open>auto simp: going_def Let_def split: if_splits\<close>)
  show "stage True ?A (syncArchiveRootDirectory ''.'') (\<lambda>_. still c r (X \<inter> Y)) (going c r X Y)"
    unfolding syncArchiveRootDirectory_def
  proof (rule stage_call)
    fix v v' x
    assume v: "?A v" and e: "(if ''.'' \<noteq> ''.'' \<and> map_of (vo_T v) ''.'' = None then (v, Inl notExist)
      else let dirty = removeAll ''.'' (vo_Dirty v) in (v\<lparr>vo_Dirty := dirty, vo_TPast := if dirty = [] then [] else vo_TPast v\<rparr>, Inr ())) = (v', Inr x)"
    have "removeAll ''.'' (vo_Dirty v) = []" using v by (auto simp: removeAll_filter_not_eq filter_empty_conv)
    then have "v' = v\<lparr>vo_Dirty := [], vo_TPast := []\<rparr>" using e by (simp add: Let_def)
    then show "still c r (X \<inter> Y) v'" using v by (auto simp: still_def going_def)
  qed (auto simp: Let_def)
  show "stage False (going c r X Y) (syncArchiveRootDirectory ''.'') (\<lambda>_. going c r X Y) (going c r X Y)"
    unfolding syncArchiveRootDirectory_def
    by (rule stage_call) (auto simp: going_def Let_def split: if_splits)
qed

lemma stage_validate:
  assumes "\<And>v. P v \<Longrightarrow> E v" "\<And>v. P v \<Longrightarrow> workspaceOk r (vo_T v)"
    and "plainName (aj_Workspace r)" "HasPrefix (aj_Workspace r) ''.crabbox-cp-publish-''" "aj_WorkspaceID r \<noteq> []"
  shows "stage True P (validateWorkspace r) (\<lambda>_. P) E"
proof -
  have eq: "validateWorkspace r = bindR (lstat (aj_Workspace r)) (\<lambda>info. case info of None \<Rightarrow> failR notExist
      | Some e \<Rightarrow> requireR (archivePrivateDirectory e \<and> archiveIdentity info = aj_WorkspaceID r)
          (Fail ''copy recovery workspace identity changed; all data retained''))"
    using assms(3-5) pathBase_name [OF assms(3)] by (auto simp: validateWorkspace_def bindR_def requireR_def)
  show ?thesis unfolding eq
  proof (rule stage_bind [OF stage_lstat [OF assms(1)]], assumption)
    fix info
    show "stage True (\<lambda>v. P v \<and> info = map_of (vo_T v) (aj_Workspace r)) (case info of None \<Rightarrow> failR notExist
      | Some e \<Rightarrow> requireR (archivePrivateDirectory e \<and> archiveIdentity info = aj_WorkspaceID r)
          (Fail ''copy recovery workspace identity changed; all data retained'')) (\<lambda>_. P) E"
    proof (cases info)
      case None
      then show ?thesis using assms(2) by (fastforce simp: stage_def workspaceOk_def)
    next
      case (Some e)
      show ?thesis unfolding Some option.case
        using assms(2) by (fastforce simp: stage_def requireR_def workspaceOk_def)
    qed
  qed
qed

text \<open>One move: from phase \<open>y\<close> to phase \<open>z\<close>.\<close>

lemma stage_rename:
  assumes "Y \<subseteq> X" "dirOf from \<in> {''.'', aj_Workspace r}" "dirOf to \<in> {''.'', aj_Workspace r}"
    and "\<And>t. workspaceOk r t \<Longrightarrow> slots r t \<in> Y \<Longrightarrow> map_of t from \<noteq> None \<and> workspaceOk r (treeRename from to t) \<and> slots r (treeRename from to t) \<in> Z"
  shows "stage True (going c r X Y) (renameEntry from to) (\<lambda>_. going c r (X \<union> Z) Z) (going c r X Y)"
  unfolding renameEntry_def
proof (rule stage_call)
  fix v v' x assume v: "going c r X Y v"
    and e: "(if map_of (vo_T v) from = None then (v, Inl notExist)
      else (setT [dirOf from, dirOf to] (treeRename from to (vo_T v)) v, Inr ())) = (v', Inr x)"
  then have "v' = setT [dirOf from, dirOf to] (treeRename from to (vo_T v)) v" by (auto split: if_splits)
  then show "going c r (X \<union> Z) Z v'" using v assms(2-4) by (auto simp: going_def setT_def)
next
  fix v v' e assume "going c r X Y v" "(if map_of (vo_T v) from = None then (v, Inl notExist)
      else (setT [dirOf from, dirOf to] (treeRename from to (vo_T v)) v, Inr ())) = (v', Inl e)"
  then show "going c r X Y v' \<and> \<not> True" using assms(4) by (auto simp: going_def split: if_splits)
qed

lemma stage_move:
  assumes "ident \<noteq> []" "Y \<subseteq> X" "dirOf from \<in> {''.'', aj_Workspace r}" "dirOf to \<in> {''.'', aj_Workspace r}"
    and "\<And>t. workspaceOk r t \<Longrightarrow> slots r t \<in> Y \<Longrightarrow> archiveIdentity (map_of t from) = ident \<and> map_of t to = None
      \<and> workspaceOk r (treeRename from to t) \<and> slots r (treeRename from to t) \<in> Z"
  shows "stage True (going c r X Y) (moveEntry from to ident) (\<lambda>_. going c r (X \<union> Z) Z) (going c r X Y)"
proof -
  let ?G = "going c r X Y"
  have g: "?G v \<Longrightarrow> archiveIdentity (map_of (vo_T v) from) = ident \<and> map_of (vo_T v) to = None" for v
    using assms(5) by (auto simp: going_def)
  have "stage True ?G (renameEntry from to) (\<lambda>_. going c r (X \<union> Z) Z) ?G"
    by (rule stage_rename [OF assms(2-4)]) (use assms(1,5) in fastforce)
  then have "stage True (\<lambda>v. (?G v \<and> source = archiveIdentity (map_of (vo_T v) from)) \<and> destination = archiveIdentity (map_of (vo_T v) to))
    (if source = [] \<and> destination = ident then returnR ()
     else bindR (requireR (source = ident \<and> destination = []) (Fail ''copy recovery needs inspection: entries changed; all data retained'')) (\<lambda>_.
          renameEntry from to)) (\<lambda>_. going c r (X \<union> Z) Z) ?G" for source destination
    using g assms(1)
    by (intro stage_if stage_bind [OF stage_require]) (auto simp: stage_def elim: stage_pre)
  then show ?thesis
    unfolding moveEntry_def using assms(1)
    by (auto intro!: stage_bind [OF stage_entryID])
qed


lemma stage_disj: "(\<And>y. y \<in> Y \<Longrightarrow> stage sure (going c r X {y}) p Q E) \<Longrightarrow> stage sure (going c r X Y) p Q E"
  unfolding stage_def [of _ "going c r X Y"]
proof (intro allI impI)
  fix m :: machine
  assume a: "\<And>y. y \<in> Y \<Longrightarrow> stage sure (going c r X {y}) p Q E" and s: "going c r X Y (mc_Vol m)"
  obtain y where y: "y \<in> Y" "going c r X {y} (mc_Vol m)" using s going_split [of c r X Y "mc_Vol m"] by auto
  show "case p m of (m', Inl e) \<Rightarrow> E (mc_Vol m') \<and> (sure \<longrightarrow> \<not> clean m) | (m', Inr x) \<Rightarrow> Q x (mc_Vol m') \<and> (clean m \<longrightarrow> clean m')"
    by (rule a [OF y(1), unfolded stage_def, rule_format, OF y(2)])
qed

text \<open>A move that was made already.\<close>

lemma stage_moved:
  assumes "\<And>v. P v \<Longrightarrow> ident = [] \<or> map_of (vo_T v) from = None \<and> archiveIdentity (map_of (vo_T v) to) = ident" "\<And>v. P v \<Longrightarrow> E v"
  shows "stage True P (moveEntry from to ident) (\<lambda>_. P) E"
proof (cases "ident = []")
  case True
  then show ?thesis by (auto simp: moveEntry_def intro: stage_return)
next
  case False
  have "stage True (\<lambda>v. (P v \<and> source = archiveIdentity (map_of (vo_T v) from)) \<and> destination = archiveIdentity (map_of (vo_T v) to))
    (if source = [] \<and> destination = ident then returnR ()
     else bindR (requireR (source = ident \<and> destination = []) (Fail ''copy recovery needs inspection: entries changed; all data retained'')) (\<lambda>_.
          renameEntry from to)) (\<lambda>_. P) E" for source destination
    using False assms(1) by (intro stage_if) (fastforce simp: stage_def returnR_def)+
  then show ?thesis unfolding moveEntry_def using False assms(2) by (auto intro!: stage_bind [OF stage_entryID])
qed

lemma bind_require [simp]: "bindR (requireR True e) f = f ()" "bindR (returnR x) g = g x"
  by (auto simp: bindR_def requireR_def returnR_def)

lemma bind_return: "bindR p returnR = p"
  by (rule ext) (auto simp: bindR_def returnR_def split: prod.split sum.split)

lemma bind_pure: "bindR (\<lambda>m. (m, Inr x)) f = f x"
  by (rule ext) (simp add: bindR_def)

lemma bind_assoc: "bindR (bindR p f) g = bindR p (\<lambda>x. bindR (f x) g)"
  by (rule ext) (auto simp: bindR_def split: prod.split sum.split)

lemma stage_vacuous: "(\<And>v. \<not> P v) \<Longrightarrow> stage sure P p Q E"
  by (simp add: stage_def)

section \<open>Recovery\<close>

lemma stage_saveOld:
  assumes p: "publishes r new old" and X: "before new old \<subseteq> X"
  shows "stage True (going c r X (before new old)) (moveEntry (baseName r) (oldSlot r) (aj_Old r))
    (\<lambda>_. going c r X {(nothing, new, old)}) (going c r X (before new old))"
proof (rule stage_disj)
  fix y assume "y \<in> before new old"
  then consider "y = (old, new, nothing)" "old \<noteq> nothing" | "y = (nothing, new, old)" by (auto simp: before_def)
  then show "stage True (going c r X {y}) (moveEntry (baseName r) (oldSlot r) (aj_Old r))
    (\<lambda>_. going c r X {(nothing, new, old)}) (going c r X (before new old))"
  proof cases
    case 1
    have i: "aj_Old r = archiveIdentity (old [])" "aj_Old r \<noteq> []" using p 1(2) by (auto simp: publishes_def)
    have d: "dirOf (baseName r) \<in> {''.'', aj_Workspace r}" "dirOf (oldSlot r) \<in> {''.'', aj_Workspace r}"
      using p by (auto simp: publishes_def dirOf_name oldSlot_def dirOf_inDir)
    have t: "archiveIdentity (map_of t (baseName r)) = aj_Old r \<and> map_of t (oldSlot r) = None
      \<and> workspaceOk r (treeRename (baseName r) (oldSlot r) t) \<and> slots r (treeRename (baseName r) (oldSlot r) t) \<in> {(nothing, new, old)}"
      if "workspaceOk r t" "slots r t \<in> {y}" for t
    proof -
      have s: "slots r t = (old, new, nothing)" using that(2) 1 by simp
      then have "map_of t (baseName r) = old []" "map_of t (oldSlot r) = None" using slots_lookup by blast+
      then show ?thesis using slots_move(1) [OF p that(1) s] slots_move(3) [OF p that(1)] i by simp
    qed
    have "stage True (going c r X {y}) (moveEntry (baseName r) (oldSlot r) (aj_Old r)) (\<lambda>_. going c r (X \<union> {(nothing, new, old)}) {(nothing, new, old)}) (going c r X {y})"
      by (rule stage_move [OF i(2) _ d t]) (use X 1 in \<open>auto simp: before_def\<close>)
    then show ?thesis
      by (rule stage_conseq) (use 1 X in \<open>auto simp: before_def elim: going_mono\<close>)
  next
    case 2
    have "stage True (going c r X {y}) (moveEntry (baseName r) (oldSlot r) (aj_Old r)) (\<lambda>_. going c r X {y}) (going c r X {y})"
    proof (rule stage_moved)
      fix v assume "going c r X {y} v"
      then have "slots r (vo_T v) = (nothing, new, old)" using 2 by (simp add: going_def)
      then have "map_of (vo_T v) (baseName r) = None" "map_of (vo_T v) (oldSlot r) = old []" using slots_lookup by blast+
      then show "aj_Old r = [] \<or> map_of (vo_T v) (baseName r) = None \<and> archiveIdentity (map_of (vo_T v) (oldSlot r)) = aj_Old r"
        using p by (simp add: publishes_def)
    qed simp
    then show ?thesis by (rule stage_conseq) (use 2 in \<open>auto simp: before_def elim: going_mono\<close>)
  qed
qed

lemma stage_placeNew:
  assumes p: "publishes r new old"
  shows "stage True (still c r {(nothing, new, old)}) (moveEntry (newSlot r) (baseName r) (aj_New r))
    (\<lambda>_. going c r (before new old \<union> after new old) (after new old)) (going c r (before new old) (before new old))"
proof -
  let ?y = "(nothing, new, old)" and ?z = "(new, nothing, old)"
  have i: "aj_New r = archiveIdentity (new [])" "aj_New r \<noteq> []" using p by (auto simp: publishes_def)
  have d: "dirOf (newSlot r) \<in> {''.'', aj_Workspace r}" "dirOf (baseName r) \<in> {''.'', aj_Workspace r}"
    using p by (auto simp: publishes_def dirOf_name newSlot_def dirOf_inDir)
  have t: "archiveIdentity (map_of t (newSlot r)) = aj_New r \<and> map_of t (baseName r) = None
    \<and> workspaceOk r (treeRename (newSlot r) (baseName r) t) \<and> slots r (treeRename (newSlot r) (baseName r) t) \<in> {?z}"
    if "workspaceOk r t" "slots r t \<in> {?y}" for t
  proof -
    have s: "slots r t = ?y" using that(2) by simp
    then have "map_of t (newSlot r) = new []" "map_of t (baseName r) = None" using slots_lookup by blast+
    then show ?thesis using slots_move(2) [OF p that(1) s] slots_move(4) [OF p that(1)] i by simp
  qed
  have "stage True (going c r {?y} {?y}) (moveEntry (newSlot r) (baseName r) (aj_New r)) (\<lambda>_. going c r ({?y} \<union> {?z}) {?z}) (going c r {?y} {?y})"
    by (rule stage_move [OF i(2) _ d t]) auto
  then show ?thesis by (rule stage_conseq) (auto simp: still_def before_def after_def elim: going_mono)
qed

lemma stage_replace:
  assumes p: "publishes r new old"
  shows "stage True (going c r (before new old \<union> after new old) (before new old \<union> after new old)) (replaceEntry r (newSlot r) (oldSlot r) (aj_New r))
    (\<lambda>_. going c r (before new old \<union> after new old) (after new old))
    (going c r (before new old \<union> after new old) (before new old \<union> after new old))"
proof -
  let ?B = "before new old" and ?A = "after new old"
  let ?E = "going c r (?B \<union> ?A) (?B \<union> ?A)"
  have ws: "plainName (aj_Workspace r)" and n: "new [] \<noteq> None" "aj_New r = archiveIdentity (new [])" using p by (auto simp: publishes_def)
  have first: "stage True (going c r (?B \<union> ?A) ?B) (bindR (moveEntry (baseName r) (oldSlot r) (aj_Old r)) (\<lambda>_. syncRecord r)) (\<lambda>_. still c r {(nothing, new, old)}) ?E"
  proof (rule stage_bind)
    show "stage True (going c r (?B \<union> ?A) ?B) (moveEntry (baseName r) (oldSlot r) (aj_Old r)) (\<lambda>_. going c r (?B \<union> ?A) {(nothing, new, old)}) ?E"
      by (rule stage_conseq [OF stage_saveOld [OF p, of "?B \<union> ?A"]]) (auto elim: going_mono)
    show "stage True (going c r (?B \<union> ?A) {(nothing, new, old)}) (syncRecord r) (\<lambda>_. still c r {(nothing, new, old)}) ?E"
      by (rule stage_conseq [OF stage_syncRecord [OF ws, of c "?B \<union> ?A" "{(nothing, new, old)}"]]) (auto simp: before_def elim: going_mono)
  qed
  have second: "stage True (still c r {(nothing, new, old)}) (moveEntry (newSlot r) (baseName r) (aj_New r)) (\<lambda>_. going c r (?B \<union> ?A) ?A) ?E"
    by (rule stage_conseq [OF stage_placeNew [OF p]]) (auto elim: going_mono)
  have third: "stage True (going c r (?B \<union> ?A) ?A) (moveEntry (newSlot r) (baseName r) (aj_New r)) (\<lambda>_. going c r (?B \<union> ?A) ?A) ?E"
  proof (rule stage_moved)
    fix v assume "going c r (?B \<union> ?A) ?A v"
    then obtain x where "slots r (vo_T v) = (new, nothing, x)" by (auto simp: going_def after_def)
    then have "map_of (vo_T v) (newSlot r) = None" "map_of (vo_T v) (baseName r) = new []" using slots_lookup by blast+
    then show "aj_New r = [] \<or> map_of (vo_T v) (newSlot r) = None \<and> archiveIdentity (map_of (vo_T v) (baseName r)) = aj_New r"
      using n by simp
  qed (auto elim: going_mono)
  have E: "?E v \<Longrightarrow> ?E v" for v .
  show ?thesis
    unfolding replaceEntry_def baseName_def [symmetric]
  proof (rule stage_bind [OF stage_entryID [OF E]], assumption)
    fix pending
    let ?P = "\<lambda>v. ?E v \<and> pending = archiveIdentity (map_of (vo_T v) (newSlot r))"
    let ?rest = "\<lambda>_. moveEntry (newSlot r) (baseName r) (aj_New r)"
    have new: "?P v \<Longrightarrow> if pending = [] then going c r (?B \<union> ?A) ?A v else pending = aj_New r \<and> going c r (?B \<union> ?A) ?B v" for v
    proof -
      assume a: "?P v"
      then have i: "pending = archiveIdentity (map_of (vo_T v) (newSlot r))" and s: "slots r (vo_T v) \<in> ?B \<union> ?A" by (auto simp: going_def)
      from s show ?thesis
      proof
        assume "slots r (vo_T v) \<in> ?B"
        then have "map_of (vo_T v) (newSlot r) = new []" "going c r (?B \<union> ?A) ?B v" using a slots_lookup going_narrow by (fastforce simp: before_def)+
        then show ?thesis using i n by auto
      next
        assume "slots r (vo_T v) \<in> ?A"
        then have "map_of (vo_T v) (newSlot r) = None" "going c r (?B \<union> ?A) ?A v" using a slots_lookup going_narrow by (fastforce simp: after_def)+
        then show ?thesis using i by simp
      qed
    qed
    show "stage True ?P (bindR (if pending \<noteq> [] then bindR (requireR (pending = aj_New r) (Fail ''copy replacement identity changed; all data retained'')) (\<lambda>_.
        bindR (moveEntry (baseName r) (oldSlot r) (aj_Old r)) (\<lambda>_. syncRecord r)) else returnR ()) ?rest) (\<lambda>_. going c r (?B \<union> ?A) ?A) ?E"
    proof (cases "pending = []")
      case True
      show ?thesis using new True stage_pre [OF third, of ?P] by (simp add: bindR_def returnR_def)
    next
      case False
      show ?thesis
      proof (cases "pending = aj_New r")
        case eq: True
        show ?thesis using False eq new by (auto intro!: stage_bind [OF _ second] intro: stage_pre [OF first])
      next
        case neq: False
        then have "\<not> ?P v" for v using new [of v] False by auto
        then show ?thesis by (rule stage_vacuous)
      qed
    qed
  qed
qed


text \<open>A step of the removal of the old tree.\<close>

lemma slots_removePath:
  assumes p: "publishes r new old" and w: "workspaceOk r t" and s: "slots r t \<in> after new old" and k: "within k (oldSlot r)"
  shows "slots r (treeRemove k t) \<in> after new old" "workspaceOk r (treeRemove k t)"
proof -
  note a = slots_apart [OF p]
  have o: "oldSlot r \<noteq> ''/''" using a(2) by (simp add: apart_def)
  then obtain u where u: "k = oldSlot r @ u" "suffixPart u" using k within_iff by blast
  have k0: "k \<noteq> ''/''" using u a(2) by (auto simp: apart_def oldSlot_def inDir_def)
  have ap: "apart (baseName r) k" "apart (newSlot r) k"
    using apart_inside [OF a(2) k k0] apart_inside [OF a(6) [THEN apart_sym] k k0] by blast+
  have "below (treeRemove k t) (oldSlot r) \<subseteq>\<^sub>m below t (oldSlot r)"
    by (auto simp: map_le_def below_def map_of_treeRemove split: if_splits)
  moreover have "below (treeRemove k t) (oldSlot r) [] = map_of t (oldSlot r) \<or> below (treeRemove k t) (oldSlot r) = nothing"
  proof (cases u)
    case Nil
    then show ?thesis using u below_treeRemove(1) [OF o, of t] by simp
  next
    case (Cons a x)
    then have "\<not> within (oldSlot r) k" using u k0 by (auto simp: within_iff)
    then show ?thesis by (simp add: map_of_treeRemove)
  qed
  ultimately show "slots r (treeRemove k t) \<in> after new old"
    using s below_treeRemove(2) [OF k0 ap(1), of t] below_treeRemove(2) [OF k0 ap(2), of t]
    by (auto simp: slots_def after_def leftOf_def le_nothing intro: map_le_trans)
  have pw: "plainName (aj_Workspace r)" using p by (simp add: publishes_def)
  have "\<not> within (aj_Workspace r) k"
    using within_name [OF pw k0] u by (auto simp: oldSlot_def inDir_def)
  then show "workspaceOk r (treeRemove k t)" using w by (simp add: workspaceOk_def map_of_treeRemove)
qed

lemma stage_removePaths:
  assumes p: "publishes r new old" and "\<forall>k \<in> set ks. within k (oldSlot r)"
  shows "stage True (going c r (after new old) (after new old)) (removePaths (oldSlot r) ks) (\<lambda>_. going c r (after new old) (after new old))
    (going c r (after new old) (after new old))"
  using assms(2)
proof (induction ks)
  case Nil
  then show ?case by (simp add: stage_return)
next
  case (Cons k ks)
  let ?G = "going c r (after new old) (after new old)"
  have d: "dirOf (oldSlot r) = aj_Workspace r" using p by (simp add: publishes_def oldSlot_def dirOf_inDir)
  have "stage True ?G (call (\<lambda>v. (setT [dirOf (oldSlot r)] (treeRemove k (vo_T v)) v, Inr ()))) (\<lambda>_. ?G) ?G"
    by (rule stage_call) (use slots_removePath [OF p] Cons.prems in \<open>auto simp: going_def setT_def d\<close>)
  then show ?case using Cons by (auto intro: stage_bind)
qed

lemma stage_prune:
  assumes p: "publishes r new old"
  shows "stage True (still c r (after new old)) (pruneOld r) (\<lambda>_. still c r (after new old)) (going c r (after new old) (after new old))"
proof -
  let ?A = "after new old"
  have ws: "plainName (aj_Workspace r)" and d: "aj_Decision r = ''publish''" and o: "aj_Old r = archiveIdentity (old [])"
    using p by (auto simp: publishes_def)
  have E: "still c r ?A v \<Longrightarrow> going c r ?A ?A v" for v by (simp add: still_def)
  have i: "map_of (vo_T v) (oldSlot r) = old [] \<or> map_of (vo_T v) (oldSlot r) = None" if st: "still c r ?A v" for v
  proof -
    obtain x where x: "slots r (vo_T v) = (new, nothing, x)" "x \<in> leftOf old" using st by (auto simp: still_def going_def after_def)
    then show ?thesis using slots_lookup [OF x(1)] leftOf_top [OF x(2)] by metis
  qed
  have rem: "stage True (still c r ?A) (removeTree (oldSlot r)) (\<lambda>_. going c r ?A ?A) (going c r ?A ?A)"
    unfolding removeTree_def
  proof (rule stage_bind)
    show "stage True (still c r ?A) (call (\<lambda>v. (v, Inr (rev (sort_key length (filter (\<lambda>k. within k (oldSlot r)) (map fst (vo_T v))))))))
      (\<lambda>ks v. going c r ?A ?A v \<and> (\<forall>k \<in> set ks. within k (oldSlot r))) (going c r ?A ?A)"
      by (rule stage_call) (use E in auto)
    show "stage True (\<lambda>v. going c r ?A ?A v \<and> (\<forall>k \<in> set ks. within k (oldSlot r))) (removePaths (oldSlot r) ks) (\<lambda>_. going c r ?A ?A) (going c r ?A ?A)" for ks
      by (cases "\<forall>k \<in> set ks. within k (oldSlot r)") (auto intro: stage_pre [OF stage_removePaths [OF p]] stage_vacuous)
  qed
  have sync: "stage True (going c r ?A ?A) (syncRecord r) (\<lambda>_. still c r ?A) (going c r ?A ?A)"
    using stage_syncRecord [OF ws, of c ?A ?A] by simp
  show ?thesis
  proof (cases "aj_Old r = []")
    case True
    then show ?thesis by (auto simp: pruneOld_def intro: stage_return)
  next
    case False
    have "stage True (\<lambda>v. still c r ?A v \<and> ident = archiveIdentity (map_of (vo_T v) (oldSlot r)))
      (bindR (requireR (ident = [] \<or> ident = aj_Old r) (Fail ''replaced copy destination changed; all data retained'')) (\<lambda>_.
       bindR (if ident \<noteq> [] then removeTree (oldSlot r) else returnR ()) (\<lambda>_. syncRecord r))) (\<lambda>_. still c r ?A) (going c r ?A ?A)" for ident
    proof (rule stage_bind [OF stage_require])
      show "stage True (\<lambda>v. (still c r ?A v \<and> ident = archiveIdentity (map_of (vo_T v) (oldSlot r))) \<and> (ident = [] \<or> ident = aj_Old r))
        (bindR (if ident \<noteq> [] then removeTree (oldSlot r) else returnR ()) (\<lambda>_. syncRecord r)) (\<lambda>_. still c r ?A) (going c r ?A ?A)"
        by (rule stage_bind [OF _ sync], rule stage_if) (auto intro: stage_pre [OF rem] stage_return E)
    qed (use E i o in \<open>fastforce+\<close>)
    then show ?thesis
      using False d E by (auto simp: pruneOld_def Let_def oldSlot_def [symmetric] intro!: stage_bind [OF stage_entryID])
  qed
qed

text \<open>The published state: no decision, and the new tree at the destination whatever survives.\<close>

definition finished :: "journalContext \<Rightarrow> archiveJournal \<Rightarrow> content \<Rightarrow> volume \<Rightarrow> bool" where
  "finished c r new v \<longleftrightarrow> (\<forall>j \<in> insert (vo_J v) (set (vo_JPast v)). map_of j (jc_Journal c) = None)
     \<and> (\<forall>t \<in> insert (vo_T v) (set (vo_TPast v)). below t (baseName r) = new)"

lemma finished_safe: "finished c r new v \<Longrightarrow> safe c r p new old v"
  by (rule safeI) (auto simp: finished_def consistent_def)

lemma stage_retire:
  assumes p: "publishes r new old"
  shows "stage True (still c r (after new old))
    (bindR (removeJournal (jc_Journal c)) (\<lambda>_. bindR syncJournals (\<lambda>_. ignoring (removeEntry (aj_Workspace r))))) (\<lambda>_. finished c r new) (safe c r q new old)"
proof (rule stage_bind)
  let ?R = "\<lambda>v. safe c r q new old v \<and> map_of (vo_J v) (jc_Journal c) = None \<and> (\<forall>t \<in> insert (vo_T v) (set (vo_TPast v)). below t (baseName r) = new)"
  have b: "slots r t \<in> after new old \<Longrightarrow> below t (baseName r) = new" for t by (auto simp: after_def slots_def)
  show "stage True (still c r (after new old)) (removeJournal (jc_Journal c)) (\<lambda>_. ?R) (safe c r q new old)"
    unfolding removeJournal_def
  proof (rule stage_call)
    fix v v' x assume v: "still c r (after new old) v"
      and e: "(if map_of (vo_J v) (jc_Journal c) = None then (v, Inl notExist)
        else (setJ (filter (\<lambda>(n, f). n \<noteq> jc_Journal c) (vo_J v)) v, Inr ())) = (v', Inr x)"
    have g: "map_of (filter (\<lambda>(n, f). n \<noteq> k) j) k = None" for k and j :: jdir by (induction j) auto
    have v': "v' = setJ (filter (\<lambda>(n, f). n \<noteq> jc_Journal c) (vo_J v)) v" using e by (auto split: if_splits)
    have t: "vo_TPast v = []" "below (vo_T v) (baseName r) = new" "vo_JPast v = []" using v b by (auto simp: still_def going_def)
    have "safe c r q new old v'"
    proof (rule safeI)
      fix j t assume "j \<in> insert (vo_J v') (set (vo_JPast v'))" "t \<in> insert (vo_T v') (set (vo_TPast v'))"
      then have "t = vo_T v" "j = vo_J v \<or> map_of j (jc_Journal c) = None" using t g by (auto simp: v' setJ_def)
      then show "consistent c r q new old (j, t)" using v t by (auto simp: consistent_def still_def going_def dest: decided_present)
    qed (use v' g in \<open>simp add: setJ_def\<close>)
    then show "?R v'" using t g by (simp add: v' setJ_def)
  next
    fix v v' e assume "still c r (after new old) v" "(if map_of (vo_J v) (jc_Journal c) = None then (v, Inl notExist)
        else (setJ (filter (\<lambda>(n, f). n \<noteq> jc_Journal c) (vo_J v)) v, Inr ())) = (v', Inl e)"
    then show "safe c r q new old v' \<and> \<not> True" by (auto simp: still_def going_def dest: decided_present split: if_splits)
  next
    show "safe c r q new old v" if "still c r (after new old) v" for v using still_safe [OF that] by simp
  qed
  show "stage True (?R) (bindR syncJournals (\<lambda>_. ignoring (removeEntry (aj_Workspace r)))) (\<lambda>_. finished c r new) (safe c r q new old)"
  proof (rule stage_bind)
    show "stage True ?R syncJournals (\<lambda>_. finished c r new) (safe c r q new old)"
      unfolding syncJournals_def by (rule stage_call) (auto simp: finished_def)
    have a: "apart (baseName r) (aj_Workspace r)" using slots_apart(7) [OF p] .
    have "stage False (finished c r new) (removeEntry (aj_Workspace r)) (\<lambda>_. finished c r new) (finished c r new)"
      unfolding removeEntry_def
    proof (rule stage_call)
      fix v v' x assume v: "finished c r new v" and e: "(if map_of (vo_T v) (aj_Workspace r) = None then (v, Inl notExist)
        else if hasChildren (aj_Workspace r) (vo_T v) then (v, Inl (Native ''not empty''))
        else (setT [dirOf (aj_Workspace r)] (treeRemove (aj_Workspace r) (vo_T v)) v, Inr ())) = (v', Inr x)"
      have "aj_Workspace r \<noteq> ''/''" using a by (simp add: apart_def)
      then show "finished c r new v'" using v e below_treeRemove(2) [OF _ a] by (auto simp: finished_def setT_def split: if_splits)
    qed (auto split: if_splits)
    then show "stage True (finished c r new) (ignoring (removeEntry (aj_Workspace r))) (\<lambda>_. finished c r new) (safe c r q new old)"
      by (rule stage_ignoring) (simp add: removeEntry_def clean_call)
  qed
qed

text \<open>A decision that was found, whatever of its moves and of the journal directory is durable.\<close>

definition underway :: "journalContext \<Rightarrow> archiveJournal \<Rightarrow> string \<Rightarrow> content \<Rightarrow> content \<Rightarrow> volume \<Rightarrow> bool" where
  "underway c r p new old v \<longleftrightarrow> safe c r p new old v \<and> decided c r (vo_J v)"

lemma underway_tree:
  "underway c r p new old v \<Longrightarrow> t \<in> insert (vo_T v) (set (vo_TPast v)) \<Longrightarrow> workspaceOk r t \<and> slots r t \<in> before new old \<union> after new old"
  using safeD [of c r p new old v "vo_J v" t] decided_present [of c r "vo_J v"] by (auto simp: underway_def consistent_def)

lemma underway_going:
  "underway c r p new old v \<Longrightarrow> vo_JPast v = [] \<Longrightarrow> going c r (before new old \<union> after new old) (before new old \<union> after new old) v"
  using underway_tree [of c r p new old v] decided_present [of c r "vo_J v"] by (auto simp: going_def underway_def safe_def)

lemma underway_synced: "underway c r p new old v \<Longrightarrow> underway c r p new old (v\<lparr>vo_JPast := []\<rparr>)"
  by (auto simp: underway_def safe_def survivors_def)

theorem stage_recover:
  assumes p: "publishes r new old"
  shows "stage True (underway c r q new old) (recoverArchive c r) (\<lambda>_. finished c r new) (safe c r q new old)"
proof -
  let ?B = "before new old" and ?A = "after new old"
  let ?S = "safe c r q new old"
  have ws: "plainName (aj_Workspace r)" "HasPrefix (aj_Workspace r) ''.crabbox-cp-publish-''" "aj_WorkspaceID r \<noteq> []" "aj_Decision r = ''publish''"
    using p by (auto simp: publishes_def)
  have eq: "recoverArchive c r = bindR syncJournals (\<lambda>_. bindR (validateWorkspace r) (\<lambda>_.
      bindR (replaceEntry r (newSlot r) (oldSlot r) (aj_New r)) (\<lambda>_. bindR (syncRecord r) (\<lambda>_. bindR (pruneOld r) (\<lambda>_.
      bindR (removeJournal (jc_Journal c)) (\<lambda>_. bindR syncJournals (\<lambda>_. ignoring (removeEntry (aj_Workspace r)))))))))"
    using ws(4) by (simp add: recoverArchive_def decide_def newSlot_def oldSlot_def Let_def bind_return)
  let ?G = "going c r (?B \<union> ?A) (?B \<union> ?A)"
  have G: "?G v \<Longrightarrow> ?S v" for v by (rule going_safe) auto
  have sync: "stage True (underway c r q new old) syncJournals (\<lambda>_. ?G) ?S"
    unfolding syncJournals_def
    by (rule stage_call) (use underway_going [OF underway_synced] in \<open>auto simp: underway_def\<close>)
  have valid: "stage True ?G (validateWorkspace r) (\<lambda>_. ?G) ?S"
    by (rule stage_validate [OF G]) (use ws in \<open>auto simp: going_def\<close>)
  have rep: "stage True ?G (replaceEntry r (newSlot r) (oldSlot r) (aj_New r)) (\<lambda>_. going c r (?B \<union> ?A) ?A) ?S"
    by (rule stage_conseq [OF stage_replace [OF p]]) (auto intro: G)
  have "stage True (going c r (?B \<union> ?A) ?A) (syncRecord r) (\<lambda>_. still c r ((?B \<union> ?A) \<inter> ?A)) (going c r (?B \<union> ?A) ?A)"
    by (rule stage_syncRecord [OF ws(1)])
  moreover have "(?B \<union> ?A) \<inter> ?A = ?A" by blast
  ultimately have sync2: "stage True (going c r (?B \<union> ?A) ?A) (syncRecord r) (\<lambda>_. still c r ?A) ?S"
    by (auto elim!: stage_conseq intro: going_safe)
  have prune: "stage True (still c r ?A) (pruneOld r) (\<lambda>_. still c r ?A) ?S"
    by (rule stage_conseq [OF stage_prune [OF p]]) (auto intro: going_safe)
  show ?thesis unfolding eq by (intro stage_bind [OF sync] stage_bind [OF valid] stage_bind [OF rep] stage_bind [OF sync2] stage_bind [OF prune] stage_retire [OF p])
qed

end
