(* ===== verification/ArchivePublish.thy ===== *)
theory ArchivePublish
  imports ArchiveRecovery
begin

text \<open>
  Reading the decision back (\<open>readJournal\<close>, \<open>finishPending\<close>): the text of a record determines it, a pending name
  that is still linked is removed, and what a publication does first completes the decision it finds.
\<close>

section \<open>Reading the record\<close>

lemma toValidUTF8_valid: "utf8_valid s \<Longrightarrow> toValidUTF8 s = s"
proof -
  assume "utf8_valid s"
  then have "map (\<lambda>(r, bs). if r = rune_error \<and> length bs = 1 then encode_rune rune_error else bs) (chunks s) = map snd (chunks s)"
    by (auto simp: utf8_valid_def list_all_iff)
  then show ?thesis by (simp only: toValidUTF8_def chunks_concat)
qed

definition recordText :: "archiveJournal \<Rightarrow> bool" where
  "recordText r \<longleftrightarrow> aj_Version r = 2 \<and> list_all utf8_valid [aj_Target r, aj_Parent r, aj_Workspace r, aj_WorkspaceID r, aj_Decision r,
     aj_New r, aj_Old r, aj_Marker r, aj_Backup r]"

lemma wfJson_journal: "recordText r \<Longrightarrow> wfJson (journalJson r)"
proof -
  assume r: "recordText r"
  have "natLiteral (Itoa 2)" using natLiteral_dec_nat [of 2] by (simp add: Itoa_def)
  then show ?thesis using r by (auto simp: journalJson_def recordText_def omitempty_def code_def)
qed

lemma foldNames:
  "foldName ''version'' = ''VERSION''" "foldName ''target'' = ''TARGET''" "foldName ''parent'' = ''PARENT''" "foldName ''workspace'' = ''WORKSPACE''"
  "foldName ''workspaceID'' = ''WORKSPACEID''" "foldName ''decision'' = ''DECISION''" "foldName ''new'' = ''NEW''" "foldName ''old'' = ''OLD''"
  "foldName ''marker'' = ''MARKER''" "foldName ''backup'' = ''BACKUP''"
  by (simp_all add: foldName_def code_def upper_char_def char_of_def bit_Suc_0_iff)

lemma setFields_append: "setFields r (xs @ ys) = (case setFields r xs of None \<Rightarrow> None | Some r' \<Rightarrow> setFields r' ys)"
  by (induction xs arbitrary: r) (auto split: option.splits)

lemma setFields_journal: "aj_Version r = 2 \<Longrightarrow> (case journalJson r of JObj ms \<Rightarrow> setFields emptyJournal ms) = Some r"
  using Atoi_dec_nat [of 2]
  by (cases r) (simp add: journalJson_def omitempty_def setFields_append setField_def foldNames setString_def setInt_def emptyJournal_def Itoa_def)

lemma decodeJournal_text: "recordText r \<Longrightarrow> decodeJournal (journalText r) = Inr r"
proof -
  assume r: "recordText r"
  have "toValidUTF8 (journalText r) = journalText r"
    unfolding journalText_def by (rule toValidUTF8_valid [OF utf8_valid_print [OF wfJson_journal [OF r]]])
  moreover obtain rest where "jvalue (Suc (length (journalText r))) (journalText r) = Some (journalJson r, rest)" "skipWs rest = []"
    using jsonParse_print [OF wfJson_journal [OF r]] by (auto simp: jsonParse_def journalText_def split: option.splits if_splits)
  moreover have "(case journalJson r of JObj ms \<Rightarrow> setFields emptyJournal ms | JNull \<Rightarrow> Some emptyJournal | _ \<Rightarrow> None) = Some r"
    using setFields_journal [of r] r by (simp add: journalJson_def recordText_def)
  ultimately show ?thesis by (simp add: decodeJournal_def)
qed


text \<open>The record of a publication for the context.\<close>

definition recordFor :: "journalContext \<Rightarrow> archiveJournal \<Rightarrow> content \<Rightarrow> content \<Rightarrow> bool" where
  "recordFor c r new old \<longleftrightarrow> publishes r new old \<and> recordText r \<and> aj_Parent r = jc_ParentID c \<and> aj_Target r = jc_Target c
     \<and> aj_Marker r = [] \<and> aj_Backup r = []"

lemma pending_other [simp]: "pendingName c r \<noteq> jc_Journal c" "jc_Journal c \<noteq> pendingName c r"
proof -
  have "length (pendingName c r) \<noteq> length (jc_Journal c)" by (simp add: pendingName_def)
  then show "pendingName c r \<noteq> jc_Journal c" "jc_Journal c \<noteq> pendingName c r" by metis+
qed

lemma map_of_without: "map_of (filter (\<lambda>(n, f). n \<noteq> k) (j :: jdir)) n = (if n = k then None else map_of j n)"
  by (induction j) auto

lemma namesOf_without: "namesOf f (filter (\<lambda>(n, f). n \<noteq> k) j) = filter (\<lambda>(n, f). n \<noteq> k) (namesOf f j)"
  by (simp add: namesOf_def filter_filter conj_commute case_prod_beta)

lemma links_names: "links j f = length (namesOf f j) + jf_Elsewhere f"
  by (simp add: links_def namesOf_def)

lemma namesOf_mem: "(n, g) \<in> set (namesOf f j) \<longleftrightarrow> (n, g) \<in> set j \<and> jf_ID g = jf_ID f"
  by (auto simp: namesOf_def)

lemma holds_without:
  assumes "holds c r f j"
  shows "holds c r f (filter (\<lambda>(n, f). n \<noteq> pendingName c r) j)" "links (filter (\<lambda>(n, f). n \<noteq> pendingName c r) j) f = 1"
proof -
  let ?j = "filter (\<lambda>(n, f). n \<noteq> pendingName c r) j"
  have "namesOf f ?j = [(jc_Journal c, f)]" using assms unfolding namesOf_without by (auto simp: holds_def)
  moreover have "distinct (map fst ?j)" using assms by (simp add: holds_def distinct_map_filter)
  moreover have "map_of ?j (jc_Journal c) = Some f" using assms by (simp only: map_of_without holds_def pending_other if_False)
  ultimately show "holds c r f ?j" "links ?j f = 1" using assms by (auto simp: holds_def links_names)
qed

lemma holds_links:
  assumes "holds c r f j"
  shows "links j f = 1 \<or> links j f = 2" "links j f = 2 \<Longrightarrow> map_of j (pendingName c r) = Some f"
proof -
  show "links j f = 1 \<or> links j f = 2" using assms by (auto simp: holds_def links_names)
  assume 2: "links j f = 2"
  then have s: "(pendingName c r, f) \<in> set (namesOf f j)" using assms by (auto simp: holds_def links_names)
  then show "map_of j (pendingName c r) = Some f" using assms by (simp add: holds_def namesOf_mem)
qed

section \<open>Recovering what an earlier attempt left\<close>

lemma underway_setJ:
  assumes "underway c r p new old v" "decided c r j"
  shows "underway c r p new old (setJ j v)"
proof -
  have "safe c r p new old (setJ j v)"
  proof (rule safeI)
    fix j' t assume j': "j' \<in> insert (vo_J (setJ j v)) (set (vo_JPast (setJ j v)))" and "t \<in> insert (vo_T (setJ j v)) (set (vo_TPast (setJ j v)))"
    then have t: "t \<in> insert (vo_T v) (set (vo_TPast v))" by (simp add: setJ_def)
    show "consistent c r p new old (j', t)"
    proof (cases "j' = j")
      case True
      then show ?thesis using underway_tree [OF assms(1) t] assms(2) decided_present [OF assms(2)] by (auto simp: consistent_def)
    next
      case False
      then show ?thesis using safeD [of c r p new old v j' t] t j' assms(1) by (simp add: underway_def setJ_def)
    qed
  next
    show "set (vo_Dirty (setJ j v)) \<subseteq> {''.'', aj_Workspace r}"
      using assms(1) decided_present [of c r "vo_J v"] by (simp add: underway_def safe_def setJ_def)
  qed
  then show ?thesis using assms(2) by (simp add: underway_def setJ_def)
qed

text \<open>A call whose result the precondition determines.\<close>

lemma stage_known:
  assumes "\<And>v. P v \<Longrightarrow> f v = (v, Inr x)" "\<And>v. P v \<Longrightarrow> E v" "stage sure P (g x) Q E"
  shows "stage sure P (bindR (call f) g) Q E"
proof (rule stage_bind)
  show "stage sure P (call f) (\<lambda>y v. P v \<and> y = x) E" by (rule stage_call) (use assms(1,2) in auto)
  show "stage sure (\<lambda>v. P v \<and> y = x) (g y) Q E" for y using assms(3) by (cases "y = x") (auto intro: stage_vacuous)
qed

lemma stage_ex:
  assumes "\<And>x. stage sure (R x) p Q E" "\<And>v. P v \<Longrightarrow> \<exists>x. R x v"
  shows "stage sure P p Q E"
  unfolding stage_def [of _ P]
proof (intro allI impI)
  fix m :: machine assume "P (mc_Vol m)"
  then obtain x where x: "R x (mc_Vol m)" using assms(2) by blast
  show "case p m of (m', Inl e) \<Rightarrow> E (mc_Vol m') \<and> (sure \<longrightarrow> \<not> clean m) | (m', Inr x) \<Rightarrow> Q x (mc_Vol m') \<and> (clean m \<longrightarrow> clean m')"
    by (rule assms(1) [unfolded stage_def, rule_format, OF x])
qed

text \<open>The file that is read, and its number of names.\<close>

definition atRest :: "journalContext \<Rightarrow> archiveJournal \<Rightarrow> string \<Rightarrow> content \<Rightarrow> content \<Rightarrow> jfile \<Rightarrow> nat \<Rightarrow> volume \<Rightarrow> bool" where
  "atRest c r p new old f n v \<longleftrightarrow> underway c r p new old v \<and> holds c r f (vo_J v) \<and> links (vo_J v) f = n"

lemma atRest_known:
  assumes "atRest c r p new old f n v"
  shows "map_of (vo_J v) (jc_Journal c) = Some f" "jf_Private f" "n = 1 \<or> n = 2" "n = 2 \<Longrightarrow> map_of (vo_J v) (pendingName c r) = Some f"
    and "links (vo_J v) f = n" "jf_Data f = journalText r" "length (journalText r) \<le> archiveJournalLimit" "workspaceOk r (vo_T v)" "underway c r p new old v"
    and "safe c r p new old v"
proof -
  have u: "underway c r p new old v" and h: "holds c r f (vo_J v)" and n: "links (vo_J v) f = n" using assms by (auto simp: atRest_def)
  then show "map_of (vo_J v) (jc_Journal c) = Some f" "jf_Private f" "jf_Data f = journalText r" "length (journalText r) \<le> archiveJournalLimit"
    "links (vo_J v) f = n" "underway c r p new old v" "safe c r p new old v" by (auto simp: holds_def underway_def)
  show "workspaceOk r (vo_T v)" using underway_tree [OF u] by simp
  show "n = 1 \<or> n = 2" "n = 2 \<Longrightarrow> map_of (vo_J v) (pendingName c r) = Some f" using holds_links [OF h] n by auto
qed

lemma stage_finishPending:
  "stage True (atRest c r p new old f n) (finishPending c r f) (\<lambda>_. underway c r p new old) (safe c r p new old)"
proof -
  let ?S = "safe c r p new old"
  have E: "atRest c r p new old f k v \<Longrightarrow> ?S v" for k v by (rule atRest_known(10))
  have same: "sameName f (Some (f, k)) \<longleftrightarrow> jf_Private f" "linkCount (Some (f, k)) = k" for k by (auto simp: sameName_def linkCount_def)
  have once: "stage True (atRest c r p new old f 1)
    (bindR (call (\<lambda>v. (v, Inr (links (vo_J v) f)))) (\<lambda>n2. bindR (lstatJournal (jc_Journal c)) (\<lambda>named2. bindR (requireR (named2 \<noteq> None) notExist) (\<lambda>_.
     requireR (jf_Private f \<and> sameName f named2 \<and> n2 = 1 \<and> linkCount named2 = 1) (Fail ''copy recovery journal changed while finishing publication'')))))
    (\<lambda>_. underway c r p new old) ?S"
  proof (rule stage_known [where x = 1])
    show "stage True (atRest c r p new old f 1) (bindR (lstatJournal (jc_Journal c)) (\<lambda>named2. bindR (requireR (named2 \<noteq> None) notExist) (\<lambda>_.
     requireR (jf_Private f \<and> sameName f named2 \<and> (1::nat) = 1 \<and> linkCount named2 = 1) (Fail ''copy recovery journal changed while finishing publication''))))
     (\<lambda>_. underway c r p new old) ?S"
      unfolding lstatJournal_def
    proof (rule stage_known [where x = "Some (f, 1)"])
      show "stage True (atRest c r p new old f 1) (bindR (requireR (Some (f, 1::nat) \<noteq> None) notExist) (\<lambda>_.
        requireR (jf_Private f \<and> sameName f (Some (f, 1)) \<and> (1::nat) = 1 \<and> linkCount (Some (f, 1)) = 1) (Fail ''copy recovery journal changed while finishing publication'')))
        (\<lambda>_. underway c r p new old) ?S"
        using atRest_known(2,9) by (auto simp: same stage_def requireR_def)
    qed (use E in \<open>auto simp: atRest_known\<close>)
  qed (use E in \<open>auto simp: atRest_known\<close>)
  have twice: "stage True (atRest c r p new old f 2) (bindR (removeJournal (pendingName c r)) (\<lambda>_. syncJournals)) (\<lambda>_. atRest c r p new old f 1) ?S"
  proof (rule stage_bind)
    show "stage True (atRest c r p new old f 2) (removeJournal (pendingName c r)) (\<lambda>_. atRest c r p new old f 1) ?S"
      unfolding removeJournal_def
    proof (rule stage_call)
      fix v v' x assume v: "atRest c r p new old f 2 v" and e: "(if map_of (vo_J v) (pendingName c r) = None then (v, Inl notExist)
        else (setJ (filter (\<lambda>(n, f). n \<noteq> pendingName c r) (vo_J v)) v, Inr ())) = (v', Inr x)"
      have h: "holds c r f (vo_J v)" using v by (simp add: atRest_def)
      have "v' = setJ (filter (\<lambda>(n, f). n \<noteq> pendingName c r) (vo_J v)) v" using e by (auto split: if_splits)
      moreover have "decided c r (filter (\<lambda>(n, f). n \<noteq> pendingName c r) (vo_J v))" unfolding decided_def by (rule exI, rule holds_without(1) [OF h])
      ultimately show "atRest c r p new old f 1 v'" using underway_setJ [OF atRest_known(9) [OF v]] holds_without [OF h] by (simp add: atRest_def setJ_def)
    next
      fix v v' e assume "atRest c r p new old f 2 v" "(if map_of (vo_J v) (pendingName c r) = None then (v, Inl notExist)
        else (setJ (filter (\<lambda>(n, f). n \<noteq> pendingName c r) (vo_J v)) v, Inr ())) = (v', Inl e)"
      then show "?S v' \<and> \<not> True" using atRest_known(4) [of c r p new old f 2 v] by auto
    qed (rule E)
    show "stage True (atRest c r p new old f 1) syncJournals (\<lambda>_. atRest c r p new old f 1) ?S"
      unfolding syncJournals_def
      by (rule stage_call) (use E underway_synced in \<open>auto simp: atRest_def\<close>)
  qed
  show ?thesis
  proof (cases "n = 1 \<or> n = 2")
    case False
    then show ?thesis using atRest_known(3) by (intro stage_vacuous) blast
  next
    case True
    show ?thesis
    proof (cases "jf_Private f")
      case priv: False
      then show ?thesis using atRest_known(2) by (intro stage_vacuous) blast
    next
      case priv: True
      let ?rest = "bindR (call (\<lambda>v. (v, Inr (links (vo_J v) f)))) (\<lambda>n2. bindR (lstatJournal (jc_Journal c)) (\<lambda>named2. bindR (requireR (named2 \<noteq> None) notExist) (\<lambda>_.
        requireR (jf_Private f \<and> sameName f named2 \<and> n2 = 1 \<and> linkCount named2 = 1) (Fail ''copy recovery journal changed while finishing publication''))))"
      have 2: "stage True (atRest c r p new old f 2) (bindR (lstatJournal (pendingName c r)) (\<lambda>other. bindR (requireR (other \<noteq> None) notExist) (\<lambda>_.
          bindR (requireR (sameName f other \<and> linkCount other = 2) (Fail ''copy recovery journal has an unrelated hard link'')) (\<lambda>_.
          bindR (removeJournal (pendingName c r)) (\<lambda>_. syncJournals))))) (\<lambda>_. atRest c r p new old f 1) ?S"
        unfolding lstatJournal_def
        by (rule stage_known [where x = "Some (f, 2)"]) (use E atRest_known(4,5) [of c r p new old f 2] twice priv in \<open>auto simp: same\<close>)
      have "stage True (atRest c r p new old f n) (bindR (if n = 2 then bindR (lstatJournal (pendingName c r)) (\<lambda>other. bindR (requireR (other \<noteq> None) notExist) (\<lambda>_.
          bindR (requireR (sameName f other \<and> linkCount other = 2) (Fail ''copy recovery journal has an unrelated hard link'')) (\<lambda>_.
          bindR (removeJournal (pendingName c r)) (\<lambda>_. syncJournals)))) else returnR ()) (\<lambda>_. ?rest)) (\<lambda>_. underway c r p new old) ?S"
        using True once stage_bind [OF 2 once] by auto
      then have named: "stage True (atRest c r p new old f n) (bindR (lstatJournal (jc_Journal c)) (\<lambda>named. bindR (requireR (named \<noteq> None) notExist) (\<lambda>_.
        bindR (requireR (jf_Private f \<and> sameName f named \<and> (n = 1 \<or> n = 2)) (Fail ''copy recovery journal is not a private singly linked file'')) (\<lambda>_.
        bindR (if n = 2 then bindR (lstatJournal (pendingName c r)) (\<lambda>other. bindR (requireR (other \<noteq> None) notExist) (\<lambda>_.
          bindR (requireR (sameName f other \<and> linkCount other = 2) (Fail ''copy recovery journal has an unrelated hard link'')) (\<lambda>_.
          bindR (removeJournal (pendingName c r)) (\<lambda>_. syncJournals)))) else returnR ()) (\<lambda>_. ?rest))))) (\<lambda>_. underway c r p new old) ?S"
        unfolding lstatJournal_def [of "jc_Journal c"]
        by (intro stage_known [where x = "Some (f, n)"]) (use E atRest_known(1,5) [of c r p new old f n] priv True in \<open>simp_all add: same\<close>)
      show ?thesis unfolding finishPending_def
        by (rule stage_known [where x = n]) (use E atRest_known(5) named in auto)
    qed
  qed
qed


lemma stage_plain_bind: "(\<And>v. P v \<Longrightarrow> E v) \<Longrightarrow> stage sure P (g ()) Q E \<Longrightarrow> stage sure P (bindR plainCall g) Q E"
  unfolding plainCall_def by (rule stage_known) auto

lemma stage_readJournal:
  assumes r: "recordFor c r new old"
  shows "stage True (underway c r p new old) (readJournal c) (\<lambda>x v. x = Some r \<and> underway c r p new old v) (safe c r p new old)"
proof (rule stage_ex [where R = "\<lambda>(f, n). atRest c r p new old f n"])
  let ?S = "safe c r p new old"
  fix x :: "jfile \<times> nat"
  obtain f n where x: "x = (f, n)" by (cases x)
  have E: "atRest c r p new old f k v \<Longrightarrow> ?S v" for k v by (rule atRest_known(10))
  have pub: "publishes r new old" and rt: "recordText r" and m: "matchesTarget c (aj_Target r)" "aj_Parent r = jc_ParentID c" "aj_Marker r = []" "aj_Backup r = []"
    using r by (auto simp: recordFor_def matchesTarget_def)
  have w: "plainName (aj_Workspace r)" "HasPrefix (aj_Workspace r) ''.crabbox-cp-publish-''" "aj_WorkspaceID r \<noteq> []"
    and d: "aj_Decision r = ''publish''" "aj_New r \<noteq> []" using pub by (auto simp: publishes_def)
  have fin: "stage True (atRest c r p new old f n) (bindR (finishPending c r f) (\<lambda>_. returnR (Some r))) (\<lambda>x v. x = Some r \<and> underway c r p new old v) ?S"
    by (rule stage_bind [OF stage_finishPending]) (auto intro: stage_return)
  have val: "stage True (atRest c r p new old f n) (validateWorkspace r) (\<lambda>_. atRest c r p new old f n) ?S"
    by (rule stage_validate [OF E _ w]) (auto simp: atRest_known(8))
  have rest: "stage True (atRest c r p new old f n) (bindR (validateWorkspace r) (\<lambda>_. bindR (finishPending c r f) (\<lambda>_. returnR (Some r)))) (\<lambda>x v. x = Some r \<and> underway c r p new old v) ?S"
    by (rule stage_bind [OF val fin])
  have "stage True (atRest c r p new old f n) (readJournal c) (\<lambda>x v. x = Some r \<and> underway c r p new old v) ?S"
  proof (cases "jf_Private f \<and> (n = 1 \<or> n = 2) \<and> jf_Data f = journalText r \<and> length (journalText r) \<le> archiveJournalLimit")
    case False
    then show ?thesis using atRest_known by (intro stage_vacuous) metis
  next
    case True
    then show ?thesis
      unfolding readJournal_def lstatJournal_def
      by (intro stage_known [where x = "Some (f, n)"])
        (use E rest atRest_known(1,5) d m rt in \<open>simp_all add: stage_plain_bind decodeJournal_text recordText_def\<close>)
  qed
  then show "stage True ((\<lambda>(f, n). atRest c r p new old f n) x) (readJournal c) (\<lambda>x v. x = Some r \<and> underway c r p new old v) ?S" by (simp add: x)
next
  fix v assume "underway c r p new old v"
  then show "\<exists>x. (\<lambda>(f, n). atRest c r p new old f n) x v" by (auto simp: underway_def atRest_def decided_def)
qed

lemma stage_recoverPrevious:
  assumes "recordFor c r new old"
  shows "stage True (underway c r p new old) (recoverPrevious c) (\<lambda>_. finished c r new) (safe c r p new old)"
  unfolding recoverPrevious_def
proof (rule stage_bind [OF stage_readJournal [OF assms]])
  fix x
  have "publishes r new old" using assms by (simp add: recordFor_def)
  from stage_recover [OF this, of c p]
  show "stage True (\<lambda>v. x = Some r \<and> underway c r p new old v)
    (case x of None \<Rightarrow> returnR () | Some r \<Rightarrow> recoverArchive c r) (\<lambda>_. finished c r new) (safe c r p new old)"
    by (cases "x = Some r") (auto intro: stage_vacuous elim: stage_pre)
qed

end
