(* ===== verification/ArchiveCrash.thy ===== *)
theory ArchiveCrash
  imports ArchivePublish
begin

text \<open>
  Crash consistency of \<open>publishJournaledArchive\<close>: every call of a publication leaves a consistent state,
  and so does every interrupted attempt to recover it.
\<close>

text \<open>There may be nothing to recover.\<close>

lemma stage_nothing:
  assumes "\<And>v. P v \<Longrightarrow> map_of (vo_J v) (jc_Journal c) = None" "\<And>v. P v \<Longrightarrow> E v"
  shows "stage sure P (recoverPrevious c) (\<lambda>_. P) E"
  unfolding recoverPrevious_def readJournal_def lstatJournal_def bind_assoc
  by (rule stage_known [where x = None]) (use assms in \<open>auto intro: stage_return\<close>)

section \<open>A destination that is ready for a publication\<close>

definition workspaceName :: "string \<Rightarrow> string" where
  "workspaceName hex = ''.crabbox-cp-publish-'' @ hex"

text \<open>The payload is at \<open>p\<close> beside the destination, the random name is new, the journal directory has no
  decision and no file with the identity of the one to be created, and the text of the record is UTF-8.\<close>

definition readyFor :: "publication \<Rightarrow> journalContext \<Rightarrow> string \<Rightarrow> string \<Rightarrow> jdir \<times> tree \<Rightarrow> bool" where
  "readyFor pub c p hex s \<longleftrightarrow>
     (case s of (j, t) \<Rightarrow>
        pb_Context pub = Inr c \<and> pb_Token pub = Inr hex
        \<and> (case pb_Physical pub of Inr physical \<Rightarrow> relativeTo (dirOf (jc_Target c)) physical = Some p | Inl _ \<Rightarrow> False)
        \<and> plainName (baseOf c) \<and> CHR ''/'' \<notin> set hex \<and> baseOf c \<noteq> workspaceName hex \<and> apart p (baseOf c) \<and> apart p (workspaceName hex)
        \<and> below t (workspaceName hex) = nothing \<and> (map_of t (baseOf c) = None \<longrightarrow> below t (baseOf c) = nothing)
        \<and> map_of j (jc_Journal c) = None \<and> distinct (map fst j) \<and> (\<forall>(n, f) \<in> set j. jf_ID f \<noteq> pb_File pub)
        \<and> list_all utf8_valid [jc_Target c, jc_ParentID c, hex])"

definition planned :: "publication \<Rightarrow> journalContext \<Rightarrow> string \<Rightarrow> string \<Rightarrow> tree \<Rightarrow> archiveJournal" where
  "planned pub c p hex t = emptyJournal\<lparr>aj_Version := 2, aj_Target := jc_Target c, aj_Parent := jc_ParentID c, aj_Workspace := workspaceName hex,
     aj_WorkspaceID := archiveIdentity (Some (pb_Made pub)), aj_Decision := ''publish'', aj_New := archiveIdentity (map_of t p),
     aj_Old := archiveIdentity (map_of t (baseOf c))\<rparr>"

lemma planned_simps [simp]:
  "aj_Workspace (planned pub c p hex t) = workspaceName hex" "baseName (planned pub c p hex t) = baseOf c"
  "aj_WorkspaceID (planned pub c p hex t) = archiveIdentity (Some (pb_Made pub))" "aj_Decision (planned pub c p hex t) = ''publish''"
  by (simp_all add: planned_def baseName_def baseOf_def)

lemma identity_utf8: "utf8_valid (archiveIdentity e)"
proof -
  have d: "is_ascii (dec_nat n)" for n using dec_nat_digits [of _ n] by (fastforce simp: is_ascii_def list_all_iff)
  have "is_ascii (archiveIdentity e)" using d by (auto simp: archiveIdentity_def is_ascii_def code_def split: option.splits)
  then show ?thesis by (rule utf8_valid_ascii)
qed

lemma workspaceName_plain: "CHR ''/'' \<notin> set hex \<Longrightarrow> plainName (workspaceName hex)"
  by (auto simp: workspaceName_def plainName_def)

lemma workspaceName_prefix: "HasPrefix (workspaceName hex) ''.crabbox-cp-publish-''"
  by (simp add: workspaceName_def HasPrefix_def)

lemma planned_for:
  assumes "readyFor pub c p hex (j, t)" "map_of t p \<noteq> None"
  shows "recordFor c (planned pub c p hex t) (below t p) (below t (baseOf c))"
proof -
  have u: "utf8_valid (jc_Target c)" "utf8_valid (jc_ParentID c)" "utf8_valid hex" using assms(1) by (auto simp: readyFor_def)
  have "utf8_valid ''.crabbox-cp-publish-''" "utf8_valid ''publish''" by (rule utf8_valid_ascii, simp add: is_ascii_def code_def)+
  then have "utf8_valid (workspaceName hex)" "utf8_valid ''publish''"
    unfolding workspaceName_def using u(3) by (blast intro: utf8_valid_append)+
  then show ?thesis using assms u workspaceName_plain [of hex] workspaceName_prefix identity_utf8
    by (auto simp: recordFor_def publishes_def recordText_def readyFor_def planned_def emptyJournal_def baseName_def baseOf_def)
qed

section \<open>The trees of a publication\<close>

definition withWorkspace :: "publication \<Rightarrow> string \<Rightarrow> tree \<Rightarrow> tree" where
  "withWorkspace pub hex t = (workspaceName hex, pb_Made pub) # t"

definition taken :: "publication \<Rightarrow> string \<Rightarrow> string \<Rightarrow> tree \<Rightarrow> tree" where
  "taken pub p hex t = treeRename p (inDir (workspaceName hex) ''new'') (withWorkspace pub hex t)"

text \<open>What the code requires beyond this: no legacy data, a destination and payload of the right kinds and places, a
  private workspace, and a record within the limit whose pending name is free.\<close>

definition smooth :: "publication \<Rightarrow> journalContext \<Rightarrow> string \<Rightarrow> string \<Rightarrow> jdir \<times> tree \<Rightarrow> bool" where
  "smooth pub c p hex s \<longleftrightarrow>
     (case s of (j, t) \<Rightarrow>
        pb_Lock pub = None \<and> map_of t (backupName (baseOf c)) = None \<and> map_of t (markerName (baseOf c)) = None
        \<and> (case map_of t (baseOf c) of Some e \<Rightarrow> en_Kind e \<noteq> Symlink | None \<Rightarrow> True)
        \<and> (case map_of t p of Some e \<Rightarrow> en_Kind e = Directory \<or> en_Kind e = Regular | None \<Rightarrow> False)
        \<and> archivePrivateDirectory (pb_Made pub) \<and> p \<noteq> baseOf c
        \<and> (case pb_Physical pub of Inr physical \<Rightarrow> \<not> archivePathWithin (jc_Darwin c) (jc_Target c) physical | Inl _ \<Rightarrow> False)
        \<and> (dirOf p = ''.'' \<or> map_of (taken pub p hex t) (dirOf p) \<noteq> None)
        \<and> length (journalText (planned pub c p hex t)) \<le> archiveJournalLimit
        \<and> map_of j (pendingName c (planned pub c p hex t)) = None)"

lemma below_inside: "below t d = nothing \<Longrightarrow> below t (inDir d n) = nothing"
proof
  fix s assume "below t d = nothing"
  then have "below t d (CHR ''/'' # n @ s) = None" by simp
  then show "below t (inDir d n) s = None" by (simp add: below_def inDir_def)
qed

lemma trees:
  assumes "readyFor pub c p hex (j, t)"
  defines "t1 \<equiv> withWorkspace pub hex t" and "t2 \<equiv> taken pub p hex t" and "r \<equiv> planned pub c p hex t"
  shows "below t1 (baseOf c) = below t (baseOf c)" "below t1 p = below t p"
    and "slots r t2 = (below t (baseOf c), below t p, nothing)"
    and "archivePrivateDirectory (pb_Made pub) \<Longrightarrow> workspaceOk r t2"
proof -
  let ?ws = "workspaceName hex"
  have ready: "plainName (baseOf c)" "plainName ?ws" "baseOf c \<noteq> ?ws" "apart p (baseOf c)" "apart p ?ws" "below t ?ws = nothing"
    using assms(1) workspaceName_plain by (auto simp: readyFor_def)
  have b: "apart (baseOf c) ?ws" by (rule apart_names [OF ready(1-3)])
  show 1: "below t1 (baseOf c) = below t (baseOf c)" "below t1 p = below t p"
    using below_Cons [OF b] below_Cons [OF ready(5)] by (simp_all add: t1_def withWorkspace_def)
  have inside: "below t1 (inDir ?ws n) = nothing" for n
  proof
    fix s
    have "?ws \<noteq> inDir ?ws n @ s" by (simp add: inDir_def)
    then show "below t1 (inDir ?ws n) s = None"
      using fun_cong [OF below_inside [OF ready(6), of n], of s] by (auto simp: t1_def withWorkspace_def below_def)
  qed
  have a: "apart p (inDir ?ws ''new'')" "apart (baseOf c) (inDir ?ws ''new'')" "apart (inDir ?ws ''old'') p" "apart (inDir ?ws ''old'') (inDir ?ws ''new'')"
    using apart_inDir [OF ready(5,2)] apart_inDir [OF b ready(2)] apart_siblings [OF ready(2)] apart_sym by auto
  have s: "newSlot r = inDir ?ws ''new''" "oldSlot r = inDir ?ws ''old''" "baseName r = baseOf c" by (simp_all add: r_def newSlot_def oldSlot_def)
  show "slots r t2 = (below t (baseOf c), below t p, nothing)"
    using below_treeRename(1) [OF a(1), of t1] below_treeRename(3) [OF a(1) apart_sym [OF ready(4)] a(2), of t1] below_treeRename(3) [OF a(1) a(3,4), of t1] 1 inside
    by (simp add: slots_def s t2_def taken_def t1_def)
  have w: "\<not> within ?ws p" "\<not> within ?ws (inDir ?ws ''new'')"
    using ready(5) within_name [OF ready(2), of "inDir ?ws ''new''"] inDir_slash [of ?ws "''new''"] ready(2) by (auto simp: apart_def inDir_def plainName_def)
  show "workspaceOk r t2" if "archivePrivateDirectory (pb_Made pub)"
    using that w by (simp add: workspaceOk_def r_def t2_def taken_def map_of_treeRename [OF a(1)] withWorkspace_def)
qed

section \<open>The stages of a publication\<close>

text \<open>Whatever survives, the destination is the old tree and the payload is kept, or the decision is there.\<close>

abbreviation kept :: "publication \<Rightarrow> journalContext \<Rightarrow> string \<Rightarrow> string \<Rightarrow> tree \<Rightarrow> volume \<Rightarrow> bool" where
  "kept pub c p hex t \<equiv> safe c (planned pub c p hex t) p (below t p) (below t (baseOf c))"

lemma undecided_kept:
  assumes "readyFor pub c p hex (j, t)"
    and "\<forall>j' \<in> insert (vo_J v) (set (vo_JPast v)). map_of j' (jc_Journal c) = None"
    and "insert (vo_T v) (set (vo_TPast v)) \<subseteq> {t, withWorkspace pub hex t, taken pub p hex t}"
  shows "kept pub c p hex t v"
proof (rule safeI)
  let ?r = "planned pub c p hex t"
  fix j' t' assume j': "j' \<in> insert (vo_J v) (set (vo_JPast v))" and "t' \<in> insert (vo_T v) (set (vo_TPast v))"
  then have t': "t' = t \<or> t' = withWorkspace pub hex t \<or> t' = taken pub p hex t" using assms(3) by blast
  have "below t' (baseName ?r) = below t (baseOf c) \<and> (below t' p = below t p \<or> below t' (newSlot ?r) = below t p)"
    using t' trees(1,2) [OF assms(1)] trees(3) [OF assms(1)] by (auto simp: slots_def)
  moreover have "map_of j' (jc_Journal c) = None" by (rule bspec [OF assms(2) j'])
  ultimately show "consistent c ?r p (below t p) (below t (baseOf c)) (j', t')" by (simp add: consistent_def)
qed (use assms(2) in simp)

definition loose :: "publication \<Rightarrow> string \<Rightarrow> string \<Rightarrow> jdir \<Rightarrow> tree \<Rightarrow> string set \<Rightarrow> volume \<Rightarrow> bool" where
  "loose pub p hex j t D v \<longleftrightarrow> vo_J v = j \<and> vo_JPast v = [] \<and> vo_T v = taken pub p hex t \<and> set (vo_TPast v) \<subseteq> {withWorkspace pub hex t}
     \<and> set (vo_Dirty v) \<subseteq> D \<and> (D = {} \<longrightarrow> vo_TPast v = [])"

lemma loose_kept:
  assumes "readyFor pub c p hex (j, t)" "loose pub p hex j t D v"
  shows "kept pub c p hex t v"
  using undecided_kept [OF assms(1), of v] assms by (auto simp: loose_def readyFor_def)

lemma removeAll_only: "removeAll n xs = [] \<longleftrightarrow> set xs \<subseteq> {n}"
  by (induction xs) auto

lemma stage_loose_sync:
  assumes "readyFor pub c p hex (j, t)" "sure \<Longrightarrow> n = ''.'' \<or> map_of (taken pub p hex t) n \<noteq> None"
  shows "stage sure (loose pub p hex j t D) (syncArchiveRootDirectory n) (\<lambda>_. loose pub p hex j t (D - {n})) (loose pub p hex j t D)"
  unfolding syncArchiveRootDirectory_def
  by (rule stage_call) (use assms(2) in \<open>auto simp: loose_def Let_def removeAll_only split: if_splits\<close>)

lemma loose_mono: "loose pub p hex j t D v \<Longrightarrow> D \<subseteq> D' \<Longrightarrow> loose pub p hex j t D' v"
  by (auto simp: loose_def)

text \<open>The payload becomes the workspace's own.\<close>

lemma stage_take:
  assumes ready: "readyFor pub c p hex (j, t)" and go: "sure \<Longrightarrow> smooth pub c p hex (j, t)"
  defines "r \<equiv> planned pub c p hex t"
  shows "stage sure (\<lambda>v. v = settled (j, withWorkspace pub hex t))
    (bindR (renameEntry p (newSlot r)) (\<lambda>_. bindR (wrapError (syncArchiveRootDirectory (dirOf p))) (\<lambda>_. wrapError (syncRecord r))))
    (\<lambda>_ v. v = settled (j, taken pub p hex t)) (kept pub c p hex t)"
proof -
  let ?L = "loose pub p hex j t" and ?ws = "workspaceName hex"
  note safe = loose_kept [OF ready]
  have made: "map_of (taken pub p hex t) ?ws \<noteq> None" if sure
    using trees(4) [OF ready] go [OF that] by (auto simp: smooth_def workspaceOk_def)
  have there: "map_of (withWorkspace pub hex t) p \<noteq> None" if sure
    using trees(2) [OF ready] go [OF that] below_Nil [of "withWorkspace pub hex t" p] by (auto simp: smooth_def split: option.splits)
  have ws: "dirOf (newSlot r) = ?ws" "plainName ?ws"
    using ready workspaceName_plain [of hex] by (auto simp: readyFor_def r_def newSlot_def dirOf_inDir)
  have ren: "stage sure (\<lambda>v. v = settled (j, withWorkspace pub hex t)) (renameEntry p (newSlot r)) (\<lambda>_. ?L {dirOf p, ?ws}) (kept pub c p hex t)"
    unfolding renameEntry_def
  proof (rule stage_call)
    show "kept pub c p hex t v" if "v = settled (j, withWorkspace pub hex t)" for v
      by (rule undecided_kept [OF ready]) (use that ready in \<open>auto simp: settled_def readyFor_def\<close>)
    then show "kept pub c p hex t v' \<and> \<not> sure" if "v = settled (j, withWorkspace pub hex t)"
      "(if map_of (vo_T v) p = None then (v, Inl notExist) else (setT [dirOf p, dirOf (newSlot r)] (treeRename p (newSlot r) (vo_T v)) v, Inr ())) = (v', Inl e)" for v v' e
      using that there by (auto simp: settled_def split: if_splits)
  qed (use ws in \<open>auto simp: loose_def settled_def setT_def taken_def r_def newSlot_def split: if_splits\<close>)
  have s1: "stage sure (?L {dirOf p, ?ws}) (wrapError (syncArchiveRootDirectory (dirOf p))) (\<lambda>_. ?L {?ws}) (kept pub c p hex t)"
    by (rule stage_wrap, rule stage_conseq [OF stage_loose_sync [OF ready, where sure = sure]]) (use go in \<open>auto simp: smooth_def intro: safe elim: loose_mono\<close>)
  have s2: "stage sure (?L {?ws}) (wrapError (syncRecord r)) (\<lambda>_ v. v = settled (j, taken pub p hex t)) (kept pub c p hex t)"
    unfolding syncRecord_def
  proof (rule stage_wrap, rule stage_both)
    show "stage sure (?L {?ws}) (syncArchiveRootDirectory (aj_Workspace r)) (\<lambda>_. ?L {}) (?L {?ws})"
      by (rule stage_conseq [OF stage_loose_sync [OF ready, where sure = sure]]) (use made in \<open>auto simp: r_def\<close>)
    show "stage sure (?L {}) (syncArchiveRootDirectory ''.'') (\<lambda>_ v. v = settled (j, taken pub p hex t)) (kept pub c p hex t)"
      by (rule stage_conseq [OF stage_loose_sync [OF ready, where D = "{}" and n = "''.''" and sure = sure]]) (auto simp: loose_def settled_def intro: safe)
    show "stage False (?L {?ws}) (syncArchiveRootDirectory ''.'') (\<lambda>_. kept pub c p hex t) (kept pub c p hex t)"
      by (rule stage_conseq [OF stage_loose_sync [OF ready, where sure = False]]) (auto intro: safe)
  qed
  show ?thesis by (intro stage_bind [OF ren] stage_bind [OF s1] s2)
qed

section \<open>Writing the decision\<close>

text \<open>While the decision is written, every state of the journal directory holds it whole or not at all.\<close>

definition writing :: "journalContext \<Rightarrow> archiveJournal \<Rightarrow> tree \<Rightarrow> volume \<Rightarrow> bool" where
  "writing c r t v \<longleftrightarrow> vo_T v = t \<and> vo_TPast v = [] \<and> vo_Dirty v = []
     \<and> (\<forall>j \<in> insert (vo_J v) (set (vo_JPast v)). map_of j (jc_Journal c) = None \<or> decided c r j)"

definition recordFile :: "nat \<Rightarrow> archiveJournal \<Rightarrow> jfile" where
  "recordFile ident r = \<lparr>jf_ID = ident, jf_Private = True, jf_Elsewhere = 0, jf_Data = journalText r\<rparr>"

lemma writing_setJ: "writing c r t v \<Longrightarrow> map_of j (jc_Journal c) = None \<or> decided c r j \<Longrightarrow> writing c r t (setJ j v)"
  by (auto simp: writing_def setJ_def)

lemma decided_without: "decided c r j \<Longrightarrow> decided c r (filter (\<lambda>(n, f). n \<noteq> pendingName c r) j)"
  unfolding decided_def by (elim exE) (rule exI, erule holds_without(1))

lemma stage_dropPending:
  "stage False (writing c r t) (ignoring (removeJournal (pendingName c r))) (\<lambda>_. writing c r t) (writing c r t)"
proof (rule stage_ignoring)
  show "stage False (writing c r t) (removeJournal (pendingName c r)) (\<lambda>_. writing c r t) (writing c r t)"
    unfolding removeJournal_def
  proof (rule stage_call)
    fix v v' x assume v: "writing c r t v" and e: "(if map_of (vo_J v) (pendingName c r) = None then (v, Inl notExist)
      else (setJ (filter (\<lambda>(n, f). n \<noteq> pendingName c r) (vo_J v)) v, Inr ())) = (v', Inr x)"
    have "map_of (vo_J v) (jc_Journal c) = None \<or> decided c r (vo_J v)" using v by (simp add: writing_def)
    then have "map_of (filter (\<lambda>(n, f). n \<noteq> pendingName c r) (vo_J v)) (jc_Journal c) = None \<or> decided c r (filter (\<lambda>(n, f). n \<noteq> pendingName c r) (vo_J v))"
      using decided_without map_of_without [of "pendingName c r" "vo_J v" "jc_Journal c"] by auto
    then show "writing c r t v'" using e writing_setJ [OF v] by (auto split: if_splits)
  qed (auto split: if_splits)
qed (simp add: removeJournal_def clean_call)

lemma decided_linked:
  assumes "distinct (map fst j)" "\<forall>(n, f) \<in> set j. jf_ID f \<noteq> ident" "map_of j (jc_Journal c) = None" "map_of j (pendingName c r) = None"
    and "length (journalText r) \<le> archiveJournalLimit"
  shows "decided c r ((jc_Journal c, recordFile ident r) # (pendingName c r, recordFile ident r) # j)"
proof -
  let ?f = "recordFile ident r"
  have "namesOf ?f j = []" using assms(2) by (auto simp: namesOf_def filter_empty_conv recordFile_def)
  then have "namesOf ?f ((jc_Journal c, ?f) # (pendingName c r, ?f) # j) = [(jc_Journal c, ?f), (pendingName c r, ?f)]" by (simp add: namesOf_def)
  moreover have "jc_Journal c \<notin> fst ` set j" "pendingName c r \<notin> fst ` set j" using assms(3,4) by (simp_all add: map_of_eq_None_iff)
  ultimately have "holds c r ?f ((jc_Journal c, ?f) # (pendingName c r, ?f) # j)"
    using assms(1,5) by (simp add: holds_def recordFile_def)
  then show ?thesis by (auto simp: decided_def)
qed

text \<open>The pending name takes the text and is linked as the decision.\<close>

lemma stage_linkDecision:
  assumes j: "distinct (map fst j)" "\<forall>(n, f) \<in> set j. jf_ID f \<noteq> ident" "map_of j (jc_Journal c) = None"
    and w: "workspaceOk r t" "plainName (aj_Workspace r)" "HasPrefix (aj_Workspace r) ''.crabbox-cp-publish-''" "aj_WorkspaceID r \<noteq> []"
    and go: "sure \<Longrightarrow> length (journalText r) \<le> archiveJournalLimit \<and> map_of j (pendingName c r) = None"
  shows "stage sure (\<lambda>v. v = settled (j, t)) (linkDecision c ident r)
    (\<lambda>n v. n = pendingName c r \<and> writing c r t v \<and> vo_J v = (jc_Journal c, recordFile ident r) # (pendingName c r, recordFile ident r) # j
       \<and> decided c r (vo_J v) \<and> map_of j n = None) (writing c r t)"
proof -
  let ?W = "writing c r t" and ?n = "pendingName c r" and ?f = "recordFile ident r"
  let ?empty = "\<lparr>jf_ID = ident, jf_Private = True, jf_Elsewhere = 0, jf_Data = []\<rparr>"
  let ?Q = "\<lambda>n v. n = ?n \<and> ?W v \<and> vo_J v = (jc_Journal c, ?f) # (?n, ?f) # j \<and> decided c r (vo_J v) \<and> map_of j n = None"
  let ?C = "\<lambda>v. ?W v \<and> vo_J v = (?n, ?empty) # j \<and> map_of j ?n = None \<and> length (journalText r) \<le> archiveJournalLimit"
  let ?D = "\<lambda>v. ?W v \<and> vo_J v = (?n, ?f) # j \<and> map_of j ?n = None \<and> length (journalText r) \<le> archiveJournalLimit"
  have s: "v = settled (j, t) \<Longrightarrow> ?W v" for v using j(3) by (simp add: writing_def settled_def)
  have val: "stage sure (\<lambda>v. v = settled (j, t)) (validateWorkspace r) (\<lambda>_ v. v = settled (j, t)) ?W"
    by (rule stage_conseq [OF stage_validate [OF s _ w(2-4)]]) (use w(1) in \<open>auto simp: settled_def\<close>)
  have create: "stage sure (\<lambda>v. v = settled (j, t) \<and> length (journalText r) \<le> archiveJournalLimit) (createJournal ?n ident) (\<lambda>_. ?C) ?W"
    unfolding createJournal_def
    by (rule stage_call) (use j(3) s go in \<open>auto simp: writing_def settled_def setJ_def split: if_splits\<close>)
  have map_j: "map (\<lambda>(n, f). if n = ?n then (n, f\<lparr>jf_Data := d\<rparr>) else (n, f)) j = j" if "map_of j ?n = None" for d
    using that by (intro map_idI) (force simp: map_of_eq_None_iff)
  have wr: "stage sure ?C (writeJournal ?n (journalText r)) (\<lambda>_. ?D) ?W"
    unfolding writeJournal_def
    by (rule stage_call) (use j(3) map_j in \<open>auto simp: recordFile_def writing_def setJ_def\<close>)
  have sync: "stage b P (bothR plainCall plainCall) (\<lambda>_. P) P" for b P
    by (rule stage_both [where A = P and B = P]) (auto intro: stage_plain)
  have both: "stage sure ?C (bothR (writeJournal ?n (journalText r)) (bothR plainCall plainCall)) (\<lambda>_. ?D) ?W"
    by (rule stage_both [OF wr]) (rule stage_conseq [OF sync [of sure ?D]], auto intro: sync)
  have link: "stage sure ?D (bindR (linkJournal ?n (jc_Journal c)) (\<lambda>_. returnR ?n)) ?Q ?W"
  proof (rule stage_bind)
    show "stage sure ?D (linkJournal ?n (jc_Journal c)) (\<lambda>_. ?Q ?n) ?W"
      unfolding linkJournal_def
      by (rule stage_call) (use j(3) decided_linked [OF j] in \<open>auto simp: writing_def setJ_def split: if_splits\<close>)
  qed (auto intro: stage_return)
  have err: "stage False ?W (ignoring (removeJournal ?n)) (\<lambda>_. ?W) ?W" by (rule stage_dropPending)
  show ?thesis
    unfolding linkDecision_def Let_def
    by (intro stage_bind [OF val] stage_bind [OF stage_require] stage_bind [OF create] stage_onError [OF _ err] stage_bind [OF both] link) (use go in \<open>auto intro: s\<close>)
qed

lemma writing_still:
  "writing c r t v \<Longrightarrow> vo_JPast v = [] \<Longrightarrow> decided c r (vo_J v) \<Longrightarrow> workspaceOk r t \<Longrightarrow> slots r t = y \<Longrightarrow> still c r {y} v"
  by (simp add: writing_def still_def going_def)

lemma stage_writeDecision:
  assumes j: "distinct (map fst j)" "\<forall>(n, f) \<in> set j. jf_ID f \<noteq> ident" "map_of j (jc_Journal c) = None"
    and w: "workspaceOk r t" "plainName (aj_Workspace r)" "HasPrefix (aj_Workspace r) ''.crabbox-cp-publish-''" "aj_WorkspaceID r \<noteq> []"
    and y: "slots r t = y"
    and go: "sure \<Longrightarrow> length (journalText r) \<le> archiveJournalLimit \<and> map_of j (pendingName c r) = None"
  shows "stage sure (\<lambda>v. v = settled (j, t)) (writeDecision c ident r) (\<lambda>_. still c r {y}) (writing c r t)"
  unfolding writeDecision_def
proof (rule stage_bind [OF stage_linkDecision [OF j w go]])
  fix temporary
  let ?W = "writing c r t" and ?n = "pendingName c r" and ?f = "recordFile ident r"
  let ?R = "\<lambda>v. still c r {y} v \<and> map_of (vo_J v) ?n = None"
  let ?P = "\<lambda>v. temporary = ?n \<and> ?W v \<and> vo_J v = (jc_Journal c, ?f) # (?n, ?f) # j \<and> decided c r (vo_J v) \<and> map_of j temporary = None"
  let ?M = "\<lambda>v. ?W v \<and> decided c r (vo_J v) \<and> map_of (vo_J v) ?n = None"
  have rem: "stage sure ?P (removeJournal ?n) (\<lambda>_. ?M) ?W"
    unfolding removeJournal_def
  proof (rule stage_call)
    fix v v' x assume v: "?P v" and e: "(if map_of (vo_J v) ?n = None then (v, Inl notExist)
      else (setJ (filter (\<lambda>(n, f). n \<noteq> ?n) (vo_J v)) v, Inr ())) = (v', Inr x)"
    have d: "decided c r (filter (\<lambda>(n, f). n \<noteq> ?n) (vo_J v))" using v decided_without by blast
    moreover have "v' = setJ (filter (\<lambda>(n, f). n \<noteq> ?n) (vo_J v)) v" using e by (auto split: if_splits)
    ultimately show "?M v'" using v writing_setJ [of c r t v] map_of_without [of ?n "vo_J v" ?n] by (simp add: setJ_def)
  qed (auto split: if_splits)
  have sync: "stage sure ?M syncJournals (\<lambda>_. ?R) ?W"
    unfolding syncJournals_def
    by (rule stage_call) (use w(1) y in \<open>auto simp: writing_def still_def going_def\<close>)
  have keep: "stage True ?R (ignoring (removeJournal ?n)) (\<lambda>_. ?R) ?R"
  proof (rule stage_ignoring)
    show "stage False ?R (removeJournal ?n) (\<lambda>_. ?R) ?R" unfolding removeJournal_def by (rule stage_call) auto
  qed (simp add: removeJournal_def clean_call)
  have "stage sure ?P (finallyR (bindR (removeJournal ?n) (\<lambda>_. syncJournals)) (ignoring (removeJournal ?n))) (\<lambda>_. ?R) ?W"
    by (rule stage_finally [OF stage_bind [OF rem sync] keep stage_dropPending]) (simp add: ignoring_def removeJournal_def clean_call)
  then have "stage sure ?P (finallyR (bindR (removeJournal ?n) (\<lambda>_. syncJournals)) (ignoring (removeJournal ?n))) (\<lambda>_. still c r {y}) ?W"
    by (rule stage_conseq) auto
  then show "stage sure ?P (finallyR (bindR (removeJournal temporary) (\<lambda>_. syncJournals)) (ignoring (removeJournal temporary))) (\<lambda>_. still c r {y}) ?W"
    by (cases "temporary = ?n") (simp, auto intro: stage_vacuous)
qed

lemma writing_kept:
  assumes ready: "readyFor pub c p hex (j, t)" and w: "writing c (planned pub c p hex t) (taken pub p hex t) v"
    and "archivePrivateDirectory (pb_Made pub)"
  shows "kept pub c p hex t v"
proof (rule safeI)
  let ?r = "planned pub c p hex t"
  fix j' t' assume j': "j' \<in> insert (vo_J v) (set (vo_JPast v))" and "t' \<in> insert (vo_T v) (set (vo_TPast v))"
  then have t': "t' = taken pub p hex t" and d: "map_of j' (jc_Journal c) = None \<or> decided c ?r j'" using w by (auto simp: writing_def)
  have "slots ?r t' = (below t (baseOf c), below t p, nothing)" "workspaceOk ?r t'" using trees(3,4) [OF ready] assms(3) by (simp_all add: t')
  then show "consistent c ?r p (below t p) (below t (baseOf c)) (j', t')"
    using d by (auto simp: consistent_def before_def slots_def dest: decided_present)
qed (use w in \<open>simp add: writing_def\<close>)

section \<open>A publication\<close>

lemma stage_makeWorkspace:
  assumes ready: "readyFor pub c p hex (j, t)" and go: "sure \<Longrightarrow> smooth pub c p hex (j, t)"
  shows "stage sure (\<lambda>v. v = settled (j, t)) (makeWorkspace c (pb_Token pub) (pb_Made pub))
    (\<lambda>r v. v = settled (j, withWorkspace pub hex t) \<and> archivePrivateDirectory (pb_Made pub)
       \<and> r\<lparr>aj_Decision := ''publish'', aj_New := archiveIdentity (map_of t p), aj_Old := archiveIdentity (map_of t (baseOf c))\<rparr> = planned pub c p hex t)
    (kept pub c p hex t)"
proof -
  let ?K = "kept pub c p hex t" and ?n = "workspaceName hex" and ?t1 = "withWorkspace pub hex t"
  have token: "pb_Token pub = Inr hex" and n: "plainName ?n" using ready workspaceName_plain by (auto simp: readyFor_def)
  have K: "?K v" if "vo_J v = j" "vo_JPast v = []" "insert (vo_T v) (set (vo_TPast v)) \<subseteq> {t, ?t1}" for v
    by (rule undecided_kept [OF ready]) (use that ready in \<open>auto simp: readyFor_def\<close>)
  have free: "map_of t ?n = None" using ready below_Nil [of t ?n] by (simp add: readyFor_def)
  let ?M = "\<lambda>v. v = setT [''.''] ?t1 (settled (j, t))"
  have mk: "stage sure (\<lambda>v. v = settled (j, t)) (mkdirEntry ?n (pb_Made pub)) (\<lambda>_. ?M) ?K"
    unfolding mkdirEntry_def
    by (rule stage_call) (use dirOf_name [OF n] K free in \<open>auto simp: settled_def withWorkspace_def split: if_splits\<close>)
  have M: "?M v \<Longrightarrow> ?K v" for v using K by (auto simp: setT_def settled_def)
  have sync: "stage sure ?M (syncArchiveRootDirectory ''.'') (\<lambda>_ v. v = settled (j, ?t1)) ?K"
    unfolding syncArchiveRootDirectory_def by (rule stage_call) (use M in \<open>auto simp: setT_def settled_def Let_def\<close>)
  let ?Q = "\<lambda>r v. v = settled (j, ?t1) \<and> archivePrivateDirectory (pb_Made pub)
    \<and> r\<lparr>aj_Decision := ''publish'', aj_New := archiveIdentity (map_of t p), aj_Old := archiveIdentity (map_of t (baseOf c))\<rparr> = planned pub c p hex t"
  have fin: "stage sure ?M (bindR (requireR (archivePrivateDirectory (pb_Made pub)) e) (\<lambda>_. bindR (syncArchiveRootDirectory ''.'') (\<lambda>_.
      returnR (emptyJournal\<lparr>aj_Version := 2, aj_Target := jc_Target c, aj_Parent := jc_ParentID c, aj_Workspace := ?n,
        aj_WorkspaceID := archiveIdentity (Some (pb_Made pub))\<rparr>)))) ?Q ?K" for e
  proof (cases "archivePrivateDirectory (pb_Made pub)")
    case True
    have "stage sure ?M (bindR (syncArchiveRootDirectory ''.'') (\<lambda>_. returnR (emptyJournal\<lparr>aj_Version := 2, aj_Target := jc_Target c,
      aj_Parent := jc_ParentID c, aj_Workspace := ?n, aj_WorkspaceID := archiveIdentity (Some (pb_Made pub))\<rparr>))) ?Q ?K"
      by (rule stage_bind [OF sync], rule stage_return) (simp add: True planned_def)
    then show ?thesis using True by simp
  next
    case False
    then show ?thesis using M go by (auto simp: stage_def bindR_def requireR_def smooth_def)
  qed
  show ?thesis
    unfolding makeWorkspace_def token workspaceName_def [symmetric] Let_def
    by (simp only: bind_pure lstat_def)
      (intro stage_bind [OF mk] stage_known [where x = "Some (pb_Made pub)"], use M fin in \<open>auto simp: setT_def withWorkspace_def\<close>)
qed

lemma stage_publishRecord:
  assumes ready: "readyFor pub c p hex (j, t)" and go: "sure \<Longrightarrow> smooth pub c p hex (j, t)" and payload: "map_of t p \<noteq> None" and made: "archivePrivateDirectory (pb_Made pub)"
  shows "stage sure (\<lambda>v. v = settled (j, withWorkspace pub hex t)) (publishRecord pub c (planned pub c p hex t))
    (\<lambda>_. finished c (planned pub c p hex t) (below t p)) (kept pub c p hex t)"
proof -
  let ?r = "planned pub c p hex t" and ?K = "kept pub c p hex t" and ?t2 = "taken pub p hex t"
  let ?y = "(below t (baseOf c), below t p, nothing)"
  have r: "publishes ?r (below t p) (below t (baseOf c))" using planned_for [OF ready payload] by (simp add: recordFor_def)
  then have w: "plainName (aj_Workspace ?r)" "HasPrefix (aj_Workspace ?r) ''.crabbox-cp-publish-''" "aj_WorkspaceID ?r \<noteq> []"
    unfolding publishes_def by blast+
  have j: "distinct (map fst j)" "\<forall>(n, f) \<in> set j. jf_ID f \<noteq> pb_File pub" "map_of j (jc_Journal c) = None"
    using ready by (auto simp: readyFor_def)
  have wr: "stage sure (\<lambda>v. v = settled (j, ?t2)) (wrapError (writeDecision c (pb_File pub) ?r)) (\<lambda>_. still c ?r {?y}) ?K"
    by (rule stage_wrap, rule stage_conseq [OF stage_writeDecision [OF j trees(4) [OF ready made] w trees(3) [OF ready], where sure = sure]])
      (use go in \<open>auto simp: smooth_def intro: writing_kept [OF ready _ made]\<close>)
  have rec: "stage sure (still c ?r {?y}) (recoverArchive c ?r) (\<lambda>_. finished c ?r (below t p)) ?K"
  proof (rule stage_conseq [OF stage_recover [OF r]])
    show "underway c ?r p (below t p) (below t (baseOf c)) v" if "still c ?r {?y} v" for v
      using still_safe [OF that, of "below t p" "below t (baseOf c)" p] that by (simp add: underway_def still_def going_def before_def)
  qed auto
  note take = stage_take [OF ready go]
  have rest: "stage sure (\<lambda>v. v = settled (j, withWorkspace pub hex t))
    (bindR (bindR (renameEntry p (newSlot ?r)) (\<lambda>_. bindR (wrapError (syncArchiveRootDirectory (dirOf p))) (\<lambda>_. wrapError (syncRecord ?r))))
      (\<lambda>_. bindR (wrapError (writeDecision c (pb_File pub) ?r)) (\<lambda>_. recoverArchive c ?r))) (\<lambda>_. finished c ?r (below t p)) ?K"
    by (intro stage_bind [OF take] stage_bind [OF wr] rec)
  obtain physical where phys: "pb_Physical pub = Inr physical" "relativeTo (dirOf (jc_Target c)) physical = Some p"
    using ready by (auto simp: readyFor_def split: sum.splits)
  have K: "?K (settled (j, withWorkspace pub hex t))"
    by (rule undecided_kept [OF ready]) (use j(3) in \<open>auto simp: settled_def\<close>)
  have eq: "publishRecord pub c ?r = bindR (requireR (p \<noteq> baseOf c \<and> \<not> archivePathWithin (jc_Darwin c) (jc_Target c) physical)
      (Fail ''copy publication payload must be staged separately beneath the destination parent'')) (\<lambda>_.
    bindR (bindR (renameEntry p (newSlot ?r)) (\<lambda>_. bindR (wrapError (syncArchiveRootDirectory (dirOf p))) (\<lambda>_. wrapError (syncRecord ?r))))
      (\<lambda>_. bindR (wrapError (writeDecision c (pb_File pub) ?r)) (\<lambda>_. recoverArchive c ?r)))"
    by (simp add: publishRecord_def phys newSlot_def bind_assoc bind_pure)
  show ?thesis unfolding eq by (rule stage_bind [OF stage_require [where E = ?K]]) (use K rest go phys in \<open>auto simp: smooth_def elim: stage_pre\<close>)
qed

lemma stage_publish:
  assumes ready: "readyFor pub c p hex (j, t)" and go: "sure \<Longrightarrow> smooth pub c p hex (j, t)"
  shows "stage sure (\<lambda>v. v = settled (j, t)) (publishJournaledArchive pub)
    (\<lambda>_ v. finished c (planned pub c p hex t) (below t p) v \<and> map_of t p \<noteq> None) (kept pub c p hex t)"
proof -
  let ?K = "kept pub c p hex t" and ?S = "\<lambda>v. v = settled (j, t)" and ?r = "planned pub c p hex t"
  let ?Q = "\<lambda>(_ :: unit) v. finished c ?r (below t p) v \<and> map_of t p \<noteq> None"
  have K: "?S v \<Longrightarrow> ?K v" for v
    by (rule undecided_kept [OF ready]) (use ready in \<open>auto simp: settled_def readyFor_def\<close>)
  have missing: "stage sure ?S (bindR (lstat n) (\<lambda>e. requireR (e = None) err)) (\<lambda>_. ?S) ?K" if "sure \<Longrightarrow> map_of t n = None" for n err
    unfolding lstat_def
    by (rule stage_known [where x = "map_of t n"], simp add: settled_def, erule K)
      (rule stage_conseq [OF stage_require [where E = ?K and P = ?S and sure = sure]], use that in \<open>auto intro: K\<close>)
  have legacy: "stage sure ?S (requireLegacyArchiveAdoption c) (\<lambda>_. ?S) ?K"
    unfolding requireLegacyArchiveAdoption_def Let_def
    by (rule stage_bind [OF missing missing]) (use go in \<open>auto simp: smooth_def\<close>)
  have fresh: "stage sure ?S (lstatPayload pub c) (\<lambda>x v. ?S v \<and> map_of t p = Some x) ?K"
  proof -
    have "lstatPayload pub c = bindR (lstat p) (\<lambda>e. case e of None \<Rightarrow> failR notExist | Some x \<Rightarrow> returnR x)"
      using ready by (auto simp: lstatPayload_def readyFor_def split: sum.splits)
    moreover have "stage sure ?S (case map_of t p of None \<Rightarrow> failR notExist | Some x \<Rightarrow> returnR x) (\<lambda>x v. ?S v \<and> map_of t p = Some x) ?K"
      by (cases "map_of t p") (use go in \<open>auto simp: smooth_def intro: stage_fail stage_return K\<close>)
    ultimately show ?thesis unfolding lstat_def
      by (simp only:) (rule stage_known [where x = "map_of t p"], auto intro: K simp: settled_def)
  qed
  have publish: "stage sure (\<lambda>v. (?S v \<and> map_of t p = Some x) \<and> ok) (bindR (makeWorkspace c (pb_Token pub) (pb_Made pub)) (\<lambda>r.
     publishRecord pub c (r\<lparr>aj_Decision := ''publish'', aj_New := archiveIdentity (Some x), aj_Old := archiveIdentity (map_of t (baseOf c))\<rparr>))) ?Q ?K" for x ok
  proof (cases "map_of t p = Some x")
    case True
    show ?thesis
    proof (rule stage_bind [OF stage_pre [OF stage_makeWorkspace [OF ready go]]])
      fix r0
      let ?Mk = "\<lambda>v. v = settled (j, withWorkspace pub hex t) \<and> archivePrivateDirectory (pb_Made pub)
         \<and> r0\<lparr>aj_Decision := ''publish'', aj_New := archiveIdentity (map_of t p), aj_Old := archiveIdentity (map_of t (baseOf c))\<rparr> = ?r"
      show "stage sure ?Mk (publishRecord pub c (r0\<lparr>aj_Decision := ''publish'', aj_New := archiveIdentity (Some x), aj_Old := archiveIdentity (map_of t (baseOf c))\<rparr>)) ?Q ?K"
      proof (cases "archivePrivateDirectory (pb_Made pub) \<and> r0\<lparr>aj_Decision := ''publish'', aj_New := archiveIdentity (map_of t p), aj_Old := archiveIdentity (map_of t (baseOf c))\<rparr> = ?r")
        case ok: True
        have "stage sure ?Mk (publishRecord pub c ?r) ?Q ?K"
          by (rule stage_conseq [OF stage_publishRecord [OF ready go]]) (use True ok in auto)
        then show ?thesis using ok True by simp
      next
        case False
        then show ?thesis by (intro stage_vacuous) blast
      qed
    qed auto
  next
    case False
    then show ?thesis by (intro stage_vacuous) blast
  qed
  have new: "stage sure ?S (publishFresh pub c) ?Q ?K"
    unfolding publishFresh_def lstat_def [of "baseOf c"]
    by (intro stage_bind [OF legacy] stage_known [where x = "map_of t (baseOf c)"] stage_bind [OF stage_conseq [OF stage_require [where E = ?K and P = ?S], where Q' = "\<lambda>_. ?S"]]
      stage_bind [OF fresh] stage_bind [OF stage_require] publish) (use go in \<open>auto simp: settled_def smooth_def intro: K split: option.splits\<close>)
  have ctx: "pb_Context pub = Inr c" and none: "map_of j (jc_Journal c) = None" using ready by (auto simp: readyFor_def)
  have prev: "stage sure ?S (recoverPrevious c) (\<lambda>_. ?S) ?K"
    by (rule stage_nothing [OF _ K]) (simp add: settled_def none)
  show ?thesis
    unfolding publishJournaledArchive_def
    by (simp only: bind_pure ctx) (intro stage_bind [OF stage_check] stage_bind [OF prev] new K, use go in \<open>auto simp: smooth_def\<close>)
qed

end
