(* ===== verification/JsonText.thy ===== *)
theory JsonText
  imports Json
begin

text \<open>
  What the parser of \<open>Json\<close> reads from UTF-8 text is UTF-8: every string of the value, with its escapes
  decoded, and the text that is left.
\<close>

section \<open>UTF-8 text by its runes\<close>

lemma utf8_valid_ascii_Cons: "code c < 128 \<Longrightarrow> utf8_valid (c # s) \<longleftrightarrow> utf8_valid s"
  by (simp add: utf8_valid_def rune_error_def)

lemma good_chunk_valid:
  assumes "s \<noteq> []" "decode_rune (map code s) = (r, w)" "\<not> (r = rune_error \<and> w = 1)"
  shows "w \<le> length s" "utf8_valid (take w s)"
proof -
  have w: "w \<le> length s" "decode_rune (map code (take w s)) = (r, w)" "0 < w"
    using decode_rune_ext(1) [OF _ assms(2,3)] decode_rune_ext(2) [OF _ assms(2,3), of "[]"] assms(1,2) decode_rune_width [of "map code s"]
    by (auto simp: take_map)
  then have "take w s \<noteq> []" using assms(1) by auto
  then have "chunks (take w s) = [(r, take w s)]" using chunks_Cons [OF _ w(2)] by simp
  then show "w \<le> length s" "utf8_valid (take w s)" using assms(3) w(1) by (auto simp: utf8_valid_def)
qed

text \<open>UTF-8 text that does not start with an ASCII byte starts with the bytes of a rune, none of them ASCII.\<close>

lemma utf8_valid_split:
  assumes "utf8_valid (c # s)" "\<not> code c < 128"
  obtains bs u where "c # s = bs @ u" "bs \<noteq> []" "\<forall>x \<in> set bs. 128 \<le> code x" "utf8_valid bs" "utf8_valid u"
proof -
  obtain r w where d: "decode_rune (map code (c # s)) = (r, w)" by fastforce
  note k = chunks_Cons [OF _ d, simplified]
  have e: "\<not> (r = rune_error \<and> length (take w (c # s)) = 1)" "utf8_valid (drop w (c # s))"
    using assms(1) by (simp_all add: utf8_valid_def k)
  then have v: "\<not> (r = rune_error \<and> w = 1)" by auto
  have "runeOk (r, take w (c # s))" using runeOk_decode [OF _ d v] by simp
  moreover have w: "0 < w" using decode_rune_width [of "map code (c # s)"] d by simp
  moreover have "\<forall>x \<in> set (encode_rune 8232). 128 \<le> code x" "\<forall>x \<in> set (encode_rune 8233). 128 \<le> code x"
    by (simp_all add: encode_rune_def code_char_of)
  moreover have "take w (c # s) \<noteq> [char_of r]" if "r < 128" using w assms(2) that by (cases w) (auto simp: code_char_of)
  ultimately have "\<forall>x \<in> set (take w (c # s)). 128 \<le> code x" by (auto simp: runeOk_def simp del: take_Suc_Cons)
  then show thesis using that [of "take w (c # s)" "drop w (c # s)"] good_chunk_valid [OF _ d v] e(2) w by auto
qed

lemma utf8_valid_encode_rune: "utf8_valid (encode_rune r)"
proof -
  define n where "n = (if (55296 \<le> r \<and> r \<le> 57343) \<or> 1114111 < r then rune_error else r)"
  have n: "n \<le> 1114111" "\<not> (55296 \<le> n \<and> n \<le> 57343)" by (auto simp: n_def rune_error_def)
  have e: "encode_rune r = map char_of
        (if n < 128 then [n]
         else if n < 2048 then [192 + n div 64, 128 + n mod 64]
         else if n < 65536 then [224 + n div 4096, 128 + n div 64 mod 64, 128 + n mod 64]
         else [240 + n div 262144, 128 + n div 4096 mod 64, 128 + n div 64 mod 64, 128 + n mod 64])"
    by (simp add: encode_rune_def n_def Let_def)
  show ?thesis
  proof (cases "n < 128")
    case True
    then show ?thesis by (intro utf8_valid_ascii) (simp add: e is_ascii_def code_char_of)
  next
    case False
    define w :: nat where "w = (if n < 2048 then 2 else if n < 65536 then 3 else 4)"
    have l: "length (encode_rune r) = w" using False by (simp add: e w_def)
    have q: "64 * (n div 64) + n mod 64 = n" "64 * (n div 64 div 64) + n div 64 mod 64 = n div 64"
      "64 * (n div 4096 div 64) + n div 4096 mod 64 = n div 4096" "n mod 64 < 64" "n div 64 mod 64 < 64" "n div 4096 mod 64 < 64"
      by simp_all
    have d: "n div 64 div 64 = n div 4096" "n div 4096 div 64 = n div 262144" by (simp_all flip: div_mult2_eq)
    have surrogate: "n div 64 mod 64 \<le> 31" if "n div 4096 = 13" using that n(2) q [unfolded d] by linarith
    have long: "32 \<le> n div 64 mod 64" if "n div 4096 = 0" "\<not> n < 2048" using that q [unfolded d] by linarith
    have first: "16 \<le> n div 4096 mod 64" if "n div 262144 = 0" "\<not> n < 65536" using that q [unfolded d] by linarith
    have last: "n div 4096 mod 64 \<le> 15" if "n div 262144 = 4" using that n(1) q [unfolded d] by linarith
    have b: "2 \<le> n div 64" "n < 2048 \<longrightarrow> n div 64 \<le> 31" "n < 65536 \<longrightarrow> n div 4096 \<le> 15" "n div 262144 \<le> 4"
      using False n(1) q [unfolded d] by linarith+
    have k: "n mod 64 \<le> 63" "n div 64 mod 64 \<le> 63" "n div 4096 mod 64 \<le> 63" using q by linarith+
    consider "n < 2048" | "\<not> n < 2048" "n < 65536" | "\<not> n < 65536" by linarith
    then have "snd (decode_rune (map code (encode_rune r))) = w"
    proof cases
      case 1
      then show ?thesis using False b k by (simp add: e w_def code_char_of decode_rune_def is_cont_def)
    next
      case 2
      then show ?thesis using False b k surrogate long by (simp add: e w_def code_char_of decode_rune_def is_cont_def)
    next
      case 3
      then show ?thesis using False b k first last by (simp add: e w_def code_char_of decode_rune_def is_cont_def)
    qed
    then obtain x where "decode_rune (map code (encode_rune r)) = (x, w)" by (metis prod.collapse)
    moreover have "encode_rune r \<noteq> []" "w \<noteq> 1" using l by (auto simp: w_def split: if_splits)
    ultimately show ?thesis using good_chunk_valid(2) [of "encode_rune r" x w] l by simp
  qed
qed

lemma utf8_valid_list_all2:
  "utf8_valid a \<Longrightarrow> list_all2 (\<lambda>x y. x = y \<or> (code x < 128 \<and> code y < 128 \<and> P x y)) a b \<Longrightarrow> utf8_valid b"
proof (induction "length a" arbitrary: a b rule: less_induct)
  case less
  show ?case
  proof (cases a)
    case Nil
    then show ?thesis using less.prems by simp
  next
    case (Cons c s)
    show ?thesis
    proof (cases "code c < 128")
      case True
      then obtain d u where b: "b = d # u" "code d < 128" "list_all2 (\<lambda>x y. x = y \<or> (code x < 128 \<and> code y < 128 \<and> P x y)) s u"
        using less.prems(2) Cons by (auto simp: list_all2_Cons1)
      moreover have "utf8_valid u" using less.hyps [of s u] less.prems(1) b(3) True by (simp add: Cons utf8_valid_ascii_Cons)
      ultimately show ?thesis by (simp add: utf8_valid_ascii_Cons)
    next
      case False
      obtain bs u where s: "c # s = bs @ u" "bs \<noteq> []" "\<forall>x \<in> set bs. 128 \<le> code x" "utf8_valid bs" "utf8_valid u"
        using utf8_valid_split [OF _ False] less.prems(1) Cons by metis
      then obtain bs' u' where b: "b = bs' @ u'" and r: "list_all2 (\<lambda>x y. x = y \<or> (code x < 128 \<and> code y < 128 \<and> P x y)) bs bs'"
        and u: "list_all2 (\<lambda>x y. x = y \<or> (code x < 128 \<and> code y < 128 \<and> P x y)) u u'"
        using less.prems(2) Cons by (auto simp: list_all2_append1)
      have "bs' = bs" using r s(3) by (induction rule: list_all2_induct) auto
      moreover have "utf8_valid u'" using less.hyps [OF _ s(5) u] s(1,2) Cons by (metis length_append length_greater_0_conv less_add_same_cancel2)
      ultimately show ?thesis using s(4) b by (simp add: utf8_valid_append)
    qed
  qed
qed

section \<open>What the parser reads\<close>

lemma parseHex_valid: "utf8_valid s \<Longrightarrow> parseHex k acc s = Some (n, r) \<Longrightarrow> utf8_valid r"
  by (induction k acc s rule: parseHex.induct)
    (auto simp: hexValue_def utf8_valid_ascii_Cons split: option.splits if_splits)

lemma parseUnicode_valid: "utf8_valid s \<Longrightarrow> parseUnicode s = Some (t, r) \<Longrightarrow> utf8_valid t \<and> utf8_valid r"
  by (fastforce simp: parseUnicode_def utf8_valid_encode_rune utf8_valid_ascii_Cons code_def split: option.splits if_splits list.splits
      dest: parseHex_valid)

lemma parseEscape_valid: "utf8_valid s \<Longrightarrow> parseEscape s = Some (t, r) \<Longrightarrow> utf8_valid t \<and> utf8_valid r"
  by (auto simp: parseEscape_def utf8_valid_ascii_Cons code_def split: list.splits if_splits dest: parseUnicode_valid)

lemma parseChars_valid: "utf8_valid s \<Longrightarrow> parseChars s = Some (t, r) \<Longrightarrow> utf8_valid t \<and> utf8_valid r"
proof (induction "length s" arbitrary: s t r rule: less_induct)
  case less
  show ?case
  proof (cases s)
    case Nil
    then show ?thesis using less.prems by simp
  next
    case (Cons c s')
    show ?thesis
    proof (cases "code c < 128")
      case True
      then have v: "utf8_valid s'" using less.prems(1) Cons by (simp add: utf8_valid_ascii_Cons)
      show ?thesis
      proof (cases "c = CHR 0x5C")
        case False
        then show ?thesis using less.hyps [of s'] less.prems(2) v True Cons
          by (auto simp: utf8_valid_ascii_Cons split: if_splits option.splits)
      next
        case esc: True
        then obtain a r1 u where p: "parseEscape s' = Some (a, r1)" "parseChars r1 = Some (u, r)" "t = a @ u"
          using less.prems(2) Cons by (auto split: option.splits)
        have "utf8_valid a" "utf8_valid r1" using parseEscape_valid [OF v p(1)] by auto
        then show ?thesis using less.hyps [OF _ _ p(2)] parseEscape_length [OF p(1)] p(3) Cons by (auto intro: utf8_valid_append)
      qed
    next
      case False
      obtain bs u where s: "s = bs @ u" "bs \<noteq> []" "\<forall>x \<in> set bs. 128 \<le> code x" "utf8_valid bs" "utf8_valid u"
        using utf8_valid_split [OF _ False] less.prems(1) Cons by metis
      then obtain u' where p: "parseChars u = Some (u', r)" "t = bs @ u'"
        using less.prems(2) parseChars_plain [OF s(3), of u] by auto
      then show ?thesis using less.hyps [OF _ s(5) p(1)] s by (auto intro: utf8_valid_append)
    qed
  qed
qed

lemma dropWhile_valid: "(\<And>c. P c \<Longrightarrow> code c < 128) \<Longrightarrow> utf8_valid s \<Longrightarrow> utf8_valid (dropWhile P s)"
  by (induction s) (auto simp: utf8_valid_ascii_Cons)

lemma skipWs_valid: "utf8_valid s \<Longrightarrow> utf8_valid (skipWs s)"
  unfolding skipWs_def by (rule dropWhile_valid) (auto simp: is_json_space_def)

lemma spanDigits_valid: "utf8_valid s \<Longrightarrow> spanDigits s = Some (t, r) \<Longrightarrow> utf8_valid r"
  by (auto simp: spanDigits_def is_digit_def split: if_splits intro!: dropWhile_valid)

lemma parseInteger_valid: "utf8_valid s \<Longrightarrow> parseInteger s = Some (t, r) \<Longrightarrow> utf8_valid r"
  by (auto simp: parseInteger_def utf8_valid_ascii_Cons code_def split: list.splits if_splits dest: spanDigits_valid)

lemma parseFraction_valid: "utf8_valid s \<Longrightarrow> parseFraction s = Some (t, r) \<Longrightarrow> utf8_valid r"
  by (auto simp: parseFraction_def utf8_valid_ascii_Cons code_def split: list.splits if_splits dest: spanDigits_valid)

lemma parseExponent_valid: "utf8_valid s \<Longrightarrow> parseExponent s = Some (t, r) \<Longrightarrow> utf8_valid r"
  by (auto simp: parseExponent_def utf8_valid_ascii_Cons code_def split: list.splits if_splits dest: spanDigits_valid)

lemma parseNumber_valid:
  assumes "utf8_valid s" "parseNumber s = Some (t, r)"
  shows "utf8_valid r"
proof -
  define x where "x = (case s of c # r \<Rightarrow> if c = CHR ''-'' then ([c], r) else ([], s) | [] \<Rightarrow> ([], s))"
  have "utf8_valid (snd x)" using assms(1) by (auto simp: x_def utf8_valid_ascii_Cons code_def split: list.splits)
  moreover obtain i s2 f s3 e where "parseInteger (snd x) = Some (i, s2)" "parseFraction s2 = Some (f, s3)" "parseExponent s3 = Some (e, r)"
    using assms(2) by (auto simp: parseNumber_def x_def [symmetric] Let_def split: option.splits prod.splits)
  ultimately show ?thesis using parseInteger_valid parseFraction_valid parseExponent_valid by blast
qed

lemma drop_ascii_valid: "utf8_valid s \<Longrightarrow> HasPrefix s p \<Longrightarrow> is_ascii p \<Longrightarrow> utf8_valid (drop (length p) s)"
proof (induction p arbitrary: s)
  case (Cons c p)
  then obtain s' where "s = c # s'" "HasPrefix s' p" by (cases s) (auto simp: HasPrefix_def)
  then show ?case using Cons by (simp add: utf8_valid_ascii_Cons)
qed simp

lemma parseLiteral_valid:
  assumes "utf8_valid s" "parseLiteral s = Some (v, r)"
  shows "utf8_valid r"
proof -
  have "is_ascii ''null''" "is_ascii ''true''" "is_ascii ''false''" by (simp_all add: code_def)
  then show ?thesis
    using drop_ascii_valid [OF assms(1), of "''null''"] drop_ascii_valid [OF assms(1), of "''true''"] drop_ascii_valid [OF assms(1), of "''false''"] assms(2)
    by (auto simp: parseLiteral_def numeral_eq_Suc split: if_splits)
qed

text \<open>The strings of a value.\<close>

fun jsonTexts :: "json \<Rightarrow> bool" where
  "jsonTexts (JStr s) = utf8_valid s"
| "jsonTexts (JArr vs) = list_all jsonTexts vs"
| "jsonTexts (JObj ms) = list_all (\<lambda>(k, v). utf8_valid k \<and> jsonTexts v) ms"
| "jsonTexts _ = True"

lemma parsed_valid:
  "utf8_valid s \<Longrightarrow> jvalue n s = Some (v, r) \<Longrightarrow> jsonTexts v \<and> utf8_valid r"
  "utf8_valid s \<Longrightarrow> jelems n s = Some (vs, r) \<Longrightarrow> list_all jsonTexts vs \<and> utf8_valid r"
  "utf8_valid s \<Longrightarrow> jmembers n s = Some (ms, r) \<Longrightarrow> list_all (\<lambda>(k, v). utf8_valid k \<and> jsonTexts v) ms \<and> utf8_valid r"
proof (induction n s and n s and n s arbitrary: v r and vs r and ms r rule: jvalue_jelems_jmembers.induct)
  case (2 n s)
  note IH = 2(1,2) and prems = 2(3,4)
  obtain c u where s: "skipWs s = c # u" using prems(2) by (auto split: list.splits)
  have k: "utf8_valid (c # u)" using skipWs_valid [OF prems(1)] s by simp
  have t: "utf8_valid (tl (skipWs u))" if "take 1 (skipWs u) = [x]" "code x < 128" "utf8_valid u" for x
    using skipWs_valid [OF that(3)] that(1,2) by (cases "skipWs u") (auto simp: utf8_valid_ascii_Cons)
  have w: "utf8_valid u" if "code c < 128" using k that by (simp add: utf8_valid_ascii_Cons)
  have h: "code (CHR ''{'') < 128" "code (CHR ''['') < 128" "code (CHR 0x22) < 128" "code (CHR ''}'') < 128" "code (CHR '']'') < 128"
    by (simp_all add: code_def)
  consider "c = CHR ''{''" | "c = CHR ''[''" | "c = CHR 0x22" | "c \<noteq> CHR ''{''" "c \<noteq> CHR ''[''" "c \<noteq> CHR 0x22" by blast
  then show ?case
  proof cases
    case 1
    then show ?thesis using prems(2) IH(1) [OF s] t [OF _ h(4)] w h(1) by (auto simp: s split: if_splits)
  next
    case 2
    then show ?thesis using prems(2) IH(2) [OF s] t [OF _ h(5)] w h(2) by (auto simp: s split: if_splits)
  next
    case 3
    then show ?thesis using prems(2) parseChars_valid [OF w] h(3) by (auto simp: s)
  next
    case 4
    then show ?thesis using prems(2) parseNumber_valid [OF k] parseLiteral_valid [OF k] by (auto simp: s parseLiteral_def split: if_splits)
  qed
next
  case (4 n s)
  note IH = 4(1,2) and prems = 4(3,4)
  obtain x u where x: "jvalue n s = Some (x, u)" using prems(2) by (auto split: option.splits)
  then have u: "jsonTexts x" "utf8_valid (skipWs u)" using IH(1) [OF prems(1) x] skipWs_valid by auto
  obtain c t where c: "skipWs u = c # t" using prems(2) x by (auto split: list.splits)
  show ?case using prems(2) IH(2) [OF x _ c] u by (auto simp: x c code_def utf8_valid_ascii_Cons split: if_splits)
next
  case (6 n s)
  note IH = 6(1,2) and prems = 6(3,4)
  have h: "code (CHR 0x22) < 128" "code (CHR '':'') < 128" "code (CHR ''}'') < 128" "code (CHR '','') < 128" by (simp_all add: code_def)
  obtain a where a: "skipWs s = CHR 0x22 # a" using prems(2) by (auto split: list.splits if_splits)
  obtain k b where b: "parseChars a = Some (k, b)" using prems(2) a by (auto split: option.splits)
  obtain d where d: "skipWs b = CHR '':'' # d" using prems(2) a b by (auto split: list.splits if_splits)
  obtain x e where e: "jvalue n d = Some (x, e)" using prems(2) a b d by (auto split: option.splits)
  obtain c t where c: "skipWs e = c # t" using prems(2) a b d e by (auto split: list.splits)
  have "utf8_valid a" using skipWs_valid [OF prems(1)] a h(1) by (simp add: utf8_valid_ascii_Cons)
  then have v: "utf8_valid k" "utf8_valid (skipWs b)" using parseChars_valid [OF _ b] skipWs_valid by auto
  then have "utf8_valid d" using d h(2) by (simp add: utf8_valid_ascii_Cons)
  then have u: "jsonTexts x" "utf8_valid (c # t)"
    using IH(1) [OF a _ b _ d _ _ e] skipWs_valid [of e] c by auto
  then have t: "utf8_valid t" if "code c < 128" using that by (simp add: utf8_valid_ascii_Cons)
  show ?case using prems(2) IH(2) [OF a _ b _ d _ e _ c] u(1) v(1) t h by (auto simp: a b c d e split: if_splits)
qed simp_all

end
