(* ===== verification/ArchiveSafety.thy ===== *)
theory ArchiveSafety
  imports ArchiveCrash JsonText "HOL-Library.Code_Target_Nat"
begin

text \<open>
  Interrupted publications: a publication, then any number of losses of power and of attempts to
  recover it, each of which may fail or die in any call. What survives is never a mixture, neither
  tree is lost before the new one is published, and an undisturbed recovery completes what was decided. The last
  section shows the exception, destinations whose name is not UTF-8.
\<close>

section \<open>Attempts\<close>

definition run :: "(machine, 'a) proc \<Rightarrow> volume \<Rightarrow> fate list \<Rightarrow> machine \<times> 'a res" where
  "run p v fates = p \<lparr>mc_Vol = v, mc_Fates = fates, mc_Dead = False\<rparr>"

lemma stage_run:
  assumes "stage sure P p Q E" "P v" "run p v fates = (m, res)"
  shows "case res of Inr x \<Rightarrow> Q x (mc_Vol m) | Inl e \<Rightarrow> E (mc_Vol m) \<and> (sure \<longrightarrow> fates \<noteq> [])"
  proof -
  let ?m = "\<lparr>mc_Vol = v, mc_Fates = fates, mc_Dead = False\<rparr>"
  have r: "p ?m = (m, res)" "P (mc_Vol ?m)" using assms(2,3) by (simp_all add: run_def)
  then show ?thesis using stage_Inl [OF assms(1), of ?m m] stage_Inr [OF assms(1), of ?m m] by (cases res) (simp_all add: clean_def)
qed

text \<open>What may become of a volume: power is lost, or a procedure is tried on it again.\<close>

inductive resumes :: "(machine, 'a) proc \<Rightarrow> volume \<Rightarrow> volume \<Rightarrow> bool" for p v where
  stay: "resumes p v v"
| power_loss: "resumes p v w \<Longrightarrow> s \<in> set (survivors w) \<Longrightarrow> resumes p v (settled s)"
| retry: "resumes p v w \<Longrightarrow> run p w fates = (m, res) \<Longrightarrow> resumes p v (mc_Vol m)"

text \<open>A contract that a loss of power and every run of a procedure keep, failed and interrupted runs included.\<close>

locale resumable =
  fixes Inv :: "volume \<Rightarrow> bool" and p :: "(machine, 'a) proc"
  assumes lost: "Inv v \<Longrightarrow> s \<in> set (survivors v) \<Longrightarrow> Inv (settled s)"
    and tried: "stage False Inv p (\<lambda>_. Inv) Inv"
begin

lemma run_keeps: "Inv v \<Longrightarrow> run p v fates = (m, res) \<Longrightarrow> Inv (mc_Vol m)"
  using stage_run [OF tried, of v fates m res] by (cases res) auto

lemma resumes_keeps: "resumes p v w \<Longrightarrow> Inv v \<Longrightarrow> Inv w"
  by (induction rule: resumes.induct) (auto intro: lost run_keeps)

end

text \<open>A publication from the state \<open>s\<close>, whatever happens in it, and what becomes of it.\<close>

definition attempts :: "publication \<Rightarrow> journalContext \<Rightarrow> jdir \<times> tree \<Rightarrow> volume \<Rightarrow> bool" where
  "attempts pub c s v \<longleftrightarrow>
     (\<exists>fates m res. run (publishJournaledArchive pub) (settled s) fates = (m, res) \<and> resumes (recoverPrevious c) (mc_Vol m) v)"

lemma survivors_settled [simp]: "survivors (settled s) = [s]"
  by (simp add: survivors_def settled_def)

lemma settled_safe: "safe c r p new old v \<Longrightarrow> s \<in> set (survivors v) \<Longrightarrow> safe c r p new old (settled s)"
  unfolding safe_def survivors_settled by (simp add: settled_def)

lemma safe_cases:
  assumes "safe c r p new old v"
  obtains "map_of (vo_J v) (jc_Journal c) = None" | "underway c r p new old v"
  using safeD [OF assms, of "vo_J v" "vo_T v"] assms by (cases "map_of (vo_J v) (jc_Journal c)") (auto simp: consistent_def underway_def)

lemma recovery_stage:
  assumes "recordFor c r new old" "safe c r p new old v"
  shows "stage True (\<lambda>w. w = v) (recoverPrevious c)
    (\<lambda>_ w. if map_of (vo_J v) (jc_Journal c) = None then w = v else finished c r new w) (safe c r p new old)"
  using assms(2)
proof (cases rule: safe_cases)
  case 1
  then show ?thesis using assms(2) by (auto intro: stage_nothing)
next
  case 2
  then have "map_of (vo_J v) (jc_Journal c) \<noteq> None" using decided_present [of c r "vo_J v"] by (simp add: underway_def)
  then show ?thesis by (intro stage_conseq [OF stage_recoverPrevious [OF assms(1)]]) (use 2 in auto)
qed

lemma stage_each: "(\<And>v. P v \<Longrightarrow> stage sure (\<lambda>w. w = v) p Q E) \<Longrightarrow> stage sure P p Q E"
proof (rule stage_ex [where R = "\<lambda>v w. P v \<and> w = v"])
  show "stage sure (\<lambda>w. P v \<and> w = v) p Q E" if "\<And>v. P v \<Longrightarrow> stage sure (\<lambda>w. w = v) p Q E" for v
    using that [of v] by (cases "P v") (auto intro: stage_vacuous)
qed simp

text \<open>The contract of a publication's record, which its recovery keeps.\<close>

definition recovering :: "journalContext \<Rightarrow> archiveJournal \<Rightarrow> string \<Rightarrow> content \<Rightarrow> content \<Rightarrow> volume \<Rightarrow> bool" where
  "recovering c r p new old v \<longleftrightarrow> recordFor c r new old \<and> safe c r p new old v"

interpretation archive: resumable "recovering c r p new old" "recoverPrevious c" for c r p new old
proof
  fix v s assume "recovering c r p new old v" "s \<in> set (survivors v)"
  then show "recovering c r p new old (settled s)" by (auto simp: recovering_def intro: settled_safe)
next
  have "stage False (\<lambda>w. w = v) (recoverPrevious c) (\<lambda>_. recovering c r p new old) (recovering c r p new old)" if v: "recovering c r p new old v" for v
  proof (rule stage_conseq [OF recovery_stage])
    show "recordFor c r new old" "safe c r p new old v" using v by (auto simp: recovering_def)
  qed (use v in \<open>auto simp: recovering_def intro: finished_safe split: if_splits\<close>)
  then show "stage False (recovering c r p new old) (recoverPrevious c) (\<lambda>_. recovering c r p new old) (recovering c r p new old)"
    by (rule stage_each)
qed

lemma attempts_safe:
  assumes "attempts pub c (j, t) v" and ready: "readyFor pub c p hex (j, t)" and payload: "map_of t p \<noteq> None"
  shows "kept pub c p hex t v"
proof -
  obtain fates m res where m: "run (publishJournaledArchive pub) (settled (j, t)) fates = (m, res)" and v: "resumes (recoverPrevious c) (mc_Vol m) v"
    using assms(1) by (auto simp: attempts_def)
  have "kept pub c p hex t (mc_Vol m)"
    using stage_run [OF stage_publish [OF ready, where sure = False] _ m] by (cases res) (auto intro: finished_safe)
  then have "recovering c (planned pub c p hex t) p (below t p) (below t (baseOf c)) v"
    by (intro archive.resumes_keeps [OF v]) (simp add: recovering_def planned_for [OF ready payload])
  then show ?thesis by (simp add: recovering_def)
qed

section \<open>What survives\<close>

text \<open>C12: Whatever fails, dies or loses power during a publication and during any number of attempts to recover it,
  a surviving state has at the destination the old tree, the new tree, or nothing while the workspace of a
  recorded decision holds both. The new tree is never lost: it is the payload, in the workspace, or published.
  The old tree is at the destination or in the workspace until the new tree is at the destination.\<close>

theorem archive_publication_atomic:
  assumes "readyFor pub c p hex (j, t)" "map_of t p \<noteq> None" "attempts pub c (j, t) v" "(j', t') \<in> set (survivors v)"
  defines "ws \<equiv> workspaceName hex"
  shows "below t' (baseOf c) = below t p
    \<or> (below t' p = below t p \<or> below t' (inDir ws ''new'') = below t p)
      \<and> (below t' (baseOf c) = below t (baseOf c)
         \<or> map_of j' (jc_Journal c) \<noteq> None \<and> below t' (baseOf c) = nothing \<and> below t' (inDir ws ''old'') = below t (baseOf c))"
proof -
  have "consistent c (planned pub c p hex t) p (below t p) (below t (baseOf c)) (j', t')"
    using attempts_safe [OF assms(3,1,2)] assms(4) by (simp add: safe_def)
  then show ?thesis
    by (auto simp: consistent_def slots_def before_def after_def newSlot_def oldSlot_def ws_def split: if_splits)
qed

text \<open>C13: Whatever happened before, a recovery whose calls all work returns without an error. When there was a
  decision it leaves no journal and the new tree at the destination, in every state that may survive; without
  one it changes nothing.\<close>

theorem interrupted_publication_completes:
  assumes "readyFor pub c p hex (j, t)" "map_of t p \<noteq> None" "attempts pub c (j, t) v" "run (recoverPrevious c) v [] = (m, res)"
  shows "res = Inr ()
    \<and> (if map_of (vo_J v) (jc_Journal c) = None then mc_Vol m = v
       else \<forall>(j', t') \<in> set (survivors (mc_Vol m)). map_of j' (jc_Journal c) = None \<and> below t' (baseOf c) = below t p)"
proof -
  note st = stage_run [OF recovery_stage [OF planned_for [OF assms(1,2)] attempts_safe [OF assms(3,1,2)]] refl assms(4)]
  have r: "res = Inr ()" using st by (cases res) auto
  show ?thesis
  proof (cases "map_of (vo_J v) (jc_Journal c) = None")
    case True
    then show ?thesis using st r by simp
  next
    case False
    then have "finished c (planned pub c p hex t) (below t p) (mc_Vol m)" using st r by simp
    then show ?thesis using r False by (auto simp: finished_def survivors_def)
  qed
qed

text \<open>C14: A publication that is permitted and whose calls all work returns without an error. One that returns without
  an error, whatever failed on the way, has published: no decision is left and every state that may survive has
  the payload's tree at the destination.\<close>

theorem returned_publication_durable:
  assumes "readyFor pub c p hex (j, t)" "run (publishJournaledArchive pub) (settled (j, t)) fates = (m, res)"
  shows "(smooth pub c p hex (j, t) \<and> fates = [] \<longrightarrow> res = Inr ())
    \<and> (res = Inr () \<longrightarrow> map_of t p \<noteq> None
        \<and> (\<forall>(j', t') \<in> set (survivors (mc_Vol m)). map_of j' (jc_Journal c) = None \<and> below t' (baseOf c) = below t p))"
proof -
  have go: "smooth pub c p hex (j, t) \<Longrightarrow> smooth pub c p hex (j, t)" .
  have st: "case res of Inr x \<Rightarrow> finished c (planned pub c p hex t) (below t p) (mc_Vol m) \<and> map_of t p \<noteq> None
    | Inl e \<Rightarrow> kept pub c p hex t (mc_Vol m) \<and> (smooth pub c p hex (j, t) \<longrightarrow> fates \<noteq> [])"
    using stage_run [OF stage_publish [OF assms(1) go] refl assms(2)] by simp
  then show ?thesis by (cases res) (auto simp: finished_def survivors_def)
qed

section \<open>An example\<close>

definition exampleContext :: journalContext where
  "exampleContext = \<lparr>jc_Target = ''/w/x'', jc_ParentID = ''1:1'', jc_Journal = ''k.json'', jc_FoldsCase = False, jc_Darwin = False\<rparr>"

definition exampleEntry :: "nat \<Rightarrow> entry" where
  "exampleEntry n = \<lparr>en_Dev = 1, en_Ino = n, en_Kind = Directory, en_Private = True\<rparr>"

definition examplePublication :: publication where
  "examplePublication = \<lparr>pb_Context = Inr exampleContext, pb_Lock = None, pb_Physical = Inr ''/w/p'', pb_Outside = Inl notExist,
     pb_Token = Inr ''0f'', pb_Made = exampleEntry 9, pb_File = 5\<rparr>"

definition exampleTree :: tree where
  "exampleTree = [(''p'', exampleEntry 3), (''p/a'', exampleEntry 4), (''x'', exampleEntry 5)]"

lemmas exampleDefs = exampleContext_def exampleEntry_def examplePublication_def exampleTree_def

lemma example_ready: "readyFor examplePublication exampleContext ''p'' ''0f'' ([], exampleTree)"
proof -
  have "baseOf exampleContext = ''x''" "dirOf (jc_Target exampleContext) = ''/w''" by code_simp+
  moreover have "utf8_valid s" if "set s \<subseteq> set ''/wx1:0f''" for s
    using that by (intro utf8_valid_ascii) (auto simp: is_ascii_def list_all_iff code_def)
  ultimately show ?thesis
    by (auto simp: readyFor_def exampleDefs relativeTo_def slashed_def HasPrefix_def plainName_def workspaceName_def apart_def within_def below_def fun_eq_iff)
qed

definition exampleRecord :: archiveJournal where
  "exampleRecord = planned examplePublication exampleContext ''p'' ''0f'' exampleTree"

lemma example_limit: "length (journalText exampleRecord) \<le> 16384"
  by code_simp

lemma example_names: "baseOf exampleContext = ''x''" "dirOf ''p'' = ''.''" "dirOf ''/w/x'' = ''/w''"
  by code_simp+

lemma example_smooth: "smooth examplePublication exampleContext ''p'' ''0f'' ([], exampleTree)"
  using example_limit example_names
  by (simp add: smooth_def exampleDefs exampleRecord_def backupName_def markerName_def archivePrivateDirectory_def archivePathWithin_def within_def
      slashed_def HasPrefix_def archiveJournalLimit_def)

text \<open>Evaluation of a run, call by call.\<close>

named_theorems runs

lemma bind_call [runs]:
  "bindR (call f) g \<lparr>mc_Vol = v, mc_Fates = Works # xs, mc_Dead = False\<rparr> =
     (case f v of (v', y) \<Rightarrow> case y of Inr x \<Rightarrow> g x \<lparr>mc_Vol = v', mc_Fates = xs, mc_Dead = False\<rparr>
      | Inl e \<Rightarrow> (\<lparr>mc_Vol = v', mc_Fates = xs, mc_Dead = False\<rparr>, Inl e))"
  "bindR (call f) g \<lparr>mc_Vol = v, mc_Fates = Dies # xs, mc_Dead = False\<rparr> = (\<lparr>mc_Vol = v, mc_Fates = xs, mc_Dead = True\<rparr>, Inl interrupted)"
  by (auto simp: bindR_def call_def split: prod.split sum.split)

lemma run_call [runs]:
  "call f \<lparr>mc_Vol = v, mc_Fates = Works # xs, mc_Dead = False\<rparr> = (case f v of (v', y) \<Rightarrow> (\<lparr>mc_Vol = v', mc_Fates = xs, mc_Dead = False\<rparr>, y))"
  "call f \<lparr>mc_Vol = v, mc_Fates = xs, mc_Dead = True\<rparr> = (\<lparr>mc_Vol = v, mc_Fates = xs, mc_Dead = True\<rparr>, Inl interrupted)"
  by (auto simp: call_def split: prod.split)

lemma check_None [runs]: "checkR None = returnR ()"
  by (simp add: checkR_def returnR_def fun_eq_iff)

lemma bind_case: "bindR p f m = (case p m of (m', y) \<Rightarrow> case y of Inl e \<Rightarrow> (m', Inl e) | Inr x \<Rightarrow> f x m')"
  by (auto simp: bindR_def split: prod.split sum.split)

lemma wrap_case [runs]: "wrapError p m = (case p m of (m', y) \<Rightarrow> case y of Inl e \<Rightarrow> (m', Inl (retainedIn e)) | Inr x \<Rightarrow> (m', Inr x))"
  by (auto simp: wrapError_def split: prod.split sum.split)

lemma onError_case [runs]: "onError p q m = (case p m of (m1, y) \<Rightarrow> case y of Inl e \<Rightarrow> (fst (q m1), Inl e) | Inr x \<Rightarrow> (m1, Inr x))"
  by (auto simp: onError_def split: prod.split sum.split)

lemma bindR_weak: "p = p' \<Longrightarrow> bindR p f = bindR p' f"
  by simp

lemmas run_binds [runs] = bind_case [of "wrapError p" for p] bind_case [of "onError p q" for p q] bind_case [of "bothR p q" for p q]
  bind_case [of "finallyR p q" for p q] bind_assoc bind_pure

lemmas run_calls [runs] = run_def publishJournaledArchive_def recoverPrevious_def readJournal_def lstatJournal_def lstat_def
  publishFresh_def requireLegacyArchiveAdoption_def lstatPayload_def makeWorkspace_def mkdirEntry_def publishRecord_def renameEntry_def
  syncArchiveRootDirectory_def syncRecord_def writeDecision_def linkDecision_def validateWorkspace_def createJournal_def writeJournal_def
  plainCall_def linkJournal_def removeJournal_def finallyR_def ignoring_def bothR_def errOf_def returnR_def

lemmas run_data [runs] = settled_def backupName_def markerName_def relativeTo_def slashed_def HasPrefix_def archivePrivateDirectory_def setT_def setJ_def
  archivePathWithin_def within_def inDir_def treeRename_def treeRemove_def archiveJournalLimit_def pendingName_def Let_def

lemma example_dirs:
  "dirOf ''.crabbox-cp-publish-0f'' = ''.''" "dirOf ''.crabbox-cp-publish-0f/new'' = ''.crabbox-cp-publish-0f''"
  "pathBase ''.crabbox-cp-publish-0f'' = ''.crabbox-cp-publish-0f''"
  by code_simp+

text \<open>The process dies before it removes the pending name of its decision.\<close>

definition exampleFates :: "fate list" where
  "exampleFates = [Works, Works, Works, Works, Works, Works, Works, Works, Works, Works, Works, Works, Works, Works, Works, Works, Works, Works, Dies]"

definition exampleVolume :: volume where
  "exampleVolume = mc_Vol (fst (run (publishJournaledArchive examplePublication) (settled ([], exampleTree)) exampleFates))"

lemma example_attempt: "attempts examplePublication exampleContext ([], exampleTree) exampleVolume"
  unfolding exampleVolume_def attempts_def by (intro exI conjI) (rule surjective_pairing, rule resumes.stay)

lemma example_payload: "map_of exampleTree ''p'' \<noteq> None"
  by (simp add: exampleTree_def)

lemma example_decided: "map_of (vo_J exampleVolume) (jc_Journal exampleContext) \<noteq> None"
  using example_limit [unfolded exampleRecord_def planned_def workspaceName_def exampleDefs]
  by (simp add: exampleVolume_def exampleFates_def runs exampleDefs example_names [unfolded exampleDefs] example_dirs cong: bindR_weak)

theorem archive_publication_atomic_witness:
  "list_all (\<lambda>(j', t').
     below t' ''x'' = below exampleTree ''p''
     \<or> (below t' ''p'' = below exampleTree ''p'' \<or> below t' ''.crabbox-cp-publish-0f/new'' = below exampleTree ''p'')
       \<and> (below t' ''x'' = below exampleTree ''x''
          \<or> map_of j' ''k.json'' \<noteq> None \<and> below t' ''x'' = nothing \<and> below t' ''.crabbox-cp-publish-0f/old'' = below exampleTree ''x''))
     (survivors exampleVolume)"
proof -
  have k: "jc_Journal exampleContext = ''k.json''" by (simp add: exampleContext_def)
  have s: "inDir (workspaceName ''0f'') n = ''.crabbox-cp-publish-0f/'' @ n" for n by (simp add: inDir_def workspaceName_def)
  show ?thesis
    using archive_publication_atomic [OF example_ready example_payload example_attempt] unfolding k s example_names list_all_iff by auto
qed

theorem interrupted_publication_completes_witness:
  "snd (run (recoverPrevious exampleContext) exampleVolume []) = Inr ()
   \<and> map_of (vo_J exampleVolume) ''k.json'' \<noteq> None
   \<and> list_all (\<lambda>(j', t'). map_of j' ''k.json'' = None \<and> below t' ''x'' = below exampleTree ''p'')
       (survivors (mc_Vol (fst (run (recoverPrevious exampleContext) exampleVolume []))))"
proof -
  have k: "jc_Journal exampleContext = ''k.json''" by (simp add: exampleContext_def)
  note i = interrupted_publication_completes [OF example_ready example_payload example_attempt, OF surjective_pairing]
  show ?thesis using i example_decided unfolding k example_names list_all_iff by simp
qed

theorem returned_publication_durable_witness:
  "snd (run (publishJournaledArchive examplePublication) (settled ([], exampleTree)) []) = Inr ()
   \<and> list_all (\<lambda>(j', t'). map_of j' ''k.json'' = None \<and> below t' ''x'' = below exampleTree ''p'')
       (survivors (mc_Vol (fst (run (publishJournaledArchive examplePublication) (settled ([], exampleTree)) []))))"
proof -
  have k: "jc_Journal exampleContext = ''k.json''" by (simp add: exampleContext_def)
  show ?thesis using returned_publication_durable [OF example_ready surjective_pairing] example_smooth unfolding k example_names list_all_iff by blast
qed

section \<open>A destination that is not UTF-8\<close>

text \<open>\<open>encoding/json\<close> writes and reads a byte that is not UTF-8 as U+FFFD: every target that is read from a record is
  UTF-8, and so is every name that it is taken for.\<close>

lemma toValidUTF8_is_valid: "utf8_valid (toValidUTF8 s)"
proof (induction s rule: chunks.induct)
  case (1 s)
  show ?case
  proof (cases "s = []")
    case False
    obtain r w where d: "decode_rune (map code s) = (r, w)" by fastforce
    have IH: "utf8_valid (toValidUTF8 (drop w s))" using 1 [OF False d [symmetric]] by simp
    have "length (take w s) = 1" if "w = 1" using False that by (cases s) auto
    then have "utf8_valid (if r = rune_error \<and> length (take w s) = 1 then encode_rune rune_error else take w s)"
      using good_chunk_valid(2) [OF False d] utf8_valid_encode_rune by (auto simp del: length_take)
    then show ?thesis using utf8_valid_append [OF _ IH] by (simp add: toValidUTF8_def chunks_Cons [OF False d])
  qed (simp add: toValidUTF8_def)
qed

lemma setField_target:
  assumes "setField r (k, v) = Some r'" "utf8_valid (aj_Target r)" "jsonTexts v"
  shows "utf8_valid (aj_Target r')"
proof -
  have "utf8_valid t" if "setString old (Some v) = Some t" "utf8_valid old" for old t
    using that assms(3) by (cases v) (auto simp: setString_def)
  then show ?thesis using assms(1,2) by (auto simp: setField_def Let_def split: if_splits)
qed

lemma setFields_target:
  "setFields r ms = Some r' \<Longrightarrow> utf8_valid (aj_Target r) \<Longrightarrow> list_all (\<lambda>(k, v). utf8_valid k \<and> jsonTexts v) ms \<Longrightarrow> utf8_valid (aj_Target r')"
  by (induction r ms rule: setFields.induct) (auto split: option.splits dest: setField_target)

lemma decoded_target:
  assumes "decodeJournal data = Inr r"
  shows "utf8_valid (aj_Target r)"
proof -
  obtain v rest where v: "jvalue (Suc (length (toValidUTF8 data))) (toValidUTF8 data) = Some (v, rest)"
    "(case v of JObj ms \<Rightarrow> setFields emptyJournal ms | JNull \<Rightarrow> Some emptyJournal | _ \<Rightarrow> None) = Some r"
    using assms unfolding decodeJournal_def Let_def by (auto split: option.splits if_splits)
  have "jsonTexts v" using parsed_valid(1) [OF toValidUTF8_is_valid v(1)] by simp
  moreover have "utf8_valid (aj_Target emptyJournal)" by (simp add: emptyJournal_def)
  ultimately show ?thesis using v(2) by (auto split: json.splits intro: setFields_target)
qed

lemma matched_target: "matchesTarget c s \<Longrightarrow> utf8_valid s \<Longrightarrow> utf8_valid (jc_Target c)"
  using utf8_valid_list_all2 [of s "\<lambda>a b. lower_char a = lower_char b" "jc_Target c"] by (auto simp: matchesTarget_def)

text \<open>The volume \<open>v\<close> is refused by a procedure, whatever its calls do: it fails and leaves the volume as it is.\<close>

definition refusesOn :: "(machine, 'a) proc \<Rightarrow> volume \<Rightarrow> bool" where
  "refusesOn p v \<longleftrightarrow> (\<forall>fates. (\<exists>e. snd (run p v fates) = Inl e) \<and> mc_Vol (fst (run p v fates)) = v)"

lemma refusesOn_stage:
  assumes "stage False (\<lambda>w. w = v) p (\<lambda>_ _. False) (\<lambda>w. w = v)"
  shows "refusesOn p v"
  unfolding refusesOn_def
proof
  fix fates
  show "(\<exists>e. snd (run p v fates) = Inl e) \<and> mc_Vol (fst (run p v fates)) = v"
    using stage_run [OF assms refl surjective_pairing, of fates] by (cases "snd (run p v fates)") auto
qed

lemma stage_refused:
  "stage False P p (\<lambda>_ _. False) P \<Longrightarrow> stage False P (bindR p f) Q P"
  by (erule stage_bind) (auto intro: stage_vacuous)

lemma stage_required:
  assumes "\<And>v. P v \<Longrightarrow> E v" "b \<Longrightarrow> stage False P (g ()) Q E"
  shows "stage False P (bindR (requireR b e) g) Q E"
proof (cases b)
  case True
  have "bindR (requireR True e) g = g ()" by (simp add: fun_eq_iff bindR_def requireR_def)
  then show ?thesis using assms(2) True by simp
next
  case False
  then show ?thesis using assms(1) by (simp add: bindR_def requireR_def stage_def)
qed

lemma stage_unmatched:
  assumes "\<not> utf8_valid (jc_Target c)" "map_of (vo_J v) (jc_Journal c) = Some f"
  shows "stage False (\<lambda>w. w = v) (readJournal c) (\<lambda>_ _. False) (\<lambda>w. w = v)"
proof -
  have n: "\<not> matchesTarget c (aj_Target r)" if "decodeJournal (jf_Data f) = Inr r" for r
    using decoded_target [OF that] matched_target assms(1) by blast
  show ?thesis
    unfolding readJournal_def lstatJournal_def
    using assms(2) n
    by (intro stage_known [where x = "Some (f, links (vo_J v) f)"])
      (auto intro!: stage_required stage_plain_bind stage_fail split: sum.split)
qed

text \<open>C27: A decision recorded for a destination whose name is not UTF-8 cannot be carried out: whatever the volume
  that holds it and whatever the calls do, a recovery, a further publication to the destination and an adoption
  of it fail and leave the volume as it is.\<close>

theorem non_utf8_destination_is_stuck:
  assumes "\<not> utf8_valid (jc_Target c)" "map_of (vo_J v) (jc_Journal c) \<noteq> None" "pb_Context pub = Inr c"
  shows "refusesOn (recoverPrevious c) v \<and> refusesOn (publishJournaledArchive pub) v \<and> refusesOn (AdoptArchiveRecovery pub choice) v"
proof -
  obtain f where f: "map_of (vo_J v) (jc_Journal c) = Some f" using assms(2) by auto
  note u = stage_unmatched [OF assms(1) f]
  have r: "stage False (\<lambda>w. w = v) (recoverPrevious c) (\<lambda>_ _. False) (\<lambda>w. w = v)"
    unfolding recoverPrevious_def by (rule stage_refused [OF u])
  moreover have "stage False (\<lambda>w. w = v) (publishJournaledArchive pub) (\<lambda>_ _. False) (\<lambda>w. w = v)"
    unfolding publishJournaledArchive_def assms(3) bind_pure by (rule stage_bind [OF stage_check stage_refused [OF r]]) auto
  moreover have "stage False (\<lambda>w. w = v) (AdoptArchiveRecovery pub choice) (\<lambda>_ _. False) (\<lambda>w. w = v)"
    unfolding AdoptArchiveRecovery_def assms(3) bind_pure
    by (rule stage_required, simp, rule stage_bind [OF stage_check stage_refused [OF u]]) auto
  ultimately show ?thesis by (auto intro: refusesOn_stage)
qed

definition rawContext :: journalContext where
  "rawContext = exampleContext\<lparr>jc_Target := ''/w/'' @ [CHR 0xFF]\<rparr>"

definition rawPublication :: publication where
  "rawPublication = examplePublication\<lparr>pb_Context := Inr rawContext\<rparr>"

definition rawRecord :: archiveJournal where
  "rawRecord = emptyJournal\<lparr>aj_Version := 2, aj_Target := ''/w/'' @ [CHR 0xFF], aj_Parent := ''1:1'', aj_Workspace := ''.crabbox-cp-publish-0f'',
     aj_WorkspaceID := archiveIdentity (Some (exampleEntry 9)), aj_Decision := ''publish'', aj_New := archiveIdentity (Some (exampleEntry 3)), aj_Old := archiveIdentity None\<rparr>"

lemma raw_limit: "length (journalText rawRecord) \<le> 16384"
  by code_simp

lemma raw_names: "pathBase (''/w/'' @ [CHR 0xFF]) = [CHR 0xFF]" "dirOf (''/w/'' @ [CHR 0xFF]) = ''/w''"
  "length (encode_rune rune_error) = 3" "encode_rune rune_error \<noteq> [CHR 0xFF]"
  by code_simp+

definition rawVolume :: volume where
  "rawVolume = mc_Vol (fst (run (publishJournaledArchive rawPublication) (settled ([], exampleTree)) exampleFates))"

lemma raw_decided: "map_of (vo_J rawVolume) (jc_Journal rawContext) \<noteq> None"
  using raw_limit [unfolded rawRecord_def exampleDefs]
  by (simp add: rawVolume_def exampleFates_def runs exampleDefs rawContext_def rawPublication_def raw_names [simplified] example_names [unfolded exampleDefs]
      example_dirs baseOf_def cong: bindR_weak)

lemma raw_target: "\<not> utf8_valid (jc_Target rawContext)"
  by code_simp

theorem non_utf8_destination_is_stuck_witness:
  "refusesOn (recoverPrevious rawContext) rawVolume \<and> refusesOn (publishJournaledArchive rawPublication) rawVolume
   \<and> map_of (vo_J rawVolume) ''k.json'' \<noteq> None"
proof -
  have "pb_Context rawPublication = Inr rawContext" "jc_Journal rawContext = ''k.json''"
    by (simp_all add: rawPublication_def examplePublication_def rawContext_def exampleContext_def)
  then show ?thesis using non_utf8_destination_is_stuck [OF raw_target raw_decided, of rawPublication] raw_decided by simp
qed

end
