(* ===== verification/ArchiveAdopt.thy ===== *)
theory ArchiveAdopt
  imports ArchiveSafety "HOL-Library.Multiset"
begin

text \<open>
  Adoption of legacy recovery data (\<open>AdoptArchiveRecovery\<close>): whatever is chosen and wherever it is
  interrupted, every tree at the destination and at the legacy names is still there or was moved as a
  whole, to the destination or into the workspace.
\<close>

section \<open>Procedures that keep an invariant\<close>

text \<open>Every call of the procedure keeps \<open>K\<close>, whether the procedure returns or fails.\<close>

abbreviation keeping :: "(volume \<Rightarrow> bool) \<Rightarrow> (machine, 'a) proc \<Rightarrow> bool" where
  "keeping K p \<equiv> stage False K p (\<lambda>_. K) K"

lemma keeping_bind: "keeping K p \<Longrightarrow> (\<And>x. keeping K (f x)) \<Longrightarrow> keeping K (bindR p f)"
  by (rule stage_bind)

lemma keeping_both: "keeping K p \<Longrightarrow> keeping K q \<Longrightarrow> keeping K (bothR p q)"
  by (rule stage_both)

lemma keeping_onError: "keeping K p \<Longrightarrow> keeping K q \<Longrightarrow> keeping K (onError p q)"
  by (rule stage_onError)

lemma keeping_run: "keeping K p \<Longrightarrow> K (mc_Vol m) \<Longrightarrow> K (mc_Vol (fst (p m)))"
  using stage_Inr [of False K p "\<lambda>_. K" K m] stage_Inl [of False K p "\<lambda>_. K" K m] by (cases "p m"; cases "snd (p m)") auto

lemma keeping_finally:
  assumes "keeping K p" "keeping K q" "\<And>m. clean m \<Longrightarrow> clean (fst (q m))"
  shows "keeping K (finallyR p q)"
proof (rule stageI)
  fix m m' x assume m: "K (mc_Vol m)" "finallyR p q m = (m', Inr x)"
  then obtain m1 where 1: "p m = (m1, Inr x)" "m' = fst (q m1)" by (auto simp: finallyR_def split: prod.splits)
  then have "K (mc_Vol m1)" "clean m \<longrightarrow> clean m1" using stage_Inr [OF assms(1) 1(1) m(1)] by auto
  then show "K (mc_Vol m') \<and> (clean m \<longrightarrow> clean m')" using 1(2) keeping_run [OF assms(2)] assms(3) by simp
next
  fix m m' e assume m: "K (mc_Vol m)" "finallyR p q m = (m', Inl e)"
  then show "K (mc_Vol m') \<and> (False \<longrightarrow> \<not> clean m)"
    using keeping_run [OF assms(2)] keeping_run [OF assms(1) m(1)] by (auto simp: finallyR_def split: prod.splits)
qed

lemma keeping_simple: "keeping K (returnR x)" "keeping K (failR e)" "keeping K (requireR b e)" "keeping K (checkR y)" "keeping K (\<lambda>m. (m, z))"
  by (auto simp: stage_def returnR_def failR_def requireR_def checkR_def split: option.splits sum.splits)

lemma keeping_option: "keeping K p \<Longrightarrow> (\<And>x. keeping K (f x)) \<Longrightarrow> keeping K (case y of None \<Rightarrow> p | Some x \<Rightarrow> f x)"
  by (cases y) auto

lemma keeping_if: "keeping K p \<Longrightarrow> keeping K q \<Longrightarrow> keeping K (if b then p else q)"
  by simp

section \<open>Trees that only move\<close>

text \<open>The trees at the places \<open>ps\<close>, each once, and no tree without its top entry.\<close>

definition retains :: "string list \<Rightarrow> content multiset \<Rightarrow> tree \<Rightarrow> bool" where
  "retains ps M t \<longleftrightarrow> image_mset (below t) (mset ps) = M \<and> (\<forall>q \<in> set ps. map_of t q = None \<longrightarrow> below t q = nothing)"

definition retained :: "string list \<Rightarrow> content multiset \<Rightarrow> volume \<Rightarrow> bool" where
  "retained ps M v \<longleftrightarrow> (\<forall>t \<in> insert (vo_T v) (set (vo_TPast v)). retains ps M t)"

definition places :: "string list \<Rightarrow> bool" where
  "places ps \<longleftrightarrow> distinct ps \<and> (\<forall>a \<in> set ps. \<forall>b \<in> set ps. a \<noteq> b \<longrightarrow> apart a b)"

lemma image_mset_swap:
  assumes "distinct ps" "a \<in> set ps" "b \<in> set ps" "a \<noteq> b" "g a = f b" "g b = f a" "\<And>x. x \<in> set ps \<Longrightarrow> x \<noteq> a \<Longrightarrow> x \<noteq> b \<Longrightarrow> g x = f x"
  shows "image_mset g (mset ps) = image_mset f (mset ps)"
proof -
  let ?R = "mset (filter (\<lambda>x. x \<noteq> a \<and> x \<noteq> b) ps)"
  have "mset ps = {#a, b#} + ?R"
  proof (rule multiset_eqI)
    fix x
    have "count (mset ps) x = (if x \<in> set ps then 1 else 0)" using assms(1) by (simp add: distinct_count_atmost_1)
    moreover have "count ?R x = (if x \<in> set ps \<and> x \<noteq> a \<and> x \<noteq> b then 1 else 0)"
      using distinct_filter [OF assms(1), of "\<lambda>x. x \<noteq> a \<and> x \<noteq> b"] by (simp add: distinct_count_atmost_1)
    ultimately show "count (mset ps) x = count ({#a, b#} + ?R) x" using assms(2-4) by auto
  qed
  moreover have "image_mset g ?R = image_mset f ?R" by (rule image_mset_cong) (use assms(7) in auto)
  ultimately obtain R where "mset ps = {#a, b#} + R" "image_mset g R = image_mset f R" by blast
  then show ?thesis using assms(5,6) by simp
qed

lemma retains_rename:
  assumes ps: "places ps" "from \<in> set ps" "to \<in> set ps" "from \<noteq> to" and t: "retains ps M t" "map_of t to = None"
  shows "retains ps M (treeRename from to t)"
proof -
  let ?t = "treeRename from to t"
  have a: "apart from to" using ps by (simp add: places_def)
  have none: "below t to = nothing" using t ps(3) by (simp add: retains_def)
  have b: "below ?t to = below t from" "below ?t from = below t to" using below_treeRename(1,2) [OF a, of t] none by auto
  have other: "below ?t q = below t q" if "q \<in> set ps" "q \<noteq> from" "q \<noteq> to" for q
    using that ps below_treeRename(3) [OF a, of q t] by (simp add: places_def)
  have "image_mset (below ?t) (mset ps) = image_mset (below t) (mset ps)"
    by (rule image_mset_swap [of ps "from" "to"]) (use ps b other in \<open>auto simp: places_def\<close>)
  moreover have "below ?t q = nothing" if "q \<in> set ps" "map_of ?t q = None" for q
  proof -
    have "below t from [] = None \<Longrightarrow> below t from = nothing" using t(1) ps(2) by (simp add: retains_def)
    moreover have "below ?t q [] = None" using that(2) by simp
    ultimately show ?thesis
      using b other [OF that(1)] none t(1) that(1) by (cases "q = to"; cases "q = from") (auto simp: retains_def)
  qed
  ultimately show ?thesis using t(1) by (simp add: retains_def)
qed

lemma quiet_call:
  assumes "\<And>v. vo_T (fst (f v)) = vo_T v \<and> set (vo_TPast (fst (f v))) \<subseteq> set (vo_TPast v)"
  shows "keeping (retained ps M) (call f)"
proof -
  have K: "retained ps M v'" if "retained ps M v" "f v = (v', r)" for v v' r
  proof -
    have "vo_T v' = vo_T v" "set (vo_TPast v') \<subseteq> set (vo_TPast v)" using assms [of v] that(2) by auto
    then show ?thesis using that(1) by (auto simp: retained_def)
  qed
  show ?thesis by (rule stage_call) (auto dest: K)
qed

lemma quiet_calls:
  "keeping (retained ps M) (lstat n)" "keeping (retained ps M) (archiveEntryID n)" "keeping (retained ps M) (syncArchiveRootDirectory n)"
  "keeping (retained ps M) syncJournals" "keeping (retained ps M) (lstatJournal n)" "keeping (retained ps M) (removeJournal n)"
  "keeping (retained ps M) (createJournal n i)" "keeping (retained ps M) (writeJournal n d)" "keeping (retained ps M) plainCall"
  "keeping (retained ps M) (linkJournal n k)"
  unfolding lstat_def archiveEntryID_def syncArchiveRootDirectory_def syncJournals_def lstatJournal_def removeJournal_def createJournal_def
    writeJournal_def plainCall_def linkJournal_def
  by (intro quiet_call keeping_bind keeping_simple; auto simp: Let_def setJ_def split: option.splits)+

lemma keeping_ignoring: "keeping K p \<Longrightarrow> (\<And>m. clean m \<Longrightarrow> clean (fst (p m))) \<Longrightarrow> keeping K (ignoring p)"
  by (rule stage_ignoring)

lemmas quiet = keeping_bind keeping_both keeping_onError keeping_simple keeping_option keeping_if quiet_calls

lemma quiet_record:
  "keeping (retained ps M) (validateWorkspace r)" "keeping (retained ps M) (syncRecord r)"
  "keeping (retained ps M) (ignoring (removeJournal n))"
  unfolding validateWorkspace_def syncRecord_def
  by (intro quiet keeping_ignoring; simp add: removeJournal_def clean_call)+

lemma quiet_decision: "keeping (retained ps M) (writeDecision c i r)"
  unfolding writeDecision_def linkDecision_def Let_def
  by (intro quiet quiet_record keeping_finally) (simp add: ignoring_def removeJournal_def clean_call)

text \<open>A move between two places.\<close>

lemma keeping_move:
  assumes "places ps" "from \<in> set ps" "to \<in> set ps" "from \<noteq> to"
  shows "keeping (retained ps M) (moveEntry from to ident)"
proof -
  let ?K = "retained ps M"
  have ren: "stage False (\<lambda>v. (?K v \<and> source = archiveIdentity (map_of (vo_T v) from)) \<and> [] = archiveIdentity (map_of (vo_T v) to)) (renameEntry from to) (\<lambda>_. ?K) ?K" for source
    unfolding renameEntry_def
    by (rule stage_call) (use retains_rename [OF assms] in \<open>auto simp: retained_def setT_def eq_commute [of "[]"] split: if_splits\<close>)
  have "stage False (\<lambda>v. (?K v \<and> source = archiveIdentity (map_of (vo_T v) from)) \<and> destination = archiveIdentity (map_of (vo_T v) to))
    (if source = [] \<and> destination = ident then returnR ()
     else bindR (requireR (source = ident \<and> destination = []) (Fail ''copy recovery needs inspection: entries changed; all data retained'')) (\<lambda>_.
          renameEntry from to)) (\<lambda>_. ?K) ?K" for source destination
  proof (cases "source = ident \<and> destination = []")
    case True
    have "stage False (\<lambda>v. (?K v \<and> source = archiveIdentity (map_of (vo_T v) from)) \<and> destination = archiveIdentity (map_of (vo_T v) to)) (renameEntry from to) (\<lambda>_. ?K) ?K"
      by (rule stage_pre [OF ren]) (use True in auto)
    then show ?thesis using True by (auto intro: stage_return)
  next
    case False
    then show ?thesis by (auto simp: stage_def returnR_def bindR_def requireR_def)
  qed
  then show ?thesis
    unfolding moveEntry_def by (auto intro!: stage_bind [OF stage_entryID] keeping_simple)
qed

section \<open>Adoption\<close>

text \<open>The places between which an adoption for the base name moves trees.\<close>

definition legacyPlaces :: "string \<Rightarrow> string \<Rightarrow> string list" where
  "legacyPlaces base ws = [base, backupName base, markerName base, inDir ws ''legacy-backup'', inDir ws ''legacy-destination'', inDir ws ''legacy-marker'']"

lemma legacy_names:
  "plainName base \<Longrightarrow> plainName (backupName base)" "plainName base \<Longrightarrow> plainName (markerName base)"
  "backupName base \<noteq> base" "markerName base \<noteq> base" "backupName base \<noteq> markerName base"
  "plainName ''legacy-backup''" "plainName ''legacy-destination''" "plainName ''legacy-marker''"
  by (auto simp: plainName_def backupName_def markerName_def dest: arg_cong [of _ _ length])

lemma places_Cons: "places xs \<Longrightarrow> (\<And>y. y \<in> set xs \<Longrightarrow> apart x y) \<Longrightarrow> places (x # xs)"
proof -
  assume xs: "places xs" and x: "\<And>y. y \<in> set xs \<Longrightarrow> apart x y"
  have "x \<notin> set xs" using x [of x] by (auto simp: apart_def)
  then show ?thesis using xs x apart_sym by (auto simp: places_def)
qed

lemma legacy_places:
  assumes "plainName base" "plainName ws" "ws \<notin> {base, backupName base, markerName base}"
  shows "places (legacyPlaces base ws)"
proof -
  note n = legacy_names assms(1,2)
  have out: "apart a (inDir ws s)" if "a \<in> {base, backupName base, markerName base}" "plainName s" for a s
  proof -
    have "plainName a" "a \<noteq> ws" using that(1) assms n by auto
    then show ?thesis using apart_inDir [OF apart_names [OF _ assms(2)] assms(2)] that(2) by blast
  qed
  have ins: "apart (inDir ws s) (inDir ws u)" if "plainName s" "plainName u" "s \<noteq> u" for s u
    using apart_siblings [OF assms(2)] that by blast
  have nam: "apart a b" if "a \<in> {base, backupName base, markerName base}" "b \<in> {base, backupName base, markerName base}" "a \<noteq> b" for a b
    by (rule apart_names) (use that n in auto)
  show ?thesis
    unfolding legacyPlaces_def
    by (intro places_Cons) (use nam out ins n legacy_names(3,4) [symmetric] in \<open>auto simp: places_def\<close>)
qed

lemma keeping_recover:
  assumes r: "aj_Decision r = ArchiveKeepDestination \<or> aj_Decision r = ArchiveRestoreBackup"
    and ps: "places ps" "ps = legacyPlaces (pathBase (aj_Target r)) (aj_Workspace r)"
  shows "keeping (retained ps M) (recoverArchive c r)"
proof -
  let ?b = "pathBase (aj_Target r)" and ?ws = "aj_Workspace r"
  have d: "aj_Decision r \<noteq> ''publish''" using r by (auto simp: ArchiveKeepDestination_def ArchiveRestoreBackup_def)
  have dist: "distinct ps" using ps(1) by (simp add: places_def)
  have m: "keeping (retained ps M) (moveEntry (backupName ?b) (inDir ?ws ''legacy-backup'') i)" "keeping (retained ps M) (moveEntry ?b (inDir ?ws ''legacy-destination'') i)"
    "keeping (retained ps M) (moveEntry (backupName ?b) ?b i)" "keeping (retained ps M) (moveEntry (markerName ?b) (inDir ?ws ''legacy-marker'') i)" for i
    by (rule keeping_move [OF ps(1)]; use dist in \<open>auto simp: ps(2) legacyPlaces_def\<close>)+
  have "keeping (retained ps M) (replaceEntry r (backupName ?b) (inDir ?ws ''legacy-destination'') (aj_Backup r))"
    unfolding replaceEntry_def by (intro quiet quiet_record m)
  moreover have "decide r = bindR (if aj_Decision r = ArchiveKeepDestination then bindR (archiveEntryID ?b) (\<lambda>current.
       bindR (requireR (current = aj_Old r) (Fail ''adopted copy destination changed; all data retained'')) (\<lambda>_.
       moveEntry (backupName ?b) (inDir ?ws ''legacy-backup'') (aj_Backup r)))
     else replaceEntry r (backupName ?b) (inDir ?ws ''legacy-destination'') (aj_Backup r)) (\<lambda>_. moveEntry (markerName ?b) (inDir ?ws ''legacy-marker'') (aj_Marker r))"
    using r d by (auto simp: decide_def Let_def)
  ultimately have "keeping (retained ps M) (decide r)" by (simp only:) (intro quiet m)
  then show ?thesis
    unfolding recoverArchive_def pruneOld_def using d by (auto intro!: quiet quiet_record)
qed

text \<open>From a volume with \<open>P\<close>, the procedure leaves one with \<open>K\<close>, whatever it returns.\<close>

definition leaves :: "(volume \<Rightarrow> bool) \<Rightarrow> (machine, 'a) proc \<Rightarrow> (volume \<Rightarrow> bool) \<Rightarrow> bool" where
  "leaves P p K \<longleftrightarrow> (\<forall>m. P (mc_Vol m) \<longrightarrow> K (mc_Vol (fst (p m))))"

lemma leaves_stage: "stage False P p (\<lambda>_. K) K \<Longrightarrow> leaves P p K"
  unfolding leaves_def
proof (intro allI impI)
  fix m :: machine assume "stage False P p (\<lambda>_. K) K" "P (mc_Vol m)"
  then show "K (mc_Vol (fst (p m)))"
    using stage_Inr [of False P p "\<lambda>_. K" K m] stage_Inl [of False P p "\<lambda>_. K" K m] by (cases "p m"; cases "snd (p m)") auto
qed

lemma leaves_bind:
  assumes "stage False P p Q K" "\<And>x. leaves (Q x) (f x) K"
  shows "leaves P (bindR p f) K"
  unfolding leaves_def
proof (intro allI impI)
  fix m :: machine assume m: "P (mc_Vol m)"
  obtain m1 r where 1: "p m = (m1, r)" by fastforce
  show "K (mc_Vol (fst (bindR p f m)))"
  proof (cases r)
    case (Inl e)
    then show ?thesis using 1 stage_Inl [OF assms(1) _ m] by (auto simp: bindR_def)
  next
    case (Inr x)
    then have "Q x (mc_Vol m1)" using 1 stage_Inr [OF assms(1) _ m] by auto
    then show ?thesis using 1 Inr assms(2) [of x] by (auto simp: bindR_def leaves_def)
  qed
qed

lemma leaves_none: "leaves P g K \<Longrightarrow> leaves (\<lambda>v. x = None \<and> P v) (case x of Some r \<Rightarrow> f r | None \<Rightarrow> g) K"
  by (cases x) (auto simp: leaves_def)

lemma leaves_withDirectory: "leaves P p K \<Longrightarrow> leaves P (withDirectory d p) K"
  unfolding leaves_def withDirectory_def by (auto simp: case_prod_beta)

text \<open>A destination without a decision for which the workspace is new.\<close>

definition adoptable :: "publication \<Rightarrow> journalContext \<Rightarrow> string \<Rightarrow> jdir \<times> tree \<Rightarrow> bool" where
  "adoptable pub c hex s \<longleftrightarrow>
     (case s of (j, t) \<Rightarrow>
        pb_Context pub = Inr c \<and> pb_Token pub = Inr hex \<and> map_of j (jc_Journal c) = None \<and> plainName (baseOf c) \<and> CHR ''/'' \<notin> set hex
        \<and> workspaceName hex \<notin> {baseOf c, backupName (baseOf c), markerName (baseOf c)} \<and> below t (workspaceName hex) = nothing
        \<and> (\<forall>q \<in> {baseOf c, backupName (baseOf c), markerName (baseOf c)}. map_of t q = None \<longrightarrow> below t q = nothing))"

lemma adoptable_retains:
  assumes "adoptable pub c hex (j, t)"
  shows "retains (legacyPlaces (baseOf c) (workspaceName hex)) (image_mset (below t) (mset (legacyPlaces (baseOf c) (workspaceName hex)))) t"
  using assms below_inside [of t "workspaceName hex"] by (auto simp: retains_def adoptable_def legacyPlaces_def)

lemma below_made:
  assumes "adoptable pub c hex (j, t)" "q \<in> set (legacyPlaces (baseOf c) (workspaceName hex))"
  shows "below ((workspaceName hex, e) # t') q = below t' q" "map_of ((workspaceName hex, e) # t') q = map_of t' q"
proof -
  let ?ws = "workspaceName hex"
  have n: "plainName ?ws" "plainName (baseOf c)" "?ws \<notin> {baseOf c, backupName (baseOf c), markerName (baseOf c)}"
    using assms(1) workspaceName_plain by (auto simp: adoptable_def)
  have ne: "?ws \<noteq> q @ s" if "suffixPart s" for s
  proof (cases "q \<in> {baseOf c, backupName (baseOf c), markerName (baseOf c)}")
    case True
    then have "apart q ?ws" using n legacy_names(1,2) by (intro apart_names) auto
    then show ?thesis using apart_paths [of q ?ws s "[]"] that by auto
  next
    case False
    then obtain u where "q = inDir ?ws u" using assms(2) by (auto simp: legacyPlaces_def)
    then show ?thesis by (simp add: inDir_def)
  qed
  show "below ((?ws, e) # t') q = below t' q"
  proof
    fix s show "below ((?ws, e) # t') q s = below t' q s" using ne [of s] by (auto simp: below_def)
  qed
  show "map_of ((?ws, e) # t') q = map_of t' q" using ne [of "[]"] by simp
qed

lemma keeping_workspace:
  assumes "adoptable pub c hex (j, t)"
  shows "stage False (retained (legacyPlaces (baseOf c) (workspaceName hex)) M) (makeWorkspace c (pb_Token pub) (pb_Made pub))
    (\<lambda>r v. retained (legacyPlaces (baseOf c) (workspaceName hex)) M v \<and> aj_Workspace r = workspaceName hex \<and> aj_Target r = jc_Target c)
    (retained (legacyPlaces (baseOf c) (workspaceName hex)) M)"
proof -
  let ?ps = "legacyPlaces (baseOf c) (workspaceName hex)"
  let ?K = "retained ?ps M"
  let ?Q = "\<lambda>r v. ?K v \<and> aj_Workspace r = workspaceName hex \<and> aj_Target r = jc_Target c"
  have r: "retains ?ps M ((workspaceName hex, e) # t')" if t': "retains ?ps M t'" for e t'
  proof -
    have "image_mset (below ((workspaceName hex, e) # t')) (mset ?ps) = image_mset (below t') (mset ?ps)"
      by (rule image_mset_cong) (use below_made(1) [OF assms] in simp)
    then show ?thesis using t' below_made [OF assms] by (simp add: retains_def del: map_of.simps)
  qed
  have mk: "keeping ?K (mkdirEntry (workspaceName hex) (pb_Made pub))"
    unfolding mkdirEntry_def by (rule stage_call) (use r in \<open>auto simp: retained_def setT_def split: if_splits\<close>)
  have token: "pb_Token pub = Inr hex" using assms by (simp add: adoptable_def)
  have fin: "stage False ?K (case info of None \<Rightarrow> failR notExist
     | Some e \<Rightarrow> bindR (requireR (archivePrivateDirectory e) (Fail ''copy publication workspace is not private'')) (\<lambda>_.
         bindR (syncArchiveRootDirectory ''.'') (\<lambda>_.
         returnR (emptyJournal\<lparr>aj_Version := 2, aj_Target := jc_Target c, aj_Parent := jc_ParentID c, aj_Workspace := workspaceName hex,
           aj_WorkspaceID := archiveIdentity info\<rparr>)))) ?Q ?K" for info
  proof (cases info)
    case None
    then show ?thesis by (auto intro: stage_fail)
  next
    case (Some e)
    show ?thesis unfolding Some option.case
      by (rule stage_bind [OF keeping_simple(3)], rule stage_bind [OF quiet_calls(3)], rule stage_return) simp
  qed
  show ?thesis
    unfolding makeWorkspace_def Let_def token workspaceName_def [symmetric]
    by (simp only: bind_pure) (intro stage_bind [OF mk] stage_bind [OF quiet_calls(1)] fin)
qed

text \<open>C15: An adoption never deletes legacy data. Whatever the choice, wherever the adoption fails or dies and whatever a
  loss of power leaves, the trees at the destination, its legacy backup and its legacy marker, and those of the
  workspace, are the same trees as before: each is in its place or was moved as a whole to another of these places.\<close>

theorem adoption_keeps_legacy_data:
  assumes "adoptable pub c hex (j, t)" "run (AdoptArchiveRecovery pub choice) (settled (j, t)) fates = (m, res)" "(j', t') \<in> set (survivors (mc_Vol m))"
  shows "image_mset (below t') (mset (legacyPlaces (baseOf c) (workspaceName hex))) = image_mset (below t) (mset (legacyPlaces (baseOf c) (workspaceName hex)))"
proof -
  let ?ps = "legacyPlaces (baseOf c) (workspaceName hex)"
  let ?M = "image_mset (below t) (mset ?ps)"
  let ?K = "retained ?ps ?M" and ?S = "\<lambda>v. v = settled (j, t)"
  have ctx: "pb_Context pub = Inr c" and none: "map_of j (jc_Journal c) = None" and n: "plainName (baseOf c)" "plainName (workspaceName hex)"
      "workspaceName hex \<notin> {baseOf c, backupName (baseOf c), markerName (baseOf c)}"
    using assms(1) workspaceName_plain by (auto simp: adoptable_def)
  have K: "?K (settled (j, t))" using adoptable_retains [OF assms(1)] by (simp add: retained_def settled_def)
  have ps: "places ?ps" by (rule legacy_places [OF n])
  have finish: "leaves (\<lambda>v. ?K v \<and> aj_Workspace r = workspaceName hex \<and> aj_Target r = jc_Target c)
      (withDirectory d (bindR (writeDecision c (pb_File pub) r') (\<lambda>_. recoverArchive c r'))) ?K"
    if "choice = ArchiveKeepDestination \<or> choice = ArchiveRestoreBackup" "r' = r\<lparr>aj_Decision := choice, aj_Old := old, aj_Backup := backup, aj_Marker := marker\<rparr>"
    for r r' d old backup marker
  proof (cases "aj_Workspace r = workspaceName hex \<and> aj_Target r = jc_Target c")
    case True
    then have "keeping ?K (recoverArchive c r')" using that by (intro keeping_recover [OF _ ps]) (auto simp: baseOf_def)
    then have "keeping ?K (bindR (writeDecision c (pb_File pub) r') (\<lambda>_. recoverArchive c r'))" by (intro keeping_bind quiet_decision)
    then have "leaves ?K (bindR (writeDecision c (pb_File pub) r') (\<lambda>_. recoverArchive c r')) ?K" by (rule leaves_stage)
    then show ?thesis by (intro leaves_withDirectory) (simp add: leaves_def)
  next
    case False
    then show ?thesis by (auto simp: leaves_def)
  qed
  have fresh: "leaves ?K (bindR (archiveEntryID (baseOf c)) (\<lambda>old. bindR (archiveEntryID (backupName (baseOf c))) (\<lambda>backup. bindR (archiveEntryID (markerName (baseOf c))) (\<lambda>marker.
      bindR (requireR (\<not> (backup = [] \<and> marker = [])) e1) (\<lambda>_. bindR (requireR (\<not> (choice = ArchiveRestoreBackup \<and> backup = [])) e2) (\<lambda>_.
      bindR (makeWorkspace c (pb_Token pub) (pb_Made pub)) (\<lambda>r0.
      let r = r0\<lparr>aj_Decision := choice, aj_Old := old, aj_Backup := backup, aj_Marker := marker\<rparr> in
      withDirectory (dir r) (bindR (writeDecision c (pb_File pub) r) (\<lambda>_. recoverArchive c r))))))))) ?K"
    if "choice = ArchiveKeepDestination \<or> choice = ArchiveRestoreBackup" for e1 e2 dir
    unfolding Let_def
    by (intro leaves_bind [OF quiet_calls(2)] leaves_bind [OF keeping_simple(3)] leaves_bind [OF keeping_workspace [OF assms(1)]] finish [OF that refl])
  have read: "stage False ?S (readJournal c) (\<lambda>x v. x = None \<and> ?K v) ?K"
    unfolding readJournal_def lstatJournal_def
    by (rule stage_known [where x = None]) (use none K in \<open>auto simp: settled_def intro: stage_return\<close>)
  have "leaves ?S (AdoptArchiveRecovery pub choice) ?K"
  proof (cases "choice = ArchiveKeepDestination \<or> choice = ArchiveRestoreBackup")
    case True
    then show ?thesis
      unfolding AdoptArchiveRecovery_def ctx Let_def
      by (simp only: bind_require bind_pure)
        (rule leaves_bind [OF stage_check], use K in simp, simp, rule leaves_bind [OF read], rule leaves_none [OF fresh [OF True, unfolded Let_def]])
  next
    case False
    then show ?thesis using K by (simp add: AdoptArchiveRecovery_def leaves_def bindR_def requireR_def)
  qed
  then have "?K (mc_Vol m)" using assms(2) by (auto simp: leaves_def run_def dest!: spec [of _ "\<lparr>mc_Vol = settled (j, t), mc_Fates = fates, mc_Dead = False\<rparr>"])
  then show ?thesis using assms(3) by (auto simp: retained_def retains_def survivors_def)
qed

definition legacyTree :: tree where
  "legacyTree = [(''x'', exampleEntry 5), (''x.crabbox-cp-backup'', exampleEntry 6), (''x.crabbox-cp-backup/a'', exampleEntry 7), (''x.crabbox-cp-transaction'', exampleEntry 8)]"

lemma legacy_adoptable: "adoptable examplePublication exampleContext ''0f'' ([], legacyTree)"
  using example_names
  by (auto simp: adoptable_def exampleDefs legacyTree_def plainName_def workspaceName_def backupName_def markerName_def below_def fun_eq_iff)

theorem adoption_keeps_legacy_data_witness:
  "list_all (\<lambda>(j', t'). image_mset (below t') (mset (legacyPlaces ''x'' ''.crabbox-cp-publish-0f''))
       = image_mset (below legacyTree) (mset (legacyPlaces ''x'' ''.crabbox-cp-publish-0f'')))
     (survivors (mc_Vol (fst (run (AdoptArchiveRecovery examplePublication ''restore-backup'') (settled ([], legacyTree)) []))))"
proof -
  have w: "workspaceName ''0f'' = ''.crabbox-cp-publish-0f''" by (simp add: workspaceName_def)
  show ?thesis
    using adoption_keeps_legacy_data [OF legacy_adoptable surjective_pairing] unfolding w example_names list_all_iff by blast
qed

end
