(* ===== verification/Spec2Isabelle.thy ===== *)
theory Spec2Isabelle
  imports Prelude Buffers FixedResolve RunnerTransfer ArchiveAdopt
begin

text \<open>
  Verification of the core of crabbox (Go, \<open>src/internal\<close>).

  crabbox is a command-line tool that leases machines from many providers, synchronises a working tree to
  them and runs commands there. Three parts carry the promises that a user relies on, and they are what
  this development models.

  \<^item> Claims and leases (\<open>internal/cli\<close>). Every lease has a claim file; commands find it by lease ID or slug,
    check which repository and provider scope owns it, and change it only in a transaction. Direct
    providers keep the lifetime of a machine in labels. A fixed lease, one with a caller's idempotency key,
    is driven by an engine that journals each step in its claim before it calls the provider, so that an
    interrupted acquisition or release is replayed and never doubled. A retained session suspends and
    resumes its machine inside compute windows recorded in the claim.
  \<^item> The runner (\<open>internal/runner\<close>). A helper on the remote machine speaks a framed protocol over a stream: it
    collects test results, receives and sends archives, and recovers interrupted copies.
  \<^item> Archive publication (\<open>internal/runner/runnerfs/archive_journal.go\<close>). A received tree replaces its
    destination under a durable decision record, which later attempts find and complete.

  How they interact: the engine and the claim commands share the claim directory and its transaction; the
  retention and resolution commands run inside the engine's transaction; server and client of the runner
  exchange the frames of one protocol, and the server's archive operations end in a publication.

  \<^bold>\<open>Theories\<close>

  \<^item> \<open>Prelude\<close>: errors (\<open>gerr\<close>), the result type \<open>res\<close>, procedures \<open>('s, 'a) proc\<close> (state passing with an error
    result) and their laws, bytes, and the locale \<open>cas_cell\<close>, a cell that is written only by guarded steps.
    \<open>GoStrings\<close>, \<open>Json\<close> and \<open>GoReaders\<close>: the parts of Go's \<open>strings\<close>, \<open>unicode/utf8\<close>, \<open>encoding/json\<close> and \<open>io\<close> that the
    code uses, with the JSON round trip and the locale \<open>byte_source\<close> of readers. \<open>JsonText\<close>: what the JSON
    parser reads from UTF-8 text is UTF-8.
  \<^item> \<open>Buffers\<close>: \<open>internal/tailbuffer\<close>, \<open>internal/prefixbuffer\<close> and the line writers of \<open>run.go\<close> and \<open>shard.go\<close>. Both
    buffers interpret the locale \<open>retaining_sink\<close>; the tail buffer shows the last bytes of all that was
    written, the line writer emits the whole input as prefixed lines, which depend on how the input was cut
    only where an unfinished line exceeds its limit.
  \<^item> \<open>Slugs\<close>: \<open>slug.go\<close>. Normal forms, allocation, provider names as DNS labels.
  \<^item> \<open>ClaimTypes\<close>, \<open>ClaimStore\<close>, \<open>ClaimOps\<close>, \<open>ClaimResolve\<close>: \<open>claim.go\<close>, \<open>claim_transaction.go\<close>, \<open>fixed_lease_claim.go\<close> and
    \<open>claims_prune.go\<close>. The structs are records with the source's fields, the directory an association list of
    files, a transaction a step on it. The store interprets \<open>cas_cell\<close>: of all updates computed from one
    snapshot at most one publishes. The operations respect the owner and the expected claim, the outcome of a
    conflict resolution is stated for every failure of it; resolution and pruning act on the claim they
    found under the lock.
  \<^item> \<open>Labels\<close>: \<open>provider_labels.go\<close> and the cleanup decision of \<open>hcloud.go\<close> and \<open>provider_backend.go\<close>. A touch never
    exceeds the lifetime (the written expiry is the earlier of its end and the idle end), and cleanup agrees
    with the expiry that was written.
  \<^item> \<open>FixedTx\<close>, \<open>FixedAdapter\<close>, \<open>FixedAcquire\<close>, \<open>FixedSafety\<close>, \<open>FixedIdentity\<close>, \<open>FixedRelease\<close>, \<open>FixedResolve\<close>:
    \<open>fixed_lease_protocol.go\<close>, \<open>fixed_lease_engine.go\<close>, \<open>fixed_lease.go\<close>, \<open>fixed_lease_resolve.go\<close>. A transaction
    is a record with the claim, its journal and a trace: the claims that reached the disk, the native
    submissions and deletions, the answer of a deletion, and the removal of an intent with its cause. A
    provider adapter is an arbitrary program over the exported methods and assignments to the claim in
    memory (\<open>adapter\<close>, \<open>CallEdit\<close>), so the theorems hold whatever it does. The locale \<open>tx_invariant\<close> states
    what each call keeps, and \<open>tx_steps\<close> gives it for every assignment; they are interpreted for the trace of
    an adapter (\<open>writes\<close>), for what any adapter may bring to disk (\<open>seals\<close>) and for the claim of an adapter
    that assigns only to labels (\<open>frozen\<close>). Shown: a submission is on disk before it is made; at most one
    is not certified as rejected; identity reaches the disk unchanged; a receipt is published only after
    proven absence or a deletion that answered without an error; no release loses the claim; resolution
    and recovery publish only what is durable, bound and absent.
  \<^item> \<open>Retention\<close>, \<open>RetentionLife\<close>: \<open>fixed_session_retention.go\<close>. The commands and claims of a pause or resume refine an
    abstract lifecycle machine, each native command is authorised by the claim on disk, and the mutation
    returns once the provider settles.
  \<^item> \<open>RunnerWire\<close>, \<open>RunnerProtocol\<close>, \<open>RunnerClient\<close>, \<open>RunnerResults\<close>, \<open>RunnerServe\<close>, \<open>RunnerTransfer\<close>: \<open>runnerwire/frame.go\<close>,
    \<open>protocol.go\<close>, \<open>client.go\<close>, \<open>transport.go\<close>, \<open>runnerfs/results.go\<close>, \<open>read.go\<close>, \<open>directory.go\<close>, \<open>server.go\<close>. Round trips
    of frames and of a whole collection (the files may change while they are read), well-formed headers, bounds on everything collected and sent, and
    that an archive is published only after a complete exchange.
  \<^item> \<open>ArchiveJournal\<close>: the definitions of \<open>archive_journal.go\<close> over a volume (the parent directory and the journal
    directory, each with the states since its last sync) and a machine whose calls may work, fail or die.
    \<open>ArchiveLogic\<close> has the triples \<open>stage\<close> over these procedures; \<open>ArchiveRecovery\<close>, \<open>ArchivePublish\<close> and
    \<open>ArchiveCrash\<close> have the triples of recovery, of reading a record and of a publication. \<open>ArchiveSafety\<close>
    closes them under losses of power and repeated recoveries with the locale \<open>resumable\<close>: what survives is
    atomic, an undisturbed recovery completes, a returned publication is durable. \<open>ArchiveAdopt\<close>: an adoption
    only moves trees.

  \<^bold>\<open>Parameters\<close>

  Code outside the modelled files is an argument: the provider (an adapter program, or a supply of
  observations indexed by the round), clocks and contexts (functions of the number of the reading), the
  transport of the runner, the disk and tree that results are collected from, the archive operations of the
  server, the JSON codecs of times and of opaque claim fields, the opened journal context, its lock and
  random token. What a theorem needs of one is a hypothesis of it, and its witness instantiates the
  parameter with a concrete value.

  \<^bold>\<open>Fuel\<close>

  \<^item> \<open>jvalue\<close> and the readers of \<open>GoReaders\<close> recurse on one more than the length of the text or stream, and are
    shown to finish with it. \<open>responseLoop\<close> takes one more than the bytes of the stream, and
    \<open>collect_returns\<close> shows that this suffices.
  \<^item> \<open>retentionLoop\<close> waits for a provider and may not end. It takes the number of rounds; safety is shown for
    every number, and \<open>retention_mutation_returns\<close> gives one that suffices once the provider has settled.
  \<^item> An archive machine has a list of fates, one for each call, and works when the list is used up. Safety is
    shown for every list, completion for the empty one.

  \<^bold>\<open>Findings\<close>

  \<^item> \<open>trailing_frame_prefix_accepted\<close>: \<open>readEnd\<close> accepts a stream that goes on with the prefix of another frame.
  \<^item> \<open>non_utf8_destination_is_stuck\<close>: a decision for a destination whose name is not UTF-8 is never carried out.
  \<^item> \<open>bounded_warnings_are_sent\<close>: a warning whose path is not UTF-8 makes the server refuse the result frame.

  \<^bold>\<open>Not modelled\<close>

  \<^item> The coordinator (\<open>worker\<close>, TypeScript) and its HTTP client; the provider adapters (\<open>internal/providers\<close>) and
    cloud SDK calls, which are pure input and output to services; the Swift daemon \<open>vmd\<close>.
  \<^item> Configuration (\<open>config.go\<close> and its generated companions), the run, checkpoint, desktop, Actions, pond and
    controller commands, ssh and synchronisation: orchestration of processes, sockets and remote tools. The
    settings and results that modelled code takes from them are arguments.
  \<^item> Bootstrap and cloud-init texts, which are mostly generated shell.
  \<^item> In the runner: creation and extraction of tar archives, the search of a path below an open root,
    \<open>Base64Transport\<close> and the delivery of the helper. In archive publication: path resolution and the checks
    of \<open>openArchiveJournal\<close>, which produce the context, and the destination's lock, which excludes other
    publications. Hard links and timestamps of published trees are not part of an entry.
  \<^item> A loss of power leaves a state that the directory had since its last sync; that a file system reorders
    changes within one directory is not modelled, so the syncs between the moves of one decision are not
    needed by the theorems. The contents of a journal file are durable with its name; the \<open>file.Sync\<close> of
    \<open>linkDecision\<close> is a call that may fail and has no other effect. Claim files are replaced atomically.
  \<^item> The attempts that follow an interrupted publication are recoveries (the first part of every later
    publication); a new payload over an unfinished decision is not followed further. Safety and completion
    are stated for destinations whose name is UTF-8.
  \<^item> Times and durations of labels and the revision of a retention journal are unbounded integers; at their
    widths they do not wrap for any realistic clock. \<open>uniqueObjectKeys\<close> accepts numbers out of the range of a
    float, which Go's decoder refuses. While a directory is
    listed the context is read for each entry, not again for each batch of entries.
\<close>

end
